(* ===== verification/Rust_Prelude.thy ===== *)
theory Rust_Prelude
  imports Main "HOL-Library.Word"
begin

text \<open>
  Shared ground of the development: the machine-integer types of the Rust sources,
  \<open>Result\<close> values as sums (\<open>Inl\<close> is \<open>Err\<close>, \<open>Inr\<close> is \<open>Ok\<close>) with the \<open>?\<close> operator,
  big-endian byte codecs, slices, the saturating and checked arithmetic of the standard
  library, strings as the code points or bytes the code works on, and the generic list and
  word lemmas that the component proofs share.  Lengths and offsets (\<open>usize\<close>) are \<open>nat\<close>:
  a slice never exceeds \<open>isize::MAX\<close> bytes, so additions of two offsets do not wrap.
\<close>

unbundle bit_operations_syntax

named_theorems wire_simps \<open>layout facts of encoders: lengths, fields and big-endian round trips\<close>
named_theorems result_simps \<open>case analysis of Result-valued definitions\<close>

section \<open>Machine integers\<close>

type_synonym u8 = "8 word"
type_synonym u16 = "16 word"
type_synonym u32 = "32 word"
type_synonym u64 = "64 word"
type_synonym u128 = "128 word"
type_synonym bytes = "u8 list"

abbreviation u8_max :: nat where "u8_max \<equiv> 255"
abbreviation u16_max :: nat where "u16_max \<equiv> 65535"
abbreviation u32_max :: nat where "u32_max \<equiv> 4294967295"
abbreviation u64_max :: nat where "u64_max \<equiv> 18446744073709551615"

definition saturating_add :: "'a::len word \<Rightarrow> 'a word \<Rightarrow> 'a word" where
  "saturating_add a b = (if unat a + unat b < 2 ^ LENGTH('a) then a + b else - 1)"

definition saturating_sub :: "'a::len word \<Rightarrow> 'a word \<Rightarrow> 'a word" where
  "saturating_sub a b = (if b \<le> a then a - b else 0)"

definition saturating_mul :: "'a::len word \<Rightarrow> 'a word \<Rightarrow> 'a word" where
  "saturating_mul a b = (if unat a * unat b < 2 ^ LENGTH('a) then a * b else - 1)"

definition div_ceil :: "nat \<Rightarrow> nat \<Rightarrow> nat" where
  "div_ceil a b = (if a mod b = 0 then a div b else a div b + 1)"

definition u8_try_from :: "nat \<Rightarrow> u8 option" where
  "u8_try_from n = (if n \<le> u8_max then Some (word_of_nat n) else None)"

lemma unat_minus_one_max: "unat (- 1 :: 'a::len word) = 2 ^ LENGTH('a) - 1"
  by (simp add: unsigned_minus_1_eq_mask mask_eq_exp_minus_1)

lemma unat_saturating_add:
  "unat (saturating_add a b) = min (unat a + unat b) (2 ^ LENGTH('a) - 1)"
  for a b :: "'a::len word"
  by (auto simp: saturating_add_def unat_minus_one_max unat_word_ariths)

lemma unat_saturating_sub: "unat (saturating_sub a b) = unat a - unat b"
  for a b :: "'a::len word"
  by (auto simp: saturating_sub_def unat_sub word_le_nat_alt)

lemma unat_saturating_mul:
  "unat (saturating_mul a b) = min (unat a * unat b) (2 ^ LENGTH('a) - 1)"
  for a b :: "'a::len word"
  by (auto simp: saturating_mul_def unat_minus_one_max unat_word_ariths)

lemma unat_u8_le [simp]: "unat (b :: u8) \<le> 255"
  using unsigned_less [where 'a = nat, of b] by simp

lemma unat_u8_less [simp]: "unat (b :: u8) < 256"
  using unsigned_less [where 'a = nat, of b] by simp

lemma unat_u16_less [simp]: "unat (b :: u16) < 65536"
  using unsigned_less [where 'a = nat, of b] by simp

lemma unat_u32_less [simp]: "unat (b :: u32) < 4294967296"
  using unsigned_less [where 'a = nat, of b] by simp

lemma unat_u64_less [simp]: "unat (b :: u64) < 18446744073709551616"
  using unsigned_less [where 'a = nat, of b] by simp

lemma u8_try_from_Some [simp]: "u8_try_from n = Some w \<longleftrightarrow> n \<le> 255 \<and> w = word_of_nat n"
  by (auto simp: u8_try_from_def)

lemma u8_try_from_None [simp]: "u8_try_from n = None \<longleftrightarrow> 255 < n"
  by (auto simp: u8_try_from_def)

lemma unat_u8_of_nat [simp]: "n \<le> 255 \<Longrightarrow> unat (word_of_nat n :: u8) = n"
  by (simp add: unat_of_nat)

lemma unat_u16_of_nat [simp]: "n \<le> 65535 \<Longrightarrow> unat (word_of_nat n :: u16) = n"
  by (simp add: unat_of_nat)

lemma unat_u32_of_nat [simp]: "n \<le> 4294967295 \<Longrightarrow> unat (word_of_nat n :: u32) = n"
  by (simp add: unat_of_nat)

lemma unat_u64_of_nat [simp]: "n \<le> 18446744073709551615 \<Longrightarrow> unat (word_of_nat n :: u64) = n"
  by (simp add: unat_of_nat)

lemma div_ceil_bounds: "0 < b \<Longrightarrow> a \<le> div_ceil a b * b \<and> div_ceil a b * b < a + b"
  by (auto simp: div_ceil_def algebra_simps)
     (metis add.commute div_mult_mod_eq less_add_same_cancel2 mod_less_divisor mult.commute
        nat_add_left_cancel_le less_imp_le_nat | presburger)+

section \<open>Results\<close>

text \<open>\<open>rbind r f\<close> is the \<open>?\<close> operator: an \<open>Err\<close> leaves the function at once.\<close>

definition rbind :: "'e + 'a \<Rightarrow> ('a \<Rightarrow> 'e + 'b) \<Rightarrow> 'e + 'b" where
  "rbind r f = (case r of Inl e \<Rightarrow> Inl e | Inr x \<Rightarrow> f x)"

definition ok_or :: "'a option \<Rightarrow> 'e \<Rightarrow> 'e + 'a" where
  "ok_or x e = (case x of None \<Rightarrow> Inl e | Some v \<Rightarrow> Inr v)"

definition rmap :: "('a \<Rightarrow> 'b) \<Rightarrow> 'e + 'a \<Rightarrow> 'e + 'b" where
  "rmap f r = (case r of Inl e \<Rightarrow> Inl e | Inr x \<Rightarrow> Inr (f x))"

definition is_ok :: "'e + 'a \<Rightarrow> bool" where
  "is_ok r = (case r of Inl _ \<Rightarrow> False | Inr _ \<Rightarrow> True)"

lemma rbind_simps [simp]: "rbind (Inl e) f = Inl e" "rbind (Inr x) f = f x"
  by (simp_all add: rbind_def)

lemma rmap_simps [simp]: "rmap g (Inl e) = Inl e" "rmap g (Inr x) = Inr (g x)"
  by (simp_all add: rmap_def)

lemma ok_or_simps [simp]: "ok_or None e = Inl e" "ok_or (Some v) e = Inr v"
  by (simp_all add: ok_or_def)

lemma is_ok_simps [simp]: "\<not> is_ok (Inl e)" "is_ok (Inr x)"
  by (simp_all add: is_ok_def)

lemma rbind_eq_Inr: "rbind r f = Inr y \<longleftrightarrow> (\<exists>x. r = Inr x \<and> f x = Inr y)"
  by (cases r) auto

lemma rbind_eq_Inl: "rbind r f = Inl e \<longleftrightarrow> r = Inl e \<or> (\<exists>x. r = Inr x \<and> f x = Inl e)"
  by (cases r) auto

lemma ok_or_eq_Inr [simp]: "ok_or x e = Inr y \<longleftrightarrow> x = Some y"
  by (cases x) auto

lemma rmap_eq_Inr: "rmap g r = Inr y \<longleftrightarrow> (\<exists>x. r = Inr x \<and> y = g x)"
  by (cases r) auto

lemmas [result_simps] = rbind_eq_Inr rbind_eq_Inl rmap_eq_Inr

fun rmapM :: "('a \<Rightarrow> 'e + 'b) \<Rightarrow> 'a list \<Rightarrow> 'e + 'b list" where
  "rmapM f [] = Inr []"
| "rmapM f (x # xs) = rbind (f x) (\<lambda>y. rbind (rmapM f xs) (\<lambda>ys. Inr (y # ys)))"

lemma rmapM_length: "rmapM f xs = Inr ys \<Longrightarrow> length ys = length xs"
  by (induction xs arbitrary: ys) (auto simp: result_simps)

lemma rmapM_Inr: "rmapM f xs = Inr ys \<Longrightarrow> list_all2 (\<lambda>x y. f x = Inr y) xs ys"
  by (induction xs arbitrary: ys) (auto simp: result_simps)

section \<open>Slices\<close>

text \<open>\<open>xs[a..b]\<close>: the code only takes it after its own bounds checks; \<open>get_range\<close> is
  \<open>slice::get(a..b)\<close>, which is \<open>None\<close> out of range.\<close>

definition slice_of :: "'a list \<Rightarrow> nat \<Rightarrow> nat \<Rightarrow> 'a list" where
  "slice_of xs a b = take (b - a) (drop a xs)"

definition get_range :: "'a list \<Rightarrow> nat \<Rightarrow> nat \<Rightarrow> 'a list option" where
  "get_range xs a b = (if a \<le> b \<and> b \<le> length xs then Some (slice_of xs a b) else None)"

definition get_from :: "'a list \<Rightarrow> nat \<Rightarrow> 'a list option" where
  "get_from xs a = (if a \<le> length xs then Some (drop a xs) else None)"

definition get_at :: "'a list \<Rightarrow> nat \<Rightarrow> 'a option" where
  "get_at xs i = (if i < length xs then Some (xs ! i) else None)"

lemma length_slice_of [simp]: "b \<le> length xs \<Longrightarrow> length (slice_of xs a b) = b - a"
  by (simp add: slice_of_def)

lemma slice_append_mid:
  "xs = p @ m @ s \<Longrightarrow> a = length p \<Longrightarrow> b = a + length m \<Longrightarrow> slice_of xs a b = m"
  by (simp add: slice_of_def)

lemma get_at_eq_Some [simp]: "get_at xs i = Some x \<longleftrightarrow> i < length xs \<and> xs ! i = x"
  by (auto simp: get_at_def)

section \<open>Big-endian integers\<close>

fun nat_to_be :: "nat \<Rightarrow> nat \<Rightarrow> bytes" where
  "nat_to_be 0 x = []"
| "nat_to_be (Suc n) x = nat_to_be n (x div 256) @ [word_of_nat (x mod 256)]"

definition be_to_nat :: "bytes \<Rightarrow> nat" where
  "be_to_nat bs = foldl (\<lambda>acc b. acc * 256 + unat b) 0 bs"

lemma length_nat_to_be [simp, wire_simps]: "length (nat_to_be n x) = n"
  by (induction n arbitrary: x) auto

lemma nat_to_be_numeral:
  "nat_to_be (numeral k) x = nat_to_be (pred_numeral k) (x div 256) @ [word_of_nat (x mod 256)]"
  by (simp only: numeral_eq_Suc [of k] nat_to_be.simps)

lemma be_to_nat_Nil [simp]: "be_to_nat [] = 0"
  by (simp add: be_to_nat_def)

lemma be_to_nat_snoc [simp]: "be_to_nat (bs @ [b]) = be_to_nat bs * 256 + unat b"
  by (simp add: be_to_nat_def)

lemma be_to_nat_bound: "be_to_nat bs < 256 ^ length bs"
proof (induction bs rule: rev_induct)
  case Nil
  then show ?case by simp
next
  case (snoc b bs)
  have "be_to_nat bs * 256 + unat b < (be_to_nat bs + 1) * 256" by simp
  also have "\<dots> \<le> 256 ^ length bs * 256" using snoc by (intro mult_right_mono) auto
  finally show ?case by (simp add: mult.commute)
qed

lemma be_to_nat_to_be: "be_to_nat (nat_to_be n x) = x mod 256 ^ n"
proof (induction n arbitrary: x)
  case 0
  then show ?case by simp
next
  case (Suc n)
  have "be_to_nat (nat_to_be (Suc n) x) = (x div 256 mod 256 ^ n) * 256 + x mod 256"
    by (simp add: Suc unat_of_nat)
  also have "\<dots> = x mod (256 * 256 ^ n)" by (simp add: mod_mult2_eq)
  finally show ?case by simp
qed

lemma nat_to_be_to_nat: "nat_to_be (length bs) (be_to_nat bs) = bs"
  by (induction bs rule: rev_induct) (auto simp: div_add1_eq)

lemma be_to_nat_Cons: "be_to_nat (v # vs) = unat v * 256 ^ length vs + be_to_nat vs"
proof (induction vs rule: rev_induct)
  case Nil
  then show ?case by (simp add: be_to_nat_def)
next
  case (snoc b vs)
  then show ?case using be_to_nat_snoc [of "v # vs" b] by (simp add: algebra_simps)
qed

lemma be_to_nat_zeros: "be_to_nat (replicate k 0 @ v) = be_to_nat v"
  by (induction k) (simp_all add: be_to_nat_def)

definition u16_be :: "u16 \<Rightarrow> bytes" where "u16_be w = nat_to_be 2 (unat w)"
definition u32_be :: "u32 \<Rightarrow> bytes" where "u32_be w = nat_to_be 4 (unat w)"
definition u64_be :: "u64 \<Rightarrow> bytes" where "u64_be w = nat_to_be 8 (unat w)"
definition u16_from_be :: "bytes \<Rightarrow> u16" where "u16_from_be bs = word_of_nat (be_to_nat bs)"
definition u32_from_be :: "bytes \<Rightarrow> u32" where "u32_from_be bs = word_of_nat (be_to_nat bs)"
definition u64_from_be :: "bytes \<Rightarrow> u64" where "u64_from_be bs = word_of_nat (be_to_nat bs)"

text \<open>The contract of a fixed-width field codec, shared by every wire format below.\<close>

locale be_field =
  fixes width :: nat
    and to_be :: "'w \<Rightarrow> bytes"
    and from_be :: "bytes \<Rightarrow> 'w"
  assumes to_be_length: "length (to_be w) = width"
    and from_to_be: "from_be (to_be w) = w"
    and to_from_be: "length bs = width \<Longrightarrow> to_be (from_be bs) = bs"
begin

lemma from_be_take: "from_be (take width (to_be w @ rest)) = w"
  by (simp add: to_be_length from_to_be)

lemma from_be_slice:
  assumes "length pre = a" and "b = a + width"
  shows "from_be (slice_of (pre @ to_be w @ rest) a b) = w"
  using assms by (simp add: slice_of_def to_be_length from_to_be)

lemma to_be_inject: "to_be v = to_be w \<longleftrightarrow> v = w"
  by (metis from_to_be)

lemma drop_to_be: "drop width (to_be w @ rest) = rest"
  by (simp add: to_be_length)

end

interpretation be16: be_field 2 u16_be u16_from_be
proof unfold_locales
  show "length (u16_be w) = 2" for w by (simp add: u16_be_def)
  show "u16_from_be (u16_be w) = w" for w
    by (simp add: u16_from_be_def u16_be_def be_to_nat_to_be)
  show "u16_be (u16_from_be bs) = bs" if "length bs = 2" for bs
    using that be_to_nat_bound [of bs] nat_to_be_to_nat [of bs]
    by (simp add: u16_from_be_def u16_be_def unat_of_nat)
qed

interpretation be32: be_field 4 u32_be u32_from_be
proof unfold_locales
  show "length (u32_be w) = 4" for w by (simp add: u32_be_def)
  show "u32_from_be (u32_be w) = w" for w
    by (simp add: u32_from_be_def u32_be_def be_to_nat_to_be)
  show "u32_be (u32_from_be bs) = bs" if "length bs = 4" for bs
    using that be_to_nat_bound [of bs] nat_to_be_to_nat [of bs]
    by (simp add: u32_from_be_def u32_be_def unat_of_nat)
qed

interpretation be64: be_field 8 u64_be u64_from_be
proof unfold_locales
  show "length (u64_be w) = 8" for w by (simp add: u64_be_def)
  show "u64_from_be (u64_be w) = w" for w
    by (simp add: u64_from_be_def u64_be_def be_to_nat_to_be)
  show "u64_be (u64_from_be bs) = bs" if "length bs = 8" for bs
    using that be_to_nat_bound [of bs] nat_to_be_to_nat [of bs]
    by (simp add: u64_from_be_def u64_be_def unat_of_nat)
qed

lemmas [simp, wire_simps] = be16.to_be_length be32.to_be_length be64.to_be_length
  be16.from_to_be be32.from_to_be be64.from_to_be

lemma u16_be_Cons: "\<exists>a b. u16_be w = [a, b]"
  by (simp add: u16_be_def nat_to_be_numeral)

section \<open>The contract of a wire codec\<close>

text \<open>
  An encoder may fill in derived fields (lengths, chain pointers); \<open>norm\<close> is the message with
  those fields filled in.  The laws: decoding an encoded well-formed message gives its normal
  form, and whatever the decoder accepts is well-formed, normal and encodable again.
\<close>

locale wire_codec =
  fixes enc :: "'m \<Rightarrow> 'e + bytes"
    and dec :: "bytes \<Rightarrow> 'e + 'm"
    and wf :: "'m \<Rightarrow> bool"
    and norm :: "'m \<Rightarrow> 'm"
  assumes dec_enc: "wf m \<Longrightarrow> enc m = Inr bs \<Longrightarrow> dec bs = Inr (norm m)"
    and dec_wf: "dec bs = Inr m \<Longrightarrow> wf m"
    and dec_norm: "dec bs = Inr m \<Longrightarrow> norm m = m"
    and dec_encodable: "dec bs = Inr m \<Longrightarrow> \<exists>bs'. enc m = Inr bs' \<and> length bs' = length bs"
begin

lemma reencode_stable:
  assumes "dec bs = Inr m"
  shows "\<exists>bs'. enc m = Inr bs' \<and> length bs' = length bs \<and> dec bs' = Inr m"
  using dec_encodable [OF assms] dec_enc [OF dec_wf [OF assms]] dec_norm [OF assms] by force

lemma enc_inject:
  assumes "wf m" "wf n" "enc m = Inr bs" "enc n = Inr bs"
  shows "norm m = norm n"
  using dec_enc [OF assms(1,3)] dec_enc [OF assms(2,4)] by simp

end

section \<open>The contract of a chunk parser\<close>

text \<open>
  A parser loop reads one element from the front of the remaining octets, drops the octets it
  took and goes on until none are left; the first error leaves the loop.  On a concatenation of
  chunks, each of which the element parser reads whatever follows it, the loop returns exactly
  the elements, in order.
\<close>

locale chunk_parser =
  fixes one :: "bytes \<Rightarrow> 'e + 'a \<times> nat"
    and loop :: "bytes \<Rightarrow> 'e + 'a list"
  assumes loop_Nil: "loop [] = Inr []"
    and loop_fail: "input \<noteq> [] \<Longrightarrow> one input = Inl e \<Longrightarrow> loop input = Inl e"
    and loop_step: "input \<noteq> [] \<Longrightarrow> one input = Inr (a, n) \<Longrightarrow>
      loop input = rbind (loop (drop n input)) (\<lambda>as. Inr (a # as))"
begin

definition reads :: "bytes \<Rightarrow> 'a \<Rightarrow> bool" where
  "reads c a \<longleftrightarrow> c \<noteq> [] \<and> (\<forall>rest. one (c @ rest) = Inr (a, length c))"

lemma loop_append: "reads c a \<Longrightarrow> loop (c @ rest) = rbind (loop rest) (\<lambda>as. Inr (a # as))"
  by (auto simp: reads_def loop_step [of "c @ rest" a "length c"])

lemma loop_concat: "list_all2 reads cs as \<Longrightarrow> loop (concat cs) = Inr as"
  by (induction cs as rule: list_all2_induct) (auto simp: loop_Nil loop_append)

lemma loop_append_fail:
  assumes "list_all2 reads cs as" and "rest \<noteq> []" and "one rest = Inl e"
  shows "loop (concat cs @ rest) = Inl e"
  using assms by (induction cs as rule: list_all2_induct) (auto simp: loop_append loop_fail)

end

section \<open>Strings\<close>

text \<open>\<open>string\<close> is a Rust \<open>str\<close> seen as its UTF-8 bytes; \<open>ustring\<close> is a \<open>str\<close> seen as its
  \<open>chars()\<close>, each a Unicode scalar value.\<close>

type_synonym ustring = "nat list"

definition as_bytes :: "string \<Rightarrow> bytes" where
  "as_bytes s = map of_char s"

definition us :: "string \<Rightarrow> ustring" where
  "us s = map of_char s"

lemma length_as_bytes [simp]: "length (as_bytes s) = length s"
  by (simp add: as_bytes_def)

fun split_on :: "'a \<Rightarrow> 'a list \<Rightarrow> 'a list list" where
  "split_on c [] = [[]]"
| "split_on c (x # xs) =
     (if x = c then [] # split_on c xs
      else case split_on c xs of [] \<Rightarrow> [[x]] | y # ys \<Rightarrow> (x # y) # ys)"

lemma split_on_ne [simp]: "split_on c xs \<noteq> []"
  by (induction xs) (auto split: list.splits)

definition starts_with :: "'a list \<Rightarrow> 'a list \<Rightarrow> bool" where
  "starts_with s p \<longleftrightarrow> take (length p) s = p"

definition ascii_lower :: "char \<Rightarrow> char" where
  "ascii_lower c = (if 65 \<le> (of_char c :: nat) \<and> (of_char c :: nat) \<le> 90
     then char_of ((of_char c :: nat) + 32) else c)"

definition to_ascii_lowercase :: "string \<Rightarrow> string" where
  "to_ascii_lowercase s = map ascii_lower s"

definition eq_ignore_ascii_case :: "string \<Rightarrow> string \<Rightarrow> bool" where
  "eq_ignore_ascii_case a b \<longleftrightarrow> to_ascii_lowercase a = to_ascii_lowercase b"

text \<open>\<open>str::contains\<close> and \<open>{}\<close> of an unsigned number.\<close>

fun str_contains :: "'a list \<Rightarrow> 'a list \<Rightarrow> bool" where
  "str_contains [] p \<longleftrightarrow> p = []"
| "str_contains (x # xs) p \<longleftrightarrow> starts_with (x # xs) p \<or> str_contains xs p"

fun show_nat :: "nat \<Rightarrow> string" where
  "show_nat n = (if n < 10 then [char_of (48 + n)]
     else show_nat (n div 10) @ [char_of (48 + n mod 10)])"

declare show_nat.simps [simp del]

section \<open>Searching\<close>

lemma find_append: "List.find P (xs @ ys) = (case List.find P xs of None \<Rightarrow> List.find P ys | Some x \<Rightarrow> Some x)"
  by (induction xs) auto

lemma find_distinct:
  "distinct (map f xs) \<Longrightarrow> List.find (\<lambda>x. f x = k) xs = Some x \<longleftrightarrow> x \<in> set xs \<and> f x = k"
  by (induction xs) auto

section \<open>Clock readings\<close>

text \<open>\<open>Instant\<close> and \<open>Duration\<close> are natural numbers of nanoseconds; \<open>Instant::checked_add\<close> fails past
  the last instant of the platform's clock (64-bit signed seconds).\<close>

type_synonym Instant = nat
type_synonym Duration = nat

definition from_secs :: "nat \<Rightarrow> Duration" where
  "from_secs n = n * 1000000000"

definition instant_max :: Instant where
  "instant_max = 2 ^ 63 * 1000000000 - 1"

definition checked_add_instant :: "Instant \<Rightarrow> Duration \<Rightarrow> Instant option" where
  "checked_add_instant t d = (if t + d \<le> instant_max then Some (t + d) else None)"

definition saturating_duration_since :: "Instant \<Rightarrow> Instant \<Rightarrow> Duration" where
  "saturating_duration_since t now = t - now"

end
