(* ===== verification/Ike_Codec.thy ===== *)
theory Ike_Codec
  imports Rust_Prelude
begin

text \<open>
  The IKEv2 message codec of \<open>connectivity/modems/ims/vowifi/ike_codec.rs\<close>: payload and
  exchange types, the flag octet, the 28-octet header, the chain of generic payloads, and
  \<open>IkeMessage::encode\<close> / \<open>IkeMessage::decode\<close> with every error they return.
\<close>

section \<open>Data\<close>

abbreviation IKEV2_MAJOR_VERSION :: u8 where "IKEV2_MAJOR_VERSION \<equiv> 2"
abbreviation IKE_HEADER_LEN :: nat where "IKE_HEADER_LEN \<equiv> 28"
abbreviation GENERIC_PAYLOAD_HEADER_LEN :: nat where "GENERIC_PAYLOAD_HEADER_LEN \<equiv> 4"

datatype IkePayloadType =
    NoNext | SecurityAssociation | KeyExchange | IdentificationInitiator
  | IdentificationResponder | Certificate | CertificateRequest | Authentication | Nonce
  | Notify | Delete | VendorId | TrafficSelectorInitiator | TrafficSelectorResponder
  | Encrypted | Configuration | ExtensibleAuthentication | EncryptedFragment
  | UnknownPayload u8

definition payload_type_from_u8 :: "u8 \<Rightarrow> IkePayloadType" where
  "payload_type_from_u8 value =
     (if value = 0 then NoNext
      else if value = 33 then SecurityAssociation
      else if value = 34 then KeyExchange
      else if value = 35 then IdentificationInitiator
      else if value = 36 then IdentificationResponder
      else if value = 37 then Certificate
      else if value = 38 then CertificateRequest
      else if value = 39 then Authentication
      else if value = 40 then Nonce
      else if value = 41 then Notify
      else if value = 42 then Delete
      else if value = 43 then VendorId
      else if value = 44 then TrafficSelectorInitiator
      else if value = 45 then TrafficSelectorResponder
      else if value = 46 then Encrypted
      else if value = 47 then Configuration
      else if value = 48 then ExtensibleAuthentication
      else if value = 53 then EncryptedFragment
      else UnknownPayload value)"

fun payload_type_as_u8 :: "IkePayloadType \<Rightarrow> u8" where
  "payload_type_as_u8 NoNext = 0"
| "payload_type_as_u8 SecurityAssociation = 33"
| "payload_type_as_u8 KeyExchange = 34"
| "payload_type_as_u8 IdentificationInitiator = 35"
| "payload_type_as_u8 IdentificationResponder = 36"
| "payload_type_as_u8 Certificate = 37"
| "payload_type_as_u8 CertificateRequest = 38"
| "payload_type_as_u8 Authentication = 39"
| "payload_type_as_u8 Nonce = 40"
| "payload_type_as_u8 Notify = 41"
| "payload_type_as_u8 Delete = 42"
| "payload_type_as_u8 VendorId = 43"
| "payload_type_as_u8 TrafficSelectorInitiator = 44"
| "payload_type_as_u8 TrafficSelectorResponder = 45"
| "payload_type_as_u8 Encrypted = 46"
| "payload_type_as_u8 Configuration = 47"
| "payload_type_as_u8 ExtensibleAuthentication = 48"
| "payload_type_as_u8 EncryptedFragment = 53"
| "payload_type_as_u8 (UnknownPayload value) = value"

datatype IkeExchangeType =
  IkeSaInit | IkeAuth | CreateChildSa | Informational | SessionResume | UnknownExchange u8

definition exchange_type_from_u8 :: "u8 \<Rightarrow> IkeExchangeType" where
  "exchange_type_from_u8 value =
     (if value = 34 then IkeSaInit
      else if value = 35 then IkeAuth
      else if value = 36 then CreateChildSa
      else if value = 37 then Informational
      else if value = 38 then SessionResume
      else UnknownExchange value)"

fun exchange_type_as_u8 :: "IkeExchangeType \<Rightarrow> u8" where
  "exchange_type_as_u8 IkeSaInit = 34"
| "exchange_type_as_u8 IkeAuth = 35"
| "exchange_type_as_u8 CreateChildSa = 36"
| "exchange_type_as_u8 Informational = 37"
| "exchange_type_as_u8 SessionResume = 38"
| "exchange_type_as_u8 (UnknownExchange value) = value"

record IkeFlags =
  initiator :: bool
  response :: bool
  version :: bool

definition request_from_initiator :: IkeFlags where
  "request_from_initiator = \<lparr>initiator = True, response = False, version = False\<rparr>"

definition flags_from_u8 :: "u8 \<Rightarrow> IkeFlags" where
  "flags_from_u8 value = \<lparr>
     initiator = value AND 0x08 \<noteq> 0,
     response = value AND 0x20 \<noteq> 0,
     version = value AND 0x10 \<noteq> 0\<rparr>"

definition flags_as_u8 :: "IkeFlags \<Rightarrow> u8" where
  "flags_as_u8 f =
     (let value = 0;
          value = (if response f then value OR 0x20 else value);
          value = (if version f then value OR 0x10 else value);
          value = (if initiator f then value OR 0x08 else value)
      in value)"

record IkeHeader =
  initiator_spi :: u64
  responder_spi :: u64
  next_payload :: IkePayloadType
  major_version :: u8
  minor_version :: u8
  exchange_type :: IkeExchangeType
  header_flags :: IkeFlags
  message_id :: u32
  header_length :: u32

record IkePayload =
  payload_type :: IkePayloadType
  critical :: bool
  body :: bytes

record IkeMessage =
  header :: IkeHeader
  payloads :: "IkePayload list"

datatype IkeCodecError =
    TruncatedHeader
  | TruncatedPayload
  | InvalidMajorVersion u8
  | InvalidMessageLength nat nat
  | InvalidPayloadLength nat
  | MessageTooLarge nat

section \<open>Encoding\<close>

text \<open>The type of the first payload of a chain, \<open>NoNext\<close> for an empty one.\<close>

definition first_type :: "IkePayload list \<Rightarrow> IkePayloadType" where
  "first_type ps = (case ps of [] \<Rightarrow> NoNext | p # _ \<Rightarrow> payload_type p)"

definition new_request :: "u64 \<Rightarrow> IkeExchangeType \<Rightarrow> u32 \<Rightarrow> IkePayload list \<Rightarrow> IkeMessage" where
  "new_request spi exchange mid ps = \<lparr>
     header = \<lparr>
       initiator_spi = spi,
       responder_spi = 0,
       next_payload = first_type ps,
       major_version = IKEV2_MAJOR_VERSION,
       minor_version = 0,
       exchange_type = exchange,
       header_flags = request_from_initiator,
       message_id = mid,
       header_length = 0\<rparr>,
     payloads = ps\<rparr>"

definition encode_payload :: "IkePayload \<Rightarrow> IkePayloadType \<Rightarrow> IkeCodecError + bytes" where
  "encode_payload p next_type =
     (let payload_len = GENERIC_PAYLOAD_HEADER_LEN + length (body p)
      in if payload_len > u16_max then Inl (MessageTooLarge payload_len)
         else Inr ([payload_type_as_u8 next_type, if critical p then 0x80 else 0]
                   @ u16_be (word_of_nat payload_len) @ body p))"

fun encode_payloads :: "IkePayload list \<Rightarrow> IkeCodecError + bytes" where
  "encode_payloads [] = Inr []"
| "encode_payloads (p # ps) =
     rbind (encode_payload p (first_type ps)) (\<lambda>here.
     rbind (encode_payloads ps) (\<lambda>rest. Inr (here @ rest)))"

definition payloads_len :: "IkePayload list \<Rightarrow> nat" where
  "payloads_len ps = (\<Sum>p \<leftarrow> ps. GENERIC_PAYLOAD_HEADER_LEN + length (body p))"

definition encode_header :: "IkeHeader \<Rightarrow> IkePayloadType \<Rightarrow> nat \<Rightarrow> bytes" where
  "encode_header h first total_len =
     u64_be (initiator_spi h) @ u64_be (responder_spi h)
     @ [payload_type_as_u8 first,
        push_bit 4 (major_version h) OR (minor_version h AND 0x0f),
        exchange_type_as_u8 (exchange_type h),
        flags_as_u8 (header_flags h)]
     @ u32_be (message_id h) @ u32_be (word_of_nat total_len)"

definition encode :: "IkeMessage \<Rightarrow> IkeCodecError + bytes" where
  "encode m =
     (let total_len = IKE_HEADER_LEN + payloads_len (payloads m)
      in if total_len > u32_max then Inl (MessageTooLarge total_len)
         else rbind (encode_payloads (payloads m)) (\<lambda>rest.
           Inr (encode_header (header m) (first_type (payloads m)) total_len @ rest)))"

section \<open>Decoding\<close>

function decode_payloads ::
  "bytes \<Rightarrow> nat \<Rightarrow> IkePayloadType \<Rightarrow> IkePayload list \<Rightarrow> IkeCodecError + nat \<times> IkePayload list" where
  "decode_payloads input offset current ps =
     (if current = NoNext then Inr (offset, ps)
      else if length input - offset < GENERIC_PAYLOAD_HEADER_LEN then Inl TruncatedPayload
      else
        let following = payload_type_from_u8 (input ! offset);
            is_critical = (input ! (offset + 1) AND 0x80 \<noteq> 0);
            payload_len = unat (u16_from_be (slice_of input (offset + 2) (offset + 4)));
            end_offset = offset + payload_len
        in if payload_len < GENERIC_PAYLOAD_HEADER_LEN then Inl (InvalidPayloadLength payload_len)
           else if end_offset > length input then Inl TruncatedPayload
           else decode_payloads input end_offset following
             (ps @ [\<lparr>payload_type = current, critical = is_critical,
                     body = slice_of input (offset + GENERIC_PAYLOAD_HEADER_LEN) end_offset\<rparr>]))"
  by pat_completeness auto
termination
  by (relation "measure (\<lambda>(input, offset, _). length input - offset)") auto

definition decode :: "bytes \<Rightarrow> IkeCodecError + IkeMessage" where
  "decode input =
     (if length input < IKE_HEADER_LEN then Inl TruncatedHeader
      else
        let next = payload_type_from_u8 (input ! 16);
            ver = input ! 17;
            major = drop_bit 4 ver;
            minor = ver AND 0x0f
        in if major \<noteq> IKEV2_MAJOR_VERSION then Inl (InvalidMajorVersion major)
           else
             let len = u32_from_be (slice_of input 24 28);
                 declared = unat len
             in if declared \<noteq> length input then Inl (InvalidMessageLength declared (length input))
                else rbind (decode_payloads input IKE_HEADER_LEN next []) (\<lambda>(offset, ps).
                  if offset \<noteq> length input then Inl (InvalidMessageLength offset (length input))
                  else Inr \<lparr>
                    header = \<lparr>
                      initiator_spi = u64_from_be (slice_of input 0 8),
                      responder_spi = u64_from_be (slice_of input 8 16),
                      next_payload = next,
                      major_version = major,
                      minor_version = minor,
                      exchange_type = exchange_type_from_u8 (input ! 18),
                      header_flags = flags_from_u8 (input ! 19),
                      message_id = u32_from_be (slice_of input 20 24),
                      header_length = len\<rparr>,
                    payloads = ps\<rparr>))"

declare decode_payloads.simps [simp del]

definition security_association :: "bytes \<Rightarrow> IkePayload" where
  "security_association b = \<lparr>payload_type = SecurityAssociation, critical = False, body = b\<rparr>"

definition key_exchange :: "bytes \<Rightarrow> IkePayload" where
  "key_exchange b = \<lparr>payload_type = KeyExchange, critical = False, body = b\<rparr>"

definition nonce :: "bytes \<Rightarrow> IkePayload" where
  "nonce b = \<lparr>payload_type = Nonce, critical = False, body = b\<rparr>"

section \<open>Code points\<close>

lemma payload_type_round_trip [simp]: "payload_type_as_u8 (payload_type_from_u8 v) = v"
  by (simp add: payload_type_from_u8_def)

lemma exchange_type_round_trip [simp]: "exchange_type_as_u8 (exchange_type_from_u8 v) = v"
  by (simp add: exchange_type_from_u8_def)

text \<open>A type is canonical when its octet reads back as itself: \<open>Unknown\<close> must not carry the
  octet of a named type.\<close>

definition canonical_payload_type :: "IkePayloadType \<Rightarrow> bool" where
  "canonical_payload_type t \<longleftrightarrow> payload_type_from_u8 (payload_type_as_u8 t) = t"

definition canonical_exchange_type :: "IkeExchangeType \<Rightarrow> bool" where
  "canonical_exchange_type t \<longleftrightarrow> exchange_type_from_u8 (exchange_type_as_u8 t) = t"

lemma canonical_from_u8 [simp]:
  "canonical_payload_type (payload_type_from_u8 v)"
  "canonical_exchange_type (exchange_type_from_u8 v)"
  by (simp_all add: canonical_payload_type_def canonical_exchange_type_def)

lemma canonical_exchange_type_back:
  "canonical_exchange_type t \<Longrightarrow> exchange_type_from_u8 (exchange_type_as_u8 t) = t"
  by (simp add: canonical_exchange_type_def)

lemma flags_round_trip [simp]: "flags_from_u8 (flags_as_u8 f) = f"
  by (cases f) (simp add: flags_from_u8_def flags_as_u8_def Let_def)

lemma version_octet:
  "drop_bit 4 (push_bit 4 IKEV2_MAJOR_VERSION OR (minor AND 0x0f)) = IKEV2_MAJOR_VERSION"
  "minor < 16 \<Longrightarrow> (push_bit 4 IKEV2_MAJOR_VERSION OR (minor AND 0x0f)) AND 0x0f = minor"
  using less_mask_eq [of minor 4]
  by (simp_all add: word_eq_iff_unsigned bit.conj_disj_distrib2 mask_eq_exp_minus_1)

section \<open>Sizes and error cases of the encoder\<close>

lemma length_encode_payload:
  "encode_payload p t = Inr bs \<Longrightarrow> length bs = 4 + length (body p)"
  by (auto simp: encode_payload_def Let_def split: if_splits)

lemma length_encode_payloads: "encode_payloads ps = Inr bs \<Longrightarrow> length bs = payloads_len ps"
  by (induction ps arbitrary: bs)
     (auto simp: payloads_len_def result_simps dest!: length_encode_payload)

lemma length_encode_header [simp]: "length (encode_header h t n) = 28"
  by (simp add: encode_header_def)

lemma encode_payload_ok: "is_ok (encode_payload p t) \<longleftrightarrow> 4 + length (body p) \<le> 65535"
  by (simp add: encode_payload_def Let_def)

lemma encode_payloads_ok:
  "is_ok (encode_payloads ps) \<longleftrightarrow> (\<forall>p \<in> set ps. 4 + length (body p) \<le> 65535)"
proof (induction ps)
  case Nil
  then show ?case by simp
next
  case (Cons p ps)
  have "is_ok (encode_payloads (p # ps)) \<longleftrightarrow>
      is_ok (encode_payload p (first_type ps)) \<and> is_ok (encode_payloads ps)"
    by (cases "encode_payload p (first_type ps)"; cases "encode_payloads ps") auto
  with Cons.IH show ?case by (simp add: encode_payload_ok)
qed

section \<open>Decoding what was encoded\<close>

definition wire_payload :: "IkePayload \<Rightarrow> bool" where
  "wire_payload p \<longleftrightarrow> canonical_payload_type (payload_type p) \<and> payload_type p \<noteq> NoNext"

definition wire_message :: "IkeMessage \<Rightarrow> bool" where
  "wire_message m \<longleftrightarrow>
     major_version (header m) = IKEV2_MAJOR_VERSION \<and> minor_version (header m) < 16
     \<and> canonical_exchange_type (exchange_type (header m)) \<and> list_all wire_payload (payloads m)"

lemma canonical_first_type:
  "list_all wire_payload ps \<Longrightarrow> payload_type_from_u8 (payload_type_as_u8 (first_type ps)) = first_type ps"
  by (cases ps) (auto simp: first_type_def wire_payload_def canonical_payload_type_def
      payload_type_from_u8_def)

text \<open>One turn of the decoding loop, on the octets of one encoded payload.\<close>

lemma decode_payloads_step:
  assumes enc: "encode_payload p t = Inr here" and wf: "wire_payload p"
  shows "decode_payloads (pre @ here @ rest) (length pre) (payload_type p) acc =
         decode_payloads (pre @ here @ rest) (length (pre @ here))
           (payload_type_from_u8 (payload_type_as_u8 t)) (acc @ [p])"
proof -
  let ?n = "4 + length (body p)"
  from enc have le: "?n \<le> 65535" and here: "here = [payload_type_as_u8 t,
      if critical p then 0x80 else 0] @ u16_be (word_of_nat ?n) @ body p"
    by (auto simp: encode_payload_def Let_def split: if_splits)
  define input where "input = pre @ here @ rest"
  have octets: "input ! length pre = payload_type_as_u8 t"
      "input ! (length pre + 1) = (if critical p then 0x80 else 0)"
    and lens: "length input = length pre + ?n + length rest" "length here = ?n"
    by (simp_all add: input_def here nth_append)
  have flen: "unat (u16_from_be (slice_of input (length pre + 2) (length pre + 4))) = ?n"
    using le by (simp add: input_def here slice_of_def del: of_nat_add)
  have payload: "slice_of input (length pre + 4) (length pre + ?n) = body p"
    by (simp add: input_def here slice_of_def)
  have p: "\<lparr>payload_type = payload_type p, critical = (input ! (length pre + 1) AND 0x80 \<noteq> 0),
      body = body p\<rparr> = p"
    unfolding octets by (cases p) simp
  show ?thesis
    unfolding input_def [symmetric]
    using wf by (subst decode_payloads.simps)
      (simp only: Let_def flen payload p octets(1), simp add: wire_payload_def lens)
qed

lemma decode_encode_payloads:
  assumes "encode_payloads ps = Inr bs" and "list_all wire_payload ps"
  shows "decode_payloads (pre @ bs) (length pre) (first_type ps) acc =
         Inr (length (pre @ bs), acc @ ps)"
  using assms
proof (induction ps arbitrary: bs pre acc)
  case Nil
  then show ?case by (subst decode_payloads.simps) (simp add: first_type_def)
next
  case (Cons p ps)
  then obtain here rest where here: "encode_payload p (first_type ps) = Inr here"
    and rest: "encode_payloads ps = Inr rest" and bs: "bs = here @ rest"
    by (auto simp: result_simps)
  have "decode_payloads (pre @ bs) (length pre) (first_type (p # ps)) acc =
      decode_payloads ((pre @ here) @ rest) (length (pre @ here)) (first_type ps) (acc @ [p])"
    using decode_payloads_step [OF here, of pre rest acc] Cons.prems(2)
    by (simp add: bs first_type_def [of "p # ps"] canonical_first_type)
  also have "\<dots> = Inr (length (pre @ bs), acc @ p # ps)"
    using Cons.IH [OF rest, of "pre @ here" "acc @ [p]"] Cons.prems(2) by (simp add: bs)
  finally show ?case .
qed

lemma decode_encode_message:
  assumes enc: "encode m = Inr bs" and wf: "wire_message m"
  shows "decode bs = Inr (m\<lparr>header := (header m)\<lparr>next_payload := first_type (payloads m),
           header_length := word_of_nat (length bs)\<rparr>\<rparr>)"
proof -
  let ?h = "header m" and ?n = "IKE_HEADER_LEN + payloads_len (payloads m)"
  from enc obtain rest where n: "?n \<le> u32_max" and rest: "encode_payloads (payloads m) = Inr rest"
    and bs: "bs = encode_header ?h (first_type (payloads m)) ?n @ rest"
    by (auto simp: encode_def Let_def result_simps split: if_splits)
  have len: "length bs = ?n" using length_encode_payloads [OF rest] by (simp add: bs)
  have major: "major_version ?h = 2" and minor: "minor_version ?h < 16"
    and exch: "canonical_exchange_type (exchange_type ?h)"
    and wps: "list_all wire_payload (payloads m)"
    using wf by (auto simp: wire_message_def)
  have loop: "decode_payloads bs 28 (first_type (payloads m)) [] = Inr (length bs, payloads m)"
    using decode_encode_payloads [OF rest wps, of "encode_header ?h (first_type (payloads m)) ?n" "[]"]
    by (simp add: bs)
  have fields: "bs ! 16 = payload_type_as_u8 (first_type (payloads m))"
    "bs ! 17 = push_bit 4 IKEV2_MAJOR_VERSION OR (minor_version ?h AND 0x0f)"
    "bs ! 18 = exchange_type_as_u8 (exchange_type ?h)"
    "bs ! 19 = flags_as_u8 (header_flags ?h)"
    "u64_from_be (slice_of bs 0 8) = initiator_spi ?h"
    "u64_from_be (slice_of bs 8 16) = responder_spi ?h"
    "u32_from_be (slice_of bs 20 24) = message_id ?h"
    "u32_from_be (slice_of bs 24 28) = word_of_nat ?n"
    by (simp_all add: bs encode_header_def nth_append slice_of_def major)
  have "\<not> length bs < 28" using len by simp
  then have "decode bs = Inr \<lparr>header = \<lparr>initiator_spi = initiator_spi ?h,
      responder_spi = responder_spi ?h, next_payload = first_type (payloads m),
      major_version = 2, minor_version = minor_version ?h, exchange_type = exchange_type ?h,
      header_flags = header_flags ?h, message_id = message_id ?h,
      header_length = word_of_nat (length bs)\<rparr>, payloads = payloads m\<rparr>"
    using n len
    by (simp only: decode_def fields loop Let_def version_octet(1) version_octet(2) [OF minor]
        canonical_first_type [OF wps] canonical_exchange_type_back [OF exch] flags_round_trip)
      (simp del: of_nat_add)
  then show ?thesis using major by (cases m; cases "header m") simp
qed

section \<open>What the decoder accepts\<close>

lemma payload_type_as_u8_zero:
  "canonical_payload_type t \<Longrightarrow> t \<noteq> NoNext \<Longrightarrow> payload_type_as_u8 t \<noteq> 0"
  by (auto simp: canonical_payload_type_def payload_type_from_u8_def)

lemma decode_payloads_sound:
  assumes "decode_payloads input offset current ps = Inr (offset', ps')"
    and "canonical_payload_type current"
  shows "\<exists>new. ps' = ps @ new \<and> list_all wire_payload new \<and> first_type new = current
    \<and> offset' = offset + payloads_len new \<and> (\<forall>p \<in> set new. 4 + length (body p) \<le> 65535)"
  using assms
proof (induction input offset current ps rule: decode_payloads.induct)
  case (1 input offset current ps)
  show ?case
  proof (cases "current = NoNext")
    case True
    with "1.prems" show ?thesis
      by (intro exI [of _ "[]"]) (simp add: decode_payloads.simps [of input offset] first_type_def
          payloads_len_def)
  next
    case False
    define n where "n = unat (u16_from_be (slice_of input (offset + 2) (offset + 4)))"
    define p where "p = \<lparr>payload_type = current,
      critical = (input ! (offset + 1) AND 0x80 \<noteq> 0), body = slice_of input (offset + 4) (offset + n)\<rparr>"
    note unfolded = "1.prems"(1) [unfolded decode_payloads.simps [of input offset] Let_def,
        folded n_def, folded p_def]
    have room: "\<not> length input - offset < 4" "\<not> n < 4" "\<not> offset + n > length input"
      and rec: "decode_payloads input (offset + n) (payload_type_from_u8 (input ! offset)) (ps @ [p])
          = Inr (offset', ps')"
      using unfolded False by (auto split: if_splits)
    obtain new where new: "ps' = (ps @ [p]) @ new" "list_all wire_payload new"
      "first_type new = payload_type_from_u8 (input ! offset)"
      "offset' = offset + n + payloads_len new" "\<forall>p \<in> set new. 4 + length (body p) \<le> 65535"
      using "1.IH" [OF False room(1) refl refl refl refl, folded n_def, folded p_def, OF room(2,3) rec]
      by auto
    have "length (body p) = n - 4" using room by (simp add: p_def)
    moreover have "n \<le> 65535" unfolding n_def
      using unat_u16_less [of "u16_from_be (slice_of input (offset + 2) (offset + 4))"] by linarith
    moreover have "wire_payload p" using False "1.prems"(2) by (simp add: wire_payload_def p_def)
    ultimately show ?thesis
      using new room(2)
      by (intro exI [of _ "p # new"]) (auto simp: first_type_def payloads_len_def p_def)
  qed
qed

definition normal_message :: "IkeMessage \<Rightarrow> IkeMessage" where
  "normal_message m = m\<lparr>header := (header m)\<lparr>next_payload := first_type (payloads m),
     header_length := word_of_nat (IKE_HEADER_LEN + payloads_len (payloads m))\<rparr>\<rparr>"

lemma encode_length: "encode m = Inr bs \<Longrightarrow> length bs = IKE_HEADER_LEN + payloads_len (payloads m)"
  by (auto simp: encode_def Let_def result_simps dest: length_encode_payloads split: if_splits)

lemma encode_ok_iff:
  "is_ok (encode m) \<longleftrightarrow> IKE_HEADER_LEN + payloads_len (payloads m) \<le> u32_max
     \<and> (\<forall>p \<in> set (payloads m). 4 + length (body p) \<le> u16_max)"
proof -
  have "is_ok (encode m) \<longleftrightarrow> IKE_HEADER_LEN + payloads_len (payloads m) \<le> u32_max
      \<and> is_ok (encode_payloads (payloads m))"
    by (cases "encode_payloads (payloads m)") (auto simp: encode_def Let_def)
  then show ?thesis by (simp add: encode_payloads_ok)
qed

lemma decode_sound:
  assumes "decode input = Inr m"
  shows "wire_message m" and "normal_message m = m"
    and "IKE_HEADER_LEN + payloads_len (payloads m) = length input"
    and "\<forall>p \<in> set (payloads m). 4 + length (body p) \<le> 65535" and "length input \<le> u32_max"
proof -
  define ver where "ver = input ! 17"
  from assms have len: "unat (u32_from_be (slice_of input 24 28)) = length input"
    and major: "drop_bit 4 ver = 2"
    and loop: "decode_payloads input 28 (payload_type_from_u8 (input ! 16)) []
        = Inr (length input, payloads m)"
    and hdr: "major_version (header m) = 2" "minor_version (header m) = ver AND 0x0f"
      "next_payload (header m) = payload_type_from_u8 (input ! 16)"
      "exchange_type (header m) = exchange_type_from_u8 (input ! 18)"
      "header_length (header m) = u32_from_be (slice_of input 24 28)"
    by (auto simp: decode_def Let_def ver_def result_simps split: if_splits)
  from decode_payloads_sound [OF loop]
  have ps: "list_all wire_payload (payloads m)" "first_type (payloads m) = next_payload (header m)"
    and total: "28 + payloads_len (payloads m) = length input"
    and small: "\<forall>p \<in> set (payloads m). 4 + length (body p) \<le> 65535"
    by (auto simp: hdr)
  have "ver AND 0x0f < 16"
    using word_and_le1 [of ver "0x0f"] by (simp add: word_less_nat_alt word_le_nat_alt)
  with ps hdr show "wire_message m" by (simp add: wire_message_def)
  have "word_of_nat (28 + payloads_len (payloads m)) = header_length (header m)"
    unfolding total len [symmetric] hdr by simp
  with ps show "normal_message m = m"
    by (cases m; cases "header m") (simp add: normal_message_def)
  show "28 + payloads_len (payloads m) = length input" "length input \<le> u32_max"
    and "\<forall>p \<in> set (payloads m). 4 + length (body p) \<le> 65535"
    using total small len unat_u32_less [of "u32_from_be (slice_of input 24 28)"] by auto
qed

interpretation ike: wire_codec encode decode wire_message normal_message
proof unfold_locales
  show "decode bs = Inr (normal_message m)" if "wire_message m" "encode m = Inr bs" for m bs
    using decode_encode_message [OF that(2,1)] encode_length [OF that(2)]
    by (simp add: normal_message_def)
  show "wire_message m" "normal_message m = m" if "decode bs = Inr m" for bs m
    using decode_sound [OF that] by simp_all
  show "\<exists>bs'. encode m = Inr bs' \<and> length bs' = length bs" if "decode bs = Inr m" for bs m
  proof -
    have "is_ok (encode m)" using decode_sound(3-5) [OF that] by (simp add: encode_ok_iff)
    then obtain bs' where "encode m = Inr bs'" by (cases "encode m") auto
    with encode_length decode_sound(3) [OF that] show ?thesis by metis
  qed
qed

section \<open>Properties\<close>

text \<open>C19: encoding then decoding an IKE message with canonical code points returns it, with the
  chain pointer and the length of the header filled in by the encoder.\<close>

theorem ike_decode_encode:
  assumes "wire_message m" and "encode m = Inr bs"
  shows "decode bs = Inr (m\<lparr>header := (header m)\<lparr>next_payload := first_type (payloads m),
           header_length := word_of_nat (length bs)\<rparr>\<rparr>)"
  using ike.dec_enc [OF assms] encode_length [OF assms(2)] by (simp add: normal_message_def)

theorem ike_decode_encode_witness:
  "\<exists>bs. length bs = 34 \<and> decode bs = Inr (new_request 7 IkeSaInit 0 [nonce [1, 2]]
     \<lparr>header := (header (new_request 7 IkeSaInit 0 [nonce [1, 2]]))\<lparr>next_payload := Nonce,
        header_length := 34\<rparr>\<rparr>)"
proof -
  let ?m = "new_request 7 IkeSaInit 0 [nonce [1, 2]]"
  have wf: "wire_message ?m"
    by (simp add: wire_message_def new_request_def canonical_exchange_type_def
        exchange_type_from_u8_def wire_payload_def nonce_def canonical_payload_type_def
        payload_type_from_u8_def)
  have "is_ok (encode ?m)"
    by (simp add: encode_ok_iff new_request_def nonce_def payloads_len_def)
  then obtain bs where enc: "encode ?m = Inr bs" by (cases "encode ?m") auto
  have "length bs = 34"
    using encode_length [OF enc] by (simp add: new_request_def nonce_def payloads_len_def)
  with ike_decode_encode [OF wf enc] show ?thesis
    by (intro exI [of _ bs]) (simp add: first_type_def new_request_def nonce_def)
qed

text \<open>whatever the decoder accepts is re-encodable, to the same number of octets, and the
  re-encoded octets decode to the same message: a received message survives being relayed.\<close>

theorem ike_decode_reencode:
  assumes "decode input = Inr m"
  shows "\<exists>bs. encode m = Inr bs \<and> length bs = length input \<and> decode bs = Inr m"
  using assms by (rule ike.reencode_stable)

theorem ike_decode_reencode_witness:
  "\<exists>bs m. encode m = Inr bs \<and> length bs = 28 \<and> decode bs = Inr m
     \<and> header_length (header m) = 28"
proof -
  let ?in = "[0, 0, 0, 0, 0, 0, 0, 0, 0, 0, 0, 0, 0, 0, 0, 0, 0, 0x20, 37, 0x08, 0, 0, 0, 0,
    0, 0, 0, 28] :: bytes"
  have "slice_of ?in 24 28 = u32_be 28"
    by (simp add: slice_of_def u32_be_def nat_to_be_numeral)
  then have "u32_from_be (slice_of ?in 24 28) = 28" by simp
  then have "\<exists>m. decode ?in = Inr m \<and> header_length (header m) = 28"
    by (simp add: decode_def Let_def decode_payloads.simps payload_type_from_u8_def)
  then obtain m where m: "decode ?in = Inr m" "header_length (header m) = 28" by auto
  have "length ?in = 28" by simp
  with ike_decode_reencode [OF m(1)] m(2) show ?thesis by metis
qed

text \<open>the encoder succeeds exactly when the whole message fits a 32-bit length and every
  payload fits a 16-bit length, and then writes exactly the number of octets it declares.\<close>

theorem ike_encode_total:
  "(\<exists>bs. encode m = Inr bs \<and> length bs = IKE_HEADER_LEN + payloads_len (payloads m)) \<longleftrightarrow>
     IKE_HEADER_LEN + payloads_len (payloads m) \<le> u32_max
     \<and> list_all (\<lambda>p. GENERIC_PAYLOAD_HEADER_LEN + length (body p) \<le> u16_max) (payloads m)"
proof -
  have "(\<exists>bs. encode m = Inr bs \<and> length bs = IKE_HEADER_LEN + payloads_len (payloads m))
      \<longleftrightarrow> is_ok (encode m)"
    using encode_length [of m] by (cases "encode m") auto
  then show ?thesis by (simp add: encode_ok_iff list_all_iff)
qed

lemma decode_declares:
  "is_ok (decode input) \<Longrightarrow> 28 \<le> length input
     \<and> unat (u32_from_be (slice_of input 24 28)) = length input"
  by (auto simp: decode_def Let_def split: if_splits)

text \<open>an accepted datagram can be neither truncated nor extended: every proper prefix of it
  and every extension of it is refused.\<close>

theorem ike_decode_exact_length:
  assumes "is_ok (decode input)"
  shows "(k < length input \<longrightarrow> \<not> is_ok (decode (take k input)))
    \<and> (extra \<noteq> [] \<longrightarrow> \<not> is_ok (decode (input @ extra)))"
proof -
  note whole = decode_declares [OF assms]
  have "k = length input" if "is_ok (decode (take k input))" "k < length input"
  proof -
    from decode_declares [OF that(1)] that(2) have "28 \<le> k"
      and declared: "unat (u32_from_be (slice_of (take k input) 24 28)) = k" by auto
    then have "slice_of (take k input) 24 28 = slice_of input 24 28"
      by (simp add: slice_of_def drop_take min_def)
    with whole declared show ?thesis by simp
  qed
  moreover have "extra = []" if "is_ok (decode (input @ extra))"
  proof -
    have "slice_of (input @ extra) 24 28 = slice_of input 24 28"
      using whole by (simp add: slice_of_def)
    with whole decode_declares [OF that] show ?thesis by simp
  qed
  ultimately show ?thesis by blast
qed

theorem ike_decode_exact_length_witness:
  "\<not> is_ok (decode ([0, 0, 0, 0, 0, 0, 0, 0, 0, 0, 0, 0, 0, 0, 0, 0, 0, 0x20, 37, 0x08, 0, 0, 0, 0,
    0, 0, 0, 28, 9]))"
proof -
  let ?in = "[0, 0, 0, 0, 0, 0, 0, 0, 0, 0, 0, 0, 0, 0, 0, 0, 0, 0x20, 37, 0x08, 0, 0, 0, 0,
    0, 0, 0, 28] :: bytes"
  have "slice_of ?in 24 28 = u32_be 28"
    by (simp add: slice_of_def u32_be_def nat_to_be_numeral)
  then have "u32_from_be (slice_of ?in 24 28) = 28" by simp
  then have "is_ok (decode ?in)"
    by (simp add: decode_def Let_def decode_payloads.simps payload_type_from_u8_def)
  from ike_decode_exact_length [OF this, of 0 "[9]"] show ?thesis by simp
qed

end
