(* ===== verification/Ike_Payloads.thy ===== *)
theory Ike_Payloads
  imports Ike_Codec
begin

text \<open>
  The IKEv2 payload bodies of \<open>connectivity/modems/ims/vowifi/ike_payloads.rs\<close>: security
  association proposals (profile strings, encoder and parser), key exchange, nonce, notify,
  identification, authentication, configuration and traffic selector payloads.
\<close>

section \<open>Data\<close>

abbreviation ENCR_AES_CBC :: u16 where "ENCR_AES_CBC \<equiv> 12"
abbreviation PRF_HMAC_MD5 :: u16 where "PRF_HMAC_MD5 \<equiv> 1"
abbreviation PRF_HMAC_SHA1 :: u16 where "PRF_HMAC_SHA1 \<equiv> 2"
abbreviation PRF_HMAC_SHA2_256 :: u16 where "PRF_HMAC_SHA2_256 \<equiv> 5"
abbreviation PRF_HMAC_SHA2_384 :: u16 where "PRF_HMAC_SHA2_384 \<equiv> 6"
abbreviation PRF_HMAC_SHA2_512 :: u16 where "PRF_HMAC_SHA2_512 \<equiv> 7"
abbreviation AUTH_HMAC_MD5_96 :: u16 where "AUTH_HMAC_MD5_96 \<equiv> 1"
abbreviation AUTH_HMAC_SHA1_96 :: u16 where "AUTH_HMAC_SHA1_96 \<equiv> 2"
abbreviation AUTH_HMAC_SHA2_256_128 :: u16 where "AUTH_HMAC_SHA2_256_128 \<equiv> 12"
abbreviation AUTH_HMAC_SHA2_384_192 :: u16 where "AUTH_HMAC_SHA2_384_192 \<equiv> 13"
abbreviation AUTH_HMAC_SHA2_512_256 :: u16 where "AUTH_HMAC_SHA2_512_256 \<equiv> 14"
abbreviation DH_MODP_768 :: u16 where "DH_MODP_768 \<equiv> 1"
abbreviation DH_MODP_1024 :: u16 where "DH_MODP_1024 \<equiv> 2"
abbreviation DH_MODP_1536 :: u16 where "DH_MODP_1536 \<equiv> 5"
abbreviation DH_MODP_2048 :: u16 where "DH_MODP_2048 \<equiv> 14"
abbreviation DH_MODP_3072 :: u16 where "DH_MODP_3072 \<equiv> 15"
abbreviation DH_MODP_4096 :: u16 where "DH_MODP_4096 \<equiv> 16"
abbreviation DH_MODP_8192 :: u16 where "DH_MODP_8192 \<equiv> 18"

datatype IkeProtocolId = ProtoIke | ProtoAh | ProtoEsp

fun protocol_id_as_u8 :: "IkeProtocolId \<Rightarrow> u8" where
  "protocol_id_as_u8 ProtoIke = 1"
| "protocol_id_as_u8 ProtoAh = 2"
| "protocol_id_as_u8 ProtoEsp = 3"

datatype TransformType = Encryption | Prf | Integrity | DiffieHellmanGroup | ExtendedSequenceNumbers

fun transform_type_as_u8 :: "TransformType \<Rightarrow> u8" where
  "transform_type_as_u8 Encryption = 1"
| "transform_type_as_u8 Prf = 2"
| "transform_type_as_u8 Integrity = 3"
| "transform_type_as_u8 DiffieHellmanGroup = 4"
| "transform_type_as_u8 ExtendedSequenceNumbers = 5"

datatype TransformAttribute = KeyLength u16

record TransformSpec =
  transform_type :: TransformType
  transform_id :: u16
  attributes :: "TransformAttribute list"

record ProposalSpec =
  number :: u8
  protocol_id :: IkeProtocolId
  spi :: bytes
  transforms :: "TransformSpec list"

datatype NotifyProtocolId = NotifyNone | NotifyIke | NotifyAh | NotifyEsp

fun notify_protocol_as_u8 :: "NotifyProtocolId \<Rightarrow> u8" where
  "notify_protocol_as_u8 NotifyNone = 0"
| "notify_protocol_as_u8 NotifyIke = 1"
| "notify_protocol_as_u8 NotifyAh = 2"
| "notify_protocol_as_u8 NotifyEsp = 3"

record ParsedTransformAttribute =
  attribute_type :: u16
  attribute_value :: u16

record ParsedTransform =
  parsed_transform_type :: u8
  parsed_transform_id :: u16
  parsed_attributes :: "ParsedTransformAttribute list"

record ParsedProposal =
  parsed_number :: u8
  parsed_protocol_id :: u8
  spi_size :: u8
  spi_present :: bool
  parsed_spi :: bytes
  parsed_transforms :: "ParsedTransform list"

datatype PayloadBuildError =
  EmptyTransforms | TooManyTransforms nat | SpiTooLarge nat | ProposalTooLarge nat
  | TransformTooLarge nat

datatype SaParseError =
  TruncatedProposal | TruncatedTransform | InvalidProposalLength nat | InvalidTransformLength nat
  | InvalidAttributeLength nat | SpiExceedsProposal nat nat | TransformCountMismatch nat nat

datatype ProposalParseError =
  EmptyProposal | MissingEncryption | MissingIntegrity | MissingPrf | MissingDhGroup
  | UnsupportedToken string

section \<open>Security association bodies\<close>

definition encode_attribute :: "TransformAttribute \<Rightarrow> bytes" where
  "encode_attribute a = (case a of KeyLength bits \<Rightarrow> u16_be 0x800e @ u16_be bits)"

definition encode_transform :: "TransformSpec \<Rightarrow> bool \<Rightarrow> PayloadBuildError + bytes" where
  "encode_transform t has_more =
     (let attributes_len = (\<Sum>a \<leftarrow> attributes t. case a of KeyLength _ \<Rightarrow> 4);
          transform_len = 8 + attributes_len
      in if transform_len > u16_max then Inl (TransformTooLarge transform_len)
         else Inr ([if has_more then 3 else 0, 0] @ u16_be (word_of_nat transform_len)
                   @ [transform_type_as_u8 (transform_type t), 0] @ u16_be (transform_id t)
                   @ concat (map encode_attribute (attributes t))))"

fun encode_transforms :: "TransformSpec list \<Rightarrow> PayloadBuildError + bytes" where
  "encode_transforms [] = Inr []"
| "encode_transforms (t # ts) =
     rbind (encode_transform t (ts \<noteq> [])) (\<lambda>here.
     rbind (encode_transforms ts) (\<lambda>rest. Inr (here @ rest)))"

definition encode_proposal :: "ProposalSpec \<Rightarrow> bool \<Rightarrow> PayloadBuildError + bytes" where
  "encode_proposal p has_more =
     (if transforms p = [] then Inl EmptyTransforms
      else if length (transforms p) > u8_max then Inl (TooManyTransforms (length (transforms p)))
      else if length (spi p) > u8_max then Inl (SpiTooLarge (length (spi p)))
      else rbind (encode_transforms (transforms p)) (\<lambda>transform_bytes.
        let proposal_len = 8 + length (spi p) + length transform_bytes
        in if proposal_len > u16_max then Inl (ProposalTooLarge proposal_len)
           else Inr ([if has_more then 2 else 0, 0] @ u16_be (word_of_nat proposal_len)
                     @ [number p, protocol_id_as_u8 (protocol_id p), word_of_nat (length (spi p)),
                        word_of_nat (length (transforms p))]
                     @ spi p @ transform_bytes)))"

fun encode_proposals :: "ProposalSpec list \<Rightarrow> PayloadBuildError + bytes" where
  "encode_proposals [] = Inr []"
| "encode_proposals (p # ps) =
     rbind (encode_proposal p (ps \<noteq> [])) (\<lambda>here.
     rbind (encode_proposals ps) (\<lambda>rest. Inr (here @ rest)))"

definition build_sa_payload :: "ProposalSpec list \<Rightarrow> PayloadBuildError + IkePayload" where
  "build_sa_payload ps = rbind (encode_proposals ps) (\<lambda>b.
     Inr \<lparr>payload_type = SecurityAssociation, critical = False, body = b\<rparr>)"

text \<open>Each parser loop of the source reads one element from the front of the remaining slice and
  drops it; the step functions return the element and the number of octets it took.\<close>

definition parse_attribute :: "bytes \<Rightarrow> SaParseError + ParsedTransformAttribute \<times> nat" where
  "parse_attribute input =
     (if length input < 4 then Inl (InvalidAttributeLength (length input))
      else
        let attr_type = u16_from_be (slice_of input 0 2);
            af_bit = (attr_type AND 0x8000 \<noteq> 0)
        in if af_bit then
             Inr (\<lparr>attribute_type = attr_type AND 0x7fff,
                   attribute_value = u16_from_be (slice_of input 2 4)\<rparr>, 4)
           else
             let len = unat (u16_from_be (slice_of input 2 4))
             in if len < 4 \<or> len > length input then Inl (InvalidAttributeLength len)
                else Inr (\<lparr>attribute_type = attr_type, attribute_value = word_of_nat len\<rparr>, len))"

lemma parse_attribute_takes:
  "parse_attribute input = Inr (a, n) \<Longrightarrow> 4 \<le> n \<and> n \<le> length input"
  by (auto simp: parse_attribute_def Let_def split: if_splits)

function parse_transform_attributes :: "bytes \<Rightarrow> SaParseError + ParsedTransformAttribute list" where
  "parse_transform_attributes input =
     (if input = [] then Inr []
      else case parse_attribute input of
        Inl e \<Rightarrow> Inl e
      | Inr (a, n) \<Rightarrow> rbind (parse_transform_attributes (drop n input)) (\<lambda>as. Inr (a # as)))"
  by pat_completeness auto
termination
  by (relation "measure length") (auto dest!: parse_attribute_takes)

definition parse_transform :: "bytes \<Rightarrow> SaParseError + ParsedTransform \<times> nat" where
  "parse_transform input =
     (if length input < 8 then Inl TruncatedTransform
      else
        let transform_len = unat (u16_from_be (slice_of input 2 4))
        in if transform_len < 8 then Inl (InvalidTransformLength transform_len)
           else if transform_len > length input then Inl TruncatedTransform
           else rbind (parse_transform_attributes (slice_of input 8 transform_len)) (\<lambda>attrs.
             Inr (\<lparr>parsed_transform_type = input ! 4,
                   parsed_transform_id = u16_from_be (slice_of input 6 8),
                   parsed_attributes = attrs\<rparr>, transform_len)))"

lemma parse_transform_takes:
  "parse_transform input = Inr (t, n) \<Longrightarrow> 8 \<le> n \<and> n \<le> length input"
  by (auto simp: parse_transform_def Let_def result_simps split: if_splits)

function parse_transforms :: "bytes \<Rightarrow> SaParseError + ParsedTransform list" where
  "parse_transforms input =
     (if input = [] then Inr []
      else case parse_transform input of
        Inl e \<Rightarrow> Inl e
      | Inr (t, n) \<Rightarrow> rbind (parse_transforms (drop n input)) (\<lambda>ts. Inr (t # ts)))"
  by pat_completeness auto
termination
  by (relation "measure length") (auto dest!: parse_transform_takes)

definition parse_proposal :: "bytes \<Rightarrow> SaParseError + ParsedProposal \<times> nat" where
  "parse_proposal input =
     (if length input < 8 then Inl TruncatedProposal
      else
        let proposal_len = unat (u16_from_be (slice_of input 2 4))
        in if proposal_len < 8 then Inl (InvalidProposalLength proposal_len)
           else if proposal_len > length input then Inl TruncatedProposal
           else
             let size = input ! 6;
                 transform_count = unat (input ! 7);
                 transform_start = 8 + unat size
             in if transform_start > proposal_len
                then Inl (SpiExceedsProposal (unat size) proposal_len)
                else rbind (parse_transforms (slice_of input transform_start proposal_len)) (\<lambda>ts.
                  if length ts \<noteq> transform_count
                  then Inl (TransformCountMismatch transform_count (length ts))
                  else Inr (\<lparr>parsed_number = input ! 4,
                             parsed_protocol_id = input ! 5,
                             spi_size = size,
                             spi_present = size > 0,
                             parsed_spi = slice_of input 8 transform_start,
                             parsed_transforms = ts\<rparr>, proposal_len)))"

lemma parse_proposal_takes:
  "parse_proposal input = Inr (p, n) \<Longrightarrow> 8 \<le> n \<and> n \<le> length input"
  by (auto simp: parse_proposal_def Let_def result_simps split: if_splits)

function parse_sa_payload :: "bytes \<Rightarrow> SaParseError + ParsedProposal list" where
  "parse_sa_payload input =
     (if input = [] then Inr []
      else case parse_proposal input of
        Inl e \<Rightarrow> Inl e
      | Inr (p, n) \<Rightarrow> rbind (parse_sa_payload (drop n input)) (\<lambda>ps. Inr (p # ps)))"
  by pat_completeness auto
termination
  by (relation "measure length") (auto dest!: parse_proposal_takes)

declare parse_transform_attributes.simps [simp del] parse_transforms.simps [simp del]
  parse_sa_payload.simps [simp del]

section \<open>The other payload bodies\<close>

definition build_ke_payload :: "u16 \<Rightarrow> bytes \<Rightarrow> IkePayload" where
  "build_ke_payload dh_group public_value =
     \<lparr>payload_type = KeyExchange, critical = False,
      body = u16_be dh_group @ u16_be 0 @ public_value\<rparr>"

definition build_nonce_payload :: "bytes \<Rightarrow> IkePayload" where
  "build_nonce_payload n = \<lparr>payload_type = Nonce, critical = False, body = n\<rparr>"

definition build_notify_payload ::
  "NotifyProtocolId \<Rightarrow> bytes \<Rightarrow> u16 \<Rightarrow> bytes \<Rightarrow> PayloadBuildError + IkePayload" where
  "build_notify_payload proto s notify_type data =
     (if length s > u8_max then Inl (SpiTooLarge (length s))
      else Inr \<lparr>payload_type = Notify, critical = False,
        body = [notify_protocol_as_u8 proto, word_of_nat (length s)] @ u16_be notify_type @ s @ data\<rparr>)"

definition build_identification_initiator_payload :: "string \<Rightarrow> IkePayload" where
  "build_identification_initiator_payload identity =
     \<lparr>payload_type = IdentificationInitiator, critical = False,
      body = [3, 0, 0, 0] @ as_bytes identity\<rparr>"

definition build_identification_responder_payload :: "string \<Rightarrow> IkePayload" where
  "build_identification_responder_payload fqdn =
     \<lparr>payload_type = IdentificationResponder, critical = False,
      body = [2, 0, 0, 0] @ as_bytes fqdn\<rparr>"

definition build_device_identity_vendor_payload :: "string \<Rightarrow> IkePayload" where
  "build_device_identity_vendor_payload imei =
     \<lparr>payload_type = VendorId, critical = False, body = as_bytes imei\<rparr>"

definition build_authentication_shared_key_payload :: "bytes \<Rightarrow> IkePayload" where
  "build_authentication_shared_key_payload authentication_data =
     \<lparr>payload_type = Authentication, critical = False, body = [2, 0, 0, 0] @ authentication_data\<rparr>"

definition requests_ipv4 :: "string \<Rightarrow> bool" where
  "requests_ipv4 ip_stack \<longleftrightarrow> ip_stack \<in> {''ipv4'', ''ipv4v6'', ''dual'', ''dual_stack''}"

definition requests_ipv6 :: "string \<Rightarrow> bool" where
  "requests_ipv6 ip_stack \<longleftrightarrow> ip_stack \<in> {''ipv6'', ''ipv4v6'', ''dual'', ''dual_stack''}"

definition push_config_attribute :: "bytes \<Rightarrow> u16 \<Rightarrow> bytes \<Rightarrow> bytes" where
  "push_config_attribute b attr value = b @ u16_be attr @ u16_be (word_of_nat (length value)) @ value"

definition build_configuration_request_payload :: "string \<Rightarrow> IkePayload" where
  "build_configuration_request_payload ip_stack =
     (let b = [1, 0, 0, 0];
          b = (if requests_ipv4 ip_stack
               then push_config_attribute (push_config_attribute (push_config_attribute b 1 []) 3 []) 20 []
               else b);
          b = (if requests_ipv6 ip_stack
               then push_config_attribute (push_config_attribute (push_config_attribute b 8 []) 10 []) 21 []
               else b)
      in \<lparr>payload_type = Configuration, critical = False, body = b\<rparr>)"

definition push_ipv4_selector :: "bytes \<Rightarrow> bytes" where
  "push_ipv4_selector b = b @ [7, 0] @ u16_be 16 @ u16_be 0 @ u16_be 0xffff
     @ [0, 0, 0, 0] @ [255, 255, 255, 255]"

definition push_ipv6_selector :: "bytes \<Rightarrow> bytes" where
  "push_ipv6_selector b = b @ [8, 0] @ u16_be 40 @ u16_be 0 @ u16_be 0xffff
     @ replicate 16 0 @ replicate 16 0xff"

definition build_traffic_selector_payload :: "IkePayloadType \<Rightarrow> string \<Rightarrow> IkePayload" where
  "build_traffic_selector_payload ptype ip_stack =
     (let (selectors, count) = ([], 0 :: u8);
          (selectors, count) =
            (if requests_ipv4 ip_stack
             then (push_ipv4_selector selectors, saturating_add count 1) else (selectors, count));
          (selectors, count) =
            (if requests_ipv6 ip_stack
             then (push_ipv6_selector selectors, saturating_add count 1) else (selectors, count));
          (selectors, count) =
            (if selectors = [] then (push_ipv4_selector selectors, 1) else (selectors, count))
      in \<lparr>payload_type = ptype, critical = False, body = [count, 0, 0, 0] @ selectors\<rparr>)"

definition build_traffic_selector_initiator_payload :: "string \<Rightarrow> IkePayload" where
  "build_traffic_selector_initiator_payload ip_stack =
     build_traffic_selector_payload TrafficSelectorInitiator ip_stack"

definition build_traffic_selector_responder_payload :: "string \<Rightarrow> IkePayload" where
  "build_traffic_selector_responder_payload ip_stack =
     build_traffic_selector_payload TrafficSelectorResponder ip_stack"

section \<open>Proposals from profile strings\<close>

definition mk_transform :: "TransformType \<Rightarrow> u16 \<Rightarrow> TransformAttribute list \<Rightarrow> TransformSpec" where
  "mk_transform t i attrs = \<lparr>transform_type = t, transform_id = i, attributes = attrs\<rparr>"

text \<open>The four mutable locals of the parsing loops.\<close>

record ProposalLocals =
  encryption :: "TransformSpec option"
  integrity :: "TransformSpec option"
  prf_local :: "TransformSpec option"
  dh_group :: "TransformSpec option"

definition no_locals :: ProposalLocals where
  "no_locals = \<lparr>encryption = None, integrity = None, prf_local = None, dh_group = None\<rparr>"

definition proposal_tokens :: "string \<Rightarrow> string list" where
  "proposal_tokens s = filter (\<lambda>token. token \<noteq> []) (split_on (CHR ''-'') s)"

definition child_sa_token :: "ProposalLocals \<Rightarrow> string \<Rightarrow> ProposalParseError + ProposalLocals" where
  "child_sa_token l token =
     (if token = ''aes128'' then Inr (l\<lparr>encryption := Some (mk_transform Encryption ENCR_AES_CBC [KeyLength 128])\<rparr>)
      else if token = ''aes256'' then Inr (l\<lparr>encryption := Some (mk_transform Encryption ENCR_AES_CBC [KeyLength 256])\<rparr>)
      else if token = ''md5'' then Inr (l\<lparr>integrity := Some (mk_transform Integrity AUTH_HMAC_MD5_96 [])\<rparr>)
      else if token = ''sha1'' then Inr (l\<lparr>integrity := Some (mk_transform Integrity AUTH_HMAC_SHA1_96 [])\<rparr>)
      else if token = ''sha256'' then Inr (l\<lparr>integrity := Some (mk_transform Integrity AUTH_HMAC_SHA2_256_128 [])\<rparr>)
      else if token = ''sha384'' then Inr (l\<lparr>integrity := Some (mk_transform Integrity AUTH_HMAC_SHA2_384_192 [])\<rparr>)
      else if token = ''sha512'' then Inr (l\<lparr>integrity := Some (mk_transform Integrity AUTH_HMAC_SHA2_512_256 [])\<rparr>)
      else if starts_with token ''prf'' \<or> starts_with token ''modp'' then Inr l
      else Inl (UnsupportedToken token))"

definition ike_token :: "ProposalLocals \<Rightarrow> string \<Rightarrow> ProposalParseError + ProposalLocals" where
  "ike_token l token =
     (if token = ''aes128'' then Inr (l\<lparr>encryption := Some (mk_transform Encryption ENCR_AES_CBC [KeyLength 128])\<rparr>)
      else if token = ''aes256'' then Inr (l\<lparr>encryption := Some (mk_transform Encryption ENCR_AES_CBC [KeyLength 256])\<rparr>)
      else if token = ''md5'' then Inr (l\<lparr>integrity := Some (mk_transform Integrity AUTH_HMAC_MD5_96 [])\<rparr>)
      else if token = ''sha1'' then Inr (l\<lparr>integrity := Some (mk_transform Integrity AUTH_HMAC_SHA1_96 [])\<rparr>)
      else if token = ''sha256'' then Inr (l\<lparr>integrity := Some (mk_transform Integrity AUTH_HMAC_SHA2_256_128 [])\<rparr>)
      else if token = ''sha384'' then Inr (l\<lparr>integrity := Some (mk_transform Integrity AUTH_HMAC_SHA2_384_192 [])\<rparr>)
      else if token = ''sha512'' then Inr (l\<lparr>integrity := Some (mk_transform Integrity AUTH_HMAC_SHA2_512_256 [])\<rparr>)
      else if token = ''prfmd5'' then Inr (l\<lparr>prf_local := Some (mk_transform Prf PRF_HMAC_MD5 [])\<rparr>)
      else if token = ''prfsha1'' then Inr (l\<lparr>prf_local := Some (mk_transform Prf PRF_HMAC_SHA1 [])\<rparr>)
      else if token = ''prfsha256'' then Inr (l\<lparr>prf_local := Some (mk_transform Prf PRF_HMAC_SHA2_256 [])\<rparr>)
      else if token = ''prfsha384'' then Inr (l\<lparr>prf_local := Some (mk_transform Prf PRF_HMAC_SHA2_384 [])\<rparr>)
      else if token = ''prfsha512'' then Inr (l\<lparr>prf_local := Some (mk_transform Prf PRF_HMAC_SHA2_512 [])\<rparr>)
      else if token = ''modp768'' then Inr (l\<lparr>dh_group := Some (mk_transform DiffieHellmanGroup DH_MODP_768 [])\<rparr>)
      else if token = ''modp1024'' then Inr (l\<lparr>dh_group := Some (mk_transform DiffieHellmanGroup DH_MODP_1024 [])\<rparr>)
      else if token = ''modp1536'' then Inr (l\<lparr>dh_group := Some (mk_transform DiffieHellmanGroup DH_MODP_1536 [])\<rparr>)
      else if token = ''modp2048'' then Inr (l\<lparr>dh_group := Some (mk_transform DiffieHellmanGroup DH_MODP_2048 [])\<rparr>)
      else if token = ''modp3072'' then Inr (l\<lparr>dh_group := Some (mk_transform DiffieHellmanGroup DH_MODP_3072 [])\<rparr>)
      else if token = ''modp4096'' then Inr (l\<lparr>dh_group := Some (mk_transform DiffieHellmanGroup DH_MODP_4096 [])\<rparr>)
      else if token = ''modp8192'' then Inr (l\<lparr>dh_group := Some (mk_transform DiffieHellmanGroup DH_MODP_8192 [])\<rparr>)
      else Inl (UnsupportedToken token))"

fun token_loop ::
  "(ProposalLocals \<Rightarrow> string \<Rightarrow> ProposalParseError + ProposalLocals) \<Rightarrow> ProposalLocals \<Rightarrow>
   string list \<Rightarrow> ProposalParseError + ProposalLocals" where
  "token_loop step l [] = Inr l"
| "token_loop step l (t # ts) = rbind (step l t) (\<lambda>l'. token_loop step l' ts)"

definition child_sa_proposal_from_profile_string ::
  "string \<Rightarrow> u8 \<Rightarrow> bytes \<Rightarrow> ProposalParseError + ProposalSpec" where
  "child_sa_proposal_from_profile_string proposal n s =
     (let tokens = proposal_tokens proposal
      in if tokens = [] then Inl EmptyProposal
         else rbind (token_loop child_sa_token no_locals tokens) (\<lambda>l.
           rbind (ok_or (encryption l) MissingEncryption) (\<lambda>e.
           rbind (ok_or (integrity l) MissingIntegrity) (\<lambda>i.
           Inr \<lparr>number = n, protocol_id = ProtoEsp, spi = s,
                transforms = [e, i, mk_transform ExtendedSequenceNumbers 0 []]\<rparr>))))"

definition default_prf_for_integrity :: "TransformSpec \<Rightarrow> ProposalParseError + TransformSpec" where
  "default_prf_for_integrity i =
     (if transform_id i = AUTH_HMAC_MD5_96 then Inr (mk_transform Prf PRF_HMAC_MD5 [])
      else if transform_id i = AUTH_HMAC_SHA1_96 then Inr (mk_transform Prf PRF_HMAC_SHA1 [])
      else if transform_id i = AUTH_HMAC_SHA2_256_128 then Inr (mk_transform Prf PRF_HMAC_SHA2_256 [])
      else if transform_id i = AUTH_HMAC_SHA2_384_192 then Inr (mk_transform Prf PRF_HMAC_SHA2_384 [])
      else if transform_id i = AUTH_HMAC_SHA2_512_256 then Inr (mk_transform Prf PRF_HMAC_SHA2_512 [])
      else Inl MissingPrf)"

definition ike_proposal_from_profile_string ::
  "string \<Rightarrow> u8 \<Rightarrow> ProposalParseError + ProposalSpec" where
  "ike_proposal_from_profile_string proposal n =
     (let tokens = proposal_tokens proposal
      in if tokens = [] then Inl EmptyProposal
         else rbind (token_loop ike_token no_locals tokens) (\<lambda>l.
           rbind (case prf_local l of
                    Some p \<Rightarrow> Inr (Some p)
                  | None \<Rightarrow> rbind (ok_or (integrity l) MissingIntegrity) (\<lambda>i.
                      rmap Some (default_prf_for_integrity i))) (\<lambda>chosen_prf.
           rbind (ok_or (encryption l) MissingEncryption) (\<lambda>e.
           rbind (ok_or chosen_prf MissingPrf) (\<lambda>p.
           rbind (ok_or (integrity l) MissingIntegrity) (\<lambda>i.
           rbind (ok_or (dh_group l) MissingDhGroup) (\<lambda>d.
           Inr \<lparr>number = n, protocol_id = ProtoIke, spi = [], transforms = [e, p, i, d]\<rparr>)))))))"

definition ike_proposal_dh_group_from_profile_string :: "string \<Rightarrow> ProposalParseError + u16" where
  "ike_proposal_dh_group_from_profile_string proposal =
     rbind (ike_proposal_from_profile_string proposal 1) (\<lambda>p.
       ok_or (map_option transform_id
         (find (\<lambda>t. transform_type t = DiffieHellmanGroup) (transforms p))) MissingDhGroup)"

section \<open>Parsing what was built\<close>

interpretation attrs: chunk_parser parse_attribute parse_transform_attributes
  by unfold_locales (simp_all add: parse_transform_attributes.simps)

interpretation tfms: chunk_parser parse_transform parse_transforms
  by unfold_locales (simp_all add: parse_transforms.simps)

interpretation props: chunk_parser parse_proposal parse_sa_payload
  by unfold_locales (simp_all add: parse_sa_payload.simps)

text \<open>What the parser should report of a specified attribute, transform and proposal.\<close>

definition parsed_attribute :: "TransformAttribute \<Rightarrow> ParsedTransformAttribute" where
  "parsed_attribute a = (case a of KeyLength bits \<Rightarrow> \<lparr>attribute_type = 14, attribute_value = bits\<rparr>)"

definition parsed_transform :: "TransformSpec \<Rightarrow> ParsedTransform" where
  "parsed_transform t = \<lparr>parsed_transform_type = transform_type_as_u8 (transform_type t),
     parsed_transform_id = transform_id t,
     parsed_attributes = map parsed_attribute (attributes t)\<rparr>"

definition parsed_proposal :: "ProposalSpec \<Rightarrow> ParsedProposal" where
  "parsed_proposal p = \<lparr>parsed_number = number p,
     parsed_protocol_id = protocol_id_as_u8 (protocol_id p),
     spi_size = word_of_nat (length (spi p)),
     spi_present = (spi p \<noteq> []),
     parsed_spi = spi p,
     parsed_transforms = map parsed_transform (transforms p)\<rparr>"

lemma length_encode_attribute [simp]: "length (encode_attribute a) = 4"
  by (cases a) (simp add: encode_attribute_def)

lemma length_encode_attributes [simp]:
  "length (concat (map encode_attribute as)) = (\<Sum>a \<leftarrow> as. case a of KeyLength _ \<Rightarrow> 4)"
  by (induction as) (auto split: TransformAttribute.split)

lemma reads_attribute: "attrs.reads (encode_attribute a) (parsed_attribute a)"
  by (cases a) (auto simp: attrs.reads_def encode_attribute_def parse_attribute_def slice_of_def
      parsed_attribute_def Let_def dest: arg_cong [where f = length])

lemma parse_encode_attributes:
  "parse_transform_attributes (concat (map encode_attribute as)) = Inr (map parsed_attribute as)"
  by (rule attrs.loop_concat) (simp add: list_all2_conv_all_nth reads_attribute)

lemma reads_transform:
  assumes "encode_transform t has_more = Inr bs"
  shows "tfms.reads bs (parsed_transform t)"
proof -
  let ?as = "concat (map encode_attribute (attributes t))" and ?n = "8 + length (concat (map encode_attribute (attributes t)))"
  from assms have n: "?n \<le> 65535"
    and bs: "bs = [if has_more then 3 else 0, 0] @ u16_be (word_of_nat ?n)
      @ [transform_type_as_u8 (transform_type t), 0] @ u16_be (transform_id t) @ ?as"
    by (auto simp: encode_transform_def Let_def simp del: of_nat_add split: if_splits)
  have "parse_transform (bs @ rest) = Inr (parsed_transform t, length bs)" for rest
  proof -
    have fields: "slice_of (bs @ rest) 2 4 = u16_be (word_of_nat ?n)"
      "slice_of (bs @ rest) 6 8 = u16_be (transform_id t)" "slice_of (bs @ rest) 8 ?n = ?as"
      "(bs @ rest) ! 4 = transform_type_as_u8 (transform_type t)" "length bs = ?n"
      by (simp_all add: bs slice_of_def nth_append del: of_nat_add length_encode_attributes)
    show ?thesis
      using n by (simp add: parse_transform_def fields parse_encode_attributes parsed_transform_def
          del: of_nat_add length_encode_attributes)
  qed
  then show ?thesis by (auto simp: tfms.reads_def bs)
qed

lemma parse_encode_transforms:
  assumes "encode_transforms ts = Inr bs"
  shows "parse_transforms bs = Inr (map parsed_transform ts)"
  using assms
proof (induction ts arbitrary: bs)
  case Nil
  then show ?case by (simp add: tfms.loop_Nil)
next
  case (Cons t ts)
  then show ?case
    by (auto simp: result_simps tfms.loop_append [OF reads_transform])
qed

lemma reads_proposal:
  assumes "encode_proposal p has_more = Inr bs"
  shows "props.reads bs (parsed_proposal p)"
proof -
  from assms obtain tb where tb: "encode_transforms (transforms p) = Inr tb"
    and small: "length (transforms p) \<le> 255" "length (spi p) \<le> 255"
      "8 + length (spi p) + length tb \<le> 65535"
    and bs: "bs = [if has_more then 2 else 0, 0] @ u16_be (word_of_nat (8 + length (spi p) + length tb))
      @ [number p, protocol_id_as_u8 (protocol_id p), word_of_nat (length (spi p)),
         word_of_nat (length (transforms p))] @ spi p @ tb"
    by (auto simp: encode_proposal_def result_simps Let_def simp del: of_nat_add split: if_splits)
  let ?n = "8 + length (spi p) + length tb"
  have "parse_proposal (bs @ rest) = Inr (parsed_proposal p, length bs)" for rest
  proof -
    have tail: "slice_of (bs @ rest) (8 + length (spi p)) ?n = tb"
      by (rule slice_append_mid [of _ "take 8 bs @ spi p" _ rest]) (simp_all add: bs del: of_nat_add)
    have fields: "slice_of (bs @ rest) 2 4 = u16_be (word_of_nat ?n)"
      "slice_of (bs @ rest) 8 (8 + length (spi p)) = spi p"
      "(bs @ rest) ! 4 = number p" "(bs @ rest) ! 5 = protocol_id_as_u8 (protocol_id p)"
      "(bs @ rest) ! 6 = word_of_nat (length (spi p))"
      "(bs @ rest) ! 7 = word_of_nat (length (transforms p))" "length bs = ?n"
      by (simp_all add: bs slice_of_def nth_append del: of_nat_add)
    have present: "(0 < (word_of_nat (length (spi p)) :: u8)) = (spi p \<noteq> [])"
      using small(2) by (auto simp: word_less_nat_alt)
    show ?thesis
      using small parse_encode_transforms [OF tb]
      by (simp add: parse_proposal_def fields tail present parsed_proposal_def del: of_nat_add)
  qed
  then show ?thesis by (auto simp: props.reads_def bs)
qed


lemma parse_encode_proposals:
  assumes "encode_proposals ps = Inr bs"
  shows "parse_sa_payload bs = Inr (map parsed_proposal ps)"
  using assms
proof (induction ps arbitrary: bs)
  case Nil
  then show ?case by (simp add: props.loop_Nil)
next
  case (Cons p ps)
  then show ?case
    by (auto simp: result_simps props.loop_append [OF reads_proposal])
qed

section \<open>Proposals of profile strings are complete\<close>

text \<open>Every value a token stores has the transform type of the local it is stored in.\<close>

definition typed_locals :: "ProposalLocals \<Rightarrow> bool" where
  "typed_locals l \<longleftrightarrow>
     (\<forall>t. encryption l = Some t \<longrightarrow> transform_type t = Encryption \<and> length (attributes t) \<le> 1)
   \<and> (\<forall>t. integrity l = Some t \<longrightarrow> transform_type t = Integrity \<and> attributes t = []
          \<and> is_ok (default_prf_for_integrity t))
   \<and> (\<forall>t. prf_local l = Some t \<longrightarrow> transform_type t = Prf \<and> attributes t = [])
   \<and> (\<forall>t. dh_group l = Some t \<longrightarrow> transform_type t = DiffieHellmanGroup \<and> attributes t = []
          \<and> transform_id t \<in> {DH_MODP_768, DH_MODP_1024, DH_MODP_1536, DH_MODP_2048, DH_MODP_3072,
               DH_MODP_4096, DH_MODP_8192})"

lemma typed_no_locals: "typed_locals no_locals"
  by (simp add: typed_locals_def no_locals_def)

lemma typed_set [intro!]:
  "typed_locals l \<Longrightarrow> typed_locals (l\<lparr>encryption := Some (mk_transform Encryption i [KeyLength k])\<rparr>)"
  "typed_locals l \<Longrightarrow> i = 1 \<or> i = 2 \<or> i = 12 \<or> i = 13 \<or> i = 14 \<Longrightarrow>
     typed_locals (l\<lparr>integrity := Some (mk_transform Integrity i [])\<rparr>)"
  "typed_locals l \<Longrightarrow> typed_locals (l\<lparr>prf_local := Some (mk_transform Prf i [])\<rparr>)"
  "typed_locals l \<Longrightarrow> i \<in> {1, 2, 5, 14, 15, 16, 18} \<Longrightarrow>
     typed_locals (l\<lparr>dh_group := Some (mk_transform DiffieHellmanGroup i [])\<rparr>)"
  by (auto simp: typed_locals_def mk_transform_def default_prf_for_integrity_def)

lemma ike_token_typed: "ike_token l t = Inr l' \<Longrightarrow> typed_locals l \<Longrightarrow> typed_locals l'"
  unfolding ike_token_def by (simp only: split: if_split_asm) auto

lemma child_sa_token_typed: "child_sa_token l t = Inr l' \<Longrightarrow> typed_locals l \<Longrightarrow> typed_locals l'"
  unfolding child_sa_token_def by (simp only: split: if_split_asm) auto

lemma token_loop_invariant:
  assumes "token_loop step l ts = Inr l'" and "P l"
    and "\<And>l t l'. step l t = Inr l' \<Longrightarrow> P l \<Longrightarrow> P l'"
  shows "P l'"
  using assms(1,2)
proof (induction ts arbitrary: l)
  case Nil
  then show ?case by simp
next
  case (Cons t ts)
  then show ?case using assms(3) by (auto simp: result_simps)
qed

lemma default_prf_transform:
  "default_prf_for_integrity i = Inr p \<Longrightarrow> transform_type p = Prf \<and> attributes p = []"
  by (auto simp: default_prf_for_integrity_def mk_transform_def split: if_splits)

lemma ike_proposal_shape:
  assumes "ike_proposal_from_profile_string s n = Inr p"
  obtains l e q i d where "token_loop ike_token no_locals (proposal_tokens s) = Inr l"
    "typed_locals l" "encryption l = Some e" "integrity l = Some i" "dh_group l = Some d"
    "p = \<lparr>number = n, protocol_id = ProtoIke, spi = [], transforms = [e, q, i, d]\<rparr>"
    "transform_type q = Prf" "attributes q = []"
    "prf_local l = Some q \<or> prf_local l = None \<and> default_prf_for_integrity i = Inr q"
proof -
  from assms obtain l c e q i d where loop: "token_loop ike_token no_locals (proposal_tokens s) = Inr l"
    and c: "(case prf_local l of Some p \<Rightarrow> Inr (Some p)
             | None \<Rightarrow> rbind (ok_or (integrity l) MissingIntegrity) (\<lambda>i.
                 rmap Some (default_prf_for_integrity i))) = Inr c"
    and l: "encryption l = Some e" "c = Some q" "integrity l = Some i" "dh_group l = Some d"
    and p: "p = \<lparr>number = n, protocol_id = ProtoIke, spi = [], transforms = [e, q, i, d]\<rparr>"
    by (auto simp: ike_proposal_from_profile_string_def Let_def result_simps split: if_splits)
  have typed: "typed_locals l"
    using loop typed_no_locals ike_token_typed by (rule token_loop_invariant [where P = typed_locals])
  have src: "prf_local l = Some q \<or> prf_local l = None \<and> default_prf_for_integrity i = Inr q"
    using c l by (auto simp: result_simps split: option.splits)
  then have "transform_type q = Prf" "attributes q = []"
    using typed default_prf_transform by (auto simp: typed_locals_def)
  then show thesis using that loop typed l p src by blast
qed

lemma encode_transform_ok: "length (attributes t) \<le> 1 \<Longrightarrow> \<exists>bs. encode_transform t m = Inr bs \<and> length bs \<le> 12"
  by (cases "attributes t") (auto simp: encode_transform_def Let_def encode_attribute_def
      split: TransformAttribute.split)

lemma encode_transforms_ok:
  "list_all (\<lambda>t. length (attributes t) \<le> 1) ts \<Longrightarrow>
     \<exists>bs. encode_transforms ts = Inr bs \<and> length bs \<le> 12 * length ts"
proof (induction ts)
  case Nil
  then show ?case by simp
next
  case (Cons t ts)
  then obtain bs where bs: "encode_transforms ts = Inr bs" "length bs \<le> 12 * length ts" by auto
  from Cons.prems encode_transform_ok [of t "ts \<noteq> []"]
  obtain here where "encode_transform t (ts \<noteq> []) = Inr here" "length here \<le> 12" by auto
  with bs show ?case by auto
qed

definition cipher_tokens :: "string set" where
  "cipher_tokens = {''aes128'', ''aes256''}"

definition integrity_tokens :: "string set" where
  "integrity_tokens = {''md5'', ''sha1'', ''sha256'', ''sha384'', ''sha512''}"

lemma child_sa_token_sets:
  assumes "child_sa_token l t = Inr l'"
  shows "encryption l' = None \<longleftrightarrow> encryption l = None \<and> t \<notin> cipher_tokens"
    and "integrity l' = None \<longleftrightarrow> integrity l = None \<and> t \<notin> integrity_tokens"
  using assms unfolding child_sa_token_def cipher_tokens_def integrity_tokens_def
  by (simp_all only: split: if_split_asm) auto

lemma child_sa_loop_sets:
  assumes "token_loop child_sa_token l ts = Inr l'"
  shows "(encryption l' = None \<longleftrightarrow> encryption l = None \<and> set ts \<inter> cipher_tokens = {})
    \<and> (integrity l' = None \<longleftrightarrow> integrity l = None \<and> set ts \<inter> integrity_tokens = {})"
  using assms
proof (induction ts arbitrary: l)
  case Nil
  then show ?case by simp
next
  case (Cons t ts)
  then obtain l1 where l1: "child_sa_token l t = Inr l1" "token_loop child_sa_token l1 ts = Inr l'"
    by (auto simp: result_simps)
  from Cons.IH [OF l1(2)] child_sa_token_sets [OF l1(1)] show ?case by auto
qed

lemma child_sa_loop_fails:
  "token_loop child_sa_token l ts = Inl e \<Longrightarrow> \<exists>t \<in> set ts. e = UnsupportedToken t"
proof (induction ts arbitrary: l)
  case Nil
  then show ?case by simp
next
  case (Cons t ts)
  have "child_sa_token l t = Inl e \<Longrightarrow> e = UnsupportedToken t"
    unfolding child_sa_token_def by (simp only: split: if_split_asm) auto
  with Cons show ?case by (auto simp: result_simps)
qed

section \<open>Properties\<close>

text \<open>a security association payload that the builder accepts is parsed back to exactly the
  proposals it was built from: numbers, protocols, SPIs, transforms and key lengths, in order.\<close>

theorem sa_parse_build:
  assumes "build_sa_payload ps = Inr payload"
  shows "parse_sa_payload (body payload) = Inr (map parsed_proposal ps)"
  using assms by (auto simp: build_sa_payload_def result_simps dest: parse_encode_proposals)

theorem sa_parse_build_witness:
  "\<exists>payload. build_sa_payload [\<lparr>number = 1, protocol_id = ProtoEsp, spi = [1, 2, 3, 4],
       transforms = [mk_transform Encryption 12 [KeyLength 256]]\<rparr>] = Inr payload
     \<and> parse_sa_payload (body payload) = Inr [\<lparr>parsed_number = 1, parsed_protocol_id = 3,
         spi_size = 4, spi_present = True, parsed_spi = [1, 2, 3, 4],
         parsed_transforms = [\<lparr>parsed_transform_type = 1, parsed_transform_id = 12,
           parsed_attributes = [\<lparr>attribute_type = 14, attribute_value = 256\<rparr>]\<rparr>]\<rparr>]"
proof -
  let ?ps = "[\<lparr>number = 1, protocol_id = ProtoEsp, spi = [1, 2, 3, 4],
       transforms = [mk_transform Encryption 12 [KeyLength 256]]\<rparr>]"
  have "is_ok (build_sa_payload ?ps)"
    by (simp add: build_sa_payload_def encode_proposal_def encode_transform_def mk_transform_def
        encode_attribute_def Let_def)
  then obtain payload where b: "build_sa_payload ?ps = Inr payload"
    by (cases "build_sa_payload ?ps") auto
  from sa_parse_build [OF b] b show ?thesis
    by (auto simp: parsed_proposal_def parsed_transform_def parsed_attribute_def mk_transform_def)
qed

text \<open>a profile string that is accepted as an IKE proposal yields the four transforms
  encryption, PRF, integrity, Diffie-Hellman in that order, with a supported group and, when the
  string names no PRF, the PRF of the integrity algorithm; the proposal always encodes.\<close>

theorem ike_proposal_complete:
  assumes "ike_proposal_from_profile_string s n = Inr p"
  shows "map transform_type (transforms p) = [Encryption, Prf, Integrity, DiffieHellmanGroup]
    \<and> ike_proposal_dh_group_from_profile_string s = Inr (transform_id (transforms p ! 3))
    \<and> transform_id (transforms p ! 3) \<in> {1, 2, 5, 14, 15, 16, 18}
    \<and> is_ok (build_sa_payload [p])"
proof -
  from assms obtain l e q i d where shape: "typed_locals l" "encryption l = Some e"
      "integrity l = Some i" "dh_group l = Some d" "transform_type q = Prf" "attributes q = []"
    and p: "p = \<lparr>number = n, protocol_id = ProtoIke, spi = [], transforms = [e, q, i, d]\<rparr>"
    by (rule ike_proposal_shape)
  from assms have p1: "ike_proposal_from_profile_string s 1 = Inr (p\<lparr>number := 1\<rparr>)"
    by (auto simp: ike_proposal_from_profile_string_def Let_def result_simps split: if_splits)
  have small: "list_all (\<lambda>t. length (attributes t) \<le> 1) (transforms p)"
    using shape by (auto simp: p typed_locals_def)
  from encode_transforms_ok [OF small] obtain bs where
    "encode_transforms (transforms p) = Inr bs" "length bs \<le> 48" by (auto simp: p)
  then have "is_ok (build_sa_payload [p])"
    by (simp add: build_sa_payload_def encode_proposal_def p Let_def)
  then show ?thesis
    using shape p1 by (auto simp: p typed_locals_def ike_proposal_dh_group_from_profile_string_def)
qed

theorem ike_proposal_complete_witness:
  "\<exists>p. ike_proposal_from_profile_string ''aes128-sha256-modp2048'' 1 = Inr p
     \<and> map transform_type (transforms p) = [Encryption, Prf, Integrity, DiffieHellmanGroup]
     \<and> is_ok (build_sa_payload [p])"
proof -
  have tokens: "proposal_tokens ''aes128-sha256-modp2048'' = [''aes128'', ''sha256'', ''modp2048'']"
    by (simp add: proposal_tokens_def)
  have "is_ok (ike_proposal_from_profile_string ''aes128-sha256-modp2048'' 1)"
    by (simp add: ike_proposal_from_profile_string_def tokens ike_token_def no_locals_def
        default_prf_for_integrity_def mk_transform_def)
  then obtain p where p: "ike_proposal_from_profile_string ''aes128-sha256-modp2048'' 1 = Inr p"
    by (cases "ike_proposal_from_profile_string ''aes128-sha256-modp2048'' 1") auto
  from ike_proposal_complete [OF p]
  have "map transform_type (transforms p) = [Encryption, Prf, Integrity, DiffieHellmanGroup]"
    and "is_ok (build_sa_payload [p])" by simp_all
  with p show ?thesis by (intro exI [of _ p] conjI)
qed

text \<open>an ESP proposal from a profile string carries exactly encryption, integrity and the
  no-extended-sequence-numbers transform, keeps the caller's number and SPI, and a string is
  refused when a cipher or an integrity algorithm is missing.\<close>

theorem child_sa_proposal_complete:
  "case child_sa_proposal_from_profile_string s n i of
     Inr p \<Rightarrow> map transform_type (transforms p) = [Encryption, Integrity, ExtendedSequenceNumbers]
       \<and> transform_id (transforms p ! 2) = 0 \<and> number p = n \<and> spi p = i \<and> protocol_id p = ProtoEsp
       \<and> is_ok (build_sa_payload [p]) = (length i \<le> 255)
   | Inl EmptyProposal \<Rightarrow> proposal_tokens s = []
   | Inl MissingEncryption \<Rightarrow> set (proposal_tokens s) \<inter> cipher_tokens = {}
   | Inl MissingIntegrity \<Rightarrow> set (proposal_tokens s) \<inter> integrity_tokens = {}
   | Inl (UnsupportedToken t) \<Rightarrow> t \<in> set (proposal_tokens s)
   | Inl _ \<Rightarrow> False"
proof (cases "proposal_tokens s = []")
  case True
  then show ?thesis by (simp add: child_sa_proposal_from_profile_string_def)
next
  case False
  show ?thesis
  proof (cases "token_loop child_sa_token no_locals (proposal_tokens s)")
    case (Inl e)
    with False child_sa_loop_fails [OF Inl] show ?thesis
      by (auto simp: child_sa_proposal_from_profile_string_def)
  next
    case (Inr l)
    have typed: "typed_locals l"
      using Inr typed_no_locals child_sa_token_typed by (rule token_loop_invariant [where P = typed_locals])
    have sets: "encryption l = None \<Longrightarrow> set (proposal_tokens s) \<inter> cipher_tokens = {}"
      "integrity l = None \<Longrightarrow> set (proposal_tokens s) \<inter> integrity_tokens = {}"
      using child_sa_loop_sets [OF Inr] by simp_all
    show ?thesis
    proof (cases "encryption l = None \<or> integrity l = None")
      case True
      then show ?thesis using False sets
        by (cases "encryption l") (auto simp: child_sa_proposal_from_profile_string_def Inr)
    next
      case both: False
      then obtain e g where eg: "encryption l = Some e" "integrity l = Some g" by auto
      let ?p = "\<lparr>number = n, protocol_id = ProtoEsp, spi = i,
        transforms = [e, g, mk_transform ExtendedSequenceNumbers 0 []]\<rparr>"
      have r: "child_sa_proposal_from_profile_string s n i = Inr ?p"
        using False eg by (simp add: child_sa_proposal_from_profile_string_def Inr)
      have "list_all (\<lambda>t. length (attributes t) \<le> 1) (transforms ?p)"
        using typed eg by (auto simp: typed_locals_def mk_transform_def)
      from encode_transforms_ok [OF this] obtain bs
        where "encode_transforms (transforms ?p) = Inr bs" "length bs \<le> 36" by auto
      then have "is_ok (build_sa_payload [?p]) = (length i \<le> 255)"
        by (simp add: build_sa_payload_def encode_proposal_def Let_def)
      with typed eg show ?thesis
        by (auto simp: r typed_locals_def mk_transform_def)
    qed
  qed
qed

end
