(* ===== verification/Esp_Frame.thy ===== *)
theory Esp_Frame
  imports Rust_Prelude
begin

text \<open>
  ESP frames and their NAT traversal envelope, from
  \<open>connectivity/modems/ims/vowifi/dataplane.rs\<close>: the error type of the data plane, the frame
  header (\<open>parse_esp_frame_metadata\<close>, \<open>build_esp_frame_metadata\<close>, \<open>build_esp_frame_bytes\<close>) and the
  classification of what arrives on UDP port 4500 (\<open>parse_nat_t_packet\<close> and the two wrappers).
\<close>

section \<open>Constants and errors\<close>

abbreviation DEFAULT_OUTER_MTU :: u16 where "DEFAULT_OUTER_MTU \<equiv> 1500"
abbreviation ESP_HEADER_BYTES :: nat where "ESP_HEADER_BYTES \<equiv> 8"
abbreviation UDP_HEADER_BYTES :: nat where "UDP_HEADER_BYTES \<equiv> 8"
abbreviation IPV4_HEADER_BYTES :: nat where "IPV4_HEADER_BYTES \<equiv> 20"
abbreviation AES_CBC_IV_BYTES :: nat where "AES_CBC_IV_BYTES \<equiv> 16"
abbreviation ESP_TRAILER_BUDGET_BYTES :: nat where "ESP_TRAILER_BUDGET_BYTES \<equiv> 17"
abbreviation DEFAULT_INTEGRITY_CHECK_BYTES :: nat where "DEFAULT_INTEGRITY_CHECK_BYTES \<equiv> 16"
abbreviation INNER_QUEUE_CAPACITY :: nat where "INNER_QUEUE_CAPACITY \<equiv> 64"

datatype DataplaneStateError =
  EmptyEspProposals | InvalidSaIdentifier | InvalidSelectedEspProposal | EspPacketTooShort
  | InvalidPhase string string | SequenceExhausted | InnerPacketTooLarge nat u16 | InnerQueueFull
  | EspIntegrityMismatch | EspInvalidPadding | EspUnsupportedCipher | EspUnsupportedIntegrity
  | EspRandomFailed

fun dataplane_error_to_string :: "DataplaneStateError \<Rightarrow> string" where
  "dataplane_error_to_string EmptyEspProposals = ''profile has no ESP proposals''"
| "dataplane_error_to_string InvalidSaIdentifier = ''invalid CHILD_SA identifier''"
| "dataplane_error_to_string InvalidSelectedEspProposal =
     ''selected ESP proposal is not in the profile''"
| "dataplane_error_to_string EspPacketTooShort = ''ESP frame is too short''"
| "dataplane_error_to_string (InvalidPhase expected actual) =
     ''invalid dataplane phase expected='' @ expected @ '' actual='' @ actual"
| "dataplane_error_to_string SequenceExhausted = ''outbound ESP sequence exhausted''"
| "dataplane_error_to_string (InnerPacketTooLarge n mtu) =
     ''inner packet exceeds planned MTU bytes='' @ show_nat n @ '' inner_mtu='' @ show_nat (unat mtu)"
| "dataplane_error_to_string InnerQueueFull = ''inner gateway queue is full''"
| "dataplane_error_to_string EspIntegrityMismatch = ''ESP integrity check failed''"
| "dataplane_error_to_string EspInvalidPadding = ''ESP padding is invalid''"
| "dataplane_error_to_string EspUnsupportedCipher = ''ESP cipher is unsupported''"
| "dataplane_error_to_string EspUnsupportedIntegrity = ''ESP integrity algorithm is unsupported''"
| "dataplane_error_to_string EspRandomFailed = ''ESP random generation failed''"

section \<open>Frames\<close>

record EspPacketMetadata =
  sa_identifier_present :: bool
  esp_sequence_number :: u64
  protected_bytes :: nat
  esp_outer_frame_bytes :: nat
  header_bytes :: nat
  esp_policy :: string

datatype NattPacketKind = EspInUdp4500 | IkeNonEspMarker | NatKeepalive

fun natt_kind_as_str :: "NattPacketKind \<Rightarrow> string" where
  "natt_kind_as_str EspInUdp4500 = ''esp_in_udp_4500''"
| "natt_kind_as_str IkeNonEspMarker = ''ike_non_esp_marker''"
| "natt_kind_as_str NatKeepalive = ''nat_keepalive''"

record NattPacketSummary =
  natt_kind :: string
  udp_port :: u16
  wire_bytes :: nat
  natt_esp :: "EspPacketMetadata option"
  natt_policy :: string

definition parse_esp_frame_metadata :: "bytes \<Rightarrow> DataplaneStateError + EspPacketMetadata" where
  "parse_esp_frame_metadata frame =
     (if length frame < ESP_HEADER_BYTES then Inl EspPacketTooShort
      else Inr \<lparr>sa_identifier_present = (take 4 frame \<noteq> [0, 0, 0, 0]),
                esp_sequence_number =
                  ucast (u32_from_be [frame ! 4, frame ! 5, frame ! 6, frame ! 7]),
                protected_bytes = length frame - ESP_HEADER_BYTES,
                esp_outer_frame_bytes = length frame,
                header_bytes = ESP_HEADER_BYTES,
                esp_policy = ''sa_identifier_and_protected_bytes_not_serialized''\<rparr>)"

definition build_esp_frame_metadata ::
    "u32 \<Rightarrow> u64 \<Rightarrow> nat \<Rightarrow> DataplaneStateError + EspPacketMetadata" where
  "build_esp_frame_metadata sa_identifier sequence_number n =
     (if sa_identifier = 0 then Inl InvalidSaIdentifier
      else if sequence_number = 0 \<or> unat sequence_number > u32_max then Inl SequenceExhausted
      else Inr \<lparr>sa_identifier_present = True,
                esp_sequence_number = sequence_number,
                protected_bytes = n,
                esp_outer_frame_bytes = ESP_HEADER_BYTES + n,
                header_bytes = ESP_HEADER_BYTES,
                esp_policy = ''sa_identifier_and_protected_bytes_not_serialized''\<rparr>)"

definition build_esp_frame_bytes :: "u32 \<Rightarrow> u64 \<Rightarrow> bytes \<Rightarrow> DataplaneStateError + bytes" where
  "build_esp_frame_bytes sa_identifier sequence_number body =
     rbind (build_esp_frame_metadata sa_identifier sequence_number (length body)) (\<lambda>_.
       Inr (u32_be sa_identifier @ u32_be (ucast sequence_number) @ body))"

definition parse_nat_t_packet :: "bytes \<Rightarrow> DataplaneStateError + NattPacketSummary" where
  "parse_nat_t_packet packet =
     (if length packet = 1 \<and> packet ! 0 = 0xff then
        Inr \<lparr>natt_kind = natt_kind_as_str NatKeepalive, udp_port = 4500,
             wire_bytes = length packet, natt_esp = None,
             natt_policy = ''nat_keepalive_metadata_only''\<rparr>
      else if length packet \<ge> 4 \<and> take 4 packet = [0, 0, 0, 0] then
        Inr \<lparr>natt_kind = natt_kind_as_str IkeNonEspMarker, udp_port = 4500,
             wire_bytes = length packet, natt_esp = None,
             natt_policy = ''ike_packet_body_not_serialized''\<rparr>
      else rbind (parse_esp_frame_metadata packet) (\<lambda>esp.
        Inr \<lparr>natt_kind = natt_kind_as_str EspInUdp4500, udp_port = 4500,
             wire_bytes = length packet, natt_esp = Some esp,
             natt_policy = ''esp_packet_metadata_only''\<rparr>))"

definition wrap_ike_for_nat_t :: "bytes \<Rightarrow> NattPacketSummary" where
  "wrap_ike_for_nat_t ike_message =
     \<lparr>natt_kind = natt_kind_as_str IkeNonEspMarker, udp_port = 4500,
      wire_bytes = 4 + length ike_message, natt_esp = None,
      natt_policy = ''ike_packet_body_not_serialized''\<rparr>"

definition wrap_esp_metadata_for_nat_t :: "EspPacketMetadata \<Rightarrow> NattPacketSummary" where
  "wrap_esp_metadata_for_nat_t esp =
     \<lparr>natt_kind = natt_kind_as_str EspInUdp4500, udp_port = 4500,
      wire_bytes = esp_outer_frame_bytes esp, natt_esp = Some esp,
      natt_policy = ''esp_packet_metadata_only''\<rparr>"

section \<open>What the header carries\<close>

lemma ucast_u32_u64: "unat (s :: u64) \<le> u32_max \<Longrightarrow> ucast (ucast s :: u32) = s"
  by (rule word_unat_eq_iff [THEN iffD2]) (simp add: unsigned_ucast_eq take_bit_eq_mod unat_mod)

lemma u32_be_zero_iff: "u32_be w = [0, 0, 0, 0] \<longleftrightarrow> w = 0"
proof -
  have "u32_be 0 = [0, 0, 0, 0]" by (simp add: u32_be_def nat_to_be_numeral)
  then show ?thesis using be32.to_be_inject [of w 0] by simp
qed

lemma four_octets: "length bs = 4 \<Longrightarrow> [bs ! 0, bs ! 1, bs ! 2, bs ! 3] = bs"
  by (auto simp: numeral_eq_Suc length_Suc_conv)

lemma sequence_octets:
  assumes "length pre = 4" and "length sq = 4"
  shows "[(pre @ sq @ rest) ! 4, (pre @ sq @ rest) ! 5, (pre @ sq @ rest) ! 6, (pre @ sq @ rest) ! 7] = sq"
  using assms four_octets [of sq] by (simp add: nth_append)

lemma parse_esp_header:
  assumes "unat s \<le> u32_max"
  shows "parse_esp_frame_metadata (u32_be spi @ u32_be (ucast (s :: u64)) @ body) =
    Inr \<lparr>sa_identifier_present = (spi \<noteq> 0), esp_sequence_number = s,
         protected_bytes = length body, esp_outer_frame_bytes = ESP_HEADER_BYTES + length body,
         header_bytes = ESP_HEADER_BYTES,
         esp_policy = ''sa_identifier_and_protected_bytes_not_serialized''\<rparr>"
  unfolding parse_esp_frame_metadata_def
  by (subst sequence_octets) (simp_all add: u32_be_zero_iff ucast_u32_u64 assms)

section \<open>Properties\<close>

text \<open>
  Demultiplexing on port 4500 is sound for everything the client sends.  A frame the builder
  makes is read back as ESP with exactly the metadata it was built with (never as a keepalive or
  an IKE message), and an IKE message behind its four-octet marker is read back as IKE.
\<close>

theorem nat_t_demultiplex:
  assumes "build_esp_frame_bytes spi s body = Inr frame"
  shows "(\<exists>md. build_esp_frame_metadata spi s (length body) = Inr md
           \<and> parse_nat_t_packet frame = Inr (wrap_esp_metadata_for_nat_t md))
       \<and> parse_nat_t_packet ([0, 0, 0, 0] @ ike) = Inr (wrap_ike_for_nat_t ike)"
proof -
  have spi: "spi \<noteq> 0" and s: "unat s \<le> u32_max" "s \<noteq> 0"
    and frame: "frame = u32_be spi @ u32_be (ucast s) @ body"
    using assms by (auto simp: build_esp_frame_bytes_def build_esp_frame_metadata_def
        result_simps split: if_splits)
  have "parse_nat_t_packet frame = rbind (parse_esp_frame_metadata frame) (\<lambda>esp.
        Inr \<lparr>natt_kind = natt_kind_as_str EspInUdp4500, udp_port = 4500,
             wire_bytes = length frame, natt_esp = Some esp,
             natt_policy = ''esp_packet_metadata_only''\<rparr>)"
    using spi by (simp add: parse_nat_t_packet_def frame u32_be_zero_iff)
  then show ?thesis
    using spi s parse_esp_header [OF s(1), of spi body]
    by (simp add: frame build_esp_frame_metadata_def wrap_esp_metadata_for_nat_t_def
        wrap_ike_for_nat_t_def parse_nat_t_packet_def)
qed

theorem nat_t_demultiplex_witness:
  "(\<exists>md. build_esp_frame_metadata 0x11223344 7 (length [0xaa, 0xbb :: u8]) = Inr md
      \<and> parse_nat_t_packet [0x11, 0x22, 0x33, 0x44, 0, 0, 0, 7, 0xaa, 0xbb]
        = Inr (wrap_esp_metadata_for_nat_t md))
   \<and> parse_nat_t_packet [0, 0, 0, 0, 0x21] = Inr (wrap_ike_for_nat_t [0x21])"
  using nat_t_demultiplex [of "0x11223344" 7 "[0xaa, 0xbb]"
      "[0x11, 0x22, 0x33, 0x44, 0, 0, 0, 7, 0xaa, 0xbb]" "[0x21]"]
  by (simp add: build_esp_frame_bytes_def build_esp_frame_metadata_def u32_be_def
      nat_to_be_numeral)

end
