(* ===== verification/Esp_Protect.thy ===== *)
theory Esp_Protect
  imports Esp_Frame
begin

text \<open>
  ESP encapsulation and decapsulation from \<open>connectivity/modems/ims/vowifi/dataplane.rs\<close>:
  padding, CBC encryption, integrity tags with and without the IV, and the two entry points
  \<open>protect_inner_packet_for_esp_with_mode\<close> and \<open>unprotect_inner_packet_from_esp_with_mode\<close>.  The block
  cipher, HMAC and MD5 come from the crates \<open>aes\<close>/\<open>cbc\<close>, \<open>ring\<close> and \<open>md5\<close>; they are the fields of a
  \<open>Crypto\<close> record the definitions take, and \<open>crypto_laws\<close> states what those crates document.
  The random IV is an argument too (\<open>None\<close> when the system generator fails).
\<close>

section \<open>Library code the component calls\<close>

datatype AesVariant = Aes128 | Aes256

datatype HmacAlgorithm = HMAC_SHA1 | HMAC_SHA256 | HMAC_SHA384 | HMAC_SHA512

text \<open>\<open>cbc_encrypt v key iv text\<close> is \<open>Encryptor::new_from_slices\<close> followed by the unpadded
  encryption, \<open>None\<close> when the key or IV length is refused; likewise \<open>cbc_decrypt\<close>.\<close>

record Crypto =
  cbc_encrypt :: "AesVariant \<Rightarrow> bytes \<Rightarrow> bytes \<Rightarrow> bytes \<Rightarrow> bytes option"
  cbc_decrypt :: "AesVariant \<Rightarrow> bytes \<Rightarrow> bytes \<Rightarrow> bytes \<Rightarrow> bytes option"
  hmac_sign :: "HmacAlgorithm \<Rightarrow> bytes \<Rightarrow> bytes \<Rightarrow> bytes"
  md5_compute :: "bytes \<Rightarrow> bytes"

fun digest_len :: "HmacAlgorithm \<Rightarrow> nat" where
  "digest_len HMAC_SHA1 = 20"
| "digest_len HMAC_SHA256 = 32"
| "digest_len HMAC_SHA384 = 48"
| "digest_len HMAC_SHA512 = 64"

fun aes_key_len :: "AesVariant \<Rightarrow> nat" where
  "aes_key_len Aes128 = 16"
| "aes_key_len Aes256 = 32"

definition crypto_laws :: "Crypto \<Rightarrow> bool" where
  "crypto_laws c \<longleftrightarrow>
     (\<forall>v key iv pt. length key = aes_key_len v \<longrightarrow> length iv = 16 \<longrightarrow> length pt mod 16 = 0 \<longrightarrow>
        (\<exists>ct. cbc_encrypt c v key iv pt = Some ct \<and> length ct = length pt
            \<and> cbc_decrypt c v key iv ct = Some pt))
   \<and> (\<forall>a key m. length (hmac_sign c a key m) = digest_len a)
   \<and> (\<forall>m. length (md5_compute c m) = 16)"

section \<open>Keys\<close>

record ChildSaKeySchedulePlan =
  plan_encryption :: string
  plan_integrity :: string
  encryption_key_bytes :: nat
  integrity_key_bytes :: nat
  direction_secret_bytes :: nat
  total_secret_bytes :: nat
  exported_secret_values :: bool
  key_plan_policy :: string

record ChildSaSecretPair =
  outbound_encryption :: bytes
  outbound_integrity :: bytes
  inbound_encryption :: bytes
  inbound_integrity :: bytes
  summary :: ChildSaKeySchedulePlan

section \<open>Building blocks\<close>

definition esp_pad_len :: "nat \<Rightarrow> nat \<Rightarrow> nat" where
  "esp_pad_len payload_len block_bytes =
     (block_bytes - (payload_len + 2) mod block_bytes) mod block_bytes"

definition esp_integrity_len :: "string \<Rightarrow> DataplaneStateError + nat" where
  "esp_integrity_len integrity =
     (if integrity = ''hmac_md5_96'' then Inr 12
      else if integrity = ''hmac_sha1_96'' then Inr 12
      else if integrity = ''hmac_sha256_128'' then Inr 16
      else if integrity = ''hmac_sha384_192'' then Inr 24
      else if integrity = ''hmac_sha512_256'' then Inr 32
      else Inl EspUnsupportedIntegrity)"

definition hmac_md5 :: "(bytes \<Rightarrow> bytes) \<Rightarrow> bytes \<Rightarrow> bytes \<Rightarrow> bytes" where
  "hmac_md5 md5 key data =
     (let key1 = (if length key > 64 then md5 key else key);
          key2 = take 64 (key1 @ replicate 64 0);
          ipad = map (\<lambda>k. 0x36 XOR k) key2;
          opad = map (\<lambda>k. 0x5c XOR k) key2;
          inner = md5 (ipad @ data)
      in md5 (opad @ inner))"

definition integrity_algorithm :: "string \<Rightarrow> DataplaneStateError + HmacAlgorithm option \<times> nat" where
  "integrity_algorithm integrity =
     (if integrity = ''hmac_md5_96'' then Inr (None, 12)
      else if integrity = ''hmac_sha1_96'' then Inr (Some HMAC_SHA1, 12)
      else if integrity = ''hmac_sha256_128'' then Inr (Some HMAC_SHA256, 16)
      else if integrity = ''hmac_sha384_192'' then Inr (Some HMAC_SHA384, 24)
      else if integrity = ''hmac_sha512_256'' then Inr (Some HMAC_SHA512, 32)
      else Inl EspUnsupportedIntegrity)"

definition esp_integrity_tag ::
    "Crypto \<Rightarrow> string \<Rightarrow> bytes \<Rightarrow> bytes \<Rightarrow> DataplaneStateError + bytes" where
  "esp_integrity_tag c integrity key message_without_icv =
     rbind (integrity_algorithm integrity) (\<lambda>(algorithm, icv_len).
       let tag = (case algorithm of
                    Some a \<Rightarrow> hmac_sign c a key message_without_icv
                  | None \<Rightarrow> hmac_md5 (md5_compute c) key message_without_icv)
       in Inr (take icv_len tag))"

definition esp_iv_bytes :: "string \<Rightarrow> DataplaneStateError + nat" where
  "esp_iv_bytes encryption =
     (if encryption = ''aes_cbc'' then Inr AES_CBC_IV_BYTES
      else if encryption = ''null'' then Inr 0
      else Inl EspUnsupportedCipher)"

definition esp_encrypt_cbc ::
    "Crypto \<Rightarrow> string \<Rightarrow> bytes \<Rightarrow> bytes \<Rightarrow> bytes \<Rightarrow> DataplaneStateError + bytes" where
  "esp_encrypt_cbc c encryption key iv plaintext =
     (if encryption = ''null'' \<and> length key = 0 then Inr plaintext
      else if encryption = ''aes_cbc'' \<and> length key = 16 then
        ok_or (cbc_encrypt c Aes128 key iv plaintext) EspUnsupportedCipher
      else if encryption = ''aes_cbc'' \<and> length key = 32 then
        ok_or (cbc_encrypt c Aes256 key iv plaintext) EspUnsupportedCipher
      else Inl EspUnsupportedCipher)"

definition esp_decrypt_cbc ::
    "Crypto \<Rightarrow> string \<Rightarrow> bytes \<Rightarrow> bytes \<Rightarrow> bytes \<Rightarrow> DataplaneStateError + bytes" where
  "esp_decrypt_cbc c encryption key iv ciphertext =
     (if encryption = ''null'' \<and> length key = 0 then Inr ciphertext
      else if encryption = ''aes_cbc'' \<and> length key = 16 then
        ok_or (cbc_decrypt c Aes128 key iv ciphertext) EspUnsupportedCipher
      else if encryption = ''aes_cbc'' \<and> length key = 32 then
        ok_or (cbc_decrypt c Aes256 key iv ciphertext) EspUnsupportedCipher
      else Inl EspUnsupportedCipher)"

definition strip_esp_padding :: "bytes \<Rightarrow> DataplaneStateError + bytes \<times> u8" where
  "strip_esp_padding plaintext =
     (if length plaintext < 2 then Inl EspInvalidPadding
      else
        let next_header = plaintext ! (length plaintext - 1);
            pad_len = unat (plaintext ! (length plaintext - 2))
        in if length plaintext < 2 + pad_len then Inl EspInvalidPadding
           else
             let payload_end = length plaintext - (2 + pad_len);
                 padding = slice_of plaintext payload_end (payload_end + pad_len)
             in if \<not> list_all (\<lambda>(index, v). v = word_of_nat (index + 1)) (enumerate 0 padding)
                then Inl EspInvalidPadding
                else Inr (take payload_end plaintext, next_header))"

fun or_diff :: "u8 \<Rightarrow> bytes \<Rightarrow> bytes \<Rightarrow> u8" where
  "or_diff diff (l # ls) (r # rs) = or_diff (diff OR (l XOR r)) ls rs"
| "or_diff diff _ _ = diff"

definition constant_time_eq :: "bytes \<Rightarrow> bytes \<Rightarrow> bool" where
  "constant_time_eq left right = (if length left \<noteq> length right then False else or_diff 0 left right = 0)"

section \<open>Protect and unprotect\<close>

record EspProtectedPacketSummary =
  prot_sequence_number :: u64
  prot_outer_frame_bytes :: nat
  prot_protected_bytes :: nat
  inner_packet_bytes :: nat
  prot_next_header :: u8
  icv_bytes :: nat
  prot_policy :: string

definition protect_inner_packet_for_esp_with_mode ::
    "Crypto \<Rightarrow> bytes option \<Rightarrow> u32 \<Rightarrow> u64 \<Rightarrow> bytes \<Rightarrow> u8 \<Rightarrow> ChildSaSecretPair \<Rightarrow> bool
      \<Rightarrow> DataplaneStateError + bytes \<times> EspProtectedPacketSummary" where
  "protect_inner_packet_for_esp_with_mode c random_iv sa_identifier sequence_number inner_packet
       next_header secrets icv_include_iv =
     rbind (build_esp_frame_metadata sa_identifier sequence_number (length inner_packet)) (\<lambda>_.
     let plan = summary secrets in
     rbind (rbind (esp_iv_bytes (plan_encryption plan)) (\<lambda>n.
              if n = 0 then Inr [] else ok_or random_iv EspRandomFailed)) (\<lambda>iv.
     let pad_len = esp_pad_len (length inner_packet) 16;
         plaintext = inner_packet @ map word_of_nat [1..<pad_len + 1]
                       @ [word_of_nat pad_len] @ [next_header] in
     rbind (if plan_encryption plan = ''null'' then Inr plaintext
            else esp_encrypt_cbc c (plan_encryption plan) (outbound_encryption secrets) iv plaintext)
       (\<lambda>ciphertext.
     let frame = u32_be sa_identifier @ u32_be (ucast sequence_number) @ iv @ ciphertext;
         icv_input = (if icv_include_iv then frame
                      else u32_be sa_identifier @ u32_be (ucast sequence_number) @ ciphertext) in
     rbind (esp_integrity_tag c (plan_integrity plan) (outbound_integrity secrets) icv_input) (\<lambda>icv.
     let frame = frame @ icv in
     Inr (frame, \<lparr>prot_sequence_number = sequence_number,
                  prot_outer_frame_bytes = length frame,
                  prot_protected_bytes = length frame - ESP_HEADER_BYTES,
                  inner_packet_bytes = length inner_packet,
                  prot_next_header = next_header,
                  icv_bytes = length icv,
                  prot_policy = ''packet_lengths_only_no_payload_or_key_material''\<rparr>)))))"

definition protect_inner_packet_for_esp ::
    "Crypto \<Rightarrow> bytes option \<Rightarrow> u32 \<Rightarrow> u64 \<Rightarrow> bytes \<Rightarrow> u8 \<Rightarrow> ChildSaSecretPair
      \<Rightarrow> DataplaneStateError + bytes \<times> EspProtectedPacketSummary" where
  "protect_inner_packet_for_esp c random_iv sa_identifier sequence_number inner_packet next_header
       secrets =
     protect_inner_packet_for_esp_with_mode c random_iv sa_identifier sequence_number inner_packet
       next_header secrets True"

definition icv_input_of :: "bytes \<Rightarrow> nat \<Rightarrow> bool \<Rightarrow> bytes" where
  "icv_input_of signed_part iv_bytes icv_include_iv =
     (if icv_include_iv then signed_part
      else take ESP_HEADER_BYTES signed_part @ drop (ESP_HEADER_BYTES + iv_bytes) signed_part)"

definition unprotect_inner_packet_from_esp_with_mode ::
    "Crypto \<Rightarrow> bytes \<Rightarrow> ChildSaSecretPair \<Rightarrow> bool
      \<Rightarrow> DataplaneStateError + bytes \<times> EspProtectedPacketSummary" where
  "unprotect_inner_packet_from_esp_with_mode c frame secrets icv_include_iv =
     rbind (parse_esp_frame_metadata frame) (\<lambda>metadata.
     let plan = summary secrets in
     rbind (esp_integrity_len (plan_integrity plan)) (\<lambda>icv_len.
     rbind (esp_iv_bytes (plan_encryption plan)) (\<lambda>iv_bytes.
     if length frame < ESP_HEADER_BYTES + iv_bytes + icv_len then Inl EspPacketTooShort
     else
       let signed_len = length frame - icv_len;
           signed_part = take signed_len frame;
           received_icv = drop signed_len frame in
       rbind (esp_integrity_tag c (plan_integrity plan) (inbound_integrity secrets)
                (icv_input_of signed_part iv_bytes icv_include_iv)) (\<lambda>expected_icv.
       if \<not> constant_time_eq expected_icv received_icv then Inl EspIntegrityMismatch
       else
         let iv_end = ESP_HEADER_BYTES + iv_bytes;
             iv = slice_of frame ESP_HEADER_BYTES iv_end;
             ciphertext = slice_of frame iv_end signed_len in
         rbind (if plan_encryption plan = ''null'' then Inr ciphertext
                else esp_decrypt_cbc c (plan_encryption plan) (inbound_encryption secrets) iv
                       ciphertext) (\<lambda>plaintext.
         rbind (strip_esp_padding plaintext) (\<lambda>(inner_packet, next_header).
         Inr (inner_packet,
              \<lparr>prot_sequence_number = esp_sequence_number metadata,
               prot_outer_frame_bytes = length frame,
               prot_protected_bytes = length frame - ESP_HEADER_BYTES,
               inner_packet_bytes = length inner_packet,
               prot_next_header = next_header,
               icv_bytes = icv_len,
               prot_policy = ''packet_lengths_only_no_payload_or_key_material''\<rparr>)))))))"

definition unprotect_inner_packet_from_esp ::
    "Crypto \<Rightarrow> bytes \<Rightarrow> ChildSaSecretPair
      \<Rightarrow> DataplaneStateError + bytes \<times> EspProtectedPacketSummary" where
  "unprotect_inner_packet_from_esp c frame secrets =
     unprotect_inner_packet_from_esp_with_mode c frame secrets True"

section \<open>Facts about the building blocks\<close>

lemma esp_pad_len_block:
  "(n + esp_pad_len n 16 + 2) mod 16 = 0" "esp_pad_len n 16 \<le> 15"
proof -
  obtain q r where n: "n + 2 = 16 * q + r" and r: "r < 16"
    by (metis mod_less_divisor mult_div_mod_eq zero_less_numeral)
  then have pad: "esp_pad_len n 16 = (16 - r) mod 16"
    by (simp add: esp_pad_len_def)
  then show "esp_pad_len n 16 \<le> 15" by simp
  have "n + esp_pad_len n 16 + 2 = 16 * (if r = 0 then q else q + 1)"
    using n r pad by (cases "r = 0") auto
  then show "(n + esp_pad_len n 16 + 2) mod 16 = 0" by simp
qed

lemma strip_padding_padded:
  assumes "p \<le> 255"
  shows "strip_esp_padding (inner @ map word_of_nat [1..<p + 1] @ [word_of_nat p] @ [nh])
    = Inr (inner, nh)"
proof -
  let ?pad = "map word_of_nat [1..<p + 1] :: bytes"
  let ?pt = "inner @ ?pad @ [word_of_nat p] @ [nh]"
  have len: "length ?pt = length inner + p + 2" by simp
  have last: "?pt ! (length ?pt - 1) = nh" "?pt ! (length ?pt - 2) = word_of_nat p"
    by (simp_all add: nth_append)
  have pad: "slice_of ?pt (length inner) (length inner + p) = ?pad"
    by (rule slice_append_mid [of _ inner _ "[word_of_nat p] @ [nh]"]) auto
  have "list_all (\<lambda>(index, v). v = word_of_nat (index + 1)) (enumerate 0 ?pad)"
    by (simp add: list_all_length nth_enumerate_eq del: upt_Suc of_nat_Suc)
  then show ?thesis
    unfolding strip_esp_padding_def Let_def last
    using assms pad len by simp
qed

lemma or_diff_zero_iff:
  "length ls = length rs \<Longrightarrow> or_diff d ls rs = 0 \<longleftrightarrow> d = 0 \<and> ls = rs"
proof (induction ls rs arbitrary: d rule: list_induct2)
  case Nil
  then show ?case by simp
next
  case (Cons l ls r rs)
  have "l XOR r = 0 \<longleftrightarrow> l = r"
    by (auto simp: bit_eq_iff bit_xor_iff)
  then have "d OR (l XOR r) = 0 \<longleftrightarrow> d = 0 \<and> l = r"
    by (auto simp: or_eq_0_iff)
  with Cons show ?case by auto
qed

lemma constant_time_eq_iff [simp]: "constant_time_eq a b \<longleftrightarrow> a = b"
  by (auto simp: constant_time_eq_def or_diff_zero_iff)

lemma integrity_len_algorithm: "esp_integrity_len i = rmap snd (integrity_algorithm i)"
  by (simp only: esp_integrity_len_def integrity_algorithm_def rmap_simps snd_conv split: if_split)
     simp

lemma integrity_algorithm_fits:
  "integrity_algorithm i = Inr (a, n) \<Longrightarrow> n \<le> (case a of None \<Rightarrow> 16 | Some h \<Rightarrow> digest_len h)"
  unfolding integrity_algorithm_def by (simp only: split: if_split_asm) auto

lemma tag_iff_len:
  "(\<exists>t. esp_integrity_tag c i k m = Inr t) \<longleftrightarrow> (\<exists>n. esp_integrity_len i = Inr n)"
  by (cases "integrity_algorithm i") (auto simp: esp_integrity_tag_def integrity_len_algorithm Let_def)

lemma tag_length:
  assumes "crypto_laws c" and "esp_integrity_tag c i k m = Inr t" and "esp_integrity_len i = Inr n"
  shows "length t = n"
proof -
  obtain a where alg: "integrity_algorithm i = Inr (a, n)"
    using assms(3) by (auto simp: integrity_len_algorithm result_simps)
  show ?thesis
    using assms(1,2) integrity_algorithm_fits [OF alg]
    by (auto simp: esp_integrity_tag_def alg Let_def crypto_laws_def hmac_md5_def
        split: option.splits)
qed

lemma tag_length_le:
  assumes "esp_integrity_tag c i k m = Inr t" and "esp_integrity_len i = Inr n"
  shows "length t \<le> n"
  using assms by (cases "integrity_algorithm i")
     (auto simp: esp_integrity_tag_def integrity_len_algorithm Let_def)

lemma cbc_inverse:
  assumes "crypto_laws c" and "length iv = 16" and "length pt mod 16 = 0"
    and "esp_encrypt_cbc c e k iv pt = Inr ct"
  shows "esp_decrypt_cbc c e k iv ct = Inr pt" and "length ct = length pt"
proof -
  have law: "cbc_encrypt c v k iv pt = Some ct \<Longrightarrow> length k = aes_key_len v \<Longrightarrow>
      length ct = length pt \<and> cbc_decrypt c v k iv ct = Some pt" for v
    using assms(1) [unfolded crypto_laws_def, THEN conjunct1, rule_format, of k v iv pt] assms(2,3)
    by auto
  show "esp_decrypt_cbc c e k iv ct = Inr pt" "length ct = length pt"
    using assms(4) law [of Aes128] law [of Aes256]
    by (auto simp: esp_encrypt_cbc_def esp_decrypt_cbc_def split: if_split_asm)
qed

lemma slice_of_prefix: "b \<le> length xs \<Longrightarrow> slice_of (xs @ ys) a b = slice_of xs a b"
  by (simp add: slice_of_def)

text \<open>What a successful \<open>protect\<close> run is made of.\<close>

lemma protect_ok:
  assumes "protect_inner_packet_for_esp_with_mode c rnd spi s inner nh secrets mode = Inr (frame, summ)"
  obtains iv ct icv where
    "spi \<noteq> 0" "s \<noteq> 0" "unat s \<le> u32_max"
    "plan_encryption (summary secrets) = ''null'' \<and> iv = []
     \<or> plan_encryption (summary secrets) = ''aes_cbc'' \<and> rnd = Some iv"
    "(if plan_encryption (summary secrets) = ''null'' then Inr else
        esp_encrypt_cbc c (plan_encryption (summary secrets)) (outbound_encryption secrets) iv)
      (inner @ map word_of_nat [1..<esp_pad_len (length inner) 16 + 1]
         @ [word_of_nat (esp_pad_len (length inner) 16)] @ [nh]) = Inr ct"
    "esp_integrity_tag c (plan_integrity (summary secrets)) (outbound_integrity secrets)
      (u32_be spi @ u32_be (ucast s) @ (if mode then iv else []) @ ct) = Inr icv"
    "frame = u32_be spi @ u32_be (ucast s) @ iv @ ct @ icv"
    "summ = \<lparr>prot_sequence_number = s, prot_outer_frame_bytes = length frame,
       prot_protected_bytes = length frame - ESP_HEADER_BYTES, inner_packet_bytes = length inner,
       prot_next_header = nh, icv_bytes = length icv,
       prot_policy = ''packet_lengths_only_no_payload_or_key_material''\<rparr>"
proof -
  let ?e = "plan_encryption (summary secrets)"
  obtain iv where iv: "rbind (esp_iv_bytes ?e)
      (\<lambda>n. if n = 0 then Inr [] else ok_or rnd EspRandomFailed) = Inr iv"
    using assms unfolding protect_inner_packet_for_esp_with_mode_def Let_def rbind_eq_Inr by blast
  then have ivs: "?e = ''null'' \<and> iv = [] \<or> ?e = ''aes_cbc'' \<and> rnd = Some iv"
    by (auto simp: esp_iv_bytes_def result_simps split: if_split_asm)
  obtain md where md: "build_esp_frame_metadata spi s (length inner) = Inr md"
    using assms unfolding protect_inner_packet_for_esp_with_mode_def rbind_eq_Inr by blast
  then have meta: "spi \<noteq> 0" "s \<noteq> 0" "unat s \<le> u32_max"
    by (auto simp: build_esp_frame_metadata_def split: if_split_asm)
  let ?pt = "inner @ map word_of_nat [1..<esp_pad_len (length inner) 16 + 1]
         @ [word_of_nat (esp_pad_len (length inner) 16)] @ [nh]"
  obtain ct where ct: "(if ?e = ''null'' then Inr ?pt
      else esp_encrypt_cbc c ?e (outbound_encryption secrets) iv ?pt) = Inr ct"
    using assms
    unfolding protect_inner_packet_for_esp_with_mode_def Let_def md iv rbind_simps
    unfolding rbind_eq_Inr by blast
  let ?frame = "u32_be spi @ u32_be (ucast s) @ iv @ ct"
  obtain icv where icv: "esp_integrity_tag c (plan_integrity (summary secrets))
      (outbound_integrity secrets) (if mode then ?frame
        else u32_be spi @ u32_be (ucast s) @ ct) = Inr icv"
    using assms
    unfolding protect_inner_packet_for_esp_with_mode_def Let_def md iv rbind_simps ct
    unfolding rbind_eq_Inr by blast
  from assms have res: "frame = ?frame @ icv"
    "summ = \<lparr>prot_sequence_number = s, prot_outer_frame_bytes = length (?frame @ icv),
       prot_protected_bytes = length (?frame @ icv) - ESP_HEADER_BYTES,
       inner_packet_bytes = length inner, prot_next_header = nh, icv_bytes = length icv,
       prot_policy = ''packet_lengths_only_no_payload_or_key_material''\<rparr>"
    unfolding protect_inner_packet_for_esp_with_mode_def Let_def md iv rbind_simps ct icv
    by (auto simp only: sum.inject prod.inject)
  show ?thesis
  proof (rule that [OF meta ivs])
    show "(if ?e = ''null'' then Inr else esp_encrypt_cbc c ?e (outbound_encryption secrets) iv) ?pt
        = Inr ct"
      using ct by (simp only: split: if_split_asm) (simp_all only: if_True if_False simp_thms)
    show "esp_integrity_tag c (plan_integrity (summary secrets)) (outbound_integrity secrets)
        (u32_be spi @ u32_be (ucast s) @ (if mode then iv else []) @ ct) = Inr icv"
      using icv by (cases mode) simp_all
  qed (simp_all only: res append_assoc)
qed

text \<open>\<open>opposite tx rx\<close>: the receiver holds the sender's keys in the other direction.\<close>

definition opposite :: "ChildSaSecretPair \<Rightarrow> ChildSaSecretPair \<Rightarrow> bool" where
  "opposite tx rx \<longleftrightarrow> summary rx = summary tx
     \<and> inbound_encryption rx = outbound_encryption tx
     \<and> inbound_integrity rx = outbound_integrity tx"

text \<open>The receiver's run on a frame laid out as header, IV, ciphertext and tag.\<close>

lemma unprotect_layout:
  assumes iv: "esp_iv_bytes (plan_encryption (summary rx)) = Inr (length iv)"
    and len: "esp_integrity_len (plan_integrity (summary rx)) = Inr (length icv)"
    and seq: "unat s \<le> u32_max"
    and tag: "esp_integrity_tag c (plan_integrity (summary rx)) (inbound_integrity rx)
      (u32_be spi @ u32_be (ucast (s :: u64)) @ (if mode then iv else []) @ ct) = Inr icv"
    and dec: "(if plan_encryption (summary rx) = ''null'' then Inr ct else
      esp_decrypt_cbc c (plan_encryption (summary rx)) (inbound_encryption rx) iv ct) = Inr pt"
    and strip: "strip_esp_padding pt = Inr (inner, nh)"
    and frame: "frame = u32_be spi @ u32_be (ucast s) @ iv @ ct @ icv"
  shows "unprotect_inner_packet_from_esp_with_mode c frame rx mode = Inr (inner,
    \<lparr>prot_sequence_number = s, prot_outer_frame_bytes = length frame,
     prot_protected_bytes = length frame - ESP_HEADER_BYTES, inner_packet_bytes = length inner,
     prot_next_header = nh, icv_bytes = length icv,
     prot_policy = ''packet_lengths_only_no_payload_or_key_material''\<rparr>)"
proof -
  let ?signed = "u32_be spi @ u32_be (ucast s) @ iv @ ct"
  have n: "length frame = ESP_HEADER_BYTES + length iv + length ct + length icv"
    by (simp add: frame)
  have parts: "take (length frame - length icv) frame = ?signed"
    "drop (length frame - length icv) frame = icv"
    "slice_of frame 8 (8 + length iv) = iv"
    "slice_of frame (8 + length iv) (length frame - length icv) = ct"
    by (simp_all add: n) (simp_all add: frame slice_of_def)
  have input: "icv_input_of ?signed (length iv) mode =
      u32_be spi @ u32_be (ucast s) @ (if mode then iv else []) @ ct"
    by (simp add: icv_input_of_def)
  have meta: "parse_esp_frame_metadata frame = Inr
    \<lparr>sa_identifier_present = (spi \<noteq> 0), esp_sequence_number = s,
     protected_bytes = length (iv @ ct @ icv),
     esp_outer_frame_bytes = ESP_HEADER_BYTES + length (iv @ ct @ icv),
     header_bytes = ESP_HEADER_BYTES,
     esp_policy = ''sa_identifier_and_protected_bytes_not_serialized''\<rparr>"
    unfolding frame by (rule parse_esp_header [OF seq])
  have long: "\<not> length frame < ESP_HEADER_BYTES + length iv + length icv" using n by simp
  show ?thesis
    unfolding unprotect_inner_packet_from_esp_with_mode_def Let_def meta rbind_simps len iv
      if_not_P [OF long] parts input tag constant_time_eq_iff
    using dec strip by (simp only: simp_thms if_False rbind_simps case_prod_conv
        EspPacketMetadata.select_convs)
qed

text \<open>A concrete instance of the crate functions: an involutive byte cipher and constant-length
  digests that depend on key and message.\<close>

definition xor_cipher :: "AesVariant \<Rightarrow> bytes \<Rightarrow> bytes \<Rightarrow> bytes \<Rightarrow> bytes option" where
  "xor_cipher v key iv text = (if length key = aes_key_len v \<and> length iv = 16
     then Some (map (\<lambda>b. b XOR key ! 0 XOR iv ! 0) text) else None)"

definition sample_crypto :: Crypto where
  "sample_crypto = \<lparr>cbc_encrypt = xor_cipher, cbc_decrypt = xor_cipher,
     hmac_sign = (\<lambda>a key m. replicate (digest_len a) (foldl (XOR) 0 (key @ m))),
     md5_compute = (\<lambda>m. replicate 16 (foldl (XOR) 0 m))\<rparr>"

lemma sample_crypto_laws: "crypto_laws sample_crypto"
proof -
  have cancel: "(b XOR k XOR i) XOR k XOR i = b" for b k i :: u8
    by (simp add: bit_eq_iff bit_xor_iff) blast
  show ?thesis
    by (simp add: crypto_laws_def sample_crypto_def xor_cipher_def comp_def cancel)
qed

definition sample_secrets :: "string \<Rightarrow> string \<Rightarrow> bytes \<Rightarrow> bytes \<Rightarrow> ChildSaSecretPair" where
  "sample_secrets e i ke ki = \<lparr>outbound_encryption = ke, outbound_integrity = ki,
     inbound_encryption = ke, inbound_integrity = ki,
     summary = \<lparr>plan_encryption = e, plan_integrity = i, encryption_key_bytes = length ke,
       integrity_key_bytes = length ki, direction_secret_bytes = length ke + length ki,
       total_secret_bytes = 2 * (length ke + length ki), exported_secret_values = False,
       key_plan_policy = []\<rparr>\<rparr>"

text \<open>When every algorithm is supported and the keys fit, the sender succeeds.\<close>

definition cipher_ready :: "bytes option \<Rightarrow> ChildSaSecretPair \<Rightarrow> bool" where
  "cipher_ready rnd tx \<longleftrightarrow> plan_encryption (summary tx) = ''null''
     \<or> plan_encryption (summary tx) = ''aes_cbc''
       \<and> (length (outbound_encryption tx) = 16 \<or> length (outbound_encryption tx) = 32)
       \<and> (case rnd of None \<Rightarrow> False | Some iv \<Rightarrow> length iv = 16)"

lemma encrypt_total:
  assumes laws: "crypto_laws c" and "length iv = 16" and "length pt mod 16 = 0"
    and "length k = 16 \<or> length k = 32"
  obtains ct where "esp_encrypt_cbc c ''aes_cbc'' k iv pt = Inr ct"
proof -
  have law: "length k = aes_key_len v \<Longrightarrow> \<exists>ct. cbc_encrypt c v k iv pt = Some ct" for v
    using laws [unfolded crypto_laws_def, THEN conjunct1, rule_format, of k v iv pt] assms(2,3)
    by auto
  from assms(4) show ?thesis
    using law [of Aes128] law [of Aes256] that by (auto simp: esp_encrypt_cbc_def)
qed

lemma protect_total:
  assumes laws: "crypto_laws c"
    and ids: "spi \<noteq> 0" "s \<noteq> 0" "unat s \<le> u32_max"
    and cipher: "cipher_ready rnd tx"
    and integ: "esp_integrity_len (plan_integrity (summary tx)) = Inr n"
  shows "\<exists>frame summ.
    protect_inner_packet_for_esp_with_mode c rnd spi s inner nh tx mode = Inr (frame, summ)"
proof -
  let ?e = "plan_encryption (summary tx)"
  let ?p = "esp_pad_len (length inner) 16"
  let ?pt = "inner @ map word_of_nat [1..<?p + 1] @ [word_of_nat ?p] @ [nh]"
  have block: "length ?pt mod 16 = 0"
    using esp_pad_len_block(1) [of "length inner"] by (simp add: add.assoc del: upt_Suc)
  obtain md where md: "build_esp_frame_metadata spi s (length inner) = Inr md"
    using ids by (simp add: build_esp_frame_metadata_def)
  obtain iv ct where iv: "rbind (esp_iv_bytes ?e) (\<lambda>n. if n = 0 then Inr []
        else ok_or rnd EspRandomFailed) = Inr iv"
    and ct: "(if ?e = ''null'' then Inr ?pt
        else esp_encrypt_cbc c ?e (outbound_encryption tx) iv ?pt) = Inr ct"
  proof (cases "?e = ''null''")
    case True
    then show ?thesis using that [of "[]" ?pt] by (simp add: esp_iv_bytes_def)
  next
    case False
    then obtain iv where e: "?e = ''aes_cbc''" "rnd = Some iv" and iv: "length iv = 16"
      and k: "length (outbound_encryption tx) = 16 \<or> length (outbound_encryption tx) = 32"
      using cipher by (auto simp: cipher_ready_def split: option.splits)
    obtain ct where "esp_encrypt_cbc c ''aes_cbc'' (outbound_encryption tx) iv ?pt = Inr ct"
      by (rule encrypt_total [OF laws iv block k])
    with e show ?thesis by (intro that [of iv ct]) (simp_all add: esp_iv_bytes_def)
  qed
  obtain icv where icv: "esp_integrity_tag c (plan_integrity (summary tx)) (outbound_integrity tx)
      (if mode then u32_be spi @ u32_be (ucast s) @ iv @ ct
        else u32_be spi @ u32_be (ucast s) @ ct) = Inr icv"
    using tag_iff_len integ by blast
  show ?thesis
    unfolding protect_inner_packet_for_esp_with_mode_def Let_def md iv ct icv rbind_simps by blast
qed

lemma protect_size:
  assumes laws: "crypto_laws c" and iv16: "\<forall>iv. rnd = Some iv \<longrightarrow> length iv = 16"
    and integ: "esp_integrity_len (plan_integrity (summary tx)) = Inr n"
    and sent: "protect_inner_packet_for_esp_with_mode c rnd spi s inner nh tx mode = Inr (frame, summ)"
  shows "length frame \<le> length inner + ESP_HEADER_BYTES + AES_CBC_IV_BYTES
    + ESP_TRAILER_BUDGET_BYTES + n"
proof -
  let ?p = "esp_pad_len (length inner) 16"
  let ?pt = "inner @ map word_of_nat [1..<?p + 1] @ [word_of_nat ?p] @ [nh]"
  from sent obtain iv ct icv where cipher: "plan_encryption (summary tx) = ''null'' \<and> iv = []
      \<or> plan_encryption (summary tx) = ''aes_cbc'' \<and> rnd = Some iv"
    and ct: "(if plan_encryption (summary tx) = ''null'' then Inr else
        esp_encrypt_cbc c (plan_encryption (summary tx)) (outbound_encryption tx) iv) ?pt = Inr ct"
    and tag: "esp_integrity_tag c (plan_integrity (summary tx)) (outbound_integrity tx)
      (u32_be spi @ u32_be (ucast s) @ (if mode then iv else []) @ ct) = Inr icv"
    and frame: "frame = u32_be spi @ u32_be (ucast s) @ iv @ ct @ icv"
    by (rule protect_ok)
  have block: "length ?pt mod 16 = 0"
    using esp_pad_len_block(1) [of "length inner"] by (simp add: add.assoc del: upt_Suc)
  have "length ct = length ?pt"
  proof (cases "plan_encryption (summary tx) = ''null''")
    case True
    with ct show ?thesis by simp
  next
    case False
    have "esp_encrypt_cbc c (plan_encryption (summary tx)) (outbound_encryption tx) iv ?pt = Inr ct"
      using ct by (simp only: False if_False)
    moreover have "length iv = 16" using False cipher iv16 by blast
    ultimately show ?thesis using cbc_inverse(2) [OF laws _ block] by blast
  qed
  moreover have "length iv \<le> 16" using cipher iv16 by auto
  moreover have "length icv = n" by (rule tag_length [OF laws tag integ])
  ultimately show ?thesis
    using esp_pad_len_block(2) [of "length inner"] by (simp add: frame del: upt_Suc)
qed


lemma protect_then_unprotect:
  assumes laws: "crypto_laws c"
    and iv16: "\<forall>iv. rnd = Some iv \<longrightarrow> length iv = 16"
    and keys: "opposite tx rx"
    and sent: "protect_inner_packet_for_esp_with_mode c rnd spi s inner nh tx mode = Inr (frame, summ)"
  shows "unprotect_inner_packet_from_esp_with_mode c frame rx mode = Inr (inner, summ)"
proof -
  let ?p = "esp_pad_len (length inner) 16"
  let ?pt = "inner @ map word_of_nat [1..<?p + 1] @ [word_of_nat ?p] @ [nh]"
  from sent obtain iv ct icv where seq: "unat s \<le> u32_max"
    and cipher: "plan_encryption (summary tx) = ''null'' \<and> iv = []
      \<or> plan_encryption (summary tx) = ''aes_cbc'' \<and> rnd = Some iv"
    and ct: "(if plan_encryption (summary tx) = ''null'' then Inr else
        esp_encrypt_cbc c (plan_encryption (summary tx)) (outbound_encryption tx) iv) ?pt = Inr ct"
    and tag: "esp_integrity_tag c (plan_integrity (summary tx)) (outbound_integrity tx)
      (u32_be spi @ u32_be (ucast s) @ (if mode then iv else []) @ ct) = Inr icv"
    and frame: "frame = u32_be spi @ u32_be (ucast s) @ iv @ ct @ icv"
    and summ: "summ = \<lparr>prot_sequence_number = s, prot_outer_frame_bytes = length frame,
       prot_protected_bytes = length frame - ESP_HEADER_BYTES, inner_packet_bytes = length inner,
       prot_next_header = nh, icv_bytes = length icv,
       prot_policy = ''packet_lengths_only_no_payload_or_key_material''\<rparr>"
    by (rule protect_ok)
  have k: "summary rx = summary tx" "inbound_encryption rx = outbound_encryption tx"
    "inbound_integrity rx = outbound_integrity tx"
    using keys by (simp_all add: opposite_def)
  obtain n where n: "esp_integrity_len (plan_integrity (summary tx)) = Inr n"
    using tag tag_iff_len by blast
  have block: "length ?pt mod 16 = 0"
    using esp_pad_len_block(1) [of "length inner"] by (simp add: add.assoc del: upt_Suc)
  have ivn: "esp_iv_bytes (plan_encryption (summary rx)) = Inr (length iv)"
    using cipher iv16 by (auto simp: esp_iv_bytes_def k)
  have dec: "(if plan_encryption (summary rx) = ''null'' then Inr ct else
      esp_decrypt_cbc c (plan_encryption (summary rx)) (inbound_encryption rx) iv ct) = Inr ?pt"
  proof (cases "plan_encryption (summary tx) = ''null''")
    case True
    then show ?thesis using ct by (simp add: k)
  next
    case False
    then have "length iv = 16" using cipher iv16 by blast
    from cbc_inverse(1) [OF laws this block] False ct show ?thesis by (simp add: k)
  qed
  have strip: "strip_esp_padding ?pt = Inr (inner, nh)"
    using esp_pad_len_block(2) [of "length inner"] by (intro strip_padding_padded) linarith
  show ?thesis
    unfolding summ
    by (rule unprotect_layout [OF ivn _ seq _ dec strip frame])
       (use n tag tag_length [OF laws tag n] in \<open>simp_all add: k\<close>)
qed

section \<open>Properties\<close>

text \<open>
  C2: ESP round trip.  Whatever frame the sender produces (either ICV mode, AES-CBC or the null
  cipher, any supported integrity algorithm), a receiver holding the same keys in the other
  direction accepts it and gets back exactly the inner packet, its next header and the sequence
  number; the two summaries agree field for field.  The laws of the cipher and hash crates and
  the 16 octets of the random IV are hypotheses.
\<close>

theorem esp_protect_unprotect:
  assumes laws: "crypto_laws c"
    and iv16: "\<forall>iv. rnd = Some iv \<longrightarrow> length iv = 16"
    and keys: "opposite tx rx"
    and sent: "protect_inner_packet_for_esp_with_mode c rnd spi s inner nh tx mode = Inr (frame, summ)"
  shows "unprotect_inner_packet_from_esp_with_mode c frame rx mode = Inr (inner, summ)"
  by (rule protect_then_unprotect [OF assms])

theorem esp_protect_unprotect_witness:
  "\<exists>frame summ. protect_inner_packet_for_esp_with_mode sample_crypto (Some (replicate 16 9)) 7 5
      [0x45, 1, 2] 41 (sample_secrets ''aes_cbc'' ''hmac_sha1_96'' (replicate 16 3) [1, 2]) True
      = Inr (frame, summ)
    \<and> unprotect_inner_packet_from_esp_with_mode sample_crypto frame
        (sample_secrets ''aes_cbc'' ''hmac_sha1_96'' (replicate 16 3) [1, 2]) True
      = Inr ([0x45, 1, 2], summ)"
proof -
  let ?tx = "sample_secrets ''aes_cbc'' ''hmac_sha1_96'' (replicate 16 3) [1, 2]"
  have "opposite ?tx ?tx" by (simp add: opposite_def sample_secrets_def)
  moreover obtain frame summ where sent: "protect_inner_packet_for_esp_with_mode sample_crypto
      (Some (replicate 16 9)) 7 5 [0x45, 1, 2] 41 ?tx True = Inr (frame, summ)"
    using protect_total [OF sample_crypto_laws, of 7 5 "Some (replicate 16 9)" ?tx 12
        "[0x45, 1, 2]" 41 True]
    by (auto simp: cipher_ready_def sample_secrets_def esp_integrity_len_def)
  ultimately show ?thesis
    using esp_protect_unprotect [OF sample_crypto_laws _ _ sent] by auto
qed

text \<open>
  C24: Authenticated before use.  The receiver returns a packet only when the trailing octets of
  the frame are the integrity tag of the rest (less the IV in the alternate mode) under its
  inbound key; a frame shorter than header, IV and tag is never accepted.
\<close>

theorem esp_unprotect_authentic:
  assumes "unprotect_inner_packet_from_esp_with_mode c frame rx mode = Inr (inner, summ)"
  shows "\<exists>n v. esp_integrity_len (plan_integrity (summary rx)) = Inr n
    \<and> esp_iv_bytes (plan_encryption (summary rx)) = Inr v
    \<and> ESP_HEADER_BYTES + v + n \<le> length frame
    \<and> esp_integrity_tag c (plan_integrity (summary rx)) (inbound_integrity rx)
        (icv_input_of (take (length frame - n) frame) v mode) = Inr (drop (length frame - n) frame)"
proof -
  obtain md where md: "parse_esp_frame_metadata frame = Inr md"
    using assms unfolding unprotect_inner_packet_from_esp_with_mode_def rbind_eq_Inr by blast
  obtain n where n: "esp_integrity_len (plan_integrity (summary rx)) = Inr n"
    using assms unfolding unprotect_inner_packet_from_esp_with_mode_def md Let_def rbind_simps
    unfolding rbind_eq_Inr by blast
  obtain v where v: "esp_iv_bytes (plan_encryption (summary rx)) = Inr v"
    using assms unfolding unprotect_inner_packet_from_esp_with_mode_def md Let_def rbind_simps n
    unfolding rbind_eq_Inr by blast
  note body = assms [unfolded unprotect_inner_packet_from_esp_with_mode_def md Let_def rbind_simps
      n v]
  have long: "\<not> length frame < ESP_HEADER_BYTES + v + n"
  proof
    assume "length frame < ESP_HEADER_BYTES + v + n"
    from body [unfolded if_P [OF this]] show False by simp
  qed
  then obtain t where t: "esp_integrity_tag c (plan_integrity (summary rx)) (inbound_integrity rx)
      (icv_input_of (take (length frame - n) frame) v mode) = Inr t"
    using body unfolding if_not_P [OF long] rbind_eq_Inr by blast
  have "constant_time_eq t (drop (length frame - n) frame)"
    using body [unfolded if_not_P [OF long] t rbind_simps] by (simp only: split: if_split_asm) simp
  with n v t long show ?thesis by auto
qed

theorem esp_unprotect_authentic_witness:
  "\<exists>frame n v. esp_integrity_len ''hmac_md5_96'' = Inr n \<and> esp_iv_bytes ''null'' = Inr v
    \<and> esp_integrity_tag sample_crypto ''hmac_md5_96'' [9]
        (icv_input_of (take (length frame - n) frame) v False) = Inr (drop (length frame - n) frame)"
proof -
  let ?k = "sample_secrets ''null'' ''hmac_md5_96'' [] [9]"
  have "opposite ?k ?k" by (simp add: opposite_def sample_secrets_def)
  moreover obtain frame summ where sent: "protect_inner_packet_for_esp_with_mode sample_crypto None
      7 5 [0x45, 1, 2] 41 ?k False = Inr (frame, summ)"
    using protect_total [OF sample_crypto_laws, of 7 5 None ?k 12 "[0x45, 1, 2]" 41 False]
    by (auto simp: cipher_ready_def sample_secrets_def esp_integrity_len_def)
  ultimately have "unprotect_inner_packet_from_esp_with_mode sample_crypto frame ?k False =
      Inr ([0x45, 1, 2], summ)"
    by (intro protect_then_unprotect [OF sample_crypto_laws _ _ sent]) auto
  from esp_unprotect_authentic [OF this] show ?thesis by (auto simp: sample_secrets_def)
qed

text \<open>
  C30: The sender always delivers, within its budget.  With supported algorithms, fitting keys, a
  working generator, a non-zero SA identifier and a sequence number of 1 to \<open>u32::MAX\<close>, protecting
  any inner packet succeeds and the frame exceeds the packet by at most the 8-octet header, the
  16-octet IV, the 17-octet trailer budget and the tag.
\<close>

theorem esp_protect_total_bounded:
  assumes "crypto_laws c" and "spi \<noteq> 0" and "s \<noteq> 0" and "unat s \<le> u32_max"
    and "cipher_ready rnd tx" and "\<forall>iv. rnd = Some iv \<longrightarrow> length iv = 16"
    and "esp_integrity_len (plan_integrity (summary tx)) = Inr n"
  shows "\<exists>frame summ. protect_inner_packet_for_esp_with_mode c rnd spi s inner nh tx mode
      = Inr (frame, summ)
    \<and> length frame \<le> length inner + ESP_HEADER_BYTES + AES_CBC_IV_BYTES
        + ESP_TRAILER_BUDGET_BYTES + n"
  using protect_total [OF assms(1-5,7)] protect_size [OF assms(1,6,7)] by blast

theorem esp_protect_total_bounded_witness:
  "\<exists>frame summ. protect_inner_packet_for_esp_with_mode sample_crypto (Some (replicate 16 9)) 7 5
      [0x45, 1, 2] 41 (sample_secrets ''aes_cbc'' ''hmac_sha256_128'' (replicate 32 3) [1, 2]) False
      = Inr (frame, summ)
    \<and> length frame \<le> length [0x45, 1, 2 :: u8] + ESP_HEADER_BYTES + AES_CBC_IV_BYTES
        + ESP_TRAILER_BUDGET_BYTES + 16"
  by (rule esp_protect_total_bounded [OF sample_crypto_laws])
     (simp_all add: cipher_ready_def sample_secrets_def esp_integrity_len_def)

end
