(* ===== verification/Ike_Keys.thy ===== *)
theory Ike_Keys
  imports Ike_Payloads Esp_Protect
begin

text \<open>
  The IKE and CHILD_SA key schedules of \<open>connectivity/modems/ims/vowifi/ike_keys.rs\<close>: the
  algorithms a proposal selects, the plans with their key sizes, the expansion \<open>prf_plus\<close> and the
  two derivations that cut its output into keys.  HMAC and MD5 are the fields of the \<open>Crypto\<close>
  record of \<open>Esp_Protect\<close>.  \<open>SecretBytes\<close> (octets that are zeroed when dropped and redacted when
  printed) is the list of its octets.  A computation that may panic or loop has an \<open>option\<close> around
  its result: \<open>None\<close> means that the call does not return.
\<close>

section \<open>Algorithms\<close>

datatype IkePrfAlgorithm = PrfHmacMd5 | PrfHmacSha1 | PrfHmacSha256 | PrfHmacSha384 | PrfHmacSha512

definition prf_from_transform_id :: "u16 \<Rightarrow> IkePrfAlgorithm option" where
  "prf_from_transform_id i =
     (if i = PRF_HMAC_MD5 then Some PrfHmacMd5
      else if i = PRF_HMAC_SHA1 then Some PrfHmacSha1
      else if i = PRF_HMAC_SHA2_256 then Some PrfHmacSha256
      else if i = PRF_HMAC_SHA2_384 then Some PrfHmacSha384
      else if i = PRF_HMAC_SHA2_512 then Some PrfHmacSha512
      else None)"

fun prf_as_str :: "IkePrfAlgorithm \<Rightarrow> string" where
  "prf_as_str PrfHmacMd5 = ''hmac_md5''"
| "prf_as_str PrfHmacSha1 = ''hmac_sha1''"
| "prf_as_str PrfHmacSha256 = ''hmac_sha256''"
| "prf_as_str PrfHmacSha384 = ''hmac_sha384''"
| "prf_as_str PrfHmacSha512 = ''hmac_sha512''"

fun prf_output_len :: "IkePrfAlgorithm \<Rightarrow> nat" where
  "prf_output_len PrfHmacMd5 = 16"
| "prf_output_len PrfHmacSha1 = 20"
| "prf_output_len PrfHmacSha256 = 32"
| "prf_output_len PrfHmacSha384 = 48"
| "prf_output_len PrfHmacSha512 = 64"

fun ring_algorithm :: "IkePrfAlgorithm \<Rightarrow> HmacAlgorithm option" where
  "ring_algorithm PrfHmacMd5 = None"
| "ring_algorithm PrfHmacSha1 = Some HMAC_SHA1"
| "ring_algorithm PrfHmacSha256 = Some HMAC_SHA256"
| "ring_algorithm PrfHmacSha384 = Some HMAC_SHA384"
| "ring_algorithm PrfHmacSha512 = Some HMAC_SHA512"

datatype IkeEncryptionAlgorithm = AesCbc

fun encryption_as_str :: "IkeEncryptionAlgorithm \<Rightarrow> string" where
  "encryption_as_str AesCbc = ''aes_cbc''"

datatype IkeIntegrityAlgorithm =
  HmacMd5_96 | HmacSha1_96 | HmacSha256_128 | HmacSha384_192 | HmacSha512_256

definition integrity_from_transform_id :: "u16 \<Rightarrow> IkeIntegrityAlgorithm option" where
  "integrity_from_transform_id i =
     (if i = AUTH_HMAC_MD5_96 then Some HmacMd5_96
      else if i = AUTH_HMAC_SHA1_96 then Some HmacSha1_96
      else if i = AUTH_HMAC_SHA2_256_128 then Some HmacSha256_128
      else if i = AUTH_HMAC_SHA2_384_192 then Some HmacSha384_192
      else if i = AUTH_HMAC_SHA2_512_256 then Some HmacSha512_256
      else None)"

fun integrity_as_str :: "IkeIntegrityAlgorithm \<Rightarrow> string" where
  "integrity_as_str HmacMd5_96 = ''hmac_md5_96''"
| "integrity_as_str HmacSha1_96 = ''hmac_sha1_96''"
| "integrity_as_str HmacSha256_128 = ''hmac_sha256_128''"
| "integrity_as_str HmacSha384_192 = ''hmac_sha384_192''"
| "integrity_as_str HmacSha512_256 = ''hmac_sha512_256''"

fun integrity_key_len :: "IkeIntegrityAlgorithm \<Rightarrow> nat" where
  "integrity_key_len HmacMd5_96 = 16"
| "integrity_key_len HmacSha1_96 = 20"
| "integrity_key_len HmacSha256_128 = 32"
| "integrity_key_len HmacSha384_192 = 48"
| "integrity_key_len HmacSha512_256 = 64"

section \<open>Plans\<close>

record IkeKeySchedulePlan =
  ike_prf :: string
  ike_encryption :: string
  ike_integrity :: string
  prf_output_bytes :: nat
  ike_encryption_key_bytes :: nat
  ike_integrity_key_bytes :: nat
  ike_total_secret_bytes :: nat
  ike_exported_secret_values :: bool
  ike_plan_policy :: string

record IkeSecretBundle =
  skeyseed :: bytes
  sk_d :: bytes
  sk_ai :: bytes
  sk_ar :: bytes
  sk_ei :: bytes
  sk_er :: bytes
  sk_pi :: bytes
  sk_pr :: bytes
  bundle_plan :: IkeKeySchedulePlan

datatype IkeKeyError =
    MissingPrfTransform | MissingEncryptionTransform | MissingIntegrityTransform
  | MissingEncryptionKeyLength | UnsupportedPrf u16 | UnsupportedPrfName string
  | UnsupportedEncryption u16 | UnsupportedIntegrity u16 | EmptySharedSecret | EmptyNonce
  | OutputTooLarge nat

definition find_transform :: "ProposalSpec \<Rightarrow> TransformType \<Rightarrow> TransformSpec option" where
  "find_transform proposal ty = find (\<lambda>t. transform_type t = ty) (transforms proposal)"

definition encryption_key_bits :: "TransformSpec \<Rightarrow> nat option" where
  "encryption_key_bits transform =
     (case attributes transform of [] \<Rightarrow> None | KeyLength bits # _ \<Rightarrow> Some (unat bits))"

definition encryption_from_transform_id :: "u16 \<Rightarrow> IkeKeyError + IkeEncryptionAlgorithm" where
  "encryption_from_transform_id i =
     (if i = ENCR_AES_CBC then Inr AesCbc else Inl (UnsupportedEncryption i))"

definition build_key_schedule_plan :: "ProposalSpec \<Rightarrow> IkeKeyError + IkeKeySchedulePlan" where
  "build_key_schedule_plan proposal =
     rbind (ok_or (find_transform proposal Prf) MissingPrfTransform) (\<lambda>prf_transform.
     rbind (ok_or (find_transform proposal Encryption) MissingEncryptionTransform) (\<lambda>encryption_transform.
     rbind (ok_or (find_transform proposal Integrity) MissingIntegrityTransform) (\<lambda>integrity_transform.
     rbind (ok_or (prf_from_transform_id (transform_id prf_transform))
              (UnsupportedPrf (transform_id prf_transform))) (\<lambda>p.
     rbind (encryption_from_transform_id (transform_id encryption_transform)) (\<lambda>e.
     rbind (rmap (\<lambda>bits. bits div 8)
              (ok_or (encryption_key_bits encryption_transform) MissingEncryptionKeyLength)) (\<lambda>ek.
     rbind (ok_or (integrity_from_transform_id (transform_id integrity_transform))
              (UnsupportedIntegrity (transform_id integrity_transform))) (\<lambda>i.
     Inr \<lparr>ike_prf = prf_as_str p,
          ike_encryption = encryption_as_str e,
          ike_integrity = integrity_as_str i,
          prf_output_bytes = prf_output_len p,
          ike_encryption_key_bytes = ek,
          ike_integrity_key_bytes = integrity_key_len i,
          ike_total_secret_bytes = prf_output_len p * 3 + integrity_key_len i * 2 + ek * 2,
          ike_exported_secret_values = False,
          ike_plan_policy = ''secret_bytes_redacted_and_zeroed_on_drop''\<rparr>)))))))"

definition build_child_sa_key_schedule_plan :: "ProposalSpec \<Rightarrow> IkeKeyError + ChildSaKeySchedulePlan" where
  "build_child_sa_key_schedule_plan esp_proposal =
     rbind (ok_or (find_transform esp_proposal Encryption) MissingEncryptionTransform) (\<lambda>encryption_transform.
     rbind (ok_or (find_transform esp_proposal Integrity) MissingIntegrityTransform) (\<lambda>integrity_transform.
     rbind (encryption_from_transform_id (transform_id encryption_transform)) (\<lambda>e.
     rbind (rmap (\<lambda>bits. bits div 8)
              (ok_or (encryption_key_bits encryption_transform) MissingEncryptionKeyLength)) (\<lambda>ek.
     rbind (ok_or (integrity_from_transform_id (transform_id integrity_transform))
              (UnsupportedIntegrity (transform_id integrity_transform))) (\<lambda>i.
     Inr \<lparr>plan_encryption = encryption_as_str e,
          plan_integrity = integrity_as_str i,
          encryption_key_bytes = ek,
          integrity_key_bytes = integrity_key_len i,
          direction_secret_bytes = ek + integrity_key_len i,
          total_secret_bytes = (ek + integrity_key_len i) * 2,
          exported_secret_values = False,
          key_plan_policy = ''child_sa_secret_bytes_redacted_and_zeroed_on_drop''\<rparr>)))))"

section \<open>Expansion\<close>

definition prf_digest :: "Crypto \<Rightarrow> IkePrfAlgorithm \<Rightarrow> bytes \<Rightarrow> bytes \<Rightarrow> bytes" where
  "prf_digest c p key data =
     (case ring_algorithm p of
        Some algorithm \<Rightarrow> hmac_sign c algorithm key data
      | None \<Rightarrow> hmac_md5 (md5_compute c) key data)"

definition prf_once :: "Crypto \<Rightarrow> IkePrfAlgorithm \<Rightarrow> bytes \<Rightarrow> bytes \<Rightarrow> bytes" where
  "prf_once c p key data = prf_digest c p key data"

definition prf_from_plan :: "IkeKeySchedulePlan \<Rightarrow> IkeKeyError + IkePrfAlgorithm" where
  "prf_from_plan plan =
     (if ike_prf plan = ''hmac_md5'' then Inr PrfHmacMd5
      else if ike_prf plan = ''hmac_sha1'' then Inr PrfHmacSha1
      else if ike_prf plan = ''hmac_sha256'' then Inr PrfHmacSha256
      else if ike_prf plan = ''hmac_sha384'' then Inr PrfHmacSha384
      else if ike_prf plan = ''hmac_sha512'' then Inr PrfHmacSha512
      else Inl (UnsupportedPrfName (ike_prf plan)))"

definition prf_bytes :: "Crypto \<Rightarrow> IkeSecretBundle \<Rightarrow> bytes \<Rightarrow> bytes \<Rightarrow> IkeKeyError + bytes" where
  "prf_bytes c bundle key data =
     rbind (prf_from_plan (bundle_plan bundle)) (\<lambda>p. Inr (prf_once c p key data))"

text \<open>The loop ends only because a digest is not empty; the counter is a saturating octet.\<close>

partial_function (option) prf_plus_loop ::
    "Crypto \<Rightarrow> IkePrfAlgorithm \<Rightarrow> bytes \<Rightarrow> bytes \<Rightarrow> nat \<Rightarrow> bytes \<Rightarrow> bytes \<Rightarrow> u8 \<Rightarrow> bytes option" where
  "prf_plus_loop c p key seed output_len out previous counter =
     (if length out < output_len then
        let previous' = prf_digest c p key (previous @ seed @ [counter])
        in prf_plus_loop c p key seed output_len (out @ previous') previous' (saturating_add counter 1)
      else Some (take output_len out))"

definition prf_plus ::
    "Crypto \<Rightarrow> IkePrfAlgorithm \<Rightarrow> bytes \<Rightarrow> bytes \<Rightarrow> nat \<Rightarrow> (IkeKeyError + bytes) option" where
  "prf_plus c p key seed output_len =
     (if output_len > u8_max * prf_output_len p then Some (Inl (OutputTooLarge output_len))
      else map_option Inr (prf_plus_loop c p key seed output_len [] [] 1))"

text \<open>\<open>take_secret\<close> panics when the slice leaves the input; it returns the new offset too.\<close>

definition take_secret :: "bytes \<Rightarrow> nat \<Rightarrow> nat \<Rightarrow> (bytes \<times> nat) option" where
  "take_secret input offset len =
     (let end_offset = offset + len
      in map_option (\<lambda>secret. (secret, end_offset)) (get_range input offset end_offset))"

section \<open>Derivations\<close>

definition cut_ike_secrets :: "IkeKeySchedulePlan \<Rightarrow> bytes \<Rightarrow> bytes \<Rightarrow> IkeSecretBundle option" where
  "cut_ike_secrets plan seed_key expanded =
     Option.bind (take_secret expanded 0 (prf_output_bytes plan)) (\<lambda>(d, n).
     Option.bind (take_secret expanded n (ike_integrity_key_bytes plan)) (\<lambda>(ai, n).
     Option.bind (take_secret expanded n (ike_integrity_key_bytes plan)) (\<lambda>(ar, n).
     Option.bind (take_secret expanded n (ike_encryption_key_bytes plan)) (\<lambda>(ei, n).
     Option.bind (take_secret expanded n (ike_encryption_key_bytes plan)) (\<lambda>(er, n).
     Option.bind (take_secret expanded n (prf_output_bytes plan)) (\<lambda>(p_i, n).
     Option.bind (take_secret expanded n (prf_output_bytes plan)) (\<lambda>(p_r, n).
     Some \<lparr>skeyseed = seed_key, sk_d = d, sk_ai = ai, sk_ar = ar, sk_ei = ei, sk_er = er,
           sk_pi = p_i, sk_pr = p_r, bundle_plan = plan\<rparr>)))))))"

definition derive_ike_secret_bundle ::
    "Crypto \<Rightarrow> ProposalSpec \<Rightarrow> bytes \<Rightarrow> bytes \<Rightarrow> u64 \<Rightarrow> u64 \<Rightarrow> bytes
      \<Rightarrow> (IkeKeyError + IkeSecretBundle) option" where
  "derive_ike_secret_bundle c proposal initiator_nonce responder_nonce spi_i spi_r
       shared_secret =
     (if shared_secret = [] then Some (Inl EmptySharedSecret)
      else if initiator_nonce = [] \<or> responder_nonce = [] then Some (Inl EmptyNonce)
      else case rbind (build_key_schedule_plan proposal) (\<lambda>plan.
             rbind (ok_or (find_transform proposal Prf) MissingPrfTransform) (\<lambda>prf_transform.
             rbind (ok_or (prf_from_transform_id (transform_id prf_transform))
                      (UnsupportedPrf (transform_id prf_transform))) (\<lambda>p. Inr (plan, p)))) of
        Inl e \<Rightarrow> Some (Inl e)
      | Inr (plan, p) \<Rightarrow>
          let nonce_pair = initiator_nonce @ responder_nonce;
              seed_key = prf_once c p nonce_pair shared_secret;
              seed = initiator_nonce @ responder_nonce @ u64_be spi_i @ u64_be spi_r
          in case prf_plus c p seed_key seed (ike_total_secret_bytes plan) of
               None \<Rightarrow> None
             | Some (Inl e) \<Rightarrow> Some (Inl e)
             | Some (Inr expanded) \<Rightarrow> map_option Inr (cut_ike_secrets plan seed_key expanded))"

definition cut_child_secrets :: "ChildSaKeySchedulePlan \<Rightarrow> bytes \<Rightarrow> ChildSaSecretPair option" where
  "cut_child_secrets plan expanded =
     Option.bind (take_secret expanded 0 (encryption_key_bytes plan)) (\<lambda>(oe, n).
     Option.bind (take_secret expanded n (integrity_key_bytes plan)) (\<lambda>(oi, n).
     Option.bind (take_secret expanded n (encryption_key_bytes plan)) (\<lambda>(ie, n).
     Option.bind (take_secret expanded n (integrity_key_bytes plan)) (\<lambda>(ii, n).
     Some \<lparr>outbound_encryption = oe, outbound_integrity = oi, inbound_encryption = ie,
           inbound_integrity = ii, summary = plan\<rparr>))))"

definition derive_child_sa_secret_pair ::
    "Crypto \<Rightarrow> IkeSecretBundle \<Rightarrow> ProposalSpec \<Rightarrow> bytes \<Rightarrow> bytes
      \<Rightarrow> (IkeKeyError + ChildSaSecretPair) option" where
  "derive_child_sa_secret_pair c ike_bundle esp_proposal initiator_nonce responder_nonce =
     (if initiator_nonce = [] \<or> responder_nonce = [] then Some (Inl EmptyNonce)
      else case rbind (build_child_sa_key_schedule_plan esp_proposal) (\<lambda>plan.
             rbind (prf_from_plan (bundle_plan ike_bundle)) (\<lambda>p. Inr (plan, p))) of
        Inl e \<Rightarrow> Some (Inl e)
      | Inr (plan, p) \<Rightarrow>
          (case prf_plus c p (sk_d ike_bundle) (initiator_nonce @ responder_nonce)
                  (total_secret_bytes plan) of
             None \<Rightarrow> None
           | Some (Inl e) \<Rightarrow> Some (Inl e)
           | Some (Inr expanded) \<Rightarrow> map_option Inr (cut_child_secrets plan expanded)))"


section \<open>The expansion against its definition\<close>

text \<open>RFC 7296, section 2.13: the blocks \<open>T1, T2, \<dots>\<close>, each the PRF of the block before, the seed
  and its number, and the stream of the first \<open>n\<close> of them.\<close>

fun prf_block :: "Crypto \<Rightarrow> IkePrfAlgorithm \<Rightarrow> bytes \<Rightarrow> bytes \<Rightarrow> nat \<Rightarrow> bytes" where
  "prf_block c p key seed 0 = []"
| "prf_block c p key seed (Suc i) =
     prf_digest c p key (prf_block c p key seed i @ seed @ [word_of_nat (Suc i)])"

definition prf_stream :: "Crypto \<Rightarrow> IkePrfAlgorithm \<Rightarrow> bytes \<Rightarrow> bytes \<Rightarrow> nat \<Rightarrow> bytes" where
  "prf_stream c p key seed n = concat (map (prf_block c p key seed) [1..<Suc n])"

lemma length_hmac_md5: "crypto_laws c \<Longrightarrow> length (hmac_md5 (md5_compute c) key data) = 16"
  by (simp add: hmac_md5_def crypto_laws_def Let_def)

lemma length_prf_digest [simp]: "crypto_laws c \<Longrightarrow> length (prf_digest c p key data) = prf_output_len p"
  by (cases p) (simp_all add: prf_digest_def length_hmac_md5 crypto_laws_def)

lemma prf_stream_Suc:
  "prf_stream c p key seed (Suc n) = prf_stream c p key seed n @ prf_block c p key seed (Suc n)"
  by (simp add: prf_stream_def)

lemma prf_stream_0 [simp]: "prf_stream c p key seed 0 = []"
  by (simp add: prf_stream_def)

lemma length_prf_stream [simp]:
  "crypto_laws c \<Longrightarrow> length (prf_stream c p key seed n) = n * prf_output_len p"
  by (induction n) (simp_all add: prf_stream_Suc)

lemma take_prf_stream:
  assumes "crypto_laws c" "n \<le> i * prf_output_len p" "i \<le> j"
  shows "take n (prf_stream c p key seed j) = take n (prf_stream c p key seed i)"
  using assms(3) by (induction rule: dec_induct) (use assms in \<open>auto simp: prf_stream_Suc intro: order_trans mult_right_mono\<close>)

lemma counter_step: "i < 255 \<Longrightarrow> saturating_add (word_of_nat (Suc i)) 1 = (word_of_nat (min 255 (i + 2)) :: u8)"
proof -
  assume i: "i < 255"
  then have n: "unat (word_of_nat (Suc i) :: u8) = Suc i" by (intro unat_u8_of_nat) simp
  show ?thesis
  proof (cases "i = 254")
    case True
    then show ?thesis by (simp add: saturating_add_def)
  next
    case False
    with i n show ?thesis by (simp add: saturating_add_def add.commute)
  qed
qed

lemma prf_plus_loop_stream:
  assumes laws: "crypto_laws c" and n: "n \<le> 255 * prf_output_len p" and i: "i \<le> 255"
  shows "prf_plus_loop c p key seed n (prf_stream c p key seed i) (prf_block c p key seed i)
           (word_of_nat (min 255 (Suc i))) = Some (take n (prf_stream c p key seed 255))"
  using i
proof (induction rule: inc_induct)
  case base
  then show ?case using laws n by (subst prf_plus_loop.simps) simp
next
  case (step i)
  show ?case
  proof (cases "i * prf_output_len p < n")
    case True
    with step laws show ?thesis
      by (subst prf_plus_loop.simps) (simp add: counter_step [simplified] prf_stream_Suc Let_def)
  next
    case False
    with step laws show ?thesis
      by (subst prf_plus_loop.simps) (simp add: take_prf_stream [of c n i p 255])
  qed
qed

lemma prf_plus_stream:
  assumes "crypto_laws c"
  shows "prf_plus c p key seed n =
    Some (if n \<le> 255 * prf_output_len p then Inr (take n (prf_stream c p key seed 255))
          else Inl (OutputTooLarge n))"
  using prf_plus_loop_stream [OF assms, of n p 0 key seed] by (simp add: prf_plus_def)


section \<open>The derivations\<close>

lemma take_secret_ok:
  "offset + len \<le> length xs \<Longrightarrow>
     take_secret xs offset len = Some (slice_of xs offset (offset + len), offset + len)"
  by (simp add: take_secret_def get_range_def Let_def)

lemma slice_chain:
  "a \<le> b \<Longrightarrow> b \<le> c \<Longrightarrow> slice_of xs a b @ slice_of xs b c = slice_of xs a c"
  "a \<le> b \<Longrightarrow> b \<le> c \<Longrightarrow> slice_of xs a b @ slice_of xs b c @ ys = slice_of xs a c @ ys"
  using take_add [of "b - a" "c - b" "drop a xs"] by (simp_all add: slice_of_def)

lemma slice_all: "n = length xs \<Longrightarrow> slice_of xs 0 n = xs"
  by (simp add: slice_of_def)

lemma cut_child_secrets_ok:
  assumes "length expanded = (encryption_key_bytes plan + integrity_key_bytes plan) * 2"
  obtains k where "cut_child_secrets plan expanded = Some k" "summary k = plan"
    "outbound_encryption k @ outbound_integrity k @ inbound_encryption k @ inbound_integrity k = expanded"
    "length (outbound_encryption k) = encryption_key_bytes plan"
    "length (inbound_encryption k) = encryption_key_bytes plan"
    "length (outbound_integrity k) = integrity_key_bytes plan"
    "length (inbound_integrity k) = integrity_key_bytes plan"
proof -
  have "\<exists>k. cut_child_secrets plan expanded = Some k" using assms
    by (simp add: cut_child_secrets_def take_secret_ok)
  then obtain k where k: "cut_child_secrets plan expanded = Some k" ..
  then show thesis using assms
    by (intro that [OF k])
       (auto simp: cut_child_secrets_def take_secret_ok slice_chain intro!: slice_all)
qed

lemma cut_ike_secrets_ok:
  assumes "length expanded = prf_output_bytes plan * 3 + ike_integrity_key_bytes plan * 2
             + ike_encryption_key_bytes plan * 2"
  obtains b where "cut_ike_secrets plan s expanded = Some b" "bundle_plan b = plan" "skeyseed b = s"
    "sk_d b @ sk_ai b @ sk_ar b @ sk_ei b @ sk_er b @ sk_pi b @ sk_pr b = expanded"
    "map length [sk_d b, sk_pi b, sk_pr b] = replicate 3 (prf_output_bytes plan)"
    "map length [sk_ai b, sk_ar b] = replicate 2 (ike_integrity_key_bytes plan)"
    "map length [sk_ei b, sk_er b] = replicate 2 (ike_encryption_key_bytes plan)"
proof -
  have "\<exists>b. cut_ike_secrets plan s expanded = Some b" using assms
    by (simp add: cut_ike_secrets_def take_secret_ok)
  then obtain b where b: "cut_ike_secrets plan s expanded = Some b" ..
  then show thesis using assms
    by (intro that [OF b])
       (auto simp: cut_ike_secrets_def take_secret_ok slice_chain numeral_eq_Suc intro!: slice_all)
qed


lemma prf_of_name [simp]: "ike_prf plan = prf_as_str p \<Longrightarrow> prf_from_plan plan = Inr p"
  by (cases p) (simp_all add: prf_from_plan_def)

lemma key_schedule_plan_fields:
  assumes "build_key_schedule_plan proposal = Inr plan"
  obtains t p where "find_transform proposal Prf = Some t" "prf_from_transform_id (transform_id t) = Some p"
    "prf_from_plan plan = Inr p" "prf_output_bytes plan = prf_output_len p"
    "ike_total_secret_bytes plan = prf_output_bytes plan * 3 + ike_integrity_key_bytes plan * 2
       + ike_encryption_key_bytes plan * 2"
  using assms by (auto simp: build_key_schedule_plan_def result_simps)

lemma child_key_plan_fields:
  "build_child_sa_key_schedule_plan proposal = Inr plan \<Longrightarrow>
     total_secret_bytes plan = (encryption_key_bytes plan + integrity_key_bytes plan) * 2"
  by (auto simp: build_child_sa_key_schedule_plan_def result_simps)

lemma derive_ike_keys:
  assumes laws: "crypto_laws c" and plan: "build_key_schedule_plan proposal = Inr plan"
    and p: "prf_from_plan plan = Inr p"
    and inputs: "shared_secret \<noteq> []" "ni \<noteq> []" "nr \<noteq> []"
    and fits: "ike_total_secret_bytes plan \<le> 255 * prf_output_len p"
  obtains b where "derive_ike_secret_bundle c proposal ni nr spi_i spi_r shared_secret = Some (Inr b)"
    "bundle_plan b = plan" "skeyseed b = prf_digest c p (ni @ nr) shared_secret"
    "sk_d b @ sk_ai b @ sk_ar b @ sk_ei b @ sk_er b @ sk_pi b @ sk_pr b =
       take (ike_total_secret_bytes plan)
         (prf_stream c p (skeyseed b) (ni @ nr @ u64_be spi_i @ u64_be spi_r) 255)"
    "map length [sk_d b, sk_pi b, sk_pr b] = replicate 3 (prf_output_bytes plan)"
    "map length [sk_ai b, sk_ar b] = replicate 2 (ike_integrity_key_bytes plan)"
    "map length [sk_ei b, sk_er b] = replicate 2 (ike_encryption_key_bytes plan)"
proof -
  let ?seed = "prf_digest c p (ni @ nr) shared_secret"
  let ?out = "take (ike_total_secret_bytes plan)
      (prf_stream c p ?seed (ni @ nr @ u64_be spi_i @ u64_be spi_r) 255)"
  from key_schedule_plan_fields [OF plan] p obtain t
    where t: "find_transform proposal Prf = Some t" "prf_from_transform_id (transform_id t) = Some p"
      and total: "ike_total_secret_bytes plan = prf_output_bytes plan * 3
        + ike_integrity_key_bytes plan * 2 + ike_encryption_key_bytes plan * 2" by (metis Inr_inject)
  have "length ?out = prf_output_bytes plan * 3 + ike_integrity_key_bytes plan * 2
      + ike_encryption_key_bytes plan * 2"
    using laws fits total by simp
  then obtain b where b: "cut_ike_secrets plan ?seed ?out = Some b" "bundle_plan b = plan"
      "skeyseed b = ?seed"
      "sk_d b @ sk_ai b @ sk_ar b @ sk_ei b @ sk_er b @ sk_pi b @ sk_pr b = ?out"
      "map length [sk_d b, sk_pi b, sk_pr b] = replicate 3 (prf_output_bytes plan)"
      "map length [sk_ai b, sk_ar b] = replicate 2 (ike_integrity_key_bytes plan)"
      "map length [sk_ei b, sk_er b] = replicate 2 (ike_encryption_key_bytes plan)"
    by (rule cut_ike_secrets_ok)
  have "derive_ike_secret_bundle c proposal ni nr spi_i spi_r shared_secret = Some (Inr b)"
    using inputs fits
    by (simp add: derive_ike_secret_bundle_def plan t prf_plus_stream [OF laws] prf_once_def b(1))
  with b show thesis by (intro that) simp_all
qed

lemma derive_child_keys:
  assumes laws: "crypto_laws c" and plan: "build_child_sa_key_schedule_plan proposal = Inr plan"
    and p: "prf_from_plan (bundle_plan b) = Inr p"
    and inputs: "ni \<noteq> []" "nr \<noteq> []"
    and fits: "total_secret_bytes plan \<le> 255 * prf_output_len p"
  obtains k where "derive_child_sa_secret_pair c b proposal ni nr = Some (Inr k)" "summary k = plan"
    "outbound_encryption k @ outbound_integrity k @ inbound_encryption k @ inbound_integrity k =
       take (total_secret_bytes plan) (prf_stream c p (sk_d b) (ni @ nr) 255)"
    "length (outbound_encryption k) = encryption_key_bytes plan"
    "length (inbound_encryption k) = encryption_key_bytes plan"
    "length (outbound_integrity k) = integrity_key_bytes plan"
    "length (inbound_integrity k) = integrity_key_bytes plan"
proof -
  let ?out = "take (total_secret_bytes plan) (prf_stream c p (sk_d b) (ni @ nr) 255)"
  have "length ?out = (encryption_key_bytes plan + integrity_key_bytes plan) * 2"
    using laws fits child_key_plan_fields [OF plan] by simp
  then obtain k where k: "cut_child_secrets plan ?out = Some k" "summary k = plan"
    "outbound_encryption k @ outbound_integrity k @ inbound_encryption k @ inbound_integrity k = ?out"
    "length (outbound_encryption k) = encryption_key_bytes plan"
    "length (inbound_encryption k) = encryption_key_bytes plan"
    "length (outbound_integrity k) = integrity_key_bytes plan"
    "length (inbound_integrity k) = integrity_key_bytes plan"
    by (rule cut_child_secrets_ok)
  have "derive_child_sa_secret_pair c b proposal ni nr = Some (Inr k)"
    using inputs fits
    by (simp add: derive_child_sa_secret_pair_def plan p prf_plus_stream [OF laws] k(1))
  with k show thesis by (intro that) simp_all
qed


section \<open>Profiles always yield usable keys\<close>

text \<open>What the token loops leave in the locals that the key schedules read.\<close>

definition keyed_locals :: "ProposalLocals \<Rightarrow> bool" where
  "keyed_locals l \<longleftrightarrow>
     (\<forall>t. encryption l = Some t \<longrightarrow> (\<exists>k. t = mk_transform Encryption ENCR_AES_CBC [KeyLength k]
        \<and> (k = 128 \<or> k = 256)))
   \<and> (\<forall>t. integrity l = Some t \<longrightarrow> (\<exists>i a. t = mk_transform Integrity i []
        \<and> integrity_from_transform_id i = Some a))
   \<and> (\<forall>t. prf_local l = Some t \<longrightarrow> (\<exists>i p. t = mk_transform Prf i []
        \<and> prf_from_transform_id i = Some p))
   \<and> (\<forall>t. dh_group l = Some t \<longrightarrow> transform_type t = DiffieHellmanGroup)"

lemma keyed_no_locals: "keyed_locals no_locals"
  by (simp add: keyed_locals_def no_locals_def)

lemma keyed_set:
  "keyed_locals l \<Longrightarrow> k = 128 \<or> k = 256 \<Longrightarrow>
     keyed_locals (l\<lparr>encryption := Some (mk_transform Encryption 12 [KeyLength k])\<rparr>)"
  "keyed_locals l \<Longrightarrow> integrity_from_transform_id i \<noteq> None \<Longrightarrow>
     keyed_locals (l\<lparr>integrity := Some (mk_transform Integrity i [])\<rparr>)"
  "keyed_locals l \<Longrightarrow> prf_from_transform_id i \<noteq> None \<Longrightarrow>
     keyed_locals (l\<lparr>prf_local := Some (mk_transform Prf i [])\<rparr>)"
  "keyed_locals l \<Longrightarrow> keyed_locals (l\<lparr>dh_group := Some (mk_transform DiffieHellmanGroup i [])\<rparr>)"
  by (auto simp: keyed_locals_def mk_transform_def)

lemma ike_token_keyed: "ike_token l t = Inr l' \<Longrightarrow> keyed_locals l \<Longrightarrow> keyed_locals l'"
  unfolding ike_token_def
  by (simp only: split: if_split_asm)
     (auto intro!: keyed_set simp: integrity_from_transform_id_def prf_from_transform_id_def)

lemma child_sa_token_keyed: "child_sa_token l t = Inr l' \<Longrightarrow> keyed_locals l \<Longrightarrow> keyed_locals l'"
  unfolding child_sa_token_def
  by (simp only: split: if_split_asm)
     (auto intro!: keyed_set simp: integrity_from_transform_id_def)

lemma key_lengths [simp]:
  "integrity_key_len a \<le> 64" "16 \<le> prf_output_len p" "prf_output_len p \<le> 64"
  by (cases a; simp) (cases p; simp)+

lemma default_prf_keyed:
  assumes "default_prf_for_integrity i = Inr t"
  shows "\<exists>j p. t = mk_transform Prf j [] \<and> prf_from_transform_id j = Some p"
proof -
  have "t \<in> (\<lambda>j. mk_transform Prf j []) ` {1, 2, 5, 6, 7}"
    using assms by (auto simp: default_prf_for_integrity_def split: if_splits)
  moreover have "\<exists>p. prf_from_transform_id j = Some p" if "j \<in> {1, 2, 5, 6, 7}" for j
    using that by (auto simp: prf_from_transform_id_def)
  ultimately show ?thesis by blast
qed

lemma ike_profile_plan:
  assumes "ike_proposal_from_profile_string s n = Inr proposal"
  obtains plan p where "build_key_schedule_plan proposal = Inr plan" "prf_from_plan plan = Inr p"
    "ike_total_secret_bytes plan \<le> 255 * prf_output_len p"
    "ike_encryption_key_bytes plan = 16 \<or> ike_encryption_key_bytes plan = 32"
proof -
  from assms obtain l e q i d where shape: "token_loop ike_token no_locals (proposal_tokens s) = Inr l"
      "encryption l = Some e" "integrity l = Some i" "dh_group l = Some d"
      "prf_local l = Some q \<or> prf_local l = None \<and> default_prf_for_integrity i = Inr q"
    and proposal: "proposal = \<lparr>number = n, protocol_id = ProtoIke, spi = [], transforms = [e, q, i, d]\<rparr>"
    by (rule ike_proposal_shape)
  have keyed: "keyed_locals l"
    using shape(1) keyed_no_locals ike_token_keyed by (rule token_loop_invariant [where P = keyed_locals])
  then obtain k j a where e: "e = mk_transform Encryption ENCR_AES_CBC [KeyLength k]" "k = 128 \<or> k = 256"
    and i: "i = mk_transform Integrity j []" "integrity_from_transform_id j = Some a"
    using shape by (auto simp: keyed_locals_def)
  obtain h p where q: "q = mk_transform Prf h []" "prf_from_transform_id h = Some p"
    using keyed shape default_prf_keyed by (fastforce simp: keyed_locals_def)
  let ?k = "unat k div 8"
  have plan: "\<exists>plan. build_key_schedule_plan proposal = Inr plan \<and> ike_prf plan = prf_as_str p
      \<and> ike_total_secret_bytes plan = prf_output_len p * 3 + integrity_key_len a * 2 + ?k * 2
      \<and> ike_encryption_key_bytes plan = ?k"
    using e i q
    by (simp add: build_key_schedule_plan_def proposal find_transform_def mk_transform_def
        encryption_key_bits_def encryption_from_transform_id_def)
  have k: "?k \<le> 32" "?k = 16 \<or> ?k = 32" using e(2) by auto
  have "prf_output_len p * 3 + integrity_key_len a * 2 + m * 2 \<le> 255 * prf_output_len p"
    if "m \<le> 32" for m :: nat
    using key_lengths(1) [of a] key_lengths(2) [of p] that by linarith
  from this [OF k(1)] k(2)
  show thesis using plan that by (metis prf_of_name)
qed

lemma child_profile_plan:
  assumes "child_sa_proposal_from_profile_string s n i = Inr proposal"
  obtains plan m where "build_child_sa_key_schedule_plan proposal = Inr plan"
    "total_secret_bytes plan \<le> 4080" "plan_encryption plan = ''aes_cbc''"
    "esp_integrity_len (plan_integrity plan) = Inr m"
    "encryption_key_bytes plan = 16 \<or> encryption_key_bytes plan = 32"
proof -
  from assms obtain l e g where loop: "token_loop child_sa_token no_locals (proposal_tokens s) = Inr l"
    and l: "encryption l = Some e" "integrity l = Some g"
    and proposal: "proposal = \<lparr>number = n, protocol_id = ProtoEsp, spi = i,
      transforms = [e, g, mk_transform ExtendedSequenceNumbers 0 []]\<rparr>"
    by (auto simp: child_sa_proposal_from_profile_string_def Let_def result_simps split: if_splits)
  have "keyed_locals l"
    using loop keyed_no_locals child_sa_token_keyed by (rule token_loop_invariant [where P = keyed_locals])
  then obtain k j a where e: "e = mk_transform Encryption ENCR_AES_CBC [KeyLength k]" "k = 128 \<or> k = 256"
    and g: "g = mk_transform Integrity j []" "integrity_from_transform_id j = Some a"
    using l by (auto simp: keyed_locals_def)
  let ?k = "unat k div 8"
  have plan: "\<exists>plan. build_child_sa_key_schedule_plan proposal = Inr plan
      \<and> plan_encryption plan = ''aes_cbc'' \<and> plan_integrity plan = integrity_as_str a
      \<and> total_secret_bytes plan = (?k + integrity_key_len a) * 2 \<and> encryption_key_bytes plan = ?k"
    using e g
    by (simp add: build_child_sa_key_schedule_plan_def proposal find_transform_def mk_transform_def
        encryption_key_bits_def encryption_from_transform_id_def)
  have k: "?k \<le> 32" "?k = 16 \<or> ?k = 32" using e(2) by auto
  have "(x + integrity_key_len a) * 2 \<le> 4080" if "x \<le> 32" for x :: nat
    using add_mono [OF that key_lengths(1) [of a]] by simp
  from this [OF k(1)] k(2)
  moreover have "\<exists>m. esp_integrity_len (integrity_as_str a) = Inr m"
    by (cases a) (simp_all add: esp_integrity_len_def)
  ultimately show thesis using plan that by metis
qed


section \<open>Properties\<close>

text \<open>C4: the IKE key schedule is the one of RFC 7296: for a supported proposal whose keys fit
  into 255 blocks, and inputs that are not empty, the derivation returns keys of the planned
  lengths, and their concatenation is the beginning of \<open>prf+(SKEYSEED, Ni | Nr | SPIi | SPIr)\<close> with
  \<open>SKEYSEED = prf(Ni | Nr, shared secret)\<close>.\<close>

theorem ike_keys_follow_schedule:
  assumes "crypto_laws c" and "build_key_schedule_plan proposal = Inr plan"
    and "prf_from_plan plan = Inr p" and "shared_secret \<noteq> []" and "ni \<noteq> []" and "nr \<noteq> []"
    and "ike_total_secret_bytes plan \<le> 255 * prf_output_len p"
  shows "\<exists>b. derive_ike_secret_bundle c proposal ni nr spi_i spi_r shared_secret = Some (Inr b)
    \<and> skeyseed b = prf_digest c p (ni @ nr) shared_secret
    \<and> sk_d b @ sk_ai b @ sk_ar b @ sk_ei b @ sk_er b @ sk_pi b @ sk_pr b =
        take (ike_total_secret_bytes plan)
          (prf_stream c p (skeyseed b) (ni @ nr @ u64_be spi_i @ u64_be spi_r) 255)
    \<and> map length [sk_d b, sk_pi b, sk_pr b] = replicate 3 (prf_output_len p)
    \<and> map length [sk_ai b, sk_ar b] = replicate 2 (ike_integrity_key_bytes plan)
    \<and> map length [sk_ei b, sk_er b] = replicate 2 (ike_encryption_key_bytes plan)"
  using derive_ike_keys [OF assms, of spi_i spi_r] key_schedule_plan_fields [OF assms(2)] assms(3)
  by (metis Inr_inject)

theorem ike_keys_follow_schedule_witness:
  "\<exists>plan b. build_key_schedule_plan \<lparr>number = 1, protocol_id = ProtoIke, spi = [],
         transforms = [mk_transform Encryption 12 [KeyLength 128], mk_transform Prf 2 [],
           mk_transform Integrity 2 []]\<rparr> = Inr plan
     \<and> derive_ike_secret_bundle sample_crypto \<lparr>number = 1, protocol_id = ProtoIke, spi = [],
         transforms = [mk_transform Encryption 12 [KeyLength 128], mk_transform Prf 2 [],
           mk_transform Integrity 2 []]\<rparr> [1] [2] 3 4 [5] = Some (Inr b)
     \<and> map length [sk_d b, sk_ai b, sk_ei b] = [20, 20, 16]"
proof -
  let ?p = "\<lparr>number = 1, protocol_id = ProtoIke, spi = [],
    transforms = [mk_transform Encryption 12 [KeyLength 128], mk_transform Prf 2 [],
      mk_transform Integrity 2 []]\<rparr>"
  have "\<exists>plan. build_key_schedule_plan ?p = Inr plan \<and> ike_prf plan = prf_as_str PrfHmacSha1
      \<and> ike_total_secret_bytes plan = 132 \<and> ike_integrity_key_bytes plan = 20
      \<and> ike_encryption_key_bytes plan = 16"
    by (simp add: build_key_schedule_plan_def find_transform_def mk_transform_def
        prf_from_transform_id_def encryption_from_transform_id_def encryption_key_bits_def
        integrity_from_transform_id_def)
  then obtain plan where plan: "build_key_schedule_plan ?p = Inr plan"
      "ike_prf plan = prf_as_str PrfHmacSha1" "ike_total_secret_bytes plan = 132"
      "ike_integrity_key_bytes plan = 20" "ike_encryption_key_bytes plan = 16" by blast
  from ike_keys_follow_schedule [OF sample_crypto_laws plan(1) prf_of_name [OF plan(2)],
      of "[5]" "[1]" "[2]" 3 4] plan show ?thesis
    by (auto simp: numeral_eq_Suc)
qed

text \<open>C38: every pair of carrier profile strings the proposal parsers accept leads, through both key
  schedules, to keys with which the ESP layer protects every packet, and a peer that holds the same
  keys in the other direction opens the frame.\<close>

theorem profile_keys_protect:
  assumes laws: "crypto_laws c"
    and ike: "ike_proposal_from_profile_string s n = Inr ike_proposal"
    and esp: "child_sa_proposal_from_profile_string t m i = Inr esp_proposal"
    and inputs: "shared_secret \<noteq> []" "ni \<noteq> []" "nr \<noteq> []"
    and frame: "sa \<noteq> 0" "q \<noteq> 0" "unat q \<le> u32_max" "length iv = 16"
  shows "\<exists>b k frame summ.
      derive_ike_secret_bundle c ike_proposal ni nr spi_i spi_r shared_secret = Some (Inr b)
    \<and> derive_child_sa_secret_pair c b esp_proposal ni nr = Some (Inr k)
    \<and> protect_inner_packet_for_esp_with_mode c (Some iv) sa q inner nh k mode = Inr (frame, summ)
    \<and> (\<forall>rx. opposite k rx \<longrightarrow>
        unprotect_inner_packet_from_esp_with_mode c frame rx mode = Inr (inner, summ))"
proof -
  obtain plan p where plan: "build_key_schedule_plan ike_proposal = Inr plan" "prf_from_plan plan = Inr p"
    and fits: "ike_total_secret_bytes plan \<le> 255 * prf_output_len p"
    by (rule ike_profile_plan [OF ike])
  obtain b where b: "derive_ike_secret_bundle c ike_proposal ni nr spi_i spi_r shared_secret = Some (Inr b)"
      "bundle_plan b = plan"
    by (rule derive_ike_keys [OF laws plan inputs fits])
  obtain cplan len where cplan: "build_child_sa_key_schedule_plan esp_proposal = Inr cplan"
    and total: "total_secret_bytes cplan \<le> 4080" and aes: "plan_encryption cplan = ''aes_cbc''"
    and integ: "esp_integrity_len (plan_integrity cplan) = Inr len"
    and size: "encryption_key_bytes cplan = 16 \<or> encryption_key_bytes cplan = 32"
    by (rule child_profile_plan [OF esp])
  have base: "prf_from_plan (bundle_plan b) = Inr p" using plan b by simp
  have "total_secret_bytes cplan \<le> 255 * prf_output_len p"
    using total key_lengths(2) [of p] by linarith
  then obtain k where k: "derive_child_sa_secret_pair c b esp_proposal ni nr = Some (Inr k)"
      "summary k = cplan" "length (outbound_encryption k) = encryption_key_bytes cplan"
    by (rule derive_child_keys [OF laws cplan base inputs(2,3)])
  have "cipher_ready (Some iv) k" using k size aes frame(4) by (simp add: cipher_ready_def)
  moreover have "esp_integrity_len (plan_integrity (summary k)) = Inr len" using integ k(2) by simp
  ultimately obtain f summ where sent:
      "protect_inner_packet_for_esp_with_mode c (Some iv) sa q inner nh k mode = Inr (f, summ)"
    using protect_total [OF laws frame(1-3)] by blast
  have "\<forall>rx. opposite k rx \<longrightarrow>
      unprotect_inner_packet_from_esp_with_mode c f rx mode = Inr (inner, summ)"
    using protect_then_unprotect [OF laws _ _ sent] frame(4) by simp
  with b(1) k(1) sent show ?thesis by blast
qed

theorem profile_keys_protect_witness:
  "\<exists>ike_proposal esp_proposal b k.
      ike_proposal_from_profile_string ''aes128-sha256-modp2048'' 1 = Inr ike_proposal
    \<and> child_sa_proposal_from_profile_string ''aes256-sha1'' 1 [1, 2, 3, 4] = Inr esp_proposal
    \<and> derive_ike_secret_bundle sample_crypto ike_proposal [1] [2] 3 4 [5] = Some (Inr b)
    \<and> derive_child_sa_secret_pair sample_crypto b esp_proposal [1] [2] = Some (Inr k)"
proof -
  have "proposal_tokens ''aes128-sha256-modp2048'' = [''aes128'', ''sha256'', ''modp2048'']"
    by (simp add: proposal_tokens_def)
  then obtain ike_proposal where ike:
      "ike_proposal_from_profile_string ''aes128-sha256-modp2048'' 1 = Inr ike_proposal"
    by (simp add: ike_proposal_from_profile_string_def ike_token_def no_locals_def
        default_prf_for_integrity_def mk_transform_def)
  have "proposal_tokens ''aes256-sha1'' = [''aes256'', ''sha1'']"
    by (simp add: proposal_tokens_def)
  then obtain esp_proposal where esp:
      "child_sa_proposal_from_profile_string ''aes256-sha1'' 1 [1, 2, 3, 4] = Inr esp_proposal"
    by (simp add: child_sa_proposal_from_profile_string_def child_sa_token_def no_locals_def
        mk_transform_def)
  from profile_keys_protect [OF sample_crypto_laws ike esp, of "[5]" "[1]" "[2]" 7 5
      "replicate 16 9" 3 4 "[0x45]" 4 True] ike esp
  show ?thesis by auto
qed

end
