(* ===== verification/Ike_Encrypted.thy ===== *)
theory Ike_Encrypted
  imports Ike_Keys
begin

text \<open>
  The encrypted payload of IKEv2, \<open>connectivity/modems/ims/vowifi/ike_encrypted.rs\<close>: the chain of
  inner payloads, padding and CBC encryption, the message around it with its integrity tag, the
  way back, and the header check of a response.  The cipher and the HMACs are the \<open>Crypto\<close> record of
  \<open>Esp_Protect\<close>; the random IV is an argument, \<open>None\<close> when the generator fails.
\<close>

section \<open>Plans and errors\<close>

datatype EncryptedPayloadMode = MetadataOnly | CiphertextReady

fun encrypted_mode_as_str :: "EncryptedPayloadMode \<Rightarrow> string" where
  "encrypted_mode_as_str MetadataOnly = ''metadata_only''"
| "encrypted_mode_as_str CiphertextReady = ''ciphertext_ready''"

record EncryptedPayloadPlan =
  enc_mode :: string
  enc_outer_payload :: string
  enc_first_inner_payload :: string
  enc_cipher :: string
  enc_integrity :: string
  enc_iv_bytes :: nat
  enc_block_bytes :: nat
  enc_icv_bytes :: nat
  encrypted_payload_bytes :: nat
  inner_payload_count :: nat
  exported_plaintext :: bool
  enc_policy :: string

datatype IkeSkDirection = InitiatorToResponder | ResponderToInitiator

datatype EncryptedPayloadError =
    UnsupportedCipher string | UnsupportedIntegrityName string | EmptyInnerPayloads | RandomFailed
  | PacketTooLarge nat | IntegrityMismatch | InvalidEncryptedPayload | InvalidPadding
  | CodecError IkeCodecError

fun payload_type_name :: "IkePayloadType \<Rightarrow> string" where
  "payload_type_name NoNext = ''no_next''"
| "payload_type_name SecurityAssociation = ''security_association''"
| "payload_type_name KeyExchange = ''key_exchange''"
| "payload_type_name IdentificationInitiator = ''identification_initiator''"
| "payload_type_name IdentificationResponder = ''identification_responder''"
| "payload_type_name Certificate = ''certificate''"
| "payload_type_name CertificateRequest = ''certificate_request''"
| "payload_type_name Authentication = ''authentication''"
| "payload_type_name Nonce = ''nonce''"
| "payload_type_name Notify = ''notify''"
| "payload_type_name Delete = ''delete''"
| "payload_type_name VendorId = ''vendor_id''"
| "payload_type_name TrafficSelectorInitiator = ''traffic_selector_initiator''"
| "payload_type_name TrafficSelectorResponder = ''traffic_selector_responder''"
| "payload_type_name Encrypted = ''encrypted''"
| "payload_type_name Configuration = ''configuration''"
| "payload_type_name ExtensibleAuthentication = ''eap''"
| "payload_type_name EncryptedFragment = ''encrypted_fragment''"
| "payload_type_name (UnknownPayload _) = ''unknown''"

definition padding_len_for_block :: "nat \<Rightarrow> nat \<Rightarrow> nat" where
  "padding_len_for_block length_with_pad_len_byte block_bytes =
     (let rem = length_with_pad_len_byte mod block_bytes
      in if rem = 0 then 0 else block_bytes - rem)"

definition cipher_shape :: "IkeKeySchedulePlan \<Rightarrow> EncryptedPayloadError + nat \<times> nat" where
  "cipher_shape plan =
     (if ike_encryption plan = ''aes_cbc'' then Inr (16, 16)
      else Inl (UnsupportedCipher (ike_encryption plan)))"

definition integrity_len :: "IkeKeySchedulePlan \<Rightarrow> EncryptedPayloadError + nat" where
  "integrity_len plan =
     (if ike_integrity plan = ''hmac_md5_96'' then Inr 12
      else if ike_integrity plan = ''hmac_sha1_96'' then Inr 12
      else if ike_integrity plan = ''hmac_sha256_128'' then Inr 16
      else if ike_integrity plan = ''hmac_sha384_192'' then Inr 24
      else if ike_integrity plan = ''hmac_sha512_256'' then Inr 32
      else Inl (UnsupportedIntegrityName (ike_integrity plan)))"

text \<open>The planner spells out the same two matches as \<open>cipher_shape\<close> and \<open>integrity_len\<close>.\<close>

definition build_encrypted_payload_plan ::
    "IkeKeySchedulePlan \<Rightarrow> IkePayload list \<Rightarrow> EncryptedPayloadError + EncryptedPayloadPlan" where
  "build_encrypted_payload_plan key_schedule inner_payloads =
     (if inner_payloads = [] then Inl EmptyInnerPayloads
      else rbind (cipher_shape key_schedule) (\<lambda>(iv_bytes, block_bytes).
        rbind (integrity_len key_schedule) (\<lambda>tag_bytes.
        let plaintext_len = (\<Sum>p \<leftarrow> inner_payloads. 4 + length (body p));
            padding_len = padding_len_for_block (plaintext_len + 1) block_bytes
        in Inr \<lparr>enc_mode = encrypted_mode_as_str MetadataOnly,
                enc_outer_payload = ''encrypted'',
                enc_first_inner_payload = payload_type_name (payload_type (hd inner_payloads)),
                enc_cipher = ike_encryption key_schedule,
                enc_integrity = ike_integrity key_schedule,
                enc_iv_bytes = iv_bytes,
                enc_block_bytes = block_bytes,
                enc_icv_bytes = tag_bytes,
                encrypted_payload_bytes = iv_bytes + plaintext_len + padding_len + 1 + tag_bytes,
                inner_payload_count = length inner_payloads,
                exported_plaintext = False,
                enc_policy = ''plaintext_ciphertext_and_integrity_tags_not_serialized''\<rparr>)))"

definition build_encrypted_metadata_payload :: "EncryptedPayloadPlan \<Rightarrow> IkePayload" where
  "build_encrypted_metadata_payload plan =
     \<lparr>payload_type = Encrypted, critical = False,
      body = as_bytes (''simadmin-ike-encrypted-metadata:'' @ enc_mode plan @ '':'' @ enc_cipher plan
               @ '':'' @ enc_integrity plan)\<rparr>"

section \<open>Inner payload chains\<close>

fun encode_inner_payload_chain :: "IkePayload list \<Rightarrow> EncryptedPayloadError + bytes" where
  "encode_inner_payload_chain [] = Inr []"
| "encode_inner_payload_chain (p # ps) =
     (let len = 4 + length (body p)
      in if len > u16_max then Inl (PacketTooLarge len)
         else rbind (encode_inner_payload_chain ps) (\<lambda>rest.
           Inr ([payload_type_as_u8 (first_type ps), if critical p then 0x80 else 0]
                @ u16_be (word_of_nat len) @ body p @ rest)))"

function decode_inner_payload_chain ::
    "IkePayloadType \<Rightarrow> bytes \<Rightarrow> EncryptedPayloadError + IkePayload list" where
  "decode_inner_payload_chain current_type input =
     (if input = [] then Inr []
      else if length input < 4 then Inl InvalidEncryptedPayload
      else
        let next_type = payload_type_from_u8 (input ! 0);
            is_critical = (input ! 1 AND 0x80 \<noteq> 0);
            len = unat (u16_from_be [input ! 2, input ! 3])
        in if len < 4 \<or> len > length input then Inl InvalidEncryptedPayload
           else rbind (decode_inner_payload_chain next_type (drop len input)) (\<lambda>ps.
             Inr (\<lparr>payload_type = current_type, critical = is_critical,
                   body = slice_of input 4 len\<rparr> # ps)))"
  by pat_completeness auto
termination
  by (relation "measure (\<lambda>(_, input). length input)") auto

declare decode_inner_payload_chain.simps [simp del]

section \<open>Cipher and tag\<close>

definition encrypt_cbc ::
    "Crypto \<Rightarrow> IkeKeySchedulePlan \<Rightarrow> bytes \<Rightarrow> bytes \<Rightarrow> bytes \<Rightarrow> EncryptedPayloadError + bytes" where
  "encrypt_cbc c plan key iv plaintext =
     (if ike_encryption plan = ''aes_cbc'' \<and> length key = 16 then
        ok_or (cbc_encrypt c Aes128 key iv plaintext) InvalidEncryptedPayload
      else if ike_encryption plan = ''aes_cbc'' \<and> length key = 32 then
        ok_or (cbc_encrypt c Aes256 key iv plaintext) InvalidEncryptedPayload
      else Inl (UnsupportedCipher (ike_encryption plan)))"

definition decrypt_cbc ::
    "Crypto \<Rightarrow> IkeKeySchedulePlan \<Rightarrow> bytes \<Rightarrow> bytes \<Rightarrow> bytes \<Rightarrow> EncryptedPayloadError + bytes" where
  "decrypt_cbc c plan key iv ciphertext =
     (if ike_encryption plan = ''aes_cbc'' \<and> length key = 16 then
        ok_or (cbc_decrypt c Aes128 key iv ciphertext) InvalidEncryptedPayload
      else if ike_encryption plan = ''aes_cbc'' \<and> length key = 32 then
        ok_or (cbc_decrypt c Aes256 key iv ciphertext) InvalidEncryptedPayload
      else Inl (UnsupportedCipher (ike_encryption plan)))"

definition tag_algorithm :: "IkeKeySchedulePlan \<Rightarrow> EncryptedPayloadError + HmacAlgorithm option" where
  "tag_algorithm plan =
     (if ike_integrity plan = ''hmac_md5_96'' then Inr None
      else if ike_integrity plan = ''hmac_sha1_96'' then Inr (Some HMAC_SHA1)
      else if ike_integrity plan = ''hmac_sha256_128'' then Inr (Some HMAC_SHA256)
      else if ike_integrity plan = ''hmac_sha384_192'' then Inr (Some HMAC_SHA384)
      else if ike_integrity plan = ''hmac_sha512_256'' then Inr (Some HMAC_SHA512)
      else Inl (UnsupportedIntegrityName (ike_integrity plan)))"

definition integrity_tag ::
    "Crypto \<Rightarrow> IkeKeySchedulePlan \<Rightarrow> bytes \<Rightarrow> bytes \<Rightarrow> nat \<Rightarrow> EncryptedPayloadError + bytes" where
  "integrity_tag c plan key message_without_icv tag_bytes =
     rbind (tag_algorithm plan) (\<lambda>algorithm.
       let tag = (case algorithm of
                    Some a \<Rightarrow> hmac_sign c a key message_without_icv
                  | None \<Rightarrow> hmac_md5 (md5_compute c) key message_without_icv)
       in Inr (take tag_bytes tag))"

fun integrity_key :: "IkeSecretBundle \<Rightarrow> IkeSkDirection \<Rightarrow> bytes" where
  "integrity_key bundle InitiatorToResponder = sk_ai bundle"
| "integrity_key bundle ResponderToInitiator = sk_ar bundle"

fun encryption_key :: "IkeSecretBundle \<Rightarrow> IkeSkDirection \<Rightarrow> bytes" where
  "encryption_key bundle InitiatorToResponder = sk_ei bundle"
| "encryption_key bundle ResponderToInitiator = sk_er bundle"

definition strip_padding :: "bytes \<Rightarrow> EncryptedPayloadError + bytes" where
  "strip_padding plaintext =
     (if plaintext = [] then Inl InvalidPadding
      else
        let padding_len = unat (last plaintext);
            content = butlast plaintext
        in if padding_len > length content then Inl InvalidPadding
           else Inr (take (length content - padding_len) content))"

section \<open>Building\<close>

definition build_encrypted_payload ::
    "Crypto \<Rightarrow> bytes option \<Rightarrow> IkeSecretBundle \<Rightarrow> IkeSkDirection \<Rightarrow> IkePayload list
      \<Rightarrow> EncryptedPayloadError + IkePayload" where
  "build_encrypted_payload c random_iv bundle direction inner_payloads =
     (if inner_payloads = [] then Inl EmptyInnerPayloads
      else
        let plan = bundle_plan bundle in
        rbind (cipher_shape plan) (\<lambda>(iv_bytes, block_bytes).
        rbind (integrity_len plan) (\<lambda>tag_bytes.
        rbind (encode_inner_payload_chain inner_payloads) (\<lambda>plaintext.
        let padding_len = padding_len_for_block (length plaintext + 1) block_bytes;
            plaintext = plaintext @ map word_of_nat [0..<padding_len] @ [word_of_nat padding_len] in
        rbind (ok_or random_iv RandomFailed) (\<lambda>iv.
        rbind (encrypt_cbc c plan (encryption_key bundle direction) iv plaintext) (\<lambda>ciphertext.
        Inr \<lparr>payload_type = Encrypted, critical = False, body = iv @ ciphertext\<rparr>))))))"

definition encode_message_with_first_encrypted_inner_payload ::
    "IkeMessage \<Rightarrow> IkePayloadType \<Rightarrow> nat \<Rightarrow> EncryptedPayloadError + bytes" where
  "encode_message_with_first_encrypted_inner_payload message first_inner_payload tag_bytes =
     (case payloads message of
        [] \<Rightarrow> Inl InvalidEncryptedPayload
      | encrypted # _ \<Rightarrow>
          if payload_type encrypted \<noteq> Encrypted then Inl InvalidEncryptedPayload
          else
            let payload_len = 4 + length (body encrypted) + tag_bytes;
                total_len = 28 + payload_len;
                h = header message
            in if payload_len > u16_max then Inl (PacketTooLarge payload_len)
               else if total_len > u32_max then Inl (PacketTooLarge total_len)
               else Inr (u64_be (initiator_spi h) @ u64_be (responder_spi h)
                 @ [payload_type_as_u8 Encrypted,
                    push_bit 4 (major_version h) OR (minor_version h AND 0x0f),
                    exchange_type_as_u8 (exchange_type h),
                    flags_as_u8 (header_flags h)]
                 @ u32_be (message_id h) @ u32_be (word_of_nat total_len)
                 @ [payload_type_as_u8 first_inner_payload, if critical encrypted then 0x80 else 0]
                 @ u16_be (word_of_nat payload_len) @ body encrypted))"

definition encode_encrypted_message ::
    "Crypto \<Rightarrow> IkeMessage \<Rightarrow> IkePayloadType \<Rightarrow> IkeSecretBundle \<Rightarrow> IkeSkDirection
      \<Rightarrow> EncryptedPayloadError + bytes" where
  "encode_encrypted_message c message first_inner_payload bundle direction =
     rbind (integrity_len (bundle_plan bundle)) (\<lambda>tag_bytes.
     rbind (encode_message_with_first_encrypted_inner_payload message first_inner_payload tag_bytes) (\<lambda>encoded.
     rbind (integrity_tag c (bundle_plan bundle) (integrity_key bundle direction) encoded tag_bytes) (\<lambda>tag.
     Inr (encoded @ tag))))"

definition encrypted_message_from_payload ::
    "u64 \<Rightarrow> u64 \<Rightarrow> IkeExchangeType \<Rightarrow> bool \<Rightarrow> u32 \<Rightarrow> IkePayload \<Rightarrow> IkeMessage" where
  "encrypted_message_from_payload spi_i spi_r exchange initiator_request mid payload =
     \<lparr>header = \<lparr>initiator_spi = spi_i, responder_spi = spi_r, next_payload = Encrypted,
        major_version = 2, minor_version = 0, exchange_type = exchange,
        header_flags = \<lparr>initiator = initiator_request, response = False, version = False\<rparr>,
        message_id = mid, header_length = 0\<rparr>,
      payloads = [payload]\<rparr>"

section \<open>Opening\<close>

definition encrypted_body_from_encoded_message ::
    "bytes \<Rightarrow> nat \<Rightarrow> EncryptedPayloadError + IkePayloadType \<times> bytes \<times> bytes" where
  "encrypted_body_from_encoded_message encoded tag_bytes =
     (if length encoded < 32 \<or> encoded ! 16 \<noteq> payload_type_as_u8 Encrypted then Inl InvalidEncryptedPayload
      else if unat (u32_from_be (slice_of encoded 24 28)) \<noteq> length encoded then Inl InvalidEncryptedPayload
      else
        let first_inner_payload = payload_type_from_u8 (encoded ! 28);
            payload_len = unat (u16_from_be [encoded ! 30, encoded ! 31])
        in if payload_len < 4 \<or> 28 + payload_len \<noteq> length encoded then Inl InvalidEncryptedPayload
           else
             let body_with_icv = drop 32 encoded
             in if length body_with_icv < tag_bytes then Inl InvalidEncryptedPayload
                else let at = length body_with_icv - tag_bytes
                     in Inr (first_inner_payload, take at body_with_icv, drop at body_with_icv))"

definition decrypt_encrypted_payload_body ::
    "Crypto \<Rightarrow> IkeKeySchedulePlan \<Rightarrow> bytes \<Rightarrow> IkePayloadType \<Rightarrow> bytes
      \<Rightarrow> EncryptedPayloadError + IkePayload list" where
  "decrypt_encrypted_payload_body c plan key first_inner_payload content =
     rbind (cipher_shape plan) (\<lambda>(iv_bytes, block_bytes).
       if length content \<le> iv_bytes \<or> (length content - iv_bytes) mod block_bytes \<noteq> 0
       then Inl InvalidEncryptedPayload
       else
         rbind (decrypt_cbc c plan key (take iv_bytes content) (drop iv_bytes content)) (\<lambda>plaintext.
         rbind (strip_padding plaintext) (\<lambda>plaintext.
         decode_inner_payload_chain first_inner_payload plaintext)))"

definition decrypt_encrypted_payload_from_message ::
    "Crypto \<Rightarrow> bytes \<Rightarrow> IkeSecretBundle \<Rightarrow> IkeSkDirection
      \<Rightarrow> EncryptedPayloadError + IkePayload list" where
  "decrypt_encrypted_payload_from_message c encoded_message bundle direction =
     (let plan = bundle_plan bundle in
      rbind (integrity_len plan) (\<lambda>tag_bytes.
      if length encoded_message < tag_bytes + 32 then Inl InvalidEncryptedPayload
      else
        rbind (encrypted_body_from_encoded_message encoded_message tag_bytes)
          (\<lambda>(first_inner_payload, encrypted_body, received_icv).
        let message_without_icv = take (length encoded_message - tag_bytes) encoded_message in
        rbind (integrity_tag c plan (integrity_key bundle direction) message_without_icv tag_bytes) (\<lambda>expected.
        if \<not> constant_time_eq expected received_icv then Inl IntegrityMismatch
        else decrypt_encrypted_payload_body c plan (encryption_key bundle direction)
               first_inner_payload encrypted_body))))"

definition encrypted_response_header_matches ::
    "bytes \<Rightarrow> u64 \<Rightarrow> IkeExchangeType \<Rightarrow> u32 \<Rightarrow> EncryptedPayloadError + bool" where
  "encrypted_response_header_matches encoded_message spi_i exchange mid =
     (if length encoded_message < 32 then Inl InvalidEncryptedPayload
      else if unat (u32_from_be (slice_of encoded_message 24 28)) \<noteq> length encoded_message
      then Inl InvalidEncryptedPayload
      else
        let header_initiator_spi = u64_from_be (slice_of encoded_message 0 8);
            next_payload_type = payload_type_from_u8 (encoded_message ! 16);
            ver = drop_bit 4 (encoded_message ! 17);
            header_exchange = exchange_type_from_u8 (encoded_message ! 18);
            flags = flags_from_u8 (encoded_message ! 19);
            header_message_id = u32_from_be (slice_of encoded_message 20 24)
        in Inr (header_initiator_spi = spi_i \<and> next_payload_type = Encrypted \<and> ver = 2
                \<and> header_exchange = exchange \<and> response flags \<and> header_message_id = mid))"


section \<open>The ESP layer's cipher and tags\<close>

lemma integrity_len_esp: "integrity_len plan = Inr n \<longleftrightarrow> esp_integrity_len (ike_integrity plan) = Inr n"
  by (simp add: integrity_len_def esp_integrity_len_def)

lemma integrity_tag_esp:
  assumes "integrity_len plan = Inr n"
  shows "integrity_tag c plan key m n = Inr t \<longleftrightarrow> esp_integrity_tag c (ike_integrity plan) key m = Inr t"
  using assms
  by (simp add: integrity_len_def integrity_tag_def tag_algorithm_def esp_integrity_tag_def
      integrity_algorithm_def Let_def split: if_split_asm)

lemma encrypt_cbc_esp:
  assumes "cipher_shape plan = Inr s"
  shows "encrypt_cbc c plan key iv pt = Inr ct \<longleftrightarrow> esp_encrypt_cbc c (ike_encryption plan) key iv pt = Inr ct"
    and "decrypt_cbc c plan key iv ct = Inr pt \<longleftrightarrow> esp_decrypt_cbc c (ike_encryption plan) key iv ct = Inr pt"
  using assms
  by (simp_all add: cipher_shape_def encrypt_cbc_def decrypt_cbc_def esp_encrypt_cbc_def
      esp_decrypt_cbc_def split: if_split_asm)

section \<open>Chains and padding\<close>

lemma decode_inner_step:
  assumes "4 + length b \<le> 65535"
  shows "decode_inner_payload_chain t ([x, y] @ u16_be (word_of_nat (4 + length b)) @ b @ rest) =
    rbind (decode_inner_payload_chain (payload_type_from_u8 x) rest) (\<lambda>ps.
      Inr (\<lparr>payload_type = t, critical = y AND 0x80 \<noteq> 0, body = b\<rparr> # ps))"
proof -
  let ?w = "word_of_nat (4 + length b) :: u16"
  obtain p q where w: "u16_be ?w = [p, q]" using u16_be_Cons by blast
  then have again: "u16_from_be [p, q] = ?w" by (metis be16.from_to_be)
  have len: "unat ?w = 4 + length b" using assms by (intro unat_u16_of_nat)
  have "drop (4 + length b) (x # y # p # q # b @ rest) = rest" by (simp add: numeral_eq_Suc)
  then show ?thesis
    by (subst decode_inner_payload_chain.simps)
       (simp add: w again len Let_def slice_of_def del: of_nat_add of_nat_Suc)
qed

lemma encode_inner_length:
  "encode_inner_payload_chain ps = Inr bs \<Longrightarrow> length bs = (\<Sum>p \<leftarrow> ps. 4 + length (body p))"
  by (induction ps arbitrary: bs) (auto simp: Let_def result_simps split: if_splits)

lemma decode_encode_inner:
  assumes "encode_inner_payload_chain ps = Inr bs" and "list_all (\<lambda>p. canonical_payload_type (payload_type p)) ps"
    and "t = first_type ps"
  shows "decode_inner_payload_chain t bs = Inr ps"
  using assms
proof (induction ps arbitrary: bs t)
  case Nil
  then show ?case by (simp add: decode_inner_payload_chain.simps)
next
  case (Cons p ps)
  then obtain rest where rest: "encode_inner_payload_chain ps = Inr rest" and len: "4 + length (body p) \<le> 65535"
    and bs: "bs = [payload_type_as_u8 (first_type ps), if critical p then 0x80 else 0]
        @ u16_be (word_of_nat (4 + length (body p))) @ body p @ rest"
    by (auto simp: Let_def result_simps split: if_split_asm)
  have "payload_type_from_u8 (payload_type_as_u8 (first_type ps)) = first_type ps"
    using Cons.prems(2) by (cases ps) (auto simp: first_type_def canonical_payload_type_def payload_type_from_u8_def)
  then show ?case
    unfolding bs decode_inner_step [OF len]
    using Cons.IH [OF rest _ refl] Cons.prems(2,3) by (simp add: first_type_def)
qed

lemma strip_padded: "k \<le> 255 \<Longrightarrow> strip_padding (pt @ map word_of_nat [0..<k] @ [word_of_nat k]) = Inr pt"
  by (simp add: strip_padding_def butlast_append Let_def)

lemma padding_block:
  "(n + 1 + padding_len_for_block (n + 1) 16) mod 16 = 0" "padding_len_for_block (n + 1) 16 \<le> 15"
proof -
  obtain q r where n: "n + 1 = 16 * q + r" and r: "r < 16"
    by (metis mod_less_divisor mult_div_mod_eq zero_less_numeral)
  then have pad: "padding_len_for_block (n + 1) 16 = (if r = 0 then 0 else 16 - r)"
    by (simp add: padding_len_for_block_def)
  then show "padding_len_for_block (n + 1) 16 \<le> 15" by (cases "r = 0") auto
  have "n + 1 + padding_len_for_block (n + 1) 16 = 16 * (if r = 0 then q else q + 1)"
    using n r pad by (cases "r = 0") auto
  then show "(n + 1 + padding_len_for_block (n + 1) 16) mod 16 = 0" by simp
qed


section \<open>The message around an encrypted payload\<close>

text \<open>The octets of an encrypted message: the header fields, the first inner type, the body of the
  payload and the tag.\<close>

definition sealed :: "IkeHeader \<Rightarrow> u8 \<Rightarrow> u8 \<Rightarrow> bytes \<Rightarrow> bytes" where
  "sealed h first crit content =
     (u64_be (initiator_spi h) @ u64_be (responder_spi h)
       @ [46, push_bit 4 (major_version h) OR (minor_version h AND 0x0f),
          exchange_type_as_u8 (exchange_type h), flags_as_u8 (header_flags h)]
       @ u32_be (message_id h))
     @ u32_be (word_of_nat (32 + length content)) @ [first, crit]
     @ u16_be (word_of_nat (4 + length content)) @ content"

lemma length_sealed [simp]: "length (sealed h f cr content) = 32 + length content"
  by (simp add: sealed_def)


lemma drop_sealed: "drop 32 (sealed h f cr content) = content"
  by (simp add: sealed_def)

lemma sealed_fields:
  shows "sealed h f cr content ! 16 = 46" "sealed h f cr content ! 28 = f"
    "sealed h f cr content ! 17 = push_bit 4 (major_version h) OR (minor_version h AND 0x0f)"
    "sealed h f cr content ! 18 = exchange_type_as_u8 (exchange_type h)"
    "sealed h f cr content ! 19 = flags_as_u8 (header_flags h)"
    "u64_from_be (slice_of (sealed h f cr content) 0 8) = initiator_spi h"
    "u32_from_be (slice_of (sealed h f cr content) 20 24) = message_id h"
    "u32_from_be (slice_of (sealed h f cr content) 24 28) = word_of_nat (32 + length content)"
    "u16_from_be [sealed h f cr content ! 30, sealed h f cr content ! 31] = word_of_nat (4 + length content)"
proof -
  let ?s = "sealed h f cr content"
  let ?pre = "u64_be (initiator_spi h) @ u64_be (responder_spi h)
       @ [46, push_bit 4 (major_version h) OR (minor_version h AND 0x0f),
          exchange_type_as_u8 (exchange_type h), flags_as_u8 (header_flags h)]"
  show "?s ! 16 = 46" "?s ! 28 = f" "?s ! 18 = exchange_type_as_u8 (exchange_type h)"
    "?s ! 17 = push_bit 4 (major_version h) OR (minor_version h AND 0x0f)"
    "?s ! 19 = flags_as_u8 (header_flags h)"
    by (simp_all add: sealed_def nth_append)
  show "u64_from_be (slice_of ?s 0 8) = initiator_spi h"
    by (simp add: sealed_def slice_of_def)
  show "u32_from_be (slice_of ?s 20 24) = message_id h"
    using be32.from_be_slice [of ?pre 20 24 "message_id h"] by (simp add: sealed_def)
  show "u32_from_be (slice_of ?s 24 28) = word_of_nat (32 + length content)"
    using be32.from_be_slice [of "?pre @ u32_be (message_id h)" 24 28]
    by (simp add: sealed_def del: of_nat_add)
  obtain a b where w: "u16_be (word_of_nat (4 + length content)) = [a, b]" using u16_be_Cons by blast
  then have "u16_from_be [a, b] = word_of_nat (4 + length content)" by (metis be16.from_to_be)
  then show "u16_from_be [?s ! 30, ?s ! 31] = word_of_nat (4 + length content)"
    unfolding sealed_def w by (simp add: nth_append)
qed


lemma encode_sealed:
  assumes "encode_message_with_first_encrypted_inner_payload message first n = Inr encoded"
    and "length tag = n"
  obtains p ps where "payloads message = p # ps" "payload_type p = Encrypted"
    "encoded @ tag = sealed (header message) (payload_type_as_u8 first)
       (if critical p then 0x80 else 0) (body p @ tag)"
    "length encoded = 32 + length (body p)" "4 + length (body p) + n \<le> 65535"
  using assms
  by (cases "payloads message")
     (auto simp: encode_message_with_first_encrypted_inner_payload_def Let_def sealed_def add.assoc
       split: if_split_asm)

lemma encode_sealed_ok:
  assumes "payloads message = p # ps" "payload_type p = Encrypted" "4 + length (body p) + n \<le> 65535"
  shows "\<exists>encoded. encode_message_with_first_encrypted_inner_payload message first n = Inr encoded"
  using assms by (simp add: encode_message_with_first_encrypted_inner_payload_def Let_def)

lemma open_sealed:
  assumes "length content = length inner + n" "4 + length content \<le> 65535"
    and "content = inner @ tag"
  shows "encrypted_body_from_encoded_message (sealed h f cr content) n =
    Inr (payload_type_from_u8 f, inner, tag)"
  using assms
  by (simp add: encrypted_body_from_encoded_message_def sealed_fields drop_sealed Let_def
      del: of_nat_add of_nat_numeral)

text \<open>The body that the builder makes is read back by the cipher layer alone.\<close>

lemma decrypt_built_body:
  assumes laws: "crypto_laws c" and iv16: "\<forall>iv. rnd = Some iv \<longrightarrow> length iv = 16"
    and built: "build_encrypted_payload c rnd bundle dir inner = Inr payload"
    and canonical: "list_all (\<lambda>p. canonical_payload_type (payload_type p)) inner"
  shows "decrypt_encrypted_payload_body c (bundle_plan bundle) (encryption_key bundle dir)
           (first_type inner) (body payload) = Inr inner"
    and "payload_type payload = Encrypted" and "critical payload = False"
proof -
  let ?plan = "bundle_plan bundle" let ?key = "encryption_key bundle dir"
  from built obtain n pt iv ct where shape: "cipher_shape ?plan = Inr (16, 16)"
    and pt: "encode_inner_payload_chain inner = Inr pt" and iv: "rnd = Some iv"
    and ct: "encrypt_cbc c ?plan ?key iv (pt @ map word_of_nat [0..<padding_len_for_block (length pt + 1) 16]
        @ [word_of_nat (padding_len_for_block (length pt + 1) 16)]) = Inr ct"
    and payload: "payload = \<lparr>payload_type = Encrypted, critical = False, body = iv @ ct\<rparr>"
    by (auto simp: build_encrypted_payload_def Let_def result_simps cipher_shape_def split: if_split_asm)
  let ?k = "padding_len_for_block (length pt + 1) 16"
  let ?plain = "pt @ map word_of_nat [0..<?k] @ [word_of_nat ?k]"
  have block: "length ?plain mod 16 = 0"
    using padding_block(1) [of "length pt"] by (simp add: ac_simps)
  have ivl: "length iv = 16" using iv16 iv by simp
  from cbc_inverse [OF laws ivl block encrypt_cbc_esp(1) [OF shape, THEN iffD1, OF ct]]
  have plain: "decrypt_cbc c ?plan ?key iv ct = Inr ?plain" and len: "length ct = length ?plain"
    using encrypt_cbc_esp(2) [OF shape] by auto
  have strip: "strip_padding ?plain = Inr pt"
    using padding_block(2) [of "length pt"] by (intro strip_padded) simp
  have "decode_inner_payload_chain (first_type inner) pt = Inr inner"
    by (rule decode_encode_inner [OF pt canonical refl])
  then show "decrypt_encrypted_payload_body c ?plan ?key (first_type inner) (body payload) = Inr inner"
    using block len plain strip
    by (simp add: decrypt_encrypted_payload_body_def shape payload ivl)
  show "payload_type payload = Encrypted" "critical payload = False" by (simp_all add: payload)
qed


section \<open>Properties\<close>

lemma encrypted_message_sealed:
  assumes laws: "crypto_laws c"
    and sent: "encode_encrypted_message c message first bundle dir = Inr bs"
  obtains p ps n tag where "payloads message = p # ps" "payload_type p = Encrypted"
    "integrity_len (bundle_plan bundle) = Inr n" "length tag = n"
    "bs = sealed (header message) (payload_type_as_u8 first) (if critical p then 0x80 else 0) (body p @ tag)"
    "esp_integrity_tag c (ike_integrity (bundle_plan bundle)) (integrity_key bundle dir)
       (take (length bs - n) bs) = Inr tag"
    "4 + length (body p) + n \<le> 65535"
proof -
  from sent obtain n encoded tag where n: "integrity_len (bundle_plan bundle) = Inr n"
    and enc: "encode_message_with_first_encrypted_inner_payload message first n = Inr encoded"
    and tag: "integrity_tag c (bundle_plan bundle) (integrity_key bundle dir) encoded n = Inr tag"
    and bs: "bs = encoded @ tag"
    by (auto simp: encode_encrypted_message_def result_simps)
  have esp: "esp_integrity_tag c (ike_integrity (bundle_plan bundle)) (integrity_key bundle dir) encoded = Inr tag"
    using tag integrity_tag_esp [OF n] by simp
  have len: "length tag = n" using tag_length [OF laws esp] n integrity_len_esp by blast
  obtain p ps where "payloads message = p # ps" "payload_type p = Encrypted"
    "encoded @ tag = sealed (header message) (payload_type_as_u8 first)
       (if critical p then 0x80 else 0) (body p @ tag)"
    "length encoded = 32 + length (body p)" "4 + length (body p) + n \<le> 65535"
    by (rule encode_sealed [OF enc len])
  moreover have "take (length bs - n) bs = encoded" using bs len by simp
  ultimately show thesis using that [OF _ _ n len, of p ps] esp bs by simp
qed

text \<open>encrypted messages open to what they were built from.  Whatever payload chain the builder
  encrypts and the encoder wraps, under any header, the holder of the same secrets decrypts the
  octets to exactly that chain: types, critical flags and bodies, in order.\<close>

lemma encrypted_message_opens:
  assumes laws: "crypto_laws c" and iv16: "\<forall>iv. rnd = Some iv \<longrightarrow> length iv = 16"
    and built: "build_encrypted_payload c rnd bundle dir inner = Inr payload"
    and canonical: "list_all (\<lambda>p. canonical_payload_type (payload_type p)) inner"
    and sent: "encode_encrypted_message c \<lparr>header = h, payloads = payload # others\<rparr>
                 (first_type inner) bundle dir = Inr bs"
  shows "decrypt_encrypted_payload_from_message c bs bundle dir = Inr inner"
proof -
  obtain n tag where n: "integrity_len (bundle_plan bundle) = Inr n" "length tag = n"
    and bs: "bs = sealed h (payload_type_as_u8 (first_type inner)) (if critical payload then 0x80 else 0)
        (body payload @ tag)"
    and tag: "esp_integrity_tag c (ike_integrity (bundle_plan bundle)) (integrity_key bundle dir)
       (take (length bs - n) bs) = Inr tag"
    and fits: "4 + length (body payload) + n \<le> 65535"
    by (rule encrypted_message_sealed [OF laws sent]) simp
  have first: "payload_type_from_u8 (payload_type_as_u8 (first_type inner)) = first_type inner"
    using canonical by (cases inner) (auto simp: first_type_def canonical_payload_type_def payload_type_from_u8_def)
  have split: "encrypted_body_from_encoded_message bs n = Inr (first_type inner, body payload, tag)"
    unfolding bs using open_sealed [of "body payload @ tag" "body payload" n tag] n fits first by simp
  have "integrity_tag c (bundle_plan bundle) (integrity_key bundle dir) (take (length bs - n) bs) n = Inr tag"
    using tag integrity_tag_esp [OF n(1)] by blast
  moreover have "n + 32 \<le> length bs" using n by (simp add: bs)
  ultimately show ?thesis
    using decrypt_built_body [OF laws iv16 built canonical]
    by (simp add: decrypt_encrypted_payload_from_message_def n(1) split Let_def)
qed

lemma planned_algorithms:
  assumes "build_key_schedule_plan proposal = Inr plan"
  shows "cipher_shape plan = Inr (16, 16)" and "\<exists>n. integrity_len plan = Inr n"
proof -
  from assms obtain e i where "ike_encryption plan = encryption_as_str e" "ike_integrity plan = integrity_as_str i"
    by (auto simp: build_key_schedule_plan_def result_simps)
  then show "cipher_shape plan = Inr (16, 16)" "\<exists>n. integrity_len plan = Inr n"
    by (cases e; cases i; simp add: cipher_shape_def integrity_len_def)+
qed

lemma build_total:
  assumes laws: "crypto_laws c" and shape: "cipher_shape (bundle_plan bundle) = Inr (16, 16)"
    and n: "integrity_len (bundle_plan bundle) = Inr n" and iv: "length iv = 16"
    and key: "length (encryption_key bundle dir) = 16 \<or> length (encryption_key bundle dir) = 32"
    and inner: "inner \<noteq> []" and size: "(\<Sum>p \<leftarrow> inner. 4 + length (body p)) \<le> 65000"
  obtains payload where "build_encrypted_payload c (Some iv) bundle dir inner = Inr payload"
    "length (body payload) \<le> 65032"
proof -
  have "\<exists>pt. encode_inner_payload_chain inner = Inr pt"
    using size by (induction inner) (auto simp: Let_def)
  then obtain pt where pt: "encode_inner_payload_chain inner = Inr pt" ..
  then have ptlen: "length pt \<le> 65000" using size encode_inner_length by simp
  let ?k = "padding_len_for_block (length pt + 1) 16"
  let ?plain = "pt @ map word_of_nat [0..<?k] @ [word_of_nat ?k]"
  have block: "length ?plain mod 16 = 0"
    using padding_block(1) [of "length pt"] by (simp add: ac_simps)
  have aes: "ike_encryption (bundle_plan bundle) = ''aes_cbc''"
    using shape by (simp add: cipher_shape_def split: if_split_asm)
  obtain ct where "esp_encrypt_cbc c ''aes_cbc'' (encryption_key bundle dir) iv ?plain = Inr ct"
    by (rule encrypt_total [OF laws iv block key])
  then have esp: "esp_encrypt_cbc c (ike_encryption (bundle_plan bundle)) (encryption_key bundle dir) iv ?plain = Inr ct"
    by (simp add: aes)
  then have ct: "encrypt_cbc c (bundle_plan bundle) (encryption_key bundle dir) iv ?plain = Inr ct"
    using encrypt_cbc_esp(1) [OF shape] by blast
  have "length ct = length ?plain" by (rule cbc_inverse(2) [OF laws iv block esp])
  then have "length (iv @ ct) \<le> 65032" using ptlen padding_block(2) [of "length pt"] iv by simp
  moreover have "build_encrypted_payload c (Some iv) bundle dir inner =
      Inr \<lparr>payload_type = Encrypted, critical = False, body = iv @ ct\<rparr>"
    using inner shape n pt ct by (simp add: build_encrypted_payload_def)
  ultimately show thesis using that by (metis IkePayload.select_convs(3))
qed

lemma encode_total:
  assumes laws: "crypto_laws c" and n: "integrity_len (bundle_plan bundle) = Inr n"
    and p: "payload_type p = Encrypted" "length (body p) \<le> 65032"
  shows "\<exists>bs. encode_encrypted_message c \<lparr>header = h, payloads = p # ps\<rparr> first bundle dir = Inr bs"
proof -
  have "n \<le> 32" using n by (auto simp: integrity_len_def split: if_split_asm)
  then have "4 + length (body p) + n \<le> 65535" using p(2) by simp
  then obtain encoded where enc: "encode_message_with_first_encrypted_inner_payload
      \<lparr>header = h, payloads = p # ps\<rparr> first n = Inr encoded"
    using encode_sealed_ok [of "\<lparr>header = h, payloads = p # ps\<rparr>" p ps n first] p(1) by auto
  obtain tag where "integrity_tag c (bundle_plan bundle) (integrity_key bundle dir) encoded n = Inr tag"
    using integrity_tag_esp [OF n] tag_iff_len integrity_len_esp n by blast
  then show ?thesis by (simp add: encode_encrypted_message_def n enc)
qed

text \<open>the header check tells exactly whether the message was sent under the expected initiator SPI,
  exchange and message identifier, as a response of version 2.\<close>

lemma header_check_exact:
  assumes "crypto_laws c" and "encode_encrypted_message c message first bundle dir = Inr bs"
    and "canonical_exchange_type (exchange_type (header message))"
  shows "encrypted_response_header_matches bs si ex mid =
    Inr (initiator_spi (header message) = si \<and> drop_bit 4 (push_bit 4 (major_version (header message))
           OR (minor_version (header message) AND 0x0f)) = 2
      \<and> exchange_type (header message) = ex \<and> response (header_flags (header message))
      \<and> message_id (header message) = mid)"
proof -
  obtain p :: IkePayload and n tag where bs: "bs = sealed (header message) (payload_type_as_u8 first)
      (if critical p then 0x80 else 0) (body p @ tag)" and "length tag = n"
    and "4 + length (body p) + n \<le> 65535"
    by (rule encrypted_message_sealed [OF assms(1,2)]) blast
  then show ?thesis
    using canonical_exchange_type_back [OF assms(3)]
    by (simp add: encrypted_response_header_matches_def bs sealed_fields Let_def payload_type_from_u8_def
        del: of_nat_add of_nat_numeral)
qed

text \<open>C5: whatever IKE proposal a carrier profile names, with the secrets derived from it every
  non-empty chain of payloads of together at most 65000 octets is encrypted and encoded under any
  header, and the peer with the same secrets opens the octets to exactly that chain: types, critical
  flags and bodies, in order.\<close>

theorem profile_messages_open:
  assumes laws: "crypto_laws c"
    and ike: "ike_proposal_from_profile_string s m = Inr proposal"
    and inputs: "shared_secret \<noteq> []" "ni \<noteq> []" "nr \<noteq> []"
    and chain: "inner \<noteq> []" "list_all (\<lambda>p. canonical_payload_type (payload_type p)) inner"
      "(\<Sum>p \<leftarrow> inner. 4 + length (body p)) \<le> 65000"
    and iv: "length iv = 16"
  shows "\<exists>bundle payload bs.
      derive_ike_secret_bundle c proposal ni nr spi_i spi_r shared_secret = Some (Inr bundle)
    \<and> build_encrypted_payload c (Some iv) bundle dir inner = Inr payload
    \<and> encode_encrypted_message c \<lparr>header = h, payloads = [payload]\<rparr> (first_type inner) bundle dir = Inr bs
    \<and> decrypt_encrypted_payload_from_message c bs bundle dir = Inr inner"
proof -
  obtain plan p where plan: "build_key_schedule_plan proposal = Inr plan" "prf_from_plan plan = Inr p"
    and fits: "ike_total_secret_bytes plan \<le> 255 * prf_output_len p"
    and size: "ike_encryption_key_bytes plan = 16 \<or> ike_encryption_key_bytes plan = 32"
    by (rule ike_profile_plan [OF ike])
  obtain b where b: "derive_ike_secret_bundle c proposal ni nr spi_i spi_r shared_secret = Some (Inr b)"
      "bundle_plan b = plan"
      "map length [sk_ei b, sk_er b] = replicate 2 (ike_encryption_key_bytes plan)"
    by (rule derive_ike_keys [OF laws plan inputs fits])
  have shape: "cipher_shape (bundle_plan b) = Inr (16, 16)"
    and "\<exists>n. integrity_len (bundle_plan b) = Inr n"
    using plan(1) b(2) by (auto simp: planned_algorithms)
  then obtain n where n: "integrity_len (bundle_plan b) = Inr n" by blast
  have key: "length (encryption_key b dir) = 16 \<or> length (encryption_key b dir) = 32"
    using b(3) size by (cases dir) (auto simp: numeral_eq_Suc)
  obtain payload where built: "build_encrypted_payload c (Some iv) b dir inner = Inr payload"
    and len: "length (body payload) \<le> 65032"
    by (rule build_total [OF laws shape n iv key chain(1,3)])
  have "payload_type payload = Encrypted"
    by (rule decrypt_built_body(2) [OF laws _ built chain(2)]) (simp add: iv)
  from encode_total [OF laws n this len]
  obtain bs where sent: "encode_encrypted_message c \<lparr>header = h, payloads = [payload]\<rparr>
      (first_type inner) b dir = Inr bs" by blast
  have "decrypt_encrypted_payload_from_message c bs b dir = Inr inner"
    by (rule encrypted_message_opens [OF laws _ built chain(2) sent]) (simp add: iv)
  with b(1) built sent show ?thesis by blast
qed

theorem profile_messages_open_witness:
  "\<exists>proposal bundle payload bs.
      ike_proposal_from_profile_string ''aes256-md5-modp1024'' 1 = Inr proposal
    \<and> derive_ike_secret_bundle sample_crypto proposal [1] [2] 3 4 [5] = Some (Inr bundle)
    \<and> build_encrypted_payload sample_crypto (Some (replicate 16 7)) bundle InitiatorToResponder
        [nonce [1, 2, 3], key_exchange [4]] = Inr payload
    \<and> encode_encrypted_message sample_crypto
        (encrypted_message_from_payload 3 4 IkeAuth True 1 payload) Nonce bundle InitiatorToResponder = Inr bs
    \<and> decrypt_encrypted_payload_from_message sample_crypto bs bundle InitiatorToResponder
        = Inr [nonce [1, 2, 3], key_exchange [4]]"
proof -
  have "proposal_tokens ''aes256-md5-modp1024'' = [''aes256'', ''md5'', ''modp1024'']"
    by (simp add: proposal_tokens_def)
  then obtain proposal where ike: "ike_proposal_from_profile_string ''aes256-md5-modp1024'' 1 = Inr proposal"
    by (simp add: ike_proposal_from_profile_string_def ike_token_def no_locals_def
        default_prf_for_integrity_def mk_transform_def)
  from profile_messages_open [OF sample_crypto_laws ike, of "[5]" "[1]" "[2]"
      "[nonce [1, 2, 3], key_exchange [4]]" "replicate 16 7" 3 4 InitiatorToResponder
      "header (encrypted_message_from_payload 3 4 IkeAuth True 1 undefined)"]
  show ?thesis using ike
    by (auto simp: nonce_def key_exchange_def canonical_payload_type_def payload_type_from_u8_def
        first_type_def encrypted_message_from_payload_def)
qed

text \<open>authenticated before use, and bound to the direction.  The opener returns payloads only when
  the message's own length fields are exact and its last octets are the integrity tag of all the
  octets before them under the key of that direction.\<close>

theorem encrypted_message_authentic:
  assumes "decrypt_encrypted_payload_from_message c bs bundle dir = Inr inner"
  shows "\<exists>n. integrity_len (bundle_plan bundle) = Inr n \<and> n + 32 \<le> length bs
    \<and> unat (u32_from_be (slice_of bs 24 28)) = length bs
    \<and> 28 + unat (u16_from_be [bs ! 30, bs ! 31]) = length bs
    \<and> integrity_tag c (bundle_plan bundle) (integrity_key bundle dir) (take (length bs - n) bs) n
        = Inr (drop (length bs - n) bs)"
proof -
  from assms obtain n first content icv expected where n: "integrity_len (bundle_plan bundle) = Inr n"
    and len: "n + 32 \<le> length bs"
    and split: "encrypted_body_from_encoded_message bs n = Inr (first, content, icv)"
    and tag: "integrity_tag c (bundle_plan bundle) (integrity_key bundle dir) (take (length bs - n) bs) n
        = Inr expected" "expected = icv"
    by (auto simp: decrypt_encrypted_payload_from_message_def Let_def result_simps split: if_split_asm)
  from split len have "icv = drop (length bs - n) bs"
    and "unat (u32_from_be (slice_of bs 24 28)) = length bs"
    and "28 + unat (u16_from_be [bs ! 30, bs ! 31]) = length bs"
    by (auto simp: encrypted_body_from_encoded_message_def Let_def split: if_split_asm)
  with n len tag show ?thesis by auto
qed

definition sample_bundle :: IkeSecretBundle where
  "sample_bundle = \<lparr>skeyseed = [], sk_d = [], sk_ai = [1, 2], sk_ar = [3], sk_ei = replicate 16 5,
     sk_er = replicate 16 6, sk_pi = [], sk_pr = [],
     bundle_plan = \<lparr>ike_prf = ''hmac_sha1'', ike_encryption = ''aes_cbc'', ike_integrity = ''hmac_sha1_96'',
       prf_output_bytes = 0, ike_encryption_key_bytes = 16, ike_integrity_key_bytes = 2,
       ike_total_secret_bytes = 36, ike_exported_secret_values = False, ike_plan_policy = []\<rparr>\<rparr>"

theorem encrypted_message_authentic_witness:
  "\<exists>payload bs. encode_encrypted_message sample_crypto \<lparr>header = header (new_request 1 IkeAuth 1 []),
        payloads = [payload]\<rparr> Nonce sample_bundle InitiatorToResponder = Inr bs
    \<and> integrity_tag sample_crypto (bundle_plan sample_bundle) [1, 2] (take (length bs - 12) bs) 12
        = Inr (drop (length bs - 12) bs)"
proof -
  have shape: "cipher_shape (bundle_plan sample_bundle) = Inr (16, 16)"
    and n: "integrity_len (bundle_plan sample_bundle) = Inr 12"
    by (simp_all add: sample_bundle_def cipher_shape_def integrity_len_def)
  obtain payload where built: "build_encrypted_payload sample_crypto (Some (replicate 16 7)) sample_bundle
      InitiatorToResponder [nonce [1, 2, 3]] = Inr payload" and len: "length (body payload) \<le> 65032"
    by (rule build_total [OF sample_crypto_laws shape n, of "replicate 16 7" InitiatorToResponder
        "[nonce [1, 2, 3]]"]) (simp_all add: sample_bundle_def nonce_def)
  have canonical: "list_all (\<lambda>p. canonical_payload_type (payload_type p)) [nonce [1, 2, 3]]"
    by (simp add: nonce_def canonical_payload_type_def payload_type_from_u8_def)
  have "payload_type payload = Encrypted"
    by (rule decrypt_built_body(2) [OF sample_crypto_laws _ built canonical]) simp
  from encode_total [OF sample_crypto_laws n this len]
  obtain bs where sent: "encode_encrypted_message sample_crypto \<lparr>header = header (new_request 1 IkeAuth 1 []),
      payloads = [payload]\<rparr> (first_type [nonce [1, 2, 3]]) sample_bundle InitiatorToResponder = Inr bs" by blast
  have "decrypt_encrypted_payload_from_message sample_crypto bs sample_bundle InitiatorToResponder
      = Inr [nonce [1, 2, 3]]"
    by (rule encrypted_message_opens [OF sample_crypto_laws _ built canonical sent]) simp
  from encrypted_message_authentic [OF this] n sent show ?thesis
    by (auto simp: first_type_def nonce_def sample_bundle_def)
qed

end
