(* ===== verification/Ike_Retransmit.thy ===== *)
theory Ike_Retransmit
  imports Rust_Prelude
begin

text \<open>
  The retransmission policy of an IKE exchange
  (\<open>connectivity/modems/ims/vowifi/ike_retransmit.rs\<close>): a pure step from the last state and the time
  elapsed since the exchange began.  The caller evaluates it repeatedly; a run is the sequence of
  decisions for a sequence of clock readings.
\<close>

datatype RetransmitDecision = Wait | Retransmit | GiveUp

fun retransmit_as_str :: "RetransmitDecision \<Rightarrow> string" where
  "retransmit_as_str Wait = ''wait''"
| "retransmit_as_str Retransmit = ''retransmit''"
| "retransmit_as_str GiveUp = ''give_up''"

record RetransmitPolicy =
  initial_timeout_ms :: u64
  max_timeout_ms :: u64
  max_attempts :: u8
  exchange_deadline_ms :: u64

definition retransmit_policy_default :: RetransmitPolicy where
  "retransmit_policy_default = \<lparr>initial_timeout_ms = 500, max_timeout_ms = 8000, max_attempts = 5,
     exchange_deadline_ms = 30000\<rparr>"

record RetransmitState =
  message_id :: u32
  attempts :: u8
  elapsed_ms :: u64
  next_timeout_ms :: u64
  decision :: string

definition initial_state :: "RetransmitPolicy \<Rightarrow> u32 \<Rightarrow> RetransmitState" where
  "initial_state p mid = \<lparr>message_id = mid, attempts = 0, elapsed_ms = 0,
     next_timeout_ms = initial_timeout_ms p, decision = retransmit_as_str Wait\<rparr>"

definition as_millis_u64 :: "Duration \<Rightarrow> u64" where
  "as_millis_u64 d = word_of_nat (min (d div 1000000) u64_max)"

definition evaluate :: "RetransmitPolicy \<Rightarrow> RetransmitState \<Rightarrow> Duration \<Rightarrow> RetransmitState" where
  "evaluate p s elapsed =
    (let ms = as_millis_u64 elapsed in
     if ms \<ge> exchange_deadline_ms p \<or> attempts s \<ge> max_attempts p
     then \<lparr>message_id = message_id s, attempts = attempts s, elapsed_ms = ms,
           next_timeout_ms = next_timeout_ms s, decision = retransmit_as_str GiveUp\<rparr>
     else if ms < next_timeout_ms s
     then \<lparr>message_id = message_id s, attempts = attempts s, elapsed_ms = ms,
           next_timeout_ms = next_timeout_ms s, decision = retransmit_as_str Wait\<rparr>
     else
       (let next_attempts = saturating_add (attempts s) 1
        in \<lparr>message_id = message_id s, attempts = next_attempts, elapsed_ms = ms,
            next_timeout_ms = min (saturating_mul (next_timeout_ms s) 2) (max_timeout_ms p),
            decision = retransmit_as_str (if next_attempts \<ge> max_attempts p then GiveUp else Retransmit)\<rparr>))"

section \<open>Runs\<close>

fun retransmit_run :: "RetransmitPolicy \<Rightarrow> RetransmitState \<Rightarrow> Duration list \<Rightarrow> string list" where
  "retransmit_run p s [] = []"
| "retransmit_run p s (d # ds) = (let s' = evaluate p s d in decision s' # retransmit_run p s' ds)"

lemma as_millis_mono: "a \<le> b \<Longrightarrow> as_millis_u64 a \<le> as_millis_u64 b"
proof -
  assume "a \<le> b"
  then have le: "min (a div 1000000) u64_max \<le> min (b div 1000000) u64_max"
    using div_le_mono [of a b 1000000] by simp
  have "unat (as_millis_u64 d) = min (d div 1000000) u64_max" for d
  proof -
    have "min (d div 1000000) u64_max < 2 ^ LENGTH(64)" by (simp add:)
    then show ?thesis unfolding as_millis_u64_def unat_of_nat by (rule mod_less)
  qed
  with le show ?thesis by (simp add: word_le_nat_alt)
qed

lemma saturating_succ: "a < b \<Longrightarrow> unat (saturating_add a (1 :: u8)) = unat a + 1"
proof -
  assume "a < b"
  then have "unat a < unat b" by (simp add: word_less_nat_alt)
  moreover have "(2 :: nat) ^ LENGTH(8) = 256" by simp
  ultimately have "unat a \<le> 254" using unsigned_less [of b, where 'a = nat] by linarith
  then show ?thesis by (simp add: unat_saturating_add)
qed

text \<open>Once the policy gives up it has passed the deadline or used up its attempts, and stays there.\<close>

lemma given_up_final:
  assumes "decision (evaluate p s d) = ''give_up''" and "d \<le> e"
  shows "decision (evaluate p (evaluate p s d) e) = ''give_up''"
  using assms as_millis_mono [OF assms(2)] by (auto simp: evaluate_def Let_def split: if_splits)

lemma given_up_run:
  assumes "decision (evaluate p s d) = ''give_up''" and "sorted (d # ds)"
  shows "set (retransmit_run p (evaluate p s d) ds) \<subseteq> {''give_up''}"
  using assms
proof (induction ds arbitrary: s d)
  case (Cons e ds)
  then have "decision (evaluate p (evaluate p s d) e) = ''give_up''" by (intro given_up_final) auto
  with Cons show ?case by (simp add: Let_def)
qed simp

lemma retransmit_count:
  "length (filter (\<lambda>x. x = ''retransmit'') (retransmit_run p s ds)) + unat (attempts s)
     \<le> max (unat (max_attempts p) - 1) (unat (attempts s))"
proof (induction ds arbitrary: s)
  case (Cons d ds)
  let ?s = "evaluate p s d"
  consider "decision ?s \<noteq> ''retransmit''" "unat (attempts ?s) = unat (attempts s)"
    | "decision ?s \<noteq> ''retransmit''" "unat (attempts ?s) = unat (attempts s) + 1"
        "unat (max_attempts p) \<le> unat (attempts ?s)"
    | "decision ?s = ''retransmit''" "unat (attempts ?s) = unat (attempts s) + 1"
        "unat (attempts ?s) < unat (max_attempts p)"
  proof (cases "as_millis_u64 d \<ge> exchange_deadline_ms p \<or> attempts s \<ge> max_attempts p \<or> as_millis_u64 d < next_timeout_ms s")
    case True
    then show ?thesis by (intro that(1)) (auto simp: evaluate_def Let_def)
  next
    case False
    then have succ: "unat (saturating_add (attempts s) 1) = unat (attempts s) + 1"
      by (intro saturating_succ [of _ "max_attempts p"]) auto
    show ?thesis
    proof (cases "saturating_add (attempts s) 1 \<ge> max_attempts p")
      case True
      with False succ show ?thesis by (intro that(2)) (auto simp: evaluate_def Let_def word_le_nat_alt)
    next
      case gt: False
      with False succ show ?thesis by (intro that(3)) (auto simp: evaluate_def Let_def word_le_nat_alt)
    qed
  qed
  then show ?case using Cons.IH [of ?s] by cases (auto simp: Let_def)
qed simp

text \<open>
  C36: An exchange ends.  Over any sequence of clock readings that does not go back, a message is
  retransmitted at most \<open>max_attempts - 1\<close> times, the first \<open>give_up\<close> is final, and every reading at or
  past the deadline gives up.
\<close>

theorem retransmit_bounded:
  assumes "sorted ds" and "run = retransmit_run p (initial_state p mid) ds"
  shows "length (filter (\<lambda>x. x = ''retransmit'') run) \<le> unat (max_attempts p) - 1
    \<and> set (dropWhile (\<lambda>x. x \<noteq> ''give_up'') run) \<subseteq> {''give_up''}
    \<and> (i < length ds \<and> exchange_deadline_ms p \<le> as_millis_u64 (ds ! i) \<longrightarrow> run ! i = ''give_up'')"
proof (intro conjI impI)
  show "length (filter (\<lambda>x. x = ''retransmit'') run) \<le> unat (max_attempts p) - 1"
    using retransmit_count [of p "initial_state p mid" ds] assms(2) by (simp add: initial_state_def)
  have "set (dropWhile (\<lambda>x. x \<noteq> ''give_up'') (retransmit_run p s ds)) \<subseteq> {''give_up''}" for s
    using assms(1)
  proof (induction ds arbitrary: s)
    case (Cons d ds)
    then show ?case using given_up_run [of p s d ds] by (simp add: Let_def)
  qed simp
  then show "set (dropWhile (\<lambda>x. x \<noteq> ''give_up'') run) \<subseteq> {''give_up''}" using assms(2) by simp
  have "retransmit_run p s ds ! i = ''give_up''"
    if "i < length ds" "exchange_deadline_ms p \<le> as_millis_u64 (ds ! i)" for s
    using that
  proof (induction ds arbitrary: s i)
    case (Cons d ds)
    then show ?case by (cases i) (simp_all add: Let_def evaluate_def)
  qed simp
  then show "run ! i = ''give_up''"
    if "i < length ds \<and> exchange_deadline_ms p \<le> as_millis_u64 (ds ! i)"
    using assms(2) that by simp
qed

theorem retransmit_bounded_witness:
  "retransmit_run retransmit_policy_default (initial_state retransmit_policy_default 7)
      [0, from_secs 1, from_secs 40] ! 2 = ''give_up''"
proof -
  have "exchange_deadline_ms retransmit_policy_default \<le> as_millis_u64 ([0, from_secs 1, from_secs 40] ! 2)"
    by (simp add: retransmit_policy_default_def as_millis_u64_def from_secs_def)
  moreover have "sorted [0, from_secs 1, from_secs 40]" by (simp add: from_secs_def)
  ultimately show ?thesis
    using retransmit_bounded [OF _ refl, of "[0, from_secs 1, from_secs 40]" retransmit_policy_default 7 2]
    by simp
qed

end
