(* ===== verification/Ike_Eap.thy ===== *)
theory Ike_Eap
  imports Rust_Prelude
begin

text \<open>
  The summary of an EAP packet that the exchange state keeps, \<open>ike_eap.rs\<close>: codes, EAP-AKA
  subtypes, the roles of the attributes, and the parser, with the text of its errors.
\<close>

unbundle bit_operations_syntax

datatype EapCode = EapRequest | EapResponse | EapSuccessCode | EapFailureCode | EapUnknownCode u8

definition eap_code_from_u8 :: "u8 \<Rightarrow> EapCode" where
  "eap_code_from_u8 v =
     (if v = 1 then EapRequest else if v = 2 then EapResponse else if v = 3 then EapSuccessCode
      else if v = 4 then EapFailureCode else EapUnknownCode v)"

fun eap_code_as_str :: "EapCode \<Rightarrow> string" where
  "eap_code_as_str EapRequest = ''request''"
| "eap_code_as_str EapResponse = ''response''"
| "eap_code_as_str EapSuccessCode = ''success''"
| "eap_code_as_str EapFailureCode = ''failure''"
| "eap_code_as_str (EapUnknownCode _) = ''unknown''"

datatype EapAkaSubtype =
    AkaChallenge | AkaAuthenticationReject | AkaSynchronizationFailure | AkaIdentity
  | AkaNotification | AkaReauthentication | AkaClientError | AkaUnknownSubtype u8

definition aka_subtype_from_u8 :: "u8 \<Rightarrow> EapAkaSubtype" where
  "aka_subtype_from_u8 v =
     (if v = 1 then AkaChallenge else if v = 2 then AkaAuthenticationReject
      else if v = 4 then AkaSynchronizationFailure else if v = 5 then AkaIdentity
      else if v = 12 then AkaNotification else if v = 13 then AkaReauthentication
      else if v = 14 then AkaClientError else AkaUnknownSubtype v)"

fun aka_subtype_as_str :: "EapAkaSubtype \<Rightarrow> string" where
  "aka_subtype_as_str AkaChallenge = ''challenge''"
| "aka_subtype_as_str AkaAuthenticationReject = ''authentication_reject''"
| "aka_subtype_as_str AkaSynchronizationFailure = ''synchronization_failure''"
| "aka_subtype_as_str AkaIdentity = ''identity''"
| "aka_subtype_as_str AkaNotification = ''notification''"
| "aka_subtype_as_str AkaReauthentication = ''reauthentication''"
| "aka_subtype_as_str AkaClientError = ''client_error''"
| "aka_subtype_as_str (AkaUnknownSubtype _) = ''unknown''"

record EapAkaAttributeSummary =
  summary_attribute_type :: u8
  attribute_role_name :: string
  attribute_units :: u8
  attribute_value_bytes :: nat
  attribute_value_redacted :: bool

record EapAkaPacketSummary =
  eap_code :: string
  eap_identifier :: u8
  eap_method :: string
  eap_subtype :: string
  eap_attribute_count :: nat
  eap_attributes :: "EapAkaAttributeSummary list"
  eap_raw_len :: nat
  eap_policy :: string

datatype EapAkaError =
    EapAkaTruncated | EapAkaLengthMismatch nat nat | NotAkaMethod u8 | MissingSubtype
  | EapAkaTruncatedAttribute | EapAkaInvalidAttributeLength u8 u8

definition show_word :: "'a::len word \<Rightarrow> string" where
  "show_word w = show_nat (unat w)"

fun display_eap_aka_error :: "EapAkaError \<Rightarrow> string" where
  "display_eap_aka_error EapAkaTruncated = ''truncated EAP packet''"
| "display_eap_aka_error (EapAkaLengthMismatch declared actual) =
     ''EAP length mismatch declared='' @ show_nat declared @ '' actual='' @ show_nat actual"
| "display_eap_aka_error (NotAkaMethod m) = ''unsupported EAP method '' @ show_word m"
| "display_eap_aka_error MissingSubtype = ''missing EAP-AKA subtype''"
| "display_eap_aka_error EapAkaTruncatedAttribute = ''truncated EAP-AKA attribute''"
| "display_eap_aka_error (EapAkaInvalidAttributeLength t u) =
     ''invalid EAP-AKA attribute length type='' @ show_word t @ '' units='' @ show_word u"

definition attribute_role :: "u8 \<Rightarrow> string" where
  "attribute_role t =
     (if t = 1 then ''challenge_input'' else if t = 2 then ''authenticator_input''
      else if t = 3 then ''subscriber_response'' else if t = 4 then ''sync_failure_proof''
      else if t = 6 then ''padding'' else if t = 7 then ''client_nonce''
      else if t = 10 then ''permanent_identity_request'' else if t = 11 then ''message_authenticator''
      else if t = 12 then ''notification_code'' else if t = 13 then ''any_identity_request''
      else if t = 14 then ''identity_blob'' else if t = 22 then ''counter''
      else if t = 23 then ''counter_too_small'' else if t = 24 then ''nonce_s''
      else if t = 101 then ''checkcode'' else if t = 102 then ''encrypted_data''
      else if t = 135 then ''result_indication'' else ''unknown'')"

function summarize_attributes :: "bytes \<Rightarrow> EapAkaError + EapAkaAttributeSummary list" where
  "summarize_attributes input =
     (if input = [] then Inr []
      else if length input < 4 then Inl EapAkaTruncatedAttribute
      else if input ! 1 = 0 then Inl (EapAkaInvalidAttributeLength (input ! 0) (input ! 1))
      else
        let len = unat (input ! 1) * 4
        in if len > length input then Inl EapAkaTruncatedAttribute
           else rbind (summarize_attributes (drop len input)) (\<lambda>rest.
             Inr (\<lparr>summary_attribute_type = input ! 0, attribute_role_name = attribute_role (input ! 0),
                   attribute_units = input ! 1, attribute_value_bytes = len - 4,
                   attribute_value_redacted = True\<rparr> # rest)))"
  by pat_completeness auto
termination
  by (relation "measure length") (auto simp: unat_gt_0)

declare summarize_attributes.simps [simp del]

definition parse_eap_aka_summary :: "bytes \<Rightarrow> EapAkaError + EapAkaPacketSummary" where
  "parse_eap_aka_summary input =
     (if length input < 4 then Inl EapAkaTruncated
      else
        let code = eap_code_from_u8 (input ! 0);
            declared = unat (u16_from_be (slice_of input 2 4))
        in if declared \<noteq> length input then Inl (EapAkaLengthMismatch declared (length input))
           else if code = EapSuccessCode \<or> code = EapFailureCode then
             Inr \<lparr>eap_code = eap_code_as_str code, eap_identifier = input ! 1, eap_method = ''none'',
               eap_subtype = ''none'', eap_attribute_count = 0, eap_attributes = [],
               eap_raw_len = length input, eap_policy = ''raw_eap_not_serialized''\<rparr>
           else if length input < 8 then Inl MissingSubtype
           else if input ! 4 \<noteq> 23 then Inl (NotAkaMethod (input ! 4))
           else rbind (summarize_attributes (drop 8 input)) (\<lambda>attributes.
             Inr \<lparr>eap_code = eap_code_as_str code, eap_identifier = input ! 1, eap_method = ''aka'',
               eap_subtype = aka_subtype_as_str (aka_subtype_from_u8 (input ! 5)),
               eap_attribute_count = length attributes, eap_attributes = attributes,
               eap_raw_len = length input, eap_policy = ''rand_autn_res_ck_ik_never_serialized''\<rparr>))"

end
