(* ===== verification/Ike_Events.thy ===== *)
theory Ike_Events
  imports Ike_Codec
begin

text \<open>
  The control events of an IKE message, \<open>ike_events.rs\<close>: the notifications and deletions, their names
  and the action each asks of the exchange state.
\<close>

unbundle bit_operations_syntax

datatype IkeControlEventKind = NotifyEvent | DeleteEvent

fun event_kind_as_str :: "IkeControlEventKind \<Rightarrow> string" where
  "event_kind_as_str NotifyEvent = ''notify''"
| "event_kind_as_str DeleteEvent = ''delete''"

record IkeControlEvent =
  event_kind :: string
  control_message_id :: u32
  event_protocol_id :: u8
  event_spi_size :: u8
  event_spi_present :: bool
  event_notify_type :: "u16 option"
  event_notify_name :: "string option"
  event_delete_spi_count :: "u16 option"
  event_action :: string
  event_policy :: string

datatype IkeControlEventError =
  MissingControlPayload | TruncatedNotify | TruncatedDelete | InvalidDeleteLength

fun display_control_event_error :: "IkeControlEventError \<Rightarrow> string" where
  "display_control_event_error MissingControlPayload = ''IKE message has no notify or delete payload''"
| "display_control_event_error TruncatedNotify = ''truncated IKE notify payload''"
| "display_control_event_error TruncatedDelete = ''truncated IKE delete payload''"
| "display_control_event_error InvalidDeleteLength = ''invalid IKE delete payload length''"

definition private_notify :: "u16 \<Rightarrow> bool" where
  "private_notify t \<longleftrightarrow> 8192 \<le> t \<and> t \<le> 16383 \<or> 40960 \<le> t"

definition notify_name :: "u16 \<Rightarrow> string" where
  "notify_name t =
     (if t = 1 then ''unsupported_critical_payload'' else if t = 4 then ''invalid_ike_spi''
      else if t = 5 then ''invalid_major_version'' else if t = 7 then ''invalid_syntax''
      else if t = 9 then ''invalid_message_id'' else if t = 11 then ''invalid_spi''
      else if t = 14 then ''no_proposal_chosen'' else if t = 17 then ''invalid_ke_payload''
      else if t = 24 then ''authentication_failed'' else if t = 34 then ''single_pair_required''
      else if t = 35 then ''no_additional_sas'' else if t = 36 then ''internal_address_failure''
      else if t = 37 then ''failed_cp_required'' else if t = 38 then ''ts_unacceptable''
      else if t = 39 then ''invalid_selectors'' else if t = 40 then ''unacceptable_addresses''
      else if t = 41 then ''unexpected_nat_detected'' else if t = 43 then ''temporary_failure''
      else if t = 44 then ''child_sa_not_found'' else if t = 45 then ''invalid_group_id''
      else if t = 46 then ''authorization_failed'' else if t = 47 then ''state_not_found''
      else if t = 16384 then ''initial_contact'' else if t = 16385 then ''set_window_size''
      else if t = 16386 then ''additional_ts_possible'' else if t = 16387 then ''ipcomp_supported''
      else if t = 16388 then ''nat_detection_source_ip''
      else if t = 16389 then ''nat_detection_destination_ip''
      else if t = 16390 then ''cookie'' else if t = 16391 then ''use_transport_mode''
      else if t = 16393 then ''rekey_sa'' else if t = 16403 then ''authentication_lifetime''
      else if t = 16417 then ''eap_only_authentication''
      else if t = 16430 then ''ikev2_fragmentation_supported''
      else if private_notify t then ''private_or_extension''
      else ''unknown'')"

definition action_for_notify :: "u16 \<Rightarrow> string" where
  "action_for_notify t =
     (if t \<in> {1, 4, 5, 7, 9, 11, 14, 17, 24, 45, 46, 47} then ''fail_exchange''
      else if t \<in> {34, 35, 36, 37, 38, 39, 40, 41, 43} then ''child_sa_negotiation_failed''
      else if t = 44 then ''mark_child_sa_missing''
      else if t = 16393 then ''schedule_rekey''
      else if t = 16403 then ''reauth_required''
      else if t \<in> {16384, 16385, 16386, 16387, 16388, 16389, 16390, 16391, 16417, 16430}
      then ''record_capability''
      else ''record_only'')"

definition parse_notify_event :: "u32 \<Rightarrow> bytes \<Rightarrow> IkeControlEventError + IkeControlEvent" where
  "parse_notify_event mid content =
     (if length content < 4 then Inl TruncatedNotify
      else
        let spi_len = content ! 1;
            ntype = u16_from_be (slice_of content 2 4)
        in if length content < 4 + unat spi_len then Inl TruncatedNotify
           else Inr \<lparr>event_kind = event_kind_as_str NotifyEvent, control_message_id = mid,
             event_protocol_id = content ! 0, event_spi_size = spi_len, event_spi_present = (spi_len > 0),
             event_notify_type = Some ntype, event_notify_name = Some (notify_name ntype),
             event_delete_spi_count = None, event_action = action_for_notify ntype,
             event_policy = ''spi_and_notify_data_values_not_serialized''\<rparr>)"

definition parse_delete_event :: "u32 \<Rightarrow> bytes \<Rightarrow> IkeControlEventError + IkeControlEvent" where
  "parse_delete_event mid content =
     (if length content < 4 then Inl TruncatedDelete
      else
        let spi_len = content ! 1;
            spi_count = u16_from_be (slice_of content 2 4)
        in if length content \<noteq> 4 + unat spi_len * unat spi_count then Inl InvalidDeleteLength
           else Inr \<lparr>event_kind = event_kind_as_str DeleteEvent, control_message_id = mid,
             event_protocol_id = content ! 0, event_spi_size = spi_len,
             event_spi_present = (spi_len > 0 \<and> spi_count > 0), event_notify_type = None,
             event_notify_name = None, event_delete_spi_count = Some spi_count,
             event_action = ''teardown_requested'', event_policy = ''spi_values_not_serialized''\<rparr>)"

definition parse_control_event :: "IkeMessage \<Rightarrow> IkeControlEventError + IkeControlEvent" where
  "parse_control_event message =
     (case find (\<lambda>p. payload_type p = Notify) (payloads message) of
        Some p \<Rightarrow> parse_notify_event (message_id (header message)) (body p)
      | None \<Rightarrow>
          (case find (\<lambda>p. payload_type p = Delete) (payloads message) of
             Some p \<Rightarrow> parse_delete_event (message_id (header message)) (body p)
           | None \<Rightarrow> Inl MissingControlPayload))"

end
