(* ===== verification/Ip_Packet.thy ===== *)
theory Ip_Packet
  imports Rust_Prelude
begin

text \<open>
  IP packets as the ESP gateway handles them (\<open>vowifi/tun_gateway.rs\<close>): parsing IPv4 and IPv6
  headers, replacing the payload of a parsed packet, and the Internet checksums of the IPv4 header
  and of UDP.  The lemmas say that a rebuilt packet parses to the new payload with the addresses kept
  and that the IPv4 header checksum verifies at the receiver.
\<close>

section \<open>Fields of an octet buffer\<close>

definition be16_at :: "bytes \<Rightarrow> nat \<Rightarrow> u16" where
  "be16_at p i = u16_from_be [p ! i, p ! (i + 1)]"

definition be32_at :: "bytes \<Rightarrow> nat \<Rightarrow> u32" where
  "be32_at p i = u32_from_be [p ! i, p ! (i + 1), p ! (i + 2), p ! (i + 3)]"

text \<open>\<open>out[i..i + n].copy_from_slice(ys)\<close>.\<close>

definition put :: "bytes \<Rightarrow> nat \<Rightarrow> bytes \<Rightarrow> bytes" where
  "put xs i ys = take i xs @ ys @ drop (i + length ys) xs"

definition ip_nibble :: "bytes \<Rightarrow> u8 option" where
  "ip_nibble p = (case p of [] \<Rightarrow> None | b # _ \<Rightarrow> Some (drop_bit 4 b))"

section \<open>Parsing\<close>

datatype IpAddr = V4 bytes | V6 bytes

fun is_ipv4 :: "IpAddr \<Rightarrow> bool" where
  "is_ipv4 (V4 a) = True"
| "is_ipv4 (V6 a) = False"

record ParsedIpPacket =
  ip_version :: u8
  header_len :: nat
  payload_start :: nat
  payload_end :: nat
  ip_next_header :: u8
  ip_src :: IpAddr
  ip_dst :: IpAddr

definition ihl_of :: "bytes \<Rightarrow> nat" where
  "ihl_of p = unat (p ! 0 AND 0x0f) * 4"

definition parse_v4 :: "bytes \<Rightarrow> string + ParsedIpPacket" where
  "parse_v4 packet =
    (if length packet < 20 then Inl ''ims_esp_ipv4_packet_too_short''
     else
       let ihl = ihl_of packet
       in if ihl < 20 \<or> length packet < ihl then Inl ''ims_esp_ipv4_header_invalid''
          else
            let total_len = unat (be16_at packet 2)
            in if total_len < ihl \<or> length packet < total_len then Inl ''ims_esp_ipv4_length_invalid''
               else Inr \<lparr>ip_version = 4, header_len = ihl, payload_start = ihl, payload_end = total_len,
                         ip_next_header = packet ! 9, ip_src = V4 (slice_of packet 12 16),
                         ip_dst = V4 (slice_of packet 16 20)\<rparr>)"

definition parse_v6 :: "bytes \<Rightarrow> string + ParsedIpPacket" where
  "parse_v6 packet =
    (if length packet < 40 then Inl ''ims_esp_ipv6_packet_too_short''
     else
       let payload_end = 40 + unat (be16_at packet 4)
       in if length packet < payload_end then Inl ''ims_esp_ipv6_length_invalid''
          else Inr \<lparr>ip_version = 6, header_len = 40, payload_start = 40, payload_end = payload_end,
                    ip_next_header = packet ! 6, ip_src = V6 (slice_of packet 8 24),
                    ip_dst = V6 (slice_of packet 24 40)\<rparr>)"

definition parse_ip :: "bytes \<Rightarrow> string + ParsedIpPacket" where
  "parse_ip packet =
    (if ip_nibble packet = Some 4 then parse_v4 packet
     else if ip_nibble packet = Some 6 then parse_v6 packet
     else Inl ''ims_esp_ip_packet_unsupported'')"

definition ip_payload :: "ParsedIpPacket \<Rightarrow> bytes \<Rightarrow> bytes" where
  "ip_payload ip packet = slice_of packet (payload_start ip) (payload_end ip)"

definition transport_ports :: "bytes \<Rightarrow> (u16 \<times> u16) option" where
  "transport_ports payload =
    (if 4 \<le> length payload then Some (be16_at payload 0, be16_at payload 2) else None)"

definition inner_next_header :: "bytes \<Rightarrow> u8 option" where
  "inner_next_header packet =
    (if ip_nibble packet = Some 4 then Some 4 else if ip_nibble packet = Some 6 then Some 41 else None)"

section \<open>Checksums\<close>

text \<open>The 16-bit words of a buffer, an odd last octet padded on the right; sums wrap at 32 bits.\<close>

fun be_words :: "bytes \<Rightarrow> u32 list" where
  "be_words (a # b # rest) = ucast (u16_from_be [a, b]) # be_words rest"
| "be_words [a] = [push_bit 8 (ucast a)]"
| "be_words [] = []"

definition wrapping_sum :: "u32 list \<Rightarrow> u32" where
  "wrapping_sum ws = foldl (+) 0 ws"

lemma carry_decreases:
  assumes "drop_bit 16 s \<noteq> (0 :: u32)"
  shows "unat ((s AND 0xffff) + drop_bit 16 s) = unat s mod 65536 + unat s div 65536"
    and "unat s mod 65536 + unat s div 65536 < unat s" and "unat s div 65536 \<noteq> 0"
proof -
  have low: "s AND 0xffff = take_bit 16 s" by (simp add: take_bit_eq_mask mask_eq_exp_minus_1)
  have lows: "unat (s AND 0xffff) = unat s mod 65536"
    unfolding low by (simp only: unsigned_take_bit_eq) (simp add: take_bit_eq_mod)
  have high: "unat (drop_bit 16 s) = unat s div 65536"
    by (simp only: unat_drop_bit_eq) (simp add: drop_bit_eq_div)
  have s: "unat s div 65536 < 65536" using unat_u32_less [of s] by (intro less_mult_imp_div_less) linarith
  have "unat s mod 65536 + unat s div 65536 < 2 ^ LENGTH(32)" using s by simp
  then show "unat ((s AND 0xffff) + drop_bit 16 s) = unat s mod 65536 + unat s div 65536"
    by (simp only: unat_word_ariths lows high mod_less)
  show "unat s div 65536 \<noteq> 0" using assms high by (metis unat_eq_zero)
  then show "unat s mod 65536 + unat s div 65536 < unat s"
    using div_mult_mod_eq [of "unat s" 65536] by linarith
qed

function fold_carry :: "u32 \<Rightarrow> u32" where
  "fold_carry s = (if drop_bit 16 s \<noteq> 0 then fold_carry ((s AND 0xffff) + drop_bit 16 s) else s)"
  by auto
termination by (relation "measure unat") (auto simp: carry_decreases)

declare fold_carry.simps [simp del]

definition ipv4_header_checksum :: "bytes \<Rightarrow> u16" where
  "ipv4_header_checksum header = NOT (ucast (fold_carry (wrapping_sum (be_words header))))"

text \<open>\<open>u16::to_be\<close>, which depends on the host's byte order: it swaps the octets on a little-endian one.\<close>

definition u16_to_be :: "bool \<Rightarrow> u16 \<Rightarrow> u16" where
  "u16_to_be little_endian w = (if little_endian then push_bit 8 w OR drop_bit 8 w else w)"

fun pseudo_header :: "IpAddr \<Rightarrow> IpAddr \<Rightarrow> nat \<Rightarrow> u32 list" where
  "pseudo_header (V4 s) (V4 d) n = be_words s @ be_words d @ be_words [0, 17] @ be_words (u16_be (word_of_nat n))"
| "pseudo_header (V6 s) (V6 d) n =
    be_words s @ be_words d @ be_words (u32_be (word_of_nat n)) @ be_words [0, 0, 0, 0, 0, 0, 0, 17]"
| "pseudo_header _ _ n = []"

definition udp_checksum :: "bool \<Rightarrow> IpAddr \<Rightarrow> IpAddr \<Rightarrow> bytes \<Rightarrow> u16" where
  "udp_checksum little_endian s d udp_packet =
     u16_to_be little_endian (NOT (ucast (fold_carry
       (wrapping_sum (pseudo_header s d (length udp_packet) @ be_words udp_packet)))))"

section \<open>Rebuilding\<close>

definition with_checksum :: "bytes \<Rightarrow> bytes" where
  "with_checksum header =
    (let h = put header 10 [0, 0] in put h 10 (u16_be (ipv4_header_checksum h)))"

definition rebuild_v4 :: "ParsedIpPacket \<Rightarrow> bytes \<Rightarrow> u8 \<Rightarrow> bytes \<Rightarrow> string + bytes" where
  "rebuild_v4 ip packet nh payload =
    (let total_len = header_len ip + length payload
     in if total_len \<le> u16_max
        then Inr (with_checksum (put (put (take (header_len ip) packet) 2 (u16_be (word_of_nat total_len))) 9 [nh])
               @ payload)
        else Inl ''ims_esp_ipv4_length_invalid'')"

definition rebuild_v6 :: "bytes \<Rightarrow> u8 \<Rightarrow> bytes \<Rightarrow> string + bytes" where
  "rebuild_v6 packet nh payload =
    (if u16_max < length payload then Inl ''ims_esp_ipv6_length_invalid''
     else Inr (put (put (take 40 packet) 4 (u16_be (word_of_nat (length payload)))) 6 [nh] @ payload))"

definition rebuild_with_payload :: "ParsedIpPacket \<Rightarrow> bytes \<Rightarrow> u8 \<Rightarrow> bytes \<Rightarrow> string + bytes" where
  "rebuild_with_payload ip packet nh payload =
    (if ip_version ip = 4 then rebuild_v4 ip packet nh payload
     else if ip_version ip = 6 then rebuild_v6 packet nh payload
     else Inl ''ims_esp_ip_packet_unsupported'')"

section \<open>Reading back what was put\<close>

lemma length_put [simp]: "i + length ys \<le> length xs \<Longrightarrow> length (put xs i ys) = length xs"
  by (simp add: put_def)

lemma nth_put:
  assumes "i + length ys \<le> length xs" and "j < length xs"
  shows "put xs i ys ! j = (if i \<le> j \<and> j < i + length ys then ys ! (j - i) else xs ! j)"
  using assms by (auto simp: put_def nth_append min_def)

lemma slice_put_other:
  assumes "i + length ys \<le> length xs" and "b \<le> length xs" and "b \<le> i \<or> i + length ys \<le> a"
  shows "slice_of (put xs i ys) a b = slice_of xs a b"
proof (rule nth_equalityI)
  show "length (slice_of (put xs i ys) a b) = length (slice_of xs a b)" using assms by simp
  fix j assume j: "j < length (slice_of (put xs i ys) a b)"
  with assms have "a + j < b" by simp
  with j assms show "slice_of (put xs i ys) a b ! j = slice_of xs a b ! j"
    by (auto simp: slice_of_def nth_put)
qed

lemma word_of_nat_unat_u16: "(word_of_nat (unat w) :: u16) = w"
  by simp

lemma two_octets: "length bs = 2 \<Longrightarrow> [bs ! 0, bs ! 1] = bs"
  by (auto simp: list_eq_iff_nth_eq less_Suc_eq numeral_2_eq_2)

lemma be16_at_put:
  assumes "i + 2 \<le> length xs"
  shows "be16_at (put xs i (u16_be w)) i = w"
proof -
  have "[put xs i (u16_be w) ! i, put xs i (u16_be w) ! (i + 1)] = u16_be w"
    using assms two_octets [of "u16_be w"] by (simp add: nth_put)
  then show ?thesis by (simp add: be16_at_def)
qed

lemma be16_at_put_other:
  assumes "i + length ys \<le> length xs" and "j + 1 < length xs" and "j + 1 < i \<or> i + length ys \<le> j"
  shows "be16_at (put xs i ys) j = be16_at xs j"
  using assms by (auto simp: be16_at_def nth_put)

lemma be16_at_append: "i + 1 < length xs \<Longrightarrow> be16_at (xs @ ys) i = be16_at xs i"
  by (simp add: be16_at_def nth_append)

lemma ip_nibble_nth: "ip_nibble p = (if p = [] then None else Some (drop_bit 4 (p ! 0)))"
  by (cases p) (simp_all add: ip_nibble_def)

lemmas put_simps = nth_put slice_put_other be16_at_put be16_at_put_other

section \<open>The Internet checksum\<close>

text \<open>What a receiver checks (RFC 1071): the one's-complement sum over everything, the checksum field
  included, is all ones.\<close>

definition verifies :: "u32 list \<Rightarrow> bool" where
  "verifies ws \<longleftrightarrow> fold_carry (wrapping_sum ws) = 0xffff"

abbreviation word_total :: "u32 list \<Rightarrow> nat" where
  "word_total ws \<equiv> sum_list (map unat ws)"

lemma fold_carry_facts:
  "unat (fold_carry s) < 65536 \<and> unat (fold_carry s) mod 65535 = unat s mod 65535
    \<and> (fold_carry s = 0 \<longleftrightarrow> s = 0)"
proof (induction s rule: fold_carry.induct)
  case (1 s)
  show ?case
  proof (cases "drop_bit 16 s = 0")
    case True
    have "unat s div 65536 = 0"
      using arg_cong [OF True, of unat] by (simp only: unat_drop_bit_eq) (simp add: drop_bit_eq_div)
    then have "unat s < 65536" by (metis div_eq_0_iff zero_neq_numeral)
    with True show ?thesis by (simp add: fold_carry.simps [of s])
  next
    case False
    let ?t = "(s AND 0xffff) + drop_bit 16 s"
    have t: "unat ?t = unat s mod 65536 + unat s div 65536" by (rule carry_decreases(1) [OF False])
    have "unat s = unat ?t + 65535 * (unat s div 65536)"
      using div_mult_mod_eq [of "unat s" 65536] t by linarith
    then have "unat ?t mod 65535 = unat s mod 65535" by (metis mod_mult_self2)
    moreover have "unat s div 65536 \<noteq> 0" by (rule carry_decreases(3) [OF False])
    then have "?t \<noteq> 0 \<and> s \<noteq> 0" using t by (metis add_is_0 div_0 unat_0)
    ultimately show ?thesis using "1.IH" [OF False] False by (simp add: fold_carry.simps [of s])
  qed
qed

lemma wrapping_sum_eq: "wrapping_sum ws = sum_list ws"
proof -
  have "foldl (+) a ws = a + sum_list ws" for a by (induction ws arbitrary: a) (simp_all add: add.assoc)
  then show ?thesis by (simp add: wrapping_sum_def)
qed

lemma unat_wrapping_sum: "word_total ws \<le> u32_max \<Longrightarrow> unat (wrapping_sum ws) = word_total ws"
  unfolding wrapping_sum_eq
proof (induction ws)
  case (Cons w ws)
  then have "unat (sum_list ws) = word_total ws" by simp
  with Cons.prems show ?case by (simp add: unat_word_ariths)
qed simp

lemma unat_not_u16: "unat (NOT w) = 65535 - unat (w :: u16)"
proof -
  have "NOT w = - 1 - w" by (simp add: not_eq_complement)
  moreover have "unat (- 1 - w) = unat (- 1 :: u16) - unat w" by (rule unat_sub) simp
  ultimately show ?thesis by (simp add: unat_minus_one_max)
qed

lemma unat_multiple: "(n :: nat) < 65536 \<Longrightarrow> n mod 65535 = 0 \<Longrightarrow> n \<noteq> 0 \<Longrightarrow> n = 65535"
  using le_mod_geq [of 65535 n] mod_less [of n 65535] by (cases "n < 65535") auto

lemma unat_ucast_16: "unat (ucast (w :: u32) :: u16) = unat w mod 65536"
  by (simp add: unsigned_ucast_eq take_bit_eq_mod)

lemma unat_ucast_32: "unat (ucast (w :: u16) :: u32) = unat w"
  using unat_u16_less [of w] by (simp add: unsigned_ucast_eq take_bit_eq_mod del: unat_u16_less)

lemma checksum_verifies:
  assumes "word_total (A @ B) + 65535 \<le> u32_max"
    and "c = NOT (ucast (fold_carry (wrapping_sum (A @ B))) :: u16)"
  shows "verifies (A @ ucast c # B)"
proof -
  let ?s = "wrapping_sum (A @ B)" and ?t = "wrapping_sum (A @ ucast c # B)"
  have small: "unat (fold_carry ?s) < 65536" using fold_carry_facts by blast
  have c: "unat c = 65535 - unat (fold_carry ?s)"
    using small by (simp add: assms(2) unat_not_u16 unat_ucast_16)
  have t: "unat ?t = unat ?s + unat c"
    using assms(1) unat_wrapping_sum [of "A @ B"] unat_wrapping_sum [of "A @ ucast c # B"]
      unat_u16_less [of c] by (simp add: unat_ucast_32)
  have "(unat (fold_carry ?s) + unat c) mod 65535 = unat ?t mod 65535"
    using fold_carry_facts [of ?s] t by (metis mod_add_left_eq)
  moreover have "unat (fold_carry ?s) + unat c = 65535" using c small by linarith
  ultimately have "unat (fold_carry ?t) mod 65535 = 0" using fold_carry_facts [of ?t] by simp
  moreover have "?t \<noteq> 0"
  proof
    assume "?t = 0"
    then have "unat ?s = 0" and "unat c = 0" using t by simp_all
    then have "fold_carry ?s = 0" using fold_carry_facts [of ?s] by (metis unat_eq_zero)
    with c \<open>unat c = 0\<close> show False by simp
  qed
  ultimately have "unat (fold_carry ?t) = 65535"
    using fold_carry_facts [of ?t] unat_multiple by (metis unat_eq_zero)
  then have "fold_carry ?t = word_of_nat 65535" by (simp add: word_unat_eq_iff)
  then show ?thesis by (simp add: verifies_def)
qed


lemma be_words_append: "even (length xs) \<Longrightarrow> be_words (xs @ ys) = be_words xs @ be_words ys"
  by (induction xs rule: be_words.induct) auto

lemma be_words_u16: "be_words (u16_be w) = [ucast w]"
  by (metis u16_be_Cons be16.from_to_be be_words.simps(1,3))

lemma word_total_bound: "word_total (be_words bs) \<le> 65535 * length bs"
proof (induction bs rule: be_words.induct)
  case (1 a b rest)
  then show ?case using unat_u16_less [of "u16_from_be [a, b]"] by (simp add: unat_ucast_32 del: unat_u16_less)
next
  case (2 a)
  have "push_bit 8 (ucast a :: u32) = word_of_nat (unat a * 256)"
    by (simp add: push_bit_eq_mult)
  moreover have "unat a * 256 \<le> 65535" using unat_u8_le [of a] by linarith
  ultimately have "unat (push_bit 8 (ucast a :: u32)) = unat a * 256"
    by (simp only: unat_of_nat) simp
  with \<open>unat a * 256 \<le> 65535\<close> show ?case by (simp only: be_words.simps) simp
qed simp

text \<open>The header the code completes verifies, whatever its other fields.\<close>

lemma with_checksum_verifies:
  assumes "12 \<le> length h" and "even (length h)" and "length h \<le> u16_max - 1"
  shows "verifies (be_words (with_checksum h))"
proof -
  let ?A = "be_words (take 10 h)" and ?B = "be_words (drop 12 h)"
  have split: "be_words (put h 10 ys) = ?A @ be_words ys @ ?B" if "length ys = 2" for ys
    using assms that by (simp add: put_def be_words_append)
  define c where "c = ipv4_header_checksum (put h 10 [0, 0])"
  have zero: "wrapping_sum (be_words (put h 10 [0, 0])) = wrapping_sum (?A @ ?B)"
    by (simp add: split wrapping_sum_eq u16_from_be_def be_to_nat_def)
  have put2: "put (put h 10 [0, 0]) 10 ys = put h 10 ys" if "length ys = 2" for ys
    using assms(1) that by (simp add: put_def)
  have "word_total ?A + word_total ?B \<le> 65535 * length (take 10 h) + 65535 * length (drop 12 h)"
    by (intro add_mono word_total_bound)
  also have "\<dots> + 65535 \<le> u32_max" using assms by simp
  finally have "verifies (?A @ ucast c # ?B)"
    using zero by (intro checksum_verifies) (simp_all add: c_def ipv4_header_checksum_def)
  then show ?thesis
    by (simp add: with_checksum_def Let_def put2 split be_words_u16 c_def)
qed

lemma length_with_checksum [simp]: "12 \<le> length h \<Longrightarrow> length (with_checksum h) = length h"
  by (simp add: with_checksum_def Let_def)

lemma nth_with_checksum:
  assumes "12 \<le> length h" and "j < length h" and "j \<noteq> 10" and "j \<noteq> 11"
  shows "with_checksum h ! j = h ! j"
  using assms by (auto simp: with_checksum_def Let_def nth_put)

lemma slice_with_checksum:
  assumes "12 \<le> length h" and "b \<le> length h" and "12 \<le> a"
  shows "slice_of (with_checksum h) a b = slice_of h a b"
  using assms by (simp add: with_checksum_def Let_def slice_put_other)


lemma with_checksum_cong:
  assumes "length h = length g" and "12 \<le> length g" and "\<And>j. j < length g \<Longrightarrow> j \<noteq> 10 \<Longrightarrow> j \<noteq> 11 \<Longrightarrow> h ! j = g ! j"
  shows "with_checksum h = with_checksum g"
proof -
  have "put h 10 [0, 0] = put g 10 [0, 0]"
    using assms by (intro nth_equalityI) (auto simp: nth_put)
  then show ?thesis by (simp add: with_checksum_def)
qed

section \<open>Rebuilt packets\<close>

lemma parse_v4_facts:
  assumes "parse_ip packet = Inr ip" and "ip_version ip = 4"
  shows "ip_nibble packet = Some 4" "20 \<le> ihl_of packet" "ihl_of packet \<le> unat (be16_at packet 2)"
    "unat (be16_at packet 2) \<le> length packet" "ihl_of packet \<le> 60"
    "ip = \<lparr>ip_version = 4, header_len = ihl_of packet, payload_start = ihl_of packet,
       payload_end = unat (be16_at packet 2), ip_next_header = packet ! 9,
       ip_src = V4 (slice_of packet 12 16), ip_dst = V4 (slice_of packet 16 20)\<rparr>"
proof -
  have "unat (packet ! 0 AND 0x0f) \<le> unat (0x0f :: u8)"
    using word_and_le1 [of "packet ! 0" "0x0f"] by (simp only: word_le_nat_alt)
  then show "ihl_of packet \<le> 60" by (simp add: ihl_of_def)
qed (use assms in \<open>auto simp: parse_ip_def parse_v4_def parse_v6_def Let_def split: if_splits\<close>)

lemma parse_v6_facts:
  assumes "parse_ip packet = Inr ip" and "ip_version ip \<noteq> 4"
  shows "ip_nibble packet = Some 6" "40 + unat (be16_at packet 4) \<le> length packet"
    "ip = \<lparr>ip_version = 6, header_len = 40, payload_start = 40, payload_end = 40 + unat (be16_at packet 4),
       ip_next_header = packet ! 6, ip_src = V6 (slice_of packet 8 24), ip_dst = V6 (slice_of packet 24 40)\<rparr>"
  using assms by (auto simp: parse_ip_def parse_v4_def parse_v6_def Let_def split: if_splits)

lemma rebuild_v4_parses:
  assumes "parse_ip packet = Inr ip" and "ip_version ip = 4" and "rebuild_v4 ip packet nh payload = Inr out"
  shows "parse_ip out = Inr (ip\<lparr>payload_end := header_len ip + length payload, ip_next_header := nh\<rparr>)"
    and "drop (header_len ip) out = payload" and "verifies (be_words (take (header_len ip) out))"
    and "length out = header_len ip + length payload"
proof -
  note f = parse_v4_facts [OF assms(1,2)]
  let ?n = "ihl_of packet" and ?total = "ihl_of packet + length payload"
  define h where "h = with_checksum (put (put (take ?n packet) 2 (u16_be (word_of_nat ?total))) 9 [nh])"
  have total: "?total \<le> 65535" and out: "out = h @ payload"
    using assms(3) f(6) by (auto simp: rebuild_v4_def h_def Let_def split: if_splits)
  have len: "length (take ?n packet) = ?n" using f by simp
  have lenh: "length h = ?n" using f len by (simp add: h_def)
  have field: "j < ?n \<Longrightarrow> j \<noteq> 2 \<Longrightarrow> j \<noteq> 3 \<Longrightarrow> j \<noteq> 9 \<Longrightarrow> j \<noteq> 10 \<Longrightarrow> j \<noteq> 11 \<Longrightarrow> h ! j = packet ! j" for j
    using f(2,5) len by (auto simp: h_def nth_with_checksum nth_put)
  have zero: "out ! 0 = packet ! 0" and nh: "out ! 9 = nh"
    using field [of 0] f len lenh by (simp_all add: out nth_append h_def nth_with_checksum nth_put)
  have "[h ! 2, h ! 3] = u16_be (word_of_nat ?total)"
    using f len two_octets [of "u16_be (word_of_nat ?total)"] by (simp add: h_def nth_with_checksum nth_put)
  then have lenf: "unat (be16_at out 2) = ?total"
    using total lenh f(2) by (simp add: be16_at_def out nth_append del: of_nat_add)
  have addr: "slice_of out 12 16 = slice_of packet 12 16" "slice_of out 16 20 = slice_of packet 16 20"
    using f lenh field by (auto simp: out slice_of_def intro!: nth_equalityI simp: nth_append)
  have ihl: "ihl_of out = ?n" by (simp add: ihl_of_def zero)
  have nibble: "ip_nibble out = Some 4"
    using f(1) zero lenh f by (auto simp: ip_nibble_nth out split: if_splits)
  have lo: "length out = ?total" using lenh by (simp add: out)
  have "parse_v4 out = Inr \<lparr>ip_version = 4, header_len = ?n, payload_start = ?n, payload_end = ?total,
      ip_next_header = nh, ip_src = V4 (slice_of packet 12 16), ip_dst = V4 (slice_of packet 16 20)\<rparr>"
    using f(2) by (simp add: parse_v4_def ihl lenf lo addr nh Let_def)
  then show "parse_ip out = Inr (ip\<lparr>payload_end := header_len ip + length payload, ip_next_header := nh\<rparr>)"
    by (simp add: parse_ip_def nibble f(6))
  show "drop (header_len ip) out = payload" "length out = header_len ip + length payload"
    using lenh by (simp_all add: f(6) out)
  show "verifies (be_words (take (header_len ip) out))"
    using f len lenh with_checksum_verifies [of "put (put (take ?n packet) 2 (u16_be (word_of_nat ?total))) 9 [nh]"]
    by (simp add: out h_def f(6) ihl_of_def)
qed


lemma rebuild_v6_parses:
  assumes "parse_ip packet = Inr ip" and "ip_version ip \<noteq> 4" and "rebuild_v6 packet nh payload = Inr out"
  shows "parse_ip out = Inr (ip\<lparr>payload_end := header_len ip + length payload, ip_next_header := nh\<rparr>)"
    and "drop (header_len ip) out = payload" and "length out = header_len ip + length payload"
proof -
  note f = parse_v6_facts [OF assms(1,2)]
  define h where "h = put (put (take 40 packet) 4 (u16_be (word_of_nat (length payload)))) 6 [nh]"
  have small: "length payload \<le> 65535" and out: "out = h @ payload"
    using assms(3) by (auto simp: rebuild_v6_def h_def split: if_splits)
  have len: "length (take 40 packet) = 40" using f by simp
  have lenh: "length h = 40" using len by (simp add: h_def)
  have field: "j < 40 \<Longrightarrow> j \<noteq> 4 \<Longrightarrow> j \<noteq> 5 \<Longrightarrow> j \<noteq> 6 \<Longrightarrow> h ! j = packet ! j" for j
    using len by (auto simp: h_def nth_put)
  have zero: "out ! 0 = packet ! 0" and nh: "out ! 6 = nh"
    using field [of 0] len lenh by (simp_all add: out nth_append h_def nth_put)
  have "[h ! 4, h ! 5] = u16_be (word_of_nat (length payload))"
    using len two_octets [of "u16_be (word_of_nat (length payload))"] by (simp add: h_def nth_put)
  then have lenf: "unat (be16_at out 4) = length payload"
    using small lenh by (simp add: be16_at_def out nth_append)
  have addr: "slice_of out 8 24 = slice_of packet 8 24" "slice_of out 24 40 = slice_of packet 24 40"
    using f(2) lenh field by (auto simp: out slice_of_def intro!: nth_equalityI simp: nth_append)
  have nibble: "ip_nibble out = Some 6"
    using f(1) zero lenh by (auto simp: ip_nibble_nth out split: if_splits)
  have lo: "length out = 40 + length payload" using lenh by (simp add: out)
  have "parse_v6 out = Inr \<lparr>ip_version = 6, header_len = 40, payload_start = 40,
      payload_end = 40 + length payload, ip_next_header = nh, ip_src = V6 (slice_of packet 8 24),
      ip_dst = V6 (slice_of packet 24 40)\<rparr>"
    by (simp add: parse_v6_def lenf lo addr nh Let_def)
  then show "parse_ip out = Inr (ip\<lparr>payload_end := header_len ip + length payload, ip_next_header := nh\<rparr>)"
    by (simp add: parse_ip_def nibble f(3))
  show "drop (header_len ip) out = payload" "length out = header_len ip + length payload"
    using lenh by (simp_all add: f(3) out)
qed

lemma parse_ip_version: "parse_ip packet = Inr ip \<Longrightarrow> ip_version ip = 4 \<or> ip_version ip = 6"
  using parse_v6_facts(3) by (metis ParsedIpPacket.select_convs(1))

text \<open>A rebuilt packet is read back with the new payload and protocol, and the same addresses.\<close>

lemma rebuild_parses:
  assumes "parse_ip packet = Inr ip" and "rebuild_with_payload ip packet nh payload = Inr out"
  shows "parse_ip out = Inr (ip\<lparr>payload_end := header_len ip + length payload, ip_next_header := nh\<rparr>)"
    and "drop (header_len ip) out = payload" and "length out = header_len ip + length payload"
  using rebuild_v4_parses [OF assms(1)] rebuild_v6_parses [OF assms(1)] assms(2) parse_ip_version [OF assms(1)]
  by (auto simp: rebuild_with_payload_def split: if_splits)

lemma rebuilt_payload:
  assumes "parse_ip packet = Inr ip" and "rebuild_with_payload ip packet nh payload = Inr out"
    and "parse_ip out = Inr ip'"
  shows "ip_payload ip' out = payload"
proof -
  have "payload_start ip = header_len ip"
    using parse_v4_facts(6) [OF assms(1)] parse_v6_facts(3) [OF assms(1)] by fastforce
  then show ?thesis
    using rebuild_parses [OF assms(1,2)] assms(3) by (simp add: ip_payload_def slice_of_def)
qed

text \<open>The packet as the code would write it again: exactly its octets up to the length its header
  declares, for IPv4 with the header checksum recomputed.\<close>

definition ip_canonical :: "bytes \<Rightarrow> ParsedIpPacket \<Rightarrow> bytes" where
  "ip_canonical packet ip =
    (if ip_version ip = 4 then with_checksum (take (header_len ip) packet) @ ip_payload ip packet
     else take (payload_end ip) packet)"


lemma rebuild_back:
  assumes "parse_ip packet = Inr ip" and "rebuild_with_payload ip packet nh payload = Inr out"
    and "parse_ip out = Inr ip'"
  shows "rebuild_with_payload ip' out (ip_next_header ip) (ip_payload ip packet) = Inr (ip_canonical packet ip)"
proof -
  have ip': "ip' = ip\<lparr>payload_end := header_len ip + length payload, ip_next_header := nh\<rparr>"
    using rebuild_parses(1) [OF assms(1,2)] assms(3) by simp
  show ?thesis
  proof (cases "ip_version ip = 4")
    case True
    note f = parse_v4_facts [OF assms(1) True]
    let ?n = "ihl_of packet" and ?len = "be16_at packet 2"
    let ?x = "take ?n packet" and ?pl = "slice_of packet ?n (unat ?len)"
    have r: "out = with_checksum (put (put ?x 2 (u16_be (word_of_nat (?n + length payload)))) 9 [nh]) @ payload"
      using assms(2) True f(6) by (simp add: rebuild_with_payload_def rebuild_v4_def Let_def split: if_splits)
    have lx: "length ?x = ?n" using f by simp
    have tk: "take ?n out = with_checksum (put (put ?x 2 (u16_be (word_of_nat (?n + length payload)))) 9 [nh])"
      using f lx by (simp add: r)
    have total: "?n + length ?pl = unat ?len" using f by simp
    have lenf: "u16_be ?len = [packet ! 2, packet ! 3]" by (simp add: be16_at_def be16.to_from_be)
    have "with_checksum (put (put (take ?n out) 2 (u16_be (word_of_nat (?n + length ?pl)))) 9 [packet ! 9])
        = with_checksum ?x"
      unfolding tk total word_of_nat_unat_u16 lenf using f(2) lx
      by (intro with_checksum_cong) (auto simp: nth_put nth_with_checksum less_Suc_eq numeral_eq_Suc)
    moreover have "?n + length ?pl \<le> 65535" using total unat_u16_less [of ?len] by linarith
    ultimately show ?thesis
      using True by (simp add: rebuild_with_payload_def rebuild_v4_def ip' f(6) ip_canonical_def ip_payload_def
          del: of_nat_add)
  next
    case False
    note f = parse_v6_facts [OF assms(1) False]
    let ?len = "be16_at packet 4"
    have r: "out = put (put (take 40 packet) 4 (u16_be (word_of_nat (length payload)))) 6 [nh] @ payload"
      using assms(2) False f(3) by (simp add: rebuild_with_payload_def rebuild_v6_def split: if_splits)
    have l40: "length (take 40 packet) = 40" using f(2) by simp
    have pl: "length (slice_of packet 40 (40 + unat ?len)) = unat ?len" using f(2) by simp
    have lenf: "u16_be ?len = [packet ! 4, packet ! 5]" by (simp add: be16_at_def be16.to_from_be)
    have "put (put (take 40 out) 4 (u16_be ?len)) 6 [packet ! 6] = take 40 packet"
      unfolding lenf using l40
      by (intro nth_equalityI) (auto simp: r nth_put less_Suc_eq numeral_eq_Suc)
    moreover have "take 40 packet @ slice_of packet 40 (40 + unat ?len) = take (40 + unat ?len) packet"
      by (simp add: slice_of_def take_add)
    ultimately show ?thesis
      using False unat_u16_less [of ?len] pl
      by (simp add: rebuild_with_payload_def rebuild_v6_def ip' f(3) ip_canonical_def ip_payload_def
          word_of_nat_unat_u16 del: unat_u16_less)
  qed
qed


end
