(* ===== verification/Anti_Replay.thy ===== *)
theory Anti_Replay
  imports Rust_Prelude
begin

text \<open>
  The ESP anti-replay window of \<open>connectivity/modems/ims/vowifi/dataplane.rs\<close>: a highest
  accepted sequence number and a 128-bit map of the numbers just below it.  The abstract view is
  the set of all accepted sequence numbers; the window refines it.
\<close>

section \<open>The interface a receiver relies on\<close>

text \<open>Feeding numbers to a guard one after another; the result is the accepted ones in order.\<close>

fun accepted_run :: "('s \<Rightarrow> 'k \<Rightarrow> 's \<times> bool) \<Rightarrow> 's \<Rightarrow> 'k list \<Rightarrow> 'k list" where
  "accepted_run acc s [] = []"
| "accepted_run acc s (k # ks) =
     (case acc s k of (s', ok) \<Rightarrow> if ok then k # accepted_run acc s' ks else accepted_run acc s' ks)"

fun guard_after :: "('s \<Rightarrow> 'k \<Rightarrow> 's \<times> bool) \<Rightarrow> 's \<Rightarrow> 'k list \<Rightarrow> 's" where
  "guard_after acc s [] = s"
| "guard_after acc s (k # ks) = guard_after acc (fst (acc s k)) ks"

text \<open>\<open>tracks s A\<close>: the guard state \<open>s\<close> stands for the set \<open>A\<close> of numbers accepted so far;
  \<open>fresh s k\<close>: the guard may still take \<open>k\<close> if it was not accepted before.\<close>

locale replay_guard =
  fixes acc :: "'s \<Rightarrow> 'k \<Rightarrow> 's \<times> bool"
    and tracks :: "'s \<Rightarrow> 'k set \<Rightarrow> bool"
    and fresh :: "'s \<Rightarrow> 'k \<Rightarrow> bool"
  assumes decides: "tracks s A \<Longrightarrow> snd (acc s k) \<longleftrightarrow> fresh s k \<and> k \<notin> A"
    and tracks_accept: "tracks s A \<Longrightarrow> snd (acc s k) \<Longrightarrow> tracks (fst (acc s k)) (insert k A)"
    and tracks_reject: "tracks s A \<Longrightarrow> \<not> snd (acc s k) \<Longrightarrow> fst (acc s k) = s"
begin

lemma accepted_run_fresh:
  assumes "tracks s A"
  shows "distinct (accepted_run acc s ks) \<and> set (accepted_run acc s ks) \<inter> A = {}"
  using assms
proof (induction ks arbitrary: s A)
  case Nil
  then show ?case by simp
next
  case (Cons k ks)
  obtain s' ok where acc: "acc s k = (s', ok)" by (cases "acc s k")
  show ?case
  proof (cases ok)
    case True
    then have "k \<notin> A" "tracks s' (insert k A)"
      using Cons.prems decides [of s A k] tracks_accept [of s A k] acc by auto
    with Cons.IH [of s' "insert k A"] True acc show ?thesis by auto
  next
    case False
    then have "s' = s" using tracks_reject [of s A k] Cons.prems acc by simp
    with Cons acc False show ?thesis by simp
  qed
qed

lemma tracks_run:
  assumes "tracks s A"
  shows "tracks (guard_after acc s ks) (A \<union> set (accepted_run acc s ks))"
  using assms
proof (induction ks arbitrary: s A)
  case Nil
  then show ?case by simp
next
  case (Cons k ks)
  show ?case
  proof (cases "snd (acc s k)")
    case True
    from Cons.IH [OF tracks_accept [OF Cons.prems True]] True
    show ?thesis by (simp add: case_prod_beta)
  next
    case False
    from Cons False tracks_reject [OF Cons.prems False] show ?thesis
      by (simp add: case_prod_beta)
  qed
qed

lemma accepts_exactly:
  assumes "tracks s A"
  shows "snd (acc (guard_after acc s ks) k) \<longleftrightarrow>
    fresh (guard_after acc s ks) k \<and> k \<notin> A \<union> set (accepted_run acc s ks)"
  by (rule decides [OF tracks_run [OF assms]])

lemma replay_refused:
  assumes "tracks s A" and "snd (acc s k)"
  shows "\<not> snd (acc (fst (acc s k)) k)"
  using decides [OF tracks_accept [OF assms], of k] by simp

end

section \<open>The window\<close>

datatype AntiReplayDecisionKind =
  AcceptedNewHighest | AcceptedWithinWindow | RejectedDuplicate | RejectedTooOld
  | RejectedInvalidSequence

fun decision_as_str :: "AntiReplayDecisionKind \<Rightarrow> string" where
  "decision_as_str AcceptedNewHighest = ''accepted_new_highest''"
| "decision_as_str AcceptedWithinWindow = ''accepted_within_window''"
| "decision_as_str RejectedDuplicate = ''rejected_duplicate''"
| "decision_as_str RejectedTooOld = ''rejected_too_old''"
| "decision_as_str RejectedInvalidSequence = ''rejected_invalid_sequence''"

fun decision_accepted :: "AntiReplayDecisionKind \<Rightarrow> bool" where
  "decision_accepted AcceptedNewHighest = True"
| "decision_accepted AcceptedWithinWindow = True"
| "decision_accepted _ = False"

record AntiReplayDecision =
  ard_decision :: string
  ard_accepted :: bool
  ard_highest_sequence :: u64
  ard_policy :: string

record AntiReplayWindow =
  window_size :: u16
  highest_sequence :: u64
  bitmap :: u128

record AntiReplayWindowSnapshot =
  snap_window_size :: u16
  snap_highest_sequence :: u64
  snap_tracked_slots :: u16
  snap_policy :: string

definition DEFAULT_ANTI_REPLAY_WINDOW :: u16 where "DEFAULT_ANTI_REPLAY_WINDOW = 64"

definition window_new :: "u16 \<Rightarrow> AntiReplayWindow" where
  "window_new n = \<lparr>window_size = min (max n 1) 128, highest_sequence = 0, bitmap = 0\<rparr>"

definition window_snapshot :: "AntiReplayWindow \<Rightarrow> AntiReplayWindowSnapshot" where
  "window_snapshot w = \<lparr>snap_window_size = window_size w,
     snap_highest_sequence = highest_sequence w,
     snap_tracked_slots = word_of_nat (length (filter (bit (bitmap w)) [0..<128])),
     snap_policy = ''only_sequence_window_metadata_serialized''\<rparr>"

definition window_decision :: "AntiReplayWindow \<Rightarrow> AntiReplayDecisionKind \<Rightarrow> AntiReplayDecision" where
  "window_decision w kind = \<lparr>ard_decision = decision_as_str kind,
     ard_accepted = decision_accepted kind,
     ard_highest_sequence = highest_sequence w,
     ard_policy = ''esp_sequence_metadata_only''\<rparr>"

definition window_mask :: "AntiReplayWindow \<Rightarrow> u128" where
  "window_mask w = (if window_size w = 128 then - 1
     else push_bit (unat (window_size w)) 1 - 1)"

definition window_accept :: "AntiReplayWindow \<Rightarrow> u64 \<Rightarrow> AntiReplayWindow \<times> AntiReplayDecision" where
  "window_accept w seq =
     (if seq = 0 then (w, window_decision w RejectedInvalidSequence)
      else if highest_sequence w = 0 \<or> seq > highest_sequence w then
        let delta = saturating_sub seq (highest_sequence w);
            w' = w\<lparr>bitmap := (if delta \<ge> 128 then 1 else push_bit (unat delta) (bitmap w) OR 1)
                               AND window_mask w,
                   highest_sequence := seq\<rparr>
        in (w', window_decision w' AcceptedNewHighest)
      else
        let offset = highest_sequence w - seq
        in if unat offset \<ge> unat (window_size w) then (w, window_decision w RejectedTooOld)
           else
             let m = push_bit (unat offset) 1
             in if bitmap w AND m \<noteq> 0 then (w, window_decision w RejectedDuplicate)
                else
                  let w' = w\<lparr>bitmap := bitmap w OR m\<rparr>
                  in (w', window_decision w' AcceptedWithinWindow))"

text \<open>The part of \<open>window_accept\<close> a receiver acts on.\<close>

definition accept_bit :: "AntiReplayWindow \<Rightarrow> u64 \<Rightarrow> AntiReplayWindow \<times> bool" where
  "accept_bit w seq = (case window_accept w seq of (w', d) \<Rightarrow> (w', ard_accepted d))"

section \<open>Refinement to the set of accepted numbers\<close>

definition tracks_window :: "AntiReplayWindow \<Rightarrow> u64 set \<Rightarrow> bool" where
  "tracks_window w A \<longleftrightarrow>
     1 \<le> unat (window_size w) \<and> unat (window_size w) \<le> 128
   \<and> 0 \<notin> A \<and> (\<forall>s \<in> A. unat s \<le> unat (highest_sequence w))
   \<and> (\<forall>i < 128. bit (bitmap w) i \<longleftrightarrow>
        i < unat (window_size w) \<and> unat (highest_sequence w) - i \<in> unat ` A)"

definition fresh_for :: "AntiReplayWindow \<Rightarrow> u64 \<Rightarrow> bool" where
  "fresh_for w s \<longleftrightarrow> s \<noteq> 0 \<and> unat (highest_sequence w) < unat s + unat (window_size w)"

lemma bit_window_mask:
  "unat (window_size w) \<le> 128 \<Longrightarrow> i < 128 \<Longrightarrow> bit (window_mask w) i \<longleftrightarrow> i < unat (window_size w)"
  by (auto simp: window_mask_def push_bit_eq_mult mask_eq_exp_minus_1 [symmetric] bit_mask_iff)

lemma unat_window_new:
  "1 \<le> unat (window_size (window_new n)) \<and> unat (window_size (window_new n)) \<le> 128"
  by (simp add: window_new_def min_def max_def word_le_nat_alt)

lemma tracks_new: "tracks_window (window_new n) {}"
  using unat_window_new [of n] by (simp add: tracks_window_def window_new_def)

text \<open>The three ways the window reacts, in terms of natural numbers.\<close>

lemma image_unat_insert [simp]: "unat s \<in> unat ` A \<longleftrightarrow> s \<in> (A :: 'a::len word set)"
  by (auto dest: word_unat_eq_iff [THEN iffD2])

lemma accept_new_highest:
  assumes "seq \<noteq> 0" and "highest_sequence w = 0 \<or> seq > highest_sequence w"
  shows "accept_bit w seq = (w\<lparr>bitmap :=
      (if unat seq - unat (highest_sequence w) \<ge> 128 then 1
       else push_bit (unat seq - unat (highest_sequence w)) (bitmap w) OR 1) AND window_mask w,
      highest_sequence := seq\<rparr>, True)"
  using assms
  by (auto simp: accept_bit_def window_accept_def Let_def window_decision_def unat_saturating_sub
      word_le_nat_alt)

lemma accept_old:
  assumes "seq \<noteq> 0" and "highest_sequence w \<noteq> 0" and "\<not> seq > highest_sequence w"
  shows "accept_bit w seq =
    (let d = unat (highest_sequence w) - unat seq
     in if d \<ge> unat (window_size w) then (w, False)
        else if bitmap w AND push_bit d 1 \<noteq> 0 then (w, False)
        else (w\<lparr>bitmap := bitmap w OR push_bit d 1\<rparr>, True))"
proof -
  have "unat (highest_sequence w - seq) = unat (highest_sequence w) - unat seq"
    using assms(3) by (intro unat_sub) (simp add: not_less)
  then show ?thesis
    using assms by (auto simp: accept_bit_def window_accept_def Let_def window_decision_def)
qed

lemma and_push_bit_one: "i < LENGTH('a) \<Longrightarrow> (w AND push_bit i 1 \<noteq> 0) = bit (w :: 'a::len word) i"
  by (simp add: and_exp_eq_0_iff_not_bit push_bit_eq_mult)

lemma bit_shifted_window:
  "i < 128 \<Longrightarrow> bit ((if 128 \<le> d then 1 else push_bit d (b :: u128) OR 1)) i
     \<longleftrightarrow> i = 0 \<or> d \<le> i \<and> bit b (i - d)"
  by (auto simp: bit_simps)

lemma tracks_new_highest:
  assumes t: "tracks_window w A" and seq: "seq \<noteq> 0"
    and up: "highest_sequence w = 0 \<or> seq > highest_sequence w"
  shows "seq \<notin> A" and "tracks_window (fst (accept_bit w seq)) (insert seq A)"
proof -
  let ?h = "unat (highest_sequence w)"
  have above: "?h < unat seq"
    using up seq by (auto simp: word_less_nat_alt unat_gt_0)
  then show new: "seq \<notin> A" using t by (auto simp: tracks_window_def)
  have pos: "0 \<notin> unat ` A" using t by (auto simp: tracks_window_def unat_eq_zero)
  have bound: "x \<le> ?h" if "x \<in> unat ` A" for x using that t by (auto simp: tracks_window_def)
  have ws: "1 \<le> unat (window_size w)" "unat (window_size w) \<le> 128"
    using t by (auto simp: tracks_window_def)
  have old: "bit (bitmap w) i \<longleftrightarrow> i < unat (window_size w) \<and> ?h - i \<in> unat ` A" if "i < 128" for i
    using t that by (auto simp: tracks_window_def)
  have bits: "(i = 0 \<or> unat seq - ?h \<le> i \<and> bit (bitmap w) (i - (unat seq - ?h))) \<longleftrightarrow>
      unat seq - i \<in> unat ` insert seq A" if i: "i < unat (window_size w)" for i
  proof (cases "i = 0 \<or> i < unat seq - ?h")
    case True
    then show ?thesis using above bound [of "unat seq - i"] by auto
  next
    case False
    then have "?h - (i - (unat seq - ?h)) = unat seq - i" using above by linarith
    moreover have "unat seq - i \<noteq> unat seq" using False above by auto
    ultimately show ?thesis using False i ws old [of "i - (unat seq - ?h)"] by auto
  qed
  let ?b = "(if 128 \<le> unat seq - ?h then 1
    else push_bit (unat seq - ?h) (bitmap w) OR 1) AND window_mask w"
  have "bit ?b i \<longleftrightarrow> i < unat (window_size w) \<and> unat seq - i \<in> unat ` insert seq A"
    if "i < 128" for i
    using bits [of i] bit_window_mask [OF ws(2) that] bit_shifted_window [OF that]
    by (simp only: bit_and_iff) blast
  moreover have "unat s \<le> unat seq" if "s \<in> insert seq A" for s
    using that bound [of "unat s"] above by auto
  ultimately show "tracks_window (fst (accept_bit w seq)) (insert seq A)"
    unfolding accept_new_highest [OF seq up] fst_conv tracks_window_def
    using seq ws t by (simp add: tracks_window_def)
qed

lemma tracks_within:
  assumes t: "tracks_window w A" and seq: "seq \<noteq> 0"
    and low: "highest_sequence w \<noteq> 0" "\<not> seq > highest_sequence w"
  shows "snd (accept_bit w seq) \<longleftrightarrow> fresh_for w seq \<and> seq \<notin> A"
    and "snd (accept_bit w seq) \<Longrightarrow> tracks_window (fst (accept_bit w seq)) (insert seq A)"
    and "\<not> snd (accept_bit w seq) \<Longrightarrow> fst (accept_bit w seq) = w"
proof -
  let ?d = "unat (highest_sequence w) - unat seq"
  have le: "unat seq \<le> unat (highest_sequence w)" using low(2) by (simp add: word_less_nat_alt)
  have ws: "unat (window_size w) \<le> 128" using t by (simp add: tracks_window_def)
  have hit: "bit (bitmap w) ?d \<longleftrightarrow> seq \<in> A" if "?d < unat (window_size w)"
  proof -
    have "unat (highest_sequence w) - ?d = unat seq" using le by simp
    then show ?thesis using that t ws by (simp add: tracks_window_def)
  qed
  note acc = accept_old [OF seq low]
  have marked: "(bitmap w AND push_bit ?d 1 \<noteq> 0) = (seq \<in> A)" if "?d < unat (window_size w)"
    using hit [OF that] and_push_bit_one [of ?d "bitmap w"] that ws by simp
  have "fresh_for w seq \<longleftrightarrow> ?d < unat (window_size w)"
    using le seq by (auto simp: fresh_for_def)
  then show "snd (accept_bit w seq) \<longleftrightarrow> fresh_for w seq \<and> seq \<notin> A"
    unfolding acc Let_def using marked by (cases "?d < unat (window_size w)") (simp_all only: if_True if_False not_le snd_conv split: if_split, auto)
  show "fst (accept_bit w seq) = w" if "\<not> snd (accept_bit w seq)"
    using that by (auto simp: acc Let_def split: if_splits)
  show "tracks_window (fst (accept_bit w seq)) (insert seq A)" if "snd (accept_bit w seq)"
  proof -
    from that have d: "?d < unat (window_size w)"
      and w': "fst (accept_bit w seq) = w\<lparr>bitmap := bitmap w OR push_bit ?d 1\<rparr>"
      by (auto simp: acc Let_def split: if_splits)
    have "unat (highest_sequence w) - i = unat seq \<longleftrightarrow> i = ?d" if "i < 128" for i
      using le unat_gt_0 [of seq] seq by linarith
    then show ?thesis
      using t d ws le seq unfolding w' tracks_window_def
      by (auto simp: bit_simps)
  qed
qed

interpretation window: replay_guard accept_bit tracks_window fresh_for
proof unfold_locales
  fix w A k assume t: "tracks_window w A"
  have zero: "accept_bit w 0 = (w, False)"
    by (simp add: accept_bit_def window_accept_def window_decision_def)
  consider "k = 0" | "k \<noteq> 0" "highest_sequence w = 0 \<or> k > highest_sequence w"
    | "k \<noteq> 0" "highest_sequence w \<noteq> 0" "\<not> k > highest_sequence w" by blast
  then have "(snd (accept_bit w k) \<longleftrightarrow> fresh_for w k \<and> k \<notin> A)
    \<and> (snd (accept_bit w k) \<longrightarrow> tracks_window (fst (accept_bit w k)) (insert k A))
    \<and> (\<not> snd (accept_bit w k) \<longrightarrow> fst (accept_bit w k) = w)"
  proof cases
    case 1
    then show ?thesis by (simp add: zero fresh_for_def)
  next
    case 2
    have "fresh_for w k"
      using 2 t by (auto simp: fresh_for_def word_less_nat_alt tracks_window_def unat_gt_0)
    with 2 tracks_new_highest [OF t 2] show ?thesis by (simp add: accept_new_highest)
  next
    case 3
    from tracks_within [OF t 3] show ?thesis by blast
  qed
  then show "snd (accept_bit w k) \<longleftrightarrow> fresh_for w k \<and> k \<notin> A"
    and "snd (accept_bit w k) \<Longrightarrow> tracks_window (fst (accept_bit w k)) (insert k A)"
    and "\<not> snd (accept_bit w k) \<Longrightarrow> fst (accept_bit w k) = w" by blast+
qed

lemma highest_after_accept:
  assumes fin: "finite A" and h: "highest_sequence w = Max (insert 0 A)"
  shows "highest_sequence (fst (accept_bit w k)) =
    Max (insert 0 (A \<union> (if snd (accept_bit w k) then {k} else {})))"
proof -
  have "Max (insert k (insert 0 A)) = max k (highest_sequence w)"
    unfolding h by (rule Max_insert) (use fin in auto)
  moreover have "insert 0 (A \<union> {k}) = insert k (insert 0 A)" by auto
  ultimately have ins: "Max (insert 0 (A \<union> {k})) = max k (highest_sequence w)" by simp
  have zero: "accept_bit w 0 = (w, False)"
    by (simp add: accept_bit_def window_accept_def window_decision_def)
  consider "k = 0" | "k \<noteq> 0" "highest_sequence w = 0 \<or> k > highest_sequence w"
    | "k \<noteq> 0" "highest_sequence w \<noteq> 0" "\<not> k > highest_sequence w" by blast
  then show ?thesis
  proof cases
    case 1
    then show ?thesis using zero h by simp
  next
    case 2
    then have "max k (highest_sequence w) = k" by (auto simp: max_def)
    then show ?thesis using accept_new_highest [OF 2] ins by (simp only: fst_conv snd_conv) simp
  next
    case 3
    then have "max k (highest_sequence w) = highest_sequence w" by (auto simp: max_def)
    then show ?thesis using accept_old [OF 3] ins h
      by (simp only: Let_def split: if_split) simp
  qed
qed

lemma highest_guard_after:
  assumes "finite A" and "highest_sequence w = Max (insert 0 A)"
  shows "highest_sequence (guard_after accept_bit w ks) =
    Max (insert 0 (A \<union> set (accepted_run accept_bit w ks)))"
  using assms
proof (induction ks arbitrary: w A)
  case Nil
  then show ?case by simp
next
  case (Cons k ks)
  let ?A = "A \<union> (if snd (accept_bit w k) then {k} else {})"
  have "highest_sequence (fst (accept_bit w k)) = Max (insert 0 ?A)"
    using highest_after_accept [OF Cons.prems] .
  from Cons.IH [OF _ this] Cons.prems(1) show ?case by (simp add: case_prod_beta)
qed

section \<open>Properties\<close>

text \<open>
  C3: No replay.  Whatever sequence numbers arrive, in whatever order and however often, at a
  window created with any size argument, the numbers it accepts are pairwise distinct.
\<close>

theorem window_never_accepts_twice: "distinct (accepted_run accept_bit (window_new n) ks)"
  using window.accepted_run_fresh [OF tracks_new] by simp

text \<open>
  C21: Exact acceptance.  After any history of arrivals, the decision of \<open>accept\<close> on the next
  number is positive exactly when the number is not zero, was not accepted before, and lies less
  than the window size below the highest number; the highest number is the largest accepted one.
\<close>

theorem window_accepts_exactly:
  "let w = guard_after accept_bit (window_new n) ks;
       A = set (accepted_run accept_bit (window_new n) ks)
   in (ard_accepted (snd (window_accept w seq)) \<longleftrightarrow>
        seq \<noteq> 0 \<and> seq \<notin> A \<and> unat (highest_sequence w) < unat seq + unat (window_size w))
      \<and> highest_sequence w = Max (insert 0 A)"
proof -
  let ?w = "guard_after accept_bit (window_new n) ks"
  have "snd (accept_bit ?w seq) = ard_accepted (snd (window_accept ?w seq))"
    by (simp add: accept_bit_def case_prod_beta)
  moreover have "highest_sequence ?w =
      Max (insert 0 (set (accepted_run accept_bit (window_new n) ks)))"
    using highest_guard_after [of "{}" "window_new n" ks] by (simp add: window_new_def)
  ultimately show ?thesis
    using window.accepts_exactly [OF tracks_new, of n ks seq]
    unfolding Let_def fresh_for_def by blast
qed

end
