(* ===== verification/Child_Sa.thy ===== *)
theory Child_Sa
  imports Anti_Replay Esp_Frame
begin

text \<open>
  The CHILD_SA data plane of \<open>connectivity/modems/ims/vowifi/dataplane.rs\<close>: the plan derived from
  a carrier profile, the per-direction SA counters, the inner gateway queue and the state machine
  \<open>ChildSaStateMachine\<close> with every operation.  An operation is a function from the state to the new
  state and its \<open>Result\<close>; \<open>sa_step\<close> is the step relation all of them make up, with the observable
  outcome of each call.
\<close>

section \<open>Profile data the data plane reads\<close>

text \<open>The fields of \<open>profiles.rs\<close> that the data plane and the IKE exchange read; the others play no
  part here.\<close>

record CarrierProfileMeta =
  profile_id :: string
  profile_mcc :: string
  profile_mnc :: string
  plmn :: string
  country_iso2 :: string
  brand :: string
  operator_legal_name :: string
  aliases :: "string list"

record EpdgPolicy =
  epdg_host :: string
  epdg_apn :: "string option"
  epdg_ip_stack :: string

record Ikev2Policy =
  nat_keepalive_seconds :: u16
  ike_proposals :: "string list"
  esp_proposals :: "string list"
  include_epdg_idr :: bool
  identity_template :: "string option"

record ImsPolicy =
  ims_domain :: string
  ims_realm :: string
  transport :: string

record SmsPolicy =
  receiver_transport :: string

record CarrierProfile =
  meta :: CarrierProfileMeta
  epdg :: EpdgPolicy
  ikev2 :: Ikev2Policy
  ims :: ImsPolicy
  sms :: SmsPolicy

section \<open>Phases and plans\<close>

datatype DataplanePhase =
  Idle | ChildSaNegotiated | EspSecretsReady | InnerStackReady | Forwarding | Rekey | Teardown
  | Failed

fun phase_as_str :: "DataplanePhase \<Rightarrow> string" where
  "phase_as_str Idle = ''idle''"
| "phase_as_str ChildSaNegotiated = ''child_sa_negotiated''"
| "phase_as_str EspSecretsReady = ''esp_secrets_ready''"
| "phase_as_str InnerStackReady = ''inner_stack_ready''"
| "phase_as_str Forwarding = ''forwarding''"
| "phase_as_str Rekey = ''rekey''"
| "phase_as_str Teardown = ''teardown''"
| "phase_as_str Failed = ''failed''"

record DataplaneEspProposalPlan =
  esp_proposal :: string
  esp_encryption :: string
  esp_integrity :: string
  encapsulation :: string

record TrafficSelectorPlan =
  local_selector :: string
  remote_selector :: string
  address_assignment :: string

record SmoltcpGatewayPlan =
  stack :: string
  gateway_mode :: string
  gateway_ip_stack :: string
  tcp_enabled :: bool
  udp_enabled :: bool
  icmp_enabled :: bool
  socket_policy :: string

record MtuPlan =
  outer_mtu :: u16
  estimated_overhead_bytes :: u16
  inner_mtu :: u16
  ipv4_header_bytes :: u16
  udp_header_bytes :: u16
  esp_header_bytes :: u16
  iv_bytes :: u16
  trailer_budget_bytes :: u16
  integrity_check_bytes :: u16
  mtu_policy :: string

record DataplanePlan =
  plan_profile_id :: string
  plan_plmn :: string
  outer_encapsulation :: string
  nat_t_port :: u16
  plan_nat_keepalive_seconds :: u16
  anti_replay_window :: u16
  mtu_strategy :: string
  plan_mtu :: MtuPlan
  traffic_selectors :: TrafficSelectorPlan
  plan_smoltcp :: SmoltcpGatewayPlan
  plan_esp_proposals :: "DataplaneEspProposalPlan list"
  plaintext_capture_policy :: string
  plan_policy :: string

definition first_token :: "string list \<Rightarrow> (string \<Rightarrow> bool) \<Rightarrow> string option" where
  "first_token tokens predicate = List.find predicate tokens"

definition parse_esp_proposal :: "string \<Rightarrow> DataplaneEspProposalPlan" where
  "parse_esp_proposal proposal =
     (let tokens = split_on (CHR ''-'') proposal
      in \<lparr>esp_proposal = proposal,
          esp_encryption = (case first_token tokens (\<lambda>t. starts_with t ''aes'') of
             Some t \<Rightarrow> t | None \<Rightarrow> ''unknown''),
          esp_integrity =
            (case first_token tokens (\<lambda>t. starts_with t ''sha'' \<or> starts_with t ''hmac'') of
               Some t \<Rightarrow> t | None \<Rightarrow> ''profile_default''),
          encapsulation = ''nat_t_udp_4500''\<rparr>)"

definition build_mtu_plan :: "u16 \<Rightarrow> MtuPlan" where
  "build_mtu_plan mtu =
     (let overhead = word_of_nat IPV4_HEADER_BYTES + word_of_nat UDP_HEADER_BYTES
            + word_of_nat ESP_HEADER_BYTES + word_of_nat AES_CBC_IV_BYTES
            + word_of_nat ESP_TRAILER_BUDGET_BYTES + word_of_nat DEFAULT_INTEGRITY_CHECK_BYTES
      in \<lparr>outer_mtu = mtu, estimated_overhead_bytes = overhead,
          inner_mtu = saturating_sub mtu overhead,
          ipv4_header_bytes = word_of_nat IPV4_HEADER_BYTES,
          udp_header_bytes = word_of_nat UDP_HEADER_BYTES,
          esp_header_bytes = word_of_nat ESP_HEADER_BYTES,
          iv_bytes = word_of_nat AES_CBC_IV_BYTES,
          trailer_budget_bytes = word_of_nat ESP_TRAILER_BUDGET_BYTES,
          integrity_check_bytes = word_of_nat DEFAULT_INTEGRITY_CHECK_BYTES,
          mtu_policy = ''mtu_metadata_only''\<rparr>)"

definition german_vodafone :: "CarrierProfileMeta \<Rightarrow> bool" where
  "german_vodafone m \<longleftrightarrow> eq_ignore_ascii_case (country_iso2 m) ''de''
     \<and> (str_contains (to_ascii_lowercase (brand m)) ''vodafone''
        \<or> str_contains (to_ascii_lowercase (operator_legal_name m)) ''vodafone''
        \<or> list_ex (\<lambda>a. str_contains (to_ascii_lowercase a) ''vodafone'') (aliases m))"

definition build_dataplane_plan :: "CarrierProfile \<Rightarrow> DataplanePlan" where
  "build_dataplane_plan p =
     \<lparr>plan_profile_id = profile_id (meta p), plan_plmn = plmn (meta p),
      outer_encapsulation = ''esp_in_udp_nat_t'', nat_t_port = 4500,
      plan_nat_keepalive_seconds = nat_keepalive_seconds (ikev2 p),
      anti_replay_window = DEFAULT_ANTI_REPLAY_WINDOW,
      mtu_strategy = ''inner_path_mtu_with_ipv4_udp_esp_overhead'',
      plan_mtu = build_mtu_plan DEFAULT_OUTER_MTU,
      traffic_selectors = \<lparr>local_selector = ''assigned_inner_address'',
        remote_selector = ''ims_services'', address_assignment = ''ikev2_configuration_payload''\<rparr>,
      plan_smoltcp = \<lparr>stack = ''smoltcp'', gateway_mode = ''userspace_inner_ip_gateway'',
        gateway_ip_stack = epdg_ip_stack (epdg p),
        tcp_enabled = (transport (ims p) = ''tcp'' \<and> \<not> german_vodafone (meta p)
          \<or> receiver_transport (sms p) = ''tcp''),
        udp_enabled = (transport (ims p) \<noteq> ''tcp'' \<or> german_vodafone (meta p)),
        icmp_enabled = False, socket_policy = ''bounded_per_profile_runtime''\<rparr>,
      plan_esp_proposals = map parse_esp_proposal (esp_proposals (ikev2 p)),
      plaintext_capture_policy = ''disabled_by_default_metadata_only'',
      plan_policy = ''secrets_never_serialized''\<rparr>"

section \<open>Per-direction SA counters\<close>

record SaDirectionState =
  sa_identifier :: u32
  next_sequence :: u64
  packets :: u64
  sa_bytes :: u64

definition sa_direction_new :: "u32 \<Rightarrow> DataplaneStateError + SaDirectionState" where
  "sa_direction_new i = (if i = 0 then Inl InvalidSaIdentifier
     else Inr \<lparr>sa_identifier = i, next_sequence = 1, packets = 0, sa_bytes = 0\<rparr>)"

definition allocate_sequence ::
    "SaDirectionState \<Rightarrow> SaDirectionState \<times> (DataplaneStateError + u64)" where
  "allocate_sequence sa =
     (let sequence = next_sequence sa
      in if unat sequence > u32_max then (sa, Inl SequenceExhausted)
         else (sa\<lparr>next_sequence := next_sequence sa + 1\<rparr>, Inr sequence))"

definition sa_record :: "SaDirectionState \<Rightarrow> nat \<Rightarrow> SaDirectionState" where
  "sa_record sa n = sa\<lparr>packets := saturating_add (packets sa) 1,
     sa_bytes := saturating_add (sa_bytes sa) (word_of_nat n)\<rparr>"

section \<open>The inner gateway\<close>

record InnerPacketMetadata =
  packet_id :: u64
  ipm_direction :: string
  ip_version :: string
  packet_bytes :: nat
  ipm_accepted :: bool
  drop_reason :: "string option"
  ipm_policy :: string

record InnerGatewayState =
  gw_ip_stack :: string
  queue_capacity :: nat
  next_packet_id :: u64
  packets_to_esp :: u64
  packets_from_esp :: u64
  queue :: "InnerPacketMetadata list"
  last_packet :: "InnerPacketMetadata option"

definition classify_ip_version :: "bytes \<Rightarrow> string" where
  "classify_ip_version packet =
     (case map_option (drop_bit 4) (get_at packet 0) of
        Some v \<Rightarrow> if v = (4 :: u8) then ''ipv4'' else if v = 6 then ''ipv6'' else ''unknown''
      | None \<Rightarrow> ''unknown'')"

definition gateway_new :: "string \<Rightarrow> InnerGatewayState" where
  "gateway_new ip = \<lparr>gw_ip_stack = ip, queue_capacity = INNER_QUEUE_CAPACITY, next_packet_id = 1,
     packets_to_esp = 0, packets_from_esp = 0, queue = [], last_packet = None\<rparr>"

definition enqueue_outbound :: "InnerGatewayState \<Rightarrow> bytes
    \<Rightarrow> InnerGatewayState \<times> (DataplaneStateError + InnerPacketMetadata)" where
  "enqueue_outbound g packet =
     (if length (queue g) \<ge> queue_capacity g then (g, Inl InnerQueueFull)
      else
        let md = \<lparr>packet_id = next_packet_id g, ipm_direction = ''outbound'',
                  ip_version = classify_ip_version packet, packet_bytes = length packet,
                  ipm_accepted = True, drop_reason = None,
                  ipm_policy = ''packet_bytes_not_serialized''\<rparr>
        in (g\<lparr>next_packet_id := saturating_add (next_packet_id g) 1,
              packets_to_esp := saturating_add (packets_to_esp g) 1,
              queue := queue g @ [md], last_packet := Some md\<rparr>, Inr md))"

definition record_inbound :: "InnerGatewayState \<Rightarrow> nat \<Rightarrow> InnerGatewayState \<times> InnerPacketMetadata" where
  "record_inbound g n =
     (let md = \<lparr>packet_id = next_packet_id g, ipm_direction = ''inbound'',
                ip_version = ''protected_inner_packet'', packet_bytes = n,
                ipm_accepted = True, drop_reason = None,
                ipm_policy = ''inner_packet_not_decrypted_in_m5''\<rparr>
      in (g\<lparr>next_packet_id := saturating_add (next_packet_id g) 1,
            packets_from_esp := saturating_add (packets_from_esp g) 1,
            last_packet := Some md\<rparr>, md))"

definition record_drop ::
    "InnerGatewayState \<Rightarrow> bytes \<Rightarrow> string \<Rightarrow> InnerGatewayState \<times> InnerPacketMetadata" where
  "record_drop g packet reason =
     (let md = \<lparr>packet_id = next_packet_id g, ipm_direction = ''outbound'',
                ip_version = classify_ip_version packet, packet_bytes = length packet,
                ipm_accepted = False, drop_reason = Some reason,
                ipm_policy = ''packet_bytes_not_serialized''\<rparr>
      in (g\<lparr>next_packet_id := saturating_add (next_packet_id g) 1, last_packet := Some md\<rparr>, md))"

section \<open>The state machine\<close>

record MtuDecision =
  mtu_decision :: string
  mtu_accepted :: bool
  mtu_inner_packet_bytes :: nat
  estimated_outer_frame_bytes :: nat
  mtu_outer_mtu :: u16
  mtu_decision_policy :: string

record EspFrameDecision =
  fd_direction :: string
  fd_decision :: string
  fd_accepted :: bool
  fd_sequence_number :: "u64 option"
  fd_outer_frame_bytes :: nat
  fd_natt :: "NattPacketSummary option"
  fd_mtu :: "MtuDecision option"
  fd_policy :: string

record ChildSaStateMachine =
  profile :: CarrierProfile
  phase :: DataplanePhase
  selected_esp_proposal :: "DataplaneEspProposalPlan option"
  inbound_sa :: "SaDirectionState option"
  outbound_sa :: "SaDirectionState option"
  replay_window :: AntiReplayWindow
  mtu :: MtuPlan
  mtu_drops :: u64
  inner_gateway :: InnerGatewayState
  last_frame_decision :: "EspFrameDecision option"
  last_error :: "string option"

definition child_sa_new :: "CarrierProfile \<Rightarrow> ChildSaStateMachine" where
  "child_sa_new p = \<lparr>profile = p, phase = Idle, selected_esp_proposal = None, inbound_sa = None,
     outbound_sa = None, replay_window = window_new DEFAULT_ANTI_REPLAY_WINDOW,
     mtu = build_mtu_plan DEFAULT_OUTER_MTU, mtu_drops = 0,
     inner_gateway = gateway_new (epdg_ip_stack (epdg p)), last_frame_decision = None,
     last_error = None\<rparr>"

definition require_ready_for_frames :: "ChildSaStateMachine \<Rightarrow> DataplaneStateError + unit" where
  "require_ready_for_frames m =
     (case phase m of InnerStackReady \<Rightarrow> Inr () | Forwarding \<Rightarrow> Inr ()
      | actual \<Rightarrow> Inl (InvalidPhase ''inner_stack_ready_or_forwarding'' (phase_as_str actual)))"

definition require_phase :: "ChildSaStateMachine \<Rightarrow> DataplanePhase \<Rightarrow> DataplaneStateError + unit" where
  "require_phase m expected =
     (if phase m = expected then Inr ()
      else Inl (InvalidPhase (phase_as_str expected) (phase_as_str (phase m))))"

definition negotiate_child_sa_with_profile_proposal ::
    "ChildSaStateMachine \<Rightarrow> u32 \<Rightarrow> u32 \<Rightarrow> string \<Rightarrow> ChildSaStateMachine \<times> (DataplaneStateError + unit)"
  where
  "negotiate_child_sa_with_profile_proposal m inbound_id outbound_id selected =
     (case require_phase m Idle of Inl e \<Rightarrow> (m, Inl e) | Inr _ \<Rightarrow>
      (case sa_direction_new inbound_id of
         Inl e \<Rightarrow> (m\<lparr>phase := Failed, last_error := Some (dataplane_error_to_string e)\<rparr>, Inl e)
       | Inr inbound \<Rightarrow>
      (case sa_direction_new outbound_id of
         Inl e \<Rightarrow> (m\<lparr>phase := Failed, last_error := Some (dataplane_error_to_string e)\<rparr>, Inl e)
       | Inr outbound \<Rightarrow>
      if selected \<notin> set (esp_proposals (ikev2 (profile m))) then
        (m\<lparr>phase := Failed,
           last_error := Some ''selected ESP proposal is not in the profile''\<rparr>,
         Inl InvalidSelectedEspProposal)
      else
        (m\<lparr>selected_esp_proposal := Some (parse_esp_proposal selected),
           inbound_sa := Some inbound, outbound_sa := Some outbound,
           phase := ChildSaNegotiated\<rparr>, Inr ()))))"

definition negotiate_child_sa ::
    "ChildSaStateMachine \<Rightarrow> u32 \<Rightarrow> u32 \<Rightarrow> ChildSaStateMachine \<times> (DataplaneStateError + unit)" where
  "negotiate_child_sa m inbound_id outbound_id =
     (case esp_proposals (ikev2 (profile m)) of
        [] \<Rightarrow> (m, Inl EmptyEspProposals)
      | proposal # _ \<Rightarrow>
          negotiate_child_sa_with_profile_proposal m inbound_id outbound_id proposal)"

definition mark_esp_secrets_ready ::
    "ChildSaStateMachine \<Rightarrow> ChildSaStateMachine \<times> (DataplaneStateError + unit)" where
  "mark_esp_secrets_ready m =
     (case require_phase m ChildSaNegotiated of Inl e \<Rightarrow> (m, Inl e)
      | Inr _ \<Rightarrow> (m\<lparr>phase := EspSecretsReady\<rparr>, Inr ()))"

definition mark_inner_stack_ready ::
    "ChildSaStateMachine \<Rightarrow> ChildSaStateMachine \<times> (DataplaneStateError + unit)" where
  "mark_inner_stack_ready m =
     (case require_phase m EspSecretsReady of Inl e \<Rightarrow> (m, Inl e)
      | Inr _ \<Rightarrow> (m\<lparr>phase := InnerStackReady\<rparr>, Inr ()))"

definition begin_rekey ::
    "ChildSaStateMachine \<Rightarrow> ChildSaStateMachine \<times> (DataplaneStateError + unit)" where
  "begin_rekey m =
     (case require_ready_for_frames m of Inl e \<Rightarrow> (m, Inl e)
      | Inr _ \<Rightarrow> (m\<lparr>phase := Rekey\<rparr>, Inr ()))"

definition teardown :: "ChildSaStateMachine \<Rightarrow> ChildSaStateMachine" where
  "teardown m = m\<lparr>phase := Teardown, inbound_sa := None, outbound_sa := None,
     selected_esp_proposal := None, inner_gateway := (inner_gateway m)\<lparr>queue := []\<rparr>\<rparr>"

definition record_inbound_esp_frame :: "ChildSaStateMachine \<Rightarrow> u64 \<Rightarrow> nat
    \<Rightarrow> ChildSaStateMachine \<times> (DataplaneStateError + EspFrameDecision)" where
  "record_inbound_esp_frame m seq n =
     (case require_ready_for_frames m of Inl e \<Rightarrow> (m, Inl e)
      | Inr _ \<Rightarrow>
        (case window_accept (replay_window m) seq of (w, replay) \<Rightarrow>
          let decision = \<lparr>fd_direction = ''inbound'', fd_decision = ard_decision replay,
                fd_accepted = ard_accepted replay, fd_sequence_number = Some seq,
                fd_outer_frame_bytes = n, fd_natt = None, fd_mtu = None,
                fd_policy = ''frame_body_not_serialized''\<rparr>;
              m1 = m\<lparr>replay_window := w\<rparr>;
              m2 = (if ard_accepted replay
                    then m1\<lparr>inbound_sa := map_option (\<lambda>sa. sa_record sa n) (inbound_sa m1),
                            phase := Forwarding\<rparr>
                    else m1)
          in (m2\<lparr>last_frame_decision := Some decision\<rparr>, Inr decision)))"

definition record_inbound_nat_t_packet :: "ChildSaStateMachine \<Rightarrow> bytes
    \<Rightarrow> ChildSaStateMachine \<times> (DataplaneStateError + EspFrameDecision)" where
  "record_inbound_nat_t_packet m wire =
     (case require_ready_for_frames m of Inl e \<Rightarrow> (m, Inl e)
      | Inr _ \<Rightarrow>
        (case parse_nat_t_packet wire of Inl e \<Rightarrow> (m, Inl e)
         | Inr natt \<Rightarrow>
           (case natt_esp natt of
              None \<Rightarrow>
                let decision = \<lparr>fd_direction = ''inbound'', fd_decision = natt_kind natt,
                      fd_accepted = False, fd_sequence_number = None,
                      fd_outer_frame_bytes = length wire, fd_natt = Some natt, fd_mtu = None,
                      fd_policy = ''control_or_keepalive_packet_metadata_only''\<rparr>
                in (m\<lparr>last_frame_decision := Some decision\<rparr>, Inr decision)
            | Some esp \<Rightarrow>
                (case window_accept (replay_window m) (esp_sequence_number esp) of (w, replay) \<Rightarrow>
                  let decision = \<lparr>fd_direction = ''inbound'', fd_decision = ard_decision replay,
                        fd_accepted = ard_accepted replay,
                        fd_sequence_number = Some (esp_sequence_number esp),
                        fd_outer_frame_bytes = length wire, fd_natt = Some natt, fd_mtu = None,
                        fd_policy = ''frame_body_not_serialized''\<rparr>;
                      m1 = m\<lparr>replay_window := w\<rparr>;
                      m2 = (if ard_accepted replay
                            then m1\<lparr>inbound_sa := map_option (\<lambda>sa. sa_record sa (length wire))
                                                    (inbound_sa m1),
                                    inner_gateway :=
                                      fst (record_inbound (inner_gateway m1) (protected_bytes esp)),
                                    phase := Forwarding\<rparr>
                            else m1)
                  in (m2\<lparr>last_frame_decision := Some decision\<rparr>, Inr decision)))))"

definition record_outbound_wire_frame :: "ChildSaStateMachine \<Rightarrow> u64 \<Rightarrow> nat
    \<Rightarrow> NattPacketSummary option \<Rightarrow> MtuDecision option
    \<Rightarrow> ChildSaStateMachine \<times> (DataplaneStateError + EspFrameDecision)" where
  "record_outbound_wire_frame m seq n natt mtu_d =
     (let decision = \<lparr>fd_direction = ''outbound'', fd_decision = ''accepted_local_frame'',
            fd_accepted = True, fd_sequence_number = Some seq, fd_outer_frame_bytes = n,
            fd_natt = natt, fd_mtu = mtu_d, fd_policy = ''frame_body_not_serialized''\<rparr>
      in (m\<lparr>outbound_sa := map_option (\<lambda>sa. sa_record sa n) (outbound_sa m), phase := Forwarding,
            last_frame_decision := Some decision\<rparr>, Inr decision))"

definition record_outbound_esp_frame :: "ChildSaStateMachine \<Rightarrow> nat
    \<Rightarrow> ChildSaStateMachine \<times> (DataplaneStateError + EspFrameDecision)" where
  "record_outbound_esp_frame m n =
     (case require_ready_for_frames m of Inl e \<Rightarrow> (m, Inl e)
      | Inr _ \<Rightarrow>
        (case outbound_sa m of None \<Rightarrow> (m, Inl InvalidSaIdentifier)
         | Some sa \<Rightarrow>
           (case allocate_sequence sa of
              (sa', Inl e) \<Rightarrow> (m\<lparr>outbound_sa := Some sa'\<rparr>, Inl e)
            | (sa', Inr seq) \<Rightarrow>
                record_outbound_wire_frame (m\<lparr>outbound_sa := Some sa'\<rparr>) seq n None None)))"

definition protected_len_for_inner_packet :: "nat \<Rightarrow> nat" where
  "protected_len_for_inner_packet n =
     AES_CBC_IV_BYTES + n + ESP_TRAILER_BUDGET_BYTES + DEFAULT_INTEGRITY_CHECK_BYTES"

definition evaluate_mtu :: "ChildSaStateMachine \<Rightarrow> nat \<Rightarrow> MtuDecision" where
  "evaluate_mtu m n =
     (let estimated = n + unat (estimated_overhead_bytes (mtu m));
          accepted = (estimated \<le> unat (outer_mtu (mtu m)))
      in \<lparr>mtu_decision = (if accepted then ''accepted_within_mtu'' else ''mtu_exceeded''),
          mtu_accepted = accepted, mtu_inner_packet_bytes = n,
          estimated_outer_frame_bytes = estimated, mtu_outer_mtu = outer_mtu (mtu m),
          mtu_decision_policy = ''packet_lengths_only''\<rparr>)"

definition record_outbound_inner_packet :: "ChildSaStateMachine \<Rightarrow> bytes
    \<Rightarrow> ChildSaStateMachine \<times> (DataplaneStateError + EspFrameDecision)" where
  "record_outbound_inner_packet m inner =
     (case require_ready_for_frames m of Inl e \<Rightarrow> (m, Inl e)
      | Inr _ \<Rightarrow>
        let mtu_d = evaluate_mtu m (length inner)
        in if \<not> mtu_accepted mtu_d then
             let decision = \<lparr>fd_direction = ''outbound'', fd_decision = ''mtu_drop'',
                   fd_accepted = False, fd_sequence_number = None,
                   fd_outer_frame_bytes = estimated_outer_frame_bytes mtu_d, fd_natt = None,
                   fd_mtu = Some mtu_d, fd_policy = ''inner_packet_not_serialized''\<rparr>
             in (m\<lparr>mtu_drops := saturating_add (mtu_drops m) 1,
                   inner_gateway := fst (record_drop (inner_gateway m) inner ''mtu_exceeded''),
                   last_frame_decision := Some decision\<rparr>, Inr decision)
           else
             (case enqueue_outbound (inner_gateway m) inner of
                (g, Inl e) \<Rightarrow> (m\<lparr>inner_gateway := g\<rparr>, Inl e)
              | (g, Inr _) \<Rightarrow>
                let m1 = m\<lparr>inner_gateway := g\<rparr>
                in (case outbound_sa m1 of None \<Rightarrow> (m1, Inl InvalidSaIdentifier)
                    | Some sa \<Rightarrow>
                      (case allocate_sequence sa of
                         (sa', Inl e) \<Rightarrow> (m1\<lparr>outbound_sa := Some sa'\<rparr>, Inl e)
                       | (sa', Inr seq) \<Rightarrow>
                         let m2 = m1\<lparr>outbound_sa := Some sa'\<rparr>
                         in (case build_esp_frame_metadata (sa_identifier sa') seq
                                    (protected_len_for_inner_packet (length inner)) of
                               Inl e \<Rightarrow> (m2, Inl e)
                             | Inr esp_frame \<Rightarrow>
                               let natt = wrap_esp_metadata_for_nat_t esp_frame
                               in record_outbound_wire_frame m2 seq (wire_bytes natt) (Some natt)
                                    (Some mtu_d))))))"

section \<open>Public snapshots\<close>

record InnerGatewayPublicState =
  gwp_adapter :: string
  gwp_ip_stack :: string
  gwp_queue_capacity :: nat
  queued_packets :: nat
  gwp_packets_to_esp :: u64
  gwp_packets_from_esp :: u64
  gwp_last_packet :: "InnerPacketMetadata option"
  gwp_policy :: string

record SaPairPublicState =
  inbound_sa_identifier_present :: bool
  outbound_sa_identifier_present :: bool
  outbound_sequence_allocated :: u64
  packets_in :: u64
  packets_out :: u64
  bytes_in :: u64
  bytes_out :: u64
  pair_policy :: string

record ChildSaPublicState =
  pub_profile_id :: string
  pub_plmn :: string
  pub_phase :: string
  pub_selected_esp_proposal :: "string option"
  pub_inbound_present :: bool
  pub_outbound_present :: bool
  sa_pair :: SaPairPublicState
  pub_replay_window :: AntiReplayWindowSnapshot
  pub_mtu :: MtuPlan
  pub_mtu_drops :: u64
  pub_smoltcp :: SmoltcpGatewayPlan
  pub_inner_gateway :: InnerGatewayPublicState
  pub_packets_in :: u64
  pub_packets_out :: u64
  pub_bytes_in :: u64
  pub_bytes_out :: u64
  pub_last_frame_decision :: "EspFrameDecision option"
  pub_last_error :: "string option"
  pub_policy :: string

definition gateway_snapshot :: "InnerGatewayState \<Rightarrow> InnerGatewayPublicState" where
  "gateway_snapshot g = \<lparr>gwp_adapter = ''smoltcp_virtual_device'', gwp_ip_stack = gw_ip_stack g,
     gwp_queue_capacity = queue_capacity g, queued_packets = length (queue g),
     gwp_packets_to_esp = packets_to_esp g, gwp_packets_from_esp = packets_from_esp g,
     gwp_last_packet = last_packet g,
     gwp_policy = ''inner_packet_metadata_only_no_payload_serialized''\<rparr>"

definition map_or_default :: "('a \<Rightarrow> u64) \<Rightarrow> 'a option \<Rightarrow> u64" where
  "map_or_default f x = (case x of None \<Rightarrow> 0 | Some v \<Rightarrow> f v)"

definition child_sa_snapshot :: "ChildSaStateMachine \<Rightarrow> ChildSaPublicState" where
  "child_sa_snapshot m =
     (let plan = build_dataplane_plan (profile m);
          inbound = inbound_sa m; outbound = outbound_sa m;
          p_in = map_or_default packets inbound; p_out = map_or_default packets outbound;
          b_in = map_or_default sa_bytes inbound; b_out = map_or_default sa_bytes outbound
      in \<lparr>pub_profile_id = profile_id (meta (profile m)), pub_plmn = plmn (meta (profile m)),
          pub_phase = phase_as_str (phase m),
          pub_selected_esp_proposal = map_option esp_proposal (selected_esp_proposal m),
          pub_inbound_present = (inbound \<noteq> None), pub_outbound_present = (outbound \<noteq> None),
          sa_pair = \<lparr>inbound_sa_identifier_present = (inbound \<noteq> None),
            outbound_sa_identifier_present = (outbound \<noteq> None),
            outbound_sequence_allocated =
              map_or_default (\<lambda>sa. saturating_sub (next_sequence sa) 1) outbound,
            packets_in = p_in, packets_out = p_out, bytes_in = b_in, bytes_out = b_out,
            pair_policy = ''sa_identifiers_and_key_material_not_serialized''\<rparr>,
          pub_replay_window = window_snapshot (replay_window m), pub_mtu = mtu m,
          pub_mtu_drops = mtu_drops m, pub_smoltcp = plan_smoltcp plan,
          pub_inner_gateway = gateway_snapshot (inner_gateway m),
          pub_packets_in = p_in, pub_packets_out = p_out, pub_bytes_in = b_in,
          pub_bytes_out = b_out, pub_last_frame_decision = last_frame_decision m,
          pub_last_error = last_error m,
          pub_policy = ''sa_identifiers_secrets_and_frame_bodies_not_serialized''\<rparr>)"

end
