(* ===== verification/Ike_State.thy ===== *)
theory Ike_State
  imports Ike_Encrypted Ike_Retransmit Ike_Eap Ike_Events Ip_Packet Child_Sa
begin

text \<open>
  The initiator's exchange state, \<open>ike_state.rs\<close>: the phases from IKE_SA_INIT over the EAP-AKA rounds
  to the CHILD_SA, what each request carries, what each response is checked for, and the material the
  data plane takes over.  An operation takes the machine and returns its result with the machine it
  leaves; where keys are derived \<open>None\<close> stands for a panic or an endless loop of the derivation.  The
  digests, the ciphers and the random initialisation vectors are arguments.
\<close>

unbundle bit_operations_syntax

section \<open>Phases, summaries and errors\<close>

datatype IkeStatePhase =
    IkeIdle | SaInitRequestBuilt | SaInitResponseAccepted | SessionKeysReady | AuthRequestBuilt
  | EapAkaChallengeReceived | EapAkaIdentityReceived | UsimAkaResponsePending
  | EapAkaNotificationReceived | EapAkaResponseReady | AuthSuccessAccepted | ChildSaReady
  | RekeyPending | ReauthRequired | ChildSaMissing | TeardownRequested | IkeFailed

fun ike_phase_as_str :: "IkeStatePhase \<Rightarrow> string" where
  "ike_phase_as_str IkeIdle = ''idle''"
| "ike_phase_as_str SaInitRequestBuilt = ''sa_init_request_built''"
| "ike_phase_as_str SaInitResponseAccepted = ''sa_init_response_accepted''"
| "ike_phase_as_str SessionKeysReady = ''session_keys_ready''"
| "ike_phase_as_str AuthRequestBuilt = ''auth_request_built''"
| "ike_phase_as_str EapAkaChallengeReceived = ''eap_aka_challenge_received''"
| "ike_phase_as_str EapAkaIdentityReceived = ''eap_aka_identity_received''"
| "ike_phase_as_str UsimAkaResponsePending = ''usim_aka_response_pending''"
| "ike_phase_as_str EapAkaNotificationReceived = ''eap_aka_notification_received''"
| "ike_phase_as_str EapAkaResponseReady = ''eap_aka_response_ready''"
| "ike_phase_as_str AuthSuccessAccepted = ''auth_success_accepted''"
| "ike_phase_as_str ChildSaReady = ''child_sa_ready''"
| "ike_phase_as_str RekeyPending = ''rekey_pending''"
| "ike_phase_as_str ReauthRequired = ''reauth_required''"
| "ike_phase_as_str ChildSaMissing = ''child_sa_missing''"
| "ike_phase_as_str TeardownRequested = ''teardown_requested''"
| "ike_phase_as_str IkeFailed = ''failed''"

record IkeTranscriptEvent =
  event_message_id :: u32
  event_exchange :: string
  event_direction :: string
  event_payloads :: "string list"
  event_note :: string

record IkeChildSaSummary =
  responder_auth_present :: bool
  child_sa_present :: bool
  selected_esp_proposal_present :: bool
  inbound_sa_identifier_present :: bool
  outbound_sa_identifier_present :: bool
  configuration_reply_present :: bool
  assigned_inner_address_present :: bool
  assigned_inner_address_count :: nat
  assigned_ipv6_prefix_length_present :: bool
  pcscf_present :: bool
  pcscf_count :: nat
  dns_present :: bool
  dns_count :: nat
  traffic_selectors_present :: bool
  child_sa_policy :: string

record IkeConfigurationMaterial =
  assigned_inner_addresses :: "IpAddr list"
  assigned_ipv6_prefix_length :: "u8 option"
  pcscf_addresses :: "IpAddr list"
  dns_addresses :: "IpAddr list"

record IkeChildSaMaterial =
  inbound_sa_identifier :: u32
  outbound_sa_identifier :: u32
  selected_profile_proposal :: string
  child_proposal :: ParsedProposal
  child_configuration :: "IkeConfigurationMaterial option"
  child_secrets :: ChildSaSecretPair

datatype IkeAuthProgress =
  EapAkaIdentity bytes | EapAkaNotification bytes | EapSuccess bool

record IkePrivateContext =
  ctx_initiator_spi :: u64
  ctx_responder_spi :: "u64 option"
  ctx_initiator_nonce :: bytes
  ctx_responder_nonce :: "bytes option"
  initiator_public_dh :: bytes
  initiator_dh_group :: u16
  responder_public_dh :: "bytes option"
  selected_proposal :: "string option"
  offered_ike_proposals :: "string list"
  secret_bundle :: "IkeSecretBundle option"
  encrypted_plan :: "EncryptedPayloadPlan option"
  sa_init_request_packet :: "bytes option"
  sa_init_response_packet :: "bytes option"
  initiator_id_payload_body :: "bytes option"
  ctx_child_sa_initiator_spi :: "bytes option"
  ctx_child_sa_material :: "IkeChildSaMaterial option"
  ctx_nat_t_supported :: bool

record IkeAccessConfig =
  access_ip_stack :: string
  access_apn :: "string option"
  access_epdg_host :: string
  access_device_identity :: "string option"

definition access_from_profile :: "CarrierProfile \<Rightarrow> IkeAccessConfig" where
  "access_from_profile p =
     \<lparr>access_ip_stack = epdg_ip_stack (epdg p), access_apn = epdg_apn (epdg p),
      access_epdg_host = epdg_host (epdg p), access_device_identity = None\<rparr>"

datatype IkeStateError =
    EmptyProfileProposals
  | PayloadBuildFailed PayloadBuildError
  | ProposalParseFailed ProposalParseError
  | SaParseFailed SaParseError
  | KeyScheduleFailed IkeKeyError
  | EncryptedPayloadFailed EncryptedPayloadError
  | CodecFailed IkeCodecError
  | ControlEventFailed IkeControlEventError
  | EapFailed EapAkaError
  | InvalidPhase string string
  | InvalidResponse string

section \<open>The text of the errors\<close>

fun display_codec_error :: "IkeCodecError \<Rightarrow> string" where
  "display_codec_error TruncatedHeader = ''truncated IKE header''"
| "display_codec_error TruncatedPayload = ''truncated IKE payload''"
| "display_codec_error (InvalidMajorVersion v) = ''invalid IKE major version '' @ show_word v"
| "display_codec_error (InvalidMessageLength declared actual) =
     ''invalid IKE message length declared='' @ show_nat declared @ '' actual='' @ show_nat actual"
| "display_codec_error (InvalidPayloadLength declared) =
     ''invalid IKE payload length declared='' @ show_nat declared"
| "display_codec_error (MessageTooLarge n) = ''IKE message too large: '' @ show_nat n @ '' bytes''"

fun display_key_error :: "IkeKeyError \<Rightarrow> string" where
  "display_key_error MissingPrfTransform = ''missing IKE PRF transform''"
| "display_key_error MissingEncryptionTransform = ''missing IKE encryption transform''"
| "display_key_error MissingIntegrityTransform = ''missing IKE integrity transform''"
| "display_key_error MissingEncryptionKeyLength = ''missing IKE encryption key length''"
| "display_key_error (UnsupportedPrf i) = ''unsupported IKE PRF transform '' @ show_word i"
| "display_key_error (UnsupportedPrfName s) = ''unsupported IKE PRF algorithm '' @ s"
| "display_key_error (UnsupportedEncryption i) = ''unsupported IKE encryption transform '' @ show_word i"
| "display_key_error (UnsupportedIntegrity i) = ''unsupported IKE integrity transform '' @ show_word i"
| "display_key_error EmptySharedSecret = ''empty IKE shared secret''"
| "display_key_error EmptyNonce = ''empty IKE nonce''"
| "display_key_error (OutputTooLarge n) = ''IKE key schedule output too large: '' @ show_nat n"

fun display_build_error :: "PayloadBuildError \<Rightarrow> string" where
  "display_build_error EmptyTransforms = ''proposal has no transforms''"
| "display_build_error (TooManyTransforms n) = ''too many transforms: '' @ show_nat n"
| "display_build_error (SpiTooLarge n) = ''SPI too large: '' @ show_nat n @ '' bytes''"
| "display_build_error (ProposalTooLarge n) = ''proposal too large: '' @ show_nat n @ '' bytes''"
| "display_build_error (TransformTooLarge n) = ''transform too large: '' @ show_nat n @ '' bytes''"

fun display_sa_parse_error :: "SaParseError \<Rightarrow> string" where
  "display_sa_parse_error TruncatedProposal = ''truncated SA proposal''"
| "display_sa_parse_error TruncatedTransform = ''truncated SA transform''"
| "display_sa_parse_error (InvalidProposalLength n) = ''invalid SA proposal length: '' @ show_nat n"
| "display_sa_parse_error (InvalidTransformLength n) = ''invalid SA transform length: '' @ show_nat n"
| "display_sa_parse_error (InvalidAttributeLength n) =
     ''invalid SA transform attribute length: '' @ show_nat n"
| "display_sa_parse_error (SpiExceedsProposal s n) =
     ''SA proposal SPI size exceeds proposal length: spi_size='' @ show_nat s
     @ '' proposal_len='' @ show_nat n"
| "display_sa_parse_error (TransformCountMismatch d n) =
     ''SA proposal transform count mismatch: declared='' @ show_nat d @ '' parsed='' @ show_nat n"

fun display_proposal_error :: "ProposalParseError \<Rightarrow> string" where
  "display_proposal_error EmptyProposal = ''empty IKE proposal''"
| "display_proposal_error MissingEncryption = ''IKE proposal has no encryption transform''"
| "display_proposal_error MissingIntegrity = ''IKE proposal has no integrity transform''"
| "display_proposal_error MissingPrf = ''IKE proposal has no PRF transform''"
| "display_proposal_error MissingDhGroup = ''IKE proposal has no DH group''"
| "display_proposal_error (UnsupportedToken t) = ''unsupported IKE proposal token: '' @ t"

fun display_encrypted_error :: "EncryptedPayloadError \<Rightarrow> string" where
  "display_encrypted_error (UnsupportedCipher s) = ''unsupported IKE cipher: '' @ s"
| "display_encrypted_error (UnsupportedIntegrityName s) = ''unsupported IKE integrity algorithm: '' @ s"
| "display_encrypted_error EmptyInnerPayloads = ''encrypted payload has no inner payloads''"
| "display_encrypted_error RandomFailed = ''encrypted payload random generation failed''"
| "display_encrypted_error (PacketTooLarge n) = ''encrypted payload too large: '' @ show_nat n"
| "display_encrypted_error IntegrityMismatch = ''encrypted payload integrity check failed''"
| "display_encrypted_error InvalidEncryptedPayload = ''invalid encrypted payload''"
| "display_encrypted_error InvalidPadding = ''invalid encrypted payload padding''"
| "display_encrypted_error (CodecError e) = display_codec_error e"

fun display_state_error :: "IkeStateError \<Rightarrow> string" where
  "display_state_error EmptyProfileProposals = ''profile has no IKE proposals''"
| "display_state_error (PayloadBuildFailed e) = display_build_error e"
| "display_state_error (ProposalParseFailed e) = display_proposal_error e"
| "display_state_error (SaParseFailed e) = display_sa_parse_error e"
| "display_state_error (KeyScheduleFailed e) = display_key_error e"
| "display_state_error (EncryptedPayloadFailed e) = display_encrypted_error e"
| "display_state_error (CodecFailed e) = display_codec_error e"
| "display_state_error (ControlEventFailed e) = display_control_event_error e"
| "display_state_error (EapFailed e) = display_eap_aka_error e"
| "display_state_error (InvalidPhase expected actual) =
     ''invalid IKE phase expected='' @ expected @ '' actual='' @ actual"
| "display_state_error (InvalidResponse reason) = ''invalid IKE response: '' @ reason"

section \<open>The machine\<close>

record IkeStateMachine =
  ike_profile :: CarrierProfile
  ike_access :: IkeAccessConfig
  ike_phase :: IkeStatePhase
  next_message_id :: u32
  retransmit_policy :: RetransmitPolicy
  retransmit :: RetransmitState
  ctx :: IkePrivateContext
  ike_eap :: "EapAkaPacketSummary option"
  ike_child_sa :: "IkeChildSaSummary option"
  transcript :: "IkeTranscriptEvent list"
  last_control_event :: "IkeControlEvent option"
  ike_last_error :: "string option"

record IkePublicSnapshot =
  snap_profile_id :: string
  snap_plmn :: string
  snap_phase :: string
  initiator_spi_present :: bool
  responder_spi_present :: bool
  snap_next_message_id :: u32
  snap_selected_proposal :: "string option"
  snap_key_schedule :: "IkeKeySchedulePlan option"
  snap_encrypted_payload :: "EncryptedPayloadPlan option"
  snap_retransmit :: RetransmitState
  snap_last_control_event :: "IkeControlEvent option"
  snap_eap :: "EapAkaPacketSummary option"
  snap_child_sa :: "IkeChildSaSummary option"
  snap_transcript :: "IkeTranscriptEvent list"
  snap_last_error :: "string option"
  snap_policy :: string

definition new_with_dh_group_and_access ::
    "CarrierProfile \<Rightarrow> IkeAccessConfig \<Rightarrow> u64 \<Rightarrow> bytes \<Rightarrow> bytes \<Rightarrow> u16 \<Rightarrow> IkeStateMachine" where
  "new_with_dh_group_and_access p access spi_i nonce_i public_dh group_id =
     \<lparr>ike_profile = p, ike_access = access, ike_phase = IkeIdle, next_message_id = 0,
      retransmit_policy = retransmit_policy_default,
      retransmit = initial_state retransmit_policy_default 0,
      ctx = \<lparr>ctx_initiator_spi = spi_i, ctx_responder_spi = None, ctx_initiator_nonce = nonce_i,
        ctx_responder_nonce = None, initiator_public_dh = public_dh, initiator_dh_group = group_id,
        responder_public_dh = None, selected_proposal = None, offered_ike_proposals = [],
        secret_bundle = None, encrypted_plan = None, sa_init_request_packet = None,
        sa_init_response_packet = None, initiator_id_payload_body = None,
        ctx_child_sa_initiator_spi = None, ctx_child_sa_material = None, ctx_nat_t_supported = False\<rparr>,
      ike_eap = None, ike_child_sa = None, transcript = [], last_control_event = None,
      ike_last_error = None\<rparr>"

definition new_with_dh_group :: "CarrierProfile \<Rightarrow> u64 \<Rightarrow> bytes \<Rightarrow> bytes \<Rightarrow> u16 \<Rightarrow> IkeStateMachine" where
  "new_with_dh_group p spi_i nonce_i public_dh group_id =
     new_with_dh_group_and_access p (access_from_profile p) spi_i nonce_i public_dh group_id"

definition ike_state_new :: "CarrierProfile \<Rightarrow> u64 \<Rightarrow> bytes \<Rightarrow> bytes \<Rightarrow> IkeStateMachine" where
  "ike_state_new p spi_i nonce_i public_dh = new_with_dh_group p spi_i nonce_i public_dh DH_MODP_2048"

definition ike_snapshot :: "IkeStateMachine \<Rightarrow> IkePublicSnapshot" where
  "ike_snapshot m =
     \<lparr>snap_profile_id = profile_id (meta (ike_profile m)), snap_plmn = plmn (meta (ike_profile m)),
      snap_phase = ike_phase_as_str (ike_phase m),
      initiator_spi_present = (ctx_initiator_spi (ctx m) \<noteq> 0),
      responder_spi_present = (ctx_responder_spi (ctx m) \<noteq> None),
      snap_next_message_id = next_message_id m,
      snap_selected_proposal = selected_proposal (ctx m),
      snap_key_schedule = map_option bundle_plan (secret_bundle (ctx m)),
      snap_encrypted_payload = encrypted_plan (ctx m), snap_retransmit = retransmit m,
      snap_last_control_event = last_control_event m, snap_eap = ike_eap m,
      snap_child_sa = ike_child_sa m, snap_transcript = transcript m,
      snap_last_error = ike_last_error m, snap_policy = ''handshake_material_never_serialized''\<rparr>"

text \<open>\<open>settle m r\<close> ends an operation: an error of \<open>?\<close> leaves the machine as it was, and otherwise \<open>r\<close>
  carries the result and the machine itself.  \<open>map_err\<close> is the conversion of a callee's error.\<close>

type_synonym 'a ike_result = "(IkeStateError + 'a) \<times> IkeStateMachine"

definition settle :: "IkeStateMachine \<Rightarrow> IkeStateError + 'a ike_result \<Rightarrow> 'a ike_result" where
  "settle m r = (case r of Inl e \<Rightarrow> (Inl e, m) | Inr x \<Rightarrow> x)"

definition map_err :: "('e \<Rightarrow> 'f) \<Rightarrow> 'e + 'a \<Rightarrow> 'f + 'a" where
  "map_err f r = (case r of Inl e \<Rightarrow> Inl (f e) | Inr x \<Rightarrow> Inr x)"

definition require_phase :: "IkeStateMachine \<Rightarrow> IkeStatePhase \<Rightarrow> IkeStateError + unit" where
  "require_phase m expected =
     (if ike_phase m = expected then Inr ()
      else Inl (InvalidPhase (ike_phase_as_str expected) (ike_phase_as_str (ike_phase m))))"

definition ike_fail :: "IkeStateMachine \<Rightarrow> IkeStateError \<Rightarrow> 'a ike_result" where
  "ike_fail m e = (Inl e, m\<lparr>ike_phase := IkeFailed, ike_last_error := Some (display_state_error e)\<rparr>)"

definition push_transcript ::
    "u32 \<Rightarrow> string \<Rightarrow> string \<Rightarrow> string list \<Rightarrow> string \<Rightarrow> IkeStateMachine \<Rightarrow> IkeStateMachine" where
  "push_transcript mid exchange direction names note m =
     m\<lparr>transcript := transcript m @ [\<lparr>event_message_id = mid, event_exchange = exchange,
        event_direction = direction, event_payloads = names, event_note = note\<rparr>]\<rparr>"

fun exchange_name :: "IkeExchangeType \<Rightarrow> string" where
  "exchange_name IkeSaInit = ''ike_sa_init''"
| "exchange_name IkeAuth = ''ike_auth''"
| "exchange_name CreateChildSa = ''create_child_sa''"
| "exchange_name Informational = ''informational''"
| "exchange_name SessionResume = ''session_resume''"
| "exchange_name (UnknownExchange _) = ''unknown''"

fun state_payload_name :: "IkePayloadType \<Rightarrow> string" where
  "state_payload_name NoNext = ''no_next''"
| "state_payload_name SecurityAssociation = ''security_association''"
| "state_payload_name KeyExchange = ''key_exchange''"
| "state_payload_name IdentificationInitiator = ''identification_initiator''"
| "state_payload_name IdentificationResponder = ''identification_responder''"
| "state_payload_name Certificate = ''certificate''"
| "state_payload_name CertificateRequest = ''certificate_request''"
| "state_payload_name Authentication = ''authentication''"
| "state_payload_name Nonce = ''nonce''"
| "state_payload_name Notify = ''notify''"
| "state_payload_name Delete = ''delete''"
| "state_payload_name VendorId = ''vendor_id''"
| "state_payload_name TrafficSelectorInitiator = ''traffic_selector_initiator''"
| "state_payload_name TrafficSelectorResponder = ''traffic_selector_responder''"
| "state_payload_name Encrypted = ''encrypted''"
| "state_payload_name Configuration = ''configuration''"
| "state_payload_name ExtensibleAuthentication = ''extensible_authentication''"
| "state_payload_name EncryptedFragment = ''encrypted_fragment''"
| "state_payload_name (UnknownPayload _) = ''unknown''"

definition payload_names :: "IkePayload list \<Rightarrow> string list" where
  "payload_names ps = map (\<lambda>p. state_payload_name (payload_type p)) ps"

definition push_event :: "IkeMessage \<Rightarrow> string \<Rightarrow> string \<Rightarrow> IkeStateMachine \<Rightarrow> IkeStateMachine" where
  "push_event message direction note m =
     push_transcript (IkeHeader.message_id (header message)) (exchange_name (exchange_type (header message)))
       direction (payload_names (payloads message)) note m"

section \<open>IKE_SA_INIT\<close>

definition notify_type :: "bytes \<Rightarrow> u16 option" where
  "notify_type content = (if length content < 4 then None else Some (u16_from_be [content ! 2, content ! 3]))"

fun ip_octets :: "IpAddr \<Rightarrow> bytes" where
  "ip_octets (V4 a) = a"
| "ip_octets (V6 a) = a"

definition nat_detection_hash :: "(bytes \<Rightarrow> bytes) \<Rightarrow> u64 \<Rightarrow> u64 \<Rightarrow> IpAddr \<times> u16 \<Rightarrow> bytes" where
  "nat_detection_hash sha1 spi_i spi_r addr =
     sha1 (u64_be spi_i @ u64_be spi_r @ ip_octets (fst addr) @ u16_be (snd addr))"

definition find_payload :: "IkePayload list \<Rightarrow> IkePayloadType \<Rightarrow> IkePayload option" where
  "find_payload ps ty = find (\<lambda>p. payload_type p = ty) ps"

text \<open>The offered proposals of the initiator's group; a list given by the caller must be all of it.\<close>

fun effective_proposals :: "u16 \<Rightarrow> bool \<Rightarrow> string list \<Rightarrow> IkeStateError + string list" where
  "effective_proposals group_id given [] = Inr []"
| "effective_proposals group_id given (s # ss) =
     rbind (map_err ProposalParseFailed (ike_proposal_dh_group_from_profile_string s)) (\<lambda>g.
       if g \<noteq> group_id then
         if given then Inl (InvalidResponse ''proposal_dh_group_mismatch'')
         else effective_proposals group_id given ss
       else rmap ((#) s) (effective_proposals group_id given ss))"

definition numbered_proposals :: "string list \<Rightarrow> ProposalParseError + ProposalSpec list" where
  "numbered_proposals ss =
     rmapM (\<lambda>(i, s). ike_proposal_from_profile_string s (word_of_nat (i + 1))) (enumerate 0 ss)"

definition nat_detection_notifies ::
    "(bytes \<Rightarrow> bytes) \<Rightarrow> u64 \<Rightarrow> ((IpAddr \<times> u16) \<times> (IpAddr \<times> u16)) option
      \<Rightarrow> PayloadBuildError + IkePayload list" where
  "nat_detection_notifies sha1 spi_i addrs =
     (case addrs of
        None \<Rightarrow> Inr []
      | Some (source, destination) \<Rightarrow>
          rbind (build_notify_payload NotifyNone [] 16388 (nat_detection_hash sha1 spi_i 0 source)) (\<lambda>s.
          rbind (build_notify_payload NotifyNone [] 16389 (nat_detection_hash sha1 spi_i 0 destination)) (\<lambda>d.
          Inr [s, d])))"

definition build_sa_init_request_for_transport ::
    "(bytes \<Rightarrow> bytes) \<Rightarrow> ((IpAddr \<times> u16) \<times> (IpAddr \<times> u16)) option \<Rightarrow> string list option
      \<Rightarrow> IkeStateMachine \<Rightarrow> IkeMessage ike_result" where
  "build_sa_init_request_for_transport sha1 addrs proposal_texts m = settle m (
     rbind (require_phase m IkeIdle) (\<lambda>_.
     let requested = (case proposal_texts of Some ss \<Rightarrow> ss | None \<Rightarrow> ike_proposals (ikev2 (ike_profile m)))
     in if requested = [] then Inl EmptyProfileProposals
        else
          rbind (effective_proposals (initiator_dh_group (ctx m)) (proposal_texts \<noteq> None) requested) (\<lambda>effective.
          if effective = [] then Inl (InvalidResponse ''no_proposal_for_initiator_dh_group'')
          else
            rbind (map_err ProposalParseFailed (numbered_proposals effective)) (\<lambda>proposals.
            rbind (map_err PayloadBuildFailed (build_sa_payload proposals)) (\<lambda>sa.
            rbind (map_err PayloadBuildFailed
                     (nat_detection_notifies sha1 (ctx_initiator_spi (ctx m)) addrs)) (\<lambda>notifies.
            let message = new_request (ctx_initiator_spi (ctx m)) IkeSaInit 0
                  ([sa, build_ke_payload (initiator_dh_group (ctx m)) (initiator_public_dh (ctx m)),
                    build_nonce_payload (ctx_initiator_nonce (ctx m))] @ notifies);
                m1 = m\<lparr>ctx := (ctx m)\<lparr>offered_ike_proposals := effective,
                                  selected_proposal := Some (hd effective)\<rparr>\<rparr>
            in Inr (case encode message of
                 Inl e \<Rightarrow> (Inl (CodecFailed e), m1)
               | Inr packet \<Rightarrow>
                   (Inr message, push_event message ''outbound'' ''sa_init_request_built''
                      (m1\<lparr>ctx := (ctx m1)\<lparr>sa_init_request_packet := Some packet\<rparr>,
                          ike_phase := SaInitRequestBuilt,
                          retransmit := initial_state (retransmit_policy m) 0\<rparr>)))))))))"

definition build_sa_init_request :: "(bytes \<Rightarrow> bytes) \<Rightarrow> IkeStateMachine \<Rightarrow> IkeMessage ike_result" where
  "build_sa_init_request sha1 m = build_sa_init_request_for_transport sha1 None None m"

definition build_sa_init_request_for_addresses ::
    "(bytes \<Rightarrow> bytes) \<Rightarrow> IpAddr \<times> u16 \<Rightarrow> IpAddr \<times> u16 \<Rightarrow> IkeStateMachine \<Rightarrow> IkeMessage ike_result" where
  "build_sa_init_request_for_addresses sha1 source destination m =
     build_sa_init_request_for_transport sha1 (Some (source, destination)) None m"

definition build_sa_init_request_for_addresses_with_proposals ::
    "(bytes \<Rightarrow> bytes) \<Rightarrow> IpAddr \<times> u16 \<Rightarrow> IpAddr \<times> u16 \<Rightarrow> string list \<Rightarrow> IkeStateMachine
      \<Rightarrow> IkeMessage ike_result" where
  "build_sa_init_request_for_addresses_with_proposals sha1 source destination proposal_texts m =
     build_sa_init_request_for_transport sha1 (Some (source, destination)) (Some proposal_texts) m"

definition transform_attributes_match :: "ParsedTransform \<Rightarrow> TransformSpec \<Rightarrow> bool" where
  "transform_attributes_match parsed expected \<longleftrightarrow>
     list_all (\<lambda>a. case a of KeyLength bits \<Rightarrow>
         list_ex (\<lambda>pa. attribute_type pa = 14 \<and> attribute_value pa = bits) (parsed_attributes parsed))
       (attributes expected)"

definition offers_transforms :: "ParsedProposal \<Rightarrow> ProposalSpec \<Rightarrow> bool" where
  "offers_transforms parsed expected \<longleftrightarrow>
     list_all (\<lambda>t. list_ex (\<lambda>pt. parsed_transform_type pt = transform_type_as_u8 (transform_type t)
           \<and> parsed_transform_id pt = transform_id t \<and> transform_attributes_match pt t)
         (parsed_transforms parsed)) (transforms expected)"

definition ike_proposal_chosen :: "ParsedProposal list \<Rightarrow> nat \<times> string \<Rightarrow> bool" where
  "ike_proposal_chosen proposals offer =
     (case offer of (i, s) \<Rightarrow>
        (case ike_proposal_from_profile_string s (word_of_nat (i + 1)) of
           Inl _ \<Rightarrow> False
         | Inr expected \<Rightarrow>
             list_ex (\<lambda>p. parsed_protocol_id p = protocol_id_as_u8 (protocol_id expected)
               \<and> offers_transforms p expected) proposals))"

definition matching_ike_profile_proposal :: "ParsedProposal list \<Rightarrow> string list \<Rightarrow> string option" where
  "matching_ike_profile_proposal proposals offered =
     map_option snd (find (ike_proposal_chosen proposals) (enumerate 0 offered))"

text \<open>The checks of the response in the order of the code; each failure ends the exchange.\<close>

definition sa_init_header_reason :: "IkeStateMachine \<Rightarrow> IkeHeader \<Rightarrow> string option" where
  "sa_init_header_reason m h =
     (if exchange_type h \<noteq> IkeSaInit then Some ''unexpected_exchange''
      else if \<not> response (header_flags h) then Some ''expected_response_flag''
      else if initiator_spi h \<noteq> ctx_initiator_spi (ctx m) then Some ''initiator_spi_mismatch''
      else if IkeHeader.message_id h \<noteq> 0 \<or> initiator (header_flags h) then Some ''sa_init_transaction_mismatch''
      else if responder_spi h = 0 then Some ''missing_responder_spi''
      else None)"

definition sa_init_body_reason :: "IkeStateMachine \<Rightarrow> IkePayload list \<Rightarrow> bytes \<Rightarrow> bytes \<Rightarrow> string option" where
  "sa_init_body_reason m ps ke_body nonce_body =
     (if \<not> list_all (\<lambda>kind. length (filter (\<lambda>p. payload_type p = kind) ps) = 1)
           [SecurityAssociation, KeyExchange, Nonce]
      then Some ''duplicate_sa_init_payload''
      else if length ke_body \<noteq> 4 + length (initiator_public_dh (ctx m))
           \<or> u16_from_be [ke_body ! 0, ke_body ! 1] \<noteq> initiator_dh_group (ctx m)
           \<or> slice_of ke_body 2 4 \<noteq> [0, 0]
      then Some ''sa_init_ke_mismatch''
      else if \<not> (16 \<le> length nonce_body \<and> length nonce_body \<le> 256)
      then Some ''sa_init_nonce_length_invalid''
      else None)"

definition announces_nat_detection :: "IkePayload list \<Rightarrow> bool" where
  "announces_nat_detection ps =
     list_ex (\<lambda>p. payload_type p = Notify \<and>
       (case notify_type (body p) of None \<Rightarrow> False | Some n \<Rightarrow> n = 16388 \<or> n = 16389)) ps"

definition accept_sa_init_response :: "bytes \<Rightarrow> IkeStateMachine \<Rightarrow> unit ike_result" where
  "accept_sa_init_response response_bytes m = settle m (
     rbind (require_phase m SaInitRequestBuilt) (\<lambda>_.
     rbind (map_err CodecFailed (decode response_bytes)) (\<lambda>message.
     let h = header message; ps = payloads message in Inr (
     case sa_init_header_reason m h of Some reason \<Rightarrow> ike_fail m (InvalidResponse reason) | None \<Rightarrow>
     (case (find_payload ps SecurityAssociation, find_payload ps KeyExchange, find_payload ps Nonce) of
        (Some sa, Some ke, Some non) \<Rightarrow>
          (case parse_sa_payload (body sa) of
             Inl e \<Rightarrow> ike_fail m (SaParseFailed e)
           | Inr parsed \<Rightarrow>
          (case matching_ike_profile_proposal parsed (offered_ike_proposals (ctx m)) of
             None \<Rightarrow> ike_fail m (InvalidResponse ''selected_sa_not_offered_by_profile'')
           | Some chosen \<Rightarrow>
          (case sa_init_body_reason m ps (body ke) (body non) of
             Some reason \<Rightarrow> ike_fail m (InvalidResponse reason)
           | None \<Rightarrow>
               (Inr (), push_event message ''inbound'' ''sa_init_response_accepted''
                 (m\<lparr>ctx := (ctx m)\<lparr>selected_proposal := Some chosen,
                      ctx_responder_spi := Some (responder_spi h),
                      ctx_nat_t_supported := announces_nat_detection ps,
                      responder_public_dh := Some (drop 4 (body ke)),
                      ctx_responder_nonce := Some (body non),
                      sa_init_response_packet := Some response_bytes\<rparr>,
                    ike_phase := SaInitResponseAccepted, next_message_id := 1,
                    retransmit := initial_state (retransmit_policy m) 1\<rparr>)))))
      | _ \<Rightarrow> ike_fail m (InvalidResponse ''missing_sa_init_payload''))))))"

definition required :: "string \<Rightarrow> 'a option \<Rightarrow> IkeStateError + 'a" where
  "required reason v = ok_or v (InvalidResponse reason)"

definition derive_session_keys :: "Crypto \<Rightarrow> bytes \<Rightarrow> IkeStateMachine \<Rightarrow> unit ike_result option" where
  "derive_session_keys c shared_secret m =
     (case rbind (require_phase m SaInitResponseAccepted) (\<lambda>_.
           rbind (required ''missing_selected_proposal'' (selected_proposal (ctx m))) (\<lambda>s.
           rbind (required ''missing_responder_spi'' (ctx_responder_spi (ctx m))) (\<lambda>spi_r.
           rbind (required ''missing_responder_nonce'' (ctx_responder_nonce (ctx m))) (\<lambda>nonce_r.
           rbind (map_err ProposalParseFailed (ike_proposal_from_profile_string s 1)) (\<lambda>proposal.
           Inr (spi_r, nonce_r, proposal)))))) of
        Inl e \<Rightarrow> Some (Inl e, m)
      | Inr (spi_r, nonce_r, proposal) \<Rightarrow>
          map_option (\<lambda>derived. settle m (
              rbind (map_err KeyScheduleFailed derived) (\<lambda>bundle.
              Inr (Inr (), push_transcript (next_message_id m) ''ike_sa_init'' ''local''
                     [''key_schedule_summary''] ''session_keys_ready''
                     (m\<lparr>ctx := (ctx m)\<lparr>secret_bundle := Some bundle\<rparr>, ike_phase := SessionKeysReady\<rparr>)))))
            (derive_ike_secret_bundle c proposal (ctx_initiator_nonce (ctx m)) nonce_r
               (ctx_initiator_spi (ctx m)) spi_r shared_secret))"

section \<open>The first IKE_AUTH request\<close>

definition encrypted_inner_identity_placeholder :: IkePayload where
  "encrypted_inner_identity_placeholder =
     \<lparr>payload_type = IdentificationInitiator, critical = False,
      body = as_bytes ''simadmin-inner-identity-metadata''\<rparr>"

definition with_responder_spi :: "u64 \<Rightarrow> IkeMessage \<Rightarrow> IkeMessage" where
  "with_responder_spi spi_r message = message\<lparr>header := (header message)\<lparr>responder_spi := spi_r\<rparr>\<rparr>"

definition build_auth_eap_start_request :: "IkeStateMachine \<Rightarrow> IkeMessage ike_result" where
  "build_auth_eap_start_request m = settle m (
     rbind (require_phase m SessionKeysReady) (\<lambda>_.
     rbind (required ''missing_responder_spi'' (ctx_responder_spi (ctx m))) (\<lambda>spi_r.
     rbind (required ''missing_session_keys'' (secret_bundle (ctx m))) (\<lambda>bundle.
     rbind (map_err EncryptedPayloadFailed
              (build_encrypted_payload_plan (bundle_plan bundle) [encrypted_inner_identity_placeholder])) (\<lambda>plan.
     let message = with_responder_spi spi_r (new_request (ctx_initiator_spi (ctx m)) IkeAuth
           (next_message_id m) [build_encrypted_metadata_payload plan])
     in Inr (Inr message, push_event message ''outbound'' ''auth_eap_start_request_built''
          (m\<lparr>ike_phase := AuthRequestBuilt, ctx := (ctx m)\<lparr>encrypted_plan := Some plan\<rparr>,
             retransmit := initial_state (retransmit_policy m) (IkeHeader.message_id (header message))\<rparr>)))))))"

definition child_sa_initiator_spi :: "(bytes \<Rightarrow> bytes) \<Rightarrow> IkeStateMachine \<Rightarrow> bytes" where
  "child_sa_initiator_spi sha256 m =
     (case ctx_child_sa_initiator_spi (ctx m) of
        Some s \<Rightarrow> s
      | None \<Rightarrow>
          let seed = u64_be (ctx_initiator_spi (ctx m)) @ ctx_initiator_nonce (ctx m)
                @ (case ctx_responder_nonce (ctx m) of Some n \<Rightarrow> n | None \<Rightarrow> []);
              s = take 4 (sha256 seed)
          in if s = [0, 0, 0, 0] then s[3 := 1] else s)"

definition build_auth_init_payloads ::
    "IkeStateMachine \<Rightarrow> string \<Rightarrow> bytes \<Rightarrow> IkeStateError + IkePayload list" where
  "build_auth_init_payloads m identity child_spi =
     (let texts = esp_proposals (ikev2 (ike_profile m));
          stack_name = access_ip_stack (ike_access m)
      in if texts = [] then Inl (InvalidResponse ''profile_missing_esp_proposal'')
         else if length texts > u8_max then Inl (InvalidResponse ''profile_has_too_many_esp_proposals'')
         else
           rbind (map_err ProposalParseFailed (rmapM (\<lambda>(i, s).
               child_sa_proposal_from_profile_string s (word_of_nat (i + 1)) child_spi) (enumerate 0 texts))) (\<lambda>proposals.
           rbind (map_err PayloadBuildFailed (build_sa_payload proposals)) (\<lambda>sa.
           rbind (map_err PayloadBuildFailed (build_notify_payload NotifyNone [] 16417 [])) (\<lambda>eap_only.
           Inr ([build_identification_initiator_payload identity]
             @ (if include_epdg_idr (ikev2 (ike_profile m))
                then [build_identification_responder_payload
                        (case access_apn (ike_access m) of Some a \<Rightarrow> a | None \<Rightarrow> access_epdg_host (ike_access m))]
                else [])
             @ [build_configuration_request_payload stack_name, sa,
                build_traffic_selector_initiator_payload stack_name,
                build_traffic_selector_responder_payload stack_name, eap_only]
             @ (case access_device_identity (ike_access m) of
                  Some imei \<Rightarrow> [build_device_identity_vendor_payload imei]
                | None \<Rightarrow> []))))))"

text \<open>Encrypting and encoding a request of the initiator, as all three builders do it.\<close>

definition seal_request ::
    "Crypto \<Rightarrow> bytes option \<Rightarrow> IkeStateMachine \<Rightarrow> u64 \<Rightarrow> IkeSecretBundle \<Rightarrow> IkePayload list
      \<Rightarrow> IkeStateError + IkeMessage \<times> bytes" where
  "seal_request c random_iv m spi_r bundle inner =
     rbind (map_err EncryptedPayloadFailed
              (build_encrypted_payload c random_iv bundle InitiatorToResponder inner)) (\<lambda>encrypted.
     let message = encrypted_message_from_payload (ctx_initiator_spi (ctx m)) spi_r IkeAuth True
           (next_message_id m) encrypted in
     rbind (map_err EncryptedPayloadFailed
              (encode_encrypted_message c message (payload_type (hd inner)) bundle InitiatorToResponder)) (\<lambda>packet.
     Inr (message, packet)))"

definition build_auth_eap_start_packet_for_identity ::
    "Crypto \<Rightarrow> (bytes \<Rightarrow> bytes) \<Rightarrow> bytes option \<Rightarrow> string \<Rightarrow> IkeStateMachine \<Rightarrow> bytes ike_result" where
  "build_auth_eap_start_packet_for_identity c sha256 random_iv identity m = settle m (
     rbind (require_phase m SessionKeysReady) (\<lambda>_.
     rbind (required ''missing_responder_spi'' (ctx_responder_spi (ctx m))) (\<lambda>spi_r.
     rbind (required ''missing_session_keys'' (secret_bundle (ctx m))) (\<lambda>bundle.
     let child_spi = child_sa_initiator_spi sha256 m in
     rbind (build_auth_init_payloads m identity child_spi) (\<lambda>inner.
     rbind (map_err EncryptedPayloadFailed (build_encrypted_payload_plan (bundle_plan bundle) inner)) (\<lambda>plan.
     rbind (seal_request c random_iv m spi_r bundle inner) (\<lambda>(message, packet).
     Inr (Inr packet, push_event message ''outbound'' ''auth_eap_start_packet_built''
          (m\<lparr>ike_phase := AuthRequestBuilt,
             ctx := (ctx m)\<lparr>encrypted_plan := Some plan,
               initiator_id_payload_body := map_option body (find_payload inner IdentificationInitiator),
               ctx_child_sa_initiator_spi := Some child_spi\<rparr>,
             retransmit := initial_state (retransmit_policy m) (IkeHeader.message_id (header message))\<rparr>)))))))))"

definition build_auth_eap_start_packet ::
    "Crypto \<Rightarrow> (bytes \<Rightarrow> bytes) \<Rightarrow> bytes option \<Rightarrow> IkeStateMachine \<Rightarrow> bytes ike_result" where
  "build_auth_eap_start_packet c sha256 random_iv m =
     build_auth_eap_start_packet_for_identity c sha256 random_iv ''simadmin-inner-identity-metadata'' m"

section \<open>The EAP-AKA rounds\<close>

definition eap_challenge_summary :: "EapAkaPacketSummary \<Rightarrow> bool" where
  "eap_challenge_summary s \<longleftrightarrow> eap_code s = ''request'' \<and> eap_method s = ''aka'' \<and> eap_subtype s = ''challenge''"

text \<open>What both acceptors of a challenge do with its summary.\<close>

definition challenge_accepted :: "string \<Rightarrow> IkeStateMachine \<Rightarrow> EapAkaPacketSummary \<Rightarrow> unit ike_result" where
  "challenge_accepted note m eap_sum =
     (if \<not> eap_challenge_summary eap_sum then ike_fail m (InvalidResponse ''expected_eap_aka_challenge'')
      else
        let m1 = push_transcript (next_message_id m) ''ike_auth'' ''inbound'' [''eap_aka''] note
                   (m\<lparr>ike_eap := Some eap_sum, ike_phase := EapAkaChallengeReceived\<rparr>)
        in (Inr (), m1\<lparr>ike_phase := UsimAkaResponsePending,
              next_message_id := saturating_add (next_message_id m1) 1\<rparr>))"

definition accept_eap_aka_challenge :: "bytes \<Rightarrow> IkeStateMachine \<Rightarrow> unit ike_result" where
  "accept_eap_aka_challenge eap_packet m = settle m (
     rbind (require_phase m AuthRequestBuilt) (\<lambda>_.
     rbind (map_err EapFailed (parse_eap_aka_summary eap_packet)) (\<lambda>eap_sum.
     Inr (challenge_accepted ''eap_aka_challenge_received'' m eap_sum))))"

text \<open>Opening a message of the responder with the session keys.\<close>

definition open_response :: "Crypto \<Rightarrow> IkeStateMachine \<Rightarrow> bytes \<Rightarrow> IkeStateError + IkePayload list" where
  "open_response c m encoded_message =
     rbind (required ''missing_session_keys'' (secret_bundle (ctx m))) (\<lambda>bundle.
     map_err EncryptedPayloadFailed
       (decrypt_encrypted_payload_from_message c encoded_message bundle ResponderToInitiator))"

definition eap_payload_of :: "IkePayload list \<Rightarrow> IkeStateError + bytes" where
  "eap_payload_of ps =
     rmap body (required ''missing_eap_payload'' (find_payload ps ExtensibleAuthentication))"

definition accept_encrypted_eap_aka_challenge :: "Crypto \<Rightarrow> bytes \<Rightarrow> IkeStateMachine \<Rightarrow> unit ike_result" where
  "accept_encrypted_eap_aka_challenge c encoded_message m = settle m (
     rbind (require_phase m AuthRequestBuilt) (\<lambda>_.
     rbind (open_response c m encoded_message) (\<lambda>ps.
     rbind (eap_payload_of ps) (\<lambda>eap.
     rbind (map_err EapFailed (parse_eap_aka_summary eap)) (\<lambda>eap_sum.
     Inr (challenge_accepted ''encrypted_eap_aka_challenge_received'' m eap_sum))))))"

definition decrypted_eap_aka_challenge_packet :: "Crypto \<Rightarrow> IkeStateMachine \<Rightarrow> bytes \<Rightarrow> IkeStateError + bytes" where
  "decrypted_eap_aka_challenge_packet c m encoded_message =
     rbind (open_response c m encoded_message) eap_payload_of"

definition build_encrypted_eap_response_packet ::
    "Crypto \<Rightarrow> bytes option \<Rightarrow> bytes \<Rightarrow> IkeStateMachine \<Rightarrow> bytes ike_result" where
  "build_encrypted_eap_response_packet c random_iv eap_response m = settle m (
     rbind (if ike_phase m \<in> {UsimAkaResponsePending, EapAkaIdentityReceived, EapAkaNotificationReceived}
            then Inr ()
            else Inl (InvalidPhase
              ''usim_aka_response_pending_or_eap_aka_identity_or_notification_received''
              (ike_phase_as_str (ike_phase m)))) (\<lambda>_.
     rbind (required ''missing_responder_spi'' (ctx_responder_spi (ctx m))) (\<lambda>spi_r.
     rbind (required ''missing_session_keys'' (secret_bundle (ctx m))) (\<lambda>bundle.
     rbind (seal_request c random_iv m spi_r bundle
              [\<lparr>payload_type = ExtensibleAuthentication, critical = False, body = eap_response\<rparr>]) (\<lambda>(_, packet).
     let m1 = push_transcript (next_message_id m) ''ike_auth'' ''outbound'' [''eap_aka'']
                ''encrypted_eap_aka_response_built'' (m\<lparr>ike_phase := EapAkaResponseReady\<rparr>)
     in Inr (Inr packet, m1\<lparr>next_message_id := saturating_add (next_message_id m1) 1\<rparr>))))))"

definition mark_usim_aka_response_ready :: "IkeStateMachine \<Rightarrow> unit ike_result" where
  "mark_usim_aka_response_ready m = settle m (
     rbind (require_phase m UsimAkaResponsePending) (\<lambda>_.
     Inr (Inr (), push_transcript (next_message_id m) ''ike_auth'' ''local'' [''usim_aka_response_summary'']
            ''usim_aka_response_ready'' (m\<lparr>ike_phase := EapAkaResponseReady\<rparr>))))"

definition accept_auth_success :: "bytes \<Rightarrow> IkeStateMachine \<Rightarrow> unit ike_result" where
  "accept_auth_success eap_packet m = settle m (
     rbind (require_phase m EapAkaResponseReady) (\<lambda>_.
     rbind (map_err EapFailed (parse_eap_aka_summary eap_packet)) (\<lambda>eap_sum.
     Inr (if eap_code eap_sum \<noteq> ''success'' then ike_fail m (InvalidResponse ''expected_eap_success'')
          else (Inr (), push_transcript (next_message_id m) ''ike_auth'' ''inbound'' [''eap_success'']
                  ''auth_success_accepted''
                  (m\<lparr>ike_eap := Some eap_sum, ike_phase := AuthSuccessAccepted\<rparr>))))))"

section \<open>Configuration and traffic selectors\<close>

record ConfigurationReplySummary =
  reply_address_present :: bool
  reply_addresses :: "IpAddr list"
  reply_prefix_length :: "u8 option"
  reply_pcscf_present :: bool
  reply_pcscf :: "IpAddr list"
  reply_dns_present :: bool
  reply_dns :: "IpAddr list"

definition parse_ipv4_config_value :: "bytes \<Rightarrow> IpAddr option" where
  "parse_ipv4_config_value v = (if length v \<noteq> 4 then None else Some (V4 v))"

definition parse_ipv6_config_value :: "bytes \<Rightarrow> (IpAddr \<times> u8) option" where
  "parse_ipv6_config_value v =
     (if length v = 16 then Some (V6 v, 128)
      else if length v = 17 then Some (V6 (take 16 v), v ! 16)
      else None)"

definition push_some :: "'a option \<Rightarrow> 'a list \<Rightarrow> 'a list" where
  "push_some x xs = (case x of None \<Rightarrow> xs | Some y \<Rightarrow> xs @ [y])"

definition configuration_attribute :: "u16 \<Rightarrow> bytes \<Rightarrow> ConfigurationReplySummary \<Rightarrow> ConfigurationReplySummary" where
  "configuration_attribute ty v s =
     (if ty = 1 then s\<lparr>reply_address_present := True,
        reply_addresses := push_some (parse_ipv4_config_value v) (reply_addresses s)\<rparr>
      else if ty = 8 then
        (case parse_ipv6_config_value v of
           Some (a, n) \<Rightarrow> s\<lparr>reply_address_present := True, reply_addresses := reply_addresses s @ [a],
                             reply_prefix_length := Some n\<rparr>
         | None \<Rightarrow> s\<lparr>reply_address_present := True\<rparr>)
      else if ty = 3 then s\<lparr>reply_dns_present := True,
        reply_dns := push_some (parse_ipv4_config_value v) (reply_dns s)\<rparr>
      else if ty = 10 then s\<lparr>reply_dns_present := True,
        reply_dns := push_some (map_option fst (parse_ipv6_config_value v)) (reply_dns s)\<rparr>
      else if ty = 20 then s\<lparr>reply_pcscf_present := True,
        reply_pcscf := push_some (parse_ipv4_config_value v) (reply_pcscf s)\<rparr>
      else if ty = 21 then s\<lparr>reply_pcscf_present := True,
        reply_pcscf := push_some (map_option fst (parse_ipv6_config_value v)) (reply_pcscf s)\<rparr>
      else s)"

function configuration_attributes ::
    "bytes \<Rightarrow> ConfigurationReplySummary \<Rightarrow> IkeStateError + ConfigurationReplySummary" where
  "configuration_attributes input s =
     (if input = [] then Inr s
      else if length input < 4 then Inl (InvalidResponse ''invalid_configuration_attribute'')
      else
        let ty = u16_from_be [input ! 0, input ! 1] AND 0x7fff;
            len = unat (u16_from_be [input ! 2, input ! 3])
        in if length input < 4 + len then Inl (InvalidResponse ''invalid_configuration_attribute'')
           else configuration_attributes (drop (4 + len) input)
                  (configuration_attribute ty (slice_of input 4 (4 + len)) s))"
  by pat_completeness auto
termination
  by (relation "measure (\<lambda>(input, s). length input)") auto

declare configuration_attributes.simps [simp del]

definition empty_configuration :: ConfigurationReplySummary where
  "empty_configuration = \<lparr>reply_address_present = False, reply_addresses = [], reply_prefix_length = None,
     reply_pcscf_present = False, reply_pcscf = [], reply_dns_present = False, reply_dns = []\<rparr>"

definition summarize_configuration_reply :: "bytes \<Rightarrow> IkeStateError + ConfigurationReplySummary" where
  "summarize_configuration_reply content =
     (if length content < 4 then Inl (InvalidResponse ''invalid_configuration_payload'')
      else configuration_attributes (drop 4 content) empty_configuration)"

definition hex2 :: "u8 \<Rightarrow> string" where
  "hex2 b = (let digit = (\<lambda>n. ''0123456789abcdef'' ! n) in [digit (unat b div 16), digit (unat b mod 16)])"

fun join_with :: "string \<Rightarrow> string list \<Rightarrow> string" where
  "join_with sep [] = []"
| "join_with sep [x] = x"
| "join_with sep (x # y # xs) = x @ sep @ join_with sep (y # xs)"

definition format_address :: "bytes \<Rightarrow> u8 \<Rightarrow> string" where
  "format_address octets ts_type =
     (if ts_type = 7 \<and> length octets \<ge> 4 then
        join_with ''.'' (map show_word (take 4 octets))
      else if ts_type = 8 \<and> length octets \<ge> 16 then
        ''['' @ join_with '':'' (map hex2 (take 16 octets)) @ '']''
      else show_nat (length octets) @ '' bytes'')"

fun traffic_selectors_loop :: "nat \<Rightarrow> bytes \<Rightarrow> string list \<Rightarrow> string list" where
  "traffic_selectors_loop 0 input selectors = selectors"
| "traffic_selectors_loop (Suc n) input selectors =
     (if length input < 8 then selectors
      else
        let ts_type = input ! 0;
            protocol = input ! 1;
            len = unat (u16_from_be [input ! 2, input ! 3]);
            start_port = u16_from_be [input ! 4, input ! 5];
            end_port = u16_from_be [input ! 6, input ! 7]
        in if len < 4 \<or> length input < 8 + len then selectors
           else
             let address_bytes = slice_of input 8 (8 + (len - 4));
                 half = length address_bytes div 2;
                 start = format_address (take half address_bytes) ts_type;
                 finish = format_address (drop half address_bytes) ts_type
             in traffic_selectors_loop n (drop (8 + len) input) (selectors @
                  [''type='' @ show_word ts_type @ '' proto='' @ show_word protocol @ '' ports=''
                   @ show_word start_port @ ''-'' @ show_word end_port @ '' addrs='' @ start @ ''-'' @ finish]))"

definition summarize_traffic_selectors :: "bytes \<Rightarrow> string list option" where
  "summarize_traffic_selectors content =
     (if length content < 4 then None
      else Some (traffic_selectors_loop (unat (content ! 0)) (drop 4 content) []))"

section \<open>The CHILD_SA\<close>

definition child_proposal_matches :: "ParsedProposal \<Rightarrow> string \<Rightarrow> bool" where
  "child_proposal_matches proposal s =
     (case child_sa_proposal_from_profile_string s (parsed_number proposal) (parsed_spi proposal) of
        Inl _ \<Rightarrow> False | Inr expected \<Rightarrow> offers_transforms proposal expected)"

definition matching_child_sa_profile_proposal :: "ParsedProposal \<Rightarrow> CarrierProfile \<Rightarrow> string option" where
  "matching_child_sa_profile_proposal proposal p =
     find (child_proposal_matches proposal) (esp_proposals (ikev2 p))"

definition child_sa_selection_matches_profile :: "ParsedProposal \<Rightarrow> CarrierProfile \<Rightarrow> bool" where
  "child_sa_selection_matches_profile proposal p \<longleftrightarrow> matching_child_sa_profile_proposal proposal p \<noteq> None"

definition has_payload :: "IkePayload list \<Rightarrow> IkePayloadType \<Rightarrow> bool" where
  "has_payload ps ty = list_ex (\<lambda>p. payload_type p = ty) ps"

text \<open>The choice of the responder and the two SPIs, up to the derivation of the keys.\<close>

definition select_child_sa ::
    "IkeStateMachine \<Rightarrow> IkePayload list
      \<Rightarrow> IkeStateError + (ParsedProposal \<times> u32 \<times> u32 \<times> string \<times> IkeSecretBundle \<times> bytes \<times> ProposalSpec)" where
  "select_child_sa m ps =
     rbind (required ''missing_child_sa_payload'' (find_payload ps SecurityAssociation)) (\<lambda>sa.
     rbind (map_err SaParseFailed (parse_sa_payload (body sa))) (\<lambda>proposals.
     rbind (required ''missing_child_sa_initiator_spi'' (ctx_child_sa_initiator_spi (ctx m))) (\<lambda>own_spi.
     rbind (required ''child_sa_selection_unacceptable'' (find (\<lambda>p.
              parsed_protocol_id p = protocol_id_as_u8 ProtoEsp \<and> length (parsed_spi p) = 4
              \<and> child_sa_selection_matches_profile p (ike_profile m)) proposals)) (\<lambda>selected.
     let inbound = u32_from_be own_spi; outbound = u32_from_be (parsed_spi selected) in
     if inbound = 0 \<or> outbound = 0 then Inl (InvalidResponse ''invalid_child_sa_spi'')
     else
       rbind (required ''child_sa_selection_unacceptable''
                (matching_child_sa_profile_proposal selected (ike_profile m))) (\<lambda>s.
       rbind (required ''missing_session_keys'' (secret_bundle (ctx m))) (\<lambda>bundle.
       rbind (required ''missing_responder_nonce'' (ctx_responder_nonce (ctx m))) (\<lambda>nonce_r.
       rbind (map_err ProposalParseFailed
                (child_sa_proposal_from_profile_string s 1 (parsed_spi selected))) (\<lambda>esp.
       Inr (selected, inbound, outbound, s, bundle, nonce_r, esp)))))))))"

definition configuration_reply_of :: "IkePayload list \<Rightarrow> IkeStateError + ConfigurationReplySummary option" where
  "configuration_reply_of ps =
     (case find_payload ps Configuration of
        None \<Rightarrow> Inr None
      | Some p \<Rightarrow> rmap Some (summarize_configuration_reply (body p)))"

definition child_sa_summary :: "IkePayload list \<Rightarrow> ConfigurationReplySummary option \<Rightarrow> IkeChildSaSummary" where
  "child_sa_summary ps config =
     \<lparr>responder_auth_present = has_payload ps Authentication, child_sa_present = True,
      selected_esp_proposal_present = True, inbound_sa_identifier_present = True,
      outbound_sa_identifier_present = True, configuration_reply_present = (config \<noteq> None),
      assigned_inner_address_present = (case config of Some s \<Rightarrow> reply_address_present s | None \<Rightarrow> False),
      assigned_inner_address_count = (case config of Some s \<Rightarrow> length (reply_addresses s) | None \<Rightarrow> 0),
      assigned_ipv6_prefix_length_present =
        (case config of Some s \<Rightarrow> reply_prefix_length s \<noteq> None | None \<Rightarrow> False),
      pcscf_present = (case config of Some s \<Rightarrow> reply_pcscf_present s | None \<Rightarrow> False),
      pcscf_count = (case config of Some s \<Rightarrow> length (reply_pcscf s) | None \<Rightarrow> 0),
      dns_present = (case config of Some s \<Rightarrow> reply_dns_present s | None \<Rightarrow> False),
      dns_count = (case config of Some s \<Rightarrow> length (reply_dns s) | None \<Rightarrow> 0),
      traffic_selectors_present =
        (has_payload ps TrafficSelectorInitiator \<and> has_payload ps TrafficSelectorResponder),
      child_sa_policy = ''child_sa_identifiers_addresses_and_selectors_not_serialized''\<rparr>"

definition configuration_material :: "ConfigurationReplySummary \<Rightarrow> IkeConfigurationMaterial" where
  "configuration_material s =
     \<lparr>assigned_inner_addresses = reply_addresses s, assigned_ipv6_prefix_length = reply_prefix_length s,
      pcscf_addresses = reply_pcscf s, dns_addresses = reply_dns s\<rparr>"

definition summarize_child_sa_payloads ::
    "Crypto \<Rightarrow> IkePayload list \<Rightarrow> IkeStateMachine \<Rightarrow> IkeChildSaSummary ike_result option" where
  "summarize_child_sa_payloads c ps m =
     (case select_child_sa m ps of
        Inl e \<Rightarrow> Some (Inl e, m)
      | Inr (selected, inbound, outbound, s, bundle, nonce_r, esp) \<Rightarrow>
          map_option (\<lambda>derived. settle m (
              rbind (map_err KeyScheduleFailed derived) (\<lambda>secrets.
              rbind (configuration_reply_of ps) (\<lambda>config.
              Inr (Inr (child_sa_summary ps config),
                   m\<lparr>ctx := (ctx m)\<lparr>ctx_child_sa_material := Some
                      \<lparr>inbound_sa_identifier = inbound, outbound_sa_identifier = outbound,
                       selected_profile_proposal = s, child_proposal = selected,
                       child_configuration = map_option configuration_material config,
                       child_secrets = secrets\<rparr>\<rparr>\<rparr>)))))
            (derive_child_sa_secret_pair c bundle esp (ctx_initiator_nonce (ctx m)) nonce_r))"

section \<open>The end of IKE_AUTH\<close>

text \<open>The two answers of the responder that ask for another EAP round.\<close>

definition eap_round ::
    "IkeStatePhase \<Rightarrow> string \<Rightarrow> IkeAuthProgress \<Rightarrow> EapAkaPacketSummary \<Rightarrow> IkePayload list \<Rightarrow> IkeStateMachine
      \<Rightarrow> IkeAuthProgress ike_result" where
  "eap_round phase_after note progress eap_sum ps m =
     (Inr progress, push_transcript (next_message_id m) ''ike_auth'' ''inbound'' (payload_names ps) note
        (m\<lparr>ike_eap := Some eap_sum, ike_phase := phase_after\<rparr>))"

definition eap_success_progress ::
    "Crypto \<Rightarrow> EapAkaPacketSummary \<Rightarrow> IkePayload list \<Rightarrow> IkeStateMachine \<Rightarrow> IkeAuthProgress ike_result option" where
  "eap_success_progress c eap_sum ps m =
     (let m1 = m\<lparr>ike_eap := Some eap_sum\<rparr> in
      if has_payload ps SecurityAssociation then
        (case summarize_child_sa_payloads c ps m1 of
           None \<Rightarrow> None
         | Some (Inl e, m2) \<Rightarrow> Some (Inl e, m2)
         | Some (Inr child_sa, m2) \<Rightarrow>
             Some (Inr (EapSuccess True), push_transcript (next_message_id m2) ''ike_auth'' ''inbound''
               (payload_names ps) ''encrypted_auth_success_child_sa_accepted''
               (m2\<lparr>ike_child_sa := Some child_sa, ike_phase := ChildSaReady\<rparr>)))
      else
        Some (Inr (EapSuccess False), push_transcript (next_message_id m1) ''ike_auth'' ''inbound''
          (payload_names ps) ''encrypted_auth_success_accepted''
          (m1\<lparr>ike_phase := AuthSuccessAccepted\<rparr>)))"

definition accept_encrypted_auth_progress ::
    "Crypto \<Rightarrow> bytes \<Rightarrow> IkeStateMachine \<Rightarrow> IkeAuthProgress ike_result option" where
  "accept_encrypted_auth_progress c encoded_message m =
     (case rbind (require_phase m EapAkaResponseReady) (\<lambda>_.
           rbind (open_response c m encoded_message) (\<lambda>ps.
           rbind (eap_payload_of ps) (\<lambda>eap.
           rbind (map_err EapFailed (parse_eap_aka_summary eap)) (\<lambda>eap_sum.
           Inr (ps, eap, eap_sum))))) of
        Inl e \<Rightarrow> Some (Inl e, m)
      | Inr (ps, eap, eap_sum) \<Rightarrow>
          if eap_code eap_sum = ''request'' \<and> eap_method eap_sum = ''aka'' \<and> eap_subtype eap_sum = ''identity''
          then Some (eap_round EapAkaIdentityReceived ''encrypted_eap_aka_identity_received''
                       (EapAkaIdentity eap) eap_sum ps m)
          else if eap_code eap_sum = ''request'' \<and> eap_method eap_sum = ''aka''
               \<and> eap_subtype eap_sum = ''notification''
          then Some (eap_round EapAkaNotificationReceived ''encrypted_eap_aka_notification_received''
                       (EapAkaNotification eap) eap_sum ps m)
          else if eap_code eap_sum \<noteq> ''success''
          then Some (ike_fail m (InvalidResponse ''expected_eap_success''))
          else eap_success_progress c eap_sum ps m)"

definition accept_encrypted_auth_success :: "Crypto \<Rightarrow> bytes \<Rightarrow> IkeStateMachine \<Rightarrow> unit ike_result option" where
  "accept_encrypted_auth_success c encoded_message m =
     (case accept_encrypted_auth_progress c encoded_message m of
        None \<Rightarrow> None
      | Some (Inl e, m1) \<Rightarrow> Some (Inl e, m1)
      | Some (Inr (EapSuccess _), m1) \<Rightarrow> Some (Inr (), m1)
      | Some (Inr _, m1) \<Rightarrow> Some (ike_fail m1 (InvalidResponse ''expected_eap_success'')))"

definition key_pad :: bytes where
  "key_pad = as_bytes ''Key Pad for IKEv2''"

definition initiator_auth_data :: "Crypto \<Rightarrow> IkeStateMachine \<Rightarrow> bytes \<Rightarrow> IkeStateError + bytes" where
  "initiator_auth_data c m eap_msk =
     (if eap_msk = [] then Inl (InvalidResponse ''missing_eap_msk'')
      else
        rbind (required ''missing_session_keys'' (secret_bundle (ctx m))) (\<lambda>bundle.
        rbind (required ''missing_sa_init_request'' (sa_init_request_packet (ctx m))) (\<lambda>request.
        rbind (required ''missing_responder_nonce'' (ctx_responder_nonce (ctx m))) (\<lambda>nonce_r.
        rbind (required ''missing_initiator_identity_payload'' (initiator_id_payload_body (ctx m))) (\<lambda>idi_body.
        rbind (map_err KeyScheduleFailed (prf_bytes c bundle (sk_pi bundle) idi_body)) (\<lambda>idi_hash.
        rbind (map_err KeyScheduleFailed (prf_bytes c bundle eap_msk key_pad)) (\<lambda>shared_key.
        map_err KeyScheduleFailed (prf_bytes c bundle shared_key (request @ nonce_r @ idi_hash)))))))))"

definition build_encrypted_final_auth_packet ::
    "Crypto \<Rightarrow> bytes option \<Rightarrow> bytes \<Rightarrow> IkeStateMachine \<Rightarrow> bytes ike_result" where
  "build_encrypted_final_auth_packet c random_iv eap_msk m = settle m (
     rbind (require_phase m AuthSuccessAccepted) (\<lambda>_.
     rbind (required ''missing_responder_spi'' (ctx_responder_spi (ctx m))) (\<lambda>spi_r.
     rbind (required ''missing_session_keys'' (secret_bundle (ctx m))) (\<lambda>bundle.
     rbind (initiator_auth_data c m eap_msk) (\<lambda>auth_data.
     rbind (seal_request c random_iv m spi_r bundle
              [build_authentication_shared_key_payload auth_data]) (\<lambda>(_, packet).
     let m1 = push_transcript (next_message_id m) ''ike_auth'' ''outbound'' [''authentication'']
                ''final_auth_request_built'' m
     in Inr (Inr packet, m1\<lparr>next_message_id := saturating_add (next_message_id m1) 1\<rparr>)))))))"

definition accept_encrypted_child_sa_response ::
    "Crypto \<Rightarrow> bytes \<Rightarrow> IkeStateMachine \<Rightarrow> unit ike_result option" where
  "accept_encrypted_child_sa_response c encoded_message m =
     (case rbind (require_phase m AuthSuccessAccepted) (\<lambda>_. open_response c m encoded_message) of
        Inl e \<Rightarrow> Some (Inl e, m)
      | Inr ps \<Rightarrow>
          (case summarize_child_sa_payloads c ps m of
             None \<Rightarrow> None
           | Some (Inl e, m1) \<Rightarrow> Some (Inl e, m1)
           | Some (Inr child_sa, m1) \<Rightarrow>
               Some (Inr (), push_transcript (next_message_id m1) ''ike_auth'' ''inbound''
                 (payload_names ps) ''child_sa_response_accepted''
                 (m1\<lparr>ike_child_sa := Some child_sa, ike_phase := ChildSaReady\<rparr>))))"

definition mark_child_sa_ready :: "IkeStateMachine \<Rightarrow> unit ike_result" where
  "mark_child_sa_ready m = settle m (
     rbind (require_phase m AuthSuccessAccepted) (\<lambda>_.
     Inr (Inr (), push_transcript (next_message_id m) ''ike_auth'' ''local'' [''child_sa_summary'']
            ''child_sa_ready'' (m\<lparr>ike_phase := ChildSaReady\<rparr>))))"

definition handle_control_message :: "bytes \<Rightarrow> IkeStateMachine \<Rightarrow> unit ike_result" where
  "handle_control_message encoded m = settle m (
     rbind (map_err CodecFailed (decode encoded)) (\<lambda>message.
     rbind (map_err ControlEventFailed (parse_control_event message)) (\<lambda>event.
     let action = event_action event;
         m1 = push_event message ''inbound'' action (m\<lparr>last_control_event := Some event\<rparr>)
     in Inr (if action = ''fail_exchange'' then ike_fail m1 (InvalidResponse ''control_event_failed'')
        else if action = ''mark_child_sa_missing'' then (Inr (), m1\<lparr>ike_phase := ChildSaMissing\<rparr>)
        else if action = ''reauth_required'' then (Inr (), m1\<lparr>ike_phase := ReauthRequired\<rparr>)
        else if action = ''schedule_rekey'' then (Inr (), m1\<lparr>ike_phase := RekeyPending\<rparr>)
        else if action = ''teardown_requested'' then (Inr (), m1\<lparr>ike_phase := TeardownRequested\<rparr>)
        else (Inr (), m1)))))"

section \<open>Reasons for the live runtime\<close>

definition notify_private_or_extension_reason :: "u16 \<Rightarrow> string" where
  "notify_private_or_extension_reason t =
     (if 8192 \<le> t \<and> t \<le> 16383
      then ''ike_auth_notify_status_reserved_or_extension_type_'' @ show_word t
      else if 40960 \<le> t then ''ike_auth_notify_private_use_type_'' @ show_word t
      else ''ike_auth_notify_private_or_extension_type_'' @ show_word t)"

definition named_notify_reasons :: "string list" where
  "named_notify_reasons = [''authentication_failed'', ''no_proposal_chosen'', ''invalid_syntax'',
     ''invalid_ke_payload'', ''invalid_group_id'', ''single_pair_required'', ''no_additional_sas'',
     ''internal_address_failure'', ''failed_cp_required'', ''ts_unacceptable'', ''invalid_selectors'',
     ''unacceptable_addresses'', ''temporary_failure'', ''child_sa_not_found'', ''authorization_failed'']"

definition notify_reason :: "bytes \<Rightarrow> string option" where
  "notify_reason content =
     (case notify_type content of
        None \<Rightarrow> Some ''ike_auth_notify_truncated''
      | Some t \<Rightarrow>
          let name = notify_name t
          in if name \<in> set named_notify_reasons then Some (''ike_auth_notify_'' @ name)
             else if name = ''private_or_extension'' then Some (notify_private_or_extension_reason t)
             else Some ''ike_auth_notify_unknown'')"

definition inner_payload_reason :: "IkePayload list \<Rightarrow> string" where
  "inner_payload_reason ps =
     (case ps of
        [] \<Rightarrow> ''ike_auth_inner_empty''
      | p # _ \<Rightarrow>
          (case payload_type p of
             Notify \<Rightarrow> (case notify_reason (body p) of Some s \<Rightarrow> s | None \<Rightarrow> ''ike_auth_inner_notify'')
           | IdentificationResponder \<Rightarrow> ''ike_auth_inner_idr''
           | CertificateRequest \<Rightarrow> ''ike_auth_inner_certreq''
           | Authentication \<Rightarrow> ''ike_auth_inner_auth''
           | Configuration \<Rightarrow> ''ike_auth_inner_configuration''
           | TrafficSelectorInitiator \<Rightarrow> ''ike_auth_inner_tsi''
           | TrafficSelectorResponder \<Rightarrow> ''ike_auth_inner_tsr''
           | ExtensibleAuthentication \<Rightarrow> ''ike_auth_inner_eap''
           | _ \<Rightarrow> ''ike_auth_inner_other''))"

definition encrypted_inner_payload_reason :: "Crypto \<Rightarrow> IkeStateMachine \<Rightarrow> bytes \<Rightarrow> IkeStateError + string" where
  "encrypted_inner_payload_reason c m encoded_message =
     rmap inner_payload_reason (open_response c m encoded_message)"

definition or_else :: "string \<Rightarrow> 'e + string \<Rightarrow> string" where
  "or_else fallback r = (case r of Inl _ \<Rightarrow> fallback | Inr s \<Rightarrow> s)"

definition challenge_reason :: "string \<Rightarrow> IkeStateError \<Rightarrow> string" where
  "challenge_reason inner_reason e =
     (case e of
        EncryptedPayloadFailed IntegrityMismatch \<Rightarrow> ''ike_auth_eap_integrity_mismatch''
      | EncryptedPayloadFailed InvalidEncryptedPayload \<Rightarrow> ''ike_auth_eap_invalid_encrypted_payload''
      | EncryptedPayloadFailed InvalidPadding \<Rightarrow> ''ike_auth_eap_invalid_padding''
      | EncryptedPayloadFailed (UnsupportedCipher _) \<Rightarrow> ''ike_auth_eap_unsupported_cipher''
      | EncryptedPayloadFailed (UnsupportedIntegrityName _) \<Rightarrow> ''ike_auth_eap_unsupported_integrity''
      | EapFailed _ \<Rightarrow> ''ike_auth_eap_packet_parse_failed''
      | InvalidResponse reason \<Rightarrow> if reason = ''missing_eap_payload'' then inner_reason else reason
      | _ \<Rightarrow> ''ike_auth_eap_challenge_decode_failed'')"

definition accept_encrypted_eap_aka_challenge_reason ::
    "Crypto \<Rightarrow> bytes \<Rightarrow> IkeStateMachine \<Rightarrow> (string + unit) \<times> IkeStateMachine" where
  "accept_encrypted_eap_aka_challenge_reason c encoded_message m =
     (let inner_reason = or_else ''missing_eap_payload'' (encrypted_inner_payload_reason c m encoded_message);
          (r, m1) = accept_encrypted_eap_aka_challenge c encoded_message m
      in (map_err (challenge_reason inner_reason) r, m1))"

definition final_reason :: "string \<Rightarrow> IkeStateError \<Rightarrow> string" where
  "final_reason inner_reason e =
     (case e of
        EncryptedPayloadFailed IntegrityMismatch \<Rightarrow> ''ike_auth_final_integrity_mismatch''
      | EncryptedPayloadFailed InvalidEncryptedPayload \<Rightarrow> ''ike_auth_final_invalid_encrypted_payload''
      | EncryptedPayloadFailed InvalidPadding \<Rightarrow> ''ike_auth_final_invalid_padding''
      | EapFailed _ \<Rightarrow> ''ike_auth_final_eap_parse_failed''
      | InvalidResponse reason \<Rightarrow> if reason = ''missing_eap_payload'' then inner_reason else reason
      | _ \<Rightarrow> ''ike_auth_final_decode_failed'')"

definition accept_encrypted_auth_progress_or_reason ::
    "Crypto \<Rightarrow> bytes \<Rightarrow> IkeStateMachine \<Rightarrow> ((string + IkeAuthProgress) \<times> IkeStateMachine) option" where
  "accept_encrypted_auth_progress_or_reason c encoded_message m =
     map_option (\<lambda>(r, m1). (map_err (final_reason (or_else ''ike_auth_final_missing_eap''
                               (encrypted_inner_payload_reason c m1 encoded_message))) r, m1))
       (accept_encrypted_auth_progress c encoded_message m)"

definition accept_encrypted_auth_success_or_reason ::
    "Crypto \<Rightarrow> bytes \<Rightarrow> IkeStateMachine \<Rightarrow> ((string + unit) \<times> IkeStateMachine) option" where
  "accept_encrypted_auth_success_or_reason c encoded_message m =
     map_option (\<lambda>(r, m1). (map_err (final_reason (or_else ''ike_auth_final_missing_eap''
                               (encrypted_inner_payload_reason c m1 encoded_message))) r, m1))
       (accept_encrypted_auth_success c encoded_message m)"

definition child_sa_reason :: "string \<Rightarrow> IkeStateError \<Rightarrow> string" where
  "child_sa_reason inner_reason e =
     (case e of
        EncryptedPayloadFailed IntegrityMismatch \<Rightarrow> ''ike_auth_child_sa_integrity_mismatch''
      | EncryptedPayloadFailed InvalidEncryptedPayload \<Rightarrow> ''ike_auth_child_sa_invalid_encrypted_payload''
      | EncryptedPayloadFailed InvalidPadding \<Rightarrow> ''ike_auth_child_sa_invalid_padding''
      | InvalidResponse reason \<Rightarrow> if reason = ''missing_child_sa_payload'' then inner_reason else reason
      | _ \<Rightarrow> ''ike_auth_child_sa_decode_failed'')"

definition accept_encrypted_child_sa_response_or_reason ::
    "Crypto \<Rightarrow> bytes \<Rightarrow> IkeStateMachine \<Rightarrow> ((string + unit) \<times> IkeStateMachine) option" where
  "accept_encrypted_child_sa_response_or_reason c encoded_message m =
     map_option (\<lambda>(r, m1). (map_err (child_sa_reason (or_else ''missing_child_sa_payload''
                               (encrypted_inner_payload_reason c m1 encoded_message))) r, m1))
       (accept_encrypted_child_sa_response c encoded_message m)"

end
