(* ===== verification/Ike_State_Steps.thy ===== *)
theory Ike_State_Steps
  imports Ike_State
begin

text \<open>
  One operation of the exchange state at a time: the operations as calls, what a call gives to the wire,
  and for each operation the exact forms of the machine it can leave.
\<close>

unbundle bit_operations_syntax

section \<open>Calls\<close>

datatype IkeCall =
    CallSaInit "((IpAddr \<times> u16) \<times> (IpAddr \<times> u16)) option" "string list option"
  | CallSaInitResponse bytes
  | CallDeriveKeys bytes
  | CallAuthStartRequest
  | CallAuthStart "bytes option" string
  | CallChallenge bytes
  | CallEncryptedChallenge bytes
  | CallEapResponse "bytes option" bytes
  | CallMarkResponse
  | CallAuthSuccess bytes
  | CallAuthProgress bytes
  | CallEncryptedSuccess bytes
  | CallFinalAuth "bytes option" bytes
  | CallChildSaResponse bytes
  | CallMarkChildSa
  | CallControl bytes

text \<open>What a call gives to the wire: the message identifier of the request it builds.\<close>

definition message_id_of :: "IkeMessage ike_result \<Rightarrow> u32 list \<times> IkeStateMachine" where
  "message_id_of r = (case fst r of Inl _ \<Rightarrow> [] | Inr x \<Rightarrow> [IkeHeader.message_id (header x)], snd r)"

definition packet_id_of :: "bytes ike_result \<Rightarrow> u32 list \<times> IkeStateMachine" where
  "packet_id_of r = (case fst r of Inl _ \<Rightarrow> [] | Inr x \<Rightarrow> [u32_from_be (slice_of x 20 24)], snd r)"

definition nothing_sent :: "'a ike_result \<Rightarrow> u32 list \<times> IkeStateMachine" where
  "nothing_sent r = ([], snd r)"

record IkeEnv =
  env_crypto :: Crypto
  env_sha1 :: "bytes \<Rightarrow> bytes"
  env_sha256 :: "bytes \<Rightarrow> bytes"

fun ike_call :: "IkeEnv \<Rightarrow> IkeCall \<Rightarrow> IkeStateMachine \<Rightarrow> (u32 list \<times> IkeStateMachine) option" where
  "ike_call v (CallSaInit addrs texts) m =
     Some (message_id_of (build_sa_init_request_for_transport (env_sha1 v) addrs texts m))"
| "ike_call v (CallSaInitResponse bs) m = Some (nothing_sent (accept_sa_init_response bs m))"
| "ike_call v (CallDeriveKeys secret) m =
     map_option nothing_sent (derive_session_keys (env_crypto v) secret m)"
| "ike_call v CallAuthStartRequest m = Some (message_id_of (build_auth_eap_start_request m))"
| "ike_call v (CallAuthStart iv identity) m = Some (packet_id_of
     (build_auth_eap_start_packet_for_identity (env_crypto v) (env_sha256 v) iv identity m))"
| "ike_call v (CallChallenge bs) m = Some (nothing_sent (accept_eap_aka_challenge bs m))"
| "ike_call v (CallEncryptedChallenge bs) m =
     Some (nothing_sent (accept_encrypted_eap_aka_challenge (env_crypto v) bs m))"
| "ike_call v (CallEapResponse iv eap) m =
     Some (packet_id_of (build_encrypted_eap_response_packet (env_crypto v) iv eap m))"
| "ike_call v CallMarkResponse m = Some (nothing_sent (mark_usim_aka_response_ready m))"
| "ike_call v (CallAuthSuccess bs) m = Some (nothing_sent (accept_auth_success bs m))"
| "ike_call v (CallAuthProgress bs) m =
     map_option nothing_sent (accept_encrypted_auth_progress (env_crypto v) bs m)"
| "ike_call v (CallEncryptedSuccess bs) m =
     map_option nothing_sent (accept_encrypted_auth_success (env_crypto v) bs m)"
| "ike_call v (CallFinalAuth iv msk) m =
     Some (packet_id_of (build_encrypted_final_auth_packet (env_crypto v) iv msk m))"
| "ike_call v (CallChildSaResponse bs) m =
     map_option nothing_sent (accept_encrypted_child_sa_response (env_crypto v) bs m)"
| "ike_call v CallMarkChildSa m = Some (nothing_sent (mark_child_sa_ready m))"
| "ike_call v (CallControl bs) m = Some (nothing_sent (handle_control_message bs m))"

fun ike_run :: "IkeEnv \<Rightarrow> IkeCall list \<Rightarrow> IkeStateMachine \<Rightarrow> (u32 list \<times> IkeStateMachine) option" where
  "ike_run v [] m = Some ([], m)"
| "ike_run v (x # xs) m =
     Option.bind (ike_call v x m) (\<lambda>(ids, m1).
     Option.bind (ike_run v xs m1) (\<lambda>(rest, m2). Some (ids @ rest, m2)))"

section \<open>Results of the operations\<close>

lemma settle_simps [simp]: "settle m (Inl e) = (Inl e, m)" "settle m (Inr x) = x"
  by (simp_all add: settle_def)

lemma settle_eq: "settle m r = (res, m1) \<longleftrightarrow> (\<exists>e. r = Inl e \<and> res = Inl e \<and> m1 = m) \<or> r = Inr (res, m1)"
  by (cases r) auto

lemma map_err_eq [simp]: "map_err f r = Inr x \<longleftrightarrow> r = Inr x" "map_err f (Inr y) = Inr y"
  "map_err f (Inl e) = Inl (f e)"
  by (cases r) (simp_all add: map_err_def)

lemma required_eq [simp]: "required s v = Inr x \<longleftrightarrow> v = Some x" "required s (Some y) = Inr y"
  "required s None = Inl (InvalidResponse s)"
  by (cases v) (simp_all add: required_def)

lemma require_phase_eq [simp]: "require_phase m p = Inr x \<longleftrightarrow> ike_phase m = p"
  by (simp add: require_phase_def)

lemma push_transcript_fields [simp]:
  "ike_phase (push_transcript i x d ns nt m) = ike_phase m" "ctx (push_transcript i x d ns nt m) = ctx m"
  "next_message_id (push_transcript i x d ns nt m) = next_message_id m"
  "ike_profile (push_transcript i x d ns nt m) = ike_profile m"
  "ike_access (push_transcript i x d ns nt m) = ike_access m"
  "ike_child_sa (push_transcript i x d ns nt m) = ike_child_sa m"
  "ike_last_error (push_transcript i x d ns nt m) = ike_last_error m"
  "retransmit_policy (push_transcript i x d ns nt m) = retransmit_policy m"
  by (simp_all add: push_transcript_def)

lemma push_event_fields [simp]:
  "ike_phase (push_event e d nt m) = ike_phase m" "ctx (push_event e d nt m) = ctx m"
  "next_message_id (push_event e d nt m) = next_message_id m"
  "ike_profile (push_event e d nt m) = ike_profile m"
  "ike_access (push_event e d nt m) = ike_access m"
  "ike_child_sa (push_event e d nt m) = ike_child_sa m"
  "ike_last_error (push_event e d nt m) = ike_last_error m"
  "retransmit_policy (push_event e d nt m) = retransmit_policy m"
  by (simp_all add: push_event_def)

text \<open>What one operation can do to the machine: every operation leaves it, fails it, or moves it as its
  case says.  \<open>same\<close> compares what the invariants read.\<close>

definition same :: "IkeStateMachine \<Rightarrow> IkeStateMachine \<Rightarrow> bool" where
  "same m m1 \<longleftrightarrow> ctx m1 = ctx m \<and> ike_profile m1 = ike_profile m \<and> ike_child_sa m1 = ike_child_sa m"

lemma same_refl [simp]: "same m m"
  by (simp add: same_def)

definition closed_phases :: "IkeStatePhase set" where
  "closed_phases = {RekeyPending, ReauthRequired, ChildSaMissing, TeardownRequested, IkeFailed}"

lemma ike_fail_eq [simp]:
  "ike_fail m e = (Inl e, m\<lparr>ike_phase := IkeFailed, ike_last_error := Some (display_state_error e)\<rparr>)"
  by (simp add: ike_fail_def)

lemma fst_ike_fail: "fst (ike_fail m e) = Inl e" "same m (snd (ike_fail m e))"
  "ike_phase (snd (ike_fail m e)) = IkeFailed" "next_message_id (snd (ike_fail m e)) = next_message_id m"
  by (simp_all add: same_def)

section \<open>What the operations do to the machine\<close>

definition key_phases :: "IkeStatePhase set" where
  "key_phases = {SessionKeysReady, AuthRequestBuilt, EapAkaChallengeReceived, EapAkaIdentityReceived,
     UsimAkaResponsePending, EapAkaNotificationReceived, EapAkaResponseReady, AuthSuccessAccepted,
     ChildSaReady}"

text \<open>A move that keeps the material, and within or out of the phases with keys.\<close>

definition eap_move :: "IkeStateMachine \<Rightarrow> IkeStateMachine \<Rightarrow> bool" where
  "eap_move m m1 \<longleftrightarrow> same m m1 \<and> (ike_phase m1 = ike_phase m \<or> ike_phase m1 \<in> closed_phases
     \<or> ike_phase m \<in> key_phases \<and> ike_phase m1 \<in> key_phases - {SessionKeysReady, AuthRequestBuilt})"

lemma eap_move_refl [simp]: "eap_move m m"
  by (simp add: eap_move_def)

lemmas op_simps = settle_eq result_simps eap_move_def same_def key_phases_def closed_phases_def

lemma case_results:
  "(case s of Inl a \<Rightarrow> f a | Inr b \<Rightarrow> g b) = y \<longleftrightarrow> (\<exists>a. s = Inl a \<and> f a = y) \<or> (\<exists>b. s = Inr b \<and> g b = y)"
  "(case t of None \<Rightarrow> n | Some x \<Rightarrow> h x) = z \<longleftrightarrow> (t = None \<and> n = z) \<or> (\<exists>x. t = Some x \<and> h x = z)"
  by (cases s; simp) (cases t; simp)

lemma new_request_id [simp]: "IkeHeader.message_id (header (new_request s x i ps)) = i"
  by (simp add: new_request_def)

lemma sa_init_effect:
  assumes "build_sa_init_request_for_transport sha1 a texts m = (r, m1)"
  shows "m1 = m \<and> (\<exists>e. r = Inl e) \<or> (\<exists>offered. offered \<noteq> [] \<and> ike_phase m = IkeIdle
    \<and> (let x = (ctx m)\<lparr>offered_ike_proposals := offered, selected_proposal := Some (hd offered)\<rparr> in
        m1 = m\<lparr>ctx := x\<rparr> \<and> (\<exists>e. r = Inl e)
      \<or> (\<exists>message packet. r = Inr message \<and> encode message = Inr packet
          \<and> IkeHeader.message_id (header message) = 0
          \<and> m1 = push_event message ''outbound'' ''sa_init_request_built''
              (m\<lparr>ctx := x\<lparr>sa_init_request_packet := Some packet\<rparr>, ike_phase := SaInitRequestBuilt,
                 retransmit := initial_state (retransmit_policy m) 0\<rparr>))))"
  using assms unfolding build_sa_init_request_for_transport_def
  by (auto simp: settle_eq result_simps case_results Let_def split: if_split_asm)

lemma sa_init_response_effect:
  assumes "accept_sa_init_response bs m = (r, m1)"
  shows "m1 = m \<and> (\<exists>e. r = Inl e) \<or> (\<exists>e. ike_fail m e = (r, m1)) \<or>
    (\<exists>message sa ke non parsed chosen. ike_phase m = SaInitRequestBuilt \<and> decode bs = Inr message \<and> r = Inr ()
      \<and> sa_init_header_reason m (header message) = None
      \<and> find_payload (payloads message) SecurityAssociation = Some sa
      \<and> find_payload (payloads message) KeyExchange = Some ke
      \<and> find_payload (payloads message) Nonce = Some non
      \<and> parse_sa_payload (body sa) = Inr parsed
      \<and> matching_ike_profile_proposal parsed (offered_ike_proposals (ctx m)) = Some chosen
      \<and> sa_init_body_reason m (payloads message) (body ke) (body non) = None
      \<and> m1 = push_event message ''inbound'' ''sa_init_response_accepted''
                 (m\<lparr>ctx := (ctx m)\<lparr>selected_proposal := Some chosen,
                      ctx_responder_spi := Some (responder_spi (header message)),
                      ctx_nat_t_supported := announces_nat_detection (payloads message),
                      responder_public_dh := Some (drop 4 (body ke)),
                      ctx_responder_nonce := Some (body non),
                      sa_init_response_packet := Some bs\<rparr>,
                    ike_phase := SaInitResponseAccepted, next_message_id := 1,
                    retransmit := initial_state (retransmit_policy m) 1\<rparr>))"
  using assms unfolding accept_sa_init_response_def settle_eq Let_def
  by (simp only: result_simps case_results map_err_eq require_phase_eq sum.inject sum.distinct
      prod.case prod.inject Pair_inject option.inject simp_thms)
     (elim disjE exE conjE; simp del: ike_fail_eq; blast)

lemma derive_effect:
  assumes "derive_session_keys c secret m = Some (r, m1)"
  shows "m1 = m \<and> (\<exists>e. r = Inl e) \<or> (\<exists>s spi_r nonce_r proposal bundle. ike_phase m = SaInitResponseAccepted \<and> r = Inr ()
      \<and> selected_proposal (ctx m) = Some s \<and> ctx_responder_spi (ctx m) = Some spi_r
      \<and> ctx_responder_nonce (ctx m) = Some nonce_r
      \<and> ike_proposal_from_profile_string s 1 = Inr proposal
      \<and> derive_ike_secret_bundle c proposal (ctx_initiator_nonce (ctx m)) nonce_r (ctx_initiator_spi (ctx m))
          spi_r secret = Some (Inr bundle)
      \<and> m1 = push_transcript (next_message_id m) ''ike_sa_init'' ''local''
                     [''key_schedule_summary''] ''session_keys_ready''
                     (m\<lparr>ctx := (ctx m)\<lparr>secret_bundle := Some bundle\<rparr>, ike_phase := SessionKeysReady\<rparr>))"
  using assms unfolding derive_session_keys_def
  by (auto simp: settle_eq result_simps case_results split: prod.splits)


lemma challenge_accepted_effect:
  assumes "challenge_accepted note m s = (r, m1)" "ike_phase m = AuthRequestBuilt"
  shows "eap_move m m1"
    "(\<exists>e. r = Inl e) \<and> ike_phase m1 = IkeFailed \<and> next_message_id m1 = next_message_id m
     \<or> r = Inr () \<and> eap_challenge_summary s \<and> ike_phase m1 = UsimAkaResponsePending
       \<and> next_message_id m1 = saturating_add (next_message_id m) 1"
  using assms unfolding challenge_accepted_def
  by (auto simp: op_simps Let_def split: if_split_asm)

lemma auth_start_request_effect:
  assumes "build_auth_eap_start_request m = (r, m1)"
  shows "m1 = m \<and> (\<exists>e. r = Inl e) \<or> (\<exists>message plan. ike_phase m = SessionKeysReady \<and> r = Inr message
    \<and> IkeHeader.message_id (header message) = next_message_id m
    \<and> m1 = push_event message ''outbound'' ''auth_eap_start_request_built''
        (m\<lparr>ike_phase := AuthRequestBuilt, ctx := (ctx m)\<lparr>encrypted_plan := Some plan\<rparr>,
           retransmit := initial_state (retransmit_policy m) (IkeHeader.message_id (header message))\<rparr>))"
  using assms unfolding build_auth_eap_start_request_def
  by (auto simp: settle_eq result_simps Let_def with_responder_spi_def)

lemma auth_start_effect:
  assumes "build_auth_eap_start_packet_for_identity c sha256 iv identity m = (r, m1)"
  shows "m1 = m \<and> (\<exists>e. r = Inl e) \<or> (\<exists>spi_r bundle inner plan message packet. ike_phase m = SessionKeysReady
    \<and> r = Inr packet \<and> ctx_responder_spi (ctx m) = Some spi_r \<and> secret_bundle (ctx m) = Some bundle
    \<and> build_auth_init_payloads m identity (child_sa_initiator_spi sha256 m) = Inr inner
    \<and> build_encrypted_payload_plan (bundle_plan bundle) inner = Inr plan
    \<and> seal_request c iv m spi_r bundle inner = Inr (message, packet)
    \<and> m1 = push_event message ''outbound'' ''auth_eap_start_packet_built''
          (m\<lparr>ike_phase := AuthRequestBuilt,
             ctx := (ctx m)\<lparr>encrypted_plan := Some plan,
               initiator_id_payload_body := map_option body (find_payload inner IdentificationInitiator),
               ctx_child_sa_initiator_spi := Some (child_sa_initiator_spi sha256 m)\<rparr>,
             retransmit := initial_state (retransmit_policy m) (IkeHeader.message_id (header message))\<rparr>))"
  using assms unfolding build_auth_eap_start_packet_for_identity_def
  by (auto simp: settle_eq result_simps Let_def)

lemma eap_response_effect:
  assumes "build_encrypted_eap_response_packet c iv eap m = (r, m1)"
  shows "eap_move m m1"
    "m1 = m \<and> (\<exists>e. r = Inl e) \<or> (\<exists>spi_r bundle message packet. r = Inr packet
      \<and> ike_phase m \<in> {UsimAkaResponsePending, EapAkaIdentityReceived, EapAkaNotificationReceived}
      \<and> ctx_responder_spi (ctx m) = Some spi_r \<and> secret_bundle (ctx m) = Some bundle
      \<and> seal_request c iv m spi_r bundle
           [\<lparr>payload_type = ExtensibleAuthentication, critical = False, body = eap\<rparr>] = Inr (message, packet)
      \<and> ike_phase m1 = EapAkaResponseReady \<and> ctx m1 = ctx m \<and> ike_profile m1 = ike_profile m
      \<and> next_message_id m1 = saturating_add (next_message_id m) 1)"
  using assms unfolding build_encrypted_eap_response_packet_def
  by (auto simp: op_simps Let_def split: if_split_asm)

lemma final_auth_effect:
  assumes "build_encrypted_final_auth_packet c iv msk m = (r, m1)"
  shows "eap_move m m1"
    "m1 = m \<and> (\<exists>e. r = Inl e) \<or> (\<exists>spi_r bundle auth_data message packet. r = Inr packet
      \<and> ike_phase m = AuthSuccessAccepted
      \<and> ctx_responder_spi (ctx m) = Some spi_r \<and> secret_bundle (ctx m) = Some bundle
      \<and> initiator_auth_data c m msk = Inr auth_data
      \<and> seal_request c iv m spi_r bundle
           [build_authentication_shared_key_payload auth_data] = Inr (message, packet)
      \<and> ike_phase m1 = ike_phase m \<and> ctx m1 = ctx m \<and> ike_profile m1 = ike_profile m
      \<and> next_message_id m1 = saturating_add (next_message_id m) 1)"
  using assms unfolding build_encrypted_final_auth_packet_def
  by (auto simp: op_simps Let_def)

text \<open>The operations that neither send nor touch the material.\<close>

lemma quiet_effects:
  "accept_eap_aka_challenge bs m = (r, m1) \<Longrightarrow> eap_move m m1"
  "accept_encrypted_eap_aka_challenge c bs m = (r, m1) \<Longrightarrow> eap_move m m1"
  "mark_usim_aka_response_ready m = (q, m1) \<Longrightarrow> eap_move m m1 \<and> next_message_id m1 = next_message_id m"
  "accept_auth_success bs m = (r, m1) \<Longrightarrow> eap_move m m1 \<and> next_message_id m1 = next_message_id m"
  "mark_child_sa_ready m = (q, m1) \<Longrightarrow> eap_move m m1 \<and> next_message_id m1 = next_message_id m"
  "handle_control_message bs m = (r, m1) \<Longrightarrow> eap_move m m1 \<and> next_message_id m1 = next_message_id m"
  unfolding accept_eap_aka_challenge_def accept_encrypted_eap_aka_challenge_def
    mark_usim_aka_response_ready_def accept_auth_success_def mark_child_sa_ready_def
    handle_control_message_def
  by (auto simp: settle_eq result_simps dest: challenge_accepted_effect(1))
     (auto simp: op_simps Let_def split: if_split_asm)


text \<open>The CHILD_SA the responder chose: what the material holds when it is recorded.\<close>

definition material_of ::
    "Crypto \<Rightarrow> IkePayload list \<Rightarrow> IkeStateMachine \<Rightarrow> IkeChildSaMaterial \<Rightarrow> bool" where
  "material_of c ps m t \<longleftrightarrow> (\<exists>own_spi bundle nonce_r esp config.
     ctx_child_sa_initiator_spi (ctx m) = Some own_spi \<and> secret_bundle (ctx m) = Some bundle
   \<and> ctx_responder_nonce (ctx m) = Some nonce_r
   \<and> inbound_sa_identifier t = u32_from_be own_spi \<and> inbound_sa_identifier t \<noteq> 0
   \<and> outbound_sa_identifier t = u32_from_be (parsed_spi (child_proposal t)) \<and> outbound_sa_identifier t \<noteq> 0
   \<and> parsed_protocol_id (child_proposal t) = protocol_id_as_u8 ProtoEsp
   \<and> length (parsed_spi (child_proposal t)) = 4
   \<and> selected_profile_proposal t \<in> set (esp_proposals (ikev2 (ike_profile m)))
   \<and> child_proposal_matches (child_proposal t) (selected_profile_proposal t)
   \<and> child_sa_proposal_from_profile_string (selected_profile_proposal t) 1 (parsed_spi (child_proposal t)) = Inr esp
   \<and> derive_child_sa_secret_pair c bundle esp (ctx_initiator_nonce (ctx m)) nonce_r = Some (Inr (child_secrets t))
   \<and> configuration_reply_of ps = Inr config
   \<and> child_configuration t = map_option configuration_material config)"

lemma find_SomeD: "find P xs = Some x \<Longrightarrow> P x \<and> x \<in> set xs"
  by (auto simp: find_Some_iff)

lemma select_child_sa_facts:
  assumes "select_child_sa m ps = Inr (selected, inbound, outbound, s, bun, nonce_r, esp)"
  obtains own_spi where "ctx_child_sa_initiator_spi (ctx m) = Some own_spi"
    "inbound = u32_from_be own_spi" "inbound \<noteq> 0" "outbound = u32_from_be (parsed_spi selected)" "outbound \<noteq> 0"
    "parsed_protocol_id selected = protocol_id_as_u8 ProtoEsp" "length (parsed_spi selected) = 4"
    "s \<in> set (esp_proposals (ikev2 (ike_profile m)))" "child_proposal_matches selected s"
    "secret_bundle (ctx m) = Some bun" "ctx_responder_nonce (ctx m) = Some nonce_r"
    "child_sa_proposal_from_profile_string s 1 (parsed_spi selected) = Inr esp"
  using assms unfolding select_child_sa_def matching_child_sa_profile_proposal_def
  by (auto simp: result_simps Let_def split: if_split_asm dest!: find_SomeD)

lemma summarize_effect:
  assumes "summarize_child_sa_payloads c ps m = Some (r, m1)"
  shows "m1 = m \<and> (\<exists>e. r = Inl e) \<or> (\<exists>t config. r = Inr (child_sa_summary ps config) \<and> material_of c ps m t
    \<and> m1 = m\<lparr>ctx := (ctx m)\<lparr>ctx_child_sa_material := Some t\<rparr>\<rparr>)"
proof (cases "select_child_sa m ps")
  case (Inl e)
  with assms show ?thesis by (auto simp: summarize_child_sa_payloads_def)
next
  case (Inr a)
  obtain selected inbound outbound s bun nonce_r esp
    where a: "a = (selected, inbound, outbound, s, bun, nonce_r, esp)" by (cases a)
  obtain own_spi where own: "ctx_child_sa_initiator_spi (ctx m) = Some own_spi"
    "inbound = u32_from_be own_spi" "inbound \<noteq> 0" "outbound = u32_from_be (parsed_spi selected)" "outbound \<noteq> 0"
    "parsed_protocol_id selected = protocol_id_as_u8 ProtoEsp" "length (parsed_spi selected) = 4"
    "s \<in> set (esp_proposals (ikev2 (ike_profile m)))" "child_proposal_matches selected s"
    "secret_bundle (ctx m) = Some bun" "ctx_responder_nonce (ctx m) = Some nonce_r"
    "child_sa_proposal_from_profile_string s 1 (parsed_spi selected) = Inr esp"
    by (rule select_child_sa_facts [OF Inr [unfolded a]])
  from assms obtain derived where derived: "derive_child_sa_secret_pair c bun esp
      (ctx_initiator_nonce (ctx m)) nonce_r = Some derived"
    by (auto simp: summarize_child_sa_payloads_def Inr a)
  show ?thesis
  proof -
    consider k where "derived = Inl k" | secrets k where "derived = Inr secrets" "configuration_reply_of ps = Inl k"
      | secrets config where "derived = Inr secrets" "configuration_reply_of ps = Inr config"
      by (cases derived; cases "configuration_reply_of ps"; blast)
    then show ?thesis
    proof cases
      case (3 secrets config)
      note sc = this
      define t where "t = \<lparr>inbound_sa_identifier = inbound, outbound_sa_identifier = outbound,
        selected_profile_proposal = s, child_proposal = selected,
        child_configuration = map_option configuration_material config, child_secrets = secrets\<rparr>"
      have "material_of c ps m t"
        unfolding material_of_def t_def
        by (intro exI [of _ own_spi] exI [of _ bun] exI [of _ nonce_r] exI [of _ esp] exI [of _ config])
           (use own sc derived in simp)
      moreover have "r = Inr (child_sa_summary ps config)"
        "m1 = m\<lparr>ctx := (ctx m)\<lparr>ctx_child_sa_material := Some t\<rparr>\<rparr>"
        using assms derived sc by (simp_all add: summarize_child_sa_payloads_def Inr a t_def)
      ultimately show ?thesis by blast
    qed (use assms derived in \<open>auto simp: summarize_child_sa_payloads_def Inr a\<close>)
  qed
qed

text \<open>The two acceptors of the final answers: the material appears together with the phase.\<close>

definition child_sa_step :: "Crypto \<Rightarrow> IkeStateMachine \<Rightarrow> IkeStateMachine \<Rightarrow> bool" where
  "child_sa_step c m m1 \<longleftrightarrow> ike_profile m1 = ike_profile m \<and> ike_phase m1 = ChildSaReady
     \<and> ike_child_sa m1 \<noteq> None \<and> next_message_id m1 = next_message_id m
     \<and> (\<exists>ps t. material_of c ps m t \<and> ctx m1 = (ctx m)\<lparr>ctx_child_sa_material := Some t\<rparr>)"

lemma child_sa_stepI:
  "material_of c ps m t \<Longrightarrow> ctx m1 = (ctx m)\<lparr>ctx_child_sa_material := Some t\<rparr> \<Longrightarrow>
     ike_profile m1 = ike_profile m \<Longrightarrow> ike_phase m1 = ChildSaReady \<Longrightarrow> ike_child_sa m1 \<noteq> None \<Longrightarrow>
     next_message_id m1 = next_message_id m \<Longrightarrow> child_sa_step c m m1"
  unfolding child_sa_step_def by blast

lemma material_of_eap [simp]: "material_of c ps (m\<lparr>ike_eap := s\<rparr>) t = material_of c ps m t"
  by (simp add: material_of_def)

lemma eap_success_effect:
  assumes "eap_success_progress c e ps m = Some (r, m1)" "ike_phase m = EapAkaResponseReady"
  shows "eap_move m m1 \<and> next_message_id m1 = next_message_id m
    \<or> child_sa_step c m m1 \<and> r = Inr (EapSuccess True)"
proof (cases "has_payload ps SecurityAssociation")
  case True
  with assms(1) obtain q m2 where q: "summarize_child_sa_payloads c ps (m\<lparr>ike_eap := Some e\<rparr>) = Some (q, m2)"
    by (auto simp: eap_success_progress_def Let_def split: option.split_asm)
  from summarize_effect [OF q] True assms q show ?thesis
    by (elim disjE exE conjE) (auto simp: eap_success_progress_def op_simps intro: child_sa_stepI)
next
  case False
  with assms show ?thesis by (auto simp: eap_success_progress_def op_simps)
qed

lemma auth_progress_effect:
  assumes "accept_encrypted_auth_progress c bs m = Some (r, m1)"
  shows "eap_move m m1 \<and> next_message_id m1 = next_message_id m \<and> (m1 = m \<or> ike_phase m = EapAkaResponseReady)
    \<or> child_sa_step c m m1 \<and> ike_phase m = EapAkaResponseReady \<and> r = Inr (EapSuccess True)"
proof (cases "rbind (require_phase m EapAkaResponseReady) (\<lambda>_.
           rbind (open_response c m bs) (\<lambda>ps.
           rbind (eap_payload_of ps) (\<lambda>eap.
           rbind (map_err EapFailed (parse_eap_aka_summary eap)) (\<lambda>e. Inr (ps, eap, e)))))")
  case (Inl e)
  with assms show ?thesis by (auto simp: accept_encrypted_auth_progress_def)
next
  case (Inr a)
  obtain ps eap e where a: "a = (ps, eap, e)" by (cases a)
  from Inr have phase: "ike_phase m = EapAkaResponseReady" by (auto simp: result_simps)
  let ?request = "eap_code e = ''request'' \<and> eap_method e = ''aka''"
  have out: "Some (r, m1) =
      (if ?request \<and> eap_subtype e = ''identity''
       then Some (eap_round EapAkaIdentityReceived ''encrypted_eap_aka_identity_received'' (EapAkaIdentity eap) e ps m)
       else if ?request \<and> eap_subtype e = ''notification''
       then Some (eap_round EapAkaNotificationReceived ''encrypted_eap_aka_notification_received''
                    (EapAkaNotification eap) e ps m)
       else if eap_code e \<noteq> ''success'' then Some (ike_fail m (InvalidResponse ''expected_eap_success''))
       else eap_success_progress c e ps m)"
    unfolding assms [symmetric] accept_encrypted_auth_progress_def Inr a by (simp only: sum.case prod.case conj_assoc)
  have round: "eap_move m m1 \<and> next_message_id m1 = next_message_id m"
    if "(r, m1) = eap_round ph nt pr e ps m" "ph \<in> key_phases - {SessionKeysReady, AuthRequestBuilt}" for ph nt pr
    using that phase by (simp add: eap_round_def eap_move_def same_def key_phases_def)
  show ?thesis
  proof (cases "?request \<and> (eap_subtype e = ''identity'' \<or> eap_subtype e = ''notification'')")
    case True
    then show ?thesis using out round phase
      by (cases "eap_subtype e = ''identity''") (simp_all add: key_phases_def)
  next
    case no_round: False
    show ?thesis
    proof (cases "eap_code e = ''success''")
      case True
      then have "eap_success_progress c e ps m = Some (r, m1)" using out by simp
      from eap_success_effect [OF this phase] phase show ?thesis by blast
    next
      case False
      then have "ike_fail m (InvalidResponse ''expected_eap_success'') = (r, m1)"
        using out no_round by (simp del: ike_fail_eq split: if_split_asm)
      then show ?thesis using phase by (auto simp: op_simps)
    qed
  qed
qed

lemma child_sa_response_effect:
  assumes "accept_encrypted_child_sa_response c bs m = Some (r, m1)"
  shows "m1 = m \<or> child_sa_step c m m1 \<and> ike_phase m = AuthSuccessAccepted \<and> r = Inr ()"
  using assms unfolding accept_encrypted_child_sa_response_def
  by (auto simp: result_simps case_results dest!: summarize_effect intro: child_sa_stepI)

lemma auth_progress_phase:
  assumes "accept_encrypted_auth_progress c bs m = Some (Inr p, m1)"
  shows "ike_phase m = EapAkaResponseReady"
proof (rule ccontr)
  assume "ike_phase m \<noteq> EapAkaResponseReady"
  then obtain e where "require_phase m EapAkaResponseReady = Inl e" by (auto simp: require_phase_def)
  with assms show False by (simp add: accept_encrypted_auth_progress_def)
qed

lemma eap_move_failed:
  assumes "eap_move m m2" "ike_fail m2 e = (r, m1)"
  shows "eap_move m m1" "next_message_id m1 = next_message_id m2"
  using assms by (simp_all add: eap_move_def same_def closed_phases_def) auto

lemma encrypted_success_effect:
  assumes "accept_encrypted_auth_success c bs m = Some (r, m1)"
  shows "eap_move m m1 \<and> next_message_id m1 = next_message_id m \<and> (m1 = m \<or> ike_phase m = EapAkaResponseReady)
    \<or> child_sa_step c m m1 \<and> ike_phase m = EapAkaResponseReady"
proof -
  from assms obtain q m2 where q: "accept_encrypted_auth_progress c bs m = Some (q, m2)"
    by (auto simp: accept_encrypted_auth_success_def split: option.split_asm)
  note effect = auth_progress_effect [OF q]
  have m1: "m1 = m2 \<or> (\<exists>e p. ike_fail m2 e = (r, m1) \<and> q = Inr p \<and> p \<noteq> EapSuccess True)"
  proof (cases q)
    case (Inr p)
    with assms q show ?thesis
      by (cases p) (auto simp: accept_encrypted_auth_success_def simp del: ike_fail_eq)
  qed (use assms q in \<open>auto simp: accept_encrypted_auth_success_def\<close>)
  from m1 show ?thesis
  proof
    assume "m1 = m2"
    then show ?thesis using effect by blast
  next
    assume "\<exists>e p. ike_fail m2 e = (r, m1) \<and> q = Inr p \<and> p \<noteq> EapSuccess True"
    then obtain e p where fail: "ike_fail m2 e = (r, m1)" and p: "q = Inr p" "p \<noteq> EapSuccess True" by blast
    from effect p have move: "eap_move m m2" "next_message_id m2 = next_message_id m" by auto
    from auth_progress_phase q p have "ike_phase m = EapAkaResponseReady" by blast
    with eap_move_failed [OF move(1) fail] move(2) show ?thesis by simp
  qed
qed

end
