(* ===== verification/Child_Sa_Runs.thy ===== *)
theory Child_Sa_Runs
  imports Child_Sa
begin

text \<open>
  Runs of the CHILD_SA state machine: every public operation is a call of \<open>sa_call\<close>, \<open>sa_trace\<close> is the
  set of states and decision histories that sequences of calls reach, and the lemmas show what one
  call may change.  The properties state what a peer and the operator can rely on in every run.
\<close>

section \<open>Runs\<close>

datatype SaCall =
  CallNegotiate u32 u32 | CallNegotiateWith u32 u32 string | CallSecretsReady | CallInnerReady
  | CallRekey | CallTeardown | CallInboundEsp u64 nat | CallInboundNatT bytes
  | CallOutboundEsp nat | CallOutboundInner bytes

fun sa_call :: "ChildSaStateMachine \<Rightarrow> SaCall
    \<Rightarrow> ChildSaStateMachine \<times> (DataplaneStateError + EspFrameDecision option)" where
  "sa_call m (CallNegotiate i j) = map_prod id (rmap (\<lambda>_. None)) (negotiate_child_sa m i j)"
| "sa_call m (CallNegotiateWith i j s) =
     map_prod id (rmap (\<lambda>_. None)) (negotiate_child_sa_with_profile_proposal m i j s)"
| "sa_call m CallSecretsReady = map_prod id (rmap (\<lambda>_. None)) (mark_esp_secrets_ready m)"
| "sa_call m CallInnerReady = map_prod id (rmap (\<lambda>_. None)) (mark_inner_stack_ready m)"
| "sa_call m CallRekey = map_prod id (rmap (\<lambda>_. None)) (begin_rekey m)"
| "sa_call m CallTeardown = (teardown m, Inr None)"
| "sa_call m (CallInboundEsp s n) = map_prod id (rmap Some) (record_inbound_esp_frame m s n)"
| "sa_call m (CallInboundNatT w) = map_prod id (rmap Some) (record_inbound_nat_t_packet m w)"
| "sa_call m (CallOutboundEsp n) = map_prod id (rmap Some) (record_outbound_esp_frame m n)"
| "sa_call m (CallOutboundInner b) = map_prod id (rmap Some) (record_outbound_inner_packet m b)"

definition decisions :: "DataplaneStateError + EspFrameDecision option \<Rightarrow> EspFrameDecision list" where
  "decisions r = (case r of Inr (Some d) \<Rightarrow> [d] | _ \<Rightarrow> [])"

text \<open>\<open>sa_trace p m h\<close>: a machine created for profile \<open>p\<close> reached state \<open>m\<close> after calls that
  returned the frame decisions \<open>h\<close>, in order.\<close>

inductive sa_trace :: "CarrierProfile \<Rightarrow> ChildSaStateMachine \<Rightarrow> EspFrameDecision list \<Rightarrow> bool"
  for p where
  start: "sa_trace p (child_sa_new p) []"
| call: "sa_trace p m h \<Longrightarrow> sa_call m c = (m', r) \<Longrightarrow> sa_trace p m' (h @ decisions r)"

definition accepted_seqs :: "string \<Rightarrow> EspFrameDecision list \<Rightarrow> u64 list" where
  "accepted_seqs dir h = List.map_filter
     (\<lambda>d. if fd_direction d = dir \<and> fd_accepted d then fd_sequence_number d else None) h"

definition out_seqs :: "EspFrameDecision list \<Rightarrow> u64 list" where
  "out_seqs h = accepted_seqs ''outbound'' h"

definition in_seqs :: "EspFrameDecision list \<Rightarrow> u64 list" where
  "in_seqs h = accepted_seqs ''inbound'' h"

lemma accepted_seqs_append [simp]:
  "accepted_seqs dir (h @ k) = accepted_seqs dir h @ accepted_seqs dir k"
  by (simp add: accepted_seqs_def List.map_filter_def)

lemma accepted_seqs_Nil [simp]: "accepted_seqs dir [] = []"
  by (simp add: accepted_seqs_def List.map_filter_def)

lemma seqs_append [simp]:
  "out_seqs (h @ k) = out_seqs h @ out_seqs k" "in_seqs (h @ k) = in_seqs h @ in_seqs k"
  "out_seqs [] = []" "in_seqs [] = []"
  by (simp_all add: out_seqs_def in_seqs_def)

lemma decisions_simps [simp]:
  "decisions (Inl e) = []" "decisions (Inr None) = []" "decisions (Inr (Some d)) = [d]"
  by (simp_all add: decisions_def)

section \<open>Invariants\<close>

fun live :: "DataplanePhase \<Rightarrow> bool" where
  "live Idle = False"
| "live Teardown = False"
| "live Failed = False"
| "live _ = True"

definition sa_wf :: "CarrierProfile \<Rightarrow> ChildSaStateMachine \<Rightarrow> bool" where
  "sa_wf p m \<longleftrightarrow> profile m = p \<and> mtu m = build_mtu_plan DEFAULT_OUTER_MTU
     \<and> (live (phase m) \<longrightarrow> inbound_sa m \<noteq> None \<and> outbound_sa m \<noteq> None
          \<and> selected_esp_proposal m \<noteq> None)
     \<and> (\<not> live (phase m) \<longrightarrow> inbound_sa m = None \<and> outbound_sa m = None)
     \<and> (\<forall>sa. inbound_sa m = Some sa \<or> outbound_sa m = Some sa \<longrightarrow> sa_identifier sa \<noteq> 0)
     \<and> queue_capacity (inner_gateway m) = INNER_QUEUE_CAPACITY
     \<and> length (queue (inner_gateway m)) \<le> INNER_QUEUE_CAPACITY"

lemma ready_phases:
  "require_ready_for_frames m = Inr u \<longleftrightarrow> phase m = InnerStackReady \<or> phase m = Forwarding"
  by (auto simp: require_ready_for_frames_def split: DataplanePhase.splits)

lemma require_phase_ok: "require_phase m ph = Inr u \<longleftrightarrow> phase m = ph"
  by (auto simp: require_phase_def)

lemma sa_direction_new_ok:
  "sa_direction_new i = Inr sa \<longleftrightarrow>
     i \<noteq> 0 \<and> sa = \<lparr>sa_identifier = i, next_sequence = 1, packets = 0, sa_bytes = 0\<rparr>"
  by (auto simp: sa_direction_new_def)

lemma sa_record_fields [simp]:
  "sa_identifier (sa_record sa n) = sa_identifier sa"
  "next_sequence (sa_record sa n) = next_sequence sa"
  by (simp_all add: sa_record_def)

lemma gateway_fields [simp]:
  "queue (fst (record_inbound g n)) = queue g"
  "queue_capacity (fst (record_inbound g n)) = queue_capacity g"
  "queue (fst (record_drop g b s)) = queue g"
  "queue_capacity (fst (record_drop g b s)) = queue_capacity g"
  by (simp_all add: record_inbound_def record_drop_def Let_def)

lemma enqueue_cases:
  "enqueue_outbound g b = (g', r) \<Longrightarrow>
     (length (queue g) \<ge> queue_capacity g \<and> g' = g \<and> r = Inl InnerQueueFull)
   \<or> (length (queue g) < queue_capacity g \<and> queue_capacity g' = queue_capacity g
      \<and> length (queue g') = Suc (length (queue g)) \<and> (\<exists>md. r = Inr md))"
  by (auto simp: enqueue_outbound_def Let_def split: if_splits)

lemma allocate_cases:
  "allocate_sequence sa = (sa', r) \<Longrightarrow>
     (u32_max < unat (next_sequence sa) \<and> sa' = sa \<and> r = Inl SequenceExhausted)
   \<or> (unat (next_sequence sa) \<le> u32_max \<and> r = Inr (next_sequence sa)
      \<and> sa' = sa\<lparr>next_sequence := next_sequence sa + 1\<rparr>)"
  by (auto simp: allocate_sequence_def Let_def split: if_splits)

lemmas phase_simps = ready_phases require_phase_ok sa_direction_new_ok

text \<open>Every operation keeps the invariant.\<close>

lemma sa_wf_new: "sa_wf p (child_sa_new p)"
  by (simp add: sa_wf_def child_sa_new_def gateway_new_def)

lemma sa_wf_negotiate_with:
  "sa_wf p m \<Longrightarrow> sa_wf p (fst (negotiate_child_sa_with_profile_proposal m i j s))"
  by (auto simp: negotiate_child_sa_with_profile_proposal_def sa_wf_def phase_simps
      split: sum.splits)

lemma sa_wf_negotiate: "sa_wf p m \<Longrightarrow> sa_wf p (fst (negotiate_child_sa m i j))"
  by (auto simp: negotiate_child_sa_def sa_wf_negotiate_with split: list.splits)

lemma sa_wf_phases:
  "sa_wf p m \<Longrightarrow> sa_wf p (fst (mark_esp_secrets_ready m))"
  "sa_wf p m \<Longrightarrow> sa_wf p (fst (mark_inner_stack_ready m))"
  "sa_wf p m \<Longrightarrow> sa_wf p (fst (begin_rekey m))"
  "sa_wf p m \<Longrightarrow> sa_wf p (teardown m)"
  by (auto simp: mark_esp_secrets_ready_def mark_inner_stack_ready_def begin_rekey_def teardown_def
      sa_wf_def phase_simps split: sum.splits)

lemma sa_wf_inbound_esp: "sa_wf p m \<Longrightarrow> sa_wf p (fst (record_inbound_esp_frame m s n))"
  by (auto simp: record_inbound_esp_frame_def sa_wf_def phase_simps Let_def
      split: sum.splits prod.splits)

lemma sa_wf_inbound_natt: "sa_wf p m \<Longrightarrow> sa_wf p (fst (record_inbound_nat_t_packet m w))"
  by (auto simp: record_inbound_nat_t_packet_def sa_wf_def phase_simps Let_def
      split: sum.splits prod.splits option.splits)

lemma sa_wf_wire_frame:
  "sa_wf p m \<Longrightarrow> live (phase m) \<Longrightarrow> sa_wf p (fst (record_outbound_wire_frame m s n a b))"
  by (auto simp: record_outbound_wire_frame_def sa_wf_def Let_def)

lemma sa_wf_outbound_esp: "sa_wf p m \<Longrightarrow> sa_wf p (fst (record_outbound_esp_frame m n))"
  by (auto simp: record_outbound_esp_frame_def record_outbound_wire_frame_def sa_wf_def phase_simps
      Let_def split: sum.splits prod.splits option.splits dest!: allocate_cases)

lemma sa_wf_outbound_inner: "sa_wf p m \<Longrightarrow> sa_wf p (fst (record_outbound_inner_packet m b))"
  by (auto simp: record_outbound_inner_packet_def record_outbound_wire_frame_def sa_wf_def
      phase_simps Let_def split: sum.splits prod.splits option.splits
      dest!: allocate_cases enqueue_cases)

lemma sa_wf_call: "sa_wf p m \<Longrightarrow> sa_wf p (fst (sa_call m c))"
  by (cases c) (simp_all add: sa_wf_negotiate sa_wf_negotiate_with sa_wf_phases sa_wf_inbound_esp
      sa_wf_inbound_natt sa_wf_outbound_esp sa_wf_outbound_inner)

lemma sa_wf_trace: "sa_trace p m h \<Longrightarrow> sa_wf p m"
proof (induction rule: sa_trace.induct)
  case start
  then show ?case by (rule sa_wf_new)
next
  case (call m h c m' r)
  then show ?case using sa_wf_call [of p m c] by simp
qed

text \<open>What one call can do to the outbound counter: leave it (and hand out no number), hand out
  the next number, create it at 1, or drop it for good.\<close>

lemma accepted_seqs_single:
  "accepted_seqs dir [d] = (case fd_sequence_number d of
     Some s \<Rightarrow> if fd_direction d = dir \<and> fd_accepted d then [s] else [] | None \<Rightarrow> [])"
  by (auto simp: accepted_seqs_def List.map_filter_def split: option.splits)

definition out_step :: "ChildSaStateMachine \<Rightarrow> ChildSaStateMachine \<Rightarrow> EspFrameDecision list \<Rightarrow> bool" where
  "out_step m m' ds \<longleftrightarrow>
     (let next = map_option next_sequence
      in (next (outbound_sa m') = next (outbound_sa m)
            \<and> out_seqs ds = [])
       \<or> (\<exists>n. next (outbound_sa m) = Some n \<and> unat n \<le> u32_max
            \<and> next (outbound_sa m') = Some (n + 1) \<and> out_seqs ds = [n])
       \<or> (phase m = Idle \<and> next (outbound_sa m') = Some 1 \<and> phase m' \<noteq> Idle
            \<and> out_seqs ds = [])
       \<or> (phase m' = Teardown \<and> outbound_sa m' = None \<and> out_seqs ds = []))"

lemmas out_step_simps = out_step_def Let_def out_seqs_def accepted_seqs_single

lemma out_step_negotiate_with:
  "negotiate_child_sa_with_profile_proposal m i j s = (m', r) \<Longrightarrow> out_step m m' []"
  by (auto simp: negotiate_child_sa_with_profile_proposal_def out_step_simps phase_simps
      split: sum.splits if_splits)

lemma out_step_negotiate: "negotiate_child_sa m i j = (m', r) \<Longrightarrow> out_step m m' []"
  by (auto simp: negotiate_child_sa_def dest: out_step_negotiate_with split: list.splits)
     (auto simp: out_step_simps)

lemma out_step_phases:
  "mark_esp_secrets_ready m = (m', r) \<Longrightarrow> out_step m m' []"
  "mark_inner_stack_ready m = (m', r) \<Longrightarrow> out_step m m' []"
  "begin_rekey m = (m', r) \<Longrightarrow> out_step m m' []"
  "teardown m = m' \<Longrightarrow> out_step m m' []"
  by (auto simp: mark_esp_secrets_ready_def mark_inner_stack_ready_def begin_rekey_def teardown_def
      out_step_simps split: sum.splits)

lemma out_step_inbound:
  assumes "outbound_sa m' = outbound_sa m" and "\<And>d. r = Inr d \<Longrightarrow> fd_direction d = ''inbound''"
  shows "out_step m m' (decisions (rmap Some r))"
  using assms by (cases r) (simp_all add: out_step_simps split: option.splits)

lemma inbound_esp_keeps_outbound:
  "record_inbound_esp_frame m s n = (m', r) \<Longrightarrow>
     outbound_sa m' = outbound_sa m \<and> (\<forall>d. r = Inr d \<longrightarrow> fd_direction d = ''inbound'')"
  by (auto simp: record_inbound_esp_frame_def Let_def split: sum.splits prod.splits)

lemma inbound_natt_keeps_outbound:
  "record_inbound_nat_t_packet m w = (m', r) \<Longrightarrow>
     outbound_sa m' = outbound_sa m \<and> (\<forall>d. r = Inr d \<longrightarrow> fd_direction d = ''inbound'')"
  by (auto simp: record_inbound_nat_t_packet_def Let_def
      split: sum.splits prod.splits option.splits)

lemma out_step_outbound_esp:
  "record_outbound_esp_frame m n = (m', r) \<Longrightarrow> out_step m m' (decisions (rmap Some r))"
  by (auto simp: record_outbound_esp_frame_def record_outbound_wire_frame_def out_step_simps
      split: sum.splits prod.splits option.splits dest!: allocate_cases)

lemma outbound_inner_cases:
  assumes run: "record_outbound_inner_packet m b = (m', r)"
    and sa: "\<forall>sa. outbound_sa m = Some sa \<longrightarrow> sa_identifier sa \<noteq> 0 \<and> next_sequence sa \<noteq> 0"
  shows "(outbound_sa m' = outbound_sa m \<and> (\<forall>d. r = Inr d \<longrightarrow> \<not> fd_accepted d))
    \<or> (\<exists>sa sa' d. outbound_sa m = Some sa \<and> unat (next_sequence sa) \<le> u32_max
        \<and> outbound_sa m' = Some sa' \<and> next_sequence sa' = next_sequence sa + 1
        \<and> r = Inr d \<and> fd_direction d = ''outbound'' \<and> fd_accepted d
        \<and> fd_sequence_number d = Some (next_sequence sa)
        \<and> fd_outer_frame_bytes d = ESP_HEADER_BYTES + protected_len_for_inner_packet (length b)
        \<and> mtu_accepted (evaluate_mtu m (length b)))"
proof (cases "require_ready_for_frames m")
  case (Inl e)
  then show ?thesis using run by (auto simp: record_outbound_inner_packet_def)
next
  case ready: (Inr u)
  show ?thesis
  proof (cases "mtu_accepted (evaluate_mtu m (length b))")
    case False
    then show ?thesis using run ready by (auto simp: record_outbound_inner_packet_def Let_def)
  next
    case fits: True
    obtain g q where enq: "enqueue_outbound (inner_gateway m) b = (g, q)" by force
    show ?thesis
    proof (cases "q")
      case (Inl e)
      then show ?thesis using run ready fits enq
        by (auto simp: record_outbound_inner_packet_def Let_def)
    next
      case q: (Inr md)
      show ?thesis
      proof (cases "outbound_sa m")
        case None
        then show ?thesis using run ready fits enq q
          by (auto simp: record_outbound_inner_packet_def Let_def)
      next
        case (Some s)
        obtain s' a where al: "allocate_sequence s = (s', a)" by force
        note path = ready fits enq q Some al
        from allocate_cases [OF al] show ?thesis
        proof (elim disjE conjE)
          assume "s' = s" "a = Inl SequenceExhausted"
          then have "m' = m\<lparr>inner_gateway := g, outbound_sa := Some s\<rparr>" "r = Inl SequenceExhausted"
            using run by (simp_all add: record_outbound_inner_packet_def Let_def path)
          then show ?thesis using Some by simp
        next
          let ?n = "protected_len_for_inner_packet (length b)"
          assume a: "unat (next_sequence s) \<le> u32_max" "a = Inr (next_sequence s)"
            "s' = s\<lparr>next_sequence := next_sequence s + 1\<rparr>"
          then obtain md where md: "build_esp_frame_metadata (sa_identifier s) (next_sequence s) ?n
              = Inr md" "esp_outer_frame_bytes md = ESP_HEADER_BYTES + ?n"
            using sa Some by (simp add: build_esp_frame_metadata_def)
          from run have "record_outbound_wire_frame (m\<lparr>inner_gateway := g, outbound_sa := Some s'\<rparr>)
              (next_sequence s) (wire_bytes (wrap_esp_metadata_for_nat_t md))
              (Some (wrap_esp_metadata_for_nat_t md)) (Some (evaluate_mtu m (length b))) = (m', r)"
            by (simp add: record_outbound_inner_packet_def Let_def path a md)
          then show ?thesis using a md(2) Some fits
            by (simp add: record_outbound_wire_frame_def Let_def wrap_esp_metadata_for_nat_t_def) auto
        qed
      qed
    qed
  qed
qed

lemma out_step_outbound_inner:
  assumes "record_outbound_inner_packet m b = (m', r)"
    and "\<forall>sa. outbound_sa m = Some sa \<longrightarrow> sa_identifier sa \<noteq> 0 \<and> next_sequence sa \<noteq> 0"
  shows "out_step m m' (decisions (rmap Some r))"
  using outbound_inner_cases [OF assms]
  by (cases r) (auto simp: out_step_simps split: option.splits)

text \<open>The outbound numbers so far are 1, 2, \dots up to the counter.\<close>

definition out_inv :: "ChildSaStateMachine \<Rightarrow> EspFrameDecision list \<Rightarrow> bool" where
  "out_inv m h \<longleftrightarrow> (\<exists>n. n \<le> u32_max \<and> map unat (out_seqs h) = [1..<Suc n]
     \<and> (\<forall>sa. outbound_sa m = Some sa \<longrightarrow> unat (next_sequence sa) = Suc n)
     \<and> (phase m = Idle \<longrightarrow> n = 0 \<and> outbound_sa m = None))"

lemma upt_snoc_unat: "unat (x + 1) = Suc (unat x)" if "unat x \<le> u32_max" for x :: u64
  using that by (simp add: unat_word_ariths)

lemma out_inv_step:
  assumes inv: "out_inv m h" and step: "out_step m m' ds" and idle: "phase m' = Idle \<longrightarrow> phase m = Idle"
    and wf: "\<not> live (phase m') \<longrightarrow> outbound_sa m' = None"
  shows "out_inv m' (h @ ds)"
proof -
  from inv obtain n where n: "n \<le> u32_max" "map unat (out_seqs h) = [1..<Suc n]"
    "\<forall>sa. outbound_sa m = Some sa \<longrightarrow> unat (next_sequence sa) = Suc n"
    "phase m = Idle \<longrightarrow> n = 0 \<and> outbound_sa m = None"
    unfolding out_inv_def by blast
  from step [unfolded out_step_def Let_def] show ?thesis
  proof (elim disjE exE conjE)
    assume keep: "map_option next_sequence (outbound_sa m') = map_option next_sequence (outbound_sa m)"
      "out_seqs ds = []"
    have "unat (next_sequence sa) = Suc n" if "outbound_sa m' = Some sa" for sa
      using that keep(1) n(3) by (cases "outbound_sa m") auto
    moreover have "phase m' = Idle \<longrightarrow> n = 0 \<and> outbound_sa m' = None" using idle n(4) wf by auto
    ultimately show ?thesis unfolding out_inv_def using n keep(2) by auto
  next
    fix x assume alloc: "map_option next_sequence (outbound_sa m) = Some x" "unat x \<le> u32_max"
      "map_option next_sequence (outbound_sa m') = Some (x + 1)" "out_seqs ds = [x]"
    then have x: "unat x = Suc n" using n(3) by auto
    have "unat (next_sequence sa) = Suc (Suc n)" if "outbound_sa m' = Some sa" for sa
      using that alloc(3) upt_snoc_unat [OF alloc(2)] x by auto
    moreover have "phase m' \<noteq> Idle" using idle n(4) alloc(1) by auto
    moreover have "map unat (out_seqs (h @ ds)) = [1..<Suc (Suc n)]"
      using n(2) alloc(4) x by simp
    ultimately show ?thesis unfolding out_inv_def
      using alloc(2) x by (intro exI [of _ "Suc n"]) auto
  next
    assume create: "phase m = Idle" "map_option next_sequence (outbound_sa m') = Some 1"
      "phase m' \<noteq> Idle" "out_seqs ds = []"
    then have "n = 0" using n(4) by simp
    then show ?thesis unfolding out_inv_def using create n(2) by (intro exI [of _ 0]) auto
  next
    assume "phase m' = Teardown" "outbound_sa m' = None" "out_seqs ds = []"
    then show ?thesis unfolding out_inv_def using n by auto
  qed
qed

lemma sa_wf_not_live: "sa_wf p m \<Longrightarrow> \<not> live (phase m) \<longrightarrow> outbound_sa m = None"
  by (simp add: sa_wf_def)

lemma call_keeps_idle: "sa_call m c = (m', r) \<Longrightarrow> phase m' = Idle \<Longrightarrow> phase m = Idle"
proof (cases c)
qed (auto simp: negotiate_child_sa_def negotiate_child_sa_with_profile_proposal_def
    mark_esp_secrets_ready_def mark_inner_stack_ready_def begin_rekey_def teardown_def
    record_inbound_esp_frame_def record_inbound_nat_t_packet_def record_outbound_esp_frame_def
    record_outbound_inner_packet_def record_outbound_wire_frame_def Let_def
    split: sum.splits prod.splits option.splits list.splits if_splits)

lemma out_step_call:
  assumes "sa_call m c = (m', r)"
    and "\<forall>sa. outbound_sa m = Some sa \<longrightarrow> sa_identifier sa \<noteq> 0 \<and> next_sequence sa \<noteq> 0"
  shows "out_step m m' (decisions r)"
proof -
  have none: "decisions (rmap (\<lambda>_. None) x) = []" for x :: "DataplaneStateError + unit"
    by (cases x) simp_all
  note ops = out_step_negotiate [OF prod.collapse [symmetric]]
    out_step_negotiate_with [OF prod.collapse [symmetric]] out_step_phases(4) [OF refl]
    out_step_phases(1-3) [OF prod.collapse [symmetric]]
    out_step_outbound_esp [OF prod.collapse [symmetric]]
    out_step_outbound_inner [OF prod.collapse [symmetric] assms(2)]
    out_step_inbound [OF inbound_esp_keeps_outbound [OF prod.collapse [symmetric], THEN conjunct1]
      inbound_esp_keeps_outbound [OF prod.collapse [symmetric], THEN conjunct2, rule_format]]
    out_step_inbound [OF inbound_natt_keeps_outbound [OF prod.collapse [symmetric], THEN conjunct1]
      inbound_natt_keeps_outbound [OF prod.collapse [symmetric], THEN conjunct2, rule_format]]
  show ?thesis
    using assms(1) by (cases c) (auto simp: none map_prod_def case_prod_beta ops)
qed

lemma sa_wf_ids: "sa_wf p m \<Longrightarrow> outbound_sa m = Some sa \<Longrightarrow> sa_identifier sa \<noteq> 0"
  by (simp add: sa_wf_def)

lemma trace_out_inv: "sa_trace p m h \<Longrightarrow> out_inv m h"
proof (induction rule: sa_trace.induct)
  case start
  then show ?case by (simp add: out_inv_def child_sa_new_def)
next
  case (call m h c m' r)
  note wf = sa_wf_trace [OF call.hyps(1)] sa_wf_trace [OF sa_trace.call [OF call.hyps]]
  have "sa_identifier sa \<noteq> 0 \<and> next_sequence sa \<noteq> 0" if "outbound_sa m = Some sa" for sa
    using call.IH that sa_wf_ids [OF wf(1) that] by (auto simp: out_inv_def)
  then have "out_step m m' (decisions r)" by (intro out_step_call [OF call.hyps(2)]) blast
  then show ?case
    using call_keeps_idle [OF call.hyps(2)] sa_wf_not_live [OF wf(2)]
    by (intro out_inv_step [OF call.IH]) blast+
qed

text \<open>What one call can do to the replay window: nothing, or one arrival.\<close>

definition in_step :: "ChildSaStateMachine \<Rightarrow> ChildSaStateMachine \<Rightarrow> EspFrameDecision list \<Rightarrow> bool" where
  "in_step m m' ds \<longleftrightarrow> (replay_window m' = replay_window m \<and> in_seqs ds = [])
     \<or> (\<exists>s. replay_window m' = fst (accept_bit (replay_window m) s)
          \<and> in_seqs ds = (if snd (accept_bit (replay_window m) s) then [s] else []))"

lemma in_step_keep: "replay_window m' = replay_window m \<Longrightarrow> in_seqs ds = [] \<Longrightarrow> in_step m m' ds"
  by (simp add: in_step_def)

lemma in_step_arrival:
  "window_accept (replay_window m) s = (w, d) \<Longrightarrow> replay_window m' = w \<Longrightarrow>
   in_seqs ds = (if ard_accepted d then [s] else []) \<Longrightarrow> in_step m m' ds"
  unfolding in_step_def by (intro disjI2 exI [of _ s]) (simp add: accept_bit_def)

lemma in_seqs_single:
  "in_seqs [d] = (case fd_sequence_number d of
     Some s \<Rightarrow> if fd_direction d = ''inbound'' \<and> fd_accepted d then [s] else [] | None \<Rightarrow> [])"
  by (simp add: in_seqs_def accepted_seqs_single)

lemma in_step_inbound_esp:
  "in_step m (fst (record_inbound_esp_frame m s n))
     (decisions (rmap Some (snd (record_inbound_esp_frame m s n))))"
proof (cases "require_ready_for_frames m")
  case (Inl e)
  then show ?thesis by (simp add: in_step_keep record_inbound_esp_frame_def)
next
  case (Inr u)
  obtain w d where "window_accept (replay_window m) s = (w, d)" by force
  then show ?thesis
    by (rule in_step_arrival)
       (simp_all add: record_inbound_esp_frame_def Inr \<open>window_accept _ _ = _\<close> Let_def
         in_seqs_single)
qed

lemma in_step_inbound_natt:
  "in_step m (fst (record_inbound_nat_t_packet m b))
     (decisions (rmap Some (snd (record_inbound_nat_t_packet m b))))"
proof (cases "require_ready_for_frames m")
  case (Inl e)
  then show ?thesis by (simp add: in_step_keep record_inbound_nat_t_packet_def)
next
  case ready: (Inr u)
  show ?thesis
  proof (cases "parse_nat_t_packet b")
    case (Inl e)
    then show ?thesis by (simp add: in_step_keep record_inbound_nat_t_packet_def ready)
  next
    case natt: (Inr natt)
    show ?thesis
    proof (cases "natt_esp natt")
      case None
      then show ?thesis
        by (intro in_step_keep)
           (simp_all add: record_inbound_nat_t_packet_def ready natt Let_def in_seqs_single)
    next
      case (Some esp)
      obtain w d where acc: "window_accept (replay_window m) (esp_sequence_number esp) = (w, d)"
        by force
      then show ?thesis
        by (rule in_step_arrival)
           (simp_all add: record_inbound_nat_t_packet_def ready natt Some acc Let_def in_seqs_single)
    qed
  qed
qed

lemma in_step_others:
  "in_step m (fst (negotiate_child_sa_with_profile_proposal m i j s)) []"
  "in_step m (fst (negotiate_child_sa m i j)) []"
  "in_step m (fst (mark_esp_secrets_ready m)) []"
  "in_step m (fst (mark_inner_stack_ready m)) []"
  "in_step m (fst (begin_rekey m)) []"
  "in_step m (teardown m) []"
  by (auto intro!: in_step_keep simp: negotiate_child_sa_def
      negotiate_child_sa_with_profile_proposal_def mark_esp_secrets_ready_def
      mark_inner_stack_ready_def begin_rekey_def teardown_def split: list.splits sum.splits)

lemma outbound_keeps_window:
  "replay_window (fst (record_outbound_esp_frame m n)) = replay_window m"
  "replay_window (fst (record_outbound_inner_packet m b)) = replay_window m"
  by (auto simp: record_outbound_esp_frame_def record_outbound_inner_packet_def
      record_outbound_wire_frame_def Let_def split: sum.splits prod.splits option.splits)

lemma outbound_direction:
  "snd (record_outbound_esp_frame m n) = Inr d \<Longrightarrow> fd_direction d = ''outbound''"
  "snd (record_outbound_inner_packet m b) = Inr d \<Longrightarrow> fd_direction d = ''outbound''"
  by (auto simp: record_outbound_esp_frame_def record_outbound_inner_packet_def
      record_outbound_wire_frame_def Let_def split: sum.splits prod.splits option.splits if_splits)

lemma in_step_outbound:
  assumes "replay_window m' = replay_window m" and "\<And>d. r = Inr d \<Longrightarrow> fd_direction d = ''outbound''"
  shows "in_step m m' (decisions (rmap Some r))"
  using assms by (cases r) (auto intro!: in_step_keep simp: in_seqs_single split: option.splits)

lemma in_step_call: "sa_call m c = (m', r) \<Longrightarrow> in_step m m' (decisions r)"
proof -
  assume call: "sa_call m c = (m', r)"
  have none: "decisions (rmap (\<lambda>_. None) x) = []" for x :: "DataplaneStateError + unit"
    by (cases x) simp_all
  from call show ?thesis
    by (cases c) (auto simp: none map_prod_def case_prod_beta in_step_others in_step_inbound_esp
        in_step_inbound_natt in_step_outbound [OF outbound_keeps_window(1) outbound_direction(1)]
        in_step_outbound [OF outbound_keeps_window(2) outbound_direction(2)])
qed

lemma trace_in_inv:
  "sa_trace p m h \<Longrightarrow> tracks_window (replay_window m) (set (in_seqs h)) \<and> distinct (in_seqs h)"
proof (induction rule: sa_trace.induct)
  case start
  then show ?case by (simp add: child_sa_new_def tracks_new)
next
  case (call m h c m' r)
  let ?w = "replay_window m" and ?A = "set (in_seqs h)"
  from in_step_call [OF call.hyps(2), unfolded in_step_def] show ?case
  proof (elim disjE exE conjE)
    assume "replay_window m' = ?w" "in_seqs (decisions r) = []"
    then show ?thesis using call.IH by simp
  next
    fix s assume w': "replay_window m' = fst (accept_bit ?w s)"
      and seqs: "in_seqs (decisions r) = (if snd (accept_bit ?w s) then [s] else [])"
    show ?thesis
    proof (cases "snd (accept_bit ?w s)")
      case True
      with call.IH window.decides [of ?w ?A s] window.tracks_accept [of ?w ?A s] w' seqs
      show ?thesis by auto
    next
      case False
      with call.IH window.tracks_reject [of ?w ?A s] w' seqs show ?thesis by simp
    qed
  qed
qed

section \<open>The inner queue over a lifetime\<close>

definition inner_sent :: "EspFrameDecision list \<Rightarrow> nat" where
  "inner_sent h = length (filter (\<lambda>d. fd_accepted d \<and> fd_mtu d \<noteq> None) h)"

lemma inner_sent_append [simp]: "inner_sent (h @ k) = inner_sent h + inner_sent k"
  "inner_sent [] = 0"
  "inner_sent [d] = (if fd_accepted d \<and> fd_mtu d \<noteq> None then 1 else 0)"
  by (simp_all add: inner_sent_def)

definition queue_len :: "ChildSaStateMachine \<Rightarrow> nat" where
  "queue_len m = length (queue (inner_gateway m))"

text \<open>Only an outbound inner packet touches the queue: it is appended, before its sequence number is
  taken, so an accepted packet is always among the queued ones.\<close>

lemma queue_inbound:
  "queue (inner_gateway (fst (record_inbound_esp_frame m s n))) = queue (inner_gateway m)"
  "inner_sent (decisions (rmap Some (snd (record_inbound_esp_frame m s n)))) = 0"
  "queue (inner_gateway (fst (record_inbound_nat_t_packet m b))) = queue (inner_gateway m)"
  "inner_sent (decisions (rmap Some (snd (record_inbound_nat_t_packet m b)))) = 0"
  by (auto simp: record_inbound_esp_frame_def record_inbound_nat_t_packet_def Let_def
      split: sum.splits prod.splits option.splits)

lemma queue_outbound_esp:
  "queue (inner_gateway (fst (record_outbound_esp_frame m n))) = queue (inner_gateway m)"
  "inner_sent (decisions (rmap Some (snd (record_outbound_esp_frame m n)))) = 0"
  by (auto simp: record_outbound_esp_frame_def record_outbound_wire_frame_def Let_def
      split: sum.splits prod.splits option.splits)

lemma enqueue_appends:
  "enqueue_outbound g b = (g', r) \<Longrightarrow>
     g' = g \<and> r = Inl InnerQueueFull \<or> (\<exists>md. queue g' = queue g @ [md])"
  by (auto simp: enqueue_outbound_def Let_def split: if_splits)

lemma queue_outbound_inner:
  "\<exists>xs. queue (inner_gateway (fst (record_outbound_inner_packet m b))) = queue (inner_gateway m) @ xs
     \<and> inner_sent (decisions (rmap Some (snd (record_outbound_inner_packet m b)))) \<le> length xs"
  by (auto simp: record_outbound_inner_packet_def record_outbound_wire_frame_def Let_def
      split: sum.splits prod.splits option.splits dest!: enqueue_appends)

lemma queue_control:
  "inner_gateway (fst (negotiate_child_sa_with_profile_proposal m i j s)) = inner_gateway m"
  "inner_gateway (fst (negotiate_child_sa m i j)) = inner_gateway m"
  "inner_gateway (fst (mark_esp_secrets_ready m)) = inner_gateway m"
  "inner_gateway (fst (mark_inner_stack_ready m)) = inner_gateway m"
  "inner_gateway (fst (begin_rekey m)) = inner_gateway m"
  by (auto simp: negotiate_child_sa_def negotiate_child_sa_with_profile_proposal_def
      mark_esp_secrets_ready_def mark_inner_stack_ready_def begin_rekey_def
      split: list.splits sum.splits)

lemma queue_call:
  assumes "sa_call m c = (m', r)"
  shows "c = CallTeardown \<and> decisions r = []
    \<or> (\<exists>xs. queue (inner_gateway m') = queue (inner_gateway m) @ xs \<and> inner_sent (decisions r) \<le> length xs)"
proof -
  have none: "decisions (rmap (\<lambda>_. None) x) = []" for x :: "DataplaneStateError + unit"
    by (cases x) simp_all
  show ?thesis
  proof (cases c)
    case (CallOutboundInner b)
    then show ?thesis using assms queue_outbound_inner [of m b] by (auto simp: map_prod_def case_prod_beta)
  qed (use assms in \<open>auto simp: none map_prod_def case_prod_beta queue_inbound queue_outbound_esp queue_control\<close>)
qed

lemma teardown_absorbs: "phase m = Teardown \<Longrightarrow> phase (fst (sa_call m c)) = Teardown \<and>
    decisions (snd (sa_call m c)) = []"
  by (cases c) (auto simp: negotiate_child_sa_def negotiate_child_sa_with_profile_proposal_def
    mark_esp_secrets_ready_def mark_inner_stack_ready_def begin_rekey_def teardown_def
    record_inbound_esp_frame_def record_inbound_nat_t_packet_def record_outbound_esp_frame_def
    record_outbound_inner_packet_def require_phase_def require_ready_for_frames_def
    split: list.splits)

lemma trace_queue:
  "sa_trace p m h \<Longrightarrow> inner_sent h \<le> INNER_QUEUE_CAPACITY
     \<and> (phase m \<noteq> Teardown \<longrightarrow> inner_sent h \<le> queue_len m)"
proof (induction rule: sa_trace.induct)
  case start
  then show ?case by simp
next
  case (call m h c m' r)
  have cap: "queue_len m' \<le> INNER_QUEUE_CAPACITY"
    using sa_wf_trace [OF sa_trace.call [OF call.hyps]] by (simp add: sa_wf_def queue_len_def)
  show ?case
  proof (cases "phase m = Teardown")
    case True
    with teardown_absorbs [of m c] call show ?thesis by simp
  next
    case False
    from queue_call [OF call.hyps(2)] show ?thesis
    proof
      assume "c = CallTeardown \<and> decisions r = []"
      with call False show ?thesis by (auto simp: teardown_def)
    next
      assume "\<exists>xs. queue (inner_gateway m') = queue (inner_gateway m) @ xs \<and> inner_sent (decisions r) \<le> length xs"
      then have "queue_len m + inner_sent (decisions r) \<le> queue_len m'" by (auto simp: queue_len_def)
      with call.IH False cap show ?thesis by simp
    qed
  qed
qed

section \<open>Properties\<close>

definition sample_profile :: CarrierProfile where
  "sample_profile = \<lparr>meta = \<lparr>profile_id = ''p'', profile_mcc = ''310'', profile_mnc = ''240'', plmn = ''310240'', country_iso2 = ''US'',
       brand = ''b'', operator_legal_name = ''o'', aliases = []\<rparr>,
     epdg = \<lparr>epdg_host = ''e'', epdg_apn = None, epdg_ip_stack = ''ipv4v6''\<rparr>,
     ikev2 = \<lparr>nat_keepalive_seconds = 20, ike_proposals = [''aes128-sha256-modp2048''],
       esp_proposals = [''aes128-sha256''], include_epdg_idr = False, identity_template = None\<rparr>,
     ims = \<lparr>ims_domain = ''d'', ims_realm = ''d'', transport = ''tcp''\<rparr>, sms = \<lparr>receiver_transport = ''tcp''\<rparr>\<rparr>"

definition ready_machine :: ChildSaStateMachine where
  "ready_machine = fst (mark_inner_stack_ready (fst (mark_esp_secrets_ready
     (fst (negotiate_child_sa (child_sa_new sample_profile) 1 2)))))"

lemma sample_trace: "sa_trace sample_profile ready_machine []"
proof -
  have step: "sa_trace p m [] \<Longrightarrow> decisions (snd (sa_call m c)) = [] \<Longrightarrow>
      sa_trace p (fst (sa_call m c)) []" for p m c
    using sa_trace.call [of p m "[]" c "fst (sa_call m c)" "snd (sa_call m c)"] by simp
  have "decisions (snd (sa_call m CallSecretsReady)) = []"
    "decisions (snd (sa_call m CallInnerReady)) = []"
    "decisions (snd (sa_call m (CallNegotiate i j))) = []" for m i j
    by (auto simp: mark_esp_secrets_ready_def mark_inner_stack_ready_def
        negotiate_child_sa_def negotiate_child_sa_with_profile_proposal_def
        split: sum.splits list.splits)
  from step [OF step [OF step [OF sa_trace.start this(3)] this(1)] this(2), of sample_profile 1 2]
  show ?thesis by (simp add: ready_machine_def)
qed

lemma ready_machine_fields:
  "phase ready_machine = InnerStackReady"
  "replay_window ready_machine = window_new DEFAULT_ANTI_REPLAY_WINDOW"
  "outbound_sa ready_machine = Some \<lparr>sa_identifier = 2, next_sequence = 1, packets = 0, sa_bytes = 0\<rparr>"
  "mtu ready_machine = build_mtu_plan DEFAULT_OUTER_MTU"
  "inner_gateway ready_machine = gateway_new ''ipv4v6''"
  by (simp_all add: ready_machine_def child_sa_new_def negotiate_child_sa_def sample_profile_def
      negotiate_child_sa_with_profile_proposal_def require_phase_def sa_direction_new_def
      mark_esp_secrets_ready_def mark_inner_stack_ready_def)

lemma sample_inbound: "\<exists>m d. sa_trace sample_profile m [d] \<and> in_seqs [d] = [5]"
proof -
  have "\<exists>m d. sa_call ready_machine (CallInboundEsp 5 100) = (m, Inr (Some d)) \<and> in_seqs [d] = [5]"
    by (simp add: record_inbound_esp_frame_def require_ready_for_frames_def ready_machine_fields
        window_accept_def window_new_def Let_def window_decision_def in_seqs_single)
  then show ?thesis using sa_trace.call [OF sample_trace] by fastforce
qed

lemma sample_outbound: "\<exists>m d. sa_trace sample_profile m [d] \<and> out_seqs [d] = [1]"
proof -
  have "\<exists>m d. sa_call ready_machine (CallOutboundEsp 100) = (m, Inr (Some d)) \<and> out_seqs [d] = [1]"
    by (simp add: record_outbound_esp_frame_def require_ready_for_frames_def ready_machine_fields
        allocate_sequence_def record_outbound_wire_frame_def Let_def out_seqs_def
        accepted_seqs_single)
  then show ?thesis using sa_trace.call [OF sample_trace] by fastforce
qed

text \<open>A ready machine with room in its queue and its counter sends the packet.\<close>

lemma inner_send_ok:
  assumes "phase m = InnerStackReady \<or> phase m = Forwarding" and "mtu_accepted (evaluate_mtu m (length b))"
    and "length (queue (inner_gateway m)) < queue_capacity (inner_gateway m)"
    and "outbound_sa m = Some sa" and "sa_identifier sa \<noteq> 0"
    and "next_sequence sa \<noteq> 0" and "unat (next_sequence sa) \<le> u32_max"
  shows "\<exists>m' d. record_outbound_inner_packet m b = (m', Inr d) \<and> fd_accepted d \<and> fd_mtu d \<noteq> None
    \<and> queue_len m' = Suc (queue_len m) \<and> phase m' = Forwarding"
proof -
  have "require_ready_for_frames m = Inr ()" using assms(1) by (auto simp: require_ready_for_frames_def)
  with assms(2-) show ?thesis
    by (simp add: record_outbound_inner_packet_def enqueue_outbound_def allocate_sequence_def
        build_esp_frame_metadata_def record_outbound_wire_frame_def queue_len_def Let_def)
qed

lemma accepted_seqs_length: "length (accepted_seqs dir h) \<le> length h"
  by (simp add: accepted_seqs_def List.map_filter_def)

lemma sample_fill: "k \<le> INNER_QUEUE_CAPACITY \<Longrightarrow>
  \<exists>m h. sa_trace sample_profile m h \<and> queue_len m = k \<and> inner_sent h = k \<and> length h = k
    \<and> (phase m = InnerStackReady \<or> phase m = Forwarding)"
proof (induction k)
  case 0
  then show ?case
    using sample_trace by (intro exI [of _ ready_machine] exI [of _ "[]"])
      (simp add: queue_len_def ready_machine_fields gateway_new_def)
next
  case (Suc k)
  then obtain m h where mh: "sa_trace sample_profile m h" "queue_len m = k" "inner_sent h = k"
    "length h = k" "phase m = InnerStackReady \<or> phase m = Forwarding" by auto
  note wf = sa_wf_trace [OF mh(1)]
  have "live (phase m)" using mh(5) by auto
  then obtain sa where sa: "outbound_sa m = Some sa" using wf by (auto simp: sa_wf_def)
  obtain n where n: "map unat (out_seqs h) = [1..<Suc n]" "unat (next_sequence sa) = Suc n"
    using trace_out_inv [OF mh(1)] sa by (auto simp: out_inv_def)
  have "n \<le> 64"
    using arg_cong [OF n(1), of length] accepted_seqs_length [of "''outbound''" h] mh(4) Suc.prems
    by (simp add: out_seqs_def del: upt_Suc)
  then have "\<exists>m' d. record_outbound_inner_packet m [] = (m', Inr d) \<and> fd_accepted d
      \<and> fd_mtu d \<noteq> None \<and> queue_len m' = Suc (queue_len m) \<and> phase m' = Forwarding"
    using mh wf sa n(2) sa_wf_ids [OF wf sa] Suc.prems
    by (intro inner_send_ok [OF mh(5)])
       (auto simp: sa_wf_def evaluate_mtu_def build_mtu_plan_def Let_def queue_len_def)
  then obtain m' d where s: "record_outbound_inner_packet m [] = (m', Inr d)" "fd_accepted d"
    "fd_mtu d \<noteq> None" "queue_len m' = Suc (queue_len m)" "phase m' = Forwarding" by blast
  then have "sa_trace sample_profile m' (h @ [d])"
    using sa_trace.call [OF mh(1), of "CallOutboundInner []"] by fastforce
  then show ?case using s mh by (intro exI [of _ m'] exI [of _ "h @ [d]"]) auto
qed

text \<open>
  Outbound sequence numbers.  In every run of the state machine, whatever calls are made and
  whether they fail, the ESP sequence numbers of the frames it lets out are 1, 2, 3, \dots with no
  gap and no repetition, and never exceed \<open>u32::MAX\<close>.
\<close>

theorem child_sa_outbound_sequence:
  assumes "sa_trace p m h"
  shows "\<exists>n \<le> u32_max. map unat (out_seqs h) = [1..<Suc n]"
  using trace_out_inv [OF assms] by (auto simp: out_inv_def)

theorem child_sa_outbound_sequence_witness:
  "\<exists>d. out_seqs [d] = [1] \<and> (\<exists>n \<le> u32_max. map unat (out_seqs [d]) = [1..<Suc n])"
  using sample_outbound child_sa_outbound_sequence [of sample_profile] by blast

text \<open>
  Inbound replay protection end to end.  In every run, the sequence numbers of the inbound
  frames the machine accepts, through either entry point, are pairwise distinct and never zero.
\<close>

theorem child_sa_inbound_no_replay:
  assumes "sa_trace p m h"
  shows "distinct (in_seqs h) \<and> 0 \<notin> set (in_seqs h)"
  using trace_in_inv [OF assms] by (auto simp: tracks_window_def)

theorem child_sa_inbound_no_replay_witness:
  "\<exists>d. in_seqs [d] = [5] \<and> distinct (in_seqs [d]) \<and> 0 \<notin> set (in_seqs [d])"
  using sample_inbound child_sa_inbound_no_replay [of sample_profile] by blast

text \<open>
  Phase discipline.  In every run a machine in a phase between negotiation and teardown has
  both security associations, with non-zero identifiers, and a selected proposal; outside those
  phases it has neither; its queue never exceeds its capacity of 64.  Frame operations in any
  phase but \<open>InnerStackReady\<close> and \<open>Forwarding\<close> change nothing and report the phase.
\<close>

theorem child_sa_phase_discipline:
  assumes "sa_trace p m h"
  shows "sa_wf p m \<and> (\<not> (phase m = InnerStackReady \<or> phase m = Forwarding) \<longrightarrow>
    (let e = Inl (InvalidPhase ''inner_stack_ready_or_forwarding'' (phase_as_str (phase m)))
     in record_inbound_esp_frame m s n = (m, e) \<and> record_inbound_nat_t_packet m b = (m, e)
      \<and> record_outbound_esp_frame m n = (m, e) \<and> record_outbound_inner_packet m b = (m, e)
      \<and> begin_rekey m = (m, Inl (InvalidPhase ''inner_stack_ready_or_forwarding''
          (phase_as_str (phase m))))))"
proof -
  have "require_ready_for_frames m =
      Inl (InvalidPhase ''inner_stack_ready_or_forwarding'' (phase_as_str (phase m)))"
    if "\<not> (phase m = InnerStackReady \<or> phase m = Forwarding)"
    using that by (cases "phase m") (simp_all add: require_ready_for_frames_def)
  then show ?thesis
    using sa_wf_trace [OF assms]
    by (simp add: record_inbound_esp_frame_def record_inbound_nat_t_packet_def
        record_outbound_esp_frame_def record_outbound_inner_packet_def begin_rekey_def)
qed

theorem child_sa_phase_discipline_witness:
  "sa_wf sample_profile ready_machine \<and> record_outbound_esp_frame (child_sa_new sample_profile) 9
    = (child_sa_new sample_profile, Inl (InvalidPhase ''inner_stack_ready_or_forwarding'' ''idle''))"
  using child_sa_phase_discipline [OF sample_trace, of 0 0 "[]"]
    child_sa_phase_discipline [OF sa_trace.start [of sample_profile], of 0 9 "[]"]
  by (simp add: child_sa_new_def Let_def)

text \<open>
  The MTU gate.  In every run an inner packet is accepted only when it has at most 1415
  octets, and the UDP payload announced for it then leaves room for the IPv4 and UDP headers in
  the 1500-octet outer MTU; a longer packet is dropped, counted, and uses no sequence number.
\<close>

theorem child_sa_mtu_gate:
  assumes "sa_trace p m h" and "record_outbound_inner_packet m b = (m', Inr d)"
  shows "if length b \<le> 1415
    then fd_accepted d \<and> fd_outer_frame_bytes d = length b + 57
      \<and> fd_outer_frame_bytes d + IPV4_HEADER_BYTES + UDP_HEADER_BYTES \<le> 1500
    else \<not> fd_accepted d \<and> fd_sequence_number d = None \<and> outbound_sa m' = outbound_sa m
      \<and> mtu_drops m' = saturating_add (mtu_drops m) 1"
proof -
  note wf = sa_wf_trace [OF assms(1)]
  have fits: "mtu_accepted (evaluate_mtu m (length b)) \<longleftrightarrow> length b \<le> 1415"
    using wf by (simp add: sa_wf_def evaluate_mtu_def build_mtu_plan_def Let_def)
  have ready: "require_ready_for_frames m = Inr ()"
    using assms(2) by (cases "require_ready_for_frames m")
      (auto simp: record_outbound_inner_packet_def)
  have "sa_identifier sa \<noteq> 0 \<and> next_sequence sa \<noteq> 0" if "outbound_sa m = Some sa" for sa
    using trace_out_inv [OF assms(1)] that sa_wf_ids [OF wf that] by (auto simp: out_inv_def)
  note cases = outbound_inner_cases [OF assms(2)] this
  show ?thesis
  proof (cases "length b \<le> 1415")
    case True
    have "fd_accepted d"
      using assms(2) True fits ready
      by (auto simp: record_outbound_inner_packet_def record_outbound_wire_frame_def Let_def
          split: sum.splits prod.splits option.splits)
    then have "fd_outer_frame_bytes d = ESP_HEADER_BYTES + protected_len_for_inner_packet (length b)"
      using cases by auto
    with True \<open>fd_accepted d\<close> show ?thesis by (simp add: protected_len_for_inner_packet_def)
  next
    case False
    then show ?thesis using assms(2) fits ready
      by (auto simp: record_outbound_inner_packet_def Let_def)
  qed
qed

theorem child_sa_mtu_gate_witness:
  "\<exists>d :: EspFrameDecision. fd_accepted d \<and> fd_outer_frame_bytes d = length [0x45 :: u8] + 57"
proof -
  have "\<exists>m' d. record_outbound_inner_packet ready_machine [0x45] = (m', Inr d)"
    by (simp add: record_outbound_inner_packet_def require_ready_for_frames_def
        ready_machine_fields evaluate_mtu_def build_mtu_plan_def enqueue_outbound_def gateway_new_def
        allocate_sequence_def build_esp_frame_metadata_def record_outbound_wire_frame_def Let_def)
  then show ?thesis using child_sa_mtu_gate [OF sample_trace, of "[0x45]"] by auto
qed

text \<open>
  C31: The queue of the inner gateway is never drained.  Whatever call but \<open>teardown\<close> is made in a
  reachable state, the entries queued before it stay where they are: it can only append, and it
  appends at least the packet it accepts.  The queue holds at most 64 entries, so over a whole lifetime a
  machine carries at most 64 inner packets.  With 64 queued no outbound packet is carried any more,
  and the queue does not change: one within the inner MTU of 1415 octets fails with
  \<open>InnerQueueFull\<close>, a longer one is dropped for its length, and in a phase without frames the call
  fails with that phase.
\<close>

theorem child_sa_inner_queue_never_drains:
  assumes "sa_trace p m h" and "sa_call m c = (m', r)"
  shows "inner_sent h \<le> INNER_QUEUE_CAPACITY \<and> length (queue (inner_gateway m)) \<le> INNER_QUEUE_CAPACITY
    \<and> (c \<noteq> CallTeardown \<longrightarrow>
        (\<exists>xs. queue (inner_gateway m') = queue (inner_gateway m) @ xs \<and> inner_sent (decisions r) \<le> length xs))
    \<and> (c = CallOutboundInner b \<and> length (queue (inner_gateway m)) = INNER_QUEUE_CAPACITY \<longrightarrow>
        (if phase m \<noteq> InnerStackReady \<and> phase m \<noteq> Forwarding
         then m' = m \<and> r = Inl (InvalidPhase ''inner_stack_ready_or_forwarding'' (phase_as_str (phase m)))
         else if length b \<le> 1415 then m' = m \<and> r = Inl InnerQueueFull
         else (\<exists>d. r = Inr (Some d) \<and> \<not> fd_accepted d \<and> fd_decision d = ''mtu_drop'')
            \<and> queue (inner_gateway m') = queue (inner_gateway m)))"
proof -
  note wf = sa_wf_trace [OF assms(1)]
  have full: "if phase m \<noteq> InnerStackReady \<and> phase m \<noteq> Forwarding
      then m' = m \<and> r = Inl (InvalidPhase ''inner_stack_ready_or_forwarding'' (phase_as_str (phase m)))
      else if length b \<le> 1415 then m' = m \<and> r = Inl InnerQueueFull
      else (\<exists>d. r = Inr (Some d) \<and> \<not> fd_accepted d \<and> fd_decision d = ''mtu_drop'')
         \<and> queue (inner_gateway m') = queue (inner_gateway m)"
    if q: "length (queue (inner_gateway m)) = INNER_QUEUE_CAPACITY" and c: "c = CallOutboundInner b"
  proof -
    have "mtu_accepted (evaluate_mtu m (length b)) \<longleftrightarrow> length b \<le> 1415"
      using wf by (simp add: sa_wf_def evaluate_mtu_def build_mtu_plan_def Let_def)
    moreover have "enqueue_outbound (inner_gateway m) b = (inner_gateway m, Inl InnerQueueFull)"
      using wf q by (simp add: sa_wf_def enqueue_outbound_def)
    ultimately show ?thesis
      using assms(2) c
      by (cases "phase m") (auto simp: record_outbound_inner_packet_def require_ready_for_frames_def Let_def
          split: if_splits)
  qed
  from queue_call [OF assms(2)] have "c \<noteq> CallTeardown \<longrightarrow>
      (\<exists>xs. queue (inner_gateway m') = queue (inner_gateway m) @ xs \<and> inner_sent (decisions r) \<le> length xs)"
    by blast
  moreover have "length (queue (inner_gateway m)) \<le> INNER_QUEUE_CAPACITY" using wf by (simp add: sa_wf_def)
  moreover have "inner_sent h \<le> INNER_QUEUE_CAPACITY" using trace_queue [OF assms(1)] by blast
  ultimately show ?thesis using full by blast
qed

theorem child_sa_inner_queue_never_drains_witness:
  "\<exists>m h. sa_trace sample_profile m h \<and> inner_sent h = INNER_QUEUE_CAPACITY
     \<and> sa_call m (CallOutboundInner [0x45]) = (m, Inl InnerQueueFull)"
proof -
  obtain m h where s: "sa_trace sample_profile m h" "inner_sent h = 64" "queue_len m = 64"
    "phase m = InnerStackReady \<or> phase m = Forwarding"
    using sample_fill [of 64] by auto
  obtain m' r where call: "sa_call m (CallOutboundInner [0x45]) = (m', r)"
    by (cases "sa_call m (CallOutboundInner [0x45])")
  have "m' = m \<and> r = Inl InnerQueueFull"
    using child_sa_inner_queue_never_drains [OF s(1) call, of "[0x45]"] s(3,4) by (auto simp: queue_len_def)
  with s call show ?thesis by auto
qed

end
