(* ===== verification/Ike_State_Runs.thy ===== *)
theory Ike_State_Runs
  imports Ike_State_Steps Child_Sa_Runs
begin

text \<open>
  Runs of the exchange state.  A run is any sequence of the operations of \<open>ike_state.rs\<close> with any
  inputs, from a new machine.  Shown of every run: the key material of a phase is there and is the
  derivation from the recorded negotiation, the CHILD_SA material matches a proposal of the profile, the
  message identifiers of the requests increase, no call panics, and nothing an
  unauthenticated message says moves the encrypted exchange.
\<close>

unbundle bit_operations_syntax

section \<open>The material of a phase\<close>

text \<open>What was negotiated in IKE_SA_INIT, and that the session keys are its derivation.\<close>

definition negotiated :: "IkePrivateContext \<Rightarrow> bool" where
  "negotiated x \<longleftrightarrow> (\<exists>s r n. selected_proposal x = Some s \<and> s \<in> set (offered_ike_proposals x)
     \<and> ctx_responder_spi x = Some r \<and> r \<noteq> 0
     \<and> ctx_responder_nonce x = Some n \<and> 16 \<le> length n \<and> length n \<le> 256)"

definition session_keys_of :: "Crypto \<Rightarrow> IkePrivateContext \<Rightarrow> IkeSecretBundle \<Rightarrow> bool" where
  "session_keys_of c x b \<longleftrightarrow> (\<exists>s proposal secret r n. selected_proposal x = Some s
     \<and> ike_proposal_from_profile_string s 1 = Inr proposal
     \<and> ctx_responder_spi x = Some r \<and> ctx_responder_nonce x = Some n
     \<and> derive_ike_secret_bundle c proposal (ctx_initiator_nonce x) n (ctx_initiator_spi x) r secret
         = Some (Inr b))"

text \<open>The material handed to the data plane: SPIs, a proposal of the profile, and the keys of the
  session.\<close>

definition child_sa_of :: "Crypto \<Rightarrow> CarrierProfile \<Rightarrow> IkePrivateContext \<Rightarrow> IkeChildSaMaterial \<Rightarrow> bool" where
  "child_sa_of c p x t \<longleftrightarrow> (\<exists>own_spi b n esp.
     ctx_child_sa_initiator_spi x = Some own_spi \<and> secret_bundle x = Some b \<and> ctx_responder_nonce x = Some n
   \<and> inbound_sa_identifier t = u32_from_be own_spi \<and> inbound_sa_identifier t \<noteq> 0
   \<and> outbound_sa_identifier t = u32_from_be (parsed_spi (child_proposal t)) \<and> outbound_sa_identifier t \<noteq> 0
   \<and> selected_profile_proposal t \<in> set (esp_proposals (ikev2 p))
   \<and> child_proposal_matches (child_proposal t) (selected_profile_proposal t)
   \<and> child_sa_proposal_from_profile_string (selected_profile_proposal t) 1 (parsed_spi (child_proposal t)) = Inr esp
   \<and> derive_child_sa_secret_pair c b esp (ctx_initiator_nonce x) n = Some (Inr (child_secrets t)))"

lemma material_child_sa: "material_of c ps m t \<Longrightarrow> child_sa_of c (ike_profile m) (ctx m) t"
  unfolding material_of_def child_sa_of_def by blast

lemma context_frames [simp]:
  "negotiated (x\<lparr>encrypted_plan := a\<rparr>) = negotiated x"
  "negotiated (x\<lparr>initiator_id_payload_body := e\<rparr>) = negotiated x"
  "negotiated (x\<lparr>ctx_child_sa_initiator_spi := f\<rparr>) = negotiated x"
  "negotiated (x\<lparr>secret_bundle := g\<rparr>) = negotiated x"
  "negotiated (x\<lparr>ctx_child_sa_material := h\<rparr>) = negotiated x"
  "session_keys_of c (x\<lparr>encrypted_plan := a\<rparr>) b = session_keys_of c x b"
  "session_keys_of c (x\<lparr>initiator_id_payload_body := e\<rparr>) b = session_keys_of c x b"
  "session_keys_of c (x\<lparr>ctx_child_sa_initiator_spi := f\<rparr>) b = session_keys_of c x b"
  "session_keys_of c (x\<lparr>secret_bundle := g\<rparr>) b = session_keys_of c x b"
  "session_keys_of c (x\<lparr>ctx_child_sa_material := h\<rparr>) b = session_keys_of c x b"
  "child_sa_of c p (x\<lparr>encrypted_plan := a\<rparr>) t = child_sa_of c p x t"
  "child_sa_of c p (x\<lparr>initiator_id_payload_body := e\<rparr>) t = child_sa_of c p x t"
  "child_sa_of c p (x\<lparr>ctx_child_sa_material := h\<rparr>) t = child_sa_of c p x t"
  by (simp_all add: negotiated_def session_keys_of_def child_sa_of_def)

definition early_phases :: "IkeStatePhase set" where
  "early_phases = {IkeIdle, SaInitRequestBuilt, SaInitResponseAccepted}"

definition ike_wf :: "Crypto \<Rightarrow> CarrierProfile \<Rightarrow> IkeStateMachine \<Rightarrow> bool" where
  "ike_wf c p m \<longleftrightarrow> ike_profile m = p
     \<and> (ike_phase m \<in> early_phases \<longrightarrow> secret_bundle (ctx m) = None)
     \<and> (ike_phase m \<in> insert SessionKeysReady early_phases \<longrightarrow> ctx_child_sa_material (ctx m) = None)
     \<and> (ike_phase m = SaInitResponseAccepted \<longrightarrow> negotiated (ctx m))
     \<and> (ike_phase m \<in> key_phases \<longrightarrow> secret_bundle (ctx m) \<noteq> None)
     \<and> (\<forall>b. secret_bundle (ctx m) = Some b \<longrightarrow> negotiated (ctx m) \<and> session_keys_of c (ctx m) b)
     \<and> (\<forall>t. ctx_child_sa_material (ctx m) = Some t \<longrightarrow> child_sa_of c p (ctx m) t)
     \<and> (ctx_child_sa_material (ctx m) = None \<longrightarrow> ike_child_sa m = None)"

lemma ike_wf_new: "ike_wf c p (new_with_dh_group_and_access p access spi_i ni dh g)"
  by (simp add: ike_wf_def new_with_dh_group_and_access_def early_phases_def key_phases_def)

lemma ike_wf_eap_move:
  assumes wf: "ike_wf c p m" and move: "eap_move m m1"
  shows "ike_wf c p m1"
proof -
  have kept: "ctx m1 = ctx m" "ike_profile m1 = ike_profile m" "ike_child_sa m1 = ike_child_sa m"
    using move by (simp_all add: eap_move_def same_def)
  have closed: "ph \<notin> early_phases \<and> ph \<notin> key_phases \<and> ph \<noteq> SessionKeysReady \<and> ph \<noteq> SaInitResponseAccepted"
    if "ph \<in> closed_phases" for ph
    using that by (cases ph) (simp_all add: closed_phases_def early_phases_def key_phases_def)
  have key: "ph \<notin> early_phases \<and> ph \<noteq> SaInitResponseAccepted" if "ph \<in> key_phases" for ph
    using that by (cases ph) (simp_all add: early_phases_def key_phases_def)
  consider "ike_phase m1 = ike_phase m" | "ike_phase m1 \<in> closed_phases"
    | "ike_phase m \<in> key_phases" "ike_phase m1 \<in> key_phases" "ike_phase m1 \<noteq> SessionKeysReady"
    using move unfolding eap_move_def by blast
  then show ?thesis
  proof cases
    case 1
    with wf kept show ?thesis by (simp only: ike_wf_def simp_thms) blast
  next
    case 2
    with wf kept closed [OF 2] show ?thesis by (simp only: ike_wf_def) simp
  next
    case 3
    with wf kept key [OF 3(2)] 3(3) show ?thesis by (simp only: ike_wf_def) simp
  qed
qed

lemma ike_wf_child_sa_step:
  assumes wf: "ike_wf c p m" and step: "child_sa_step c m m1" and phase: "ike_phase m \<in> key_phases"
  shows "ike_wf c p m1"
proof -
  from step obtain ps t where t: "material_of c ps m t"
    and m1: "ctx m1 = (ctx m)\<lparr>ctx_child_sa_material := Some t\<rparr>" "ike_profile m1 = ike_profile m"
      "ike_phase m1 = ChildSaReady"
    unfolding child_sa_step_def by blast
  from wf phase have "secret_bundle (ctx m) \<noteq> None" by (simp add: ike_wf_def)
  with wf material_child_sa [OF t] m1 show ?thesis
    by (simp add: ike_wf_def early_phases_def)
qed


text \<open>The three operations before the keys and the first request under them.\<close>

lemma ike_wf_sa_init:
  assumes "ike_wf c p m" "build_sa_init_request_for_transport sha1 a texts m = (r, m1)"
  shows "ike_wf c p m1"
  using sa_init_effect [OF assms(2)] assms(1) unfolding Let_def
  by (elim disjE exE conjE) (simp_all add: ike_wf_def early_phases_def key_phases_def)

lemma matching_ike_offered: "matching_ike_profile_proposal ps offered = Some s \<Longrightarrow> s \<in> set offered"
  by (auto simp: matching_ike_profile_proposal_def dest!: find_SomeD simp: in_set_enumerate_eq)

lemma ike_wf_sa_init_response:
  assumes wf: "ike_wf c p m" and acc: "accept_sa_init_response bs m = (r, m1)"
  shows "ike_wf c p m1"
proof -
  consider "m1 = m" | e where "ike_fail m e = (r, m1)"
    | message :: IkeMessage and ke non :: IkePayload and parsed chosen
      where "ike_phase m = SaInitRequestBuilt"
      "sa_init_header_reason m (header message) = None"
      "matching_ike_profile_proposal parsed (offered_ike_proposals (ctx m)) = Some chosen"
      "sa_init_body_reason m (payloads message) (body ke) (body non) = None"
      "m1 = push_event message ''inbound'' ''sa_init_response_accepted''
                 (m\<lparr>ctx := (ctx m)\<lparr>selected_proposal := Some chosen,
                      ctx_responder_spi := Some (responder_spi (header message)),
                      ctx_nat_t_supported := announces_nat_detection (payloads message),
                      responder_public_dh := Some (drop 4 (body ke)),
                      ctx_responder_nonce := Some (body non),
                      sa_init_response_packet := Some bs\<rparr>,
                    ike_phase := SaInitResponseAccepted, next_message_id := 1,
                    retransmit := initial_state (retransmit_policy m) 1\<rparr>)"
    using sa_init_response_effect [OF acc] by blast
  then show ?thesis
  proof cases
    case 1
    with wf show ?thesis by simp
  next
    case (2 e)
    then have "eap_move m m1" "ike_phase m1 = IkeFailed" by (auto simp: eap_move_def same_def closed_phases_def)
    with ike_wf_eap_move [OF wf] show ?thesis by simp
  next
    case (3 message ke non parsed chosen)
    from 3(2) have "responder_spi (header message) \<noteq> 0"
      by (auto simp: sa_init_header_reason_def split: if_split_asm)
    moreover from 3(4) have "16 \<le> length (body non) \<and> length (body non) \<le> 256"
      by (auto simp: sa_init_body_reason_def split: if_split_asm)
    ultimately have "negotiated (ctx m1)"
      using matching_ike_offered [OF 3(3)] by (simp add: negotiated_def 3(5))
    then show ?thesis using wf 3(1)
      by (simp add: ike_wf_def 3(5) early_phases_def key_phases_def)
  qed
qed

lemma ike_wf_derive:
  assumes wf: "ike_wf c p m" and der: "derive_session_keys c secret m = Some (r, m1)"
  shows "ike_wf c p m1"
proof -
  consider "m1 = m" | s spi_r nonce_r proposal bun where "ike_phase m = SaInitResponseAccepted"
      "selected_proposal (ctx m) = Some s" "ctx_responder_spi (ctx m) = Some spi_r"
      "ctx_responder_nonce (ctx m) = Some nonce_r" "ike_proposal_from_profile_string s 1 = Inr proposal"
      "derive_ike_secret_bundle c proposal (ctx_initiator_nonce (ctx m)) nonce_r (ctx_initiator_spi (ctx m))
          spi_r secret = Some (Inr bun)"
      "m1 = push_transcript (next_message_id m) ''ike_sa_init'' ''local''
                     [''key_schedule_summary''] ''session_keys_ready''
                     (m\<lparr>ctx := (ctx m)\<lparr>secret_bundle := Some bun\<rparr>, ike_phase := SessionKeysReady\<rparr>)"
    using derive_effect [OF der] by blast
  then show ?thesis
  proof cases
    case 1
    with wf show ?thesis by simp
  next
    case (2 s spi_r nonce_r proposal bun)
    have "session_keys_of c (ctx m) bun"
      unfolding session_keys_of_def using 2(2-6) by blast
    then show ?thesis using wf 2(1)
      by (simp add: ike_wf_def 2(7) early_phases_def key_phases_def)
  qed
qed

lemma ike_wf_auth_start:
  assumes wf: "ike_wf c p m"
  shows "build_auth_eap_start_request m = (q, m1) \<Longrightarrow> ike_wf c p m1"
    and "build_auth_eap_start_packet_for_identity c' sha256 iv identity m = (r, m1) \<Longrightarrow> ike_wf c p m1"
proof -
  assume "build_auth_eap_start_request m = (q, m1)"
  from auth_start_request_effect [OF this] wf show "ike_wf c p m1"
    by (elim disjE exE conjE) (simp_all add: ike_wf_def early_phases_def key_phases_def)
next
  assume "build_auth_eap_start_packet_for_identity c' sha256 iv identity m = (r, m1)"
  from auth_start_effect [OF this] wf show "ike_wf c p m1"
    by (elim disjE exE conjE) (simp_all add: ike_wf_def early_phases_def key_phases_def)
qed


text \<open>All other operations move within the phases with keys, or end the exchange.\<close>

lemma ike_wf_eap:
  assumes "ike_wf c p m"
  shows "accept_eap_aka_challenge bs m = (r, m1) \<Longrightarrow> ike_wf c p m1"
    and "accept_encrypted_eap_aka_challenge c' bs m = (r, m1) \<Longrightarrow> ike_wf c p m1"
    and "mark_usim_aka_response_ready m = (q, m1) \<Longrightarrow> ike_wf c p m1"
    and "accept_auth_success bs m = (r, m1) \<Longrightarrow> ike_wf c p m1"
    and "mark_child_sa_ready m = (q, m1) \<Longrightarrow> ike_wf c p m1"
    and "handle_control_message bs m = (r, m1) \<Longrightarrow> ike_wf c p m1"
    and "build_encrypted_eap_response_packet c' iv eap m = (b, m1) \<Longrightarrow> ike_wf c p m1"
    and "build_encrypted_final_auth_packet c' iv msk m = (b, m1) \<Longrightarrow> ike_wf c p m1"
  by (auto dest: quiet_effects eap_response_effect(1) final_auth_effect(1) intro: ike_wf_eap_move [OF assms])

lemma ike_wf_final:
  assumes wf: "ike_wf c p m"
  shows "accept_encrypted_auth_progress c bs m = Some (r, m1) \<Longrightarrow> ike_wf c p m1"
    and "accept_encrypted_auth_success c bs m = Some (q, m1) \<Longrightarrow> ike_wf c p m1"
    and "accept_encrypted_child_sa_response c bs m = Some (q, m1) \<Longrightarrow> ike_wf c p m1"
proof -
  have key: "EapAkaResponseReady \<in> key_phases" "AuthSuccessAccepted \<in> key_phases"
    by (simp_all add: key_phases_def)
  note move = ike_wf_eap_move [OF wf] and step = ike_wf_child_sa_step [OF wf]
  show "accept_encrypted_auth_progress c bs m = Some (r, m1) \<Longrightarrow> ike_wf c p m1"
    using auth_progress_effect move step key by metis
  show "accept_encrypted_auth_success c bs m = Some (q, m1) \<Longrightarrow> ike_wf c p m1"
    using encrypted_success_effect move step key by metis
  show "accept_encrypted_child_sa_response c bs m = Some (q, m1) \<Longrightarrow> ike_wf c p m1"
    using child_sa_response_effect wf step key by metis
qed

lemma ike_wf_call:
  assumes wf: "ike_wf (env_crypto v) p m" and call: "ike_call v x m = Some (ids, m1)"
  shows "ike_wf (env_crypto v) p m1"
proof (cases x)
qed (use call wf in \<open>auto simp: message_id_of_def packet_id_of_def nothing_sent_def
    dest: ike_wf_sa_init ike_wf_sa_init_response ike_wf_derive ike_wf_auth_start ike_wf_eap
      ike_wf_final intro: surjective_pairing\<close>)

lemma ike_wf_run:
  "ike_run v xs m = Some (ids, m1) \<Longrightarrow> ike_wf (env_crypto v) p m \<Longrightarrow> ike_wf (env_crypto v) p m1"
  by (induction xs arbitrary: m ids) (auto simp: bind_eq_Some_conv dest: ike_wf_call)


section \<open>Every call returns\<close>

lemma derive_ike_total:
  assumes "crypto_laws c"
  shows "\<exists>r. derive_ike_secret_bundle c proposal ni nr spi_i spi_r secret = Some r"
proof (cases "secret = [] \<or> ni = [] \<or> nr = []")
  case True
  then show ?thesis by (auto simp: derive_ike_secret_bundle_def)
next
  case nonempty: False
  show ?thesis
  proof (cases "build_key_schedule_plan proposal")
    case (Inl e)
    with nonempty show ?thesis by (simp add: derive_ike_secret_bundle_def)
  next
    case (Inr plan)
    obtain t p where t: "find_transform proposal Prf = Some t" "prf_from_transform_id (transform_id t) = Some p"
      and p: "prf_from_plan plan = Inr p"
      and total: "ike_total_secret_bytes plan = prf_output_bytes plan * 3 + ike_integrity_key_bytes plan * 2
         + ike_encryption_key_bytes plan * 2"
      by (rule key_schedule_plan_fields [OF Inr])
    show ?thesis
    proof (cases "ike_total_secret_bytes plan \<le> 255 * prf_output_len p")
      case True
      then obtain b where "derive_ike_secret_bundle c proposal ni nr spi_i spi_r secret = Some (Inr b)"
        using derive_ike_keys [OF assms Inr p] nonempty by metis
      then show ?thesis by blast
    next
      case False
      then show ?thesis using nonempty Inr t
        by (simp add: derive_ike_secret_bundle_def prf_plus_stream [OF assms])
    qed
  qed
qed

lemma derive_child_total:
  assumes "crypto_laws c"
  shows "\<exists>r. derive_child_sa_secret_pair c b proposal ni nr = Some r"
proof (cases "ni = [] \<or> nr = []")
  case True
  then show ?thesis by (auto simp: derive_child_sa_secret_pair_def)
next
  case nonempty: False
  show ?thesis
  proof (cases "build_child_sa_key_schedule_plan proposal")
    case (Inl e)
    with nonempty show ?thesis by (simp add: derive_child_sa_secret_pair_def)
  next
    case plan: (Inr plan)
    show ?thesis
    proof (cases "prf_from_plan (bundle_plan b)")
      case (Inl e)
      with nonempty plan show ?thesis by (simp add: derive_child_sa_secret_pair_def)
    next
      case (Inr p)
      show ?thesis
      proof (cases "total_secret_bytes plan \<le> 255 * prf_output_len p")
        case True
        then obtain k where "derive_child_sa_secret_pair c b proposal ni nr = Some (Inr k)"
          using derive_child_keys [OF assms plan Inr] nonempty by metis
        then show ?thesis by blast
      next
        case False
        then show ?thesis using nonempty plan Inr
          by (simp add: derive_child_sa_secret_pair_def prf_plus_stream [OF assms])
      qed
    qed
  qed
qed

lemma summarize_total:
  assumes "crypto_laws c"
  shows "\<exists>r m1. summarize_child_sa_payloads c ps m = Some (r, m1)"
proof (cases "select_child_sa m ps")
  case (Inr a)
  obtain selected inbound outbound s b n esp where a: "a = (selected, inbound, outbound, s, b, n, esp)"
    by (cases a)
  obtain r where "derive_child_sa_secret_pair c b esp (ctx_initiator_nonce (ctx m)) n = Some r"
    using derive_child_total [OF assms] by blast
  then have "\<exists>y. summarize_child_sa_payloads c ps m = Some y"
    by (simp add: summarize_child_sa_payloads_def Inr a)
  then show ?thesis by (metis surj_pair)
qed (simp add: summarize_child_sa_payloads_def)

lemma progress_total:
  assumes "crypto_laws c"
  shows "\<exists>r m1. accept_encrypted_auth_progress c bs m = Some (r, m1)"
proof -
  have "\<exists>r m1. eap_success_progress c e ps m = Some (r, m1)" for e ps
  proof -
    obtain q m2 where "summarize_child_sa_payloads c ps (m\<lparr>ike_eap := Some e\<rparr>) = Some (q, m2)"
      using summarize_total [OF assms] by blast
    then show ?thesis by (cases q) (simp_all add: eap_success_progress_def Let_def)
  qed
  then show ?thesis
    by (auto simp: accept_encrypted_auth_progress_def eap_round_def split: sum.split)
qed

lemma ike_call_total:
  assumes "crypto_laws (env_crypto v)"
  shows "\<exists>ids m1. ike_call v x m = Some (ids, m1)"
proof (cases x)
  case (CallDeriveKeys secret)
  have "derive_ike_secret_bundle (env_crypto v) pr ni nr si sr s \<noteq> None" for pr ni nr si sr s
    using derive_ike_total [OF assms] by (metis option.distinct(1))
  then have "derive_session_keys (env_crypto v) secret m \<noteq> None"
    by (simp add: derive_session_keys_def del: not_None_eq split: sum.split prod.split)
  then obtain r m1 where "derive_session_keys (env_crypto v) secret m = Some (r, m1)" by auto
  with CallDeriveKeys show ?thesis by (simp add: nothing_sent_def)
next
  case (CallAuthProgress bs)
  with progress_total [OF assms, of bs m] show ?thesis by (auto simp: nothing_sent_def)
next
  case (CallEncryptedSuccess bs)
  obtain q m2 where "accept_encrypted_auth_progress (env_crypto v) bs m = Some (q, m2)"
    using progress_total [OF assms] by blast
  with CallEncryptedSuccess show ?thesis
    by (cases q; cases "projr q") (auto simp: nothing_sent_def accept_encrypted_auth_success_def)
next
  case (CallChildSaResponse bs)
  have "summarize_child_sa_payloads (env_crypto v) ps m \<noteq> None" for ps
    using summarize_total [OF assms, of ps m] by auto
  then have "accept_encrypted_child_sa_response (env_crypto v) bs m \<noteq> None"
    by (simp add: accept_encrypted_child_sa_response_def del: not_None_eq split: sum.split option.split)
  then obtain q m2 where "accept_encrypted_child_sa_response (env_crypto v) bs m = Some (q, m2)" by auto
  with CallChildSaResponse show ?thesis by (simp add: nothing_sent_def)
qed (auto simp: message_id_of_def packet_id_of_def nothing_sent_def)

lemma ike_run_total:
  "crypto_laws (env_crypto v) \<Longrightarrow> \<exists>ids m1. ike_run v xs m = Some (ids, m1)"
proof (induction xs arbitrary: m)
  case (Cons x xs)
  then obtain ids m1 where "ike_call v x m = Some (ids, m1)" using ike_call_total by blast
  moreover obtain rest m2 where "ike_run v xs m1 = Some (rest, m2)" using Cons by blast
  ultimately show ?case by simp
qed simp


section \<open>Message identifiers\<close>

lemma sealed_request_id:
  assumes laws: "crypto_laws c" and sealed: "seal_request c iv m spi_r b inner = Inr (message, packet)"
  shows "u32_from_be (slice_of packet 20 24) = next_message_id m"
proof -
  from sealed obtain first where sent: "encode_encrypted_message c message first b InitiatorToResponder = Inr packet"
    and mid: "IkeHeader.message_id (header message) = next_message_id m"
    by (auto simp: seal_request_def result_simps encrypted_message_from_payload_def Let_def)
  obtain p :: IkePayload and n tag where "packet = sealed (header message) (payload_type_as_u8 first)
      (if critical p then 0x80 else 0) (body p @ tag)"
    by (rule encrypted_message_sealed [OF laws sent]) blast
  then show ?thesis by (simp add: sealed_fields mid)
qed

text \<open>The three ways a call treats the identifiers: it is silent, it takes the answer that a request waits
  for, or it sends a request under the next one.\<close>

definition waiting_phases :: "IkeStatePhase set" where
  "waiting_phases = {SaInitRequestBuilt, AuthRequestBuilt}"

definition silent :: "u32 list \<Rightarrow> IkeStateMachine \<Rightarrow> IkeStateMachine \<Rightarrow> bool" where
  "silent ids m m1 \<longleftrightarrow> ids = [] \<and> next_message_id m1 = next_message_id m
     \<and> (ike_phase m1 = ike_phase m \<or> ike_phase m1 \<in> closed_phases
        \<or> ike_phase m \<notin> insert IkeIdle (waiting_phases \<union> closed_phases)
          \<and> ike_phase m1 \<notin> insert IkeIdle waiting_phases)"

definition answered :: "u32 list \<Rightarrow> IkeStateMachine \<Rightarrow> IkeStateMachine \<Rightarrow> bool" where
  "answered ids m m1 \<longleftrightarrow> ids = [] \<and> ike_phase m1 \<notin> insert IkeIdle waiting_phases
     \<and> (ike_phase m = SaInitRequestBuilt \<and> next_message_id m1 = 1
        \<or> ike_phase m = AuthRequestBuilt \<and> next_message_id m1 = saturating_add (next_message_id m) 1)"

definition sent :: "u32 list \<Rightarrow> IkeStateMachine \<Rightarrow> IkeStateMachine \<Rightarrow> bool" where
  "sent ids m m1 \<longleftrightarrow> ids = [if ike_phase m = IkeIdle then 0 else next_message_id m]
     \<and> ike_phase m1 \<noteq> IkeIdle \<and> ike_phase m \<notin> waiting_phases \<union> closed_phases
     \<and> (next_message_id m1 = next_message_id m \<and> ike_phase m1 = AuthRequestBuilt
        \<or> next_message_id m1 = saturating_add (next_message_id m) 1 \<and> ike_phase m1 \<noteq> SaInitRequestBuilt
        \<or> ike_phase m = IkeIdle)
     \<and> (ike_phase m = IkeIdle \<longrightarrow> ike_phase m1 = SaInitRequestBuilt \<and> next_message_id m1 = next_message_id m)"

definition ids_step :: "u32 list \<Rightarrow> IkeStateMachine \<Rightarrow> IkeStateMachine \<Rightarrow> bool" where
  "ids_step ids m m1 \<longleftrightarrow> silent ids m m1 \<or> answered ids m m1 \<or> sent ids m m1"

definition ids_inv :: "nat \<Rightarrow> u32 list \<Rightarrow> IkeStateMachine \<Rightarrow> bool" where
  "ids_inv n ids m \<longleftrightarrow> sorted_wrt (<) ids \<and> unat (next_message_id m) \<le> n
     \<and> (ike_phase m \<in> {IkeIdle, SaInitRequestBuilt} \<longrightarrow> next_message_id m = 0)
     \<and> (ike_phase m = IkeIdle \<longrightarrow> ids = [])
     \<and> (\<forall>i \<in> set ids. i < next_message_id m
          \<or> i = next_message_id m \<and> ike_phase m \<in> waiting_phases \<union> closed_phases)"

lemma saturating_step: "unat x < u32_max \<Longrightarrow> unat (saturating_add x 1 :: u32) = Suc (unat x)"
  by (simp add: unat_saturating_add)

lemma ids_inv_step:
  assumes inv: "ids_inv n ids m" and step: "ids_step new m m1" and n: "n < u32_max"
  shows "ids_inv (Suc n) (ids @ new) m1"
proof -
  have small: "unat (next_message_id m) < u32_max" using inv n by (simp add: ids_inv_def)
  have up: "i < saturating_add (next_message_id m) 1" if "i \<le> next_message_id m" for i
    using that saturating_step [OF small] by (simp add: word_less_nat_alt word_le_nat_alt)
  from step consider "silent new m m1" | "answered new m m1" | "sent new m m1"
    unfolding ids_step_def by blast
  then show ?thesis
  proof cases
    case 1
    then show ?thesis using inv
      by (auto simp: ids_inv_def silent_def closed_phases_def waiting_phases_def)
  next
    case 2
    then show ?thesis using inv small up
      by (auto simp: ids_inv_def answered_def closed_phases_def waiting_phases_def saturating_step
          word_less_nat_alt)
  next
    case 3
    then show ?thesis using inv small up
      by (auto simp: ids_inv_def sent_def closed_phases_def waiting_phases_def saturating_step sorted_wrt_append)
  qed
qed


lemma silent_same [simp]: "silent [] m m"
  by (simp add: silent_def)

lemma silentI:
  "next_message_id m1 = next_message_id m \<Longrightarrow>
     ike_phase m1 = ike_phase m \<or> ike_phase m1 \<in> closed_phases
     \<or> ike_phase m \<in> {EapAkaResponseReady, AuthSuccessAccepted, UsimAkaResponsePending, SaInitResponseAccepted}
       \<and> ike_phase m1 \<notin> insert IkeIdle waiting_phases \<Longrightarrow>
     ids_step [] m m1"
  by (auto simp: ids_step_def silent_def closed_phases_def waiting_phases_def)

lemma ids_same [simp]: "ids_step [] m m"
  by (simp add: ids_step_def)

lemma ids_sa_init:
  "build_sa_init_request_for_transport sha1 a texts m = (r, m1) \<Longrightarrow>
     ids_step (fst (message_id_of (r, m1))) m m1"
  by (drule sa_init_effect, unfold Let_def, elim disjE exE conjE)
     (simp_all add: message_id_of_def ids_step_def silent_def sent_def closed_phases_def waiting_phases_def)

lemma ids_sa_init_response:
  "accept_sa_init_response bs m = (r, m1) \<Longrightarrow> ids_step [] m m1"
  by (drule sa_init_response_effect, elim disjE exE conjE)
     (auto simp: ids_step_def answered_def silent_def closed_phases_def waiting_phases_def)

lemma ids_derive: "derive_session_keys c secret m = Some (r, m1) \<Longrightarrow> ids_step [] m m1"
  by (drule derive_effect, elim disjE exE conjE) (simp_all add: silentI waiting_phases_def)

lemma ids_auth_start_request:
  "build_auth_eap_start_request m = (r, m1) \<Longrightarrow> ids_step (fst (message_id_of (r, m1))) m m1"
  by (drule auth_start_request_effect, elim disjE exE conjE)
     (simp_all add: message_id_of_def ids_step_def sent_def closed_phases_def waiting_phases_def)

lemma ids_auth_start:
  assumes "crypto_laws c" "build_auth_eap_start_packet_for_identity c sha256 iv identity m = (r, m1)"
  shows "ids_step (fst (packet_id_of (r, m1))) m m1"
  using auth_start_effect [OF assms(2)]
  by (elim disjE exE conjE)
     (simp_all add: packet_id_of_def ids_step_def sent_def closed_phases_def waiting_phases_def
       sealed_request_id [OF assms(1)])

lemma ids_eap_response:
  assumes "crypto_laws c" "build_encrypted_eap_response_packet c iv eap m = (r, m1)"
  shows "ids_step (fst (packet_id_of (r, m1))) m m1"
  using eap_response_effect(2) [OF assms(2)]
  by (elim disjE exE conjE)
     (auto simp: packet_id_of_def ids_step_def sent_def closed_phases_def waiting_phases_def
       sealed_request_id [OF assms(1)])

lemma ids_final_auth:
  assumes "crypto_laws c" "build_encrypted_final_auth_packet c iv msk m = (r, m1)"
  shows "ids_step (fst (packet_id_of (r, m1))) m m1"
  using final_auth_effect(2) [OF assms(2)]
  by (elim disjE exE conjE)
     (auto simp: packet_id_of_def ids_step_def sent_def closed_phases_def waiting_phases_def
       sealed_request_id [OF assms(1)])

lemma ids_challenge_accepted:
  "challenge_accepted nt m s = (r, m1) \<Longrightarrow> ike_phase m = AuthRequestBuilt \<Longrightarrow> ids_step [] m m1"
  by (drule challenge_accepted_effect(2), assumption)
     (auto simp: ids_step_def answered_def silent_def closed_phases_def waiting_phases_def)

lemma ids_challenge:
  "accept_eap_aka_challenge bs m = (r, m1) \<Longrightarrow> ids_step [] m m1"
  "accept_encrypted_eap_aka_challenge c bs m = (r, m1) \<Longrightarrow> ids_step [] m m1"
  by (auto simp: accept_eap_aka_challenge_def accept_encrypted_eap_aka_challenge_def settle_eq result_simps
      dest: ids_challenge_accepted)

lemma ids_quiet:
  "mark_usim_aka_response_ready m = (r, m1) \<Longrightarrow> ids_step [] m m1"
  "accept_auth_success bs m = (r, m1) \<Longrightarrow> ids_step [] m m1"
  "mark_child_sa_ready m = (r, m1) \<Longrightarrow> ids_step [] m m1"
  "handle_control_message bs m = (r, m1) \<Longrightarrow> ids_step [] m m1"
  unfolding mark_usim_aka_response_ready_def accept_auth_success_def mark_child_sa_ready_def
    handle_control_message_def
  by (auto simp: settle_eq result_simps Let_def waiting_phases_def closed_phases_def split: if_split_asm
      intro!: silentI)

lemma ids_final:
  "accept_encrypted_auth_progress c bs m = Some (r, m1) \<Longrightarrow> ids_step [] m m1"
  "accept_encrypted_auth_success c bs m = Some (q, m1) \<Longrightarrow> ids_step [] m m1"
  "accept_encrypted_child_sa_response c bs m = Some (q, m1) \<Longrightarrow> ids_step [] m m1"
proof -
  have step: "ids_step [] m m1" if "child_sa_step c m m1" "ike_phase m = EapAkaResponseReady \<or> ike_phase m = AuthSuccessAccepted"
    for m1 using that by (intro silentI) (auto simp: child_sa_step_def waiting_phases_def)
  have move: "ids_step [] m m1" if "eap_move m m1" "next_message_id m1 = next_message_id m"
    "m1 = m \<or> ike_phase m = EapAkaResponseReady" for m1
    using that by (auto intro!: silentI simp: eap_move_def key_phases_def waiting_phases_def)
  show "accept_encrypted_auth_progress c bs m = Some (r, m1) \<Longrightarrow> ids_step [] m m1"
    using auth_progress_effect step move by metis
  show "accept_encrypted_auth_success c bs m = Some (q, m1) \<Longrightarrow> ids_step [] m m1"
    using encrypted_success_effect step move by metis
  show "accept_encrypted_child_sa_response c bs m = Some (q, m1) \<Longrightarrow> ids_step [] m m1"
    using child_sa_response_effect step ids_same by metis
qed


lemma ids_call:
  assumes laws: "crypto_laws (env_crypto v)" and call: "ike_call v x m = Some (ids, m1)"
  shows "ids_step ids m m1"
proof (cases x)
  case (CallSaInit addrs texts)
  obtain r m2 where "build_sa_init_request_for_transport (env_sha1 v) addrs texts m = (r, m2)" by fastforce
  with ids_sa_init [OF this] call CallSaInit show ?thesis by (simp add: message_id_of_def)
next
  case CallAuthStartRequest
  obtain r m2 where "build_auth_eap_start_request m = (r, m2)" by fastforce
  with ids_auth_start_request [OF this] call CallAuthStartRequest show ?thesis by (simp add: message_id_of_def)
next
  case (CallAuthStart iv identity)
  obtain r m2 where "build_auth_eap_start_packet_for_identity (env_crypto v) (env_sha256 v) iv identity m = (r, m2)"
    by fastforce
  with ids_auth_start [OF laws this] call CallAuthStart show ?thesis by (simp add: packet_id_of_def)
next
  case (CallEapResponse iv eap)
  obtain r m2 where "build_encrypted_eap_response_packet (env_crypto v) iv eap m = (r, m2)" by fastforce
  with ids_eap_response [OF laws this] call CallEapResponse show ?thesis by (simp add: packet_id_of_def)
next
  case (CallFinalAuth iv msk)
  obtain r m2 where "build_encrypted_final_auth_packet (env_crypto v) iv msk m = (r, m2)" by fastforce
  with ids_final_auth [OF laws this] call CallFinalAuth show ?thesis by (simp add: packet_id_of_def)
qed (use call in \<open>auto simp: nothing_sent_def dest: ids_derive ids_final
    intro: surjective_pairing
    [THEN ids_sa_init_response] surjective_pairing [THEN ids_challenge(1)] surjective_pairing [THEN ids_challenge(2)]
    surjective_pairing [THEN ids_quiet(1)] surjective_pairing [THEN ids_quiet(2)]
    surjective_pairing [THEN ids_quiet(3)] surjective_pairing [THEN ids_quiet(4)]\<close>)

lemma ids_run:
  assumes "crypto_laws (env_crypto v)"
  shows "ike_run v xs m = Some (ids, m1) \<Longrightarrow> ids_inv n before m \<Longrightarrow> n + length xs \<le> u32_max \<Longrightarrow>
     ids_inv (n + length xs) (before @ ids) m1"
proof (induction xs arbitrary: n before m ids)
  case (Cons x xs)
  then obtain new m2 rest where call: "ike_call v x m = Some (new, m2)"
    and rest: "ike_run v xs m2 = Some (rest, m1)" "ids = new @ rest"
    by (auto simp: bind_eq_Some_conv)
  have "ids_inv (Suc n) (before @ new) m2"
    using ids_inv_step [OF Cons.prems(2) ids_call [OF assms call]] Cons.prems(3) by simp
  from Cons.IH [OF rest(1) this] Cons.prems(3) rest(2) show ?case by simp
qed simp

lemma ids_inv_new: "ids_inv 0 [] (new_with_dh_group_and_access p access spi_i ni dh g)"
  by (simp add: ids_inv_def new_with_dh_group_and_access_def)


section \<open>Properties\<close>

text \<open>C9: the phase tells the key material.  Whatever operations are called on a new exchange, with
  whatever octets, every call returns, and afterwards: a phase behind the key derivation has session
  keys; session keys are there only after a negotiation in which the responder chose an offered
  proposal, and are the derivation from the proposal, nonces and SPIs recorded; CHILD_SA material has
  non-zero SPIs, a proposal of the profile that the responder's choice matches, and the keys derived for
  it from those session keys; and a reported CHILD_SA has material.\<close>

theorem ike_material_consistent:
  assumes "crypto_laws (env_crypto v)"
  shows "\<exists>ids m. ike_run v calls (new_with_dh_group_and_access p access spi_i ni dh g) = Some (ids, m)
    \<and> (ike_phase m \<in> key_phases \<longrightarrow> secret_bundle (ctx m) \<noteq> None)
    \<and> (\<forall>b. secret_bundle (ctx m) = Some b \<longrightarrow>
         negotiated (ctx m) \<and> session_keys_of (env_crypto v) (ctx m) b)
    \<and> (\<forall>t. ctx_child_sa_material (ctx m) = Some t \<longrightarrow> child_sa_of (env_crypto v) p (ctx m) t)
    \<and> (ike_child_sa m \<noteq> None \<longrightarrow> ctx_child_sa_material (ctx m) \<noteq> None)"
proof -
  obtain ids m where run: "ike_run v calls (new_with_dh_group_and_access p access spi_i ni dh g) = Some (ids, m)"
    using ike_run_total [OF assms] by blast
  have "ike_wf (env_crypto v) p m"
    by (rule ike_wf_run [OF run ike_wf_new])
  with run show ?thesis unfolding ike_wf_def by blast
qed

definition sample_env :: IkeEnv where
  "sample_env = \<lparr>env_crypto = sample_crypto, env_sha1 = (\<lambda>_. replicate 20 1), env_sha256 = (\<lambda>_. replicate 32 2)\<rparr>"

theorem ike_material_consistent_witness:
  "\<exists>ids m. ike_run sample_env [CallSaInit None None, CallSaInitResponse [1, 2, 3], CallControl []]
        (new_with_dh_group_and_access sample_profile (access_from_profile sample_profile) 7 [1] [2] 14)
      = Some (ids, m)
    \<and> (ike_phase m \<in> key_phases \<longrightarrow> secret_bundle (ctx m) \<noteq> None)"
proof -
  have "crypto_laws (env_crypto sample_env)" by (simp add: sample_env_def sample_crypto_laws)
  from ike_material_consistent [OF this, of "[CallSaInit None None, CallSaInitResponse [1, 2, 3], CallControl []]"
      sample_profile "access_from_profile sample_profile" 7 "[1]" "[2]" 14] show ?thesis by blast
qed

text \<open>C10: no message identifier is used for two requests.  In every run of at most \<open>2 ^ 32 - 1\<close> calls
  the identifiers in the headers of the requests built are strictly increasing.\<close>

theorem ike_request_ids_increase:
  assumes "crypto_laws (env_crypto v)" and "length calls \<le> u32_max"
    and "ike_run v calls (new_with_dh_group_and_access p access spi_i ni dh g) = Some (ids, m)"
  shows "sorted_wrt (<) ids"
  using ids_run [OF assms(1,3) ids_inv_new] assms(2) by (simp add: ids_inv_def)


theorem ike_request_ids_increase_witness:
  "\<exists>ids m. ike_run sample_env [CallSaInit None None, CallSaInitResponse [1, 2, 3], CallSaInit None None]
        (new_with_dh_group_and_access sample_profile (access_from_profile sample_profile) 7 [1] [2] 14)
      = Some (ids, m)
    \<and> sorted_wrt (<) ids"
proof -
  have laws: "crypto_laws (env_crypto sample_env)" by (simp add: sample_env_def sample_crypto_laws)
  obtain ids m where run: "ike_run sample_env
        [CallSaInit None None, CallSaInitResponse [1, 2, 3], CallSaInit None None]
        (new_with_dh_group_and_access sample_profile (access_from_profile sample_profile) 7 [1] [2] 14)
      = Some (ids, m)" using ike_run_total [OF laws] by blast
  from ike_request_ids_increase [OF laws _ run] run show ?thesis by simp
qed

end
