(* ===== verification/Ike_State_Session.thy ===== *)
theory Ike_State_Session
  imports Ike_State_Runs
begin

text \<open>
  The exchange with a responder.  A message that does not verify under the responder's key changes
  nothing.  A responder that answers the IKE_SA_INIT request with one of the offered proposals, and the
  final request with one of the profile's ESP proposals, is accepted, and both ends hold the same session
  keys and the same CHILD_SA keys.  The responder's answers are written with the code's own builders and
  encoders, run with the responder's values.
\<close>

unbundle bit_operations_syntax

section \<open>Messages that do not verify\<close>

definition from_responder :: "Crypto \<Rightarrow> IkeStateMachine \<Rightarrow> bytes \<Rightarrow> bool" where
  "from_responder c m bs \<longleftrightarrow> (case secret_bundle (ctx m) of
       None \<Rightarrow> False
     | Some b \<Rightarrow>
         (case integrity_len (bundle_plan b) of
            Inl _ \<Rightarrow> False
          | Inr n \<Rightarrow> n + 32 \<le> length bs
              \<and> integrity_tag c (bundle_plan b) (sk_ar b) (take (length bs - n) bs) n
                  = Inr (drop (length bs - n) bs)))"

lemma open_response_verified:
  assumes "\<not> from_responder c m bs"
  shows "\<exists>e. open_response c m bs = Inl e"
proof (cases "open_response c m bs")
  case (Inr ps)
  then obtain b where b: "secret_bundle (ctx m) = Some b"
    and opened: "decrypt_encrypted_payload_from_message c bs b ResponderToInitiator = Inr ps"
    by (auto simp: open_response_def result_simps)
  from encrypted_message_authentic [OF opened] b assms show ?thesis
    by (auto simp: from_responder_def)
qed simp

section \<open>Proposals of the profile\<close>

text \<open>What the strings of a profile parse to.\<close>

lemma child_transforms:
  assumes "child_sa_proposal_from_profile_string s n i = Inr p"
  obtains k j where "p = \<lparr>number = n, protocol_id = ProtoEsp, spi = i,
     transforms = [mk_transform Encryption ENCR_AES_CBC [KeyLength k], mk_transform Integrity j [],
       mk_transform ExtendedSequenceNumbers 0 []]\<rparr>"
proof -
  from assms obtain l e g where loop: "token_loop child_sa_token no_locals (proposal_tokens s) = Inr l"
    and l: "encryption l = Some e" "integrity l = Some g"
    and p: "p = \<lparr>number = n, protocol_id = ProtoEsp, spi = i,
      transforms = [e, g, mk_transform ExtendedSequenceNumbers 0 []]\<rparr>"
    by (auto simp: child_sa_proposal_from_profile_string_def Let_def result_simps split: if_splits)
  have "keyed_locals l"
    using loop keyed_no_locals child_sa_token_keyed by (rule token_loop_invariant [where P = keyed_locals])
  with l p that show thesis by (auto simp: keyed_locals_def)
qed

lemma ike_transforms:
  assumes "ike_proposal_from_profile_string s n = Inr p"
  obtains k q j d where "p = \<lparr>number = n, protocol_id = ProtoIke, spi = [],
     transforms = [mk_transform Encryption ENCR_AES_CBC [KeyLength k], mk_transform Prf q [],
       mk_transform Integrity j [], mk_transform DiffieHellmanGroup d []]\<rparr>"
proof -
  obtain l e q i d where shape: "token_loop ike_token no_locals (proposal_tokens s) = Inr l"
    "typed_locals l" "encryption l = Some e" "integrity l = Some i" "dh_group l = Some d"
    "p = \<lparr>number = n, protocol_id = ProtoIke, spi = [], transforms = [e, q, i, d]\<rparr>"
    "transform_type q = Prf" "attributes q = []"
    by (rule ike_proposal_shape [OF assms])
  have "keyed_locals l"
    using shape(1) keyed_no_locals ike_token_keyed by (rule token_loop_invariant [where P = keyed_locals])
  then obtain k j where "e = mk_transform Encryption ENCR_AES_CBC [KeyLength k]" "i = mk_transform Integrity j []"
    using shape by (auto simp: keyed_locals_def)
  moreover have "d = mk_transform DiffieHellmanGroup (transform_id d) []"
    using shape(2,5) by (auto simp: typed_locals_def mk_transform_def)
  moreover have "q = mk_transform Prf (transform_id q) []"
    using shape(7,8) by (simp add: mk_transform_def)
  ultimately show thesis using that shape(6) by metis
qed

text \<open>A chosen proposal that matches a string of the profile has exactly the transforms of that string,
  so it does not matter which of the matching strings the initiator settles on.\<close>

lemmas match_defs = offers_transforms_def transform_attributes_match_def parsed_proposal_def
  parsed_transform_def parsed_attribute_def mk_transform_def

lemma child_match_same:
  assumes "child_sa_proposal_from_profile_string s n i = Inr p"
    and "child_sa_proposal_from_profile_string s' n' i' = Inr p'"
  shows "offers_transforms (parsed_proposal p) p' \<longleftrightarrow> transforms p = transforms p'"
proof -
  obtain k j where p: "p = \<lparr>number = n, protocol_id = ProtoEsp, spi = i,
     transforms = [mk_transform Encryption ENCR_AES_CBC [KeyLength k], mk_transform Integrity j [],
       mk_transform ExtendedSequenceNumbers 0 []]\<rparr>" by (rule child_transforms [OF assms(1)])
  obtain k' j' where p': "p' = \<lparr>number = n', protocol_id = ProtoEsp, spi = i',
     transforms = [mk_transform Encryption ENCR_AES_CBC [KeyLength k'], mk_transform Integrity j' [],
       mk_transform ExtendedSequenceNumbers 0 []]\<rparr>" by (rule child_transforms [OF assms(2)])
  show ?thesis by (auto simp: match_defs p p')
qed

lemma ike_match_same:
  assumes "ike_proposal_from_profile_string s n = Inr p"
    and "ike_proposal_from_profile_string s' n' = Inr p'"
  shows "offers_transforms (parsed_proposal p) p' \<longleftrightarrow> transforms p = transforms p'"
proof -
  obtain k q j d where p: "p = \<lparr>number = n, protocol_id = ProtoIke, spi = [],
     transforms = [mk_transform Encryption ENCR_AES_CBC [KeyLength k], mk_transform Prf q [],
       mk_transform Integrity j [], mk_transform DiffieHellmanGroup d []]\<rparr>" by (rule ike_transforms [OF assms(1)])
  obtain k' q' j' d' where p': "p' = \<lparr>number = n', protocol_id = ProtoIke, spi = [],
     transforms = [mk_transform Encryption ENCR_AES_CBC [KeyLength k'], mk_transform Prf q' [],
       mk_transform Integrity j' [], mk_transform DiffieHellmanGroup d' []]\<rparr>" by (rule ike_transforms [OF assms(2)])
  show ?thesis by (auto simp: match_defs p p')
qed

lemma same_transforms_same_keys:
  assumes "transforms p = transforms p'"
  shows "derive_child_sa_secret_pair c b p ni nr = derive_child_sa_secret_pair c b p' ni nr"
    and "derive_ike_secret_bundle c p ni nr spi_i spi_r secret = derive_ike_secret_bundle c p' ni nr spi_i spi_r secret"
  by (simp_all add: derive_child_sa_secret_pair_def build_child_sa_key_schedule_plan_def
      derive_ike_secret_bundle_def build_key_schedule_plan_def find_transform_def assms)

text \<open>Only the number and the SPI of a parsed proposal depend on what the parser is told.\<close>

lemma child_renumber:
  assumes "child_sa_proposal_from_profile_string s n i = Inr p"
  shows "child_sa_proposal_from_profile_string s n' i' = Inr (p\<lparr>number := n', spi := i'\<rparr>)"
  using assms by (auto simp: child_sa_proposal_from_profile_string_def Let_def result_simps split: if_splits)

lemma ike_renumber:
  assumes "ike_proposal_from_profile_string s n = Inr p"
  shows "ike_proposal_from_profile_string s n' = Inr (p\<lparr>number := n'\<rparr>)"
proof -
  from assms obtain l where loop: "token_loop ike_token no_locals (proposal_tokens s) = Inr l"
    by (auto simp: ike_proposal_from_profile_string_def Let_def result_simps split: if_splits)
  show ?thesis using assms
    by (cases "prf_local l") (auto simp: ike_proposal_from_profile_string_def Let_def result_simps loop
        split: if_splits)
qed

section \<open>The responder's answer to IKE_SA_INIT\<close>

text \<open>A response a responder builds: one of the offered proposals, a public value of the group, a nonce.\<close>

definition sa_init_answer ::
    "u64 \<Rightarrow> u64 \<Rightarrow> u16 \<Rightarrow> ProposalSpec \<Rightarrow> bytes \<Rightarrow> bytes \<Rightarrow> IkePayload \<Rightarrow> IkeMessage" where
  "sa_init_answer spi_i spi_r group_id chosen public_r nonce_r sa =
     \<lparr>header = \<lparr>initiator_spi = spi_i, responder_spi = spi_r, next_payload = NoNext,
        major_version = IKEV2_MAJOR_VERSION, minor_version = 0, exchange_type = IkeSaInit,
        header_flags = \<lparr>initiator = False, response = True, version = False\<rparr>,
        message_id = 0, header_length = 0\<rparr>,
      payloads = [sa, build_ke_payload group_id public_r, build_nonce_payload nonce_r]\<rparr>"

lemma sa_init_answer_decoded:
  assumes "build_sa_payload [chosen] = Inr sa"
    and "encode (sa_init_answer spi_i spi_r group_id chosen public_r nonce_r sa) = Inr bs"
  obtains message where "decode bs = Inr message"
    "payloads message = [sa, build_ke_payload group_id public_r, build_nonce_payload nonce_r]"
    "payload_type sa = SecurityAssociation" "parse_sa_payload (body sa) = Inr [parsed_proposal chosen]"
    "exchange_type (header message) = IkeSaInit" "response (header_flags (header message))"
    "\<not> initiator (header_flags (header message))" "initiator_spi (header message) = spi_i"
    "responder_spi (header message) = spi_r" "IkeHeader.message_id (header message) = 0"
proof -
  have sa: "payload_type sa = SecurityAssociation" "parse_sa_payload (body sa) = Inr (map parsed_proposal [chosen])"
    using assms(1) parse_encode_proposals [of "[chosen]"] by (auto simp: build_sa_payload_def result_simps)
  have "wire_message (sa_init_answer spi_i spi_r group_id chosen public_r nonce_r sa)"
    by (simp add: wire_message_def wire_payload_def sa_init_answer_def sa(1) build_ke_payload_def
        build_nonce_payload_def canonical_payload_type_def payload_type_from_u8_def
        canonical_exchange_type_def exchange_type_from_u8_def)
  from decode_encode_message [OF assms(2) this] sa that show thesis
    by (simp add: sa_init_answer_def)
qed

lemma chosen_found:
  assumes "s \<in> set offered" "ike_proposal_from_profile_string s n = Inr chosen"
  obtains s' p where "matching_ike_profile_proposal [parsed_proposal chosen] offered = Some s'"
    "ike_proposal_from_profile_string s' 1 = Inr p" "transforms p = transforms chosen"
proof -
  let ?P = "ike_proposal_chosen [parsed_proposal chosen]"
  obtain j where j: "j < length offered" "offered ! j = s" using assms(1) by (meson in_set_conv_nth)
  obtain k q i d where chosen: "chosen = \<lparr>number = n, protocol_id = ProtoIke, spi = [],
     transforms = [mk_transform Encryption ENCR_AES_CBC [KeyLength k], mk_transform Prf q [],
       mk_transform Integrity i [], mk_transform DiffieHellmanGroup d []]\<rparr>" by (rule ike_transforms [OF assms(2)])
  have "?P (j, s)"
    using ike_renumber [OF assms(2), of "word_of_nat (j + 1)"]
    by (simp add: ike_proposal_chosen_def chosen match_defs)
  moreover have "(j, s) \<in> set (enumerate 0 offered)" using j by (simp add: in_set_enumerate_eq)
  ultimately obtain x where x: "find ?P (enumerate 0 offered) = Some x"
    by (cases "find ?P (enumerate 0 offered)") (auto simp: find_None_iff)
  obtain j' s' where x': "x = (j', s')" by (cases x)
  with find_SomeD [OF x] obtain p' where p': "ike_proposal_from_profile_string s' (word_of_nat (j' + 1)) = Inr p'"
    "offers_transforms (parsed_proposal chosen) p'"
    by (auto simp: ike_proposal_chosen_def split: sum.split_asm)
  have "matching_ike_profile_proposal [parsed_proposal chosen] offered = Some s'"
    by (simp add: matching_ike_profile_proposal_def x x')
  moreover have "transforms p' = transforms chosen"
    using ike_match_same [OF assms(2) p'(1)] p'(2) by simp
  ultimately show thesis using that ike_renumber [OF p'(1), of 1] by simp
qed

lemma sa_init_answer_accepted:
  assumes phase: "ike_phase m = SaInitRequestBuilt"
    and choice: "s \<in> set (offered_ike_proposals (ctx m))" "ike_proposal_from_profile_string s n = Inr chosen"
      "build_sa_payload [chosen] = Inr sa"
    and answer: "spi_r \<noteq> 0" "length public_r = length (initiator_public_dh (ctx m))"
      "16 \<le> length nonce_r" "length nonce_r \<le> 256"
      "encode (sa_init_answer (ctx_initiator_spi (ctx m)) spi_r (initiator_dh_group (ctx m)) chosen
         public_r nonce_r sa) = Inr bs"
  obtains m2 s' p where "accept_sa_init_response bs m = (Inr (), m2)" "ike_phase m2 = SaInitResponseAccepted"
    "responder_public_dh (ctx m2) = Some public_r" "ctx_responder_nonce (ctx m2) = Some nonce_r"
    "ctx_responder_spi (ctx m2) = Some spi_r" "selected_proposal (ctx m2) = Some s'"
    "ctx_initiator_nonce (ctx m2) = ctx_initiator_nonce (ctx m)"
    "ctx_initiator_spi (ctx m2) = ctx_initiator_spi (ctx m)"
    "ike_proposal_from_profile_string s' 1 = Inr p" "transforms p = transforms chosen"
proof -
  obtain message where dec: "decode bs = Inr message"
    and ps: "payloads message = [sa, build_ke_payload (initiator_dh_group (ctx m)) public_r,
      build_nonce_payload nonce_r]"
    and sa: "payload_type sa = SecurityAssociation" "parse_sa_payload (body sa) = Inr [parsed_proposal chosen]"
    and h: "exchange_type (header message) = IkeSaInit" "response (header_flags (header message))"
      "\<not> initiator (header_flags (header message))" "initiator_spi (header message) = ctx_initiator_spi (ctx m)"
      "responder_spi (header message) = spi_r" "IkeHeader.message_id (header message) = 0"
    by (rule sa_init_answer_decoded [OF choice(3) answer(5)])
  obtain s' p where found: "matching_ike_profile_proposal [parsed_proposal chosen]
      (offered_ike_proposals (ctx m)) = Some s'"
    and p: "ike_proposal_from_profile_string s' 1 = Inr p" "transforms p = transforms chosen"
    by (rule chosen_found [OF choice(1,2)])
  have header: "sa_init_header_reason m (header message) = None"
    using h answer(1) by (simp add: sa_init_header_reason_def)
  have pls: "find_payload (payloads message) SecurityAssociation = Some sa"
    "find_payload (payloads message) KeyExchange = Some (build_ke_payload (initiator_dh_group (ctx m)) public_r)"
    "find_payload (payloads message) Nonce = Some (build_nonce_payload nonce_r)"
    by (simp_all add: find_payload_def ps sa build_ke_payload_def build_nonce_payload_def)
  define ke where "ke = build_ke_payload (initiator_dh_group (ctx m)) public_r"
  define non where "non = build_nonce_payload nonce_r"
  have content: "sa_init_body_reason m (payloads message) (body ke) (body non) = None"
  proof -
    obtain a1 a2 where g: "u16_be (initiator_dh_group (ctx m)) = [a1, a2]" using u16_be_Cons by blast
    then have "u16_from_be [a1, a2] = initiator_dh_group (ctx m)" by (metis be16.from_to_be)
    moreover have "u16_be 0 = [0, 0]" by (simp add: u16_be_def nat_to_be_numeral)
    ultimately show ?thesis using answer(2-4) sa(1) g
      by (simp add: sa_init_body_reason_def ps ke_def non_def build_ke_payload_def build_nonce_payload_def
          slice_of_def)
  qed
  have bodies: "drop 4 (body ke) = public_r" "body non = nonce_r"
    by (simp_all add: ke_def non_def build_ke_payload_def build_nonce_payload_def)
  have phase': "Ike_State.require_phase m SaInitRequestBuilt = Inr ()" by (simp add: phase)
  let ?m2 = "push_event message ''inbound'' ''sa_init_response_accepted''
      (m\<lparr>ctx := (ctx m)\<lparr>selected_proposal := Some s', ctx_responder_spi := Some (responder_spi (header message)),
           ctx_nat_t_supported := announces_nat_detection (payloads message),
           responder_public_dh := Some (drop 4 (body ke)), ctx_responder_nonce := Some (body non),
           sa_init_response_packet := Some bs\<rparr>,
         ike_phase := SaInitResponseAccepted, next_message_id := 1,
         retransmit := initial_state (retransmit_policy m) 1\<rparr>)"
  have "accept_sa_init_response bs m = (Inr (), ?m2)"
    using content
    by (simp add: accept_sa_init_response_def phase' dec header pls [folded ke_def non_def] sa(2) found Let_def)
  then show thesis
    by (rule that [OF _ _ _ _ _ _ _ _ p]) (simp_all add: bodies h(5))
qed

section \<open>The responder's final answer\<close>

lemma session_prf:
  assumes laws: "crypto_laws c" and keys: "session_keys_of c x b" and n: "ctx_responder_nonce x = Some nr"
  obtains p where "prf_from_plan (bundle_plan b) = Inr p" "ctx_initiator_nonce x \<noteq> []" "nr \<noteq> []"
proof -
  from keys n obtain s proposal secret r where ike: "ike_proposal_from_profile_string s 1 = Inr proposal"
    and der: "derive_ike_secret_bundle c proposal (ctx_initiator_nonce x) nr (ctx_initiator_spi x) r secret
        = Some (Inr b)"
    by (auto simp: session_keys_of_def)
  from der have inputs: "secret \<noteq> []" "ctx_initiator_nonce x \<noteq> []" "nr \<noteq> []"
    by (auto simp: derive_ike_secret_bundle_def split: if_splits)
  obtain plan p where plan: "build_key_schedule_plan proposal = Inr plan" "prf_from_plan plan = Inr p"
    and fits: "ike_total_secret_bytes plan \<le> 255 * prf_output_len p"
    by (rule ike_profile_plan [OF ike])
  obtain b' where "derive_ike_secret_bundle c proposal (ctx_initiator_nonce x) nr (ctx_initiator_spi x) r secret
      = Some (Inr b')" "bundle_plan b' = plan"
    by (rule derive_ike_keys [OF laws plan inputs fits])
  with der plan(2) inputs that show thesis by simp
qed

lemma child_choice_selected:
  assumes keys: "secret_bundle (ctx m) = Some b" "ctx_responder_nonce (ctx m) = Some nr"
    and own: "ctx_child_sa_initiator_spi (ctx m) = Some own" "u32_from_be own \<noteq> 0"
    and choice: "s \<in> set (esp_proposals (ikev2 (ike_profile m)))"
      "child_sa_proposal_from_profile_string s n spi_r = Inr esp" "length spi_r = 4" "u32_from_be spi_r \<noteq> 0"
      "build_sa_payload [esp] = Inr sa"
    and inner: "find_payload inner SecurityAssociation = Some sa"
  obtains s' esp' where "select_child_sa m inner =
      Inr (parsed_proposal esp, u32_from_be own, u32_from_be spi_r, s', b, nr, esp')"
    "transforms esp' = transforms esp"
proof -
  obtain k j where esp: "esp = \<lparr>number = n, protocol_id = ProtoEsp, spi = spi_r,
     transforms = [mk_transform Encryption ENCR_AES_CBC [KeyLength k], mk_transform Integrity j [],
       mk_transform ExtendedSequenceNumbers 0 []]\<rparr>" by (rule child_transforms [OF choice(2)])
  have fields: "parsed_number (parsed_proposal esp) = n" "parsed_spi (parsed_proposal esp) = spi_r"
    "parsed_protocol_id (parsed_proposal esp) = protocol_id_as_u8 ProtoEsp"
    by (simp_all add: parsed_proposal_def esp)
  let ?P = "child_proposal_matches (parsed_proposal esp)"
  have "?P s" using child_match_same [OF choice(2) choice(2)]
    by (simp add: child_proposal_matches_def fields choice(2))
  then obtain s' where s': "find ?P (esp_proposals (ikev2 (ike_profile m))) = Some s'"
    using choice(1) by (cases "find ?P (esp_proposals (ikev2 (ike_profile m)))") (auto simp: find_None_iff)
  from find_SomeD [OF this] obtain p' where p': "child_sa_proposal_from_profile_string s' n spi_r = Inr p'"
    "offers_transforms (parsed_proposal esp) p'"
    by (auto simp: child_proposal_matches_def fields split: sum.split_asm)
  have same: "transforms p' = transforms esp" using child_match_same [OF choice(2) p'(1)] p'(2) by simp
  have parsed: "parse_sa_payload (body sa) = Inr [parsed_proposal esp]"
    using choice(5) parse_encode_proposals [of "[esp]"] by (auto simp: build_sa_payload_def result_simps)
  have "select_child_sa m inner = Inr (parsed_proposal esp, u32_from_be own, u32_from_be spi_r, s', b, nr,
      p'\<lparr>number := 1, spi := spi_r\<rparr>)"
    by (simp add: select_child_sa_def inner parsed own keys choice(3,4) fields s' Let_def
        child_sa_selection_matches_profile_def matching_child_sa_profile_proposal_def
        child_renumber [OF p'(1)])
  then show thesis using that same by simp
qed

lemma child_answer_summarized:
  assumes laws: "crypto_laws c" and keys: "secret_bundle (ctx m) = Some b" "session_keys_of c (ctx m) b"
      "ctx_responder_nonce (ctx m) = Some nr"
    and own: "ctx_child_sa_initiator_spi (ctx m) = Some own" "u32_from_be own \<noteq> 0"
    and choice: "s \<in> set (esp_proposals (ikev2 (ike_profile m)))"
      "child_sa_proposal_from_profile_string s n spi_r = Inr esp" "length spi_r = 4" "u32_from_be spi_r \<noteq> 0"
      "build_sa_payload [esp] = Inr sa"
    and inner: "find_payload inner SecurityAssociation = Some sa" "configuration_reply_of inner = Inr config"
  obtains t where
    "summarize_child_sa_payloads c inner m = Some (Inr (child_sa_summary inner config),
       m\<lparr>ctx := (ctx m)\<lparr>ctx_child_sa_material := Some t\<rparr>\<rparr>)"
    "inbound_sa_identifier t = u32_from_be own" "outbound_sa_identifier t = u32_from_be spi_r"
    "child_configuration t = map_option configuration_material config"
    "derive_child_sa_secret_pair c b esp (ctx_initiator_nonce (ctx m)) nr = Some (Inr (child_secrets t))"
proof -
  obtain s' esp' where sel: "select_child_sa m inner =
      Inr (parsed_proposal esp, u32_from_be own, u32_from_be spi_r, s', b, nr, esp')"
    and same: "transforms esp' = transforms esp"
    by (rule child_choice_selected [OF keys(1,3) own choice inner(1)])
  obtain p where p: "prf_from_plan (bundle_plan b) = Inr p" "ctx_initiator_nonce (ctx m) \<noteq> []" "nr \<noteq> []"
    by (rule session_prf [OF laws keys(2,3)])
  obtain plan i where plan: "build_child_sa_key_schedule_plan esp = Inr plan" "total_secret_bytes plan \<le> 4080"
    by (rule child_profile_plan [OF choice(2)])
  have "total_secret_bytes plan \<le> 255 * prf_output_len p"
    using plan(2) key_lengths(2) [of p] by linarith
  then obtain k where k: "derive_child_sa_secret_pair c b esp (ctx_initiator_nonce (ctx m)) nr = Some (Inr k)"
    by (rule derive_child_keys [OF laws plan(1) p])
  then have k': "derive_child_sa_secret_pair c b esp' (ctx_initiator_nonce (ctx m)) nr = Some (Inr k)"
    using same_transforms_same_keys(1) [OF same] by metis
  define t where "t = \<lparr>inbound_sa_identifier = u32_from_be own, outbound_sa_identifier = u32_from_be spi_r,
      selected_profile_proposal = s', child_proposal = parsed_proposal esp,
      child_configuration = map_option configuration_material config, child_secrets = k\<rparr>"
  show thesis
    by (rule that [of t]) (simp_all add: summarize_child_sa_payloads_def sel k' inner(2) k t_def)
qed

section \<open>Properties\<close>

text \<open>C11: forged answers change nothing.  While the machine waits for an encrypted answer, octets whose
  last part is not the integrity tag of the octets before it under the responder's key are refused by
  all four acceptors, which leave the machine exactly as it was, so that the true answer is still
  accepted.\<close>

theorem ike_forged_answers_ignored:
  assumes "\<not> from_responder c m bs"
  shows "(\<exists>e. accept_encrypted_eap_aka_challenge c bs m = (Inl e, m))
    \<and> (\<exists>e. accept_encrypted_auth_progress c bs m = Some (Inl e, m))
    \<and> (\<exists>e. accept_encrypted_auth_success c bs m = Some (Inl e, m))
    \<and> (\<exists>e. accept_encrypted_child_sa_response c bs m = Some (Inl e, m))"
proof -
  obtain e where e: "open_response c m bs = Inl e" using open_response_verified [OF assms] by blast
  have progress: "\<exists>e'. accept_encrypted_auth_progress c bs m = Some (Inl e', m)"
    by (cases "ike_phase m = EapAkaResponseReady")
       (simp_all add: accept_encrypted_auth_progress_def Ike_State.require_phase_def e)
  moreover have "\<exists>e'. accept_encrypted_eap_aka_challenge c bs m = (Inl e', m)"
    by (cases "ike_phase m = AuthRequestBuilt")
       (simp_all add: accept_encrypted_eap_aka_challenge_def Ike_State.require_phase_def e)
  moreover have "\<exists>e'. accept_encrypted_child_sa_response c bs m = Some (Inl e', m)"
    by (cases "ike_phase m = AuthSuccessAccepted")
       (simp_all add: accept_encrypted_child_sa_response_def Ike_State.require_phase_def e)
  moreover from progress have "\<exists>e'. accept_encrypted_auth_success c bs m = Some (Inl e', m)"
    by (auto simp: accept_encrypted_auth_success_def)
  ultimately show ?thesis by blast
qed

definition sample_machine :: IkeStateMachine where
  "sample_machine = new_with_dh_group sample_profile 7 (replicate 16 1) [2] 14"

theorem ike_forged_answers_ignored_witness:
  "\<exists>e. accept_encrypted_child_sa_response sample_crypto [1, 2, 3]
      (sample_machine\<lparr>ike_phase := AuthSuccessAccepted,
         ctx := (ctx sample_machine)\<lparr>secret_bundle := Some sample_bundle\<rparr>\<rparr>) =
    Some (Inl e, sample_machine\<lparr>ike_phase := AuthSuccessAccepted,
         ctx := (ctx sample_machine)\<lparr>secret_bundle := Some sample_bundle\<rparr>\<rparr>)"
proof -
  have "\<not> from_responder sample_crypto (sample_machine\<lparr>ike_phase := AuthSuccessAccepted,
         ctx := (ctx sample_machine)\<lparr>secret_bundle := Some sample_bundle\<rparr>\<rparr>) [1, 2, 3]"
    by (simp add: from_responder_def sample_bundle_def integrity_len_def)
  from ike_forged_answers_ignored [OF this] show ?thesis by blast
qed

text \<open>C7: both ends derive the same session keys.  A responder that answers a built IKE_SA_INIT request
  with any of the offered proposals, a public value of the group's size and a nonce of 16 to 256 octets is
  accepted, and from the shared secret the machine derives exactly the keys the responder derives for the
  proposal it chose, whichever of the offered strings the machine recognises it as.\<close>

theorem ike_session_keys_agree:
  assumes laws: "crypto_laws c"
    and sent: "build_sa_init_request_for_transport sha1 addrs texts m = (Inr request, m1)"
    and choice: "s \<in> set (offered_ike_proposals (ctx m1))" "ike_proposal_from_profile_string s n = Inr chosen"
      "build_sa_payload [chosen] = Inr sa"
    and answer: "spi_r \<noteq> 0" "length public_r = length (initiator_public_dh (ctx m))"
      "16 \<le> length nonce_r" "length nonce_r \<le> 256"
      "encode (sa_init_answer (ctx_initiator_spi (ctx m)) spi_r (initiator_dh_group (ctx m)) chosen
         public_r nonce_r sa) = Inr bs"
    and secret: "secret \<noteq> []" "ctx_initiator_nonce (ctx m) \<noteq> []"
  shows "\<exists>m2 m3 b. accept_sa_init_response bs m1 = (Inr (), m2)
    \<and> responder_public_dh (ctx m2) = Some public_r
    \<and> derive_session_keys c secret m2 = Some (Inr (), m3) \<and> ike_phase m3 = SessionKeysReady
    \<and> secret_bundle (ctx m3) = Some b
    \<and> derive_ike_secret_bundle c chosen (ctx_initiator_nonce (ctx m)) nonce_r (ctx_initiator_spi (ctx m))
        spi_r secret = Some (Inr b)"
proof -
  have m1: "ike_phase m1 = SaInitRequestBuilt" "ctx_initiator_spi (ctx m1) = ctx_initiator_spi (ctx m)"
    "initiator_dh_group (ctx m1) = initiator_dh_group (ctx m)"
    "initiator_public_dh (ctx m1) = initiator_public_dh (ctx m)"
    "ctx_initiator_nonce (ctx m1) = ctx_initiator_nonce (ctx m)"
    using sa_init_effect [OF sent] by (auto simp: Let_def)
  obtain m2 s' p where acc: "accept_sa_init_response bs m1 = (Inr (), m2)" "ike_phase m2 = SaInitResponseAccepted"
    and m2: "responder_public_dh (ctx m2) = Some public_r" "ctx_responder_nonce (ctx m2) = Some nonce_r"
      "ctx_responder_spi (ctx m2) = Some spi_r" "selected_proposal (ctx m2) = Some s'"
      "ctx_initiator_nonce (ctx m2) = ctx_initiator_nonce (ctx m1)"
      "ctx_initiator_spi (ctx m2) = ctx_initiator_spi (ctx m1)"
    and p: "ike_proposal_from_profile_string s' 1 = Inr p" "transforms p = transforms chosen"
    by (rule sa_init_answer_accepted [OF m1(1) choice answer(1) _ answer(3,4)])
       (use answer(2,5) m1 in simp_all)
  obtain plan q where plan: "build_key_schedule_plan chosen = Inr plan" "prf_from_plan plan = Inr q"
    and fits: "ike_total_secret_bytes plan \<le> 255 * prf_output_len q"
    by (rule ike_profile_plan [OF choice(2)])
  have "nonce_r \<noteq> []" using answer(3) by auto
  then obtain b where b: "derive_ike_secret_bundle c chosen (ctx_initiator_nonce (ctx m)) nonce_r
      (ctx_initiator_spi (ctx m)) spi_r secret = Some (Inr b)"
    by (rule derive_ike_keys [OF laws plan secret _ fits])
  have "derive_ike_secret_bundle c p (ctx_initiator_nonce (ctx m)) nonce_r (ctx_initiator_spi (ctx m)) spi_r
      secret = Some (Inr b)"
    using b same_transforms_same_keys(2) [OF p(2)] by metis
  then have "\<exists>m3. derive_session_keys c secret m2 = Some (Inr (), m3) \<and> ike_phase m3 = SessionKeysReady
      \<and> secret_bundle (ctx m3) = Some b"
    by (simp add: derive_session_keys_def m2 m1 p acc(2) Ike_State.require_phase_def)
  with acc(1) m2(1) b show ?thesis by blast
qed

definition sample_chosen :: ProposalSpec where
  "sample_chosen = \<lparr>number = 1, protocol_id = ProtoIke, spi = [],
     transforms = [mk_transform Encryption 12 [KeyLength 128], mk_transform Prf 5 [],
       mk_transform Integrity 12 [], mk_transform DiffieHellmanGroup 14 []]\<rparr>"

lemma sample_ike_proposal:
  "ike_proposal_from_profile_string ''aes128-sha256-modp2048'' 1 = Inr sample_chosen"
  "ike_proposal_dh_group_from_profile_string ''aes128-sha256-modp2048'' = Inr 14"
proof -
  have "proposal_tokens ''aes128-sha256-modp2048'' = [''aes128'', ''sha256'', ''modp2048'']"
    by (simp add: proposal_tokens_def)
  then show p: "ike_proposal_from_profile_string ''aes128-sha256-modp2048'' 1 = Inr sample_chosen"
    by (simp add: ike_proposal_from_profile_string_def ike_token_def no_locals_def
        default_prf_for_integrity_def mk_transform_def sample_chosen_def)
  show "ike_proposal_dh_group_from_profile_string ''aes128-sha256-modp2048'' = Inr 14"
    by (simp add: ike_proposal_dh_group_from_profile_string_def p) (simp add: sample_chosen_def mk_transform_def)
qed

lemma sample_sa: "\<exists>sa. build_sa_payload [sample_chosen] = Inr sa \<and> length (body sa) \<le> 60"
  by (simp add: build_sa_payload_def encode_proposal_def encode_transform_def mk_transform_def
      encode_attribute_def Let_def sample_chosen_def)

lemma sample_sa_init:
  "\<exists>request m1. build_sa_init_request_for_transport sha1 None None sample_machine = (Inr request, m1)
     \<and> offered_ike_proposals (ctx m1) = [''aes128-sha256-modp2048'']"
proof -
  obtain sa where sa: "build_sa_payload [sample_chosen] = Inr sa" "length (body sa) \<le> 60"
    using sample_sa by blast
  have start: "ike_phase sample_machine = IkeIdle" "initiator_dh_group (ctx sample_machine) = 14"
    "ike_proposals (ikev2 (ike_profile sample_machine)) = [''aes128-sha256-modp2048'']"
    "length (initiator_public_dh (ctx sample_machine)) = 1" "length (ctx_initiator_nonce (ctx sample_machine)) = 16"
    by (simp_all add: sample_machine_def new_with_dh_group_def new_with_dh_group_and_access_def sample_profile_def)
  let ?message = "new_request (ctx_initiator_spi (ctx sample_machine)) IkeSaInit 0
     ([sa, build_ke_payload 14 (initiator_public_dh (ctx sample_machine)),
       build_nonce_payload (ctx_initiator_nonce (ctx sample_machine))] @ [])"
  have "is_ok (encode ?message)"
    using sa(2) start by (simp add: encode_ok_iff payloads_len_def new_request_def build_ke_payload_def build_nonce_payload_def)
  then obtain packet where "encode ?message = Inr packet" by (cases "encode ?message") auto
  then show ?thesis
    by (simp add: build_sa_init_request_for_transport_def start Ike_State.require_phase_def sample_ike_proposal
        numbered_proposals_def sa(1) nat_detection_notifies_def Let_def)
qed

theorem ike_session_keys_agree_witness:
  "\<exists>request m1 sa bs m2 m3 b.
      build_sa_init_request_for_transport (\<lambda>_. []) None None sample_machine = (Inr request, m1)
    \<and> build_sa_payload [sample_chosen] = Inr sa
    \<and> encode (sa_init_answer 7 9 14 sample_chosen [3] (replicate 16 4) sa) = Inr bs
    \<and> accept_sa_init_response bs m1 = (Inr (), m2)
    \<and> derive_session_keys sample_crypto [5] m2 = Some (Inr (), m3) \<and> secret_bundle (ctx m3) = Some b
    \<and> derive_ike_secret_bundle sample_crypto sample_chosen (replicate 16 1) (replicate 16 4) 7 9 [5]
        = Some (Inr b)"
proof -
  obtain request m1 where sent: "build_sa_init_request_for_transport (\<lambda>_. []) None None sample_machine
      = (Inr request, m1)" and offered: "offered_ike_proposals (ctx m1) = [''aes128-sha256-modp2048'']"
    using sample_sa_init by blast
  obtain sa where sa: "build_sa_payload [sample_chosen] = Inr sa" "length (body sa) \<le> 60"
    using sample_sa by blast
  have start: "ctx_initiator_spi (ctx sample_machine) = 7" "initiator_dh_group (ctx sample_machine) = 14"
    "length (initiator_public_dh (ctx sample_machine)) = 1"
    "ctx_initiator_nonce (ctx sample_machine) = replicate 16 1"
    by (simp_all add: sample_machine_def new_with_dh_group_def new_with_dh_group_and_access_def)
  let ?answer = "sa_init_answer 7 9 14 sample_chosen [3] (replicate 16 4) sa"
  have "is_ok (encode ?answer)"
    using sa(2) by (simp add: encode_ok_iff payloads_len_def sa_init_answer_def build_ke_payload_def build_nonce_payload_def)
  then obtain bs where bs: "encode ?answer = Inr bs" by (cases "encode ?answer") auto
  have "''aes128-sha256-modp2048'' \<in> set (offered_ike_proposals (ctx m1))" by (simp add: offered)
  from ike_session_keys_agree [OF sample_crypto_laws sent this sample_ike_proposal(1) sa(1), of 9 "[3]" "replicate 16 4"]
  show ?thesis using sent sa(1) bs by (simp add: start) blast
qed

text \<open>C8: the exchange completes.  From the state after EAP success, with session keys of the negotiation and
  an own SPI, a response of the responder that carries one of the profile's ESP proposals under a non-zero
  SPI, with any other payloads (an Authentication payload is not needed), encrypted and encoded with the
  session keys, is accepted: the CHILD_SA is ready, its SPIs are the two ends' own, its configuration is the
  one sent, and its secrets are those the responder derives for the proposal it chose.\<close>

theorem ike_child_sa_completes:
  assumes laws: "crypto_laws c" and phase: "ike_phase m = AuthSuccessAccepted"
    and keys: "secret_bundle (ctx m) = Some b" "session_keys_of c (ctx m) b"
      "ctx_responder_nonce (ctx m) = Some nr"
    and own: "ctx_child_sa_initiator_spi (ctx m) = Some own" "u32_from_be own \<noteq> 0"
    and choice: "s \<in> set (esp_proposals (ikev2 (ike_profile m)))"
      "child_sa_proposal_from_profile_string s n spi_r = Inr esp" "length spi_r = 4" "u32_from_be spi_r \<noteq> 0"
      "build_sa_payload [esp] = Inr sa"
    and inner: "find_payload inner SecurityAssociation = Some sa" "configuration_reply_of inner = Inr config"
      "list_all (\<lambda>p. canonical_payload_type (payload_type p)) inner"
    and sealed: "length iv = 16" "build_encrypted_payload c (Some iv) b ResponderToInitiator inner = Inr payload"
      "encode_encrypted_message c \<lparr>header = h, payloads = [payload]\<rparr> (first_type inner) b ResponderToInitiator
        = Inr bs"
  shows "\<exists>m1 t. accept_encrypted_child_sa_response c bs m = Some (Inr (), m1)
    \<and> ike_phase m1 = ChildSaReady \<and> ctx_child_sa_material (ctx m1) = Some t
    \<and> inbound_sa_identifier t = u32_from_be own \<and> outbound_sa_identifier t = u32_from_be spi_r
    \<and> child_configuration t = map_option configuration_material config
    \<and> derive_child_sa_secret_pair c b esp (ctx_initiator_nonce (ctx m)) nr = Some (Inr (child_secrets t))"
proof -
  have "decrypt_encrypted_payload_from_message c bs b ResponderToInitiator = Inr inner"
    by (rule encrypted_message_opens [OF laws _ sealed(2) inner(3) sealed(3)]) (simp add: sealed(1))
  then have opened: "open_response c m bs = Inr inner" by (simp add: open_response_def keys(1))
  obtain t where t: "summarize_child_sa_payloads c inner m = Some (Inr (child_sa_summary inner config),
       m\<lparr>ctx := (ctx m)\<lparr>ctx_child_sa_material := Some t\<rparr>\<rparr>)"
    "inbound_sa_identifier t = u32_from_be own" "outbound_sa_identifier t = u32_from_be spi_r"
    "child_configuration t = map_option configuration_material config"
    "derive_child_sa_secret_pair c b esp (ctx_initiator_nonce (ctx m)) nr = Some (Inr (child_secrets t))"
    by (rule child_answer_summarized [OF laws keys own choice inner(1,2)])
  then show ?thesis
    by (simp add: accept_encrypted_child_sa_response_def phase opened Ike_State.require_phase_def)
qed

definition sample_esp :: ProposalSpec where
  "sample_esp = \<lparr>number = 1, protocol_id = ProtoEsp, spi = [0, 0, 0, 9],
     transforms = [mk_transform Encryption 12 [KeyLength 128], mk_transform Integrity 12 [],
       mk_transform ExtendedSequenceNumbers 0 []]\<rparr>"

lemma sealed_total:
  assumes laws: "crypto_laws c" and ike: "ike_proposal_from_profile_string s n = Inr proposal"
    and der: "derive_ike_secret_bundle c proposal ni nr spi_i spi_r secret = Some (Inr b)"
    and iv: "length iv = 16" and inner: "inner \<noteq> []" "(\<Sum>p \<leftarrow> inner. 4 + length (body p)) \<le> 65000"
      "list_all (\<lambda>p. canonical_payload_type (payload_type p)) inner"
  obtains payload bs where "build_encrypted_payload c (Some iv) b dir inner = Inr payload"
    "encode_encrypted_message c \<lparr>header = h, payloads = [payload]\<rparr> (first_type inner) b dir = Inr bs"
proof -
  from der have inputs: "secret \<noteq> []" "ni \<noteq> []" "nr \<noteq> []"
    by (auto simp: derive_ike_secret_bundle_def split: if_splits)
  obtain plan p where plan: "build_key_schedule_plan proposal = Inr plan" "prf_from_plan plan = Inr p"
    and fits: "ike_total_secret_bytes plan \<le> 255 * prf_output_len p"
    and size: "ike_encryption_key_bytes plan = 16 \<or> ike_encryption_key_bytes plan = 32"
    by (rule ike_profile_plan [OF ike])
  obtain b' where b': "derive_ike_secret_bundle c proposal ni nr spi_i spi_r secret = Some (Inr b')"
      "bundle_plan b' = plan" "map length [sk_ei b', sk_er b'] = replicate 2 (ike_encryption_key_bytes plan)"
    by (rule derive_ike_keys [OF laws plan inputs fits])
  then have b: "bundle_plan b = plan" "map length [sk_ei b, sk_er b] = replicate 2 (ike_encryption_key_bytes plan)"
    using der by simp_all
  have shape: "cipher_shape (bundle_plan b) = Inr (16, 16)" and "\<exists>n. integrity_len (bundle_plan b) = Inr n"
    using plan(1) b(1) by (auto simp: planned_algorithms)
  then obtain n where n: "integrity_len (bundle_plan b) = Inr n" by blast
  have key: "length (encryption_key b dir) = 16 \<or> length (encryption_key b dir) = 32"
    using b(2) size by (cases dir) (auto simp: numeral_eq_Suc)
  obtain payload where built: "build_encrypted_payload c (Some iv) b dir inner = Inr payload"
    and len: "length (body payload) \<le> 65032"
    by (rule build_total [OF laws shape n iv key inner(1,2)])
  have "payload_type payload = Encrypted"
    by (rule decrypt_built_body(2) [OF laws _ built inner(3)]) (simp add: iv)
  from encode_total [OF laws n this len] that built show thesis by blast
qed

lemma sample_esp_ok:
  "child_sa_proposal_from_profile_string ''aes128-sha256'' 1 [0, 0, 0, 9] = Inr sample_esp"
  "\<exists>sa. build_sa_payload [sample_esp] = Inr sa \<and> payload_type sa = SecurityAssociation \<and> length (body sa) \<le> 60"
proof -
  have "proposal_tokens ''aes128-sha256'' = [''aes128'', ''sha256'']"
    by (simp add: proposal_tokens_def)
  then show "child_sa_proposal_from_profile_string ''aes128-sha256'' 1 [0, 0, 0, 9] = Inr sample_esp"
    by (simp add: child_sa_proposal_from_profile_string_def child_sa_token_def no_locals_def
        mk_transform_def sample_esp_def)
  show "\<exists>sa. build_sa_payload [sample_esp] = Inr sa \<and> payload_type sa = SecurityAssociation
      \<and> length (body sa) \<le> 60"
    by (simp add: build_sa_payload_def encode_proposal_def encode_transform_def mk_transform_def
        encode_attribute_def Let_def sample_esp_def)
qed

theorem ike_child_sa_completes_witness:
  "\<exists>m b sa payload bs m1 t.
      secret_bundle (ctx m) = Some b \<and> build_sa_payload [sample_esp] = Inr sa
    \<and> build_encrypted_payload sample_crypto (Some (replicate 16 7)) b ResponderToInitiator [sa] = Inr payload
    \<and> accept_encrypted_child_sa_response sample_crypto bs m = Some (Inr (), m1)
    \<and> ike_phase m1 = ChildSaReady \<and> ctx_child_sa_material (ctx m1) = Some t
    \<and> outbound_sa_identifier t = 9"
proof -
  obtain plan p where plan: "build_key_schedule_plan sample_chosen = Inr plan" "prf_from_plan plan = Inr p"
    and fits: "ike_total_secret_bytes plan \<le> 255 * prf_output_len p"
    by (rule ike_profile_plan [OF sample_ike_proposal(1)])
  obtain b where b: "derive_ike_secret_bundle sample_crypto sample_chosen (replicate 16 1) (replicate 16 4) 7 9 [5]
      = Some (Inr b)"
    by (rule derive_ike_keys [OF sample_crypto_laws plan _ _ _ fits, of "[5]" "replicate 16 1" "replicate 16 4"]) simp_all
  define m where "m = sample_machine\<lparr>ike_phase := AuthSuccessAccepted,
    ctx := (ctx sample_machine)\<lparr>selected_proposal := Some ''aes128-sha256-modp2048'', ctx_responder_spi := Some 9,
      ctx_responder_nonce := Some (replicate 16 4), secret_bundle := Some b,
      ctx_child_sa_initiator_spi := Some [0, 0, 0, 5]\<rparr>\<rparr>"
  have m: "ike_phase m = AuthSuccessAccepted" "secret_bundle (ctx m) = Some b"
    "ctx_responder_nonce (ctx m) = Some (replicate 16 4)" "ctx_child_sa_initiator_spi (ctx m) = Some [0, 0, 0, 5]"
    "esp_proposals (ikev2 (ike_profile m)) = [''aes128-sha256'']"
    by (simp_all add: m_def sample_machine_def new_with_dh_group_def new_with_dh_group_and_access_def sample_profile_def)
  have keys: "session_keys_of sample_crypto (ctx m) b"
    using b by (auto simp: session_keys_of_def m_def sample_machine_def new_with_dh_group_def
        new_with_dh_group_and_access_def sample_ike_proposal(1))
  obtain sa where sa: "build_sa_payload [sample_esp] = Inr sa" "payload_type sa = SecurityAssociation"
    "length (body sa) \<le> 60" using sample_esp_ok(2) by blast
  have inner: "[sa] \<noteq> []" "(\<Sum>q \<leftarrow> [sa]. 4 + length (body q)) \<le> 65000"
    "list_all (\<lambda>q. canonical_payload_type (payload_type q)) [sa]"
    using sa by (simp_all add: canonical_payload_type_def payload_type_from_u8_def)
  obtain payload bs where sealed: "build_encrypted_payload sample_crypto (Some (replicate 16 7)) b
      ResponderToInitiator [sa] = Inr payload"
    "encode_encrypted_message sample_crypto \<lparr>header = header (new_request 7 IkeAuth 3 []), payloads = [payload]\<rparr>
      (first_type [sa]) b ResponderToInitiator = Inr bs"
    by (rule sealed_total [OF sample_crypto_laws sample_ike_proposal(1) b _ inner, of "replicate 16 7"
        ResponderToInitiator "header (new_request 7 IkeAuth 3 [])"]) simp_all
  have spis: "u32_from_be [0, 0, 0, 5] = 5" "u32_from_be [0, 0, 0, 9] = 9"
    by (simp_all add: u32_from_be_def be_to_nat_def)
  from ike_child_sa_completes [OF sample_crypto_laws m(1,2) keys m(3,4) _ _ sample_esp_ok(1) _ _ sa(1) _ _ inner(3)
      _ sealed] m(2,5) sa sealed(1) spis show ?thesis
    by (simp add: find_payload_def configuration_reply_of_def) blast
qed

end
