(* ===== verification/Ike_Dh.thy ===== *)
theory Ike_Dh
  imports Ike_Payloads
begin

text \<open>
  The Diffie-Hellman exchange of \<open>connectivity/modems/ims/vowifi/ike_dh.rs\<close>: the MODP groups with
  their primes, the ephemeral key pair and the shared secret.  Big integers come from the crate
  \<open>num-bigint\<close>: its values are natural numbers, and its byte conversions and \<open>modpow\<close> are the fields
  of a \<open>BigUintOps\<close> record whose documented behaviour \<open>bigint_laws\<close> states.
\<close>

section \<open>The big-integer crate\<close>

record BigUintOps =
  from_bytes_be :: "bytes \<Rightarrow> nat"
  to_bytes_be :: "nat \<Rightarrow> bytes"
  modpow :: "nat \<Rightarrow> nat \<Rightarrow> nat \<Rightarrow> nat"

definition bigint_laws :: "BigUintOps \<Rightarrow> bool" where
  "bigint_laws big \<longleftrightarrow>
     (\<forall>bs. from_bytes_be big bs = be_to_nat bs)
   \<and> (\<forall>n. be_to_nat (to_bytes_be big n) = n)
   \<and> (\<forall>n k. 0 < k \<longrightarrow> n < 256 ^ k \<longrightarrow> length (to_bytes_be big n) \<le> k)
   \<and> (\<forall>b e m. 0 < m \<longrightarrow> modpow big b e m = b ^ e mod m)"

section \<open>Groups\<close>

datatype DhGroup = Modp768 | Modp1024 | Modp1536 | Modp2048 | Modp3072 | Modp4096 | Modp8192

definition dh_group_from_transform_id :: "u16 \<Rightarrow> DhGroup option" where
  "dh_group_from_transform_id i =
     (if i = DH_MODP_768 then Some Modp768
      else if i = DH_MODP_1024 then Some Modp1024
      else if i = DH_MODP_1536 then Some Modp1536
      else if i = DH_MODP_2048 then Some Modp2048
      else if i = DH_MODP_3072 then Some Modp3072
      else if i = DH_MODP_4096 then Some Modp4096
      else if i = DH_MODP_8192 then Some Modp8192
      else None)"

fun dh_transform_id :: "DhGroup \<Rightarrow> u16" where
  "dh_transform_id Modp768 = DH_MODP_768"
| "dh_transform_id Modp1024 = DH_MODP_1024"
| "dh_transform_id Modp1536 = DH_MODP_1536"
| "dh_transform_id Modp2048 = DH_MODP_2048"
| "dh_transform_id Modp3072 = DH_MODP_3072"
| "dh_transform_id Modp4096 = DH_MODP_4096"
| "dh_transform_id Modp8192 = DH_MODP_8192"

fun dh_as_str :: "DhGroup \<Rightarrow> string" where
  "dh_as_str Modp768 = ''modp768''"
| "dh_as_str Modp1024 = ''modp1024''"
| "dh_as_str Modp1536 = ''modp1536''"
| "dh_as_str Modp2048 = ''modp2048''"
| "dh_as_str Modp3072 = ''modp3072''"
| "dh_as_str Modp4096 = ''modp4096''"
| "dh_as_str Modp8192 = ''modp8192''"

fun public_value_bytes :: "DhGroup \<Rightarrow> nat" where
  "public_value_bytes Modp768 = 96"
| "public_value_bytes Modp1024 = 128"
| "public_value_bytes Modp1536 = 192"
| "public_value_bytes Modp2048 = 256"
| "public_value_bytes Modp3072 = 384"
| "public_value_bytes Modp4096 = 512"
| "public_value_bytes Modp8192 = 1024"

fun private_bytes :: "DhGroup \<Rightarrow> nat" where
  "private_bytes Modp768 = 96"
| "private_bytes Modp1024 = 128"
| "private_bytes Modp1536 = 192"
| "private_bytes Modp2048 = 256"
| "private_bytes Modp3072 = 384"
| "private_bytes Modp4096 = 512"
| "private_bytes Modp8192 = 1024"

text \<open>The primes, as the hexadecimal constants of the source.\<close>

definition modp_768_prime :: nat where
  "modp_768_prime = 0xFFFFFFFFFFFFFFFFC90FDAA22168C234C4C6628B80DC1CD129024E088A67CC74020BBEA63B139B22514A08798E3404DDEF9519B3CD3A431B302B0A6DF25F14374FE1356D6D51C245E485B576625E7EC6F44C42E9A63A3620FFFFFFFFFFFFFFFF"

definition modp_1024_prime :: nat where
  "modp_1024_prime = 0xFFFFFFFFFFFFFFFFC90FDAA22168C234C4C6628B80DC1CD129024E088A67CC74020BBEA63B139B22514A08798E3404DDEF9519B3CD3A431B302B0A6DF25F14374FE1356D6D51C245E485B576625E7EC6F44C42E9A637ED6B0BFF5CB6F406B7EDEE386BFB5A899FA5AE9F24117C4B1FE649286651ECE65381FFFFFFFFFFFFFFFF"

definition modp_1536_prime :: nat where
  "modp_1536_prime = 0xFFFFFFFFFFFFFFFFC90FDAA22168C234C4C6628B80DC1CD129024E088A67CC74020BBEA63B139B22514A08798E3404DDEF9519B3CD3A431B302B0A6DF25F14374FE1356D6D51C245E485B576625E7EC6F44C42E9A637ED6B0BFF5CB6F406B7EDEE386BFB5A899FA5AE9F24117C4B1FE649286651ECE45B3DC2007CB8A163BF0598DA48361C55D39A69163FA8FD24CF5F83655D23DCA3AD961C62F356208552BB9ED529077096966D670C354E4ABC9804F1746C08CA237327FFFFFFFFFFFFFFFF"

definition modp_2048_prime :: nat where
  "modp_2048_prime = 0xFFFFFFFFFFFFFFFFC90FDAA22168C234C4C6628B80DC1CD129024E088A67CC74020BBEA63B139B22514A08798E3404DDEF9519B3CD3A431B302B0A6DF25F14374FE1356D6D51C245E485B576625E7EC6F44C42E9A637ED6B0BFF5CB6F406B7EDEE386BFB5A899FA5AE9F24117C4B1FE649286651ECE45B3DC2007CB8A163BF0598DA48361C55D39A69163FA8FD24CF5F83655D23DCA3AD961C62F356208552BB9ED529077096966D670C354E4ABC9804F1746C08CA18217C32905E462E36CE3BE39E772C180E86039B2783A2EC07A28FB5C55DF06F4C52C9DE2BCBF6955817183995497CEA956AE515D2261898FA051015728E5A8AACAA68FFFFFFFFFFFFFFFF"

definition modp_3072_prime :: nat where
  "modp_3072_prime = 0xFFFFFFFFFFFFFFFFC90FDAA22168C234C4C6628B80DC1CD129024E088A67CC74020BBEA63B139B22514A08798E3404DDEF9519B3CD3A431B302B0A6DF25F14374FE1356D6D51C245E485B576625E7EC6F44C42E9A637ED6B0BFF5CB6F406B7EDEE386BFB5A899FA5AE9F24117C4B1FE649286651ECE45B3DC2007CB8A163BF0598DA48361C55D39A69163FA8FD24CF5F83655D23DCA3AD961C62F356208552BB9ED529077096966D670C354E4ABC9804F1746C08CA18217C32905E462E36CE3BE39E772C180E86039B2783A2EC07A28FB5C55DF06F4C52C9DE2BCBF6955817183995497CEA956AE515D2261898FA051015728E5A8AAAC42DAD33170D04507A33A85521ABDF1CBA64ECFB850458DBEF0A8AEA71575D060C7DB3970F85A6E1E4C7ABF5AE8CDB0933D71E8C94E04A25619DCEE3D2261AD2EE6BF12FFA06D98A0864D87602733EC86A64521F2B18177B200CBBE117577A615D6C770988C0BAD946E208E24FA074E5AB3143DB5BFCE0FD108E4B82D120A93AD2CAFFFFFFFFFFFFFFFF"

definition modp_4096_prime :: nat where
  "modp_4096_prime = 0xFFFFFFFFFFFFFFFFC90FDAA22168C234C4C6628B80DC1CD129024E088A67CC74020BBEA63B139B22514A08798E3404DDEF9519B3CD3A431B302B0A6DF25F14374FE1356D6D51C245E485B576625E7EC6F44C42E9A637ED6B0BFF5CB6F406B7EDEE386BFB5A899FA5AE9F24117C4B1FE649286651ECE45B3DC2007CB8A163BF0598DA48361C55D39A69163FA8FD24CF5F83655D23DCA3AD961C62F356208552BB9ED529077096966D670C354E4ABC9804F1746C08CA18217C32905E462E36CE3BE39E772C180E86039B2783A2EC07A28FB5C55DF06F4C52C9DE2BCBF6955817183995497CEA956AE515D2261898FA051015728E5A8AAAC42DAD33170D04507A33A85521ABDF1CBA64ECFB850458DBEF0A8AEA71575D060C7DB3970F85A6E1E4C7ABF5AE8CDB0933D71E8C94E04A25619DCEE3D2261AD2EE6BF12FFA06D98A0864D87602733EC86A64521F2B18177B200CBBE117577A615D6C770988C0BAD946E208E24FA074E5AB3143DB5BFCE0FD108E4B82D120A92108011A723C12A787E6D788719A10BDBA5B2699C327186AF4E23C1A946834B6150BDA2583E9CA2AD44CE8DBBBC2DB04DE8EF92E8EFC141FBECAA6287C59474E6BC05D99B2964FA090C3A2233BA186515BE7ED1F612970CEE2D7AFB81BDD762170481CD0069127D5B05AA993B4EA988D8FDDC186FFB7DC90A6C08F4DF435C934063199FFFFFFFFFFFFFFFF"

definition modp_8192_prime :: nat where
  "modp_8192_prime = 0xFFFFFFFFFFFFFFFFC90FDAA22168C234C4C6628B80DC1CD129024E088A67CC74020BBEA63B139B22514A08798E3404DDEF9519B3CD3A431B302B0A6DF25F14374FE1356D6D51C245E485B576625E7EC6F44C42E9A637ED6B0BFF5CB6F406B7EDEE386BFB5A899FA5AE9F24117C4B1FE649286651ECE45B3DC2007CB8A163BF0598DA48361C55D39A69163FA8FD24CF5F83655D23DCA3AD961C62F356208552BB9ED529077096966D670C354E4ABC9804F1746C08CA18217C32905E462E36CE3BE39E772C180E86039B2783A2EC07A28FB5C55DF06F4C52C9DE2BCBF6955817183995497CEA956AE515D2261898FA051015728E5A8AAAC42DAD33170D04507A33A85521ABDF1CBA64ECFB850458DBEF0A8AEA71575D060C7DB3970F85A6E1E4C7ABF5AE8CDB0933D71E8C94E04A25619DCEE3D2261AD2EE6BF12FFA06D98A0864D87602733EC86A64521F2B18177B200CBBE117577A615D6C770988C0BAD946E208E24FA074E5AB3143DB5BFCE0FD108E4B82D120A92108011A723C12A787E6D788719A10BDBA5B2699C327186AF4E23C1A946834B6150BDA2583E9CA2AD44CE8DBBBC2DB04DE8EF92E8EFC141FBECAA6287C59474E6BC05D99B2964FA090C3A2233BA186515BE7ED1F612970CEE2D7AFB81BDD762170481CD0069127D5B05AA993B4EA988D8FDDC186FFB7DC90A6C08F4DF435C93402849236C3FAB4D27C7026C1D4DCB2602646DEC9751E763DBA37BDF8FF9406AD9E530EE5DB382F413001AEB06A53ED9027D831179727B0865A8918DA3EDBEBCF9B14ED44CE6CBACED4BB1BDB7F1447E6CC254B332051512BD7AF426FB8F401378CD2BF5983CA01C64B92ECF032EA15D1721D03F482D7CE6E74FEF6D55E702F46980C82B5A84031900B1C9E59E7C97FBEC7E8F323A97A7E36CC88BE0F1D45B7FF585AC54BD407B22B4154AACC8F6D7EBF48E1D814CC5ED20F8037E0A79715EEF29BE32806A1D58BB7C5DA76F550AA3D8A1FBFF0EB19CCB1A313D55CDA56C9EC2EF29632387FE8D76E3C0468043E8F663F4860EE12BF2D5B0B7474D6E694F91E6DBE115974A3926F12FEE5E438777CB6A932DF8CD8BEC4D073B931BA3BC832B68D9DD300741FA7BF8AFC47ED2576F6936BA424663AAB639C5AE4F5683423B4742BF1C978238F16CBE39D652DE3FDB8BEFC848AD922222E04A4037C0713EB57A81A23F0C73473FC646CEA306B4BCBC8862F8385DDFA9D4B7FA2C087E879683303ED5BDD3A062B3CF5B3A278A66D2A13F83F44F82DDF310EE074AB6A364597E899A0255DC164F31CC50846851DF9AB48195DED7EA1B1D510BD7EE74D73FAF36BC31ECFA268359046F4EB879F924009438B481C6CD7889A002ED5EE382BC9190DA6FC026E479558E4475677E9AA9E3050E2765694DFC81F56E880B96E7160C980DD98EDD3DFFFFFFFFFFFFFFFFF"

fun group_prime :: "DhGroup \<Rightarrow> nat" where
  "group_prime Modp768 = modp_768_prime"
| "group_prime Modp1024 = modp_1024_prime"
| "group_prime Modp1536 = modp_1536_prime"
| "group_prime Modp2048 = modp_2048_prime"
| "group_prime Modp3072 = modp_3072_prime"
| "group_prime Modp4096 = modp_4096_prime"
| "group_prime Modp8192 = modp_8192_prime"

section \<open>Key pairs and shared secrets\<close>

record DhPublicSummary =
  dh_summary_group :: string
  dh_summary_bytes :: nat
  ephemeral_material_present :: bool
  dh_summary_policy :: string

record Ephemeral =
  ephemeral_group :: DhGroup
  private_value :: nat
  public_value :: bytes

datatype DhError = DhRandomFailed | InvalidPrivateValue | InvalidPeerPublicValue

definition left_pad_to_len :: "bytes \<Rightarrow> nat \<Rightarrow> bytes" where
  "left_pad_to_len v len =
     (if length v > len then drop (length v - len) v
      else if length v < len then replicate (len - length v) 0 @ v
      else v)"

definition from_private_bytes_for_group ::
    "BigUintOps \<Rightarrow> DhGroup \<Rightarrow> bytes \<Rightarrow> DhError + Ephemeral" where
  "from_private_bytes_for_group big g private =
     (let modulus = group_prime g;
          max_private = modulus - 1;
          private_val = from_bytes_be big private mod max_private + 1
      in if private_val = 0 \<or> private_val \<ge> modulus then Inl InvalidPrivateValue
         else Inr \<lparr>ephemeral_group = g, private_value = private_val,
           public_value = left_pad_to_len (to_bytes_be big (modpow big 2 private_val modulus))
                            (public_value_bytes g)\<rparr>)"

definition from_private_bytes :: "BigUintOps \<Rightarrow> bytes \<Rightarrow> DhError + Ephemeral" where
  "from_private_bytes big private = from_private_bytes_for_group big Modp2048 private"

text \<open>\<open>generate_for_group\<close> with the octets the system generator delivers, \<open>None\<close> when it fails.\<close>

definition generate_for_group :: "BigUintOps \<Rightarrow> bytes option \<Rightarrow> DhGroup \<Rightarrow> DhError + Ephemeral" where
  "generate_for_group big rnd g =
     rbind (ok_or rnd DhRandomFailed) (\<lambda>private. from_private_bytes_for_group big g private)"

definition generate :: "BigUintOps \<Rightarrow> bytes option \<Rightarrow> DhError + Ephemeral" where
  "generate big rnd = generate_for_group big rnd Modp2048"

definition dh_summary :: "Ephemeral \<Rightarrow> DhPublicSummary" where
  "dh_summary e = \<lparr>dh_summary_group = dh_as_str (ephemeral_group e),
     dh_summary_bytes = length (public_value e), ephemeral_material_present = True,
     dh_summary_policy = ''ephemeral_dh_values_not_serialized''\<rparr>"

definition shared_secret :: "BigUintOps \<Rightarrow> Ephemeral \<Rightarrow> bytes \<Rightarrow> DhError + bytes" where
  "shared_secret big e peer_public_value =
     (if peer_public_value = [] \<or> length peer_public_value > public_value_bytes (ephemeral_group e)
      then Inl InvalidPeerPublicValue
      else
        let modulus = group_prime (ephemeral_group e);
            peer = from_bytes_be big peer_public_value
        in if peer \<le> 1 \<or> peer \<ge> modulus - 1 then Inl InvalidPeerPublicValue
           else Inr (left_pad_to_len (to_bytes_be big (modpow big peer (private_value e) modulus))
                       (public_value_bytes (ephemeral_group e))))"

section \<open>Sizes\<close>

lemma group_prime_bounds: "3 < group_prime g" "group_prime g < 256 ^ public_value_bytes g"
  by (cases g; simp add: modp_768_prime_def modp_1024_prime_def modp_1536_prime_def
      modp_2048_prime_def modp_3072_prime_def modp_4096_prime_def modp_8192_prime_def)+


lemma left_pad:
  assumes "length v \<le> n"
  shows "length (left_pad_to_len v n) = n" and "be_to_nat (left_pad_to_len v n) = be_to_nat v"
  using assms by (auto simp: left_pad_to_len_def be_to_nat_zeros)

lemma padded_value:
  assumes "bigint_laws big" and "x < group_prime g"
  shows "length (left_pad_to_len (to_bytes_be big x) (public_value_bytes g)) = public_value_bytes g"
    and "be_to_nat (left_pad_to_len (to_bytes_be big x) (public_value_bytes g)) = x"
proof -
  have "0 < public_value_bytes g" by (cases g) simp_all
  moreover have "x < 256 ^ public_value_bytes g" using assms(2) group_prime_bounds(2) by (rule less_trans)
  ultimately have len: "length (to_bytes_be big x) \<le> public_value_bytes g"
    using assms(1) by (simp add: bigint_laws_def)
  show "length (left_pad_to_len (to_bytes_be big x) (public_value_bytes g)) = public_value_bytes g"
    by (rule left_pad(1) [OF len])
  show "be_to_nat (left_pad_to_len (to_bytes_be big x) (public_value_bytes g)) = x"
    using left_pad(2) [OF len] assms(1) by (simp add: bigint_laws_def)
qed

text \<open>Generating a pair never fails, and the public value is \<open>2 ^ private\<close>, in exactly as many
  octets as the group has.\<close>

lemma ephemeral_ok:
  assumes laws: "bigint_laws big"
  obtains e where "from_private_bytes_for_group big g private = Inr e" "ephemeral_group e = g"
    "private_value e = be_to_nat private mod (group_prime g - 1) + 1"
    "length (public_value e) = public_value_bytes g"
    "be_to_nat (public_value e) = 2 ^ private_value e mod group_prime g"
proof -
  let ?p = "group_prime g" let ?x = "be_to_nat private mod (?p - 1) + 1"
  have p: "3 < ?p" by (rule group_prime_bounds(1))
  then have "be_to_nat private mod (?p - 1) < ?p - 1" by simp
  then have small: "?x < ?p" using p by linarith
  have pow: "modpow big 2 ?x ?p = 2 ^ ?x mod ?p" using laws p by (simp add: bigint_laws_def)
  have made: "from_private_bytes_for_group big g private = Inr \<lparr>ephemeral_group = g, private_value = ?x,
      public_value = left_pad_to_len (to_bytes_be big (2 ^ ?x mod ?p)) (public_value_bytes g)\<rparr>"
    using small laws pow by (simp add: from_private_bytes_for_group_def Let_def bigint_laws_def)
  have "2 ^ ?x mod ?p < ?p" using p by simp
  from padded_value [OF laws this] show thesis by (intro that [OF made]) simp_all
qed

lemma shared_secret_value:
  assumes laws: "bigint_laws big" and "shared_secret big e peer = Inr s"
  shows "length s = public_value_bytes (ephemeral_group e)"
    and "be_to_nat s = be_to_nat peer ^ private_value e mod group_prime (ephemeral_group e)"
proof -
  let ?p = "group_prime (ephemeral_group e)"
  have p: "0 < ?p" using group_prime_bounds(1) [of "ephemeral_group e"] by simp
  then have "be_to_nat peer ^ private_value e mod ?p < ?p" by simp
  moreover have "s = left_pad_to_len (to_bytes_be big (be_to_nat peer ^ private_value e mod ?p))
      (public_value_bytes (ephemeral_group e))"
    using assms p
    by (auto simp: shared_secret_def Let_def bigint_laws_def split: if_split_asm)
  ultimately show "length s = public_value_bytes (ephemeral_group e)"
    and "be_to_nat s = be_to_nat peer ^ private_value e mod ?p"
    using padded_value [OF laws] by simp_all
qed

lemma be_to_nat_inject: "be_to_nat a = be_to_nat b \<Longrightarrow> length a = length b \<Longrightarrow> a = b"
  by (metis nat_to_be_to_nat)

section \<open>Properties\<close>

text \<open>C12: the two ends agree.  Whatever private octets each end draws for a group, both pairs
  exist; when each accepts the other's public value, both compute the same secret, in exactly the
  octets of the group, and its value is \<open>2 ^ (x y)\<close> modulo the prime.\<close>

theorem dh_agreement:
  assumes laws: "bigint_laws big"
    and a: "from_private_bytes_for_group big g xs = Inr a"
    and b: "from_private_bytes_for_group big g ys = Inr b"
    and s: "shared_secret big a (public_value b) = Inr s"
    and t: "shared_secret big b (public_value a) = Inr t"
  shows "s = t \<and> length s = public_value_bytes g
    \<and> be_to_nat s = 2 ^ (private_value a * private_value b) mod group_prime g"
proof -
  have ea: "ephemeral_group a = g" "be_to_nat (public_value a) = 2 ^ private_value a mod group_prime g"
    by (rule ephemeral_ok [OF laws, of g xs]; use a in simp)+
  have eb: "ephemeral_group b = g" "be_to_nat (public_value b) = 2 ^ private_value b mod group_prime g"
    by (rule ephemeral_ok [OF laws, of g ys]; use b in simp)+
  have sv: "be_to_nat s = 2 ^ (private_value a * private_value b) mod group_prime g"
    using shared_secret_value(2) [OF laws s] ea eb by (simp add: power_mod power_mult [symmetric] mult.commute)
  have tv: "be_to_nat t = 2 ^ (private_value a * private_value b) mod group_prime g"
    using shared_secret_value(2) [OF laws t] ea eb by (simp add: power_mod power_mult [symmetric])
  have "length s = public_value_bytes g" "length t = public_value_bytes g"
    using shared_secret_value(1) [OF laws s] shared_secret_value(1) [OF laws t] ea eb by simp_all
  with sv tv show ?thesis using be_to_nat_inject [of s t] by simp
qed


text \<open>An instance of the crate's operations.\<close>

fun minimal_be :: "nat \<Rightarrow> bytes" where
  "minimal_be n = (if n < 256 then [word_of_nat n] else minimal_be (n div 256) @ [word_of_nat (n mod 256)])"

declare minimal_be.simps [simp del]

definition sample_big :: BigUintOps where
  "sample_big = \<lparr>from_bytes_be = be_to_nat, to_bytes_be = minimal_be, modpow = (\<lambda>b e m. b ^ e mod m)\<rparr>"

lemma be_to_minimal: "be_to_nat (minimal_be n) = n"
  by (induction n rule: minimal_be.induct)
     (subst minimal_be.simps, simp add: be_to_nat_def unat_of_nat)

lemma length_minimal: "0 < k \<Longrightarrow> n < 256 ^ k \<Longrightarrow> length (minimal_be n) \<le> k"
proof (induction n arbitrary: k rule: minimal_be.induct)
  case (1 n)
  show ?case
  proof (cases "n < 256")
    case True
    then show ?thesis using 1 by (simp add: minimal_be.simps)
  next
    case False
    then obtain j where k: "k = Suc j" "0 < j" using 1 by (cases k; cases "k - 1") auto
    then have "n div 256 < 256 ^ j" using 1 by (simp add: less_mult_imp_div_less mult.commute)
    then show ?thesis using 1(1) [OF False k(2)] False k by (simp add: minimal_be.simps [of n])
  qed
qed

lemma sample_big_laws: "bigint_laws sample_big"
  by (simp add: bigint_laws_def sample_big_def be_to_minimal length_minimal)

theorem dh_agreement_witness:
  "\<exists>a b s. from_private_bytes_for_group sample_big Modp768 [1] = Inr a
     \<and> from_private_bytes_for_group sample_big Modp768 [2] = Inr b
     \<and> shared_secret sample_big a (public_value b) = Inr s
     \<and> shared_secret sample_big b (public_value a) = Inr s \<and> be_to_nat s = 64"
proof -
  obtain a where a: "from_private_bytes_for_group sample_big Modp768 [1] = Inr a"
      "ephemeral_group a = Modp768" "private_value a = 2" "length (public_value a) = 96"
      "be_to_nat (public_value a) = 4"
    by (rule ephemeral_ok [OF sample_big_laws, of Modp768 "[1]"])
       (simp add: be_to_nat_def modp_768_prime_def)
  obtain b where b: "from_private_bytes_for_group sample_big Modp768 [2] = Inr b"
      "ephemeral_group b = Modp768" "private_value b = 3" "length (public_value b) = 96"
      "be_to_nat (public_value b) = 8"
    by (rule ephemeral_ok [OF sample_big_laws, of Modp768 "[2]"])
       (simp add: be_to_nat_def modp_768_prime_def)
  have "public_value a \<noteq> []" "public_value b \<noteq> []" using a b by auto
  then obtain s t where s: "shared_secret sample_big a (public_value b) = Inr s"
    and t: "shared_secret sample_big b (public_value a) = Inr t"
    using a b by (simp add: shared_secret_def sample_big_def modp_768_prime_def)
  from dh_agreement [OF sample_big_laws a(1) b(1) s t] a b s t show ?thesis
    by (auto simp: modp_768_prime_def)
qed

end
