(* ===== verification/Eap_Aka.thy ===== *)
theory Eap_Aka
  imports Esp_Protect
begin

text \<open>
  EAP-AKA of \<open>connectivity/modems/ims/vowifi/eap_aka.rs\<close> (RFC 4187): attributes, the challenge and
  its answer, notifications, identity requests and synchronisation failures, the message
  authentication code and the key derivation with the FIPS 186-2 generator, whose SHA-1 compression
  the file spells out.  HMAC-SHA1 is the field \<open>hmac_sign\<close> of the \<open>Crypto\<close> record and the full SHA-1
  digest, which the crate \<open>ring\<close> computes, is the argument \<open>sha1\<close>.  An identity is the octets of its
  UTF-8 text.
\<close>

section \<open>Types\<close>

abbreviation EAP_TYPE_AKA :: u8 where "EAP_TYPE_AKA \<equiv> 23"
abbreviation EAP_CODE_RESPONSE :: u8 where "EAP_CODE_RESPONSE \<equiv> 2"
abbreviation EAP_AKA_SUBTYPE_CHALLENGE :: u8 where "EAP_AKA_SUBTYPE_CHALLENGE \<equiv> 1"
abbreviation EAP_AKA_SUBTYPE_SYNC_FAILURE :: u8 where "EAP_AKA_SUBTYPE_SYNC_FAILURE \<equiv> 4"
abbreviation EAP_AKA_SUBTYPE_IDENTITY :: u8 where "EAP_AKA_SUBTYPE_IDENTITY \<equiv> 5"
abbreviation EAP_AKA_SUBTYPE_NOTIFICATION :: u8 where "EAP_AKA_SUBTYPE_NOTIFICATION \<equiv> 12"
abbreviation AT_RAND :: u8 where "AT_RAND \<equiv> 1"
abbreviation AT_AUTN :: u8 where "AT_AUTN \<equiv> 2"
abbreviation AT_RES :: u8 where "AT_RES \<equiv> 3"
abbreviation AT_AUTS :: u8 where "AT_AUTS \<equiv> 4"
abbreviation AT_PERMANENT_ID_REQ :: u8 where "AT_PERMANENT_ID_REQ \<equiv> 10"
abbreviation AT_MAC :: u8 where "AT_MAC \<equiv> 11"
abbreviation AT_NOTIFICATION :: u8 where "AT_NOTIFICATION \<equiv> 12"
abbreviation AT_ANY_ID_REQ :: u8 where "AT_ANY_ID_REQ \<equiv> 13"
abbreviation AT_IDENTITY :: u8 where "AT_IDENTITY \<equiv> 14"
abbreviation AT_FULLAUTH_ID_REQ :: u8 where "AT_FULLAUTH_ID_REQ \<equiv> 17"
abbreviation AT_RESULT_IND :: u8 where "AT_RESULT_IND \<equiv> 135"
abbreviation EAP_AKA_HEADER_LEN :: nat where "EAP_AKA_HEADER_LEN \<equiv> 8"
abbreviation MAC_LEN :: nat where "MAC_LEN \<equiv> 16"
abbreviation K_AUT_LEN :: nat where "K_AUT_LEN \<equiv> 16"
abbreviation K_ENCR_LEN :: nat where "K_ENCR_LEN \<equiv> 16"
abbreviation KEY_STREAM_LEN :: nat where "KEY_STREAM_LEN \<equiv> 160"

record EapAkaChallenge =
  challenge_identifier :: u8
  rand :: bytes
  autn :: bytes
  mac_present :: bool
  result_indication :: bool
  challenge_packet :: bytes
  mac_offset :: "nat option"

record EapAkaNotification =
  notification_identifier :: u8
  notification_code :: u16
  notification_success :: bool
  after_challenge :: bool
  mac_required :: bool

record EapAkaIdentityRequest =
  identity_identifier :: u8
  request_kind :: string

record EapAkaKeyMaterial =
  k_aut :: bytes
  msk :: bytes

record EapAkaResponsePacket =
  response_packet :: bytes
  key_material :: "EapAkaKeyMaterial option"

text \<open>What the card returned, \<open>qmi_uim.rs\<close>: RES, CK, IK, or AUTS.\<close>

record UsimAkaApduResult =
  aka_res :: bytes
  aka_ck :: bytes
  aka_ik :: bytes
  aka_auts :: "bytes option"

datatype EapAkaProtocolError =
    EapTruncated | EapLengthMismatch | UnsupportedMethod | UnsupportedSubtype | AttributeTruncated
  | InvalidAttributeLength | MissingRand | MissingAutn | MissingMac | MissingNotification
  | MissingIdentityRequest | MissingKeyMaterial | InvalidAkaResult | InvalidMac | EapPacketTooLarge

record EapAkaAttribute =
  attr_type :: u8
  attr_value :: bytes

section \<open>Attributes and packets\<close>

function parse_attributes :: "bytes \<Rightarrow> EapAkaProtocolError + EapAkaAttribute list" where
  "parse_attributes input =
     (if input = [] then Inr []
      else if length input < 4 then Inl AttributeTruncated
      else if input ! 1 = 0 then Inl InvalidAttributeLength
      else
        let len = unat (input ! 1) * 4
        in if len > length input then Inl AttributeTruncated
           else rbind (parse_attributes (drop len input)) (\<lambda>rest.
             Inr (\<lparr>attr_type = input ! 0, attr_value = slice_of input 2 len\<rparr> # rest)))"
  by pat_completeness auto
termination
  by (relation "measure length") (auto simp: unat_gt_0)

declare parse_attributes.simps [simp del]

definition extract_reserved_prefixed_value :: "bytes \<Rightarrow> nat \<Rightarrow> EapAkaProtocolError + bytes" where
  "extract_reserved_prefixed_value v expected_len =
     (if length v \<noteq> 2 + expected_len then Inl InvalidAttributeLength else Inr (drop 2 v))"

definition push_attribute :: "bytes \<Rightarrow> u8 \<Rightarrow> bytes \<Rightarrow> EapAkaProtocolError + bytes" where
  "push_attribute out attribute_type v =
     (let padded_len = 2 + length v;
          pad = (4 - padded_len mod 4) mod 4;
          whole = padded_len + pad
      in if whole div 4 > u8_max then Inl EapPacketTooLarge
         else Inr (out @ [attribute_type, word_of_nat (whole div 4)] @ v @ replicate pad 0))"

definition push_at_res :: "bytes \<Rightarrow> bytes \<Rightarrow> EapAkaProtocolError + bytes" where
  "push_at_res out res =
     (if length res > 128 then Inl EapPacketTooLarge
      else push_attribute out AT_RES (u16_be (word_of_nat (length res) * 8) @ res))"

definition build_eap_packet :: "u8 \<Rightarrow> u8 \<Rightarrow> u8 \<Rightarrow> bytes \<Rightarrow> EapAkaProtocolError + bytes" where
  "build_eap_packet code identifier subtype attributes =
     (let len = EAP_AKA_HEADER_LEN + length attributes
      in if len > u16_max then Inl EapPacketTooLarge
         else Inr ([code, identifier] @ u16_be (word_of_nat len) @ [EAP_TYPE_AKA, subtype, 0, 0]
                   @ attributes))"

text \<open>The four checks that every parser starts with.\<close>

definition check_header :: "bytes \<Rightarrow> u8 \<Rightarrow> EapAkaProtocolError + unit" where
  "check_header packet subtype =
     (if length packet < EAP_AKA_HEADER_LEN then Inl EapTruncated
      else if unat (u16_from_be [packet ! 2, packet ! 3]) \<noteq> length packet then Inl EapLengthMismatch
      else if packet ! 4 \<noteq> EAP_TYPE_AKA then Inl UnsupportedMethod
      else if packet ! 5 \<noteq> subtype then Inl UnsupportedSubtype
      else Inr ())"

fun identity_request_of :: "u8 \<Rightarrow> EapAkaAttribute list \<Rightarrow> EapAkaProtocolError + EapAkaIdentityRequest" where
  "identity_request_of i [] = Inl MissingIdentityRequest"
| "identity_request_of i (a # as) =
     (if attr_type a = AT_PERMANENT_ID_REQ then Inr \<lparr>identity_identifier = i, request_kind = ''permanent''\<rparr>
      else if attr_type a = AT_FULLAUTH_ID_REQ then Inr \<lparr>identity_identifier = i, request_kind = ''full_auth''\<rparr>
      else if attr_type a = AT_ANY_ID_REQ then Inr \<lparr>identity_identifier = i, request_kind = ''any''\<rparr>
      else identity_request_of i as)"

definition parse_identity_request :: "bytes \<Rightarrow> EapAkaProtocolError + EapAkaIdentityRequest" where
  "parse_identity_request packet =
     rbind (check_header packet EAP_AKA_SUBTYPE_IDENTITY) (\<lambda>_.
     rbind (parse_attributes (drop EAP_AKA_HEADER_LEN packet)) (\<lambda>attrs.
     identity_request_of (packet ! 1) attrs))"

fun notification_of :: "u8 \<Rightarrow> EapAkaAttribute list \<Rightarrow> EapAkaProtocolError + EapAkaNotification" where
  "notification_of i [] = Inl MissingNotification"
| "notification_of i (a # as) =
     (if attr_type a = AT_NOTIFICATION then
        if length (attr_value a) \<noteq> 2 then Inl InvalidAttributeLength
        else
          let code = u16_from_be [attr_value a ! 0, attr_value a ! 1];
              after = (code AND 0x4000 = 0)
          in Inr \<lparr>notification_identifier = i, notification_code = code,
               notification_success = (code AND 0x8000 \<noteq> 0), after_challenge = after,
               mac_required = after\<rparr>
      else notification_of i as)"

definition parse_notification :: "bytes \<Rightarrow> EapAkaProtocolError + EapAkaNotification" where
  "parse_notification packet =
     rbind (check_header packet EAP_AKA_SUBTYPE_NOTIFICATION) (\<lambda>_.
     rbind (parse_attributes (drop EAP_AKA_HEADER_LEN packet)) (\<lambda>attrs.
     notification_of (packet ! 1) attrs))"

text \<open>The mutable locals of the loop of \<open>parse_challenge\<close>.\<close>

record ChallengeLocals =
  local_rand :: "bytes option"
  local_autn :: "bytes option"
  local_mac_present :: bool
  local_result_indication :: bool
  attribute_offset :: nat
  local_mac_offset :: "nat option"

definition challenge_attribute ::
    "ChallengeLocals \<Rightarrow> EapAkaAttribute \<Rightarrow> EapAkaProtocolError + ChallengeLocals" where
  "challenge_attribute l a =
     rmap (\<lambda>l. l\<lparr>attribute_offset := attribute_offset l + (2 + length (attr_value a))\<rparr>)
       (if attr_type a = AT_RAND then
          rmap (\<lambda>v. l\<lparr>local_rand := Some v\<rparr>) (extract_reserved_prefixed_value (attr_value a) 16)
        else if attr_type a = AT_AUTN then
          rmap (\<lambda>v. l\<lparr>local_autn := Some v\<rparr>) (extract_reserved_prefixed_value (attr_value a) 16)
        else if attr_type a = AT_MAC then
          if length (attr_value a) \<noteq> 2 + MAC_LEN then Inl InvalidAttributeLength
          else Inr (l\<lparr>local_mac_present := True, local_mac_offset := Some (attribute_offset l + 4)\<rparr>)
        else if attr_type a = AT_RESULT_IND then Inr (l\<lparr>local_result_indication := True\<rparr>)
        else Inr l)"

fun challenge_attributes ::
    "ChallengeLocals \<Rightarrow> EapAkaAttribute list \<Rightarrow> EapAkaProtocolError + ChallengeLocals" where
  "challenge_attributes l [] = Inr l"
| "challenge_attributes l (a # as) = rbind (challenge_attribute l a) (\<lambda>l'. challenge_attributes l' as)"

definition parse_challenge :: "bytes \<Rightarrow> EapAkaProtocolError + EapAkaChallenge" where
  "parse_challenge packet =
     rbind (check_header packet EAP_AKA_SUBTYPE_CHALLENGE) (\<lambda>_.
     rbind (parse_attributes (drop EAP_AKA_HEADER_LEN packet)) (\<lambda>attrs.
     rbind (challenge_attributes \<lparr>local_rand = None, local_autn = None, local_mac_present = False,
              local_result_indication = False, attribute_offset = EAP_AKA_HEADER_LEN,
              local_mac_offset = None\<rparr> attrs) (\<lambda>l.
     rbind (ok_or (local_rand l) MissingRand) (\<lambda>r.
     rbind (ok_or (local_autn l) MissingAutn) (\<lambda>n.
     Inr \<lparr>challenge_identifier = packet ! 1, rand = r, autn = n, mac_present = local_mac_present l,
       result_indication = local_result_indication l, challenge_packet = packet,
       mac_offset = local_mac_offset l\<rparr>)))))"

section \<open>The FIPS 186-2 generator\<close>

text \<open>The 80 words of the message schedule, from the 16 big-endian words of the block.\<close>

fun schedule_words :: "nat \<Rightarrow> u32 list \<Rightarrow> u32 list" where
  "schedule_words 0 w = w"
| "schedule_words (Suc n) w =
     (let i = length w
      in schedule_words n (w @ [word_rotl 1 (w ! (i - 3) XOR w ! (i - 8) XOR w ! (i - 14) XOR w ! (i - 16))]))"

definition block_words :: "bytes \<Rightarrow> u32 list" where
  "block_words block = map (\<lambda>i. u32_from_be (slice_of block (4 * i) (4 * i + 4))) [0..<16]"

type_synonym Sha1State = "u32 \<times> u32 \<times> u32 \<times> u32 \<times> u32"

definition sha1_round :: "Sha1State \<Rightarrow> nat \<times> u32 \<Rightarrow> Sha1State" where
  "sha1_round st iw =
     (case st of (a, b, c, d, e) \<Rightarrow> case iw of (i, w) \<Rightarrow>
        let (f, k) = (if i \<le> 19 then ((b AND c) OR ((NOT b) AND d), 0x5a827999)
                      else if i \<le> 39 then (b XOR c XOR d, 0x6ed9eba1)
                      else if i \<le> 59 then ((b AND c) OR (b AND d) OR (c AND d), 0x8f1bbcdc)
                      else (b XOR c XOR d, 0xca62c1d6));
            temp = word_rotl 5 a + f + e + k + w
        in (temp, a, word_rotl 30 b, c, d))"

definition sha1_compress :: "Sha1State \<Rightarrow> bytes \<Rightarrow> Sha1State" where
  "sha1_compress state block =
     (let w = schedule_words 64 (block_words block);
          (a, b, c, d, e) = foldl sha1_round state (enumerate 0 w);
          (s0, s1, s2, s3, s4) = state
      in (s0 + a, s1 + b, s2 + c, s3 + d, s4 + e))"

text \<open>The loop from the last octet of the twenty down to the first, with its running carry.\<close>

definition add_octet :: "u8 \<times> u8 \<Rightarrow> bytes \<times> u16 \<Rightarrow> bytes \<times> u16" where
  "add_octet xw acc =
     (case xw of (x, w) \<Rightarrow> case acc of (out, carry) \<Rightarrow>
        let carry = carry + (ucast x + ucast w)
        in (ucast (carry AND 0xff) # out, drop_bit 8 carry))"

definition add_one_and_w :: "bytes \<Rightarrow> bytes \<Rightarrow> bytes" where
  "add_one_and_w xkey w = fst (foldr add_octet (zip xkey w) ([], 1))"

definition fips_words :: "Sha1State \<Rightarrow> bytes" where
  "fips_words s = (case s of (a, b, c, d, e) \<Rightarrow> u32_be a @ u32_be b @ u32_be c @ u32_be d @ u32_be e)"

definition fips_initial :: Sha1State where
  "fips_initial = (0x67452301, 0xefcdab89, 0x98badcfe, 0x10325476, 0xc3d2e1f0)"

text \<open>One pass of the inner \<open>for\<close>: the next octets of the output and the next seed key.\<close>

definition fips_pass :: "nat \<Rightarrow> bytes \<times> bytes \<Rightarrow> bytes \<times> bytes" where
  "fips_pass out_len st =
     (case st of (xkey, out) \<Rightarrow>
        let w = fips_words (sha1_compress fips_initial xkey);
            remaining = out_len - length out
        in (add_one_and_w (take 20 xkey) w @ drop 20 xkey, out @ take (min remaining (length w)) w))"

lemma length_fips_words [simp]: "length (fips_words s) = 20"
  by (simp add: fips_words_def split: prod.splits)

lemma length_fips_pass [simp]:
  "length (snd (fips_pass n st)) = length (snd st) + min (n - length (snd st)) 20"
  by (simp add: fips_pass_def Let_def split: prod.splits)

text \<open>The \<open>while\<close> around the two passes; the second is skipped when the output is complete.\<close>

function fips_loop :: "nat \<Rightarrow> bytes \<times> bytes \<Rightarrow> bytes" where
  "fips_loop out_len st =
     (if length (snd st) < out_len then
        let st1 = fips_pass out_len st
        in fips_loop out_len (if length (snd st1) \<ge> out_len then st1 else fips_pass out_len st1)
      else snd st)"
  by pat_completeness auto
termination
  by (relation "measure (\<lambda>(n, st). n - length (snd st))") auto

declare fips_loop.simps [simp del]

definition fips186_2_prf :: "bytes \<Rightarrow> nat \<Rightarrow> bytes" where
  "fips186_2_prf seed out_len =
     (let seed_len = min (length seed) 64
      in fips_loop out_len (take seed_len seed @ replicate (64 - seed_len) 0, []))"


section \<open>Keys and message authentication codes\<close>

definition derive_key_material ::
    "(bytes \<Rightarrow> bytes) \<Rightarrow> bytes \<Rightarrow> bytes \<Rightarrow> bytes \<Rightarrow> EapAkaKeyMaterial" where
  "derive_key_material sha1 identity ik ck =
     (let mk = sha1 (identity @ ik @ ck);
          key_stream = fips186_2_prf mk KEY_STREAM_LEN
      in \<lparr>k_aut = slice_of key_stream K_ENCR_LEN (K_ENCR_LEN + K_AUT_LEN),
          msk = slice_of key_stream (K_ENCR_LEN + K_AUT_LEN) (K_ENCR_LEN + K_AUT_LEN + 64)\<rparr>)"

definition calculate_mac :: "Crypto \<Rightarrow> bytes \<Rightarrow> bytes \<Rightarrow> bytes \<Rightarrow> bytes" where
  "calculate_mac c key packet extra = take MAC_LEN (hmac_sign c HMAC_SHA1 key (packet @ extra))"

text \<open>\<open>packet[from..from + 16].copy_from_slice\<close>; the callers' offsets are within the packet.\<close>

definition put_mac :: "bytes \<Rightarrow> nat \<Rightarrow> bytes \<Rightarrow> bytes" where
  "put_mac packet offset mac = take offset packet @ mac @ drop (offset + MAC_LEN) packet"

definition verify_challenge_mac ::
    "Crypto \<Rightarrow> EapAkaChallenge \<Rightarrow> EapAkaKeyMaterial \<Rightarrow> EapAkaProtocolError + unit" where
  "verify_challenge_mac c challenge keys =
     rbind (ok_or (mac_offset challenge) MissingMac) (\<lambda>offset.
       let end_offset = offset + MAC_LEN
       in if \<not> end_offset \<le> length (challenge_packet challenge) then Inl InvalidAttributeLength
          else
            let received = slice_of (challenge_packet challenge) offset end_offset;
                canonical = put_mac (challenge_packet challenge) offset (replicate MAC_LEN 0);
                expected = calculate_mac c (k_aut keys) canonical [];
                difference = or_diff 0 received expected
            in if difference = 0 then Inr () else Inl InvalidMac)"

section \<open>Responses\<close>

definition build_challenge_response ::
    "Crypto \<Rightarrow> (bytes \<Rightarrow> bytes) \<Rightarrow> EapAkaChallenge \<Rightarrow> bytes \<Rightarrow> UsimAkaApduResult
      \<Rightarrow> EapAkaProtocolError + EapAkaResponsePacket" where
  "build_challenge_response c sha1 challenge identity aka =
     (if \<not> mac_present challenge then Inl MissingMac
      else if aka_res aka = [] \<or> length (aka_ck aka) \<noteq> 16 \<or> length (aka_ik aka) \<noteq> 16
              \<or> aka_auts aka \<noteq> None then Inl InvalidAkaResult
      else
        let keys = derive_key_material sha1 identity (aka_ik aka) (aka_ck aka) in
        rbind (verify_challenge_mac c challenge keys) (\<lambda>_.
        rbind (push_at_res [] (aka_res aka)) (\<lambda>attributes.
        rbind (if result_indication challenge then push_attribute attributes AT_RESULT_IND [0, 0]
               else Inr attributes) (\<lambda>attributes.
        let offset = length attributes + EAP_AKA_HEADER_LEN + 4 in
        rbind (push_attribute attributes AT_MAC (replicate 18 0)) (\<lambda>attributes.
        rbind (build_eap_packet EAP_CODE_RESPONSE (challenge_identifier challenge)
                 EAP_AKA_SUBTYPE_CHALLENGE attributes) (\<lambda>packet.
        Inr \<lparr>response_packet = put_mac packet offset (calculate_mac c (k_aut keys) packet []),
             key_material = Some keys\<rparr>))))))"

definition build_sync_failure_response ::
    "EapAkaChallenge \<Rightarrow> bytes \<Rightarrow> EapAkaProtocolError + EapAkaResponsePacket" where
  "build_sync_failure_response challenge auts =
     rbind (push_attribute [] AT_AUTS auts) (\<lambda>attributes.
     rbind (build_eap_packet EAP_CODE_RESPONSE (challenge_identifier challenge)
              EAP_AKA_SUBTYPE_SYNC_FAILURE attributes) (\<lambda>packet.
     Inr \<lparr>response_packet = packet, key_material = None\<rparr>))"

definition build_notification_response ::
    "Crypto \<Rightarrow> EapAkaNotification \<Rightarrow> EapAkaKeyMaterial \<Rightarrow> EapAkaProtocolError + EapAkaResponsePacket" where
  "build_notification_response c notification keys =
     rbind (if mac_required notification then
              rmap (\<lambda>a. (a, Some (EAP_AKA_HEADER_LEN + 4))) (push_attribute [] AT_MAC (replicate 18 0))
            else Inr ([], None)) (\<lambda>(attributes, offset).
     rbind (build_eap_packet EAP_CODE_RESPONSE (notification_identifier notification)
              EAP_AKA_SUBTYPE_NOTIFICATION attributes) (\<lambda>packet.
     Inr \<lparr>response_packet = (case offset of
            Some o1 \<Rightarrow> put_mac packet o1 (calculate_mac c (k_aut keys) packet [])
          | None \<Rightarrow> packet),
          key_material = Some keys\<rparr>))"

definition build_identity_response ::
    "EapAkaIdentityRequest \<Rightarrow> bytes \<Rightarrow> EapAkaKeyMaterial option
      \<Rightarrow> EapAkaProtocolError + EapAkaResponsePacket" where
  "build_identity_response request identity keys =
     (if length identity > u16_max then Inl EapPacketTooLarge
      else rbind (push_attribute [] AT_IDENTITY (u16_be (word_of_nat (length identity)) @ identity)) (\<lambda>attributes.
        rbind (build_eap_packet EAP_CODE_RESPONSE (identity_identifier request)
                 EAP_AKA_SUBTYPE_IDENTITY attributes) (\<lambda>packet.
        Inr \<lparr>response_packet = packet, key_material = keys\<rparr>)))"

definition build_identity_response_packet ::
    "bytes \<Rightarrow> bytes \<Rightarrow> EapAkaProtocolError + EapAkaResponsePacket" where
  "build_identity_response_packet request identity =
     rbind (parse_identity_request request) (\<lambda>r. build_identity_response r identity None)"

definition notification_response ::
    "Crypto \<Rightarrow> EapAkaResponsePacket \<Rightarrow> bytes \<Rightarrow> EapAkaProtocolError + EapAkaResponsePacket" where
  "notification_response c response request =
     rbind (parse_notification request) (\<lambda>notification.
     rbind (ok_or (key_material response) MissingKeyMaterial) (\<lambda>keys.
     build_notification_response c notification keys))"

definition identity_response ::
    "EapAkaResponsePacket \<Rightarrow> bytes \<Rightarrow> bytes \<Rightarrow> EapAkaProtocolError + EapAkaResponsePacket" where
  "identity_response response request identity =
     rbind (parse_identity_request request) (\<lambda>r.
     build_identity_response r identity (key_material response))"

definition msk_for_ike_auth :: "EapAkaResponsePacket \<Rightarrow> bytes option" where
  "msk_for_ike_auth response = map_option msk (key_material response)"

section \<open>The generator\<close>

lemma length_add_octets: "length (fst (foldr add_octet ps (out, carry))) = length ps + length out"
  by (induction ps) (auto simp: add_octet_def Let_def split: prod.splits)

lemma length_add_one_and_w [simp]: "length (add_one_and_w x w) = min (length x) (length w)"
  using length_add_octets [of "zip x w" "[]" 1] by (simp add: add_one_and_w_def)

lemma length_fips_loop: "length (snd st) \<le> n \<Longrightarrow> length (fips_loop n st) = n"
proof (induction n st rule: fips_loop.induct)
  case (1 n st)
  show ?case
  proof (cases "length (snd st) < n")
    case True
    let ?next = "if length (snd (fips_pass n st)) \<ge> n then fips_pass n st
      else fips_pass n (fips_pass n st)"
    have "fips_loop n st = fips_loop n ?next"
      using True by (subst fips_loop.simps) (simp only: Let_def if_True)
    also have "length (fips_loop n ?next) = n"
      using True by (intro 1(1) [OF True refl]) (auto simp del: length_fips_pass simp add: length_fips_pass)
    finally show ?thesis .
  next
    case False
    with 1 show ?thesis by (subst fips_loop.simps) simp
  qed
qed

lemma length_fips186_2_prf [simp]: "length (fips186_2_prf seed n) = n"
  by (simp add: fips186_2_prf_def Let_def length_fips_loop)


text \<open>The update of the seed key is big-endian addition modulo \<open>256 ^ 20\<close>.\<close>

lemma add_octet_value:
  assumes "carry \<le> 1"
  shows "\<exists>b carry'. add_octet (x, w) (out, carry) = (b # out, carry') \<and> carry' \<le> 1
    \<and> unat b + 256 * unat carry' = unat x + unat w + unat carry"
proof -
  let ?s = "carry + (ucast x + ucast w) :: u16"
  have c: "unat carry \<le> 1" using assms by (simp add: word_le_nat_alt)
  have ux: "unat (ucast x :: u16) = unat x" "unat (ucast w :: u16) = unat w"
    using unat_u8_less [of x] unat_u8_less [of w]
    by (simp_all del: unat_u8_less add: unsigned_ucast_eq take_bit_eq_mod)
  have xw: "unat x + unat w \<le> 510" using unat_u8_le [of x] unat_u8_le [of w] by linarith
  then have "unat (ucast x + ucast w :: u16) = unat x + unat w" by (simp add: unat_word_ariths ux)
  then have s: "unat ?s = unat x + unat w + unat carry"
    using c xw by (simp add: unat_word_ariths)
  have low: "unat (ucast (?s AND 0xff) :: u8) = unat ?s mod 256"
  proof -
    have mask: "?s AND 0xff = take_bit 8 ?s"
      by (simp add: take_bit_eq_mask mask_eq_exp_minus_1)
    have "unat (?s AND 0xff) = unat ?s mod 256"
      unfolding mask unsigned_take_bit_eq by (simp add: take_bit_eq_mod)
    then show ?thesis by (simp add: unsigned_ucast_eq take_bit_eq_mod)
  qed
  have high: "unat (drop_bit 8 ?s) = unat ?s div 256"
    unfolding unsigned_drop_bit_eq using unat_u16_less [of ?s]
    by (simp add: drop_bit_eq_div take_bit_nat_eq_self)
  have "unat (drop_bit 8 ?s) \<le> 1" using high s c xw by linarith
  then have "drop_bit 8 ?s \<le> 1" by (simp add: word_le_nat_alt)
  then show ?thesis
    using low high s by (simp add: add_octet_def Let_def)
qed

lemma add_octets_value:
  assumes "length x = length w"
  shows "\<exists>out carry. foldr add_octet (zip x w) ([], 1) = (out, carry) \<and> carry \<le> 1
    \<and> be_to_nat out + 256 ^ length x * unat carry = be_to_nat x + be_to_nat w + 1"
  using assms
proof (induction x w rule: list_induct2)
  case Nil
  then show ?case by simp
next
  case (Cons a x b w)
  then obtain out carry where IH: "foldr add_octet (zip x w) ([], 1) = (out, carry)" "carry \<le> 1"
      "be_to_nat out + 256 ^ length x * unat carry = be_to_nat x + be_to_nat w + 1" by blast
  obtain o1 c1 where step: "add_octet (a, b) (out, carry) = (o1 # out, c1)" "c1 \<le> 1"
      "unat o1 + 256 * unat c1 = unat a + unat b + unat carry"
    using add_octet_value [OF IH(2)] by blast
  have len: "length out = length x" "length w = length x"
    using length_add_octets [of "zip x w" "[]" 1] IH(1) Cons.hyps by simp_all
  let ?p = "256 ^ length x :: nat"
  have "be_to_nat (o1 # out) + 256 ^ length (a # x) * unat c1
      = (unat o1 + 256 * unat c1) * ?p + be_to_nat out"
    by (simp add: be_to_nat_Cons len algebra_simps)
  also have "\<dots> = (unat a + unat b) * ?p + (be_to_nat out + ?p * unat carry)"
    unfolding step(3) by (simp add: algebra_simps)
  also have "\<dots> = be_to_nat (a # x) + be_to_nat (b # w) + 1"
    unfolding IH(3) by (simp add: be_to_nat_Cons len algebra_simps)
  finally show ?case using IH(1) step(1,2) by simp
qed


lemma add_one_and_w_value:
  assumes "length x = 20" "length w = 20"
  shows "add_one_and_w x w = nat_to_be 20 ((1 + be_to_nat x + be_to_nat w) mod 2 ^ 160)"
proof -
  obtain out carry where out: "foldr add_octet (zip x w) ([], 1) = (out, carry)"
      "be_to_nat out + 256 ^ 20 * unat carry = be_to_nat x + be_to_nat w + 1"
    using add_octets_value [of x w] assms by auto
  then have len: "length out = 20"
    using length_add_octets [of "zip x w" "[]" 1] assms by simp
  have "(1 + be_to_nat x + be_to_nat w) mod 256 ^ 20 = be_to_nat out"
  proof -
    have "1 + be_to_nat x + be_to_nat w = be_to_nat out + 256 ^ 20 * unat carry" using out(2) by simp
    moreover have "be_to_nat out < 256 ^ 20" using be_to_nat_bound [of out] len by simp
    ultimately show ?thesis by (simp only: mod_mult_self2 mod_less)
  qed
  moreover have "(256 :: nat) ^ 20 = 2 ^ 160" by simp
  ultimately show ?thesis
    using out(1) len nat_to_be_to_nat [of out] by (simp add: add_one_and_w_def)
qed

text \<open>FIPS 186-2, as the standard states it: \<open>w = G(t, XKEY)\<close>, then \<open>XKEY = (1 + XKEY + w) mod 2^160\<close>.\<close>

fun fips_reference :: "nat \<Rightarrow> nat \<Rightarrow> bytes" where
  "fips_reference 0 x = []"
| "fips_reference (Suc m) x =
     (let w = fips_words (sha1_compress fips_initial (nat_to_be 20 x @ replicate 44 0))
      in w @ fips_reference m ((1 + x + be_to_nat w) mod 2 ^ 160))"

lemma length_fips_reference [simp]: "length (fips_reference m x) = 20 * m"
  by (induction m arbitrary: x) (simp_all add: Let_def)

lemma fips_pass_reference:
  assumes "length key = 20" and "x = be_to_nat key"
    and "w = fips_words (sha1_compress fips_initial (nat_to_be 20 x @ replicate 44 0))"
    and "y = (1 + x + be_to_nat w) mod 2 ^ 160"
  shows "fips_pass n (key @ replicate 44 0, out) =
    (nat_to_be 20 y @ replicate 44 0, out @ take (n - length out) w)"
  using assms nat_to_be_to_nat [of key] add_one_and_w_value [of key w]
  by (simp add: fips_pass_def Let_def min_def)

lemma fips_loop_reference:
  assumes "x < 2 ^ 160" "length out \<le> n" "n \<le> length out + 20 * m"
  shows "fips_loop n (nat_to_be 20 x @ replicate 44 0, out) = out @ take (n - length out) (fips_reference m x)"
  using assms
proof (induction m arbitrary: x out rule: less_induct)
  case (less m)
  let ?w = "\<lambda>x. fips_words (sha1_compress fips_initial (nat_to_be 20 x @ replicate 44 0))"
  let ?y = "\<lambda>x. (1 + x + be_to_nat (?w x)) mod 2 ^ 160"
  let ?st = "\<lambda>x out. (nat_to_be 20 x @ replicate 44 (0 :: u8), out)"
  have reads: "be_to_nat (nat_to_be 20 z) = z" if "z < 2 ^ 160" for z
    using that by (simp add: be_to_nat_to_be)
  have pass: "fips_pass n (?st z o1) = ?st (?y z) (o1 @ take (n - length o1) (?w z))" if "z < 2 ^ 160" for z o1
    using fips_pass_reference [of "nat_to_be 20 z" z "?w z" "?y z"] reads [OF that] by simp
  have y: "?y z < 2 ^ 160" for z by simp
  show ?case
  proof (cases "length out < n")
    case False
    then show ?thesis using less.prems by (subst fips_loop.simps) simp
  next
    case True
    then obtain k where m: "m = Suc k" using less.prems by (cases m) auto
    let ?o1 = "out @ take (n - length out) (?w x)"
    show ?thesis
    proof (cases "length out + 20 \<ge> n")
      case True
      have "fips_loop n (?st x out) = fips_loop n (?st (?y x) ?o1)"
        using \<open>length out < n\<close> True pass [OF less.prems(1), of out]
        by (subst fips_loop.simps) (simp add: Let_def)
      also have "\<dots> = ?o1" using True \<open>length out < n\<close> by (subst fips_loop.simps) simp
      finally show ?thesis using True by (simp add: m Let_def)
    next
      case False
      then obtain j where k: "k = Suc j" using less.prems m by (cases k) auto
      let ?x1 = "?y x" let ?o2 = "?o1 @ take (n - length ?o1) (?w ?x1)"
      have o1: "?o1 = out @ ?w x" using False by simp
      have "fips_loop n (?st x out) = fips_loop n (?st (?y ?x1) ?o2)"
        using \<open>length out < n\<close> False pass [OF less.prems(1), of out] pass [OF y, of x ?o1]
        by (subst fips_loop.simps) (simp add: Let_def)
      also have "\<dots> = ?o2 @ take (n - length ?o2) (fips_reference j (?y ?x1))"
        using less.prems False by (intro less.IH) (auto simp: m k)
      finally have "fips_loop n (?st x out) = ?o2 @ take (n - length ?o2) (fips_reference j (?y ?x1))" .
      moreover have "n - (length out + (20 + min 20 (n - (length out + 20)))) = n - (40 + length out)"
        by (auto simp: min_def add.commute)
      ultimately show ?thesis using False by (simp add: m k Let_def)
    qed
  qed
qed

text \<open>C40: the key stream of EAP-AKA is the generator of FIPS 186-2 with change notice 1: for a seed
  of twenty octets the code's octet loops compute the standard's arithmetic modulo \<open>2 ^ 160\<close>, to any
  length.\<close>

theorem fips_generator_correct:
  assumes "length seed = 20" and "n \<le> 20 * m"
  shows "fips186_2_prf seed n = take n (fips_reference m (be_to_nat seed))"
proof -
  have "be_to_nat seed < 2 ^ 160" using be_to_nat_bound [of seed] assms(1) by simp
  from fips_loop_reference [OF this, of "[]" n m] nat_to_be_to_nat [of seed] assms show ?thesis
    by (simp add: fips186_2_prf_def Let_def)
qed


section \<open>Attributes\<close>

definition pad_len :: "nat \<Rightarrow> nat" where
  "pad_len n = (4 - (2 + n) mod 4) mod 4"

lemma pad_len_block: "(2 + n + pad_len n) mod 4 = 0"
proof -
  define r where r: "r = (2 + n) mod 4"
  then have "r < 4" by simp
  have "(2 + n + (4 - r) mod 4) mod 4 = (r + (4 - r) mod 4) mod 4"
    unfolding r by (rule mod_add_left_eq [symmetric])
  also have "\<dots> = 0" using \<open>r < 4\<close> by (cases "r = 0") auto
  finally show ?thesis by (simp only: pad_len_def r)
qed

lemma push_attribute_out:
  "push_attribute out ty v = Inr a \<longleftrightarrow> (2 + length v + pad_len (length v)) div 4 \<le> 255
     \<and> a = out @ [ty, word_of_nat ((2 + length v + pad_len (length v)) div 4)] @ v
           @ replicate (pad_len (length v)) 0"
  by (auto simp: push_attribute_def Let_def pad_len_def)

text \<open>What the parser makes of a pushed attribute: the padding stays in the value.\<close>

lemma parse_pushed:
  assumes "(2 + length v + pad_len (length v)) div 4 \<le> 255"
  shows "parse_attributes ([ty, word_of_nat ((2 + length v + pad_len (length v)) div 4)] @ v
      @ replicate (pad_len (length v)) 0 @ rest) =
    rbind (parse_attributes rest) (\<lambda>as.
      Inr (\<lparr>attr_type = ty, attr_value = v @ replicate (pad_len (length v)) 0\<rparr> # as))"
proof -
  define p u where p: "p = pad_len (length v)" and u: "u = (2 + length v + p) div 4"
  have units: "unat (word_of_nat u :: u8) = u" using assms p u by (intro unat_u8_of_nat) simp
  have len: "length v + p + 2 = u * 4"
  proof -
    have "(2 + length v + p) div 4 * 4 = 2 + length v + p"
      using pad_len_block [of "length v"] div_mult_mod_eq [of "2 + length v + p" 4] by (simp only: p)
    then show ?thesis by (simp only: u)
  qed
  then have pos: "0 < u" by (cases u) auto
  then have nz: "(word_of_nat u :: u8) \<noteq> 0" using units by (metis unat_0 less_irrefl)
  let ?in = "[ty, word_of_nat u :: u8] @ v @ replicate p 0 @ rest"
  have n: "length ?in = u * 4 + length rest" using len by simp
  have "\<not> length ?in < 4" "\<not> u * 4 > length ?in" using n pos by linarith+
  moreover have "drop (u * 4) ?in = rest" "slice_of ?in 2 (u * 4) = v @ replicate p 0"
    by (simp_all add: len [symmetric] slice_of_def)
  ultimately have "parse_attributes ?in = rbind (parse_attributes rest) (\<lambda>as.
      Inr (\<lparr>attr_type = ty, attr_value = v @ replicate p 0\<rparr> # as))"
    using nz units by (subst parse_attributes.simps) (simp add: Let_def)
  then show ?thesis by (simp only: p u)
qed

lemma parse_attributes_Nil [simp]: "parse_attributes [] = Inr []"
  by (simp add: parse_attributes.simps)

lemma pad_len_values [simp]: "pad_len 18 = 0" "pad_len 2 = 0" "pad_len 14 = 0"
  by (simp_all add: pad_len_def)

text \<open>The header that every packet has passes the parsers' checks.\<close>

lemma check_layout:
  assumes "n = 8 + length rest" "n \<le> 65535"
  shows "check_header ([code, i] @ u16_be (word_of_nat n) @ [EAP_TYPE_AKA, subtype, x, y] @ rest) st =
    (if subtype = st then Inr () else Inl UnsupportedSubtype)"
proof -
  obtain a b where w: "u16_be (word_of_nat n) = [a, b]" using u16_be_Cons by blast
  then have wback: "u16_from_be [a, b] = word_of_nat n" by (metis be16.from_to_be)
  have "unat (word_of_nat n :: u16) = n" using assms by (intro unat_u16_of_nat) simp
  moreover have "Suc (Suc (Suc (Suc (Suc (Suc (Suc (Suc (length rest)))))))) = n" "\<not> n < 8"
    using assms by simp_all
  ultimately show ?thesis unfolding check_header_def w by (simp add: wback)
qed

lemma drop_layout:
  "drop 8 ([code, i] @ u16_be w @ [EAP_TYPE_AKA, subtype, x, y] @ rest) = rest"
  "([code, i] @ u16_be w @ [EAP_TYPE_AKA, subtype, x, y] @ rest) ! 1 = i"
  by simp_all

lemma parse_unpadded:
  assumes "length v = 18"
  shows "parse_attributes ([ty, 5] @ v @ rest) =
    rbind (parse_attributes rest) (\<lambda>as. Inr (\<lparr>attr_type = ty, attr_value = v\<rparr> # as))"
  using parse_pushed [of v ty rest] assms by simp

lemma parse_short:
  assumes "length v = 2"
  shows "parse_attributes ([ty, 1] @ v @ rest) =
    rbind (parse_attributes rest) (\<lambda>as. Inr (\<lparr>attr_type = ty, attr_value = v\<rparr> # as))"
  using parse_pushed [of v ty rest] assms by simp

lemma build_packet_ok:
  "8 + length attrs \<le> 65535 \<Longrightarrow> \<exists>packet. build_eap_packet code i subtype attrs = Inr packet"
  by (simp add: build_eap_packet_def Let_def)

lemma length_put_mac [simp]:
  "length mac = 16 \<Longrightarrow> from + 16 \<le> length p \<Longrightarrow> length (put_mac p from mac) = length p"
  by (simp add: put_mac_def)

lemma put_mac_parts:
  assumes "length mac = 16" "from + 16 \<le> length p"
  shows "slice_of (put_mac p from mac) from (from + 16) = mac"
    and "put_mac (put_mac p from mac) from m2 = put_mac p from m2"
    and "take from (put_mac p from mac) = take from p"
  using assms by (simp_all add: put_mac_def slice_of_def)

lemma length_calculate_mac [simp]: "crypto_laws c \<Longrightarrow> length (calculate_mac c k p e) = 16"
  by (simp add: calculate_mac_def crypto_laws_def)

lemma mac_verifies:
  assumes "mac_offset ch = Some n" "n + 16 \<le> length (challenge_packet ch)" "crypto_laws c"
  shows "verify_challenge_mac c ch keys = Inr () \<longleftrightarrow>
    slice_of (challenge_packet ch) n (n + 16) =
      calculate_mac c (k_aut keys) (put_mac (challenge_packet ch) n (replicate 16 0)) []"
proof -
  let ?r = "slice_of (challenge_packet ch) n (n + 16)"
  let ?e = "calculate_mac c (k_aut keys) (put_mac (challenge_packet ch) n (replicate 16 0)) []"
  have "length ?r = length ?e" using assms by simp
  then have "or_diff 0 ?r ?e = 0 \<longleftrightarrow> ?r = ?e"
    using constant_time_eq_iff [of ?r ?e, unfolded constant_time_eq_def] by simp
  then show ?thesis using assms by (simp add: verify_challenge_mac_def Let_def)
qed


section \<open>The exchange\<close>

text \<open>The network's side of the challenge, in the code's own building blocks: RAND, AUTN, the
  result indication when it wants one, and the authentication code over the packet.\<close>

definition network_challenge ::
    "Crypto \<Rightarrow> bytes \<Rightarrow> u8 \<Rightarrow> bytes \<Rightarrow> bytes \<Rightarrow> bool \<Rightarrow> EapAkaProtocolError + bytes" where
  "network_challenge c key i r n indicate =
     rbind (push_attribute [] AT_RAND ([0, 0] @ r)) (\<lambda>a.
     rbind (push_attribute a AT_AUTN ([0, 0] @ n)) (\<lambda>a.
     rbind (if indicate then push_attribute a AT_RESULT_IND [0, 0] else Inr a) (\<lambda>a.
     rbind (push_attribute a AT_MAC (replicate 18 0)) (\<lambda>b.
     rbind (build_eap_packet 1 i EAP_AKA_SUBTYPE_CHALLENGE b) (\<lambda>p.
     Inr (put_mac p (12 + length a) (calculate_mac c key p [])))))))"

definition indication :: "bool \<Rightarrow> bytes" where
  "indication b = (if b then [AT_RESULT_IND, 1, 0, 0] else [])"

lemma push_indication:
  "(if b then push_attribute a AT_RESULT_IND [0, 0] else Inr a) = Inr (a @ indication b)"
  by (simp add: indication_def push_attribute_def)

lemma parse_indication:
  "parse_attributes (indication b @ rest) = rbind (parse_attributes rest) (\<lambda>as.
     Inr ((if b then [\<lparr>attr_type = AT_RESULT_IND, attr_value = [0, 0]\<rparr>] else []) @ as))"
  using parse_short [of "[0, 0]" AT_RESULT_IND rest]
  by (cases b; cases "parse_attributes rest") (simp_all add: indication_def)

lemma push_18: "length v = 18 \<Longrightarrow> push_attribute out ty v = Inr (out @ [ty, 5] @ v)"
  by (simp add: push_attribute_def)

text \<open>A packet that ends in a MAC attribute, with the code filled in.\<close>

definition closed_packet :: "u8 \<Rightarrow> u8 \<Rightarrow> u8 \<Rightarrow> bytes \<Rightarrow> bytes \<Rightarrow> bytes" where
  "closed_packet code i st attrs mac =
     [code, i] @ u16_be (word_of_nat (28 + length attrs)) @ [EAP_TYPE_AKA, st, 0, 0]
       @ attrs @ [AT_MAC, 5, 0, 0] @ mac"

lemma close_packet:
  assumes "length attrs \<le> 65000"
  shows "build_eap_packet code i st (attrs @ [AT_MAC, 5] @ replicate 18 0)
    = Inr (closed_packet code i st attrs (replicate 16 0))"
proof -
  have zeros: "replicate 18 (0 :: u8) = [0, 0] @ replicate 16 0" by (simp add: numeral_eq_Suc)
  have "8 + length (attrs @ [AT_MAC, 5] @ replicate 18 (0 :: u8)) = 28 + length attrs" by simp
  with assms show ?thesis
    unfolding build_eap_packet_def closed_packet_def Let_def
    by (simp only: zeros append_assoc) simp
qed

lemma closed_packet_split:
  "\<exists>h. length h = 12 + length attrs \<and> (\<forall>mac. closed_packet code i st attrs mac = h @ mac)"
proof (intro exI conjI allI)
  let ?h = "[code, i] @ u16_be (word_of_nat (28 + length attrs)) @ [EAP_TYPE_AKA, st, 0, 0]
       @ attrs @ [AT_MAC, 5, 0, 0]"
  show "closed_packet code i st attrs mac = ?h @ mac" for mac
    by (simp only: closed_packet_def append_assoc)
  show "length ?h = 12 + length attrs" by simp
qed

lemma put_mac_closed:
  assumes "length m = 16" and "length mac = 16"
  shows "put_mac (closed_packet code i st attrs m) (12 + length attrs) mac = closed_packet code i st attrs mac"
proof -
  obtain h where "length h = 12 + length attrs" "\<forall>mac. closed_packet code i st attrs mac = h @ mac"
    using closed_packet_split by blast
  with assms show ?thesis by (simp add: put_mac_def)
qed

lemma closed_packet_facts:
  assumes "length attrs \<le> 65000" and "length mac = 16"
  shows "check_header (closed_packet code i st attrs mac) st = Inr ()"
    and "parse_attributes (drop 8 (closed_packet code i st attrs mac)) = parse_attributes (attrs @ [AT_MAC, 5] @ [0, 0] @ mac)"
    and "closed_packet code i st attrs mac ! 1 = i"
    and "slice_of (closed_packet code i st attrs mac) (12 + length attrs) (28 + length attrs) = mac"
    and "length (closed_packet code i st attrs mac) = 28 + length attrs"
proof -
  let ?p = "closed_packet code i st attrs mac"
  show "check_header ?p st = Inr ()"
    using check_layout [of "28 + length attrs" "attrs @ [AT_MAC, 5, 0, 0] @ mac" code i st 0 0 st] assms
    by (simp add: closed_packet_def)
  show "parse_attributes (drop 8 ?p) = parse_attributes (attrs @ [AT_MAC, 5] @ [0, 0] @ mac)"
    unfolding closed_packet_def drop_layout by simp
  show "?p ! 1 = i" by (simp add: closed_packet_def)
  obtain h where "length h = 12 + length attrs" "\<forall>mac. closed_packet code i st attrs mac = h @ mac"
    using closed_packet_split by blast
  then show "slice_of ?p (12 + length attrs) (28 + length attrs) = mac" "length ?p = 28 + length attrs"
    using assms by (simp_all add: slice_of_def)
qed

lemma parse_closing:
  assumes "length mac = 16"
  shows "parse_attributes ([AT_MAC, 5] @ [0, 0] @ mac) = Inr [\<lparr>attr_type = AT_MAC, attr_value = [0, 0] @ mac\<rparr>]"
  using parse_unpadded [of "[0, 0] @ mac" AT_MAC "[]"] assms by simp

lemma network_challenge_layout:
  fixes b :: bool
  assumes "length r = 16" "length n = 16" "crypto_laws c"
  defines "attrs \<equiv> [AT_RAND, 5, 0, 0] @ r @ [AT_AUTN, 5, 0, 0] @ n @ indication b"
  shows "network_challenge c key i r n b = Inr (closed_packet 1 i EAP_AKA_SUBTYPE_CHALLENGE attrs
    (calculate_mac c key (closed_packet 1 i EAP_AKA_SUBTYPE_CHALLENGE attrs (replicate 16 0)) []))"
proof -
  have small: "length attrs \<le> 65000" using assms by (simp add: indication_def)
  have pushed: "[AT_RAND, 5] @ ([0, 0] @ r) @ [AT_AUTN, 5] @ ([0, 0] @ n) @ indication b = attrs"
    by (simp add: attrs_def)
  show ?thesis
    unfolding network_challenge_def push_indication
    using close_packet [OF small] put_mac_closed [of "replicate 16 0" "calculate_mac c key
        (closed_packet 1 i 1 attrs (replicate 16 0)) []" 1 i 1 attrs] assms(1-3) pushed
    by (simp add: push_18 attrs_def)
qed


definition challenge_attrs :: "bytes \<Rightarrow> bytes \<Rightarrow> bool \<Rightarrow> bytes" where
  "challenge_attrs r n b = [AT_RAND, 5, 0, 0] @ r @ [AT_AUTN, 5, 0, 0] @ n @ indication b"

lemma length_challenge_attrs:
  "length r = 16 \<Longrightarrow> length n = 16 \<Longrightarrow> length (challenge_attrs r n b) = 40 + (if b then 4 else 0)"
  by (simp add: challenge_attrs_def indication_def)

lemma parse_network_challenge:
  fixes i :: u8 and b :: bool
  assumes r: "length r = 16" and n: "length n = 16" and mac: "length mac = 16"
  defines "p \<equiv> closed_packet 1 i EAP_AKA_SUBTYPE_CHALLENGE (challenge_attrs r n b) mac"
  shows "parse_challenge p = Inr \<lparr>challenge_identifier = i, rand = r, autn = n, mac_present = True,
    result_indication = b, challenge_packet = p, mac_offset = Some (12 + length (challenge_attrs r n b))\<rparr>"
proof -
  have small: "length (challenge_attrs r n b) \<le> 65000" using r n by (simp add: length_challenge_attrs)
  note facts = closed_packet_facts [OF small mac, of 1 i EAP_AKA_SUBTYPE_CHALLENGE, folded p_def]
  have "challenge_attrs r n b @ [AT_MAC, 5] @ [0, 0] @ mac =
      [AT_RAND, 5] @ ([0, 0] @ r) @ [AT_AUTN, 5] @ ([0, 0] @ n) @ indication b @ [AT_MAC, 5] @ [0, 0] @ mac"
    by (simp add: challenge_attrs_def)
  then have attrs: "parse_attributes (drop 8 p) = Inr ([\<lparr>attr_type = AT_RAND, attr_value = [0, 0] @ r\<rparr>,
      \<lparr>attr_type = AT_AUTN, attr_value = [0, 0] @ n\<rparr>]
      @ (if b then [\<lparr>attr_type = AT_RESULT_IND, attr_value = [0, 0]\<rparr>] else [])
      @ [\<lparr>attr_type = AT_MAC, attr_value = [0, 0] @ mac\<rparr>])"
    using parse_unpadded [of "[0, 0] @ r" AT_RAND] parse_unpadded [of "[0, 0] @ n" AT_AUTN] r n
    by (simp add: facts(2) parse_indication parse_closing [OF mac, simplified])
  show ?thesis
    using r n mac unfolding parse_challenge_def facts(1) attrs rbind_simps
    by (simp add: challenge_attribute_def extract_reserved_prefixed_value_def length_challenge_attrs
        facts(3) [unfolded One_nat_def])
qed

text \<open>The answer, as the code builds it once the card has answered.\<close>

lemma challenge_response_layout:
  assumes laws: "crypto_laws c" and present: "mac_present ch"
    and aka: "aka_res aka \<noteq> []" "length (aka_res aka) \<le> 128" "length (aka_ck aka) = 16"
      "length (aka_ik aka) = 16" "aka_auts aka = None"
    and ok: "verify_challenge_mac c ch (derive_key_material sha1 identity (aka_ik aka) (aka_ck aka)) = Inr ()"
  defines "keys \<equiv> derive_key_material sha1 identity (aka_ik aka) (aka_ck aka)"
    and "v \<equiv> u16_be (word_of_nat (length (aka_res aka)) * 8) @ aka_res aka"
  defines "attrs \<equiv> [AT_RES, word_of_nat ((2 + length v + pad_len (length v)) div 4)] @ v
      @ replicate (pad_len (length v)) 0 @ indication (result_indication ch)"
  shows "build_challenge_response c sha1 ch identity aka = Inr
      \<lparr>response_packet = closed_packet EAP_CODE_RESPONSE (challenge_identifier ch) EAP_AKA_SUBTYPE_CHALLENGE attrs
         (calculate_mac c (k_aut keys) (closed_packet EAP_CODE_RESPONSE (challenge_identifier ch)
            EAP_AKA_SUBTYPE_CHALLENGE attrs (replicate 16 0)) []), key_material = Some keys\<rparr>"
    and "(2 + length v + pad_len (length v)) div 4 \<le> 255" and "length attrs \<le> 65000"
proof -
  have vlen: "length v \<le> 130" using aka by (simp add: v_def)
  have pad: "pad_len n \<le> 3" for n by (simp add: pad_len_def)
  show units: "(2 + length v + pad_len (length v)) div 4 \<le> 255"
    using vlen pad [of "length v"] by (simp add: div_le_mono)
  show small: "length attrs \<le> 65000"
    using vlen pad [of "length v"] by (simp add: attrs_def indication_def)
  have res: "push_at_res [] (aka_res aka) = Inr ([AT_RES, word_of_nat ((2 + length v + pad_len (length v)) div 4)]
      @ v @ replicate (pad_len (length v)) 0)"
    using aka push_attribute_out [of "[]" AT_RES v] units by (simp add: push_at_res_def v_def)
  have closing: "push_attribute attrs AT_MAC (replicate 18 0) = Inr (attrs @ [AT_MAC, 5] @ replicate 18 0)"
    by (simp add: push_18)
  have pushed: "([AT_RES, word_of_nat ((2 + length v + pad_len (length v)) div 4)] @ v
      @ replicate (pad_len (length v)) 0) @ indication (result_indication ch) = attrs"
    by (simp add: attrs_def)
  have offset: "length attrs + 8 + 4 = 12 + length attrs" by simp
  show "build_challenge_response c sha1 ch identity aka = Inr
      \<lparr>response_packet = closed_packet EAP_CODE_RESPONSE (challenge_identifier ch) EAP_AKA_SUBTYPE_CHALLENGE attrs
         (calculate_mac c (k_aut keys) (closed_packet EAP_CODE_RESPONSE (challenge_identifier ch)
            EAP_AKA_SUBTYPE_CHALLENGE attrs (replicate 16 0)) []), key_material = Some keys\<rparr>"
    using present aka ok put_mac_closed [of "replicate 16 0"] laws
    unfolding build_challenge_response_def Let_def keys_def [symmetric]
    by (simp only: res push_indication rbind_simps pushed closing close_packet [OF small] offset
        put_mac_closed length_replicate length_calculate_mac simp_thms if_False refl not_True_eq_False)
qed


section \<open>Properties\<close>

lemma network_accepted:
  assumes laws: "crypto_laws c" and r: "length r = 16" and n: "length n = 16"
  obtains p where "network_challenge c (k_aut keys) i r n b = Inr p"
    "parse_challenge p = Inr \<lparr>challenge_identifier = i, rand = r, autn = n, mac_present = True,
       result_indication = b, challenge_packet = p, mac_offset = Some (12 + length (challenge_attrs r n b))\<rparr>"
    "verify_challenge_mac c \<lparr>challenge_identifier = i, rand = r, autn = n, mac_present = True,
       result_indication = b, challenge_packet = p, mac_offset = Some (12 + length (challenge_attrs r n b))\<rparr> keys = Inr ()"
proof -
  let ?a = "challenge_attrs r n b"
  let ?q = "closed_packet 1 i EAP_AKA_SUBTYPE_CHALLENGE ?a"
  let ?mac = "calculate_mac c (k_aut keys) (?q (replicate 16 0)) []"
  have small: "length ?a \<le> 65000" using r n by (simp add: length_challenge_attrs)
  have mac: "length ?mac = 16" using laws by simp
  have sent: "network_challenge c (k_aut keys) i r n b = Inr (?q ?mac)"
    using network_challenge_layout [OF r n laws, of "k_aut keys" i b] by (simp add: challenge_attrs_def)
  note facts = closed_packet_facts [OF small mac, of 1 i EAP_AKA_SUBTYPE_CHALLENGE]
  have zeroed: "put_mac (?q ?mac) (12 + length ?a) (replicate 16 0) = ?q (replicate 16 0)"
    by (rule put_mac_closed [OF mac]) simp
  have eq: "12 + length ?a + 16 = 28 + length ?a" by simp
  show thesis
    by (rule that [OF sent parse_network_challenge [OF r n mac]])
       (subst mac_verifies [OF _ _ laws], simp, simp add: facts(5),
        simp only: EapAkaChallenge.select_convs eq facts(4) zeroed)
qed

text \<open>C6: the challenge round of EAP-AKA closes.  A challenge that the network builds over any RAND and
  AUTN under the keys of identity, IK and CK is parsed to that RAND and AUTN and accepted; when the
  card answers with RES, CK and IK, the response carries RES with its bit length, the result
  indication when it was asked for, and a code that verifies under the same key, and the master
  session key is that of the same derivation.\<close>

theorem eap_challenge_answered:
  assumes laws: "crypto_laws c" and "length r = 16" and "length n = 16"
    and "res \<noteq> []" and "length res \<le> 128" and "length ck = 16" and "length ik = 16"
    and keys: "keys = derive_key_material sha1 identity ik ck"
  shows "\<exists>packet ch resp mac.
      network_challenge c (k_aut keys) i r n b = Inr packet
    \<and> parse_challenge packet = Inr ch \<and> rand ch = r \<and> autn ch = n
    \<and> build_challenge_response c sha1 ch identity
        \<lparr>aka_res = res, aka_ck = ck, aka_ik = ik, aka_auts = None\<rparr> = Inr resp
    \<and> msk_for_ike_auth resp = Some (msk keys)
    \<and> parse_attributes (drop 8 (response_packet resp)) = Inr (
        \<lparr>attr_type = AT_RES, attr_value = u16_be (word_of_nat (length res) * 8) @ res
           @ replicate (pad_len (2 + length res)) 0\<rparr>
        # (if b then [\<lparr>attr_type = AT_RESULT_IND, attr_value = [0, 0]\<rparr>] else [])
        @ [\<lparr>attr_type = AT_MAC, attr_value = [0, 0] @ mac\<rparr>])
    \<and> mac = calculate_mac c (k_aut keys) (put_mac (response_packet resp)
        (length (response_packet resp) - 16) (replicate 16 0)) []"
proof -
  let ?aka = "\<lparr>aka_res = res, aka_ck = ck, aka_ik = ik, aka_auts = None\<rparr>"
  let ?v = "u16_be (word_of_nat (length res) * 8) @ res"
  obtain packet where sent: "network_challenge c (k_aut keys) i r n b = Inr packet"
    and parsed: "parse_challenge packet = Inr \<lparr>challenge_identifier = i, rand = r, autn = n, mac_present = True,
       result_indication = b, challenge_packet = packet, mac_offset = Some (12 + length (challenge_attrs r n b))\<rparr>"
    and verified: "verify_challenge_mac c \<lparr>challenge_identifier = i, rand = r, autn = n, mac_present = True,
       result_indication = b, challenge_packet = packet, mac_offset = Some (12 + length (challenge_attrs r n b))\<rparr> keys = Inr ()"
    by (rule network_accepted [OF laws assms(2,3)])
  let ?ch = "\<lparr>challenge_identifier = i, rand = r, autn = n, mac_present = True,
       result_indication = b, challenge_packet = packet, mac_offset = Some (12 + length (challenge_attrs r n b))\<rparr>"
  define attrs where "attrs = [AT_RES, word_of_nat ((2 + length ?v + pad_len (length ?v)) div 4)] @ ?v
      @ replicate (pad_len (length ?v)) 0 @ indication b"
  define mac where "mac = calculate_mac c (k_aut keys) (closed_packet EAP_CODE_RESPONSE i
      EAP_AKA_SUBTYPE_CHALLENGE attrs (replicate 16 0)) []"
  let ?p = "closed_packet EAP_CODE_RESPONSE i EAP_AKA_SUBTYPE_CHALLENGE attrs mac"
  have "mac_present ?ch" "aka_res ?aka \<noteq> []" "length (aka_res ?aka) \<le> 128" "length (aka_ck ?aka) = 16"
      "length (aka_ik ?aka) = 16" "aka_auts ?aka = None"
      "verify_challenge_mac c ?ch (derive_key_material sha1 identity (aka_ik ?aka) (aka_ck ?aka)) = Inr ()"
    using assms verified by simp_all
  note layout = challenge_response_layout [OF laws this]
  have built: "build_challenge_response c sha1 ?ch identity ?aka = Inr \<lparr>response_packet = ?p, key_material = Some keys\<rparr>"
    using layout(1) by (simp add: mac_def attrs_def keys)
  have maclen: "length mac = 16" using laws by (simp add: mac_def)
  have small: "length attrs \<le> 65000" using layout(3) by (simp add: attrs_def)
  note facts = closed_packet_facts [OF small maclen, of EAP_CODE_RESPONSE i EAP_AKA_SUBTYPE_CHALLENGE]
  have "parse_attributes (attrs @ [AT_MAC, 5] @ [0, 0] @ mac) = Inr (\<lparr>attr_type = AT_RES, attr_value = ?v @ replicate (pad_len (length ?v)) 0\<rparr>
      # (if b then [\<lparr>attr_type = AT_RESULT_IND, attr_value = [0, 0]\<rparr>] else [])
      @ [\<lparr>attr_type = AT_MAC, attr_value = [0, 0] @ mac\<rparr>])"
    unfolding attrs_def
    using parse_pushed [of ?v AT_RES "indication b @ [AT_MAC, 5] @ [0, 0] @ mac"] layout(2)
    by (simp add: parse_indication parse_closing [OF maclen, simplified])
  moreover have "put_mac ?p (length ?p - 16) (replicate 16 0)
      = closed_packet EAP_CODE_RESPONSE i EAP_AKA_SUBTYPE_CHALLENGE attrs (replicate 16 0)"
    using put_mac_closed [OF maclen, of "replicate 16 0" EAP_CODE_RESPONSE i EAP_AKA_SUBTYPE_CHALLENGE attrs]
    by (simp add: facts(5))
  ultimately show ?thesis
    using sent parsed built facts(2) by (intro exI [of _ packet] exI [of _ ?ch] exI [of _ "\<lparr>response_packet = ?p, key_material = Some keys\<rparr>"] exI [of _ mac])
      (simp add: msk_for_ike_auth_def mac_def)
qed


theorem eap_challenge_answered_witness:
  "\<exists>packet ch resp. network_challenge sample_crypto
        (k_aut (derive_key_material (\<lambda>m. replicate 20 (foldl (XOR) 0 m)) [0x30] (replicate 16 1) (replicate 16 2)))
        7 (replicate 16 0x11) (replicate 16 0x22) True = Inr packet
    \<and> parse_challenge packet = Inr ch \<and> rand ch = replicate 16 0x11
    \<and> build_challenge_response sample_crypto (\<lambda>m. replicate 20 (foldl (XOR) 0 m)) ch [0x30]
        \<lparr>aka_res = [1, 2, 3], aka_ck = replicate 16 2, aka_ik = replicate 16 1, aka_auts = None\<rparr> = Inr resp"
  using eap_challenge_answered [OF sample_crypto_laws, of "replicate 16 0x11" "replicate 16 0x22" "[1, 2, 3]"
      "replicate 16 2" "replicate 16 1" _ "\<lambda>m. replicate 20 (foldl (XOR) 0 m)" "[0x30]" 7 True, OF _ _ _ _ _ _ refl]
  by auto

text \<open>C39: no answer to a forged challenge.  A response is built only when the challenge's sixteen code
  octets are the HMAC of the packet with those octets zeroed, under the key derived from the
  identity and the card's own IK and CK, and only from a complete, non-empty answer of the card.\<close>

theorem eap_challenge_authentic:
  assumes "crypto_laws c" and "build_challenge_response c sha1 ch identity aka = Inr resp"
  shows "\<exists>n. mac_offset ch = Some n \<and> n + 16 \<le> length (challenge_packet ch)
    \<and> slice_of (challenge_packet ch) n (n + 16) =
        calculate_mac c (k_aut (derive_key_material sha1 identity (aka_ik aka) (aka_ck aka)))
          (put_mac (challenge_packet ch) n (replicate 16 0)) []
    \<and> aka_res aka \<noteq> [] \<and> length (aka_ck aka) = 16 \<and> length (aka_ik aka) = 16 \<and> aka_auts aka = None"
proof -
  let ?keys = "derive_key_material sha1 identity (aka_ik aka) (aka_ck aka)"
  from assms(2) have ok: "verify_challenge_mac c ch ?keys = Inr ()"
    and card: "aka_res aka \<noteq> []" "length (aka_ck aka) = 16" "length (aka_ik aka) = 16" "aka_auts aka = None"
    by (auto simp: build_challenge_response_def Let_def result_simps split: if_split_asm)
  from ok obtain n where n: "mac_offset ch = Some n" "n + 16 \<le> length (challenge_packet ch)"
    by (auto simp: verify_challenge_mac_def Let_def result_simps split: if_split_asm)
  with ok card mac_verifies [OF n assms(1), of ?keys] show ?thesis by blast
qed

theorem eap_challenge_authentic_witness:
  "\<exists>ch resp n. build_challenge_response sample_crypto (\<lambda>m. replicate 20 (foldl (XOR) 0 m)) ch [0x30]
        \<lparr>aka_res = [1, 2, 3], aka_ck = replicate 16 2, aka_ik = replicate 16 1, aka_auts = None\<rparr> = Inr resp
     \<and> mac_offset ch = Some n
     \<and> slice_of (challenge_packet ch) n (n + 16) = calculate_mac sample_crypto (k_aut (derive_key_material
          (\<lambda>m. replicate 20 (foldl (XOR) 0 m)) [0x30] (replicate 16 1) (replicate 16 2)))
          (put_mac (challenge_packet ch) n (replicate 16 0)) []"
proof -
  let ?sha1 = "\<lambda>m. replicate 20 (foldl (XOR) 0 m) :: bytes"
  let ?aka = "\<lparr>aka_res = [1, 2, 3], aka_ck = replicate 16 2, aka_ik = replicate 16 1, aka_auts = None\<rparr>"
  let ?keys = "derive_key_material ?sha1 [0x30] (replicate 16 1) (replicate 16 2)"
  obtain p where verified: "verify_challenge_mac sample_crypto \<lparr>challenge_identifier = 7, rand = replicate 16 1,
      autn = replicate 16 2, mac_present = True, result_indication = False, challenge_packet = p,
      mac_offset = Some (12 + length (challenge_attrs (replicate 16 1) (replicate 16 2) False))\<rparr> ?keys = Inr ()"
    by (rule network_accepted [OF sample_crypto_laws, of "replicate 16 1" "replicate 16 2" ?keys 7 False]) simp_all
  let ?ch = "\<lparr>challenge_identifier = 7, rand = replicate 16 1, autn = replicate 16 2, mac_present = True,
      result_indication = False, challenge_packet = p,
      mac_offset = Some (12 + length (challenge_attrs (replicate 16 1) (replicate 16 2) False))\<rparr>"
  have "mac_present ?ch" "aka_res ?aka \<noteq> []" "length (aka_res ?aka) \<le> 128" "length (aka_ck ?aka) = 16"
      "length (aka_ik ?aka) = 16" "aka_auts ?aka = None"
      "verify_challenge_mac sample_crypto ?ch (derive_key_material ?sha1 [0x30] (aka_ik ?aka) (aka_ck ?aka)) = Inr ()"
    using verified by simp_all
  from challenge_response_layout(1) [OF sample_crypto_laws this]
  obtain resp where built: "build_challenge_response sample_crypto ?sha1 ?ch [0x30] ?aka = Inr resp" by blast
  from eap_challenge_authentic [OF sample_crypto_laws built]
  have "\<exists>n. mac_offset ?ch = Some n \<and> slice_of (challenge_packet ?ch) n (n + 16) =
      calculate_mac sample_crypto (k_aut ?keys) (put_mac (challenge_packet ?ch) n (replicate 16 0)) []"
    by auto
  with built show ?thesis by blast
qed

theorem fips_generator_correct_witness:
  "fips186_2_prf (replicate 20 0) 20 = fips_words (sha1_compress fips_initial (replicate 64 0))"
proof -
  have zeros: "nat_to_be 20 0 = replicate 20 0" "be_to_nat (replicate 20 0) = 0"
    using nat_to_be_to_nat [of "replicate 20 0"] be_to_nat_zeros [of 20 "[]"] by simp_all
  have "replicate 20 (0 :: u8) @ replicate 44 0 = replicate 64 0"
    by (simp flip: replicate_add)
  then show ?thesis
    using fips_generator_correct [of "replicate 20 0" 20 1] by (simp add: Let_def zeros numeral_eq_Suc [of "num.One"])
qed

end
