(* ===== verification/Gsm7.thy ===== *)
theory Gsm7
  imports Rust_Prelude
begin

text \<open>
  The GSM 03.38 seven-bit alphabet of \<open>connectivity/core/sms_codec.rs\<close>: the basic and extension
  tables in both directions, septets of a text, packing septets into octets with and without a
  user data header in front, and unpacking.  A text is the list of its \<open>char\<close> code points.  The
  packing proofs work on single bits: \<open>bitat\<close> reads bit \<open>t\<close> of an octet string, and every operation is
  characterised by the bits it writes or reads.
\<close>

section \<open>Tables\<close>

text \<open>The arms of the four \<open>match\<close> expressions, in order; the range arms are in the functions.\<close>

definition gsm7_basic_char_table :: "(u8 \<times> nat) list" where
  "gsm7_basic_char_table = [(0x00, 64), (0x01, 163), (0x02, 36), (0x03, 165), (0x04, 232),
     (0x05, 233), (0x06, 249), (0x07, 236), (0x08, 242), (0x09, 199), (0x0a, 10), (0x0b, 216),
     (0x0c, 248), (0x0d, 13), (0x0e, 197), (0x0f, 229), (0x10, 916), (0x11, 95), (0x12, 934),
     (0x13, 915), (0x14, 923), (0x15, 937), (0x16, 928), (0x17, 936), (0x18, 931), (0x19, 920),
     (0x1a, 926), (0x1c, 198), (0x1d, 230), (0x1e, 223), (0x1f, 201), (0x40, 161), (0x5b, 196),
     (0x5c, 214), (0x5d, 209), (0x5e, 220), (0x5f, 167), (0x60, 191), (0x7b, 228), (0x7c, 246),
     (0x7d, 241), (0x7e, 252), (0x7f, 224)]"

definition gsm7_basic_value_table :: "(nat \<times> u8) list" where
  "gsm7_basic_value_table = [(64, 0x00), (163, 0x01), (36, 0x02), (165, 0x03), (232, 0x04),
     (233, 0x05), (249, 0x06), (236, 0x07), (242, 0x08), (199, 0x09), (10, 0x0a), (216, 0x0b),
     (248, 0x0c), (13, 0x0d), (197, 0x0e), (229, 0x0f), (916, 0x10), (95, 0x11), (934, 0x12),
     (915, 0x13), (923, 0x14), (937, 0x15), (928, 0x16), (936, 0x17), (931, 0x18), (920, 0x19),
     (926, 0x1a), (198, 0x1c), (230, 0x1d), (223, 0x1e), (201, 0x1f), (161, 0x40), (196, 0x5b),
     (214, 0x5c), (209, 0x5d), (220, 0x5e), (167, 0x5f), (191, 0x60), (228, 0x7b), (246, 0x7c),
     (241, 0x7d), (252, 0x7e), (224, 0x7f)]"

definition gsm7_extension_char_table :: "(u8 \<times> nat) list" where
  "gsm7_extension_char_table = [(0x0a, 12), (0x14, 94), (0x28, 123), (0x29, 125), (0x2f, 92),
     (0x3c, 91), (0x3d, 126), (0x3e, 93), (0x40, 124), (0x65, 8364)]"

definition gsm7_extension_value_table :: "(nat \<times> u8) list" where
  "gsm7_extension_value_table = [(12, 0x0a), (94, 0x14), (123, 0x28), (125, 0x29), (92, 0x2f),
     (91, 0x3c), (126, 0x3d), (93, 0x3e), (124, 0x40), (8364, 0x65)]"

definition in_ranges :: "nat \<Rightarrow> bool" where
  "in_ranges c \<longleftrightarrow> 32 \<le> c \<and> c \<le> 63 \<or> 65 \<le> c \<and> c \<le> 90 \<or> 97 \<le> c \<and> c \<le> 122"

definition gsm7_basic_char :: "u8 \<Rightarrow> nat" where
  "gsm7_basic_char v = (case map_of gsm7_basic_char_table v of
     Some c \<Rightarrow> c
   | None \<Rightarrow> if in_ranges (unat v) then unat v else 32)"

definition gsm7_basic_value :: "nat \<Rightarrow> u8 option" where
  "gsm7_basic_value ch = (case map_of gsm7_basic_value_table ch of
     Some v \<Rightarrow> Some v
   | None \<Rightarrow> if in_ranges ch then Some (word_of_nat ch) else None)"

definition gsm7_extension_char :: "u8 \<Rightarrow> nat option" where
  "gsm7_extension_char v = map_of gsm7_extension_char_table v"

definition gsm7_extension_value :: "nat \<Rightarrow> u8 option" where
  "gsm7_extension_value ch = map_of gsm7_extension_value_table ch"

section \<open>Septets of a text\<close>

fun gsm7_septets :: "ustring \<Rightarrow> u8 list option" where
  "gsm7_septets [] = Some []"
| "gsm7_septets (ch # text) =
     (case gsm7_basic_value ch of
        Some v \<Rightarrow> map_option ((#) v) (gsm7_septets text)
      | None \<Rightarrow> (case gsm7_extension_value ch of
          None \<Rightarrow> None
        | Some v \<Rightarrow> map_option (\<lambda>s. 0x1b # v # s) (gsm7_septets text)))"

section \<open>Packing\<close>

definition write_bit :: "bytes \<Rightarrow> nat \<Rightarrow> bytes" where
  "write_bit out target =
     out[target div 8 := out ! (target div 8) OR push_bit (target mod 8) 1]"

definition write_septet_bit :: "u8 \<Rightarrow> nat \<Rightarrow> bytes \<Rightarrow> nat \<Rightarrow> bytes" where
  "write_septet_bit septet bit_index out b =
     (if septet AND push_bit b 1 = 0 then out else write_bit out (bit_index + b))"

definition write_septet :: "bytes \<Rightarrow> nat \<Rightarrow> u8 \<Rightarrow> bytes" where
  "write_septet out bit_index septet = foldl (write_septet_bit septet bit_index) out [0..<7]"

fun write_septets :: "bytes \<Rightarrow> nat \<Rightarrow> u8 list \<Rightarrow> bytes" where
  "write_septets out bit_index [] = out"
| "write_septets out bit_index (s # ss) =
     write_septets (write_septet out bit_index s) (bit_index + 7) ss"

definition encode_gsm7_user_data :: "ustring \<Rightarrow> (bytes \<times> nat) option" where
  "encode_gsm7_user_data text =
     (case gsm7_septets text of None \<Rightarrow> None
      | Some septets \<Rightarrow>
          Some (write_septets (replicate (div_ceil (length septets * 7) 8) 0) 0 septets,
                length septets))"

definition pack_gsm7_with_udh :: "bytes \<Rightarrow> u8 list \<Rightarrow> bytes" where
  "pack_gsm7_with_udh udh septets =
     (let header_septets = div_ceil (length udh * 8) 7;
          text_bit_offset = header_septets * 7;
          out = replicate (div_ceil (text_bit_offset + length septets * 7) 8) 0;
          out = udh @ drop (length udh) out
      in write_septets out text_bit_offset septets)"

section \<open>Unpacking\<close>

definition septet_at :: "bytes \<Rightarrow> nat \<Rightarrow> u8" where
  "septet_at user_data bit_index =
     (let byte_index = bit_index div 8;
          shift = bit_index mod 8;
          v = drop_bit shift (ucast (user_data ! byte_index) :: u16) AND 0x7f;
          v = (if shift > 1 \<and> byte_index + 1 < length user_data
               then v OR (push_bit (8 - shift) (ucast (user_data ! (byte_index + 1)) :: u16) AND 0x7f)
               else v)
      in ucast v)"

fun decode_septets :: "bool \<Rightarrow> u8 list \<Rightarrow> ustring" where
  "decode_septets escaped [] = []"
| "decode_septets escaped (v # vs) =
     (if escaped then
        (case gsm7_extension_char v of Some ch \<Rightarrow> [ch] | None \<Rightarrow> []) @ decode_septets False vs
      else if v = 0x1b then decode_septets True vs
      else gsm7_basic_char v # decode_septets False vs)"

definition decode_gsm7_text_from_bit_offset :: "bytes \<Rightarrow> nat \<Rightarrow> nat \<Rightarrow> ustring" where
  "decode_gsm7_text_from_bit_offset user_data septet_count bit_offset =
     (let available_bits = length user_data * 8
      in if bit_offset \<ge> available_bits then []
         else
           let max_septets = (available_bits - bit_offset) div 7;
               count = min septet_count max_septets
           in decode_septets False (map (\<lambda>i. septet_at user_data (bit_offset + i * 7)) [0..<count]))"

definition decode_gsm7_text :: "bytes \<Rightarrow> nat \<Rightarrow> ustring" where
  "decode_gsm7_text user_data septet_count =
     decode_gsm7_text_from_bit_offset user_data septet_count 0"

definition decode_gsm7_user_data :: "bytes \<Rightarrow> nat \<Rightarrow> nat \<Rightarrow> ustring" where
  "decode_gsm7_user_data user_data udl_septets header_octets =
     (if header_octets = 0 then decode_gsm7_text user_data udl_septets
      else
        let header_septets = div_ceil (header_octets * 8) 7
        in if udl_septets \<le> header_septets then []
           else decode_gsm7_text_from_bit_offset user_data (udl_septets - header_septets)
                  (header_septets * 7))"

section \<open>The tables are inverse on what can be sent\<close>

lemma basic_table_inverse:
  "list_all (\<lambda>(c, v). gsm7_basic_char v = c \<and> v \<noteq> 0x1b \<and> v < 0x80) gsm7_basic_value_table"
  by (simp add: gsm7_basic_value_table_def gsm7_basic_char_def gsm7_basic_char_table_def in_ranges_def)

lemma extension_table_inverse:
  "list_all (\<lambda>(c, v). gsm7_extension_char v = Some c \<and> v < 0x80) gsm7_extension_value_table"
  by (simp add: gsm7_extension_value_table_def gsm7_extension_char_def
      gsm7_extension_char_table_def)

lemma char_table_outside_ranges: "list_all (\<lambda>(v, c). \<not> in_ranges (unat v)) gsm7_basic_char_table"
  by (simp add: gsm7_basic_char_table_def in_ranges_def)

lemma basic_char_in_ranges: "in_ranges (unat v) \<Longrightarrow> gsm7_basic_char v = unat v"
  using char_table_outside_ranges
  by (auto simp: gsm7_basic_char_def list_all_iff split: option.splits dest!: map_of_SomeD)

lemma gsm7_basic_value_sound:
  assumes "gsm7_basic_value ch = Some v"
  shows "gsm7_basic_char v = ch \<and> v \<noteq> 0x1b \<and> v < 0x80"
proof (cases "map_of gsm7_basic_value_table ch")
  case (Some w)
  then have "(ch, v) \<in> set gsm7_basic_value_table"
    using assms by (auto simp: gsm7_basic_value_def dest: map_of_SomeD)
  then show ?thesis using basic_table_inverse by (auto simp: list_all_iff)
next
  case None
  then have r: "in_ranges ch" and v: "v = word_of_nat ch"
    using assms by (auto simp: gsm7_basic_value_def split: if_splits)
  have u: "unat v = ch" "ch < 128" "ch \<noteq> 27" using r by (auto simp: v in_ranges_def)
  then have "v \<noteq> 0x1b" by auto
  then show ?thesis using u r basic_char_in_ranges [of v] by (simp add: word_less_nat_alt)
qed

lemma gsm7_extension_value_sound:
  assumes "gsm7_extension_value ch = Some v"
  shows "gsm7_extension_char v = Some ch \<and> v < 0x80"
proof -
  have "(ch, v) \<in> set gsm7_extension_value_table"
    using assms by (auto simp: gsm7_extension_value_def dest: map_of_SomeD)
  then show ?thesis using extension_table_inverse by (auto simp: list_all_iff)
qed

lemma gsm7_septets_range: "gsm7_septets t = Some ss \<Longrightarrow> s \<in> set ss \<Longrightarrow> s < 0x80"
  by (induction t arbitrary: ss s)
     (auto split: option.splits dest: gsm7_basic_value_sound gsm7_extension_value_sound)

lemma decode_gsm7_septets: "gsm7_septets t = Some ss \<Longrightarrow> decode_septets False ss = t"
  by (induction t arbitrary: ss)
     (auto split: option.splits dest!: gsm7_basic_value_sound gsm7_extension_value_sound)

section \<open>Bits of an octet string\<close>

definition bitat :: "bytes \<Rightarrow> nat \<Rightarrow> bool" where
  "bitat bs t \<longleftrightarrow> bit (bs ! (t div 8)) (t mod 8)"

lemma length_write_bit [simp]: "length (write_bit out t) = length out"
  by (simp add: write_bit_def)

lemma bitat_write_bit:
  assumes "t < 8 * length out" and "u < 8 * length out"
  shows "bitat (write_bit out t) u \<longleftrightarrow> bitat out u \<or> u = t"
proof (cases "t div 8 = u div 8")
  case True
  have "u = t \<longleftrightarrow> u mod 8 = t mod 8"
    using True by (metis div_mult_mod_eq)
  then show ?thesis using assms True
    by (auto simp: bitat_def write_bit_def bit_or_iff bit_exp_iff)
next
  case False
  then show ?thesis using assms by (auto simp: bitat_def write_bit_def)
qed

lemma write_septet_bit_if:
  "b < 8 \<Longrightarrow> write_septet_bit s i out b = (if bit s b then write_bit out (i + b) else out)"
  by (simp add: write_septet_bit_def and_exp_eq_0_iff_not_bit push_bit_eq_mult)

lemma write_septet_bits:
  assumes "k \<le> 7" and "i + 7 \<le> 8 * length out"
  shows "length (foldl (write_septet_bit s i) out [0..<k]) = length out
    \<and> (\<forall>t < 8 * length out. bitat (foldl (write_septet_bit s i) out [0..<k]) t
        \<longleftrightarrow> bitat out t \<or> (i \<le> t \<and> t < i + k \<and> bit s (t - i)))"
  using assms
proof (induction k)
  case 0
  then show ?case by auto
next
  case (Suc k)
  let ?o = "foldl (write_septet_bit s i) out [0..<k]"
  have IH: "length ?o = length out" "\<And>t. t < 8 * length out \<Longrightarrow> bitat ?o t \<longleftrightarrow> bitat out t
      \<or> (i \<le> t \<and> t < i + k \<and> bit s (t - i))"
    using Suc.IH Suc.prems by auto
  have step: "foldl (write_septet_bit s i) out [0..<Suc k] =
      (if bit s k then write_bit ?o (i + k) else ?o)"
    using Suc.prems by (simp add: write_septet_bit_if)
  have "i + k < 8 * length ?o" using Suc.prems IH(1) by simp
  note upd = bitat_write_bit [OF this]
  have "bitat (if bit s k then write_bit ?o (i + k) else ?o) t \<longleftrightarrow> bitat out t
      \<or> (i \<le> t \<and> t < i + Suc k \<and> bit s (t - i))" if "t < 8 * length out" for t
  proof (cases "t = i + k")
    case True
    then show ?thesis using IH that upd [of t] by auto
  next
    case False
    then have "t < i + Suc k \<longleftrightarrow> t < i + k" by auto
    then show ?thesis using IH that upd [of t] False by auto
  qed
  then show ?case unfolding step using IH(1) by simp
qed

lemma length_write_septet [simp]:
  "i + 7 \<le> 8 * length out \<Longrightarrow> length (write_septet out i s) = length out"
  using write_septet_bits [of 7 i out s] by (simp add: write_septet_def)

lemma bitat_write_septet:
  "i + 7 \<le> 8 * length out \<Longrightarrow> t < 8 * length out \<Longrightarrow>
   bitat (write_septet out i s) t \<longleftrightarrow> bitat out t \<or> (i \<le> t \<and> t < i + 7 \<and> bit s (t - i))"
  using write_septet_bits [of 7 i out s] by (simp add: write_septet_def)

lemma length_write_septets [simp]:
  "i + 7 * length ss \<le> 8 * length out \<Longrightarrow> length (write_septets out i ss) = length out"
  by (induction ss arbitrary: out i) auto

lemma bitat_write_septets:
  "i + 7 * length ss \<le> 8 * length out \<Longrightarrow> t < 8 * length out \<Longrightarrow>
   bitat (write_septets out i ss) t \<longleftrightarrow> bitat out t
     \<or> (i \<le> t \<and> t < i + 7 * length ss \<and> bit (ss ! ((t - i) div 7)) ((t - i) mod 7))"
proof (induction ss arbitrary: out i)
  case Nil
  then show ?case by auto
next
  case (Cons s ss)
  have IH: "bitat (write_septets (write_septet out i s) (i + 7) ss) t \<longleftrightarrow>
      bitat (write_septet out i s) t
      \<or> (i + 7 \<le> t \<and> t < i + 7 + 7 * length ss \<and> bit (ss ! ((t - (i + 7)) div 7)) ((t - (i + 7)) mod 7))"
    using Cons.IH [where out = "write_septet out i s" and i = "i + 7"] Cons.prems by simp
  show ?case
  proof (cases "i + 7 \<le> t")
    case True
    then obtain u where t: "t = i + 7 + u" using le_Suc_ex by blast
    have "(u + 7) div 7 = Suc (u div 7)" "(u + 7) mod 7 = u mod 7" by simp_all
    then have "(t - i) div 7 = Suc (u div 7)" "(t - i) mod 7 = u mod 7" "t - (i + 7) = u"
      by (simp_all add: t add.commute)
    then show ?thesis using IH Cons.prems True
      by (simp add: bitat_write_septet add.assoc)
  next
    case False
    then show ?thesis using IH Cons.prems by (auto simp: bitat_write_septet)
  qed
qed

lemma bitat_replicate [simp]: "t < 8 * n \<Longrightarrow> \<not> bitat (replicate n 0) t"
  by (simp add: bitat_def)

text \<open>Reading back seven bits.\<close>

lemma bit_septet_at:
  assumes "i + 7 \<le> 8 * length d" and "b < 8"
  shows "bit (septet_at d i) b \<longleftrightarrow> b < 7 \<and> bitat d (i + b)"
proof -
  have mask: "bit (127 :: int) n \<longleftrightarrow> n < 7" for n
  proof -
    have e: "(127 :: int) = mask 7" by (simp add: mask_eq_exp_minus_1)
    show ?thesis unfolding e by (auto simp only: bit_mask_iff possible_bit_int)
  qed
  obtain q r where i: "i = 8 * q + r" and r: "r < 8"
    by (metis mod_less_divisor mult_div_mod_eq zero_less_numeral)
  have qr: "i div 8 = q" "i mod 8 = r" using i r by simp_all
  show ?thesis
  proof (cases "r + b < 8")
    case True
    then have "(i + b) div 8 = q" "(i + b) mod 8 = r + b" by (simp_all add: i add.assoc)
    then show ?thesis
      using assms(2) True by (auto simp: septet_at_def Let_def bit_simps mask bitat_def qr)
  next
    case False
    then obtain c where rb: "r + b = 8 + c" and c: "c < 8" using r assms(2) by (metis
        add_less_cancel_left add_less_mono le_Suc_ex not_less)
    then have ib: "(i + b) div 8 = Suc q" "(i + b) mod 8 = c" by (simp_all add: i add.assoc)
    have c': "b - (8 - r) = c" "8 - r \<le> b" using rb r by auto
    have "b < 7 \<Longrightarrow> 1 < r \<and> Suc q < length d" using rb r assms(1) i by linarith
    moreover have "\<not> bit (d ! q) (r + b)" using False bit_imp_le_length by fastforce
    ultimately show ?thesis
      using assms(2) c c' by (auto simp: septet_at_def Let_def bit_simps mask bitat_def qr ib)
  qed
qed

section \<open>Packing and unpacking are inverse\<close>

lemma u8_eqI_bits: "(\<And>b. b < 8 \<Longrightarrow> bit v b = bit w b) \<Longrightarrow> v = (w :: u8)"
  by (rule bit_word_eqI) simp

lemma septet_high_bit: "s < 0x80 \<Longrightarrow> \<not> bit (s :: u8) 7"
proof -
  assume "s < 0x80"
  then have "unat s < 2 ^ 7" by (simp add: word_less_nat_alt)
  then have "\<not> bit (unat s) 7" by (simp add: bit_iff_odd)
  then show ?thesis by (simp add: bit_unsigned_iff)
qed

lemma septet_at_written:
  assumes room: "i + 7 * length ss \<le> 8 * length out"
    and clear: "\<And>t. i \<le> t \<Longrightarrow> t < i + 7 * length ss \<Longrightarrow> \<not> bitat out t"
    and range: "\<And>s. s \<in> set ss \<Longrightarrow> s < 0x80" and k: "k < length ss"
  shows "septet_at (write_septets out i ss) (i + k * 7) = ss ! k"
proof (rule u8_eqI_bits)
  fix b :: nat assume b: "b < 8"
  have fits: "i + k * 7 + 7 \<le> 8 * length (write_septets out i ss)" using room k by simp
  show "bit (septet_at (write_septets out i ss) (i + k * 7)) b = bit (ss ! k) b"
  proof (cases "b < 7")
    case True
    have t: "i + k * 7 + b < i + 7 * length ss" "(k * 7 + b) div 7 = k" "(k * 7 + b) mod 7 = b"
      using True k by (simp_all add: div_mult_self3)
    then have "bitat (write_septets out i ss) (i + k * 7 + b) \<longleftrightarrow> bit (ss ! k) b"
      using room clear [of "i + k * 7 + b"] bitat_write_septets [OF room, of "i + k * 7 + b"]
      by (simp add: add.assoc)
    then show ?thesis using bit_septet_at [OF fits b] True by simp
  next
    case False
    then have "b = 7" using b by simp
    then show ?thesis using bit_septet_at [OF fits b] septet_high_bit [OF range, of "ss ! k"] k by simp
  qed
qed

lemma decode_written:
  assumes "gsm7_septets t = Some ss" and room: "i + 7 * length ss \<le> 8 * length out"
    and clear: "\<And>u. i \<le> u \<Longrightarrow> u < i + 7 * length ss \<Longrightarrow> \<not> bitat out u"
  shows "decode_gsm7_text_from_bit_offset (write_septets out i ss) (length ss) i = t"
proof -
  let ?d = "write_septets out i ss"
  have len: "length ?d = length out" using room by simp
  have vals: "map (\<lambda>k. septet_at ?d (i + k * 7)) [0..<length ss] = ss"
    using septet_at_written [OF room clear gsm7_septets_range [OF assms(1)]]
    by (intro nth_equalityI) simp_all
  show ?thesis
  proof (cases "ss = []")
    case True
    then show ?thesis using decode_gsm7_septets [OF assms(1)]
      by (simp add: decode_gsm7_text_from_bit_offset_def Let_def)
  next
    case False
    then have "i < length out * 8" using room by (cases ss) auto
    moreover have "length ss \<le> (length out * 8 - i) div 7"
      using room by (simp add: less_eq_div_iff_mult_less_eq mult.commute)
    then have "min (length ss) ((length out * 8 - i) div 7) = length ss" by simp
    ultimately show ?thesis
      using decode_gsm7_septets [OF assms(1)] vals
      by (simp add: decode_gsm7_text_from_bit_offset_def Let_def len)
  qed
qed

lemma div_ceil_room: "0 < b \<Longrightarrow> a \<le> b * div_ceil a b"
  using div_ceil_bounds [of b a] by (simp add: mult.commute)

lemma pack_gsm7_with_udh_layout:
  assumes "gsm7_septets t = Some ss"
  shows "take (length udh) (pack_gsm7_with_udh udh ss) = udh"
    and "length (pack_gsm7_with_udh udh ss) = div_ceil (div_ceil (length udh * 8) 7 * 7 + length ss * 7) 8"
    and "decode_gsm7_text_from_bit_offset (pack_gsm7_with_udh udh ss) (length ss)
           (div_ceil (length udh * 8) 7 * 7) = t"
proof -
  define off where "off = div_ceil (length udh * 8) 7 * 7"
  define n where "n = div_ceil (off + length ss * 7) 8"
  define out where "out = udh @ drop (length udh) (replicate n (0 :: u8))"
  have pack: "pack_gsm7_with_udh udh ss = write_septets out off ss"
    by (simp add: pack_gsm7_with_udh_def out_def n_def off_def Let_def)
  have off: "length udh * 8 \<le> off" using div_ceil_room [of 7 "length udh * 8"] by (simp add: off_def)
  have n: "off + length ss * 7 \<le> 8 * n" using div_ceil_room [of 8] by (simp add: n_def)
  then have udh: "length udh \<le> n" using off by linarith
  then have len: "length out = n" by (simp add: out_def)
  have room: "off + 7 * length ss \<le> 8 * length out" using n len by simp
  have clear: "\<not> bitat out u" if "off \<le> u" "u < off + 7 * length ss" for u
  proof -
    have "length udh \<le> u div 8" using that(1) off by (simp add: less_eq_div_iff_mult_less_eq)
    moreover have "u div 8 < n" using that(2) n by (simp add: div_less_iff_less_mult)
    ultimately show ?thesis by (simp add: bitat_def out_def nth_append)
  qed
  show "decode_gsm7_text_from_bit_offset (pack_gsm7_with_udh udh ss) (length ss)
      (div_ceil (length udh * 8) 7 * 7) = t"
    using decode_written [OF assms room clear] by (simp add: pack off_def)
  show "length (pack_gsm7_with_udh udh ss) = div_ceil (div_ceil (length udh * 8) 7 * 7 + length ss * 7) 8"
    using room len by (simp add: pack n_def off_def)
  show "take (length udh) (pack_gsm7_with_udh udh ss) = udh"
  proof (rule nth_equalityI)
    show "length (take (length udh) (pack_gsm7_with_udh udh ss)) = length udh"
      using room len udh by (simp add: pack)
  next
    fix j assume "j < length (take (length udh) (pack_gsm7_with_udh udh ss))"
    then have j: "j < length udh" by simp
    have "write_septets out off ss ! j = out ! j"
    proof (rule u8_eqI_bits)
      fix b :: nat assume b: "b < 8"
      then have jb: "(8 * j + b) div 8 = j" "(8 * j + b) mod 8 = b" by simp_all
      have "8 * j + b < off" using j b off by linarith
      then have "bitat (write_septets out off ss) (8 * j + b) = bitat out (8 * j + b)"
        using bitat_write_septets [OF room, of "8 * j + b"] room by simp
      then show "bit (write_septets out off ss ! j) b = bit (out ! j) b"
        using b by (simp add: bitat_def jb)
    qed
    then show "take (length udh) (pack_gsm7_with_udh udh ss) ! j = udh ! j"
      using j by (simp add: pack out_def nth_append)
  qed
qed

section \<open>Properties\<close>

text \<open>
  Seven-bit round trip.  Whenever a text can be sent in the GSM alphabet, unpacking the packed
  octets with the announced septet count gives back exactly the text, extension characters
  included, and the octets are \<open>ceil(7 n / 8)\<close> for \<open>n\<close> septets.
\<close>

theorem gsm7_round_trip:
  assumes "encode_gsm7_user_data t = Some (octets, n)"
  shows "decode_gsm7_text octets n = t \<and> length octets = div_ceil (7 * n) 8"
proof -
  obtain ss where ss: "gsm7_septets t = Some ss" "n = length ss"
    and octets: "octets = write_septets (replicate (div_ceil (length ss * 7) 8) 0) 0 ss"
    using assms by (auto simp: encode_gsm7_user_data_def split: option.splits)
  have room: "0 + 7 * length ss \<le> 8 * length (replicate (div_ceil (length ss * 7) 8) (0 :: u8))"
    using div_ceil_room [of 8 "length ss * 7"] by simp
  have clear: "\<not> bitat (replicate (div_ceil (length ss * 7) 8) 0) u" if "u < 0 + 7 * length ss" for u
    using that room by (intro bitat_replicate) simp
  from decode_written [OF ss(1) room clear] show ?thesis
    using room by (simp add: octets ss(2) decode_gsm7_text_def mult.commute)
qed

theorem gsm7_round_trip_witness:
  "\<exists>octets n. encode_gsm7_user_data [72, 8364] = Some (octets, n)
     \<and> decode_gsm7_text octets n = [72, 8364] \<and> length octets = div_ceil (7 * n) 8"
proof -
  have "\<exists>octets n. encode_gsm7_user_data [72, 8364] = Some (octets, n)"
    by (simp add: encode_gsm7_user_data_def gsm7_basic_value_def gsm7_basic_value_table_def
        gsm7_extension_value_def gsm7_extension_value_table_def in_ranges_def)
  then show ?thesis using gsm7_round_trip by blast
qed

text \<open>
  Seven-bit text behind a user data header.  Packing a text after any header keeps the header
  octets intact, and the decoder, given the header length and the announced total of header and
  text septets, returns exactly the text.
\<close>

theorem gsm7_round_trip_with_header:
  assumes "gsm7_septets t = Some ss"
  shows "take (length udh) (pack_gsm7_with_udh udh ss) = udh
    \<and> decode_gsm7_user_data (pack_gsm7_with_udh udh ss)
        (div_ceil (length udh * 8) 7 + length ss) (length udh) = t"
proof -
  note layout = pack_gsm7_with_udh_layout [OF assms, of udh]
  have nil: "ss = [] \<Longrightarrow> t = []" using decode_gsm7_septets [OF assms] by simp
  have "decode_gsm7_user_data (pack_gsm7_with_udh udh ss)
      (div_ceil (length udh * 8) 7 + length ss) (length udh) = t"
    using layout(3) nil
    by (cases "udh = []") (auto simp: decode_gsm7_user_data_def decode_gsm7_text_def Let_def
        div_ceil_def [of 0])
  with layout(1) show ?thesis by blast
qed

theorem gsm7_round_trip_with_header_witness:
  "\<exists>ss. gsm7_septets [72, 105] = Some ss
    \<and> decode_gsm7_user_data (pack_gsm7_with_udh [5, 0, 3, 9, 2, 1] ss)
        (div_ceil (length [5, 0, 3, 9, 2, 1 :: u8] * 8) 7 + length ss) (length [5, 0, 3, 9, 2, 1 :: u8])
      = [72, 105]"
proof -
  have "\<exists>ss. gsm7_septets [72, 105] = Some ss"
    by (simp add: gsm7_basic_value_def gsm7_basic_value_table_def in_ranges_def)
  then show ?thesis using gsm7_round_trip_with_header by blast
qed

end
