(* ===== verification/Sms_Text.thy ===== *)
theory Sms_Text
  imports Gsm7
begin

text \<open>
  Texts of short messages in \<open>connectivity/core/sms_codec.rs\<close>: UTF-16 as the standard library
  encodes it (\<open>encode_utf16\<close>, \<open>String::from_utf16\<close>), UCS-2 user data, and the two loops that split a
  long text into parts.  The loops share one definition that takes the width of a character.
\<close>

datatype SmsEncodingError = EmptyRecipient | EmptyText | InvalidAddress | TextTooLong | BodyTooLong

section \<open>UTF-16\<close>

definition is_char :: "nat \<Rightarrow> bool" where
  "is_char c \<longleftrightarrow> c < 0x110000 \<and> \<not> (0xD800 \<le> c \<and> c \<le> 0xDFFF)"

definition len_utf16 :: "nat \<Rightarrow> nat" where
  "len_utf16 c = (if c < 0x10000 then 1 else 2)"

definition encode_utf16_char :: "nat \<Rightarrow> u16 list" where
  "encode_utf16_char c =
     (if c < 0x10000 then [word_of_nat c]
      else [word_of_nat (0xD800 + (c - 0x10000) div 1024), word_of_nat (0xDC00 + (c - 0x10000) mod 1024)])"

definition encode_utf16 :: "ustring \<Rightarrow> u16 list" where
  "encode_utf16 t = concat (map encode_utf16_char t)"

fun from_utf16 :: "u16 list \<Rightarrow> ustring option" where
  "from_utf16 [] = Some []"
| "from_utf16 (u # units) =
     (if unat u < 0xD800 \<or> 0xDFFF < unat u then map_option ((#) (unat u)) (from_utf16 units)
      else if 0xDC00 \<le> unat u then None
      else (case units of
          [] \<Rightarrow> None
        | v # vs \<Rightarrow>
            if 0xDC00 \<le> unat v \<and> unat v \<le> 0xDFFF
            then map_option ((#) (0x10000 + (unat u - 0xD800) * 1024 + (unat v - 0xDC00)))
                   (from_utf16 vs)
            else None))"

lemma length_encode_utf16_char [simp]: "length (encode_utf16_char c) = len_utf16 c"
  by (simp add: encode_utf16_char_def len_utf16_def)

lemma encode_utf16_simps [simp]:
  "encode_utf16 [] = []" "encode_utf16 (c # t) = encode_utf16_char c @ encode_utf16 t"
  by (simp_all add: encode_utf16_def)

lemma length_encode_utf16: "length (encode_utf16 t) = sum_list (map len_utf16 t)"
  by (induction t) simp_all

lemma from_utf16_char:
  assumes "is_char c"
  shows "from_utf16 (encode_utf16_char c @ units) = map_option ((#) c) (from_utf16 units)"
proof (cases "c < 0x10000")
  case True
  then show ?thesis using assms by (auto simp: encode_utf16_char_def is_char_def)
next
  case False
  define d where "d = c - 0x10000"
  have d: "c = 0x10000 + d" "d < 0x100000" using False assms by (auto simp: d_def is_char_def)
  have hi: "d div 1024 < 1024" using d(2) by (simp add: div_less_iff_less_mult)
  have u: "unat (word_of_nat (0xD800 + d div 1024) :: u16) = 0xD800 + d div 1024"
    "unat (word_of_nat (0xDC00 + d mod 1024) :: u16) = 0xDC00 + d mod 1024"
    using hi mod_less_divisor [of 1024 d] by (simp_all add: less_imp_le del: of_nat_add)
  have "0x10000 + d div 1024 * 1024 + d mod 1024 = c" using d(1) by simp
  then show ?thesis
    using False hi mod_less_divisor [of 1024 d]
    by (auto simp: encode_utf16_char_def d_def [symmetric] u simp del: of_nat_add)
qed

lemma from_encode_utf16: "list_all is_char t \<Longrightarrow> from_utf16 (encode_utf16 t) = Some t"
  by (induction t) (simp_all add: from_utf16_char)

section \<open>UCS-2 user data\<close>

definition units_to_be :: "u16 list \<Rightarrow> bytes" where
  "units_to_be units = concat (map u16_be units)"

fun chunks2 :: "bytes \<Rightarrow> u16 list" where
  "chunks2 (a # b # rest) = u16_from_be [a, b] # chunks2 rest"
| "chunks2 _ = []"

definition encode_ucs2_user_data :: "ustring \<Rightarrow> SmsEncodingError + bytes" where
  "encode_ucs2_user_data t =
     (let units = encode_utf16 t
      in if units = [] then Inl EmptyText
         else if length units > 70 then Inl TextTooLong
         else Inr (units_to_be units))"

definition decode_ucs2_text :: "bytes \<Rightarrow> nat \<Rightarrow> SmsEncodingError + ustring" where
  "decode_ucs2_text user_data octets =
     (let len = min (length user_data) octets
      in if len mod 2 \<noteq> 0 then Inl BodyTooLong
         else ok_or (from_utf16 (chunks2 (take len user_data))) BodyTooLong)"

lemma length_units_to_be [simp]: "length (units_to_be units) = 2 * length units"
  by (induction units) (simp_all add: units_to_be_def)

lemma chunks2_units: "chunks2 (units_to_be units) = units"
proof (induction units)
  case Nil
  then show ?case by (simp add: units_to_be_def)
next
  case (Cons u units)
  obtain a b where ab: "u16_be u = [a, b]" using u16_be_Cons by blast
  then have "u16_from_be [a, b] = u" using be16.from_to_be [of u] by simp
  with Cons ab show ?case by (simp add: units_to_be_def)
qed

lemma decode_ucs2_units:
  "list_all is_char t \<Longrightarrow> n = length (units_to_be (encode_utf16 t)) \<Longrightarrow>
   decode_ucs2_text (units_to_be (encode_utf16 t)) n = Inr t"
  by (simp add: decode_ucs2_text_def Let_def chunks2_units from_encode_utf16)

section \<open>Splitting\<close>

text \<open>The loop of \<open>split_gsm7_text\<close> and \<open>split_ucs2_text\<close>; \<open>width\<close> is \<open>None\<close> where the first returns its
  error.\<close>

fun split_loop :: "(nat \<Rightarrow> nat option) \<Rightarrow> nat \<Rightarrow> ustring list \<Rightarrow> ustring \<Rightarrow> nat \<Rightarrow> ustring
    \<Rightarrow> SmsEncodingError + ustring list" where
  "split_loop width limit parts current used [] =
     Inr (if current \<noteq> [] then parts @ [current] else parts)"
| "split_loop width limit parts current used (ch # rest) =
     (case width ch of None \<Rightarrow> Inl TextTooLong
      | Some w \<Rightarrow>
          if used + w > limit \<and> current \<noteq> []
          then split_loop width limit (parts @ [current]) [ch] w rest
          else split_loop width limit parts (current @ [ch]) (used + w) rest)"

definition gsm7_width :: "nat \<Rightarrow> nat option" where
  "gsm7_width ch = (if gsm7_basic_value ch \<noteq> None then Some 1
     else if gsm7_extension_value ch \<noteq> None then Some 2 else None)"

definition split_gsm7_text :: "ustring \<Rightarrow> nat \<Rightarrow> SmsEncodingError + ustring list" where
  "split_gsm7_text t max_septets = split_loop gsm7_width max_septets [] [] 0 t"

definition split_ucs2_text :: "ustring \<Rightarrow> nat \<Rightarrow> SmsEncodingError + ustring list" where
  "split_ucs2_text t max_units = split_loop (\<lambda>ch. Some (len_utf16 ch)) max_units [] [] 0 t"

text \<open>The contract of a splitter, for any character width: the parts are a partition of the text
  into non-empty pieces, none wider than the limit, and as few as a left-to-right cut allows
  (a part plus the first character of the next one would not fit).\<close>

definition text_width :: "(nat \<Rightarrow> nat option) \<Rightarrow> ustring \<Rightarrow> nat" where
  "text_width width t = sum_list (map (\<lambda>c. the (width c)) t)"

lemma text_width_append [simp]:
  "text_width width [] = 0"
  "text_width width (s @ t) = text_width width s + text_width width t"
  "text_width width (c # t) = the (width c) + text_width width t"
  by (simp_all add: text_width_def)

fun greedy_cut :: "(nat \<Rightarrow> nat option) \<Rightarrow> nat \<Rightarrow> ustring list \<Rightarrow> bool" where
  "greedy_cut width limit (p # q # ps) \<longleftrightarrow>
     q \<noteq> [] \<and> limit < text_width width (p @ [hd q]) \<and> greedy_cut width limit (q # ps)"
| "greedy_cut width limit _ \<longleftrightarrow> True"

locale char_width =
  fixes width :: "nat \<Rightarrow> nat option" and limit :: nat
  assumes width_pos: "width c = Some w \<Longrightarrow> 0 < w"
    and width_fits: "width c = Some w \<Longrightarrow> w \<le> limit"
begin

lemma greedy_cut_snoc:
  "greedy_cut width limit (ps @ [p]) \<Longrightarrow> q \<noteq> [] \<Longrightarrow> limit < text_width width (p @ [hd q]) \<Longrightarrow>
   greedy_cut width limit (ps @ [p, q])"
proof (induction ps)
  case Nil
  then show ?case by simp
next
  case (Cons r ps)
  then show ?case by (cases ps) auto
qed

lemma greedy_cut_extend:
  "greedy_cut width limit (ps @ [p]) \<Longrightarrow> p \<noteq> [] \<Longrightarrow> greedy_cut width limit (ps @ [p @ [c]])"
proof (induction ps)
  case Nil
  then show ?case by simp
next
  case (Cons r ps)
  then show ?case by (cases ps) auto
qed

lemma split_loop_partition:
  assumes "split_loop width limit parts current used t = Inr out"
    and "used = text_width width current" and "used \<le> limit"
    and "\<forall>p \<in> set parts. p \<noteq> [] \<and> text_width width p \<le> limit"
    and "current = [] \<longrightarrow> parts = []"
    and "greedy_cut width limit (parts @ [current])"
  shows "concat out = concat parts @ current @ t
    \<and> (\<forall>p \<in> set out. p \<noteq> [] \<and> text_width width p \<le> limit) \<and> greedy_cut width limit out"
  using assms
proof (induction t arbitrary: parts current used)
  case Nil
  then show ?case by (auto split: if_splits)
next
  case (Cons ch rest)
  obtain w where w: "width ch = Some w" using Cons.prems(1) by (cases "width ch") auto
  have fit: "0 < w" "w \<le> limit" using width_pos [OF w] width_fits [OF w] by auto
  show ?case
  proof (cases "used + w > limit \<and> current \<noteq> []")
    case True
    have "greedy_cut width limit ((parts @ [current]) @ [[ch]])"
      using greedy_cut_snoc [of parts current "[ch]"] Cons.prems(2,6) True w by simp
    moreover have "split_loop width limit (parts @ [current]) [ch] w rest = Inr out"
      using Cons.prems(1) True w by simp
    ultimately have "concat out = concat (parts @ [current]) @ [ch] @ rest
        \<and> (\<forall>p \<in> set out. p \<noteq> [] \<and> text_width width p \<le> limit) \<and> greedy_cut width limit out"
      using Cons.prems(2-4) True w fit by (intro Cons.IH [where used = w]) simp_all
    then show ?thesis by simp
  next
    case False
    have "greedy_cut width limit (parts @ [current @ [ch]])"
      using greedy_cut_extend [of parts current ch] Cons.prems(5,6) by (cases "current = []") auto
    moreover have "split_loop width limit parts (current @ [ch]) (used + w) rest = Inr out"
      using Cons.prems(1) False w by (simp only: split_loop.simps option.case if_False)
    moreover have "used + w \<le> limit" using False fit Cons.prems(2) by (cases "current = []") auto
    ultimately have "concat out = concat parts @ (current @ [ch]) @ rest
        \<and> (\<forall>p \<in> set out. p \<noteq> [] \<and> text_width width p \<le> limit) \<and> greedy_cut width limit out"
      using Cons.prems(2,4) w by (intro Cons.IH [where used = "used + w"]) simp_all
    then show ?thesis by simp
  qed
qed

lemma split_partition:
  "split_loop width limit [] [] 0 t = Inr out \<Longrightarrow>
   concat out = t \<and> (\<forall>p \<in> set out. p \<noteq> [] \<and> text_width width p \<le> limit)
   \<and> greedy_cut width limit out"
  using split_loop_partition [of "[]" "[]" 0 t out] by simp

lemma split_total: "(\<forall>c \<in> set t. width c \<noteq> None) \<Longrightarrow> \<exists>out. split_loop width limit parts current used t = Inr out"
  by (induction t arbitrary: parts current used) auto

end

interpretation septets: char_width gsm7_width 153
  by unfold_locales (auto simp: gsm7_width_def split: if_splits)

interpretation units67: char_width "\<lambda>ch. Some (len_utf16 ch)" 67
  by unfold_locales (auto simp: len_utf16_def split: if_splits)

lemma gsm7_width_cases:
  "gsm7_basic_value c = Some v \<Longrightarrow> gsm7_width c = Some 1"
  "gsm7_basic_value c = None \<Longrightarrow> gsm7_extension_value c = Some v \<Longrightarrow> gsm7_width c = Some 2"
  by (simp_all add: gsm7_width_def)

lemma gsm7_width_septets:
  "gsm7_septets t = Some ss \<Longrightarrow> text_width gsm7_width t = length ss \<and> (\<forall>c \<in> set t. gsm7_width c \<noteq> None)"
  by (induction t arbitrary: ss) (fastforce simp: gsm7_width_cases split: option.splits)+

lemma gsm7_septets_append:
  "gsm7_septets (s @ t) = (case gsm7_septets s of None \<Rightarrow> None
     | Some a \<Rightarrow> map_option ((@) a) (gsm7_septets t))"
  by (induction s; cases "gsm7_septets t") (auto split: option.splits)

lemma gsm7_septets_concat:
  "gsm7_septets (concat ps) = Some ss \<Longrightarrow> p \<in> set ps \<Longrightarrow> \<exists>a. gsm7_septets p = Some a"
  by (induction ps arbitrary: ss) (auto simp: gsm7_septets_append split: option.splits)

lemma text_width_utf16: "text_width (\<lambda>ch. Some (len_utf16 ch)) t = length (encode_utf16 t)"
  by (simp add: text_width_def length_encode_utf16)

section \<open>Properties\<close>

text \<open>
  C32: Splitting for concatenated messages.  A text in the GSM alphabet always splits into parts of
  at most 153 septets, any other text into parts of at most 67 UTF-16 units; in both cases the
  parts are non-empty, their concatenation is the text (nothing lost, doubled or reordered, no
  escape pair and no surrogate pair cut), and no part could have taken one more character.
\<close>

theorem split_text_partition:
  "(\<exists>ps. split_gsm7_text t 153 = Inr ps \<and> concat ps = t \<and> greedy_cut gsm7_width 153 ps
      \<and> list_all (\<lambda>p. p \<noteq> [] \<and> (case gsm7_septets p of None \<Rightarrow> False | Some ss \<Rightarrow> length ss \<le> 153)) ps
    \<or> gsm7_septets t = None)
   \<and> (\<exists>ps. split_ucs2_text t 67 = Inr ps \<and> concat ps = t
      \<and> greedy_cut (\<lambda>ch. Some (len_utf16 ch)) 67 ps
      \<and> list_all (\<lambda>p. p \<noteq> [] \<and> length (encode_utf16 p) \<le> 67) ps)"
proof
  show "\<exists>ps. split_gsm7_text t 153 = Inr ps \<and> concat ps = t \<and> greedy_cut gsm7_width 153 ps
      \<and> list_all (\<lambda>p. p \<noteq> [] \<and> (case gsm7_septets p of None \<Rightarrow> False | Some ss \<Rightarrow> length ss \<le> 153)) ps
    \<or> gsm7_septets t = None"
  proof (cases "gsm7_septets t")
    case (Some ss)
    then obtain ps where ps: "split_loop gsm7_width 153 [] [] 0 t = Inr ps"
      using septets.split_total [of t] gsm7_width_septets by blast
    note part = septets.split_partition [OF ps]
    have "case gsm7_septets p of None \<Rightarrow> False | Some a \<Rightarrow> length a \<le> 153" if "p \<in> set ps" for p
      using gsm7_septets_concat [of ps ss p] gsm7_width_septets [of p] part Some that by force
    then show ?thesis using ps part by (auto simp: split_gsm7_text_def list_all_iff)
  qed simp
  obtain qs where qs: "split_loop (\<lambda>ch. Some (len_utf16 ch)) 67 [] [] 0 t = Inr qs"
    using units67.split_total [of t] by blast
  from units67.split_partition [OF qs] qs
  show "\<exists>ps. split_ucs2_text t 67 = Inr ps \<and> concat ps = t
      \<and> greedy_cut (\<lambda>ch. Some (len_utf16 ch)) 67 ps
      \<and> list_all (\<lambda>p. p \<noteq> [] \<and> length (encode_utf16 p) \<le> 67) ps"
    by (auto simp: split_ucs2_text_def list_all_iff text_width_utf16)
qed

text \<open>
  UCS-2 round trip.  Every text of Unicode scalar values that fits one message (70 UTF-16
  units) decodes back from its user data octet for octet; characters beyond the basic plane travel
  as surrogate pairs.
\<close>

theorem ucs2_round_trip:
  assumes "encode_ucs2_user_data t = Inr octets" and "list_all is_char t"
  shows "decode_ucs2_text octets (length octets) = Inr t \<and> length octets \<le> 140"
  using assms decode_ucs2_units [OF assms(2) refl]
  by (auto simp: encode_ucs2_user_data_def Let_def split: if_splits)

theorem ucs2_round_trip_witness:
  "\<exists>octets. encode_ucs2_user_data [0x4F60, 0x1F600] = Inr octets
    \<and> decode_ucs2_text octets (length octets) = Inr [0x4F60, 0x1F600]"
proof -
  have "\<exists>octets. encode_ucs2_user_data [0x4F60, 0x1F600] = Inr octets"
    by (simp add: encode_ucs2_user_data_def encode_utf16_char_def)
  then show ?thesis using ucs2_round_trip [of "[0x4F60, 0x1F600]"] by (auto simp: is_char_def)
qed

end
