(* ===== verification/Sms_Address.thy ===== *)
theory Sms_Address
  imports Sms_Text
begin

text \<open>
  Telephone addresses in \<open>connectivity/core/sms_codec.rs\<close>: normalising what the user typed, packing
  digits into semi-octets, and reading an address field of a received message back.
\<close>

section \<open>Whitespace\<close>

text \<open>\<open>char::is_whitespace\<close> and \<open>str::trim\<close>.\<close>

definition is_whitespace :: "nat \<Rightarrow> bool" where
  "is_whitespace c \<longleftrightarrow> 9 \<le> c \<and> c \<le> 13 \<or> c = 0x20 \<or> c = 0x85 \<or> c = 0xA0 \<or> c = 0x1680
     \<or> 0x2000 \<le> c \<and> c \<le> 0x200A \<or> c = 0x2028 \<or> c = 0x2029 \<or> c = 0x202F \<or> c = 0x205F \<or> c = 0x3000"

definition str_trim :: "ustring \<Rightarrow> ustring" where
  "str_trim s = rev (dropWhile is_whitespace (rev (dropWhile is_whitespace s)))"

section \<open>Encoding\<close>

record NormalizedAddressDigits =
  digits :: ustring
  international :: bool

fun normalize_loop :: "nat \<Rightarrow> ustring \<Rightarrow> bool \<Rightarrow> ustring \<Rightarrow> SmsEncodingError + NormalizedAddressDigits" where
  "normalize_loop index ds intl [] = Inr \<lparr>digits = ds, international = intl\<rparr>"
| "normalize_loop index ds intl (ch # rest) =
     (if ch = 43 \<and> index = 0 then normalize_loop (index + 1) ds True rest
      else if 48 \<le> ch \<and> ch \<le> 57 then normalize_loop (index + 1) (ds @ [ch]) intl rest
      else if ch = 32 \<or> ch = 45 \<or> ch = 40 \<or> ch = 41 then normalize_loop (index + 1) ds intl rest
      else Inl InvalidAddress)"

definition normalized_address_digits :: "ustring \<Rightarrow> SmsEncodingError + NormalizedAddressDigits" where
  "normalized_address_digits address =
     rbind (normalize_loop 0 [] False (str_trim address)) (\<lambda>n.
       if digits n = [] \<or> length (digits n) > 20 then Inl InvalidAddress else Inr n)"

fun encode_semi_octets :: "ustring \<Rightarrow> bytes" where
  "encode_semi_octets [] = []"
| "encode_semi_octets [a] = [word_of_nat (a - 48) OR push_bit 4 0x0f]"
| "encode_semi_octets (a # b # rest) =
     (word_of_nat (a - 48) OR push_bit 4 (word_of_nat (b - 48))) # encode_semi_octets rest"

definition encode_address_value :: "ustring \<Rightarrow> SmsEncodingError + bytes" where
  "encode_address_value address =
     rbind (normalized_address_digits address) (\<lambda>n.
       Inr ((if international n then 0x91 else 0x81) # encode_semi_octets (digits n)))"

section \<open>Decoding\<close>

definition address_value_octets :: "nat \<Rightarrow> nat" where
  "address_value_octets n = div_ceil n 2"

definition address_type_is_alphanumeric :: "u8 \<Rightarrow> bool" where
  "address_type_is_alphanumeric ton_npi \<longleftrightarrow> ton_npi AND 0x70 = 0x50"

definition address_type_is_international :: "u8 \<Rightarrow> bool" where
  "address_type_is_international ton_npi \<longleftrightarrow> ton_npi AND 0x70 = 0x10"

definition nibble_char :: "u8 \<Rightarrow> nat" where
  "nibble_char nibble = (if nibble \<le> 9 then 48 + unat nibble
     else if nibble = 0x0a then 42 else if nibble = 0x0b then 35 else if nibble = 0x0c then 97
     else if nibble = 0x0d then 98 else if nibble = 0x0e then 99 else 32)"

definition push_nibble :: "nat \<Rightarrow> ustring \<Rightarrow> u8 \<Rightarrow> ustring" where
  "push_nibble n out nibble =
     (if length (dropWhile (\<lambda>c. c = 43) out) \<ge> n \<or> nibble = 0x0f then out
      else out @ [nibble_char nibble])"

definition decode_address_value :: "u8 \<Rightarrow> bytes \<Rightarrow> nat \<Rightarrow> ustring" where
  "decode_address_value ton_npi val n =
     (if address_type_is_alphanumeric ton_npi then decode_gsm7_text val (n * 4 div 7)
      else foldl (\<lambda>out byte. push_nibble n (push_nibble n out (byte AND 0x0f)) (drop_bit 4 byte))
             (if address_type_is_international ton_npi then [43] else []) val)"

section \<open>Round trip\<close>

lemma normalize_loop_digits:
  "normalize_loop i ds intl s = Inr n \<Longrightarrow> list_all (\<lambda>c. 48 \<le> c \<and> c \<le> 57) ds \<Longrightarrow>
   list_all (\<lambda>c. 48 \<le> c \<and> c \<le> 57) (digits n)"
  by (induction i ds intl s rule: normalize_loop.induct) (auto split: if_splits)

lemma normalized_digits:
  assumes "normalized_address_digits a = Inr n"
  shows "list_all (\<lambda>c. 48 \<le> c \<and> c \<le> 57) (digits n) \<and> digits n \<noteq> [] \<and> length (digits n) \<le> 20"
  using assms normalize_loop_digits [of 0 "[]" False "str_trim a" n]
  by (auto simp: normalized_address_digits_def result_simps split: if_splits)

lemma length_encode_semi_octets: "length (encode_semi_octets ds) = div_ceil (length ds) 2"
  by (induction ds rule: encode_semi_octets.induct) (auto simp: div_ceil_def)

lemma nibbles_of_octet:
  assumes "l \<le> 15" and "h \<le> 15"
  shows "(word_of_nat l OR push_bit 4 (word_of_nat h)) AND 0x0f = (word_of_nat l :: u8)"
    and "drop_bit 4 (word_of_nat l OR push_bit 4 (word_of_nat h)) = (word_of_nat h :: u8)"
proof -
  have "\<forall>l \<in> {..15}. \<forall>h \<in> {..15}. (word_of_nat l OR push_bit 4 (word_of_nat h)) AND 0x0f = (word_of_nat l :: u8)
    \<and> drop_bit 4 (word_of_nat l OR push_bit 4 (word_of_nat h)) = (word_of_nat h :: u8)"
    by code_simp
  then show "(word_of_nat l OR push_bit 4 (word_of_nat h)) AND 0x0f = (word_of_nat l :: u8)"
    and "drop_bit 4 (word_of_nat l OR push_bit 4 (word_of_nat h)) = (word_of_nat h :: u8)"
    using assms by auto
qed

lemma push_digit:
  assumes "pre = [] \<or> pre = [43]" and "list_all (\<lambda>c. 48 \<le> c \<and> c \<le> 57) seen"
    and "length seen < n" and "48 \<le> c" and "c \<le> 57"
  shows "push_nibble n (pre @ seen) (word_of_nat (c - 48)) = pre @ seen @ [c]"
proof -
  have "dropWhile (\<lambda>c. c = 43) (pre @ seen) = seen"
    using assms(1,2) by (cases seen) auto
  moreover obtain d where c: "c = 48 + d" "d \<le> 9" using assms(4,5) le_Suc_ex by fastforce
  moreover have "(word_of_nat d :: u8) \<le> 9" using c(2) by (simp add: word_le_nat_alt)
  moreover then have "(word_of_nat d :: u8) \<noteq> 0x0f" by auto
  ultimately show ?thesis using assms(3) c(2) by (simp add: push_nibble_def nibble_char_def)
qed

lemma push_filler:
  "push_nibble n out 0x0f = out"
  by (simp add: push_nibble_def)

lemma decode_semi_octets:
  assumes "pre = [] \<or> pre = [43]" and "list_all (\<lambda>c. 48 \<le> c \<and> c \<le> 57) seen"
    and "list_all (\<lambda>c. 48 \<le> c \<and> c \<le> 57) ds" and "n = length seen + length ds"
  shows "foldl (\<lambda>out byte. push_nibble n (push_nibble n out (byte AND 0x0f)) (drop_bit 4 byte))
    (pre @ seen) (encode_semi_octets ds) = pre @ seen @ ds"
  using assms
proof (induction ds arbitrary: seen rule: encode_semi_octets.induct)
  case 1
  then show ?case by simp
next
  case (2 a)
  have f: "(word_of_nat 15 :: u8) = 0x0f" by simp
  have "push_nibble n (pre @ seen) (word_of_nat (a - 48)) = pre @ seen @ [a]"
    using "2.prems" by (intro push_digit) auto
  moreover obtain d where a: "a = 48 + d" "d \<le> 9" using "2.prems"(3) le_Suc_ex by fastforce
  moreover have "d \<le> 15" using a(2) by simp
  note nibbles_of_octet [OF this order_refl, unfolded f]
  ultimately show ?case using push_filler by simp
next
  case (3 a b rest)
  have "push_nibble n (pre @ seen) (word_of_nat (a - 48)) = pre @ seen @ [a]"
    using "3.prems" by (intro push_digit) auto
  moreover have "push_nibble n (pre @ (seen @ [a])) (word_of_nat (b - 48)) = pre @ (seen @ [a]) @ [b]"
    using "3.prems" by (intro push_digit) auto
  moreover have "foldl (\<lambda>out byte. push_nibble n (push_nibble n out (byte AND 0x0f)) (drop_bit 4 byte))
      (pre @ (seen @ [a, b])) (encode_semi_octets rest) = pre @ (seen @ [a, b]) @ rest"
    using "3.prems" by (intro "3.IH") auto
  moreover have "a - 48 \<le> 15" "b - 48 \<le> 15" using "3.prems"(3) by auto
  note nibbles_of_octet [OF this]
  ultimately show ?case by (simp only: encode_semi_octets.simps foldl_Cons append_assoc append_Cons append_Nil)
qed

section \<open>Properties\<close>

text \<open>
  Address round trip.  For every address the encoder accepts, reading the encoded type octet
  and semi-octets back with the announced number of digits gives the digits in order, with a
  leading \<open>+\<close> exactly when the address was international; the field is at most 11 octets.
\<close>

theorem address_round_trip:
  assumes "normalized_address_digits address = Inr n" and "encode_address_value address = Inr field"
  shows "decode_address_value (hd field) (tl field) (length (digits n))
      = (if international n then [43] else []) @ digits n
    \<and> length field = 1 + address_value_octets (length (digits n)) \<and> length field \<le> 11"
proof -
  note ok = normalized_digits [OF assms(1)]
  have field: "field = (if international n then 0x91 else 0x81) # encode_semi_octets (digits n)"
    using assms by (simp add: encode_address_value_def)
  have ton: "\<not> address_type_is_alphanumeric 0x91" "\<not> address_type_is_alphanumeric 0x81"
    "address_type_is_international 0x91" "\<not> address_type_is_international 0x81"
    by (simp_all add: address_type_is_alphanumeric_def address_type_is_international_def)
  have len: "length field = 1 + address_value_octets (length (digits n))"
    by (simp add: field length_encode_semi_octets address_value_octets_def)
  moreover have "address_value_octets (length (digits n)) \<le> 10"
    using ok div_ceil_bounds [of 2 "length (digits n)"]
    by (simp add: address_value_octets_def)
  moreover have "decode_address_value (hd field) (tl field) (length (digits n))
      = (if international n then [43] else []) @ digits n"
    using decode_semi_octets [of "[43]" "[]" "digits n"] decode_semi_octets [of "[]" "[]" "digits n"]
      ok ton by (simp add: field decode_address_value_def)
  ultimately show ?thesis by linarith
qed

theorem address_round_trip_witness:
  "\<exists>n field. normalized_address_digits (us ''+44 7700'') = Inr n
     \<and> encode_address_value (us ''+44 7700'') = Inr field
     \<and> decode_address_value (hd field) (tl field) (length (digits n)) = us ''+447700''"
proof -
  have n: "normalized_address_digits (us ''+44 7700'') =
      Inr \<lparr>digits = us ''447700'', international = True\<rparr>"
    by (simp add: normalized_address_digits_def us_def str_trim_def is_whitespace_def)
  then obtain field where f: "encode_address_value (us ''+44 7700'') = Inr field"
    by (simp add: encode_address_value_def)
  from address_round_trip [OF n f] n f show ?thesis by (simp add: us_def)
qed

end
