(* ===== verification/Sms_Deliver.thy ===== *)
theory Sms_Deliver
  imports Sms_Address
begin

text \<open>
  Received short messages in \<open>connectivity/core/sms_codec.rs\<close>: RP-DATA and RP-ACK, SMS-DELIVER and
  SMS-STATUS-REPORT transfer units, user data headers with their concatenation elements, the data
  coding scheme, and the stricter wrapper for PDUs a modem delivers.  The calendar arithmetic of
  the service centre time stamp is \<open>chrono\<close>'s: the parameter \<open>rfc3339\<close> takes the UTC offset in seconds
  and the six date and time fields and gives the UTC text, \<open>None\<close> for an impossible date.
\<close>

section \<open>Data\<close>

record MtSmsDeliver =
  rp_message_reference :: u8
  originator :: ustring
  sms_text :: ustring
  user_data_bytes :: nat
  service_center_timestamp :: string
  segment_reference :: "u16 option"
  segment_sequence :: u8
  segment_total :: u8

definition is_duplicate_delivery :: "MtSmsDeliver \<Rightarrow> MtSmsDeliver \<Rightarrow> bool" where
  "is_duplicate_delivery a b \<longleftrightarrow> originator a = originator b \<and> sms_text a = sms_text b
     \<and> service_center_timestamp a = service_center_timestamp b
     \<and> segment_reference a = segment_reference b \<and> segment_sequence a = segment_sequence b
     \<and> segment_total a = segment_total b"

datatype RpduAckState = AckNone | Acked | AckError

definition classify_rp_ack :: "bytes \<Rightarrow> u8 \<Rightarrow> RpduAckState" where
  "classify_rp_ack body expected_reference =
     (if length body < 2 \<or> body ! 1 \<noteq> expected_reference then AckNone
      else if body ! 0 = 0x03 then Acked
      else if body ! 0 = 0x05 then AckError
      else AckNone)"

definition build_network_rp_ack :: "u8 \<Rightarrow> bytes" where
  "build_network_rp_ack reference = [0x02, reference]"

section \<open>Hexadecimal text and time stamps\<close>

definition hex_digit :: "nat \<Rightarrow> char" where
  "hex_digit n = char_of (if n < 10 then 48 + n else 87 + n)"

definition hex_lower :: "bytes \<Rightarrow> string" where
  "hex_lower bs = concat (map (\<lambda>b. [hex_digit (unat b div 16), hex_digit (unat b mod 16)]) bs)"

definition swapped_bcd :: "u8 \<Rightarrow> u8 option" where
  "swapped_bcd v =
     (let tens = v AND 0x0f; units = drop_bit 4 v
      in if tens \<le> 9 \<and> units \<le> 9 then Some (tens * 10 + units) else None)"

type_synonym rfc3339 = "int \<Rightarrow> nat \<Rightarrow> nat \<Rightarrow> nat \<Rightarrow> nat \<Rightarrow> nat \<Rightarrow> nat \<Rightarrow> string option"

definition obind :: "'a option \<Rightarrow> ('a \<Rightarrow> 'b option) \<Rightarrow> 'b option" where
  "obind x f = (case x of None \<Rightarrow> None | Some v \<Rightarrow> f v)"

definition decode_service_center_timestamp :: "rfc3339 \<Rightarrow> bytes \<Rightarrow> string option" where
  "decode_service_center_timestamp rfc data =
     (case data of
        [year, month, day, hour, minute, second, timezone] \<Rightarrow>
          obind (swapped_bcd year) (\<lambda>y.
          let y = (if y \<ge> 90 then 1900 + unat y else 2000 + unat y) in
          obind (swapped_bcd month) (\<lambda>mo. obind (swapped_bcd day) (\<lambda>d.
          obind (swapped_bcd hour) (\<lambda>h. obind (swapped_bcd minute) (\<lambda>mi.
          obind (swapped_bcd second) (\<lambda>s.
          let timezone_low = timezone AND 0x0f; timezone_high = drop_bit 4 timezone in
          if timezone_high > 9 \<or> timezone_low AND 0x07 > 9 then None
          else
            let quarter_hours = int (unat ((timezone_low AND 0x07) * 10 + timezone_high));
                direction = (if timezone_low AND 0x08 = 0 then 1 else - 1)
            in rfc (direction * quarter_hours * 15 * 60) y (unat mo) (unat d) (unat h) (unat mi)
                 (unat s)))))))
      | _ \<Rightarrow> None)"

section \<open>Data coding scheme\<close>

datatype SmsAlphabet = AlphaGsm7 | AlphaBinary | AlphaUcs2

definition sms_alphabet_for_dcs :: "u8 \<Rightarrow> SmsAlphabet" where
  "sms_alphabet_for_dcs dcs =
     (let group = drop_bit 4 dcs
      in if group \<le> 0x3 then
           if dcs AND 0x20 \<noteq> 0 then AlphaBinary
           else
             let low = drop_bit 2 dcs AND 0x03
             in if low = 0 then AlphaGsm7 else if low = 1 then AlphaBinary
                else if low = 2 then AlphaUcs2 else AlphaBinary
         else if group = 0x0c \<or> group = 0x0d then AlphaGsm7
         else if group = 0x0e then AlphaUcs2
         else if group = 0x0f \<and> dcs AND 0x04 = 0 then AlphaGsm7
         else AlphaBinary)"

section \<open>User data header\<close>

record SmsSegmentInfo =
  seg_reference :: "u16 option"
  seg_sequence :: u8
  seg_total :: u8

definition segment_single :: SmsSegmentInfo where
  "segment_single = \<lparr>seg_reference = None, seg_sequence = 1, seg_total = 1\<rparr>"

record SmsUserDataHeader =
  segment :: SmsSegmentInfo
  header_octets :: nat

definition user_data_header_empty :: SmsUserDataHeader where
  "user_data_header_empty = \<lparr>segment = segment_single, header_octets = 0\<rparr>"

text \<open>One information element: the two concatenation elements set the segment when their numbers
  make sense; every other element is passed over.\<close>

definition concat_element :: "u8 \<Rightarrow> bytes \<Rightarrow> SmsSegmentInfo \<Rightarrow> SmsSegmentInfo" where
  "concat_element iei val seg =
     (if iei = 0x00 \<and> length val = 3 then
        (if val ! 1 \<noteq> 0 \<and> val ! 2 \<noteq> 0 \<and> val ! 2 \<le> val ! 1
         then \<lparr>seg_reference = Some (ucast (val ! 0)), seg_sequence = val ! 2, seg_total = val ! 1\<rparr>
         else seg)
      else if iei = 0x08 \<and> length val = 4 then
        (if val ! 2 \<noteq> 0 \<and> val ! 3 \<noteq> 0 \<and> val ! 3 \<le> val ! 2
         then \<lparr>seg_reference = Some (u16_from_be [val ! 0, val ! 1]), seg_sequence = val ! 3,
               seg_total = val ! 2\<rparr>
         else seg)
      else seg)"

function header_elements :: "bytes \<Rightarrow> SmsSegmentInfo \<Rightarrow> SmsEncodingError + SmsSegmentInfo" where
  "header_elements header seg =
     (if length header < 2 then Inr seg
      else
        let iei = header ! 0; len = unat (header ! 1)
        in if 2 + len > length header then Inl BodyTooLong
           else header_elements (drop (2 + len) header)
                  (concat_element iei (slice_of header 2 (2 + len)) seg))"
  by pat_completeness auto
termination by (relation "measure (\<lambda>(header, seg). length header)") auto

declare header_elements.simps [simp del]

definition parse_user_data_header :: "bytes \<Rightarrow> SmsEncodingError + SmsUserDataHeader" where
  "parse_user_data_header user_data =
     (case user_data of
        [] \<Rightarrow> Inl BodyTooLong
      | header_len # rest \<Rightarrow>
          let header_total = 1 + unat header_len
          in if header_total > length user_data then Inl BodyTooLong
             else rbind (header_elements (take (unat header_len) rest) segment_single) (\<lambda>seg.
               Inr \<lparr>segment = seg, header_octets = header_total\<rparr>))"

section \<open>SMS-DELIVER\<close>

definition decode_binary_user_data :: "bytes \<Rightarrow> nat \<Rightarrow> nat \<Rightarrow> SmsEncodingError + ustring" where
  "decode_binary_user_data user_data udl_octets hdr =
     rbind (ok_or (get_range user_data 0 (min (length user_data) udl_octets)) BodyTooLong) (\<lambda>ud.
     rbind (ok_or (get_from ud hdr) BodyTooLong) (\<lambda>payload.
     Inr (us (''0x'' @ hex_lower payload))))"

definition parse_sms_deliver_tpdu :: "rfc3339 \<Rightarrow> u8 \<Rightarrow> bytes \<Rightarrow> SmsEncodingError + MtSmsDeliver" where
  "parse_sms_deliver_tpdu rfc reference tpdu =
     (if length tpdu < 2 then Inl BodyTooLong
      else
        let user_data_header_present = (tpdu ! 0 AND 0x40 \<noteq> 0);
            n = unat (tpdu ! 1)
        in if 2 \<ge> length tpdu then Inl BodyTooLong
        else
          let ton_npi = tpdu ! 2;
              octets = address_value_octets n
          in if 3 + octets + 3 + 7 > length tpdu then Inl BodyTooLong
          else
            let orig = decode_address_value ton_npi (slice_of tpdu 3 (3 + octets)) n;
                dcs = tpdu ! (3 + octets + 1);
                at = 3 + octets + 2
            in if at + 7 > length tpdu then Inl BodyTooLong
            else
              let scts = slice_of tpdu at (at + 7);
                  timestamp = (case decode_service_center_timestamp rfc scts of
                                 Some s \<Rightarrow> s | None \<Rightarrow> hex_lower scts)
              in if at + 7 \<ge> length tpdu then Inl BodyTooLong
              else
                let udl = unat (tpdu ! (at + 7));
                    raw = drop (at + 8) tpdu
                in rbind (if user_data_header_present then parse_user_data_header raw
                          else Inr user_data_header_empty) (\<lambda>header.
                   rbind (case sms_alphabet_for_dcs dcs of
                       AlphaUcs2 \<Rightarrow>
                         rbind (ok_or (get_range raw 0 (min (length raw) udl)) BodyTooLong) (\<lambda>ud.
                         rbind (ok_or (get_from ud (header_octets header)) BodyTooLong) (\<lambda>payload.
                         decode_ucs2_text payload (length payload)))
                     | AlphaGsm7 \<Rightarrow> Inr (decode_gsm7_user_data raw udl (header_octets header))
                     | AlphaBinary \<Rightarrow> decode_binary_user_data raw udl (header_octets header)) (\<lambda>txt.
                   Inr \<lparr>rp_message_reference = reference, originator = orig, sms_text = txt,
                        user_data_bytes = length raw, service_center_timestamp = timestamp,
                        segment_reference = seg_reference (segment header),
                        segment_sequence = seg_sequence (segment header),
                        segment_total = seg_total (segment header)\<rparr>)))"

definition parse_mt_rp_user_data ::
    "rfc3339 \<Rightarrow> u8 \<Rightarrow> bytes \<Rightarrow> nat \<Rightarrow> SmsEncodingError + MtSmsDeliver" where
  "parse_mt_rp_user_data rfc reference body length_offset =
     (if length_offset \<ge> length body then Inl BodyTooLong
      else
        let len = unat (body ! length_offset); start = length_offset + 1
        in if len = 0 \<or> start + len > length body then Inl BodyTooLong
           else parse_sms_deliver_tpdu rfc reference (slice_of body start (start + len)))"

definition parse_mt_rp_data :: "rfc3339 \<Rightarrow> bytes \<Rightarrow> SmsEncodingError + MtSmsDeliver" where
  "parse_mt_rp_data rfc body =
     (if length body < 5 \<or> body ! 0 \<noteq> 0x01 then Inl BodyTooLong
      else
        let reference = body ! 1; origin_len = unat (body ! 2)
        in if 3 + origin_len > length body then Inl BodyTooLong
        else
          let at = 3 + origin_len
          in if at \<ge> length body then Inl BodyTooLong
          else (case parse_mt_rp_user_data rfc reference body at of
              Inr v \<Rightarrow> Inr v
            | Inl _ \<Rightarrow>
                let destination_end = at + 1 + unat (body ! at)
                in if destination_end \<ge> length body then Inl BodyTooLong
                   else parse_mt_rp_user_data rfc reference body destination_end))"

section \<open>PDUs from the modem\<close>

record ModemDeliver =
  message :: MtSmsDeliver
  assembly_key :: string

function modem_header :: "bytes \<Rightarrow> bool \<Rightarrow> bytes \<Rightarrow> SmsEncodingError + bytes" where
  "modem_header header seen metadata =
     (if header = [] then Inr metadata
      else rbind (ok_or (get_range header 0 2) BodyTooLong) (\<lambda>pair.
        let iei = pair ! 0; len = unat (pair ! 1)
        in rbind (ok_or (get_range header 2 (2 + len)) BodyTooLong) (\<lambda>val.
           let metadata = metadata @ pair
           in if iei = 0 \<or> iei = 8 then
                if seen \<or> len \<noteq> (if iei = 0 then 3 else 4) then Inl BodyTooLong
                else
                  let total = val ! (len - 2); sequence = val ! (len - 1)
                  in if total = 0 \<or> sequence = 0 \<or> sequence > total then Inl BodyTooLong
                     else modem_header (drop (2 + len) header) True
                            (metadata @ take (len - 1) val @ [0])
              else modem_header (drop (2 + len) header) seen (metadata @ val))))"
  by pat_completeness auto
termination
  by (relation "measure (\<lambda>(header, seen, metadata). length header)")
     (auto simp: get_range_def split: if_splits)

declare modem_header.simps [simp del]

definition parse_modem_deliver :: "rfc3339 \<Rightarrow> bytes \<Rightarrow> SmsEncodingError + ModemDeliver" where
  "parse_modem_deliver rfc pdu =
     rbind (ok_or (get_at pdu 0) BodyTooLong) (\<lambda>smsc.
     rbind (ok_or (get_from pdu (1 + unat smsc)) BodyTooLong) (\<lambda>tpdu.
     if length tpdu < 3 \<or> tpdu ! 0 AND 3 \<noteq> 0 \<or> tpdu ! 1 = 0 \<or> tpdu ! 1 > 40 then Inl BodyTooLong
     else
       let at = 3 + address_value_octets (unat (tpdu ! 1)) in
       rbind (ok_or (get_range tpdu at (at + 10)) BodyTooLong) (\<lambda>fixed.
       rbind (ok_or (decode_service_center_timestamp rfc (slice_of fixed 2 9)) BodyTooLong) (\<lambda>_.
       let dcs = fixed ! 1; udl = unat (fixed ! 9); data = drop (at + 10) tpdu in
       rbind (case sms_alphabet_for_dcs dcs of
                AlphaGsm7 \<Rightarrow> if udl \<le> 160 then Inr (div_ceil (udl * 7) 8) else Inl BodyTooLong
              | _ \<Rightarrow> if udl \<le> 140 then Inr udl else Inl BodyTooLong) (\<lambda>expected.
       if length data \<noteq> expected then Inl BodyTooLong
       else
         let metadata = [tpdu ! 2, fixed ! 0, dcs] in
         rbind (if tpdu ! 0 AND 0x40 \<noteq> 0 then
                  rbind (ok_or (get_at data 0) BodyTooLong) (\<lambda>hl.
                  rbind (ok_or (get_range data 1 (1 + unat hl)) BodyTooLong) (\<lambda>header.
                  if sms_alphabet_for_dcs dcs = AlphaGsm7 \<and> div_ceil ((1 + unat hl) * 8) 7 > udl
                  then Inl BodyTooLong
                  else modem_header header False metadata))
                else Inr metadata) (\<lambda>metadata.
         rbind (parse_sms_deliver_tpdu rfc 0 tpdu) (\<lambda>m.
         Inr \<lparr>message = m, assembly_key = hex_lower metadata\<rparr>)))))))"

definition parse_modem_deliver_pdu :: "rfc3339 \<Rightarrow> bytes \<Rightarrow> SmsEncodingError + MtSmsDeliver" where
  "parse_modem_deliver_pdu rfc pdu = rmap message (parse_modem_deliver rfc pdu)"

record ModemStatusReport =
  report_reference :: u8
  report_recipient :: ustring
  report_service_center_timestamp :: string
  discharge_timestamp :: string
  report_status :: u8

fun str_less :: "string \<Rightarrow> string \<Rightarrow> bool" where
  "str_less _ [] \<longleftrightarrow> False"
| "str_less [] (_ # _) \<longleftrightarrow> True"
| "str_less (a # as) (b # bs) \<longleftrightarrow>
     (of_char a :: nat) < of_char b \<or> a = b \<and> str_less as bs"

definition nibbles :: "bytes \<Rightarrow> u8 list" where
  "nibbles bs = concat (map (\<lambda>b. [b AND 15, drop_bit 4 b]) bs)"

definition report_digits_ok :: "nat \<Rightarrow> bytes \<Rightarrow> bool" where
  "report_digits_ok n address = list_all
     (\<lambda>(index, nibble). \<not> (index < n \<and> nibble > 9 \<or> index = n \<and> nibble \<noteq> 15))
     (enumerate 0 (nibbles address))"

definition report_tail_ok :: "bytes \<Rightarrow> SmsEncodingError + unit" where
  "report_tail_ok rest =
     (case rest of
        [] \<Rightarrow> Inr ()
      | pi # tail \<Rightarrow>
          if pi AND 0xf8 \<noteq> 0 then Inl BodyTooLong
          else
            rbind (if pi AND 1 \<noteq> 0 then rbind (ok_or (get_at tail 0) BodyTooLong) (\<lambda>_. Inr 1)
                   else Inr 0) (\<lambda>at.
            rbind (if pi AND 2 \<noteq> 0
                   then rbind (ok_or (get_at tail at) BodyTooLong) (\<lambda>v. Inr (v, at + 1))
                   else Inr (0, at)) (\<lambda>(dcs, at).
            if pi AND 4 \<noteq> 0 then
              rbind (ok_or (get_at tail at) BodyTooLong) (\<lambda>u.
              let udl = unat u; at = at + 1;
                  octets = (if sms_alphabet_for_dcs dcs = AlphaGsm7 then div_ceil (udl * 7) 8 else udl)
              in if octets > 140 \<or> length tail \<noteq> at + octets then Inl BodyTooLong else Inr ())
            else if length tail \<noteq> at then Inl BodyTooLong else Inr ())))"

definition parse_modem_status_report :: "rfc3339 \<Rightarrow> bytes \<Rightarrow> SmsEncodingError + ModemStatusReport" where
  "parse_modem_status_report rfc pdu =
     rbind (ok_or (get_at pdu 0) BodyTooLong) (\<lambda>smsc.
     rbind (ok_or (get_from pdu (1 + unat smsc)) BodyTooLong) (\<lambda>tpdu.
     if length tpdu < 4 \<or> tpdu ! 0 AND 3 \<noteq> 2 then Inl BodyTooLong
     else
       let n = unat (tpdu ! 2) in
       if tpdu ! 0 AND 0x20 \<noteq> 0 \<or> n = 0 \<or> n > 20 \<or> \<not> (tpdu ! 3 = 0x81 \<or> tpdu ! 3 = 0x91)
       then Inl BodyTooLong
       else
         let address_end = 4 + address_value_octets n in
         rbind (ok_or (get_range tpdu 4 address_end) BodyTooLong) (\<lambda>address.
         if \<not> report_digits_ok n address then Inl InvalidAddress
         else
           rbind (ok_or (obind (get_range tpdu address_end (address_end + 7))
                    (decode_service_center_timestamp rfc)) BodyTooLong) (\<lambda>scts.
           rbind (ok_or (obind (get_range tpdu (address_end + 7) (address_end + 14))
                    (decode_service_center_timestamp rfc)) BodyTooLong) (\<lambda>discharge.
           rbind (ok_or (get_at tpdu (address_end + 14)) BodyTooLong) (\<lambda>status.
           if str_less discharge scts then Inl BodyTooLong
           else
             rbind (case get_from tpdu (address_end + 15) of None \<Rightarrow> Inr ()
                    | Some rest \<Rightarrow> report_tail_ok rest) (\<lambda>_.
             Inr \<lparr>report_reference = tpdu ! 1,
                  report_recipient = decode_address_value (tpdu ! 3) address n,
                  report_service_center_timestamp = scts, discharge_timestamp = discharge,
                  report_status = status\<rparr>)))))))"

end
