(* ===== verification/Sms_Submit.thy ===== *)
theory Sms_Submit
  imports Sms_Deliver
begin

text \<open>
  Outgoing short messages in \<open>connectivity/core/sms_codec.rs\<close>: user data of an SMS-SUBMIT, the
  transfer unit, single-part and concatenated RP-DATA bodies, and the PDUs for a modem.  The global
  message counter is an explicit \<open>u64\<close> the builders take and return (it advances even when a later
  step fails); the current time in milliseconds is an argument.
\<close>

section \<open>Data\<close>

record MoSmsSubmission =
  trace_id :: string
  message_id :: string
  mo_reference :: u8
  part_index :: u8
  part_count :: u8
  body :: bytes
  body_bytes :: nat
  text_utf16_units :: nat

record EncodedSubmitUserData =
  ud_dcs :: u8
  ud_length :: u8
  ud_octets :: bytes

fun show_hex :: "nat \<Rightarrow> string" where
  "show_hex n = (if n < 16 then [hex_digit n] else show_hex (n div 16) @ [hex_digit (n mod 16)])"

declare show_hex.simps [simp del]

definition trim_end_crlf :: "ustring \<Rightarrow> ustring" where
  "trim_end_crlf t = rev (dropWhile (\<lambda>c. c = 13 \<or> c = 10) (rev t))"

section \<open>One transfer unit\<close>

definition encode_submit_user_data :: "ustring \<Rightarrow> SmsEncodingError + EncodedSubmitUserData" where
  "encode_submit_user_data t =
     (case encode_gsm7_user_data t of
        Some (user_data, septets) \<Rightarrow>
          if septets > 160 then Inl TextTooLong
          else rbind (ok_or (u8_try_from septets) TextTooLong) (\<lambda>n.
            Inr \<lparr>ud_dcs = 0x00, ud_length = n, ud_octets = user_data\<rparr>)
      | None \<Rightarrow>
          rbind (encode_ucs2_user_data t) (\<lambda>user_data.
            if length user_data > 140 then Inl TextTooLong
            else rbind (ok_or (u8_try_from (length user_data)) TextTooLong) (\<lambda>n.
              Inr \<lparr>ud_dcs = 0x08, ud_length = n, ud_octets = user_data\<rparr>)))"

definition build_sms_submit_tpdu_encoded ::
    "ustring \<Rightarrow> u8 \<Rightarrow> u8 \<Rightarrow> EncodedSubmitUserData \<Rightarrow> SmsEncodingError + bytes" where
  "build_sms_submit_tpdu_encoded recipient message_reference first_octet e =
     rbind (encode_address_value recipient) (\<lambda>destination.
     rbind (normalized_address_digits recipient) (\<lambda>nd.
     rbind (ok_or (u8_try_from (length (digits nd))) InvalidAddress) (\<lambda>n.
     Inr ([first_octet, message_reference, n] @ destination @ [0x00, ud_dcs e, ud_length e]
          @ ud_octets e))))"

definition build_sms_submit_tpdu :: "ustring \<Rightarrow> ustring \<Rightarrow> u8 \<Rightarrow> SmsEncodingError + bytes" where
  "build_sms_submit_tpdu recipient t message_reference =
     rbind (encode_submit_user_data t) (\<lambda>e.
       build_sms_submit_tpdu_encoded recipient message_reference 0x01 e)"

definition push_len_prefixed :: "bytes \<Rightarrow> bytes \<Rightarrow> SmsEncodingError + bytes" where
  "push_len_prefixed out val =
     rbind (ok_or (u8_try_from (length val)) BodyTooLong) (\<lambda>len. Inr (out @ [len] @ val))"

section \<open>Submissions\<close>

definition build_single_part_mo_submission :: "u64 \<Rightarrow> nat \<Rightarrow> ustring \<Rightarrow> ustring \<Rightarrow> ustring
    \<Rightarrow> u64 \<times> (SmsEncodingError + MoSmsSubmission)" where
  "build_single_part_mo_submission counter timestamp recipient t0 service_center =
     (let t = trim_end_crlf t0
      in if str_trim recipient = [] then (counter, Inl EmptyRecipient)
         else if t = [] then (counter, Inl EmptyText)
         else
           let reference = ucast (counter AND 0xff);
               suffix = show_hex timestamp @ ''-'' @ show_hex (unat counter)
           in (counter + 1,
               rbind (build_sms_submit_tpdu recipient t reference) (\<lambda>tpdu.
               rbind (encode_address_value service_center) (\<lambda>sc_address.
               rbind (push_len_prefixed [0x00, reference, 0x00] sc_address) (\<lambda>b.
               rbind (push_len_prefixed b tpdu) (\<lambda>b.
               Inr \<lparr>trace_id = ''vowifi-sms-trace-'' @ suffix, message_id = ''vowifi-sms-'' @ suffix,
                    mo_reference = reference, part_index = 1, part_count = 1, body = b,
                    body_bytes = length b, text_utf16_units = length (encode_utf16 t)\<rparr>))))))"

definition concat_udh :: "u8 \<Rightarrow> u8 \<Rightarrow> u8 \<Rightarrow> bytes" where
  "concat_udh reference count sequence = [0x05, 0x00, 0x03, reference, count, sequence]"

definition encode_part ::
    "bool \<Rightarrow> u8 \<Rightarrow> u8 \<Rightarrow> u8 \<Rightarrow> ustring \<Rightarrow> SmsEncodingError + EncodedSubmitUserData" where
  "encode_part gsm7 reference count sequence part =
     (let udh = concat_udh reference count sequence
      in if gsm7 then
           rbind (ok_or (gsm7_septets part) TextTooLong) (\<lambda>septets.
           rbind (ok_or (u8_try_from (7 + length septets)) TextTooLong) (\<lambda>n.
           Inr \<lparr>ud_dcs = 0x00, ud_length = n, ud_octets = pack_gsm7_with_udh udh septets\<rparr>))
         else
           let user_data = udh @ units_to_be (encode_utf16 part)
           in rbind (ok_or (u8_try_from (length user_data)) TextTooLong) (\<lambda>n.
              Inr \<lparr>ud_dcs = 0x08, ud_length = n, ud_octets = user_data\<rparr>))"

definition build_part :: "ustring \<Rightarrow> bytes \<Rightarrow> ustring \<Rightarrow> bool \<Rightarrow> u8 \<Rightarrow> u8 \<Rightarrow> string \<Rightarrow> nat \<times> ustring
    \<Rightarrow> SmsEncodingError + MoSmsSubmission" where
  "build_part recipient sc_address full_text gsm7 concat_reference count suffix ip =
     (case ip of (index, part) \<Rightarrow>
     rbind (ok_or (u8_try_from (index + 1)) TextTooLong) (\<lambda>sequence.
     let reference = concat_reference + (sequence - 1) in
     rbind (encode_part gsm7 concat_reference count sequence part) (\<lambda>e.
     rbind (build_sms_submit_tpdu_encoded recipient reference 0x41 e) (\<lambda>tpdu.
     rbind (push_len_prefixed [0x00, reference, 0x00] sc_address) (\<lambda>b.
     rbind (push_len_prefixed b tpdu) (\<lambda>b.
     Inr \<lparr>trace_id = ''ims-sms-trace-'' @ suffix, message_id = ''ims-sms-'' @ suffix,
          mo_reference = reference, part_index = sequence, part_count = count, body = b,
          body_bytes = length b, text_utf16_units = length (encode_utf16 full_text)\<rparr>))))))"

definition build_concatenated_submissions :: "u64 \<Rightarrow> nat \<Rightarrow> ustring \<Rightarrow> ustring \<Rightarrow> ustring
    \<Rightarrow> ustring list \<Rightarrow> bool \<Rightarrow> u64 \<times> (SmsEncodingError + MoSmsSubmission list)" where
  "build_concatenated_submissions counter timestamp recipient service_center full_text parts gsm7 =
     (case u8_try_from (length parts) of
        None \<Rightarrow> (counter, Inl TextTooLong)
      | Some count \<Rightarrow>
          if count < 2 then (counter, Inl TextTooLong)
          else
            (counter + ucast count,
             let concat_reference = ucast (counter AND 0xff);
                 suffix = show_hex timestamp @ ''-'' @ show_hex (unat counter)
             in rbind (encode_address_value service_center) (\<lambda>sc_address.
                  rmapM (build_part recipient sc_address full_text gsm7 concat_reference count suffix)
                    (enumerate 0 parts))))"

definition build_mo_submissions :: "u64 \<Rightarrow> nat \<Rightarrow> ustring \<Rightarrow> ustring \<Rightarrow> ustring
    \<Rightarrow> u64 \<times> (SmsEncodingError + MoSmsSubmission list)" where
  "build_mo_submissions counter timestamp recipient t0 service_center =
     (let t = trim_end_crlf t0
      in if str_trim recipient = [] then (counter, Inl EmptyRecipient)
         else if t = [] then (counter, Inl EmptyText)
         else (case gsm7_septets t of
           Some septets \<Rightarrow>
             if length septets \<le> 160 then
               map_prod id (rmap (\<lambda>s. [s]))
                 (build_single_part_mo_submission counter timestamp recipient t service_center)
             else (case split_gsm7_text t 153 of
                 Inl e \<Rightarrow> (counter, Inl e)
               | Inr parts \<Rightarrow>
                   build_concatenated_submissions counter timestamp recipient service_center t parts True)
         | None \<Rightarrow>
             if length (encode_utf16 t) \<le> 70 then
               map_prod id (rmap (\<lambda>s. [s]))
                 (build_single_part_mo_submission counter timestamp recipient t service_center)
             else (case split_ucs2_text t 67 of
                 Inl e \<Rightarrow> (counter, Inl e)
               | Inr parts \<Rightarrow>
                   build_concatenated_submissions counter timestamp recipient service_center t parts False)))"

section \<open>PDUs for a modem\<close>

definition modem_pdu_of :: "bytes \<Rightarrow> SmsEncodingError + bytes" where
  "modem_pdu_of b =
     rbind (ok_or (get_at b 2) BodyTooLong) (\<lambda>o_len.
     let at = 3 + unat o_len in
     rbind (ok_or (get_at b at) BodyTooLong) (\<lambda>sc_len.
     rbind (ok_or (get_range b (at + 1) (at + 1 + unat sc_len)) BodyTooLong) (\<lambda>sc.
     let at = at + 1 + unat sc_len in
     rbind (ok_or (get_at b at) BodyTooLong) (\<lambda>tpdu_len.
     rbind (ok_or (get_range b (at + 1) (at + 1 + unat tpdu_len)) BodyTooLong) (\<lambda>tpdu.
     let pdu = [sc_len] @ sc @ tpdu; k = 1 + unat sc_len
     in Inr (pdu[k := pdu ! k OR 0x20]))))))"

definition build_modem_submit_pdus :: "u64 \<Rightarrow> nat \<Rightarrow> ustring \<Rightarrow> ustring \<Rightarrow> ustring
    \<Rightarrow> u64 \<times> (SmsEncodingError + bytes list)" where
  "build_modem_submit_pdus counter timestamp recipient t smsc =
     map_prod id (\<lambda>r. rbind r (\<lambda>subs. rmapM (\<lambda>s. modem_pdu_of (body s)) subs))
       (build_mo_submissions counter timestamp recipient t smsc)"

section \<open>Layout facts\<close>

lemma parse_concat_udh:
  assumes "sequence \<noteq> 0" and "sequence \<le> count"
  shows "parse_user_data_header (concat_udh r count sequence @ rest) =
    Inr \<lparr>segment = \<lparr>seg_reference = Some (ucast r), seg_sequence = sequence, seg_total = count\<rparr>,
         header_octets = 6\<rparr>"
proof -
  have "count \<noteq> 0" using assms by (auto simp: word_le_nat_alt unat_eq_zero)
  then show ?thesis using assms
    by (simp add: parse_user_data_header_def concat_udh_def header_elements.simps [of "[_, _, _, _, _]"]
        header_elements.simps [of "[]"] slice_of_def concat_element_def Let_def)
qed

lemma parse_deliver_layout:
  assumes "length addr = address_value_octets (unat n)" and "length scts = 7"
  shows "parse_sms_deliver_tpdu rfc r ([fo, n, ton] @ addr @ [pid, dcs] @ scts @ [udl] @ raw) =
    rbind (if fo AND 0x40 \<noteq> 0 then parse_user_data_header raw else Inr user_data_header_empty) (\<lambda>header.
    rbind (case sms_alphabet_for_dcs dcs of
        AlphaUcs2 \<Rightarrow>
          rbind (ok_or (get_range raw 0 (min (length raw) (unat udl))) BodyTooLong) (\<lambda>ud.
          rbind (ok_or (get_from ud (header_octets header)) BodyTooLong) (\<lambda>payload.
          decode_ucs2_text payload (length payload)))
      | AlphaGsm7 \<Rightarrow> Inr (decode_gsm7_user_data raw (unat udl) (header_octets header))
      | AlphaBinary \<Rightarrow> decode_binary_user_data raw (unat udl) (header_octets header)) (\<lambda>txt.
    Inr \<lparr>rp_message_reference = r, originator = decode_address_value ton addr (unat n),
         sms_text = txt, user_data_bytes = length raw,
         service_center_timestamp = (case decode_service_center_timestamp rfc scts of
            Some s \<Rightarrow> s | None \<Rightarrow> hex_lower scts),
         segment_reference = seg_reference (segment header),
         segment_sequence = seg_sequence (segment header),
         segment_total = seg_total (segment header)\<rparr>))"
proof -
  let ?t = "[fo, n, ton] @ addr @ [pid, dcs] @ scts @ [udl] @ raw"
  let ?k = "address_value_octets (unat n)"
  have "slice_of ?t (3 + ?k + 2) (3 + ?k + 2 + 7) = scts"
    by (rule slice_append_mid [of _ "[fo, n, ton] @ addr @ [pid, dcs]" _ "[udl] @ raw"])
       (use assms in simp_all)
  moreover have "drop (3 + ?k + 2 + 8) ?t = raw"
  proof -
    let ?p = "[fo, n, ton] @ addr @ [pid, dcs] @ scts @ [udl]"
    have "3 + ?k + 2 + 8 = length ?p" using assms by simp
    moreover have "?t = ?p @ raw" by simp
    moreover have "drop (length p) (p @ raw) = raw" for p by simp
    ultimately show ?thesis by (simp only:)
  qed
  ultimately have parts: "slice_of ?t 3 (3 + ?k) = addr" "?t ! (3 + ?k + 1) = dcs"
    "slice_of ?t (3 + ?k + 2) (3 + ?k + 2 + 7) = scts" "?t ! (3 + ?k + 2 + 7) = udl"
    "drop (3 + ?k + 2 + 8) ?t = raw"
    using assms by (simp_all add: slice_of_def nth_append)
  have oct: "?t ! 0 = fo" "?t ! 1 = n" "?t ! 2 = ton" by simp_all
  have len: "length ?t = 13 + ?k + length raw" using assms by simp
  have cond: "\<not> length ?t < 2" "\<not> 2 \<ge> length ?t" "\<not> 3 + ?k + 3 + 7 > length ?t"
    "\<not> 3 + ?k + 2 + 7 > length ?t" "\<not> 3 + ?k + 2 + 7 \<ge> length ?t"
    using len by simp_all
  show ?thesis
    unfolding parse_sms_deliver_tpdu_def Let_def oct parts
    by (simp only: cond if_False parts)
qed

text \<open>A part as the receiver sees it: the network copies the user data of the submitted part into
  a deliver unit with an originator, a protocol identifier and a time stamp of its own.\<close>

definition deliver_of ::
    "u8 \<Rightarrow> u8 \<Rightarrow> u8 \<Rightarrow> bytes \<Rightarrow> u8 \<Rightarrow> bytes \<Rightarrow> EncodedSubmitUserData \<Rightarrow> bytes" where
  "deliver_of fo n ton addr pid scts e =
     [fo, n, ton] @ addr @ [pid, ud_dcs e] @ scts @ [ud_length e] @ ud_octets e"

lemma dcs_values: "sms_alphabet_for_dcs 0x00 = AlphaGsm7" "sms_alphabet_for_dcs 0x08 = AlphaUcs2"
  by (simp_all add: sms_alphabet_for_dcs_def Let_def)

lemma encode_part_delivers:
  assumes part: "encode_part gsm7 r count sequence p = Inr e" and chars: "list_all is_char p"
    and seg: "sequence \<noteq> 0" "sequence \<le> count"
    and net: "length addr = address_value_octets (unat n)" "length scts = 7" "fo AND 0x40 \<noteq> 0"
  shows "\<exists>m. parse_sms_deliver_tpdu rfc ref (deliver_of fo n ton addr pid scts e) = Inr m
    \<and> sms_text m = p \<and> segment_reference m = Some (ucast r)
    \<and> segment_sequence m = sequence \<and> segment_total m = count"
proof (cases gsm7)
  case True
  then obtain ss where ss: "gsm7_septets p = Some ss" "7 + length ss \<le> 255"
    and e: "e = \<lparr>ud_dcs = 0x00, ud_length = word_of_nat (7 + length ss),
      ud_octets = pack_gsm7_with_udh (concat_udh r count sequence) ss\<rparr>"
    using part by (auto simp: encode_part_def Let_def result_simps)
  have six: "length (concat_udh r count sequence) = 6" by (simp add: concat_udh_def)
  note layout = pack_gsm7_with_udh_layout [OF ss(1), of "concat_udh r count sequence"]
  have hdr: "parse_user_data_header (pack_gsm7_with_udh (concat_udh r count sequence) ss) =
      Inr \<lparr>segment = \<lparr>seg_reference = Some (ucast r), seg_sequence = sequence, seg_total = count\<rparr>,
           header_octets = 6\<rparr>"
    using parse_concat_udh [OF seg, of r] layout(1) six by (metis append_take_drop_id)
  have "div_ceil (6 * 8) 7 = 7" by (simp add: div_ceil_def)
  then have "decode_gsm7_user_data (pack_gsm7_with_udh (concat_udh r count sequence) ss)
      (7 + length ss) 6 = p"
    using layout(3) six decode_gsm7_septets [OF ss(1)]
    by (cases "ss = []") (simp_all add: decode_gsm7_user_data_def Let_def)
  then show ?thesis
    using ss(2) net hdr
    by (simp add: deliver_of_def e dcs_values
        parse_deliver_layout [OF net(1,2), simplified] del: of_nat_add)
next
  case False
  let ?u = "units_to_be (encode_utf16 p)"
  have e: "e = \<lparr>ud_dcs = 0x08, ud_length = word_of_nat (6 + length ?u),
      ud_octets = concat_udh r count sequence @ ?u\<rparr>" and len: "6 + length ?u \<le> 255"
    using part False by (auto simp: encode_part_def Let_def result_simps concat_udh_def)
  have six: "length (concat_udh r count sequence) = 6" by (simp add: concat_udh_def)
  have "decode_ucs2_text ?u (length ?u) = Inr p" by (rule decode_ucs2_units [OF chars refl])
  then show ?thesis
    using len net parse_concat_udh [OF seg, of r ?u] six
    by (simp add: deliver_of_def e dcs_values get_range_def get_from_def slice_of_def
        parse_deliver_layout [OF net(1,2), simplified] del: of_nat_add)
qed

lemma encode_submit_delivers:
  assumes e: "encode_submit_user_data t = Inr e" and chars: "list_all is_char t"
    and net: "length addr = address_value_octets (unat n)" "length scts = 7" "fo AND 0x40 = 0"
  shows "\<exists>m. parse_sms_deliver_tpdu rfc ref (deliver_of fo n ton addr pid scts e) = Inr m
    \<and> sms_text m = t \<and> segment_reference m = None \<and> segment_sequence m = 1 \<and> segment_total m = 1"
proof (cases "encode_gsm7_user_data t")
  case (Some on)
  obtain octets k where on: "on = (octets, k)" by force
  then have k: "k \<le> 160" and e: "e = \<lparr>ud_dcs = 0x00, ud_length = word_of_nat k, ud_octets = octets\<rparr>"
    using assms(1) Some by (auto simp: encode_submit_user_data_def result_simps split: if_splits)
  obtain ss where ss: "gsm7_septets t = Some ss" "k = length ss"
    and oc: "octets = write_septets (replicate (div_ceil (length ss * 7) 8) 0) 0 ss"
    using Some on by (auto simp: encode_gsm7_user_data_def split: option.splits)
  have "decode_gsm7_text octets k = t"
    using decode_written [OF ss(1), of 0 "replicate (div_ceil (length ss * 7) 8) 0"]
      div_ceil_room [of 8 "length ss * 7"] by (simp add: oc ss(2) decode_gsm7_text_def)
  then show ?thesis
    using k net by (simp add: deliver_of_def e dcs_values parse_deliver_layout [OF net(1,2), simplified]
        user_data_header_empty_def segment_single_def decode_gsm7_user_data_def)
next
  case None
  then obtain ud where ud: "encode_ucs2_user_data t = Inr ud" "length ud \<le> 140"
    and e: "e = \<lparr>ud_dcs = 0x08, ud_length = word_of_nat (length ud), ud_octets = ud\<rparr>"
    using assms(1) by (auto simp: encode_submit_user_data_def result_simps split: if_splits)
  have "ud = units_to_be (encode_utf16 t)"
    using ud(1) by (auto simp: encode_ucs2_user_data_def Let_def split: if_splits)
  then have "decode_ucs2_text ud (length ud) = Inr t" using decode_ucs2_units [OF chars refl] by simp
  then show ?thesis
    using ud(2) net by (simp add: deliver_of_def e dcs_values get_range_def get_from_def slice_of_def
        parse_deliver_layout [OF net(1,2), simplified] user_data_header_empty_def segment_single_def)
qed

text \<open>The RP-DATA body around a submit unit with user data \<open>e\<close>.\<close>

definition carries :: "MoSmsSubmission \<Rightarrow> EncodedSubmitUserData \<Rightarrow> bool" where
  "carries s e \<longleftrightarrow> (\<exists>sc dest nd fo tpdu.
     body s = [0x00, mo_reference s, 0x00, word_of_nat (length sc)] @ sc
       @ [word_of_nat (length tpdu)] @ tpdu
     \<and> length sc \<le> 255 \<and> length tpdu \<le> 255 \<and> body_bytes s = length (body s)
     \<and> tpdu = [fo, mo_reference s, nd] @ dest @ [0x00, ud_dcs e, ud_length e] @ ud_octets e)"

lemma submit_tpdu_layout:
  "build_sms_submit_tpdu_encoded rcpt r fo e = Inr tpdu \<Longrightarrow>
   \<exists>nd dest. tpdu = [fo, r, nd] @ dest @ [0x00, ud_dcs e, ud_length e] @ ud_octets e"
  by (auto simp: build_sms_submit_tpdu_encoded_def result_simps)

lemma rp_data_layout:
  assumes "push_len_prefixed [0x00, r, 0x00] sc = Inr a" and "push_len_prefixed a tpdu = Inr b"
    and "body s = b" and "mo_reference s = r" and "body_bytes s = length b"
    and "build_sms_submit_tpdu_encoded rcpt r fo e = Inr tpdu"
  shows "carries s e"
proof -
  obtain nd dest where "tpdu = [fo, r, nd] @ dest @ [0x00, ud_dcs e, ud_length e] @ ud_octets e"
    using submit_tpdu_layout [OF assms(6)] by blast
  moreover have "b = [0x00, r, 0x00, word_of_nat (length sc)] @ sc @ [word_of_nat (length tpdu)] @ tpdu"
    "length sc \<le> 255" "length tpdu \<le> 255"
    using assms(1,2) by (auto simp: push_len_prefixed_def result_simps)
  ultimately show ?thesis
    using assms(3-5) unfolding carries_def
    by (intro exI [of _ sc] exI [of _ dest] exI [of _ nd] exI [of _ fo] exI [of _ tpdu]) simp
qed

lemma build_part_ok:
  assumes "build_part rcpt sc full gsm7 r count suffix (i, p) = Inr s"
  shows "\<exists>e. encode_part gsm7 r count (word_of_nat (i + 1)) p = Inr e \<and> carries s e
    \<and> i + 1 \<le> 255 \<and> part_index s = word_of_nat (i + 1) \<and> part_count s = count"
proof -
  from assms obtain e tpdu a b where i: "i + 1 \<le> 255"
    and e: "encode_part gsm7 r count (word_of_nat (i + 1)) p = Inr e"
    and t: "build_sms_submit_tpdu_encoded rcpt (r + (word_of_nat (i + 1) - 1)) 0x41 e = Inr tpdu"
    and ab: "push_len_prefixed [0x00, r + (word_of_nat (i + 1) - 1), 0x00] sc = Inr a"
      "push_len_prefixed a tpdu = Inr b"
    and s: "s = \<lparr>trace_id = ''ims-sms-trace-'' @ suffix, message_id = ''ims-sms-'' @ suffix,
          mo_reference = r + (word_of_nat (i + 1) - 1), part_index = word_of_nat (i + 1),
          part_count = count, body = b,
          body_bytes = length b, text_utf16_units = length (encode_utf16 full)\<rparr>"
    unfolding build_part_def prod.case Let_def rbind_eq_Inr ok_or_eq_Inr u8_try_from_Some sum.inject
    by blast
  have "carries s e" by (rule rp_data_layout [OF ab _ _ _ t]) (simp_all add: s)
  with i e s show ?thesis by simp
qed

lemma ucast_small: "k \<le> 255 \<Longrightarrow> (ucast (word_of_nat k :: u8) :: u64) = word_of_nat k"
  by (rule word_unat_eq_iff [THEN iffD2]) (simp add: unsigned_ucast_eq take_bit_nat_eq_self)

lemma concatenated_delivers:
  assumes run: "build_concatenated_submissions c ts rcpt sc full parts gsm7 = (c', Inr subs)"
    and chars: "\<forall>p \<in> set parts. list_all is_char p"
    and net: "length addr = address_value_octets (unat n)" "length scts = 7" "fo AND 0x40 \<noteq> 0"
  shows "length subs = length parts \<and> 2 \<le> length subs \<and> length subs \<le> 255
    \<and> c' = c + word_of_nat (length subs)
    \<and> (\<forall>i < length subs. \<exists>e m. carries (subs ! i) e
        \<and> part_index (subs ! i) = word_of_nat (i + 1) \<and> part_count (subs ! i) = word_of_nat (length subs)
        \<and> parse_sms_deliver_tpdu rfc ref (deliver_of fo n ton addr pid scts e) = Inr m
        \<and> sms_text m = parts ! i \<and> segment_reference m = Some (ucast (ucast (c AND 0xff) :: u8))
        \<and> segment_sequence m = word_of_nat (i + 1) \<and> segment_total m = word_of_nat (length subs))"
proof -
  let ?r = "ucast (c AND 0xff) :: u8" and ?k = "word_of_nat (length parts) :: u8"
  obtain k where k: "u8_try_from (length parts) = Some k" "\<not> k < 2"
    using run by (auto simp: build_concatenated_submissions_def split: option.splits if_splits)
  then have len: "length parts \<le> 255" "k = ?k" and two: "2 \<le> length parts"
    by (auto simp: word_less_nat_alt)
  from run k obtain sca sfx where c': "c' = c + ucast k"
    and parts: "rmapM (build_part rcpt sca full gsm7 ?r k sfx) (enumerate 0 parts) = Inr subs"
    by (auto simp: build_concatenated_submissions_def Let_def result_simps)
  have all: "list_all2 (\<lambda>ip s. build_part rcpt sca full gsm7 ?r k sfx ip = Inr s) (enumerate 0 parts) subs"
    by (rule rmapM_Inr [OF parts])
  have lens: "length subs = length parts" using rmapM_length [OF parts] by simp
  have "\<exists>e m. carries (subs ! i) e \<and> part_index (subs ! i) = word_of_nat (i + 1)
      \<and> part_count (subs ! i) = ?k
      \<and> parse_sms_deliver_tpdu rfc ref (deliver_of fo n ton addr pid scts e) = Inr m
      \<and> sms_text m = parts ! i \<and> segment_reference m = Some (ucast ?r)
      \<and> segment_sequence m = word_of_nat (i + 1) \<and> segment_total m = ?k" if i: "i < length parts" for i
  proof -
    have "build_part rcpt sca full gsm7 ?r k sfx (i, parts ! i) = Inr (subs ! i)"
      using list_all2_nthD [OF all, of i] i by (simp add: nth_enumerate_eq)
    from build_part_ok [OF this] obtain e where e: "encode_part gsm7 ?r k (word_of_nat (i + 1)) (parts ! i) = Inr e"
      "carries (subs ! i) e" "part_index (subs ! i) = word_of_nat (i + 1)" "part_count (subs ! i) = k"
      by blast
    have u: "unat (word_of_nat (i + 1) :: u8) = i + 1" using i len(1) by (intro unat_u8_of_nat) simp
    then have "(word_of_nat (i + 1) :: u8) \<noteq> 0" by auto
    moreover have "(word_of_nat (i + 1) :: u8) \<le> k" using u i len by (simp add: word_le_nat_alt)
    ultimately obtain m where "parse_sms_deliver_tpdu rfc ref (deliver_of fo n ton addr pid scts e) = Inr m"
      "sms_text m = parts ! i" "segment_reference m = Some (ucast ?r)"
      "segment_sequence m = word_of_nat (i + 1)" "segment_total m = k"
      using encode_part_delivers [OF e(1) _ _ _ net, of rfc ref ton pid] chars i nth_mem by blast
    then show ?thesis using e len(2) by (intro exI [of _ e] exI [of _ m] conjI) (simp_all only:)
  qed
  moreover have "c' = c + word_of_nat (length subs)"
    using c' len lens by (simp add: ucast_small)
  ultimately show ?thesis using lens len two by simp
qed

lemma single_delivers:
  assumes run: "build_single_part_mo_submission c ts rcpt t sc = (c', Inr s)"
    and chars: "list_all is_char (trim_end_crlf t)"
    and net: "length addr = address_value_octets (unat n)" "length scts = 7" "fo AND 0x40 = 0"
  shows "c' = c + 1 \<and> part_index s = 1 \<and> part_count s = 1 \<and> (\<exists>e m. carries s e
    \<and> parse_sms_deliver_tpdu rfc ref (deliver_of fo n ton addr pid scts e) = Inr m
    \<and> sms_text m = trim_end_crlf t \<and> segment_sequence m = 1 \<and> segment_total m = 1)"
proof -
  let ?r = "ucast (c AND 0xff) :: u8"
  from run have c': "c' = c + 1"
    by (auto simp: build_single_part_mo_submission_def Let_def split: if_splits)
  from run obtain tpdu sca a b sfx where tp: "build_sms_submit_tpdu rcpt (trim_end_crlf t) ?r = Inr tpdu"
    and ab: "push_len_prefixed [0x00, ?r, 0x00] sca = Inr a" "push_len_prefixed a tpdu = Inr b"
    and s: "s = \<lparr>trace_id = ''vowifi-sms-trace-'' @ sfx, message_id = ''vowifi-sms-'' @ sfx,
        mo_reference = ?r, part_index = 1, part_count = 1, body = b, body_bytes = length b,
        text_utf16_units = length (encode_utf16 (trim_end_crlf t))\<rparr>"
    by (auto simp: build_single_part_mo_submission_def Let_def result_simps split: if_splits)
  from tp obtain e where e: "encode_submit_user_data (trim_end_crlf t) = Inr e"
    "build_sms_submit_tpdu_encoded rcpt ?r 0x01 e = Inr tpdu"
    by (auto simp: build_sms_submit_tpdu_def result_simps)
  have "carries s e" by (rule rp_data_layout [OF ab _ _ _ e(2)]) (simp_all add: s)
  moreover obtain m where "parse_sms_deliver_tpdu rfc ref (deliver_of fo n ton addr pid scts e) = Inr m"
    "sms_text m = trim_end_crlf t" "segment_sequence m = 1" "segment_total m = 1"
    using encode_submit_delivers [OF e(1) chars net] by blast
  ultimately show ?thesis using c' s by auto
qed

lemma trim_idem [simp]: "trim_end_crlf (trim_end_crlf t) = trim_end_crlf t"
  by (simp add: trim_end_crlf_def)

lemma list_all_trim: "list_all P t \<Longrightarrow> list_all P (trim_end_crlf t)"
  using set_dropWhileD [of _ _ "rev t"] by (fastforce simp: trim_end_crlf_def list_all_iff)

text \<open>What the receiver makes of the parts, in order.\<close>

definition received :: "rfc3339 \<Rightarrow> u8 \<Rightarrow> (EncodedSubmitUserData \<Rightarrow> bytes) \<Rightarrow> EncodedSubmitUserData list
    \<Rightarrow> SmsEncodingError + MtSmsDeliver list" where
  "received rfc ref unit_of es = rmapM (\<lambda>e. parse_sms_deliver_tpdu rfc ref (unit_of e)) es"

lemma rmapM_intro: "list_all2 (\<lambda>x y. f x = Inr y) xs ys \<Longrightarrow> rmapM f xs = Inr ys"
  by (induction rule: list_all2_induct) auto

lemma choose_lists:
  assumes "\<forall>i < n. \<exists>e m. P i e m"
  obtains es ms where "length es = n" "length ms = n" "\<forall>i < n. P i (es ! i) (ms ! i)"
proof -
  from assms obtain f g where "\<forall>i < n. P i (f i) (g i)" by metis
  then show ?thesis using that [of "map f [0..<n]" "map g [0..<n]"] by simp
qed

section \<open>Properties\<close>

text \<open>
  C16: Outgoing messages arrive whole.  Whenever the builder produces submissions for a text,
  single-part or concatenated, GSM-7 or UCS-2, each RP-DATA body carries user data such that, once
  the network has put the user data into deliver units (any originator, protocol identifier, time
  stamp and first octet with the matching header bit), the parser of this program accepts every
  unit, the decoded texts concatenate to the text (less trailing line ends), the parts are numbered
  1 to \<open>n\<close> of \<open>n\<close>, and the message counter advances by \<open>n\<close>.
\<close>

theorem mo_message_arrives:
  assumes run: "build_mo_submissions c ts rcpt t sc = (c', Inr subs)" and chars: "list_all is_char t"
    and net: "length addr = address_value_octets (unat n)" "length scts = 7"
      "fo1 AND 0x40 = 0" "fo2 AND 0x40 \<noteq> 0"
  shows "\<exists>es ms. list_all2 carries subs es
    \<and> received rfc ref (deliver_of (if length subs = 1 then fo1 else fo2) n ton addr pid scts) es = Inr ms
    \<and> concat (map sms_text ms) = trim_end_crlf t
    \<and> map (\<lambda>m. unat (segment_sequence m)) ms = [1..<length subs + 1]
    \<and> list_all (\<lambda>m. unat (segment_total m) = length subs) ms
    \<and> map (\<lambda>s. unat (part_index s)) subs = [1..<length subs + 1]
    \<and> c' = c + word_of_nat (length subs)"
proof -
  let ?t = "trim_end_crlf t"
  have tchars: "list_all is_char ?t" using list_all_trim [OF chars] .
  consider (single) s where "subs = [s]" "build_single_part_mo_submission c ts rcpt ?t sc = (c', Inr s)"
    | (many) parts g where "concat parts = ?t"
        "build_concatenated_submissions c ts rcpt sc ?t parts g = (c', Inr subs)"
  proof -
    from run have "(\<exists>s. subs = [s] \<and> build_single_part_mo_submission c ts rcpt ?t sc = (c', Inr s))
      \<or> (\<exists>parts. split_gsm7_text ?t 153 = Inr parts
          \<and> build_concatenated_submissions c ts rcpt sc ?t parts True = (c', Inr subs))
      \<or> (\<exists>parts. split_ucs2_text ?t 67 = Inr parts
          \<and> build_concatenated_submissions c ts rcpt sc ?t parts False = (c', Inr subs))"
      by (cases "build_single_part_mo_submission c ts rcpt ?t sc")
         (auto simp: build_mo_submissions_def Let_def result_simps split: if_splits option.splits sum.splits)
    moreover have "concat ps = ?t" if "split_gsm7_text ?t 153 = Inr ps" for ps
      using septets.split_partition that by (simp add: split_gsm7_text_def)
    moreover have "concat ps = ?t" if "split_ucs2_text ?t 67 = Inr ps" for ps
      using units67.split_partition that by (simp add: split_ucs2_text_def)
    ultimately show ?thesis using that by blast
  qed
  then show ?thesis
  proof cases
    case single
    obtain e m where "carries s e" "part_index s = 1" "c' = c + 1"
      "parse_sms_deliver_tpdu rfc ref (deliver_of fo1 n ton addr pid scts e) = Inr m"
      "sms_text m = ?t" "segment_sequence m = 1" "segment_total m = 1"
      using single_delivers [OF single(2) _ net(1-3), of rfc ref ton pid] tchars by auto
    then show ?thesis using single(1)
      by (intro exI [of _ "[e]"] exI [of _ "[m]"]) (simp add: received_def)
  next
    case many
    have pchars: "\<forall>p \<in> set parts. list_all is_char p"
      using tchars unfolding many(1) [symmetric] by (auto simp: list_all_iff)
    note del = concatenated_delivers [OF many(2) pchars net(1,2,4), of rfc ref ton pid]
    let ?n = "length subs"
    have n: "length subs = length parts" "2 \<le> ?n" "?n \<le> 255" "c' = c + word_of_nat ?n"
      using del by blast+
    define P where "P i e m \<longleftrightarrow> carries (subs ! i) e
        \<and> part_index (subs ! i) = word_of_nat (i + 1)
        \<and> parse_sms_deliver_tpdu rfc ref (deliver_of fo2 n ton addr pid scts e) = Inr m
        \<and> sms_text m = parts ! i
        \<and> segment_sequence m = word_of_nat (i + 1) \<and> segment_total m = word_of_nat ?n" for i e m
    have "\<forall>i < ?n. \<exists>e m. P i e m" unfolding P_def using del by blast
    then obtain es ms where em: "length es = ?n" "length ms = ?n" "\<forall>i < ?n. P i (es ! i) (ms ! i)"
      by (rule choose_lists)
    note em = em [unfolded P_def]
    have u: "unat (word_of_nat (i + 1) :: u8) = i + 1" if "i < ?n" for i
      using that n(3) by (intro unat_u8_of_nat) simp
    have "received rfc ref (deliver_of fo2 n ton addr pid scts) es = Inr ms"
      unfolding received_def by (rule rmapM_intro) (use em in \<open>simp add: list_all2_conv_all_nth\<close>)
    moreover have "map sms_text ms = parts" using em n(1) by (intro nth_equalityI) simp_all
    moreover have "map (\<lambda>m. unat (segment_sequence m)) ms = [1..<?n + 1]"
      "map (\<lambda>s. unat (part_index s)) subs = [1..<?n + 1]"
      using em u by (auto intro!: nth_equalityI simp del: of_nat_add upt_Suc simp: nth_upt)
    moreover have "list_all (\<lambda>m. unat (segment_total m) = ?n) ms"
      using em n(3) by (simp add: list_all_length)
    moreover have "list_all2 carries subs es" using em by (simp add: list_all2_conv_all_nth)
    ultimately show ?thesis using n many(1) by (intro exI [of _ es] exI [of _ ms]) auto
  qed
qed

lemma sample_submission:
  "\<exists>c' subs. build_mo_submissions 1 0 (us ''+447700'') [72, 105, 13] (us ''+44'') = (c', Inr subs)"
proof -
  have t: "trim_end_crlf [72, 105, 13] = [72, 105]" "trim_end_crlf [72, 105] = [72, 105]"
    by (simp_all add: trim_end_crlf_def)
  have g: "gsm7_septets [72, 105] = Some [72, 105]"
    by (simp add: gsm7_basic_value_def gsm7_basic_value_table_def in_ranges_def)
  have r: "normalized_address_digits (us ''+447700'') = Inr \<lparr>digits = us ''447700'', international = True\<rparr>"
    "normalized_address_digits (us ''+44'') = Inr \<lparr>digits = us ''44'', international = True\<rparr>"
    "str_trim (us ''+447700'') \<noteq> []"
    by (simp_all add: normalized_address_digits_def us_def str_trim_def is_whitespace_def)
  have len: "length (us ''447700'') = 6" "length (us ''44'') = 2" by (simp_all add: us_def)
  show ?thesis
    by (simp add: build_mo_submissions_def build_single_part_mo_submission_def t g r Let_def len
        encode_address_value_def build_sms_submit_tpdu_def encode_submit_user_data_def
        encode_gsm7_user_data_def build_sms_submit_tpdu_encoded_def push_len_prefixed_def
        u8_try_from_def length_encode_semi_octets div_ceil_def del: gsm7_septets.simps)
qed

theorem mo_message_arrives_witness:
  "\<exists>subs es ms. list_all2 carries subs es
    \<and> received (\<lambda>_ _ _ _ _ _ _. None) 9 (deliver_of (if length subs = 1 then 0 else 0x40) 2 0x91 [0x44]
        0 [0, 0, 0, 0, 0, 0, 0]) es = Inr ms
    \<and> concat (map sms_text ms) = [72, 105]"
proof -
  obtain c' subs where run:
    "build_mo_submissions 1 0 (us ''+447700'') [72, 105, 13] (us ''+44'') = (c', Inr subs)"
    using sample_submission by blast
  have "list_all is_char [72, 105, 13]" by (simp add: is_char_def)
  from mo_message_arrives [OF run this, where addr = "[0x44]" and n = 2 and scts = "[0, 0, 0, 0, 0, 0, 0]"
      and ?fo1.0 = 0 and ?fo2.0 = "0x40" and rfc = "\<lambda>_ _ _ _ _ _ _. None" and ref = 9 and ton = "0x91"
      and pid = 0]
  obtain es ms where "list_all2 carries subs es"
    "received (\<lambda>_ _ _ _ _ _ _. None) 9 (deliver_of (if length subs = 1 then 0 else 0x40) 2 0x91 [0x44]
        0 [0, 0, 0, 0, 0, 0, 0]) es = Inr ms" "concat (map sms_text ms) = trim_end_crlf [72, 105, 13]"
    by (auto simp: address_value_octets_def div_ceil_def)
  then show ?thesis
    by (intro exI [of _ subs] exI [of _ es] exI [of _ ms]) (simp add: trim_end_crlf_def)
qed

end
