(* ===== verification/Sms_Runtime.thy ===== *)
theory Sms_Runtime
  imports Sms_Submit Child_Sa
begin

text \<open>
  The SMS delivery state of \<open>connectivity/core/sms_codec.rs\<close>: delivery records with their aggregate
  state and API status, the part list of a concatenated message, and \<open>SmsRuntimeStateMachine\<close> with
  every operation.  \<open>sms_trace\<close> is the set of machines that sequences of operations reach.
\<close>

section \<open>States and records\<close>

datatype SmsDirection = MobileOriginated | MobileTerminated

fun direction_as_str :: "SmsDirection \<Rightarrow> string" where
  "direction_as_str MobileOriginated = ''mobile_originated''"
| "direction_as_str MobileTerminated = ''mobile_terminated''"

datatype SipMessageState = SipQueued | SipSubmitted | SipProvisional | SipAccepted | SipRejected
  | SipTimeout

fun sip_state_as_str :: "SipMessageState \<Rightarrow> string" where
  "sip_state_as_str SipQueued = ''queued''"
| "sip_state_as_str SipSubmitted = ''submitted''"
| "sip_state_as_str SipProvisional = ''provisional''"
| "sip_state_as_str SipAccepted = ''accepted''"
| "sip_state_as_str SipRejected = ''rejected''"
| "sip_state_as_str SipTimeout = ''timeout''"

fun rpdu_ack_as_str :: "RpduAckState \<Rightarrow> string" where
  "rpdu_ack_as_str AckNone = ''none''"
| "rpdu_ack_as_str Acked = ''acked''"
| "rpdu_ack_as_str AckError = ''error''"

datatype SmsDeliveryState = Queued | Submitted | Accepted | Delivered | Received | DeliveryFailed

fun delivery_state_as_str :: "SmsDeliveryState \<Rightarrow> string" where
  "delivery_state_as_str Queued = ''queued''"
| "delivery_state_as_str Submitted = ''submitted''"
| "delivery_state_as_str Accepted = ''accepted''"
| "delivery_state_as_str Delivered = ''delivered''"
| "delivery_state_as_str Received = ''received''"
| "delivery_state_as_str DeliveryFailed = ''failed''"

datatype SmsTransportKind = Tcp | Udp

fun transport_as_str :: "SmsTransportKind \<Rightarrow> string" where
  "transport_as_str Tcp = ''tcp''"
| "transport_as_str Udp = ''udp''"

record SmsPartState =
  part_reference :: u16
  part_sequence :: u8
  part_total :: u8
  part_received :: bool

record SmsDeliveryRecord =
  rec_trace_id :: string
  rec_message_id :: string
  direction :: SmsDirection
  sip_state :: SipMessageState
  rpdu_ack :: RpduAckState
  delivery_reported :: bool
  failure_cause :: "string option"
  retry_count :: u8
  parts :: "SmsPartState list"

definition parts_complete :: "SmsDeliveryRecord \<Rightarrow> bool" where
  "parts_complete r =
     (case parts r of
        [] \<Rightarrow> False
      | p # _ \<Rightarrow>
          let total = part_total p
          in total \<noteq> 0 \<and> list_all (\<lambda>q. part_total q = total) (parts r)
             \<and> list_all (\<lambda>s. list_ex (\<lambda>q. unat (part_sequence q) = s \<and> part_received q) (parts r))
                 [1..<unat total + 1])"

definition aggregate_state :: "SmsDeliveryRecord \<Rightarrow> SmsDeliveryState" where
  "aggregate_state r =
     (if failure_cause r \<noteq> None \<or> sip_state r = SipRejected \<or> sip_state r = SipTimeout
         \<or> rpdu_ack r = AckError then DeliveryFailed
      else if direction r = MobileTerminated then
        if parts_complete r \<or> parts r = [] then Received else Submitted
      else if delivery_reported r then Delivered
      else if rpdu_ack r = Acked \<or> sip_state r = SipAccepted then Accepted
      else (case sip_state r of
          SipQueued \<Rightarrow> Queued
        | SipSubmitted \<Rightarrow> Submitted
        | SipProvisional \<Rightarrow> Submitted
        | SipAccepted \<Rightarrow> Accepted
        | SipRejected \<Rightarrow> DeliveryFailed
        | SipTimeout \<Rightarrow> DeliveryFailed))"

fun status_of_state :: "SmsDeliveryState \<Rightarrow> string" where
  "status_of_state Queued = ''pending''"
| "status_of_state Submitted = ''pending''"
| "status_of_state Accepted = ''sent''"
| "status_of_state Delivered = ''sent''"
| "status_of_state Received = ''received''"
| "status_of_state DeliveryFailed = ''failed''"

definition api_status :: "SmsDeliveryRecord \<Rightarrow> string" where
  "api_status r = status_of_state (aggregate_state r)"

record SmsRpduSummary =
  rs_direction :: string
  rpdu_kind :: string
  rs_user_data_bytes :: nat
  segment_reference_present :: bool
  rs_segment_reference :: "u16 option"
  rs_segment_sequence :: "u8 option"
  rs_segment_total :: "u8 option"
  values_redacted :: bool
  rs_policy :: string

record SmsSipMessageSummary =
  sm_direction :: string
  sm_method :: string
  sm_transport :: string
  sm_sip_state :: string
  sip_status :: "u16 option"
  content_type :: string
  sm_body_bytes :: nat
  sm_policy :: string

record SmsAckPlan =
  ack_kind :: string
  ack_transport :: string
  sip_response_code :: u16
  rp_ack_present :: bool
  ack_failure_cause :: "string option"
  ack_policy :: string

record SmsReassemblyState =
  key_scope :: string
  ra_reference :: u16
  expected_parts :: u8
  received_parts :: u8
  complete :: bool
  duplicate_parts :: u8
  last_sequence :: "u8 option"
  ra_policy :: string

record SmsDeliveryPublicRecord =
  pr_trace_id :: string
  pr_message_id :: string
  pr_direction :: string
  pr_state :: string
  pr_api_status :: string
  pr_sip_state :: string
  pr_rpdu_ack :: string
  pr_delivery_reported :: bool
  pr_failure_cause :: "string option"
  pr_retry_count :: u8
  pr_parts :: "SmsPartState list"
  pr_parts_complete :: bool
  db_fact_source :: string
  pr_policy :: string

definition public_from_record :: "SmsDeliveryRecord \<Rightarrow> SmsDeliveryPublicRecord" where
  "public_from_record r = \<lparr>pr_trace_id = rec_trace_id r, pr_message_id = rec_message_id r,
     pr_direction = direction_as_str (direction r),
     pr_state = delivery_state_as_str (aggregate_state r), pr_api_status = api_status r,
     pr_sip_state = sip_state_as_str (sip_state r), pr_rpdu_ack = rpdu_ack_as_str (rpdu_ack r),
     pr_delivery_reported = delivery_reported r, pr_failure_cause = failure_cause r,
     pr_retry_count = retry_count r, pr_parts = parts r, pr_parts_complete = parts_complete r,
     db_fact_source = ''vowifi_sms_delivery'',
     pr_policy = ''phone_numbers_text_rpdu_and_sip_body_not_serialized''\<rparr>"

datatype SmsRuntimeError = InvalidPart u8 u8 | SipMessageRejected u16 | InconsistentState string

section \<open>The state machine\<close>

record SmsRuntimeStateMachine =
  sms_profile :: CarrierProfile
  sms_receiver_transport :: SmsTransportKind
  subscribe_reg_ready :: bool
  mo :: SmsDeliveryRecord
  mt :: SmsDeliveryRecord
  last_sip_message :: "SmsSipMessageSummary option"
  last_rpdu :: "SmsRpduSummary option"
  last_ack :: "SmsAckPlan option"
  reassembly :: "SmsReassemblyState option"

definition dry_run_record :: "string \<Rightarrow> string \<Rightarrow> SmsDirection \<Rightarrow> SmsDeliveryRecord" where
  "dry_run_record t m d = \<lparr>rec_trace_id = t, rec_message_id = m, direction = d,
     sip_state = SipQueued, rpdu_ack = AckNone, delivery_reported = False, failure_cause = None,
     retry_count = 0, parts = []\<rparr>"

definition sms_runtime_new :: "CarrierProfile \<Rightarrow> SmsRuntimeStateMachine" where
  "sms_runtime_new p = \<lparr>sms_profile = p,
     sms_receiver_transport = (if receiver_transport (sms p) = ''udp'' then Udp else Tcp),
     subscribe_reg_ready = False,
     mo = dry_run_record ''sms-mo-dry-run'' ''mo-dry-run-0001'' MobileOriginated,
     mt = dry_run_record ''sms-mt-dry-run'' ''mt-dry-run-0001'' MobileTerminated,
     last_sip_message = None, last_rpdu = None, last_ack = None, reassembly = None\<rparr>"

definition mark_subscribe_reg_ready :: "SmsRuntimeStateMachine \<Rightarrow> SmsRuntimeStateMachine" where
  "mark_subscribe_reg_ready m = m\<lparr>subscribe_reg_ready := True\<rparr>"

definition queue_mo_text ::
    "SmsRuntimeStateMachine \<Rightarrow> nat \<Rightarrow> SmsRuntimeStateMachine \<times> SmsRpduSummary" where
  "queue_mo_text m n =
     (let rpdu = \<lparr>rs_direction = ''mobile_originated'', rpdu_kind = ''rp_data'',
            rs_user_data_bytes = n, segment_reference_present = False,
            rs_segment_reference = None, rs_segment_sequence = None, rs_segment_total = None,
            values_redacted = True, rs_policy = ''sms_text_tpdu_and_rpdu_bytes_not_serialized''\<rparr>
      in (m\<lparr>mo := (mo m)\<lparr>sip_state := SipQueued\<rparr>, last_rpdu := Some rpdu\<rparr>, rpdu))"

definition submit_mo_sip_message ::
    "SmsRuntimeStateMachine \<Rightarrow> SmsRuntimeStateMachine \<times> SmsSipMessageSummary" where
  "submit_mo_sip_message m =
     (let s = \<lparr>sm_direction = ''outbound'', sm_method = ''MESSAGE'',
            sm_transport = transport_as_str (sms_receiver_transport m),
            sm_sip_state = sip_state_as_str SipSubmitted, sip_status = None,
            content_type = ''application/vnd.3gpp.sms'',
            sm_body_bytes = (case last_rpdu m of None \<Rightarrow> 0 | Some r \<Rightarrow> rs_user_data_bytes r),
            sm_policy = ''sip_message_body_not_serialized''\<rparr>
      in (m\<lparr>mo := (mo m)\<lparr>sip_state := SipSubmitted\<rparr>, last_sip_message := Some s\<rparr>, s))"

definition accept_mo_sip_response :: "SmsRuntimeStateMachine \<Rightarrow> u16
    \<Rightarrow> SmsRuntimeStateMachine \<times> (SmsRuntimeError + SmsSipMessageSummary)" where
  "accept_mo_sip_response m code =
     (if \<not> (200 \<le> code \<and> code < 300) then
        (m\<lparr>mo := (mo m)\<lparr>sip_state := SipRejected,
                        failure_cause := Some (''sip_'' @ show_nat (unat code))\<rparr>\<rparr>,
         Inl (SipMessageRejected code))
      else
        let s = \<lparr>sm_direction = ''inbound'', sm_method = ''MESSAGE'',
              sm_transport = transport_as_str (sms_receiver_transport m),
              sm_sip_state = sip_state_as_str SipAccepted, sip_status = Some code,
              content_type = ''application/vnd.3gpp.sms'', sm_body_bytes = 0,
              sm_policy = ''sip_response_body_not_serialized''\<rparr>
        in (m\<lparr>mo := (mo m)\<lparr>sip_state := SipAccepted\<rparr>, last_sip_message := Some s\<rparr>, Inr s))"

definition accept_mo_rp_ack :: "SmsRuntimeStateMachine \<Rightarrow> SmsRuntimeStateMachine \<times> SmsAckPlan" where
  "accept_mo_rp_ack m =
     (let ack = \<lparr>ack_kind = ''rp_ack'', ack_transport = transport_as_str (sms_receiver_transport m),
            sip_response_code = 200, rp_ack_present = True, ack_failure_cause = None,
            ack_policy = ''ack_body_not_serialized''\<rparr>
      in (m\<lparr>mo := (mo m)\<lparr>rpdu_ack := Acked\<rparr>, last_ack := Some ack\<rparr>, ack))"

definition mark_mo_delivery_reported :: "SmsRuntimeStateMachine \<Rightarrow> SmsRuntimeStateMachine" where
  "mark_mo_delivery_reported m = m\<lparr>mo := (mo m)\<lparr>delivery_reported := True\<rparr>\<rparr>"

definition same_part :: "u16 \<Rightarrow> u8 \<Rightarrow> SmsPartState \<Rightarrow> bool" where
  "same_part reference sequence p \<longleftrightarrow> part_reference p = reference \<and> part_sequence p = sequence"

definition receive_mt_part :: "SmsRuntimeStateMachine \<Rightarrow> u16 \<Rightarrow> u8 \<Rightarrow> u8 \<Rightarrow> nat
    \<Rightarrow> SmsRuntimeStateMachine \<times> (SmsRuntimeError + SmsAckPlan)" where
  "receive_mt_part m reference sequence tot n =
     (if sequence = 0 \<or> tot = 0 \<or> sequence > tot then (m, Inl (InvalidPart sequence tot))
      else
        let old = parts (mt m);
            ps = (if list_ex (same_part reference sequence) old then old
                  else old @ [\<lparr>part_reference = reference, part_sequence = sequence,
                               part_total = tot, part_received = True\<rparr>]);
            mt' = (mt m)\<lparr>sip_state := SipAccepted, rpdu_ack := Acked, parts := ps\<rparr>;
            dups = word_of_nat (length (filter (same_part reference sequence) ps) - 1);
            rcvd = word_of_nat (length (filter
                     (\<lambda>p. part_reference p = reference \<and> part_received p) ps));
            complete_now = parts_complete mt';
            tr = transport_as_str (sms_receiver_transport m);
            ack = \<lparr>ack_kind = (if complete_now then ''rp_ack_complete'' else ''rp_ack_part''),
              ack_transport = tr, sip_response_code = 200, rp_ack_present = True,
              ack_failure_cause = None, ack_policy = ''ack_body_not_serialized''\<rparr>
        in (m\<lparr>mt := mt',
              last_rpdu := Some \<lparr>rs_direction = ''mobile_terminated'', rpdu_kind = ''rp_data'',
                rs_user_data_bytes = n, segment_reference_present = True,
                rs_segment_reference = Some reference, rs_segment_sequence = Some sequence,
                rs_segment_total = Some tot, values_redacted = True,
                rs_policy = ''sms_text_tpdu_and_rpdu_bytes_not_serialized''\<rparr>,
              last_sip_message := Some \<lparr>sm_direction = ''inbound'', sm_method = ''MESSAGE'',
                sm_transport = tr, sm_sip_state = sip_state_as_str SipAccepted, sip_status = None,
                content_type = ''application/vnd.3gpp.sms'', sm_body_bytes = n,
                sm_policy = ''sip_message_body_not_serialized''\<rparr>,
              reassembly := Some \<lparr>key_scope = ''sender_destination_dcs_reference'',
                ra_reference = reference, expected_parts = tot, received_parts = rcvd,
                complete = complete_now, duplicate_parts = dups, last_sequence = Some sequence,
                ra_policy = ''sender_destination_and_sms_text_not_serialized''\<rparr>,
              last_ack := Some ack\<rparr>, Inr ack))"

definition assert_state_consistency :: "SmsRuntimeStateMachine \<Rightarrow> SmsRuntimeError + unit" where
  "assert_state_consistency m =
     (if rpdu_ack (mo m) = Acked \<and> api_status (mo m) = ''pending'' then
        Inl (InconsistentState ''mo_rp_ack_must_not_remain_pending'')
      else if parts_complete (mt m) \<and> api_status (mt m) \<noteq> ''received'' then
        Inl (InconsistentState ''complete_mt_reassembly_must_be_received'')
      else Inr ())"

record SmsRuntimePublicState =
  rt_profile_id :: string
  rt_plmn :: string
  sms_ready :: bool
  rt_receiver_transport :: string
  rt_subscribe_reg_ready :: bool
  pending_delivery_count :: u16
  rt_mo :: SmsDeliveryPublicRecord
  rt_mt :: SmsDeliveryPublicRecord
  rt_last_sip_message :: "SmsSipMessageSummary option"
  rt_last_rpdu :: "SmsRpduSummary option"
  rt_last_ack :: "SmsAckPlan option"
  rt_reassembly :: "SmsReassemblyState option"
  state_consistency_policy :: string
  rt_policy :: string

definition sms_runtime_snapshot :: "SmsRuntimeStateMachine \<Rightarrow> SmsRuntimePublicState" where
  "sms_runtime_snapshot m =
     (let mo_public = public_from_record (mo m); mt_public = public_from_record (mt m)
      in \<lparr>rt_profile_id = profile_id (meta (sms_profile m)), rt_plmn = plmn (meta (sms_profile m)),
          sms_ready = (subscribe_reg_ready m \<and> pr_api_status mo_public = ''sent''
            \<and> pr_api_status mt_public = ''received''),
          rt_receiver_transport = transport_as_str (sms_receiver_transport m),
          rt_subscribe_reg_ready = subscribe_reg_ready m,
          pending_delivery_count = (if pr_api_status mo_public = ''pending'' then 1 else 0)
            + (if pr_api_status mt_public = ''pending'' then 1 else 0),
          rt_mo = mo_public, rt_mt = mt_public, rt_last_sip_message = last_sip_message m,
          rt_last_rpdu = last_rpdu m, rt_last_ack = last_ack m, rt_reassembly = reassembly m,
          state_consistency_policy =
            ''vowifi_sms_delivery_is_single_fact_source_for_logs_api_and_ui'',
          rt_policy = ''phone_numbers_sms_text_rpdu_body_and_sip_body_not_serialized''\<rparr>)"

text \<open>\<open>build_dry_run_sms_snapshot\<close> unwraps three results; \<open>None\<close> stands for a panic.\<close>

definition build_dry_run_sms_snapshot :: "CarrierProfile \<Rightarrow> SmsRuntimePublicState option" where
  "build_dry_run_sms_snapshot p =
     (let m = mark_subscribe_reg_ready (sms_runtime_new p);
          m = fst (queue_mo_text m 23);
          m = fst (submit_mo_sip_message m)
      in (case accept_mo_sip_response m 202 of (m, Inl _) \<Rightarrow> None | (m, Inr _) \<Rightarrow>
          let m = mark_mo_delivery_reported (fst (accept_mo_rp_ack m))
          in (case receive_mt_part m 42 1 2 134 of (m, Inl _) \<Rightarrow> None | (m, Inr _) \<Rightarrow>
             (case receive_mt_part m 42 2 2 118 of (m, Inl _) \<Rightarrow> None | (m, Inr _) \<Rightarrow>
               (case assert_state_consistency m of Inl _ \<Rightarrow> None
                | Inr _ \<Rightarrow> Some (sms_runtime_snapshot m))))))"

section \<open>Runs\<close>

inductive sms_trace :: "CarrierProfile \<Rightarrow> SmsRuntimeStateMachine \<Rightarrow> bool" for p where
  sms_start: "sms_trace p (sms_runtime_new p)"
| sms_ready: "sms_trace p m \<Longrightarrow> sms_trace p (mark_subscribe_reg_ready m)"
| sms_queue: "sms_trace p m \<Longrightarrow> sms_trace p (fst (queue_mo_text m n))"
| sms_submit: "sms_trace p m \<Longrightarrow> sms_trace p (fst (submit_mo_sip_message m))"
| sms_response: "sms_trace p m \<Longrightarrow> sms_trace p (fst (accept_mo_sip_response m code))"
| sms_ack: "sms_trace p m \<Longrightarrow> sms_trace p (fst (accept_mo_rp_ack m))"
| sms_reported: "sms_trace p m \<Longrightarrow> sms_trace p (mark_mo_delivery_reported m)"
| sms_part: "sms_trace p m \<Longrightarrow> sms_trace p (fst (receive_mt_part m r s k n))"

definition part_key :: "SmsPartState \<Rightarrow> u16 \<times> u8" where
  "part_key q = (part_reference q, part_sequence q)"

definition sms_wf :: "SmsRuntimeStateMachine \<Rightarrow> bool" where
  "sms_wf m \<longleftrightarrow> direction (mo m) = MobileOriginated \<and> direction (mt m) = MobileTerminated
     \<and> failure_cause (mt m) = None \<and> sip_state (mt m) \<noteq> SipRejected \<and> sip_state (mt m) \<noteq> SipTimeout
     \<and> rpdu_ack (mt m) \<noteq> AckError \<and> rpdu_ack (mo m) \<noteq> AckError
     \<and> distinct (map part_key (parts (mt m)))
     \<and> list_all (\<lambda>q. part_received q \<and> part_sequence q \<noteq> 0 \<and> part_sequence q \<le> part_total q)
         (parts (mt m))"

lemma same_part_key: "list_ex (same_part r s) ps \<longleftrightarrow> (r, s) \<in> part_key ` set ps"
  by (auto simp: list_ex_iff same_part_def part_key_def image_iff)

lemma sms_wf_trace: "sms_trace p m \<Longrightarrow> sms_wf m"
proof (induction rule: sms_trace.induct)
  case (sms_part m r s k n)
  then show ?case
    by (auto simp: receive_mt_part_def sms_wf_def Let_def same_part_key image_iff not_less)
       (auto simp: part_key_def)
qed (auto simp: sms_runtime_new_def dry_run_record_def mark_subscribe_reg_ready_def queue_mo_text_def
    submit_mo_sip_message_def accept_mo_sip_response_def accept_mo_rp_ack_def
    mark_mo_delivery_reported_def sms_wf_def Let_def)

definition sample_sms_profile :: CarrierProfile where
  "sample_sms_profile =
     \<lparr>meta = \<lparr>profile_id = ''p'', profile_mcc = ''310'', profile_mnc = ''240'', plmn = ''310240'',
        country_iso2 = ''US'', brand = ''b'', operator_legal_name = ''o'', aliases = []\<rparr>,
      epdg = \<lparr>epdg_host = ''e'', epdg_apn = None, epdg_ip_stack = ''ipv4''\<rparr>,
      ikev2 = \<lparr>nat_keepalive_seconds = 20, ike_proposals = [], esp_proposals = [], include_epdg_idr = False,
        identity_template = None\<rparr>,
      ims = \<lparr>ims_domain = ''d'', ims_realm = ''d'', transport = ''udp''\<rparr>,
      sms = \<lparr>receiver_transport = ''udp''\<rparr>\<rparr>"

section \<open>Properties\<close>

text \<open>
  The status is a function of the evidence.  A record reads \<open>failed\<close> exactly when there is a
  failure cause, a SIP rejection or timeout, or an RP error; \<open>received\<close> only on the terminating side;
  \<open>sent\<close> only on the originating side, exactly when nothing failed and a delivery report, an RP
  acknowledgement or a SIP acceptance is there; otherwise it is \<open>pending\<close>.
\<close>

theorem api_status_evidence:
  "let unfailed = (failure_cause r = None \<and> sip_state r \<notin> {SipRejected, SipTimeout}
         \<and> rpdu_ack r \<noteq> AckError);
       good = (delivery_reported r \<or> rpdu_ack r = Acked \<or> sip_state r = SipAccepted)
   in api_status r =
        (if \<not> unfailed then ''failed''
         else if direction r = MobileTerminated
              then (if parts_complete r \<or> parts r = [] then ''received'' else ''pending'')
              else (if good then ''sent'' else ''pending''))"
  by (cases "sip_state r") (auto simp: api_status_def aggregate_state_def Let_def)

text \<open>
  C22: The consistency check never fires.  In every run of the machine, whatever SIP responses and
  parts arrive, \<open>assert_state_consistency\<close> succeeds: an acknowledged message is never pending and a
  complete reassembly always reads received.
\<close>

theorem sms_runtime_consistent:
  assumes "sms_trace p m"
  shows "assert_state_consistency m = Inr ()"
proof -
  have wf: "sms_wf m" by (rule sms_wf_trace [OF assms])
  then have "rpdu_ack (mo m) = Acked \<Longrightarrow> api_status (mo m) \<noteq> ''pending''"
    by (auto simp: sms_wf_def api_status_def aggregate_state_def)
  moreover have "parts_complete (mt m) \<Longrightarrow> api_status (mt m) = ''received''"
    using wf by (simp add: sms_wf_def api_status_def aggregate_state_def)
  ultimately show ?thesis by (auto simp: assert_state_consistency_def)
qed

theorem sms_runtime_consistent_witness:
  "assert_state_consistency (fst (receive_mt_part (fst (accept_mo_rp_ack
     (sms_runtime_new sample_sms_profile))) 7 1 1 10)) = Inr ()"
  by (rule sms_runtime_consistent [OF sms_part [OF sms_ack [OF sms_start]]])

lemma two_parts_complete:
  "parts r = [a, b] \<Longrightarrow> part_total a = 2 \<Longrightarrow> part_total b = 2 \<Longrightarrow> part_sequence a = 1 \<Longrightarrow>
   part_sequence b = 2 \<Longrightarrow> part_received a \<Longrightarrow> part_received b \<Longrightarrow> parts_complete r"
  by (auto simp: parts_complete_def list_all_iff less_Suc_eq numeral_3_eq_3)

lemma card_unat_seqs:
  "distinct (map part_sequence ps) \<Longrightarrow> card (unat ` part_sequence ` set ps) = length ps"
proof -
  assume "distinct (map part_sequence ps)"
  then have "card (part_sequence ` set ps) = length ps"
    using distinct_card [of "map part_sequence ps"] by simp
  moreover have "card (unat ` part_sequence ` set ps) = card (part_sequence ` set ps)"
    by (rule card_image) (auto intro!: inj_onI dest: word_unat_eq_iff [THEN iffD2])
  ultimately show ?thesis by simp
qed

text \<open>
  Reassembly of one message.  In every run in which all received parts carry the same
  reference and the same total \<open>k\<close>, the message is complete exactly when as many parts as announced
  are stored; a part delivered twice is stored once.
\<close>

theorem reassembly_complete_iff_count:
  assumes "sms_trace p m" and "parts (mt m) \<noteq> []"
    and "\<forall>q \<in> set (parts (mt m)). part_reference q = r \<and> part_total q = k"
  shows "parts_complete (mt m) \<longleftrightarrow> length (parts (mt m)) = unat k"
proof -
  let ?ps = "parts (mt m)"
  have wf: "sms_wf m" by (rule sms_wf_trace [OF assms(1)])
  let ?S = "unat ` part_sequence ` set ?ps"
  have "map part_key ?ps = map (Pair r) (map part_sequence ?ps)"
    using assms(3) by (simp add: part_key_def)
  moreover have "distinct (map part_key ?ps)" using wf by (simp add: sms_wf_def)
  ultimately have "distinct (map (Pair r) (map part_sequence ?ps))" by (simp only:)
  then have "distinct (map part_sequence ?ps)" by (simp only: distinct_map)
  then have card: "card ?S = length ?ps" by (rule card_unat_seqs)
  have sub: "?S \<subseteq> {1..unat k}"
    using wf assms(3) by (auto simp: sms_wf_def list_all_iff word_le_nat_alt Suc_le_eq unat_gt_0)
  obtain q0 qs where ps: "?ps = q0 # qs" using assms(2) by (cases ?ps) auto
  have tot: "part_total q0 = k" using assms(3) ps by simp
  have "q0 \<in> set ?ps" using ps by simp
  then have "unat (part_sequence q0) \<in> ?S" by blast
  then have k: "k \<noteq> 0" using sub by auto
  have "parts_complete (mt m) \<longleftrightarrow> (\<forall>s \<in> {1..unat k}. s \<in> ?S)"
  proof -
    have "parts_complete (mt m) \<longleftrightarrow>
        list_all (\<lambda>s. list_ex (\<lambda>q. unat (part_sequence q) = s \<and> part_received q) ?ps) [1..<unat k + 1]"
      using assms(3) k tot unfolding parts_complete_def ps list.case Let_def tot
      by (simp add: list_all_iff ps [symmetric])
    moreover have "list_ex (\<lambda>q. unat (part_sequence q) = s \<and> part_received q) ?ps \<longleftrightarrow> s \<in> ?S" for s
      using wf by (auto simp: list_ex_iff sms_wf_def list_all_iff)
    moreover have "set [1..<unat k + 1] = {1..unat k}" by auto
    ultimately show ?thesis by (simp only: list_all_iff)
  qed
  also have "\<dots> \<longleftrightarrow> ?S = {1..unat k}" using sub by auto
  also have "\<dots> \<longleftrightarrow> length ?ps = unat k"
    using card sub card_subset_eq [OF finite_atLeastAtMost sub] by auto
  finally show ?thesis .
qed

theorem reassembly_complete_iff_count_witness:
  "\<exists>m :: SmsRuntimeStateMachine. parts (mt m) \<noteq> []
     \<and> (parts_complete (mt m) \<longleftrightarrow> length (parts (mt m)) = unat (2 :: u8))"
proof -
  let ?m = "fst (receive_mt_part (sms_runtime_new sample_sms_profile) 9 1 2 10)"
  have t: "sms_trace sample_sms_profile ?m" by (rule sms_part [OF sms_start])
  have "parts (mt ?m) = [\<lparr>part_reference = 9, part_sequence = 1, part_total = 2, part_received = True\<rparr>]"
    by (simp add: receive_mt_part_def sms_runtime_new_def dry_run_record_def Let_def)
  then show ?thesis using reassembly_complete_iff_count [OF t, of 9 2] by (intro exI [of _ ?m]) simp
qed

text \<open>Parts of total \<open>k\<close> handed over one after the other, each with its reference, its number and its
  size, and the answers to them.\<close>

fun receive_parts :: "u8 \<Rightarrow> (u16 \<times> u8 \<times> nat) list \<Rightarrow> SmsRuntimeStateMachine
    \<Rightarrow> SmsRuntimeStateMachine \<times> (SmsRuntimeError + SmsAckPlan) list" where
  "receive_parts k [] m = (m, [])"
| "receive_parts k ((r, s, n) # xs) m =
     (case receive_mt_part m r s k n of (m1, a) \<Rightarrow>
       (case receive_parts k xs m1 of (m2, as) \<Rightarrow> (m2, a # as)))"

definition part_numbers :: "SmsPartState list \<Rightarrow> nat list" where
  "part_numbers ps = map (unat \<circ> part_sequence) ps"

lemma parts_complete_numbers:
  assumes "parts r \<noteq> []" and "\<forall>q \<in> set (parts r). part_total q = k \<and> part_received q" and "k \<noteq> 0"
  shows "parts_complete r \<longleftrightarrow> {1..unat k} \<subseteq> set (part_numbers (parts r))"
proof -
  obtain q0 qs where ps: "parts r = q0 # qs" using assms(1) by (cases "parts r") auto
  have tot: "part_total q0 = k" using assms(2) ps by simp
  have "list_all (\<lambda>q. part_total q = k) (parts r)" using assms(2) by (simp add: list_all_iff)
  then have "parts_complete r \<longleftrightarrow>
      list_all (\<lambda>s. list_ex (\<lambda>q. unat (part_sequence q) = s \<and> part_received q) (parts r)) [1..<unat k + 1]"
    using assms(3) unfolding parts_complete_def by (simp add: ps tot Let_def)
  also have "\<dots> \<longleftrightarrow> (\<forall>s \<in> {1..unat k}. s \<in> set (part_numbers (parts r)))"
  proof -
    have "list_ex (\<lambda>q. unat (part_sequence q) = s \<and> part_received q) (parts r)
        \<longleftrightarrow> s \<in> set (part_numbers (parts r))" for s
      using assms(2) by (auto simp: list_ex_iff part_numbers_def)
    moreover have "set [1..<unat k + 1] = {1..unat k}" by auto
    ultimately show ?thesis by (simp only: list_all_iff)
  qed
  finally show ?thesis by blast
qed

lemma receive_new_part:
  assumes "1 \<le> unat s" and "unat s \<le> unat k" and "unat s \<notin> set (part_numbers (parts (mt m)))"
    and "\<forall>q \<in> set (parts (mt m)). part_total q = k \<and> part_received q"
    and "distinct (part_numbers (parts (mt m)))" and "set (part_numbers (parts (mt m))) \<subseteq> {1..unat k}"
  shows "\<exists>m' a. receive_mt_part m r s k n = (m', Inr a)
    \<and> parts (mt m') = parts (mt m)
        @ [\<lparr>part_reference = r, part_sequence = s, part_total = k, part_received = True\<rparr>]
    \<and> ack_kind a = (if Suc (length (parts (mt m))) = unat k then ''rp_ack_complete'' else ''rp_ack_part'')"
proof -
  let ?ps = "parts (mt m) @ [\<lparr>part_reference = r, part_sequence = s, part_total = k, part_received = True\<rparr>]"
  let ?mt = "(mt m)\<lparr>sip_state := SipAccepted, rpdu_ack := Acked, parts := ?ps\<rparr>"
  have valid: "\<not> (s = 0 \<or> k = 0 \<or> s > k)"
    using assms(1,2) by (auto simp: word_less_nat_alt)
  have new: "\<not> list_ex (same_part r s) (parts (mt m))"
    using assms(3) by (auto simp: list_ex_iff same_part_def part_numbers_def)
  have nums: "distinct (part_numbers ?ps)" "set (part_numbers ?ps) \<subseteq> {1..unat k}"
    using assms by (auto simp: part_numbers_def)
  then have card: "card (set (part_numbers ?ps)) = Suc (length (parts (mt m)))"
    using distinct_card [of "part_numbers ?ps"] by (simp add: part_numbers_def)
  have "parts_complete ?mt \<longleftrightarrow> {1..unat k} \<subseteq> set (part_numbers ?ps)"
    using parts_complete_numbers [of ?mt k] assms(4) valid by simp
  also have "\<dots> \<longleftrightarrow> set (part_numbers ?ps) = {1..unat k}" using nums(2) by blast
  also have "\<dots> \<longleftrightarrow> Suc (length (parts (mt m))) = unat k"
    using card card_subset_eq [OF finite_atLeastAtMost nums(2)] by auto
  finally have "parts_complete ?mt \<longleftrightarrow> Suc (length (parts (mt m))) = unat k" .
  then show ?thesis using valid new by (simp add: receive_mt_part_def Let_def)
qed

lemma receive_parts_acks:
  assumes "\<forall>q \<in> set (parts (mt m)). part_total q = k \<and> part_received q"
    and "distinct (part_numbers (parts (mt m)) @ map (\<lambda>(r, s, n). unat s) xs)"
    and "set (part_numbers (parts (mt m)) @ map (\<lambda>(r, s, n). unat s) xs) \<subseteq> {1..unat k}"
    and "receive_parts k xs m = (m', as)"
  shows "parts (mt m') = parts (mt m) @ map (\<lambda>(r, s, n).
      \<lparr>part_reference = r, part_sequence = s, part_total = k, part_received = True\<rparr>) xs
    \<and> map (rmap ack_kind) as = map (\<lambda>i. Inr (if i = unat k then ''rp_ack_complete'' else ''rp_ack_part''))
        [Suc (length (parts (mt m)))..<Suc (length (parts (mt m)) + length xs)]"
  using assms
proof (induction xs arbitrary: m as)
  case (Cons x xs)
  obtain r s n where x: "x = (r, s, n)" by (cases x)
  obtain m1 a where step: "receive_mt_part m r s k n = (m1, Inr a)"
    and ps: "parts (mt m1) = parts (mt m)
        @ [\<lparr>part_reference = r, part_sequence = s, part_total = k, part_received = True\<rparr>]"
    and kind: "ack_kind a = (if Suc (length (parts (mt m))) = unat k then ''rp_ack_complete'' else ''rp_ack_part'')"
    using receive_new_part [of s k m r n] Cons.prems x by auto
  obtain bs where rest: "receive_parts k xs m1 = (m', bs)" "as = Inr a # bs"
    using Cons.prems(4) by (auto simp: x step split: prod.splits)
  have "parts (mt m') = parts (mt m1) @ map (\<lambda>(r, s, n).
      \<lparr>part_reference = r, part_sequence = s, part_total = k, part_received = True\<rparr>) xs
    \<and> map (rmap ack_kind) bs = map (\<lambda>i. Inr (if i = unat k then ''rp_ack_complete'' else ''rp_ack_part''))
        [Suc (length (parts (mt m1)))..<Suc (length (parts (mt m1)) + length xs)]"
    by (rule Cons.IH [OF _ _ _ rest(1)]) (use Cons.prems(1-3) x ps in \<open>auto simp: part_numbers_def\<close>)
  then show ?case
    using kind by (simp add: rest(2) x ps upt_rec [of "Suc (length (parts (mt m)))"])
qed simp

text \<open>
  C33: Completion is judged across messages.  \<open>parts_complete\<close> does not look at the concatenation
  reference.  Take a machine without parts and hand it one part of each number from 1 to \<open>k\<close>, in any
  order, each with any reference: every part but the last is acknowledged as a part and the last one as
  completing the reassembly, and the message then reads received.  When two of the references differ,
  no message has all its parts: of each reference fewer than \<open>k\<close> parts were recorded.
\<close>

theorem reassembly_mixes_references:
  assumes "sms_trace p m" and "parts (mt m) = []"
    and "distinct (map (\<lambda>(r, s, n). unat s) xs)" and "set (map (\<lambda>(r, s, n). unat s) xs) = {1..unat k}"
    and differ: "(r1, s1, n1) \<in> set xs" "(r2, s2, n2) \<in> set xs" "r1 \<noteq> r2"
    and run: "receive_parts k xs m = (m', as)"
  shows "map (rmap ack_kind) as = replicate (unat k - 1) (Inr ''rp_ack_part'') @ [Inr ''rp_ack_complete'']
    \<and> api_status (mt m') = ''received''
    \<and> (\<forall>r. length (filter (\<lambda>q. part_reference q = r) (parts (mt m'))) < unat k)"
proof -
  let ?ns = "map (\<lambda>(r, s, n). unat s) xs"
  have nums: "distinct ?ns" "set ?ns \<subseteq> {1..unat k}"
    using assms(3,4) by simp_all
  have len: "length xs = unat k" using distinct_card [OF assms(3)] unfolding assms(4) by simp
  then have pos: "0 < unat k" using differ(1) by (metis length_pos_if_in_set)
  have "parts (mt m') = map (\<lambda>(r, s, n).
      \<lparr>part_reference = r, part_sequence = s, part_total = k, part_received = True\<rparr>) xs
    \<and> map (rmap ack_kind) as = map (\<lambda>i. Inr (if i = unat k then ''rp_ack_complete'' else ''rp_ack_part''))
        [Suc 0..<Suc (unat k)]"
    using receive_parts_acks [OF _ _ _ run] assms(2) nums len by (simp add: part_numbers_def)
  then have ps: "parts (mt m') = map (\<lambda>(r, s, n).
      \<lparr>part_reference = r, part_sequence = s, part_total = k, part_received = True\<rparr>) xs"
    and acks: "map (rmap ack_kind) as = map (\<lambda>i. Inr (if i = unat k then ''rp_ack_complete'' else ''rp_ack_part''))
        [Suc 0..<Suc (unat k)]" by blast+
  have "map (\<lambda>i. Inr (if i = unat k then ''rp_ack_complete'' else ''rp_ack_part'')) [Suc 0..<unat k]
      = (replicate (unat k - 1) (Inr ''rp_ack_part'') :: (SmsRuntimeError + string) list)"
    by (rule nth_equalityI) simp_all
  then have "map (rmap ack_kind) as = replicate (unat k - 1) (Inr ''rp_ack_part'') @ [Inr ''rp_ack_complete'']"
    using acks pos by (simp add: upt_Suc_append)
  moreover have "length (filter (\<lambda>q. part_reference q = r) (parts (mt m'))) < unat k" for r
  proof -
    have "\<exists>x \<in> set xs. fst x \<noteq> r" using differ by (metis fst_conv)
    then obtain q where "q \<in> set (parts (mt m'))" "part_reference q \<noteq> r" by (force simp: ps)
    then have "length (filter (\<lambda>q. part_reference q = r) (parts (mt m'))) < length (parts (mt m'))"
      by (rule length_filter_less)
    then show ?thesis by (simp add: ps len)
  qed
  moreover have "api_status (mt m') = ''received''"
  proof -
    have "sms_trace p m'" using assms(1) run
    proof (induction k xs m arbitrary: as rule: receive_parts.induct)
      case (2 k r s n xs m)
      then show ?case using sms_part [OF "2.prems"(1), of r s k n] by (auto split: prod.splits)
    qed simp
    from sms_wf_trace [OF this] have wf: "sms_wf m'" .
    have "k \<noteq> 0" using pos by auto
    have "part_numbers (parts (mt m')) = ?ns" by (simp add: ps part_numbers_def case_prod_beta)
    then have "set (part_numbers (parts (mt m'))) = set ?ns" by (simp only:)
    also have "\<dots> = {1..unat k}" by (rule assms(4))
    finally have "{1..unat k} \<subseteq> set (part_numbers (parts (mt m')))" by simp
    moreover have "parts (mt m') \<noteq> []" "\<forall>q \<in> set (parts (mt m')). part_total q = k \<and> part_received q"
      using len pos by (auto simp: ps)
    ultimately have "parts_complete (mt m')"
      using \<open>k \<noteq> 0\<close> parts_complete_numbers [of "mt m'" k] by blast
    then show ?thesis using wf by (simp add: sms_wf_def api_status_def aggregate_state_def)
  qed
  ultimately show ?thesis by blast
qed

theorem reassembly_mixes_references_witness:
  "\<exists>m' as. receive_parts 3 [(7, 2, 10), (9, 3, 20), (7, 1, 30)] (sms_runtime_new sample_sms_profile) = (m', as)
     \<and> map (rmap ack_kind) as = [Inr ''rp_ack_part'', Inr ''rp_ack_part'', Inr ''rp_ack_complete'']"
proof -
  let ?m = "sms_runtime_new sample_sms_profile" and ?xs = "[(7, 2, 10), (9, 3, 20), (7, 1, 30)] :: (u16 \<times> u8 \<times> nat) list"
  obtain m' as where run: "receive_parts 3 ?xs ?m = (m', as)" by (cases "receive_parts 3 ?xs ?m")
  have start: "parts (mt ?m) = []" by (simp add: sms_runtime_new_def dry_run_record_def)
  have nums: "distinct (map (\<lambda>(r, s, n). unat s) ?xs)" "set (map (\<lambda>(r, s, n). unat s) ?xs) = {1..unat (3 :: u8)}"
    by auto
  have "map (rmap ack_kind) as = replicate (unat (3 :: u8) - 1) (Inr ''rp_ack_part'') @ [Inr ''rp_ack_complete'']"
    using reassembly_mixes_references [OF sms_start start nums, of 7 2 10 9 3 20 m' as] run
    by (simp del: receive_parts.simps)
  moreover have "unat (3 :: u8) - 1 = 2" by simp
  ultimately have "map (rmap ack_kind) as = [Inr ''rp_ack_part'', Inr ''rp_ack_part'', Inr ''rp_ack_complete'']"
    by (simp only: numeral_2_eq_2 replicate.simps append.simps)
  with run show ?thesis by (intro exI [of _ m'] exI [of _ as] conjI)
qed

text \<open>
  The dry run does not panic, for any profile: every step it unwraps succeeds, and the state
  it publishes is ready with nothing pending.
\<close>

theorem dry_run_succeeds:
  "\<exists>s. build_dry_run_sms_snapshot p = Some s \<and> sms_ready s = True \<and> pending_delivery_count s = 0"
proof -
  let ?m0 = "fst (submit_mo_sip_message (fst (queue_mo_text (mark_subscribe_reg_ready (sms_runtime_new p)) 23)))"
  obtain s where s: "accept_mo_sip_response ?m0 202 = (fst (accept_mo_sip_response ?m0 202), Inr s)"
    by (simp add: accept_mo_sip_response_def Let_def)
  let ?m1 = "mark_mo_delivery_reported (fst (accept_mo_rp_ack (fst (accept_mo_sip_response ?m0 202))))"
  have m1: "subscribe_reg_ready ?m1" "direction (mo ?m1) = MobileOriginated"
    "rpdu_ack (mo ?m1) = Acked" "sip_state (mo ?m1) = SipAccepted" "failure_cause (mo ?m1) = None"
    "mt ?m1 = dry_run_record ''sms-mt-dry-run'' ''mt-dry-run-0001'' MobileTerminated"
    by (simp_all add: mark_mo_delivery_reported_def accept_mo_rp_ack_def accept_mo_sip_response_def
        submit_mo_sip_message_def queue_mo_text_def mark_subscribe_reg_ready_def sms_runtime_new_def
        dry_run_record_def Let_def)
  obtain m2 a2 where r2: "receive_mt_part ?m1 42 1 2 134 = (m2, Inr a2)" "mo m2 = mo ?m1"
    "subscribe_reg_ready m2" "mt m2 = (mt ?m1)\<lparr>sip_state := SipAccepted, rpdu_ack := Acked,
       parts := [\<lparr>part_reference = 42, part_sequence = 1, part_total = 2, part_received = True\<rparr>]\<rparr>"
    using m1(1,6) by (simp add: receive_mt_part_def Let_def dry_run_record_def)
  obtain m3 a3 where r3: "receive_mt_part m2 42 2 2 118 = (m3, Inr a3)" "mo m3 = mo m2"
    "subscribe_reg_ready m3" "mt m3 = (mt m2)\<lparr>sip_state := SipAccepted, rpdu_ack := Acked,
       parts := parts (mt m2) @ [\<lparr>part_reference = 42, part_sequence = 2, part_total = 2, part_received = True\<rparr>]\<rparr>"
    using r2(3,4) by (simp add: receive_mt_part_def Let_def same_part_def)
  have mo: "api_status (mo m3) = ''sent''"
    using m1 r2(2) r3(2) by (simp add: api_status_def aggregate_state_def)
  have mt: "parts_complete (mt m3)" "api_status (mt m3) = ''received''"
    using m1(6) r2(4) r3(4) by (simp_all add: api_status_def aggregate_state_def two_parts_complete dry_run_record_def)
  have "assert_state_consistency m3 = Inr ()" using mo mt by (simp add: assert_state_consistency_def)
  then have "build_dry_run_sms_snapshot p = Some (sms_runtime_snapshot m3)"
    unfolding build_dry_run_sms_snapshot_def Let_def
    by (subst s) (simp only: prod.case sum.case r2(1) r3(1))
  then show ?thesis
    using mo mt r3(3) by (simp add: sms_runtime_snapshot_def public_from_record_def Let_def)
qed

end
