(* ===== verification/Register_Retry.thy ===== *)
theory Register_Retry
  imports Rust_Prelude
begin

text \<open>
  The REGISTER retry policy shared by the cellular and Wi-Fi owners
  (\<open>connectivity/core/register_retry.rs\<close>): which P-CSCF endpoints may be tried now, which have to
  wait, and which are stopped for good, plus the gates on restarting a whole discovery pass.  The
  failure description it consumes is the one of \<open>register.rs\<close> and \<open>ims_failure.rs\<close>.

  Every operation takes the clock reading of its caller, as in the source.
\<close>

section \<open>Data\<close>

datatype SocketAddr = V4 (ip4: u32) (port4: u16)
  | V6 (ip6: u128) (port6: u16) (flowinfo: u32) (scope_id: u32)

datatype RegisterFailureKind = TemporaryEndpoint | Transport | FlowFailed | IdentityRejected
  | AuthenticationRejected | Negotiation | TerminalResponse | LocalFailure

datatype RegisterFailureStage = StageInitial | StageAuthentication | StageAuthenticated

datatype RegisterMinExpiresFailure = MinExpiresInvalid | MinExpiresUnsupported
  | MinExpiresExhausted | MinExpiresNegotiated

datatype RetryAfterInvalid = HeadersTooLarge | TooManyHeaders | ValueTooLarge | Duplicate | Syntax
  | Overflow

datatype RetryAfter = RetryAbsent | DelaySeconds u32 | RetryInvalid RetryAfterInvalid

record RegisterFailureMetadata =
  sip_status :: "u16 option"
  stage :: RegisterFailureStage
  kind :: RegisterFailureKind
  retry_after :: RetryAfter
  min_expires :: "RegisterMinExpiresFailure option"

definition is_temporary :: "RegisterFailureMetadata \<Rightarrow> bool" where
  "is_temporary f \<longleftrightarrow> kind f = TemporaryEndpoint \<or> kind f = Transport"

definition status_permits_register_variant_fallback :: "u16 \<Rightarrow> bool" where
  "status_permits_register_variant_fallback s \<longleftrightarrow> s \<in> {400, 415, 420, 421, 494}"

definition permits_variant_fallback :: "RegisterFailureMetadata \<Rightarrow> bool" where
  "permits_variant_fallback f \<longleftrightarrow> min_expires f = None \<and> stage f = StageInitial
     \<and> kind f = Negotiation \<and> retry_after f = RetryAbsent
     \<and> (case sip_status f of None \<Rightarrow> False | Some s \<Rightarrow> status_permits_register_variant_fallback s)"

definition MAX_ENDPOINT_RETRY_ENTRIES :: nat where
  "MAX_ENDPOINT_RETRY_ENTRIES = 32"

definition MAX_ENDPOINT_RETRY_DELAY :: Duration where
  "MAX_ENDPOINT_RETRY_DELAY = from_secs 86400"

definition TEMPORARY_ENDPOINT_DELAY :: Duration where
  "TEMPORARY_ENDPOINT_DELAY = from_secs 30"

definition TRANSPORT_RETRY_DELAY :: Duration where
  "TRANSPORT_RETRY_DELAY = from_secs 5"

definition MIN_ENDPOINT_RETRY_DELAY :: Duration where
  "MIN_ENDPOINT_RETRY_DELAY = from_secs 1"

datatype RetryStopReason = InvalidRetryAfter | RetryAfterTooLong | CapacityExceeded
  | ClockOverflow | OwnershipUncertain

datatype RetryAdmission = Allowed | Deferred Instant | Stopped RetryStopReason

definition is_allowed :: "RetryAdmission \<Rightarrow> bool" where
  "is_allowed a \<longleftrightarrow> a = Allowed"

fun remaining :: "RetryAdmission \<Rightarrow> Instant \<Rightarrow> Duration option" where
  "remaining (Deferred not_before) now = Some (saturating_duration_since not_before now)"
| "remaining Allowed now = None"
| "remaining (Stopped r) now = None"

record EndpointRetryEntry =
  endpoint :: SocketAddr
  admission :: RetryAdmission

record EndpointRetryState =
  entries :: "EndpointRetryEntry list"
  stopped :: "RetryStopReason option"
  restart :: "RetryAdmission option"
  registration_event_wait :: "RetryAdmission option"
  unregister_wait :: "RetryAdmission option"

definition retry_default :: EndpointRetryState where
  "retry_default = \<lparr>entries = [], stopped = None, restart = None, registration_event_wait = None,
     unregister_wait = None\<rparr>"

section \<open>Operations\<close>

fun merge_admission :: "RetryAdmission \<Rightarrow> RetryAdmission \<Rightarrow> RetryAdmission" where
  "merge_admission (Stopped r) b = Stopped r"
| "merge_admission a (Stopped r) = Stopped r"
| "merge_admission (Deferred old) (Deferred new) = Deferred (max old new)"
| "merge_admission (Deferred t) Allowed = Deferred t"
| "merge_admission Allowed (Deferred t) = Deferred t"
| "merge_admission Allowed Allowed = Allowed"

definition to_ipv4_mapped :: "u128 \<Rightarrow> u32 option" where
  "to_ipv4_mapped a = (if drop_bit 32 a = 0xFFFF then Some (ucast a) else None)"

fun canonical_endpoint :: "SocketAddr \<Rightarrow> SocketAddr" where
  "canonical_endpoint (V6 a p f s) =
     (case to_ipv4_mapped a of Some v4 \<Rightarrow> V4 v4 p | None \<Rightarrow> V6 a p 0 s)"
| "canonical_endpoint (V4 a p) = V4 a p"

fun retained :: "Instant \<Rightarrow> RetryAdmission \<Rightarrow> bool" where
  "retained now (Deferred not_before) \<longleftrightarrow> not_before > now"
| "retained now (Stopped r) \<longleftrightarrow> True"
| "retained now Allowed \<longleftrightarrow> False"

definition prune :: "EndpointRetryState \<Rightarrow> Instant \<Rightarrow> EndpointRetryState" where
  "prune s now = s\<lparr>entries := filter (\<lambda>e. retained now (admission e)) (entries s)\<rparr>"

text \<open>The slots of \<open>restart_admission\<close> are emptied once their wait has passed.\<close>

fun expire_slot :: "Instant \<Rightarrow> RetryAdmission option \<Rightarrow> RetryAdmission option" where
  "expire_slot now (Some (Deferred not_before)) =
     (if not_before \<le> now then None else Some (Deferred not_before))"
| "expire_slot now a = a"

definition or_allowed :: "RetryAdmission option \<Rightarrow> RetryAdmission" where
  "or_allowed a = (case a of None \<Rightarrow> Allowed | Some x \<Rightarrow> x)"

definition restart_admission :: "EndpointRetryState \<Rightarrow> Instant \<Rightarrow> EndpointRetryState \<times> RetryAdmission" where
  "restart_admission s now =
    (let s = s\<lparr>restart := expire_slot now (restart s),
               registration_event_wait := expire_slot now (registration_event_wait s),
               unregister_wait := expire_slot now (unregister_wait s)\<rparr>
     in (s, merge_admission (merge_admission (or_allowed (restart s))
              (or_allowed (registration_event_wait s))) (or_allowed (unregister_wait s))))"

fun deferred_at :: "RetryAdmission \<Rightarrow> Instant option" where
  "deferred_at (Deferred t) = Some t"
| "deferred_at Allowed = None"
| "deferred_at (Stopped r) = None"

definition min_instant :: "Instant list \<Rightarrow> Instant option" where
  "min_instant ts = (case ts of [] \<Rightarrow> None | t # rest \<Rightarrow> Some (fold min rest t))"

definition pause_admission :: "EndpointRetryState \<Rightarrow> RetryAdmission" where
  "pause_admission s =
    (case stopped s of
       Some reason \<Rightarrow> Stopped reason
     | None \<Rightarrow>
        (case min_instant (List.map_filter (\<lambda>e. deferred_at (admission e)) (entries s)) of
           Some t \<Rightarrow> Deferred t
         | None \<Rightarrow> (case entries s of [] \<Rightarrow> Allowed | e # _ \<Rightarrow> admission e)))"

definition pause_restart :: "EndpointRetryState \<Rightarrow> Instant \<Rightarrow> EndpointRetryState \<times> RetryAdmission" where
  "pause_restart s now =
    (let s = prune s now in restart_admission (s\<lparr>restart := Some (pause_admission s)\<rparr>) now)"

definition registered :: "EndpointRetryState \<Rightarrow> EndpointRetryState" where
  "registered s = s\<lparr>restart := None\<rparr>"

definition entry_admission :: "EndpointRetryState \<Rightarrow> SocketAddr \<Rightarrow> RetryAdmission" where
  "entry_admission s ep =
    (case List.find (\<lambda>e. endpoint e = ep) (entries s) of None \<Rightarrow> Allowed | Some e \<Rightarrow> admission e)"

definition check :: "EndpointRetryState \<Rightarrow> SocketAddr \<Rightarrow> Instant \<Rightarrow> EndpointRetryState \<times> RetryAdmission" where
  "check s ep now =
    (let ep = canonical_endpoint ep; s = prune s now
     in (s, case stopped s of Some reason \<Rightarrow> Stopped reason | None \<Rightarrow> entry_admission s ep))"

fun strengthen :: "RetryAdmission \<Rightarrow> RetryAdmission \<Rightarrow> RetryAdmission" where
  "strengthen (Stopped r) b = Stopped r"
| "strengthen a (Stopped r) = Stopped r"
| "strengthen (Deferred old) (Deferred new) = Deferred (max old new)"
| "strengthen a b = b"

text \<open>\<open>iter_mut().find\<close>: the first entry of the endpoint is the one that changes.\<close>

fun strengthen_first :: "SocketAddr \<Rightarrow> RetryAdmission \<Rightarrow> EndpointRetryEntry list \<Rightarrow> EndpointRetryEntry list" where
  "strengthen_first ep a [] = []"
| "strengthen_first ep a (e # es) =
    (if endpoint e = ep then e\<lparr>admission := strengthen (admission e) a\<rparr> # es
     else e # strengthen_first ep a es)"

definition record_admission :: "EndpointRetryState \<Rightarrow> SocketAddr \<Rightarrow> RetryAdmission \<Rightarrow> Instant
    \<Rightarrow> EndpointRetryState \<times> RetryAdmission" where
  "record_admission s ep a now =
    (let s = prune s now in
     case List.find (\<lambda>e. endpoint e = ep) (entries s) of
       Some e \<Rightarrow> (s\<lparr>entries := strengthen_first ep a (entries s)\<rparr>, strengthen (admission e) a)
     | None \<Rightarrow>
        if length (entries s) \<ge> MAX_ENDPOINT_RETRY_ENTRIES
        then (s\<lparr>stopped := Some CapacityExceeded\<rparr>, Stopped CapacityExceeded)
        else (s\<lparr>entries := entries s @ [\<lparr>endpoint = ep, admission = a\<rparr>]\<rparr>, a))"

fun is_stopped :: "RetryAdmission \<Rightarrow> bool" where
  "is_stopped (Stopped r) \<longleftrightarrow> True"
| "is_stopped Allowed \<longleftrightarrow> False"
| "is_stopped (Deferred t) \<longleftrightarrow> False"

definition defer_delay :: "EndpointRetryState \<Rightarrow> SocketAddr \<Rightarrow> Duration \<Rightarrow> Instant
    \<Rightarrow> EndpointRetryState \<times> RetryAdmission" where
  "defer_delay s ep delay now =
    (let (s, current) = check s ep now in
     if is_stopped current then (s, current)
     else if delay > MAX_ENDPOINT_RETRY_DELAY
     then record_admission s ep (Stopped RetryAfterTooLong) now
     else case checked_add_instant now (max delay MIN_ENDPOINT_RETRY_DELAY) of
            None \<Rightarrow> (s\<lparr>stopped := Some ClockOverflow\<rparr>, Stopped ClockOverflow)
          | Some not_before \<Rightarrow> record_admission s ep (Deferred not_before) now)"

text \<open>The wait a failure asks for: an error, a delay, or none.\<close>

definition failure_delay :: "RegisterFailureMetadata \<Rightarrow> RetryStopReason + Duration option" where
  "failure_delay f =
    (case (if kind f = Transport then RetryAbsent else retry_after f) of
       RetryInvalid _ \<Rightarrow> Inl InvalidRetryAfter
     | DelaySeconds seconds \<Rightarrow> Inr (Some (from_secs (unat seconds)))
     | RetryAbsent \<Rightarrow>
        (case kind f of
           TemporaryEndpoint \<Rightarrow> Inr (Some TEMPORARY_ENDPOINT_DELAY)
         | Transport \<Rightarrow> Inr (Some TRANSPORT_RETRY_DELAY)
         | _ \<Rightarrow> Inr None))"

definition observe_failure :: "EndpointRetryState \<Rightarrow> SocketAddr \<Rightarrow> RegisterFailureMetadata \<Rightarrow> Instant
    \<Rightarrow> EndpointRetryState \<times> RetryAdmission" where
  "observe_failure s ep f now =
    (let ep = canonical_endpoint ep; (s, current) = check s ep now in
     if is_stopped current then (s, current)
     else case failure_delay f of
            Inl reason \<Rightarrow> record_admission s ep (Stopped reason) now
          | Inr None \<Rightarrow> (s, current)
          | Inr (Some delay) \<Rightarrow> defer_delay s ep delay now)"

definition observe_unregister_failure :: "EndpointRetryState \<Rightarrow> SocketAddr \<Rightarrow> RegisterFailureMetadata
    \<Rightarrow> Instant \<Rightarrow> EndpointRetryState \<times> RetryAdmission" where
  "observe_unregister_failure s ep f now =
    (let (s, a) = observe_failure s ep f now; (s, previous) = restart_admission s now
     in restart_admission (s\<lparr>unregister_wait := Some (merge_admission previous a)\<rparr>) now)"

definition observe_registration_event :: "EndpointRetryState \<Rightarrow> SocketAddr \<Rightarrow> u32 option \<Rightarrow> Instant
    \<Rightarrow> EndpointRetryState \<times> RetryAdmission" where
  "observe_registration_event s ep seconds now =
    (let ep = canonical_endpoint ep;
         (s, a) = defer_delay s ep (case seconds of None \<Rightarrow> TEMPORARY_ENDPOINT_DELAY
                                     | Some n \<Rightarrow> from_secs (unat n)) now;
         s = fst (restart_admission s now)
     in restart_admission (s\<lparr>registration_event_wait :=
          Some (merge_admission (or_allowed (registration_event_wait s)) a)\<rparr>) now)"

datatype RefreshRetryDecision = RetryAfterWait Duration | RetainUntilExpiry Duration | InvalidateBinding

definition refresh_wait_decision :: "RetryAdmission \<Rightarrow> Instant \<Rightarrow> Duration
    \<Rightarrow> RefreshRetryDecision option" where
  "refresh_wait_decision a now lifetime =
    (if lifetime = 0 then Some InvalidateBinding
     else case a of
       Allowed \<Rightarrow> None
     | Deferred not_before \<Rightarrow>
        (let wait = saturating_duration_since not_before now in
         if wait = 0 then None
         else if wait < lifetime then Some (RetryAfterWait wait)
         else Some (RetainUntilExpiry lifetime))
     | Stopped _ \<Rightarrow> Some (RetainUntilExpiry lifetime))"

definition observe_refresh_failure :: "EndpointRetryState \<Rightarrow> SocketAddr \<Rightarrow> RegisterFailureMetadata
    \<Rightarrow> Instant \<Rightarrow> Duration \<Rightarrow> EndpointRetryState \<times> RefreshRetryDecision" where
  "observe_refresh_failure s ep f now lifetime =
    (let (s, a) = observe_failure s ep f now in
     (s, if \<not> is_temporary f \<or> lifetime = 0 then InvalidateBinding
         else case refresh_wait_decision a now lifetime of
                Some d \<Rightarrow> d | None \<Rightarrow> RetainUntilExpiry lifetime))"

section \<open>Gates that stay shut\<close>

text \<open>\<open>blocks a u\<close>: the admission \<open>a\<close> keeps its holder waiting at every instant before \<open>u\<close>.\<close>

fun blocks :: "RetryAdmission \<Rightarrow> Instant \<Rightarrow> bool" where
  "blocks Allowed u \<longleftrightarrow> False"
| "blocks (Deferred t) u \<longleftrightarrow> u \<le> t"
| "blocks (Stopped r) u \<longleftrightarrow> True"

text \<open>What a scheduler relies on: a gate blocked until \<open>u\<close> refuses at every instant before \<open>u\<close>, and
  no call made before \<open>u\<close> opens it.\<close>

locale retry_gate =
  fixes step :: "'c \<Rightarrow> 's \<Rightarrow> 's"
    and clock :: "'c \<Rightarrow> Instant"
    and gate :: "'s \<Rightarrow> Instant \<Rightarrow> RetryAdmission"
    and shut :: "'s \<Rightarrow> Instant \<Rightarrow> bool"
  assumes shut_refuses: "shut s u \<Longrightarrow> now < u \<Longrightarrow> blocks (gate s now) u"
    and shut_step: "shut s u \<Longrightarrow> clock c < u \<Longrightarrow> shut (step c s) u"
begin

lemma shut_run: "shut s u \<Longrightarrow> \<forall>c \<in> set cs. clock c < u \<Longrightarrow> shut (fold step cs s) u"
  by (induction cs arbitrary: s) (auto intro: shut_step)

lemma never_early:
  assumes "shut s u" and "\<forall>c \<in> set cs. clock c < u" and "now < u"
  shows "blocks (gate (fold step cs s) now) u"
  using shut_run [OF assms(1,2)] assms(3) by (rule shut_refuses)

end

subsection \<open>Facts about admissions\<close>

lemma merge_blocks [simp]: "blocks (merge_admission a b) u \<longleftrightarrow> blocks a u \<or> blocks b u"
  by (cases "(a, b)" rule: merge_admission.cases) (auto simp: le_max_iff_disj)

lemma strengthen_blocks [simp]:
  "b \<noteq> Allowed \<Longrightarrow> blocks (strengthen a b) u \<longleftrightarrow> blocks b u \<or> blocks a u"
  by (cases "(a, b)" rule: strengthen.cases; cases b) (auto simp: le_max_iff_disj)

lemma blocks_retained: "blocks a u \<Longrightarrow> now < u \<Longrightarrow> retained now a"
  by (cases a) auto

lemma expire_blocks:
  "now < u \<Longrightarrow> blocks (or_allowed (expire_slot now a)) u \<longleftrightarrow> blocks (or_allowed a) u"
  by (cases "(now, a)" rule: expire_slot.cases) (auto simp: or_allowed_def)

lemma blocks_not_allowed: "blocks a u \<Longrightarrow> \<not> is_allowed a"
  by (cases a) (auto simp: is_allowed_def)

lemma canonical_idem [simp]: "canonical_endpoint (canonical_endpoint ep) = canonical_endpoint ep"
  by (cases ep rule: canonical_endpoint.cases) (auto split: option.splits)

subsection \<open>The endpoint gate\<close>

definition endpoint_shut :: "SocketAddr \<Rightarrow> EndpointRetryState \<Rightarrow> Instant \<Rightarrow> bool" where
  "endpoint_shut ep s u \<longleftrightarrow> stopped s \<noteq> None \<or> blocks (entry_admission s (canonical_endpoint ep)) u"

lemma find_filter_keep:
  "List.find P xs = Some x \<Longrightarrow> Q x \<Longrightarrow> List.find P (filter Q xs) = Some x"
  by (induction xs) (auto split: if_splits)

lemma prune_entry_admission:
  assumes "blocks (entry_admission s ep) u" and "now < u"
  shows "entry_admission (prune s now) ep = entry_admission s ep"
proof -
  obtain e where e: "List.find (\<lambda>e. endpoint e = ep) (entries s) = Some e"
    using assms by (auto simp: entry_admission_def split: option.splits)
  then have "retained now (admission e)"
    using assms blocks_retained by (auto simp: entry_admission_def)
  with e show ?thesis by (simp add: entry_admission_def prune_def find_filter_keep)
qed

lemma prune_stopped [simp]: "stopped (prune s now) = stopped s"
  by (simp add: prune_def)

lemma endpoint_shut_prune: "endpoint_shut ep s u \<Longrightarrow> now < u \<Longrightarrow> endpoint_shut ep (prune s now) u"
  by (auto simp: endpoint_shut_def prune_entry_admission)

lemma find_strengthen_first:
  "List.find (\<lambda>e. endpoint e = q) (strengthen_first ep a es) =
     (if q = ep then map_option (\<lambda>e. e\<lparr>admission := strengthen (admission e) a\<rparr>) (List.find (\<lambda>e. endpoint e = q) es)
      else List.find (\<lambda>e. endpoint e = q) es)"
  by (induction es) auto

lemma endpoint_shut_record:
  assumes "endpoint_shut q s u" and "now < u" and "a \<noteq> Allowed"
  shows "endpoint_shut q (fst (record_admission s ep a now)) u"
proof -
  have p: "endpoint_shut q (prune s now) u" using assms(1,2) by (rule endpoint_shut_prune)
  show ?thesis
    using p assms(3) by (auto simp: record_admission_def Let_def endpoint_shut_def entry_admission_def
        find_strengthen_first find_append split: option.splits)
qed

lemma record_shuts:
  assumes "snd (record_admission s (canonical_endpoint ep) a now) = r" and "blocks r u"
  shows "endpoint_shut ep (fst (record_admission s (canonical_endpoint ep) a now)) u"
  using assms by (auto simp: record_admission_def Let_def endpoint_shut_def entry_admission_def
      find_strengthen_first find_append split: option.splits if_splits)


lemma check_state [simp]: "fst (check s ep now) = prune s now"
  by (simp add: check_def Let_def)

lemma prune_entries_retained: "e \<in> set (entries (prune s now)) \<Longrightarrow> retained now (admission e)"
  by (simp add: prune_def)

lemma check_shuts:
  assumes "blocks (snd (check s ep now)) u"
  shows "endpoint_shut ep (prune s now) u"
  using assms by (auto simp: check_def Let_def endpoint_shut_def split: option.splits)

lemma check_refuses:
  assumes "endpoint_shut ep s u" and "now < u"
  shows "blocks (snd (check s ep now)) u"
  using endpoint_shut_prune [OF assms]
  by (auto simp: check_def Let_def endpoint_shut_def split: option.splits)

lemma defer_delay_cases:
  obtains (keep) "defer_delay s ep d now = check s ep now"
  | (rec) a where "a \<noteq> Allowed" "defer_delay s ep d now = record_admission (prune s now) ep a now"
  | (clock) "defer_delay s ep d now = ((prune s now)\<lparr>stopped := Some ClockOverflow\<rparr>, Stopped ClockOverflow)"
proof -
  obtain c where c: "check s ep now = (prune s now, c)" by (simp add: check_def Let_def)
  note body = defer_delay_def [of s ep d now, unfolded c Let_def prod.case]
  show thesis
  proof (cases "is_stopped c \<or> d > MAX_ENDPOINT_RETRY_DELAY")
    case True
    with body c keep rec [of "Stopped RetryAfterTooLong"] show thesis by (cases "is_stopped c") auto
  next
    case False
    with body clock rec show thesis
      by (cases "checked_add_instant now (max d MIN_ENDPOINT_RETRY_DELAY)") auto
  qed
qed

lemma endpoint_shut_defer:
  assumes "endpoint_shut q s u" and "now < u"
  shows "endpoint_shut q (fst (defer_delay s ep d now)) u"
proof (cases rule: defer_delay_cases [of s ep d now])
  case keep
  with assms show ?thesis by (simp add: endpoint_shut_prune)
next
  case (rec a)
  with assms show ?thesis by (simp add: endpoint_shut_record endpoint_shut_prune)
next
  case clock
  then show ?thesis by (simp add: endpoint_shut_def)
qed

lemma defer_shuts:
  assumes "blocks (snd (defer_delay s (canonical_endpoint ep) d now)) u"
  shows "endpoint_shut ep (fst (defer_delay s (canonical_endpoint ep) d now)) u"
proof (cases rule: defer_delay_cases [of s "canonical_endpoint ep" d now])
  case keep
  with assms check_shuts [of s "canonical_endpoint ep" now u] show ?thesis
    by (simp add: endpoint_shut_def)
next
  case (rec a)
  with assms record_shuts [OF refl] show ?thesis by simp
next
  case clock
  then show ?thesis by (simp add: endpoint_shut_def)
qed

lemma observe_failure_cases:
  obtains (keep) "observe_failure s ep f now = check s (canonical_endpoint ep) now"
  | (rec) a where "a \<noteq> Allowed"
      "observe_failure s ep f now = record_admission (prune s now) (canonical_endpoint ep) a now"
  | (wait) d where "observe_failure s ep f now = defer_delay (prune s now) (canonical_endpoint ep) d now"
proof -
  obtain c where c: "check s (canonical_endpoint ep) now = (prune s now, c)"
    by (simp add: check_def Let_def)
  note body = observe_failure_def [of s ep f now, unfolded c Let_def prod.case]
  show thesis
  proof (cases "is_stopped c \<or> failure_delay f = Inr None")
    case True
    with body c keep show thesis by auto
  next
    case False
    with body rec wait show thesis by (cases "failure_delay f"; cases "projr (failure_delay f)") auto
  qed
qed

lemma endpoint_shut_observe:
  assumes "endpoint_shut q s u" and "now < u"
  shows "endpoint_shut q (fst (observe_failure s ep f now)) u"
proof (cases rule: observe_failure_cases [of s ep f now])
  case keep
  with assms show ?thesis by (simp add: endpoint_shut_prune)
next
  case (rec a)
  with assms show ?thesis by (simp add: endpoint_shut_record endpoint_shut_prune)
next
  case (wait d)
  with assms show ?thesis by (simp add: endpoint_shut_defer endpoint_shut_prune)
qed

lemma observe_shuts:
  assumes "blocks (snd (observe_failure s ep f now)) u"
  shows "endpoint_shut ep (fst (observe_failure s ep f now)) u"
proof (cases rule: observe_failure_cases [of s ep f now])
  case keep
  with assms check_shuts [of s "canonical_endpoint ep" now u] show ?thesis
    by (simp add: endpoint_shut_def)
next
  case (rec a)
  with assms record_shuts [OF refl] show ?thesis by simp
next
  case (wait d)
  with assms defer_shuts show ?thesis by simp
qed


subsection \<open>Calls on the policy\<close>

text \<open>The operations a worker may interleave on one state, each with its clock reading.\<close>

datatype RetryCall = CallCheck SocketAddr Instant
  | CallFailure SocketAddr RegisterFailureMetadata Instant
  | CallUnregister SocketAddr RegisterFailureMetadata Instant
  | CallEvent SocketAddr "u32 option" Instant
  | CallRefresh SocketAddr RegisterFailureMetadata Instant Duration
  | CallPause Instant
  | CallRestart Instant
  | CallRegistered Instant

fun retry_step :: "RetryCall \<Rightarrow> EndpointRetryState \<Rightarrow> EndpointRetryState" where
  "retry_step (CallCheck ep t) s = fst (check s ep t)"
| "retry_step (CallFailure ep f t) s = fst (observe_failure s ep f t)"
| "retry_step (CallUnregister ep f t) s = fst (observe_unregister_failure s ep f t)"
| "retry_step (CallEvent ep n t) s = fst (observe_registration_event s ep n t)"
| "retry_step (CallRefresh ep f t l) s = fst (observe_refresh_failure s ep f t l)"
| "retry_step (CallPause t) s = fst (pause_restart s t)"
| "retry_step (CallRestart t) s = fst (restart_admission s t)"
| "retry_step (CallRegistered t) s = registered s"

fun call_clock :: "RetryCall \<Rightarrow> Instant" where
  "call_clock (CallCheck ep t) = t"
| "call_clock (CallFailure ep f t) = t"
| "call_clock (CallUnregister ep f t) = t"
| "call_clock (CallEvent ep n t) = t"
| "call_clock (CallRefresh ep f t l) = t"
| "call_clock (CallPause t) = t"
| "call_clock (CallRestart t) = t"
| "call_clock (CallRegistered t) = t"

lemma restart_admission_entries [simp]:
  "entries (fst (restart_admission s t)) = entries s"
  "stopped (fst (restart_admission s t)) = stopped s"
  by (simp_all add: restart_admission_def Let_def)

lemma endpoint_shut_fields [simp]:
  "endpoint_shut q (fst (restart_admission s t)) u = endpoint_shut q s u"
  "endpoint_shut q (registration_event_wait_update g s) u = endpoint_shut q s u"
  "endpoint_shut q (unregister_wait_update g s) u = endpoint_shut q s u"
  "endpoint_shut q (restart_update g s) u = endpoint_shut q s u"
  by (simp_all add: endpoint_shut_def entry_admission_def)

lemma unregister_state:
  "fst (observe_unregister_failure s ep f now) =
    (let s1 = fst (observe_failure s ep f now); r = restart_admission s1 now
     in fst (restart_admission ((fst r)\<lparr>unregister_wait :=
          Some (merge_admission (snd r) (snd (observe_failure s ep f now)))\<rparr>) now))"
  by (simp add: observe_unregister_failure_def Let_def split_beta)

lemma event_state:
  "fst (observe_registration_event s ep n now) =
    (let r = defer_delay s (canonical_endpoint ep) (case n of None \<Rightarrow> TEMPORARY_ENDPOINT_DELAY
                                     | Some n \<Rightarrow> from_secs (unat n)) now;
         s1 = fst (restart_admission (fst r) now)
     in fst (restart_admission (s1\<lparr>registration_event_wait :=
          Some (merge_admission (or_allowed (registration_event_wait s1)) (snd r))\<rparr>) now))"
  by (simp add: observe_registration_event_def Let_def split_beta)

lemma refresh_state: "fst (observe_refresh_failure s ep f now l) = fst (observe_failure s ep f now)"
  by (simp add: observe_refresh_failure_def Let_def split_beta)

lemma pause_state:
  "fst (pause_restart s now) =
    fst (restart_admission ((prune s now)\<lparr>restart := Some (pause_admission (prune s now))\<rparr>) now)"
  by (simp add: pause_restart_def Let_def)

lemmas call_states = unregister_state event_state refresh_state pause_state

lemma endpoint_shut_step:
  "endpoint_shut q s u \<Longrightarrow> call_clock c < u \<Longrightarrow> endpoint_shut q (retry_step c s) u"
  by (cases c) (simp_all add: call_states Let_def registered_def endpoint_shut_prune
      endpoint_shut_observe endpoint_shut_defer)

interpretation endpoint_gate: retry_gate retry_step call_clock "\<lambda>s now. snd (check s ep now)" "endpoint_shut ep"
  for ep by unfold_locales (simp_all add: check_refuses endpoint_shut_step)


subsection \<open>The restart gates\<close>

definition unregister_shut :: "EndpointRetryState \<Rightarrow> Instant \<Rightarrow> bool" where
  "unregister_shut s u \<longleftrightarrow> blocks (or_allowed (unregister_wait s)) u"

definition event_shut :: "EndpointRetryState \<Rightarrow> Instant \<Rightarrow> bool" where
  "event_shut s u \<longleftrightarrow> blocks (or_allowed (registration_event_wait s)) u"

lemma restart_admission_slots [simp]:
  "unregister_wait (fst (restart_admission s t)) = expire_slot t (unregister_wait s)"
  "registration_event_wait (fst (restart_admission s t)) = expire_slot t (registration_event_wait s)"
  "restart (fst (restart_admission s t)) = expire_slot t (restart s)"
  by (simp_all add: restart_admission_def Let_def)

lemma slots_frame:
  assumes "\<And>g s. sel (entries_update g s) = sel s" and "\<And>g s. sel (stopped_update g s) = sel s"
  shows "sel (prune s now) = sel s" "sel (fst (record_admission s ep a now)) = sel s"
    "sel (fst (defer_delay s ep d now)) = sel s" "sel (fst (observe_failure s ep f now)) = sel s"
proof -
  show prune: "sel (prune s now) = sel s" for s by (simp add: prune_def assms)
  show rec: "sel (fst (record_admission s ep a now)) = sel s" for s ep a
    by (simp add: record_admission_def Let_def assms prune split: option.splits)
  show wait: "sel (fst (defer_delay s ep d now)) = sel s" for s ep d
    by (cases rule: defer_delay_cases [of s ep d now]) (simp_all add: prune rec assms)
  show "sel (fst (observe_failure s ep f now)) = sel s"
    by (cases rule: observe_failure_cases [of s ep f now]) (simp_all add: prune rec wait)
qed

lemmas unregister_frame [simp] = slots_frame [of unregister_wait, simplified]
lemmas event_frame [simp] = slots_frame [of registration_event_wait, simplified]

lemma restart_blocks:
  assumes "now < u"
  shows "blocks (snd (restart_admission s now)) u \<longleftrightarrow> blocks (or_allowed (restart s)) u
    \<or> event_shut s u \<or> unregister_shut s u"
  using assms by (simp add: restart_admission_def Let_def event_shut_def unregister_shut_def expire_blocks)

lemma or_allowed_Some [simp]: "or_allowed (Some a) = a"
  by (simp add: or_allowed_def)

lemma unregister_shut_step:
  assumes "unregister_shut s u" and "call_clock c < u"
  shows "unregister_shut (retry_step c s) u"
proof (cases c)
  case (CallUnregister ep f t)
  let ?s = "fst (observe_failure s ep f t)"
  have "blocks (snd (restart_admission ?s t)) u"
    using assms CallUnregister by (simp add: restart_blocks unregister_shut_def)
  then have "blocks (merge_admission (snd (restart_admission ?s t)) (snd (observe_failure s ep f t))) u"
    by simp
  with CallUnregister assms(2) show ?thesis
    by (simp add: call_states Let_def unregister_shut_def expire_blocks)
qed (use assms in \<open>simp_all add: call_states Let_def registered_def unregister_shut_def expire_blocks\<close>)

lemma event_shut_step:
  assumes "event_shut s u" and "call_clock c < u"
  shows "event_shut (retry_step c s) u"
  using assms by (cases c) (simp_all add: call_states Let_def registered_def event_shut_def expire_blocks)

interpretation unregister_gate: retry_gate retry_step call_clock
    "\<lambda>s now. snd (restart_admission s now)" unregister_shut
  by unfold_locales (simp_all add: restart_blocks unregister_shut_step)

interpretation event_gate: retry_gate retry_step call_clock
    "\<lambda>s now. snd (restart_admission s now)" event_shut
  by unfold_locales (simp_all add: restart_blocks event_shut_step)


subsection \<open>The state invariant\<close>

text \<open>At most 32 entries, of distinct canonical endpoints, each a real wait or stop; every wait ends
  at most a day after the latest clock reading \<open>t\<close>.\<close>

fun ends_by :: "Instant \<Rightarrow> RetryAdmission \<Rightarrow> bool" where
  "ends_by t (Deferred u) \<longleftrightarrow> u \<le> t + MAX_ENDPOINT_RETRY_DELAY"
| "ends_by t Allowed \<longleftrightarrow> True"
| "ends_by t (Stopped r) \<longleftrightarrow> True"

definition retry_wf :: "Instant \<Rightarrow> EndpointRetryState \<Rightarrow> bool" where
  "retry_wf t s \<longleftrightarrow> length (entries s) \<le> MAX_ENDPOINT_RETRY_ENTRIES
     \<and> distinct (map endpoint (entries s))
     \<and> list_all (\<lambda>e. canonical_endpoint (endpoint e) = endpoint e \<and> admission e \<noteq> Allowed
          \<and> ends_by t (admission e)) (entries s)
     \<and> ends_by t (or_allowed (restart s)) \<and> ends_by t (or_allowed (registration_event_wait s))
     \<and> ends_by t (or_allowed (unregister_wait s))"

lemma ends_by_mono: "ends_by t a \<Longrightarrow> t \<le> t' \<Longrightarrow> ends_by t' a"
  by (cases a) auto

lemma ends_by_merge [simp]: "ends_by t (merge_admission a b) \<longleftrightarrow> (is_stopped a \<or> is_stopped b \<or> ends_by t a \<and> ends_by t b)"
  by (cases "(a, b)" rule: merge_admission.cases) auto

lemma ends_by_expire [simp]: "ends_by t (or_allowed a) \<Longrightarrow> ends_by t (or_allowed (expire_slot now a))"
  by (cases "(now, a)" rule: expire_slot.cases) (auto simp: or_allowed_def)

lemma ends_by_strengthen [simp]: "ends_by t a \<Longrightarrow> ends_by t b \<Longrightarrow> ends_by t (strengthen a b)"
  by (cases "(a, b)" rule: strengthen.cases) auto

lemma strengthen_not_allowed [simp]: "b \<noteq> Allowed \<Longrightarrow> strengthen a b \<noteq> Allowed"
  by (cases "(a, b)" rule: strengthen.cases) auto

lemma strengthen_first_keeps:
  "map endpoint (strengthen_first ep a es) = map endpoint es"
  "list_all P es \<Longrightarrow> (\<And>e. P e \<Longrightarrow> P (e\<lparr>admission := strengthen (admission e) a\<rparr>))
     \<Longrightarrow> list_all P (strengthen_first ep a es)"
  by (induction es) auto

lemma retry_wf_mono: "retry_wf t s \<Longrightarrow> t \<le> t' \<Longrightarrow> retry_wf t' s"
  by (auto simp: retry_wf_def list_all_iff intro: ends_by_mono)

lemma retry_wf_default: "retry_wf t retry_default"
  by (simp add: retry_wf_def retry_default_def or_allowed_def)

lemma retry_wf_prune: "retry_wf t s \<Longrightarrow> retry_wf t (prune s now)"
  by (auto simp: retry_wf_def prune_def list_all_iff distinct_map intro: order_trans [OF length_filter_le]
      elim: inj_on_subset)

lemma find_None_map: "List.find (\<lambda>e. f e = x) xs = None \<longleftrightarrow> x \<notin> f ` set xs"
  by (auto simp: find_None_iff)

lemma retry_wf_record:
  assumes "retry_wf t s" and "a \<noteq> Allowed" and "ends_by t a" and "canonical_endpoint ep = ep"
  shows "retry_wf t (fst (record_admission s ep a now))"
proof -
  let ?s = "prune s now"
  have wf: "retry_wf t ?s" using assms(1) by (rule retry_wf_prune)
  show ?thesis
  proof (cases "List.find (\<lambda>e. endpoint e = ep) (entries ?s)")
    case None
    then have "ep \<notin> endpoint ` set (entries ?s)" by (simp add: find_None_map)
    with None wf assms show ?thesis by (auto simp: record_admission_def Let_def retry_wf_def)
  next
    case (Some e)
    have "length (strengthen_first ep a (entries ?s)) = length (entries ?s)"
      using arg_cong [OF strengthen_first_keeps(1), of length] by simp
    with Some wf assms show ?thesis
      by (auto simp: record_admission_def Let_def retry_wf_def strengthen_first_keeps(1)
          intro!: strengthen_first_keeps(2))
  qed
qed


lemma record_ends_by:
  assumes "retry_wf t s" and "ends_by t a"
  shows "ends_by t (snd (record_admission s ep a now))"
proof -
  have "list_all (\<lambda>e. ends_by t (admission e)) (entries (prune s now))"
    using retry_wf_prune [OF assms(1), of now] by (simp add: retry_wf_def list_all_iff)
  then show ?thesis
    using assms(2) by (auto simp: record_admission_def Let_def list_all_iff find_Some_iff
        split: option.splits dest: nth_mem)
qed

lemma check_ends_by:
  assumes "retry_wf t s"
  shows "ends_by t (snd (check s ep now))"
proof -
  have "list_all (\<lambda>e. ends_by t (admission e)) (entries (prune s now))"
    using retry_wf_prune [OF assms(1), of now] by (simp add: retry_wf_def list_all_iff)
  then show ?thesis
    by (auto simp: check_def Let_def entry_admission_def list_all_iff find_Some_iff
        split: option.splits dest: nth_mem)
qed

lemma retry_wf_stopped [simp]: "retry_wf t (stopped_update g s) = retry_wf t s"
  by (simp add: retry_wf_def)

lemma retry_wf_defer:
  assumes "retry_wf t s" and "canonical_endpoint ep = ep" and "now \<le> t"
  shows "retry_wf t (fst (defer_delay s ep d now)) \<and> ends_by t (snd (defer_delay s ep d now))"
proof -
  let ?s = "prune s now"
  have wf: "retry_wf t ?s" using assms(1) by (rule retry_wf_prune)
  obtain c where c: "check s ep now = (?s, c)" by (simp add: check_def Let_def)
  have ec: "ends_by t c" using check_ends_by [OF assms(1), of ep now] c by simp
  have ends: "ends_by t (Deferred u)"
    if "checked_add_instant now (max d MIN_ENDPOINT_RETRY_DELAY) = Some u"
       "d \<le> MAX_ENDPOINT_RETRY_DELAY" for u
    using that assms(3) by (auto simp: checked_add_instant_def MAX_ENDPOINT_RETRY_DELAY_def
        MIN_ENDPOINT_RETRY_DELAY_def from_secs_def split: if_splits)
  note rec = retry_wf_record [OF wf _ _ assms(2), of _ now] record_ends_by [OF wf, of _ ep now]
  show ?thesis
    using c ec ends wf rec by (auto simp: defer_delay_def Let_def not_less split: option.splits)
qed

lemma retry_wf_observe:
  assumes "retry_wf t s" and "now \<le> t"
  shows "retry_wf t (fst (observe_failure s ep f now)) \<and> ends_by t (snd (observe_failure s ep f now))"
proof -
  let ?s = "prune s now"
  have wf: "retry_wf t ?s" using assms(1) by (rule retry_wf_prune)
  obtain c where c: "check s (canonical_endpoint ep) now = (?s, c)" by (simp add: check_def Let_def)
  have ec: "ends_by t c" using check_ends_by [OF assms(1), of "canonical_endpoint ep" now] c by simp
  note rec = retry_wf_record [OF wf, of _ "canonical_endpoint ep" now] record_ends_by [OF wf, of _ "canonical_endpoint ep" now]
    retry_wf_defer [OF wf _ assms(2), of "canonical_endpoint ep"]
  show ?thesis
    using c ec wf rec by (auto simp: observe_failure_def Let_def split: option.splits sum.splits)
qed

lemma retry_wf_restart_admission:
  assumes "retry_wf t s"
  shows "retry_wf t (fst (restart_admission s now)) \<and> ends_by t (snd (restart_admission s now))"
  using assms by (auto simp: retry_wf_def restart_admission_def Let_def)

lemma ends_by_pause:
  assumes "retry_wf t s"
  shows "ends_by t (pause_admission s)"
proof -
  have all: "list_all (\<lambda>e. ends_by t (admission e)) (entries s)"
    using assms by (simp add: retry_wf_def list_all_iff)
  let ?ts = "List.map_filter (\<lambda>e. deferred_at (admission e)) (entries s)"
  have "u \<le> t + MAX_ENDPOINT_RETRY_DELAY" if "u \<in> set ?ts" for u
  proof -
    obtain e where "e \<in> set (entries s)" "deferred_at (admission e) = Some u"
      using \<open>u \<in> set ?ts\<close> by (auto simp: List.map_filter_def)
    with all show ?thesis by (cases "admission e") (auto simp: list_all_iff)
  qed
  moreover have "fold min ts (u :: nat) \<in> set (u # ts)" for u ts
    by (induction ts arbitrary: u) (auto simp: min_def)
  ultimately have "ends_by t (Deferred u)" if "min_instant ?ts = Some u" for u
    using that by (auto simp: min_instant_def split: list.splits)
  then show ?thesis
    using all by (auto simp: pause_admission_def split: option.splits list.splits)
qed

lemma retry_wf_step:
  assumes "retry_wf t s" and "call_clock c \<le> t"
  shows "retry_wf t (retry_step c s)"
proof (cases c)
  case (CallUnregister ep f now)
  have "retry_wf t (fst (observe_failure s ep f now))" "ends_by t (snd (observe_failure s ep f now))"
    using retry_wf_observe [OF assms(1)] assms(2) CallUnregister by auto
  note r = retry_wf_restart_admission [OF this(1), of now] this(2)
  show ?thesis
    unfolding CallUnregister retry_step.simps unregister_state Let_def
    by (rule retry_wf_restart_admission [THEN conjunct1]) (use r in \<open>simp add: retry_wf_def\<close>)
next
  case (CallEvent ep n now)
  let ?r = "defer_delay s (canonical_endpoint ep) (case n of None \<Rightarrow> TEMPORARY_ENDPOINT_DELAY
                                     | Some n \<Rightarrow> from_secs (unat n)) now"
  have "retry_wf t (fst ?r)" "ends_by t (snd ?r)"
    using retry_wf_defer [OF assms(1)] assms(2) CallEvent by auto
  note r = retry_wf_restart_admission [OF this(1), of now] this(2)
  show ?thesis
    unfolding CallEvent retry_step.simps event_state Let_def
    by (rule retry_wf_restart_admission [THEN conjunct1]) (use r in \<open>simp add: retry_wf_def\<close>)
next
  case (CallPause now)
  have "retry_wf t (prune s now)" by (rule retry_wf_prune [OF assms(1)])
  note r = this ends_by_pause [OF this]
  show ?thesis
    unfolding CallPause retry_step.simps pause_state
    by (rule retry_wf_restart_admission [THEN conjunct1]) (use r in \<open>simp add: retry_wf_def\<close>)
next
  case (CallRegistered now)
  then show ?thesis using assms(1) by (simp add: registered_def retry_wf_def or_allowed_def)
qed (use assms in \<open>simp_all add: retry_wf_prune retry_wf_observe refresh_state
      retry_wf_restart_admission\<close>)


lemma retry_wf_run:
  "retry_wf t s \<Longrightarrow> \<forall>c \<in> set cs. call_clock c \<le> t \<Longrightarrow> retry_wf t (fold retry_step cs s)"
  by (induction cs arbitrary: s) (auto intro: retry_wf_step)

subsection \<open>The waits that are asked for\<close>

lemma record_blocks: "blocks a u \<Longrightarrow> blocks (snd (record_admission s ep a now)) u"
  by (cases a) (auto simp: record_admission_def Let_def split: option.splits)

lemma defer_blocks:
  assumes "u \<le> now + max d MIN_ENDPOINT_RETRY_DELAY \<or> MAX_ENDPOINT_RETRY_DELAY < d"
  shows "blocks (snd (defer_delay s ep d now)) u"
proof -
  obtain c where c: "check s ep now = (prune s now, c)" by (simp add: check_def Let_def)
  have "blocks c u" if "is_stopped c" using that by (cases c) auto
  then show ?thesis
    using assms c record_blocks by (auto simp: defer_delay_def Let_def checked_add_instant_def)
qed

text \<open>The failure asks its endpoint to wait until \<open>u\<close>: for at least the announced (or default) delay,
  or for ever when the announcement is malformed or exceeds a day.\<close>

definition asks_wait :: "RegisterFailureMetadata \<Rightarrow> Instant \<Rightarrow> Instant \<Rightarrow> bool" where
  "asks_wait f now u \<longleftrightarrow>
    (case failure_delay f of
       Inl _ \<Rightarrow> True
     | Inr None \<Rightarrow> False
     | Inr (Some d) \<Rightarrow> u \<le> now + max d MIN_ENDPOINT_RETRY_DELAY \<or> MAX_ENDPOINT_RETRY_DELAY < d)"

lemma observe_blocks:
  assumes "asks_wait f now u"
  shows "blocks (snd (observe_failure s ep f now)) u"
proof -
  let ?ep = "canonical_endpoint ep"
  obtain c where c: "check s ?ep now = (prune s now, c)" by (simp add: check_def Let_def)
  have "blocks c u" if "is_stopped c" using that by (cases c) auto
  then show ?thesis
    using assms c defer_blocks [of u now] record_blocks [of "Stopped InvalidRetryAfter" u]
    by (auto simp: observe_failure_def Let_def asks_wait_def failure_delay_def
        split: sum.splits option.splits RetryAfter.splits RegisterFailureKind.splits)
qed

lemma unregister_shuts:
  assumes "asks_wait f now u" and "now < u"
  shows "unregister_shut (fst (observe_unregister_failure s ep f now)) u"
  using observe_blocks [OF assms(1), of s ep] assms(2)
  by (simp add: unregister_state Let_def unregister_shut_def expire_blocks)

definition event_delay :: "u32 option \<Rightarrow> Duration" where
  "event_delay n = (case n of None \<Rightarrow> TEMPORARY_ENDPOINT_DELAY | Some n \<Rightarrow> from_secs (unat n))"

lemma event_shuts:
  assumes "u \<le> now + max (event_delay n) MIN_ENDPOINT_RETRY_DELAY \<or> MAX_ENDPOINT_RETRY_DELAY < event_delay n"
    and "now < u"
  shows "event_shut (fst (observe_registration_event s ep n now)) u"
  using defer_blocks [OF assms(1), of s "canonical_endpoint ep"] assms(2)
  by (simp add: event_state Let_def event_shut_def expire_blocks event_delay_def)


lemma record_then_check:
  assumes "stopped s = None" and "retained now a"
    and "snd (record_admission s (canonical_endpoint ep) a now) = Deferred u" and "now < u"
  shows "snd (check (fst (record_admission s (canonical_endpoint ep) a now)) ep now) = Deferred u"
proof -
  let ?s = "fst (record_admission s (canonical_endpoint ep) a now)"
  have "stopped ?s = None \<and> entry_admission ?s (canonical_endpoint ep) = Deferred u"
    using assms by (auto simp: record_admission_def Let_def entry_admission_def
        find_strengthen_first find_append split: option.splits if_splits)
  moreover from this have "entry_admission (prune ?s now) (canonical_endpoint ep) = Deferred u"
    using prune_entry_admission [of ?s "canonical_endpoint ep" u now] assms(4) by simp
  ultimately show ?thesis by (simp add: check_def Let_def)
qed

lemma check_twice: "check (prune s now) ep now = check s ep now"
  by (simp add: check_def Let_def prune_def)

lemma check_canonical: "check s (canonical_endpoint ep) now = check s ep now"
  by (simp add: check_def Let_def)

lemma not_stopped_check: "\<not> is_stopped (snd (check s ep now)) \<Longrightarrow> stopped s = None"
  by (auto simp: check_def Let_def split: option.splits)

lemma defer_then_check:
  assumes "snd (defer_delay s (canonical_endpoint ep) d now) = Deferred u" and "now < u"
  shows "snd (check (fst (defer_delay s (canonical_endpoint ep) d now)) ep now) = Deferred u"
proof -
  let ?ep = "canonical_endpoint ep"
  obtain c where c: "check s ?ep now = (prune s now, c)" by (simp add: check_def Let_def)
  show ?thesis
  proof (cases "is_stopped c")
    case True
    with c assms show ?thesis by (cases c) (auto simp: defer_delay_def)
  next
    case False
    then have "stopped s = None" using not_stopped_check [of s ?ep now] c by simp
    then have rec: "snd (check (fst (record_admission (prune s now) ?ep a now)) ep now) = Deferred u"
      if "retained now a" "snd (record_admission (prune s now) ?ep a now) = Deferred u" for a
      using record_then_check [OF _ that assms(2)] by simp
    have "retained now (Deferred v)" if "checked_add_instant now (max d MIN_ENDPOINT_RETRY_DELAY) = Some v" for v
      using that by (auto simp: checked_add_instant_def MIN_ENDPOINT_RETRY_DELAY_def from_secs_def
          split: if_splits)
    with rec c False assms show ?thesis
      by (auto simp: defer_delay_def Let_def split: option.splits if_splits)
  qed
qed

lemma observe_then_check:
  assumes "snd (observe_failure s ep f now) = Deferred u" and "now < u"
  shows "snd (check (fst (observe_failure s ep f now)) ep now) = Deferred u"
proof -
  let ?ep = "canonical_endpoint ep"
  obtain c where c: "check s ?ep now = (prune s now, c)" by (simp add: check_def Let_def)
  have keep: "snd (check (prune s now) ep now) = c"
    using c check_canonical [of s ep now] by (simp add: check_twice)
  show ?thesis
  proof (cases "is_stopped c")
    case True
    with c keep assms show ?thesis by (simp add: observe_failure_def)
  next
    case False
    then have "stopped (prune s now) = None" using not_stopped_check [of s ?ep now] c by simp
    note rec = record_then_check [OF this _ _ assms(2), of "Stopped _"]
      and wait = defer_then_check [OF _ assms(2), of "prune s now" ep]
    note body = observe_failure_def [of s ep f now, unfolded Let_def c prod.case]
    show ?thesis
    proof (cases "failure_delay f")
      case (Inl r)
      with body False assms(1) rec show ?thesis by simp
    next
      case (Inr w)
      with body False assms(1) wait keep show ?thesis by (cases w) simp_all
    qed
  qed
qed

section \<open>Properties\<close>

definition sample_failure :: RegisterFailureMetadata where
  "sample_failure = \<lparr>sip_status = Some 503, stage = StageInitial, kind = TemporaryEndpoint,
     retry_after = DelaySeconds 120, min_expires = None\<rparr>"

lemma sample_asks_wait: "asks_wait sample_failure 0 (from_secs 120)"
  by (simp add: asks_wait_def sample_failure_def failure_delay_def from_secs_def)

text \<open>
  C13: An endpoint's wait is kept.  When a failed REGISTER asks an endpoint to wait (a temporary
  failure, a transport failure, or any \<open>Retry-After\<close>), the endpoint, under any spelling of its
  address, is refused at every instant before the wait ends, whatever calls on any endpoints are
  made in between, successful registrations included.  A malformed or over-long \<open>Retry-After\<close> stops
  the endpoint for good.
\<close>

theorem retry_endpoint_wait_is_kept:
  assumes "asks_wait f t u" and "t < u" and "\<forall>c \<in> set cs. call_clock c < u" and "now < u"
    and "canonical_endpoint ep' = canonical_endpoint ep"
  shows "blocks (snd (check (fold retry_step cs (fst (observe_failure s ep f t))) ep' now)) u"
proof -
  have "endpoint_shut ep' (fst (observe_failure s ep f t)) u"
    using observe_shuts [OF observe_blocks [OF assms(1)]] assms(5) by (simp add: endpoint_shut_def)
  then show ?thesis using assms(3,4) by (rule endpoint_gate.never_early)
qed

theorem retry_endpoint_wait_is_kept_witness:
  "blocks (snd (check (fold retry_step [CallRegistered 5, CallFailure (V4 9 9) sample_failure 6]
     (fst (observe_failure retry_default (V6 0xFFFFC0000201 5060 7 0) sample_failure 0)))
     (V4 0xC0000201 5060) 119000000000)) (from_secs 120)"
  by (rule retry_endpoint_wait_is_kept [OF sample_asks_wait])
     (simp_all add: from_secs_def to_ipv4_mapped_def)

text \<open>
  C27: Waits of the registration as a whole are kept.  A wait learned from a failed deregistration,
  or announced by a registration event, keeps the restart gate shut at every instant before its end:
  neither a later success, nor a pause with shorter endpoint waits, nor any other call opens it.
\<close>

theorem retry_restart_wait_is_kept:
  assumes "t < u" and "\<forall>c \<in> set cs. call_clock c < u" and "now < u"
    and "asks_wait f t u \<and> s' = fst (observe_unregister_failure s ep f t)
       \<or> u \<le> t + max (event_delay n) MIN_ENDPOINT_RETRY_DELAY
         \<and> s' = fst (observe_registration_event s ep n t)"
  shows "blocks (snd (restart_admission (fold retry_step cs s') now)) u"
  using assms(4)
proof (elim disjE conjE)
  assume "asks_wait f t u" and s': "s' = fst (observe_unregister_failure s ep f t)"
  then have "unregister_shut s' u" using unregister_shuts [OF _ assms(1)] by simp
  then show ?thesis using assms(2,3) by (rule unregister_gate.never_early)
next
  assume "u \<le> t + max (event_delay n) MIN_ENDPOINT_RETRY_DELAY"
    and s': "s' = fst (observe_registration_event s ep n t)"
  then have "event_shut s' u" using event_shuts [OF _ assms(1)] by simp
  then show ?thesis using assms(2,3) by (rule event_gate.never_early)
qed

theorem retry_restart_wait_is_kept_witness:
  "blocks (snd (restart_admission (fold retry_step [CallRegistered 5, CallPause 6]
     (fst (observe_unregister_failure retry_default (V4 1 5060) sample_failure 0))) 119000000000))
     (from_secs 120)"
  by (rule retry_restart_wait_is_kept [where t = 0 and f = sample_failure and s = retry_default
        and ep = "V4 1 5060" and n = None])
     (use sample_asks_wait in \<open>simp_all add: from_secs_def\<close>)

text \<open>
  C34: Bounded state and bounded waits.  In every run the policy keeps at most 32 entries, of
  pairwise distinct canonical endpoints, and a day after the last call no endpoint and no restart is
  still deferred: each is allowed or stopped for good.
\<close>

theorem retry_state_bounded:
  assumes "\<forall>c \<in> set cs. call_clock c \<le> t" and "s = fold retry_step cs retry_default"
    and "t + MAX_ENDPOINT_RETRY_DELAY \<le> now"
  shows "length (entries s) \<le> 32 \<and> distinct (map (canonical_endpoint \<circ> endpoint) (entries s))
    \<and> remaining (snd (check s ep now)) now = None
    \<and> remaining (snd (restart_admission s now)) now = None"
proof -
  have wf: "retry_wf t s" using retry_wf_run [OF retry_wf_default assms(1)] assms(2) by simp
  have canonical: "map (canonical_endpoint \<circ> endpoint) (entries s) = map endpoint (entries s)"
    using wf by (auto simp: retry_wf_def list_all_iff)
  have "distinct (map (canonical_endpoint \<circ> endpoint) (entries s))"
    unfolding canonical using wf by (simp add: retry_wf_def)
  moreover have ended: "deferred_at a = None \<or> \<not> retained now a" if "ends_by t a" for a
    using that assms(3) by (cases a) auto
  have "deferred_at (snd (check s ep now)) = None"
    using ended retry_wf_prune [OF wf, of now] prune_entries_retained [of _ s now]
    by (auto simp: check_def Let_def entry_admission_def retry_wf_def list_all_iff find_Some_iff
        split: option.splits dest: nth_mem)
  moreover have "deferred_at (or_allowed (expire_slot now a)) = None" if "ends_by t (or_allowed a)" for a
    using that assms(3) by (cases "(now, a)" rule: expire_slot.cases) (auto simp: or_allowed_def)
  moreover have "remaining a now = None \<longleftrightarrow> deferred_at a = None" for a by (cases a) auto
  moreover have "deferred_at (merge_admission a b) = None"
    if "deferred_at a = None" "deferred_at b = None" for a b
    using that by (cases "(a, b)" rule: merge_admission.cases) auto
  ultimately show ?thesis
    using wf by (simp add: retry_wf_def MAX_ENDPOINT_RETRY_ENTRIES_def restart_admission_def Let_def)
qed

theorem retry_state_bounded_witness:
  "length (entries (fold retry_step [CallFailure (V4 9 9) sample_failure 6] retry_default)) \<le> 32"
  using retry_state_bounded [of "[CallFailure (V4 9 9) sample_failure 6]" 6 _ "6 + MAX_ENDPOINT_RETRY_DELAY"]
  by simp

text \<open>
  Refresh decisions.  After a failed refresh the old binding is given up exactly when the
  failure is not temporary or the binding has expired.  Otherwise the decision is to wait: a retry
  is scheduled for the very instant the endpoint's wait ends and before the binding expires, or the
  binding is kept, unrenewed, until its original expiry.
\<close>

theorem refresh_decision_sound:
  assumes "observe_refresh_failure s ep f now lifetime = (s', d)"
  shows "case d of
      InvalidateBinding \<Rightarrow> \<not> is_temporary f \<or> lifetime = 0
    | RetryAfterWait w \<Rightarrow> is_temporary f \<and> 0 < w \<and> w < lifetime
        \<and> snd (check s' ep now) = Deferred (now + w)
    | RetainUntilExpiry l \<Rightarrow> is_temporary f \<and> 0 < l \<and> l = lifetime"
proof -
  obtain a where a: "observe_failure s ep f now = (s', a)"
    using assms by (auto simp: observe_refresh_failure_def split: prod.splits)
  have d: "d = (if \<not> is_temporary f \<or> lifetime = 0 then InvalidateBinding
         else case refresh_wait_decision a now lifetime of
                Some d \<Rightarrow> d | None \<Rightarrow> RetainUntilExpiry lifetime)"
    using assms a by (simp add: observe_refresh_failure_def)
  have "snd (check s' ep now) = Deferred u" if "a = Deferred u" "now < u" for u
    using observe_then_check [of s ep f now u] a that by simp
  then show ?thesis
    unfolding d by (auto simp: refresh_wait_decision_def saturating_duration_since_def Let_def
        split: RetryAdmission.splits)
qed

theorem refresh_decision_sound_witness:
  "\<exists>s'. observe_refresh_failure retry_default (V4 1 5060) sample_failure 0 (from_secs 600)
       = (s', RetryAfterWait (from_secs 120))
     \<and> snd (check s' (V4 1 5060) 0) = Deferred (0 + from_secs 120)"
proof -
  have run: "observe_refresh_failure retry_default (V4 1 5060) sample_failure 0 (from_secs 600)
      = (fst (observe_refresh_failure retry_default (V4 1 5060) sample_failure 0 (from_secs 600)),
         RetryAfterWait (from_secs 120))"
    by (simp add: observe_refresh_failure_def observe_failure_def check_def prune_def retry_default_def
        entry_admission_def failure_delay_def sample_failure_def defer_delay_def record_admission_def
        checked_add_instant_def instant_max_def MAX_ENDPOINT_RETRY_DELAY_def is_temporary_def
        MIN_ENDPOINT_RETRY_DELAY_def from_secs_def MAX_ENDPOINT_RETRY_ENTRIES_def
        refresh_wait_decision_def saturating_duration_since_def Let_def)
  from refresh_decision_sound [OF run] run show ?thesis by auto
qed

end
