(* ===== verification/Ims_Access.thy ===== *)
theory Ims_Access
  imports Rust_Prelude
begin

text \<open>
  Selection of the access an IMS registration goes over
  (\<open>connectivity/core/ims_access.rs\<close>): which of the cellular and the Wi-Fi leg may register, given
  what is enabled, available and already registered, the user's preference and what the network
  negotiated.  The reference is the declarative reading of the rules: who is eligible, who is
  preferred, when two registrations may coexist.
\<close>

section \<open>Data\<close>

datatype ImsAccess = Cellular | Wlan

fun access_as_str :: "ImsAccess \<Rightarrow> string" where
  "access_as_str Cellular = ''cellular''"
| "access_as_str Wlan = ''wlan''"

fun reg_id :: "ImsAccess \<Rightarrow> u32" where
  "reg_id Cellular = 1"
| "reg_id Wlan = 2"

datatype ImsAccessPreference = Concurrent | WlanPreferred | CellularPreferred

fun preference_as_str :: "ImsAccessPreference \<Rightarrow> string" where
  "preference_as_str Concurrent = ''concurrent''"
| "preference_as_str WlanPreferred = ''wlan_preferred''"
| "preference_as_str CellularPreferred = ''cellular_preferred''"

datatype ConcurrentRegistrationSupport = ClientIncomplete | NotNegotiated | NotSupported | Negotiated

definition CURRENT_CONCURRENT_SUPPORT :: ConcurrentRegistrationSupport where
  "CURRENT_CONCURRENT_SUPPORT = NotNegotiated"

record ImsAccessInputs =
  cellular_enabled :: bool
  wlan_enabled :: bool
  cellular_available :: bool
  wlan_available :: bool
  cellular_registered :: bool
  wlan_registered :: bool
  device_identity_spoofed :: bool
  preference :: ImsAccessPreference
  concurrent_support :: ConcurrentRegistrationSupport
  multiple_registration_blocked :: bool

record ImsAccessDecision =
  cellular_registers :: bool
  wlan_registers :: bool
  code :: string

section \<open>Operations\<close>

definition decision_none :: "string \<Rightarrow> ImsAccessDecision" where
  "decision_none c = \<lparr>cellular_registers = False, wlan_registers = False, code = c\<rparr>"

definition cellular_only :: "string \<Rightarrow> ImsAccessDecision" where
  "cellular_only c = \<lparr>cellular_registers = True, wlan_registers = False, code = c\<rparr>"

definition wlan_only :: "string \<Rightarrow> ImsAccessDecision" where
  "wlan_only c = \<lparr>cellular_registers = False, wlan_registers = True, code = c\<rparr>"

definition decision_both :: "string \<Rightarrow> ImsAccessDecision" where
  "decision_both c = \<lparr>cellular_registers = True, wlan_registers = True, code = c\<rparr>"

fun permits :: "ImsAccessDecision \<Rightarrow> ImsAccess \<Rightarrow> bool" where
  "permits d Cellular = cellular_registers d"
| "permits d Wlan = wlan_registers d"

definition legs_to_release :: "ImsAccessDecision \<Rightarrow> bool \<Rightarrow> bool \<Rightarrow> ImsAccess list" where
  "legs_to_release d cellular_up wlan_up =
    (if cellular_up \<and> \<not> cellular_registers d then [Cellular] else [])
    @ (if wlan_up \<and> \<not> wlan_registers d then [Wlan] else [])"

definition effective_mode :: "ImsAccessDecision \<Rightarrow> string" where
  "effective_mode d =
    (case (cellular_registers d, wlan_registers d) of
       (True, True) \<Rightarrow> ''concurrent''
     | (False, False) \<Rightarrow> ''none''
     | _ \<Rightarrow> ''single_registration'')"

definition decide :: "ImsAccessInputs \<Rightarrow> ImsAccessDecision" where
  "decide i =
    (let cellular = cellular_enabled i \<and> (cellular_available i \<or> cellular_registered i);
         wlan = wlan_enabled i \<and> (wlan_available i \<or> wlan_registered i)
     in if device_identity_spoofed i
        then (if wlan then wlan_only ''ims_access_wlan_only_spoofed_device_identity''
              else decision_none ''ims_access_none_spoofed_identity_requires_wlan'')
        else case preference i of
          Concurrent \<Rightarrow>
           (case (cellular, wlan) of
              (True, True) \<Rightarrow>
               (if concurrent_support i = Negotiated \<and> \<not> multiple_registration_blocked i
                then decision_both ''ims_access_concurrent_negotiated''
                else if multiple_registration_blocked i
                then wlan_only ''ims_access_single_wlan_multi_flow_blocked''
                else wlan_only ''ims_access_single_wlan_preferred'')
            | (True, False) \<Rightarrow> cellular_only ''ims_access_cellular_only_available''
            | (False, True) \<Rightarrow> wlan_only ''ims_access_wlan_only_available''
            | (False, False) \<Rightarrow> decision_none ''ims_access_none_available'')
        | WlanPreferred \<Rightarrow>
           (if wlan then wlan_only ''ims_access_wlan_preferred''
            else if cellular then cellular_only ''ims_access_cellular_fallback''
            else decision_none ''ims_access_none_available'')
        | CellularPreferred \<Rightarrow>
           (if cellular then cellular_only ''ims_access_cellular_preferred''
            else if wlan then wlan_only ''ims_access_wlan_fallback''
            else decision_none ''ims_access_none_available''))"

definition call_blocks_access_switch :: "string \<Rightarrow> bool" where
  "call_blocks_access_switch st \<longleftrightarrow>
     st \<notin> {''terminated'', ''ended'', ''failed'', ''released'', ''disconnected'', ''cancelled'',
           ''rejected'', ''completed''}"

section \<open>The rules, declaratively\<close>

text \<open>Which accesses may be considered at all, which one is preferred, and when both may register.\<close>

fun eligible :: "ImsAccessInputs \<Rightarrow> ImsAccess \<Rightarrow> bool" where
  "eligible i Cellular \<longleftrightarrow> cellular_enabled i \<and> (cellular_available i \<or> cellular_registered i)
     \<and> \<not> device_identity_spoofed i"
| "eligible i Wlan \<longleftrightarrow> wlan_enabled i \<and> (wlan_available i \<or> wlan_registered i)"

definition preferred :: "ImsAccessInputs \<Rightarrow> ImsAccess" where
  "preferred i = (if preference i = CellularPreferred then Cellular else Wlan)"

definition may_coexist :: "ImsAccessInputs \<Rightarrow> bool" where
  "may_coexist i \<longleftrightarrow> preference i = Concurrent \<and> concurrent_support i = Negotiated
     \<and> \<not> multiple_registration_blocked i"

fun opposite_access :: "ImsAccess \<Rightarrow> ImsAccess" where
  "opposite_access Cellular = Wlan"
| "opposite_access Wlan = Cellular"

lemma decision_registers [simp]:
  "cellular_registers (decision_none c) = False" "wlan_registers (decision_none c) = False"
  "cellular_registers (cellular_only c) = True" "wlan_registers (cellular_only c) = False"
  "cellular_registers (wlan_only c) = False" "wlan_registers (wlan_only c) = True"
  "cellular_registers (decision_both c) = True" "wlan_registers (decision_both c) = True"
  by (simp_all add: decision_none_def cellular_only_def wlan_only_def decision_both_def)

text \<open>
  C28: Access selection.  An access is permitted to register exactly when it is eligible (enabled,
  and available or still registered; never the cellular one under a spoofed device identity) and it
  is the preferred one, or the preferred one is not eligible, or the network negotiated two
  registrations and none was refused.  In particular some access registers whenever one is eligible,
  both only after negotiation, and the legs to release are exactly those up and not permitted.
\<close>

theorem decide_follows_rules:
  "permits (decide i) a = (eligible i a
      \<and> (if eligible i (preferred i) then a = preferred i \<or> may_coexist i else True))
   \<and> set (legs_to_release (decide i) c w)
       = {l. (case l of Cellular \<Rightarrow> c | Wlan \<Rightarrow> w) \<and> \<not> permits (decide i) l}
   \<and> effective_mode (decide i) =
      (if eligible i Cellular \<and> eligible i Wlan \<and> may_coexist i then ''concurrent''
       else if eligible i Cellular \<or> eligible i Wlan then ''single_registration'' else ''none'')"
proof (intro conjI)
  obtain cel wl where cel: "(cellular_enabled i \<and> (cellular_available i \<or> cellular_registered i)) = cel"
    and wl: "(wlan_enabled i \<and> (wlan_available i \<or> wlan_registered i)) = wl" by blast
  have el: "eligible i Cellular = (cel \<and> \<not> device_identity_spoofed i)" "eligible i Wlan = wl"
    using cel wl by auto
  have rule: "permits (decide i) a = (eligible i a
      \<and> (if eligible i (preferred i) then a = preferred i \<or> may_coexist i else True))" for a
    unfolding decide_def Let_def cel wl
    by (cases a; cases "preference i"; cases cel; cases wl; cases "device_identity_spoofed i")
       (simp_all add: el preferred_def may_coexist_def del: eligible.simps)
  then show "permits (decide i) a = (eligible i a
      \<and> (if eligible i (preferred i) then a = preferred i \<or> may_coexist i else True))" .
  show "set (legs_to_release (decide i) c w)
       = {l. (case l of Cellular \<Rightarrow> c | Wlan \<Rightarrow> w) \<and> \<not> permits (decide i) l}"
  proof (rule set_eqI)
    fix l show "l \<in> set (legs_to_release (decide i) c w)
        \<longleftrightarrow> l \<in> {l. (case l of Cellular \<Rightarrow> c | Wlan \<Rightarrow> w) \<and> \<not> permits (decide i) l}"
      by (cases l) (auto simp: legs_to_release_def)
  qed
  have "effective_mode (decide i) =
      (if permits (decide i) Cellular \<and> permits (decide i) Wlan then ''concurrent''
       else if permits (decide i) Cellular \<or> permits (decide i) Wlan then ''single_registration''
       else ''none'')"
    by (simp add: effective_mode_def split: bool.splits)
  then show "effective_mode (decide i) =
      (if eligible i Cellular \<and> eligible i Wlan \<and> may_coexist i then ''concurrent''
       else if eligible i Cellular \<or> eligible i Wlan then ''single_registration'' else ''none'')"
    unfolding rule el preferred_def may_coexist_def
    by (cases "preference i"; cases cel; cases wl; cases "device_identity_spoofed i")
       (simp_all add: el del: eligible.simps)
qed

end
