(* ===== verification/Ims_Coordinator.thy ===== *)
theory Ims_Coordinator
  imports Ims_Access
begin

text \<open>
  Per-line registration admission (\<open>connectivity/core/ims_registration_coordinator.rs\<close>) and the flow
  leases it observes (\<open>connectivity/core/outbound.rs\<close>, lines 36--108).

  A lease is a shared object: its owner changes or drops it while the coordinator holds a
  \<open>Weak\<close> reference.  Leases therefore live in a store of addresses, and a reference is an optional
  address; \<open>upgrade\<close> looks it up.  The two-element arrays indexed by \<open>flow_index\<close> are functions of the
  access.  An operation that reads the clock takes the reading; the reads inside one \<open>admit\<close> share
  one reading and one snapshot.  The asynchronous locks are explicit in the second half.
\<close>

section \<open>Flow leases\<close>

record LeaseState =
  lease_expires :: Instant
  offered :: bool
  negotiated :: bool
  healthy :: bool
  healthy_until :: Instant
  lease_failed :: bool

record FlowLease =
  instance_id :: string
  lease_state :: LeaseState

record FlowLeaseStatus =
  binding_live :: bool
  outbound_offered :: bool
  outbound_negotiated :: bool
  transport_validated :: bool
  expires_in_seconds :: nat

definition lease_status :: "Instant \<Rightarrow> FlowLease \<Rightarrow> FlowLeaseStatus" where
  "lease_status now l =
    (let s = lease_state l; live = (\<not> lease_failed s \<and> now < lease_expires s)
     in \<lparr>binding_live = live, outbound_offered = offered s,
         outbound_negotiated = (live \<and> negotiated s),
         transport_validated = (live \<and> negotiated s \<and> healthy s \<and> now < healthy_until s),
         expires_in_seconds = saturating_duration_since (lease_expires s) now div 1000000000\<rparr>)"

definition proven :: "Instant \<Rightarrow> FlowLease \<Rightarrow> bool" where
  "proven now l \<longleftrightarrow> (let s = lease_state l in negotiated s \<and> healthy s \<and> \<not> lease_failed s
     \<and> now < lease_expires s \<and> now < healthy_until s)"

definition invalidate :: "FlowLease \<Rightarrow> FlowLease" where
  "invalidate l = l\<lparr>lease_state := (lease_state l)\<lparr>lease_failed := True, healthy := False\<rparr>\<rparr>"

definition lease_live :: "Instant \<Rightarrow> FlowLease \<Rightarrow> bool" where
  "lease_live now l \<longleftrightarrow> \<not> lease_failed (lease_state l) \<and> now < lease_expires (lease_state l)"

text \<open>What the coordinator relies on: a proven flow is live, the status is the same judgement as the
  predicates, and an invalidated lease is neither.\<close>

locale flow_lease =
  fixes live prov :: "Instant \<Rightarrow> 'l \<Rightarrow> bool"
    and stat :: "Instant \<Rightarrow> 'l \<Rightarrow> FlowLeaseStatus"
    and inval :: "'l \<Rightarrow> 'l"
  assumes status_live: "binding_live (stat now l) = live now l"
    and status_proven: "transport_validated (stat now l) = prov now l"
    and validated_negotiated: "transport_validated (stat now l) \<Longrightarrow> outbound_negotiated (stat now l)"
    and negotiated_live: "outbound_negotiated (stat now l) \<Longrightarrow> binding_live (stat now l)"
    and inval_dead: "\<not> live now (inval l)"
begin

lemma proven_live: "prov now l \<Longrightarrow> live now l"
  using negotiated_live validated_negotiated status_live status_proven by blast

lemma inval_not_negotiated: "\<not> outbound_negotiated (stat now (inval l))"
  using inval_dead negotiated_live status_live by blast

end

interpretation lease: flow_lease lease_live proven lease_status invalidate
  by unfold_locales (auto simp: lease_status_def proven_def lease_live_def invalidate_def Let_def)

section \<open>The observations of a line\<close>

record OutboundResponseEvidence =
  require_outbound :: bool
  flow_timer_seconds :: "u32 option"

type_synonym Weak = "nat option"
type_synonym leases = "nat \<rightharpoonup> FlowLease"

definition upgrade :: "leases \<Rightarrow> Weak \<Rightarrow> FlowLease option" where
  "upgrade h w = Option.bind w h"

record Observation =
  applied :: ImsAccessDecision
  switch_deferred_for_call :: bool
  last_response :: "ImsAccess \<Rightarrow> OutboundResponseEvidence option"
  flow_of :: "ImsAccess \<Rightarrow> Weak"
  recovery :: "ImsAccess \<Rightarrow> u32 \<times> Instant option"
  outbound_rejected_until :: "ImsAccess \<Rightarrow> Instant option"

definition initial_decision :: ImsAccessDecision where
  "initial_decision = decision_none ''ims_access_not_reconciled''"

definition observation_default :: Observation where
  "observation_default = \<lparr>applied = initial_decision, switch_deferred_for_call = False,
     last_response = (\<lambda>_. None), flow_of = (\<lambda>_. None), recovery = (\<lambda>_. (0, None)),
     outbound_rejected_until = (\<lambda>_. None)\<rparr>"

definition is_none_or :: "('a \<Rightarrow> bool) \<Rightarrow> 'a option \<Rightarrow> bool" where
  "is_none_or P x = (case x of None \<Rightarrow> True | Some v \<Rightarrow> P v)"

definition is_some_and :: "('a \<Rightarrow> bool) \<Rightarrow> 'a option \<Rightarrow> bool" where
  "is_some_and P x = (case x of None \<Rightarrow> False | Some v \<Rightarrow> P v)"

definition attach_flow :: "ImsAccess \<Rightarrow> Weak \<Rightarrow> Observation \<Rightarrow> Observation" where
  "attach_flow a w ob = ob\<lparr>flow_of := (flow_of ob)(a := w)\<rparr>"

definition live_flow :: "leases \<Rightarrow> Observation \<Rightarrow> Instant \<Rightarrow> ImsAccess \<Rightarrow> FlowLease option" where
  "live_flow h ob now a =
    (case upgrade h (flow_of ob a) of
       None \<Rightarrow> None
     | Some l \<Rightarrow> if lease_live now l then Some l else None)"

definition binding_instance :: "leases \<Rightarrow> Observation \<Rightarrow> Instant \<Rightarrow> ImsAccess \<Rightarrow> string option" where
  "binding_instance h ob now a = map_option instance_id (live_flow h ob now a)"

definition registration_instance :: "leases \<Rightarrow> Observation \<Rightarrow> Instant \<Rightarrow> string \<Rightarrow> string" where
  "registration_instance h ob now proposed =
    (case binding_instance h ob now Wlan of
       Some i \<Rightarrow> i
     | None \<Rightarrow> (case binding_instance h ob now Cellular of Some i \<Rightarrow> i | None \<Rightarrow> proposed))"

definition owned_flows :: "leases \<Rightarrow> Observation \<Rightarrow> FlowLease list" where
  "owned_flows h ob = List.map_filter (\<lambda>a. upgrade h (flow_of ob a)) [Cellular, Wlan]"

definition support_from_observation :: "leases \<Rightarrow> Observation \<Rightarrow> Instant \<Rightarrow> ConcurrentRegistrationSupport" where
  "support_from_observation h ob now =
    (let flows = map (lease_status now) (owned_flows h ob) in
     if list_ex outbound_negotiated flows then Negotiated
     else if list_ex (\<lambda>f. binding_live f \<and> outbound_offered f) flows then NotSupported
     else CURRENT_CONCURRENT_SUPPORT)"

definition registration_blocked :: "Observation \<Rightarrow> Instant \<Rightarrow> bool" where
  "registration_blocked ob now \<longleftrightarrow>
     list_ex (\<lambda>a. is_some_and (\<lambda>until. now < until) (outbound_rejected_until ob a)) [Cellular, Wlan]"

definition reject_outbound :: "ImsAccess \<Rightarrow> Instant \<Rightarrow> Observation \<Rightarrow> Observation" where
  "reject_outbound a now ob =
     ob\<lparr>outbound_rejected_until := (outbound_rejected_until ob)(a := Some (now + from_secs 1800))\<rparr>"

definition may_offer_outbound :: "Observation \<Rightarrow> Instant \<Rightarrow> ImsAccess \<Rightarrow> bool" where
  "may_offer_outbound ob now a \<longleftrightarrow> is_none_or (\<lambda>until. now \<ge> until) (outbound_rejected_until ob a)"

definition additional_flow_requires_outbound :: "leases \<Rightarrow> Observation \<Rightarrow> Instant \<Rightarrow> ImsAccess \<Rightarrow> bool" where
  "additional_flow_requires_outbound h ob now a \<longleftrightarrow>
     is_some_and (lease_live now) (upgrade h (flow_of ob (opposite_access a)))"

definition instance_matches :: "leases \<Rightarrow> Observation \<Rightarrow> Instant \<Rightarrow> string \<Rightarrow> bool" where
  "instance_matches h ob now i \<longleftrightarrow>
     list_all (\<lambda>l. instance_id l = i) (filter (lease_live now) (owned_flows h ob))"

definition invalidate_at :: "Weak \<Rightarrow> leases \<Rightarrow> leases" where
  "invalidate_at w h = (case w of None \<Rightarrow> h | Some p \<Rightarrow> h(p := map_option invalidate (h p)))"

definition invalidate_outbound_flows :: "Observation \<Rightarrow> leases \<Rightarrow> leases" where
  "invalidate_outbound_flows ob h =
     invalidate_at (flow_of ob Wlan) (invalidate_at (flow_of ob Cellular) h)"

text \<open>The jittered delay of \<open>flow_failed\<close> is a float computation on a random fraction; it is the
  argument \<open>jitter\<close>, applied to the upper bound in seconds.\<close>

definition flow_failed :: "(nat \<Rightarrow> Duration) \<Rightarrow> leases \<Rightarrow> ImsAccess \<Rightarrow> Instant \<Rightarrow> Observation \<Rightarrow> Observation" where
  "flow_failed jitter h a now ob =
    (let another = is_some_and (proven now) (upgrade h (flow_of ob (opposite_access a)));
         failures = saturating_add (fst (recovery ob a)) 1;
         base = (if another then 90 else 30);
         upper = min (base * 2 ^ min (unat failures) 6) 1800
     in ob\<lparr>recovery := (recovery ob)(a := (failures, Some (now + jitter upper)))\<rparr>)"

definition flow_healthy :: "ImsAccess \<Rightarrow> Observation \<Rightarrow> Observation" where
  "flow_healthy a ob = ob\<lparr>recovery := (recovery ob)(a := (0, None))\<rparr>"

definition recovery_ready :: "Observation \<Rightarrow> Instant \<Rightarrow> ImsAccess \<Rightarrow> bool" where
  "recovery_ready ob now a \<longleftrightarrow> is_none_or (\<lambda>deadline. now \<ge> deadline) (snd (recovery ob a))"

definition flow_creation_ready :: "leases \<Rightarrow> Observation \<Rightarrow> Instant \<Rightarrow> ImsAccess \<Rightarrow> bool" where
  "flow_creation_ready h ob now a \<longleftrightarrow> recovery_ready ob now a
     \<and> (\<not> additional_flow_requires_outbound h ob now a \<or> may_offer_outbound ob now a)"

definition additional_flow_ready :: "leases \<Rightarrow> Observation \<Rightarrow> Instant \<Rightarrow> ImsAccess \<Rightarrow> bool" where
  "additional_flow_ready h ob now a \<longleftrightarrow>
    (if \<not> recovery_ready ob now a then False
     else case live_flow h ob now (opposite_access a) of
       Some flow \<Rightarrow> proven now flow
         \<and> is_none_or (\<lambda>until. now \<ge> until) (outbound_rejected_until ob a)
     | None \<Rightarrow> True)"

definition registration_candidate_ready :: "leases \<Rightarrow> Observation \<Rightarrow> Instant \<Rightarrow> ImsAccess
    \<Rightarrow> ImsAccessPreference \<Rightarrow> bool" where
  "registration_candidate_ready h ob now a pref \<longleftrightarrow>
    (if pref = Concurrent \<and> support_from_observation h ob now = Negotiated
        \<and> \<not> registration_blocked ob now
     then additional_flow_ready h ob now a else recovery_ready ob now a)"

definition defer_switch_for_call :: "Observation \<Rightarrow> Observation" where
  "defer_switch_for_call ob = ob\<lparr>switch_deferred_for_call := True\<rparr>"

definition observe_response :: "ImsAccess \<Rightarrow> bool \<Rightarrow> u32 option \<Rightarrow> Observation \<Rightarrow> Observation" where
  "observe_response a outbound_required timer ob =
     ob\<lparr>last_response := (last_response ob)(a :=
       Some \<lparr>require_outbound = outbound_required, flow_timer_seconds = timer\<rparr>)\<rparr>"

record ImsRegistrationPolicyStatus =
  requested :: ImsAccessPreference
  effective :: string
  status_support :: ConcurrentRegistrationSupport
  status_blocked :: bool
  desired :: ImsAccessDecision
  status_applied :: ImsAccessDecision
  status_deferred :: bool
  status_response :: "ImsAccess \<Rightarrow> OutboundResponseEvidence option"
  status_flow :: "ImsAccess \<Rightarrow> FlowLeaseStatus option"

definition coordinator_status :: "leases \<Rightarrow> Observation \<Rightarrow> Instant \<Rightarrow> ImsAccessPreference
    \<Rightarrow> ImsAccessDecision \<Rightarrow> ImsRegistrationPolicyStatus" where
  "coordinator_status h ob now pref d =
     \<lparr>requested = pref, effective = effective_mode (applied ob),
      status_support = support_from_observation h ob now,
      status_blocked = registration_blocked ob now, desired = d, status_applied = applied ob,
      status_deferred = switch_deferred_for_call ob, status_response = last_response ob,
      status_flow = (\<lambda>a. map_option (lease_status now) (upgrade h (flow_of ob a)))\<rparr>"

text \<open>The judgement of \<open>admit\<close> once it holds its locks.\<close>

definition admit_check :: "leases \<Rightarrow> Observation \<Rightarrow> ImsAccessDecision \<Rightarrow> Instant \<Rightarrow> ImsAccess
    \<Rightarrow> string + unit" where
  "admit_check h ob d now a =
    (let existing = is_some_and (lease_live now) (upgrade h (flow_of ob a)) in
     if \<not> permits d a then Inl ''ims_access_registration_parked''
     else if \<not> existing \<and> \<not> recovery_ready ob now a then Inl ''ims_outbound_recovery_backoff''
     else if \<not> existing \<and> \<not> additional_flow_ready h ob now a
     then Inl ''ims_outbound_additional_flow_not_supported''
     else if \<not> existing \<and> cellular_registers d \<and> wlan_registers d
        \<and> (support_from_observation h ob now \<noteq> Negotiated \<or> registration_blocked ob now)
     then Inl ''ims_access_registration_parked''
     else Inr ())"

section \<open>Locks and tasks\<close>

text \<open>A task is waiting inside \<open>admit\<close> (after the activity read, then after the register lock), holds a
  registration permit or a native observation permit, or merely marks host activity.\<close>

datatype Task = HostBusy | WantsRegister ImsAccess | WantsAdmission ImsAccess
  | HoldsPermit ImsAccess | HoldsNative

text \<open>
  The policy owner holds the line's \<open>transition_lock\<close>, so at most one \<open>publish\<close> or \<open>park\<close> is under way.
  \<open>publish\<close> releases the admission lock with the assignment (the guard of line 146 is a temporary) and
  only then counts the epoch and writes the observation; \<open>park\<close> keeps the lock to its end.
\<close>

datatype PolicyStep = PolicyIdle | PublishCount ImsAccessDecision | PublishApply ImsAccessDecision
  | ParkCount | ParkApply

definition parking :: "PolicyStep \<Rightarrow> bool" where
  "parking p \<longleftrightarrow> p = ParkCount \<or> p = ParkApply"

record Coordinator =
  admission :: ImsAccessDecision
  observation :: Observation
  observation_epoch :: u64
  activity_readers :: "nat set"
  activity_writer :: "nat option"
  register_holder :: "nat option"
  admission_readers :: "nat set"
  admission_writer :: "nat option"
  policy :: PolicyStep
  lease_store :: leases
  tasks :: "nat \<rightharpoonup> Task"

definition coordinator_default :: Coordinator where
  "coordinator_default = \<lparr>admission = initial_decision, observation = observation_default,
     observation_epoch = 0, activity_readers = {}, activity_writer = None, register_holder = None,
     admission_readers = {}, admission_writer = None, policy = PolicyIdle,
     lease_store = Map.empty, tasks = Map.empty\<rparr>"

definition host_activity :: "nat \<Rightarrow> Task \<Rightarrow> Coordinator \<Rightarrow> Coordinator" where
  "host_activity t p c = c\<lparr>activity_readers := insert t (activity_readers c),
     observation_epoch := observation_epoch c + 1, tasks := (tasks c)(t \<mapsto> p)\<rparr>"

text \<open>Dropping the guards of a task, on return, on error or when its future is cancelled.\<close>

definition drop_guards :: "nat \<Rightarrow> Coordinator \<Rightarrow> Coordinator" where
  "drop_guards t c = c\<lparr>activity_readers := activity_readers c - {t},
     activity_writer := (if activity_writer c = Some t then None else activity_writer c),
     register_holder := (if register_holder c = Some t then None else register_holder c),
     admission_readers := admission_readers c - {t},
     admission_writer := (if admission_writer c = Some t then None else admission_writer c),
     tasks := (tasks c)(t := None)\<rparr>"

definition admit_lock_register :: "nat \<Rightarrow> ImsAccess \<Rightarrow> Coordinator \<Rightarrow> Coordinator" where
  "admit_lock_register t a c =
     c\<lparr>register_holder := Some t, tasks := (tasks c)(t \<mapsto> WantsAdmission a)\<rparr>"

definition admit_decide :: "nat \<Rightarrow> ImsAccess \<Rightarrow> Instant \<Rightarrow> Coordinator \<Rightarrow> Coordinator \<times> (string + unit)" where
  "admit_decide t a now c =
    (case admit_check (lease_store c) (observation c) (admission c) now a of
       Inl e \<Rightarrow> (drop_guards t c, Inl e)
     | Inr u \<Rightarrow> (c\<lparr>admission_readers := insert t (admission_readers c),
                   tasks := (tasks c)(t \<mapsto> HoldsPermit a)\<rparr>, Inr ()))"

definition publish_admission :: "ImsAccessDecision \<Rightarrow> Coordinator \<Rightarrow> Coordinator" where
  "publish_admission d c = c\<lparr>admission := d, policy := PublishCount d\<rparr>"

definition park_admission :: "ImsAccess \<Rightarrow> Coordinator \<Rightarrow> Coordinator" where
  "park_admission a c =
    (let d = (case a of Cellular \<Rightarrow> (admission c)\<lparr>cellular_registers := False\<rparr>
                      | Wlan \<Rightarrow> (admission c)\<lparr>wlan_registers := False\<rparr>)
     in c\<lparr>admission := d\<lparr>code := ''ims_access_registration_parked''\<rparr>, policy := ParkCount\<rparr>)"

definition apply_decision :: "ImsAccessDecision \<Rightarrow> Coordinator \<Rightarrow> Coordinator" where
  "apply_decision d c =
     c\<lparr>observation := (observation c)\<lparr>applied := d, switch_deferred_for_call := False\<rparr>,
       policy := PolicyIdle\<rparr>"

text \<open>The rest of a \<open>publish\<close> or \<open>park\<close> under way: the epoch, then the observation.\<close>

definition policy_advance :: "Coordinator \<Rightarrow> Coordinator" where
  "policy_advance c =
    (case policy c of
       PolicyIdle \<Rightarrow> c
     | PublishCount d \<Rightarrow> c\<lparr>observation_epoch := observation_epoch c + 1, policy := PublishApply d\<rparr>
     | PublishApply d \<Rightarrow> apply_decision d c
     | ParkCount \<Rightarrow> c\<lparr>observation_epoch := observation_epoch c + 1, policy := ParkApply\<rparr>
     | ParkApply \<Rightarrow> apply_decision (admission c) c)"

definition try_native_observation :: "nat \<Rightarrow> Coordinator \<Rightarrow> Coordinator \<times> (string + unit)" where
  "try_native_observation t c =
    (if activity_readers c \<noteq> {} \<or> activity_writer c \<noteq> None
     then (c, Inl ''native_ims_host_activity_busy'')
     else if register_holder c \<noteq> None then (c, Inl ''native_ims_host_registration_busy'')
     else if admission_readers c \<noteq> {} \<or> admission_writer c \<noteq> None \<or> parking (policy c)
     then (c, Inl ''native_ims_host_admission_busy'')
     else if cellular_registers (admission c) \<or> wlan_registers (admission c)
     then (c, Inl ''native_ims_host_registration_enabled'')
     else if owned_flows (lease_store c) (observation c) \<noteq> []
     then (c, Inl ''native_ims_host_flow_owned'')
     else (c\<lparr>activity_writer := Some t, register_holder := Some t, admission_writer := Some t,
             tasks := (tasks c)(t \<mapsto> HoldsNative)\<rparr>, Inr ()))"

text \<open>Updates of the observation by the other calls, and one step of the line: a task moves, the
  policy owner takes the admission lock or goes on with its call, an observation arrives, or the owners change their leases.\<close>

inductive observation_step :: "leases \<Rightarrow> Observation \<Rightarrow> Observation \<Rightarrow> bool" for h ob where
  "observation_step h ob (attach_flow a w ob)"
| "observation_step h ob (reject_outbound a now ob)"
| "observation_step h ob (flow_failed jitter h a now ob)"
| "observation_step h ob (flow_healthy a ob)"
| "observation_step h ob (defer_switch_for_call ob)"
| "observation_step h ob (observe_response a r n ob)"

inductive coord_step :: "Coordinator \<Rightarrow> Coordinator \<Rightarrow> bool" for c where
  host: "tasks c t = None \<Longrightarrow> activity_writer c = None \<Longrightarrow> coord_step c (host_activity t HostBusy c)"
| admit_begin: "tasks c t = None \<Longrightarrow> activity_writer c = None
    \<Longrightarrow> coord_step c (host_activity t (WantsRegister a) c)"
| admit_register: "tasks c t = Some (WantsRegister a) \<Longrightarrow> register_holder c = None
    \<Longrightarrow> coord_step c (admit_lock_register t a c)"
| admit_end: "tasks c t = Some (WantsAdmission a) \<Longrightarrow> admission_writer c = None
    \<Longrightarrow> \<not> parking (policy c) \<Longrightarrow> coord_step c (fst (admit_decide t a now c))"
| drop: "tasks c t = Some p \<Longrightarrow> coord_step c (drop_guards t c)"
| publish: "policy c = PolicyIdle \<Longrightarrow> admission_readers c = {} \<Longrightarrow> admission_writer c = None
    \<Longrightarrow> coord_step c (publish_admission d c)"
| park: "policy c = PolicyIdle \<Longrightarrow> admission_readers c = {} \<Longrightarrow> admission_writer c = None
    \<Longrightarrow> coord_step c (park_admission a c)"
| policy: "coord_step c (policy_advance c)"
| native: "tasks c t = None \<Longrightarrow> coord_step c (fst (try_native_observation t c))"
| observe: "observation_step (lease_store c) (observation c) ob \<Longrightarrow> coord_step c (c\<lparr>observation := ob\<rparr>)"
| owners: "coord_step c (c\<lparr>lease_store := h\<rparr>)"

inductive coord_reach :: "Coordinator \<Rightarrow> bool" where
  start: "coord_reach coordinator_default"
| step: "coord_reach c \<Longrightarrow> coord_step c c' \<Longrightarrow> coord_reach c'"

section \<open>The lock invariant\<close>

text \<open>Each guard is held by exactly the tasks whose program point says so.\<close>

fun reads_activity :: "Task option \<Rightarrow> bool" where
  "reads_activity (Some HoldsNative) = False"
| "reads_activity (Some p) = True"
| "reads_activity None = False"

fun owns_register :: "Task option \<Rightarrow> bool" where
  "owns_register (Some (WantsAdmission a)) = True"
| "owns_register (Some (HoldsPermit a)) = True"
| "owns_register (Some HoldsNative) = True"
| "owns_register p = False"

fun reads_admission :: "Task option \<Rightarrow> bool" where
  "reads_admission (Some (HoldsPermit a)) = True"
| "reads_admission p = False"

definition lock_inv :: "Coordinator \<Rightarrow> bool" where
  "lock_inv c \<longleftrightarrow>
     (\<forall>t. (t \<in> activity_readers c) = reads_activity (tasks c t))
   \<and> (\<forall>t. (register_holder c = Some t) = owns_register (tasks c t))
   \<and> (\<forall>t. (t \<in> admission_readers c) = reads_admission (tasks c t))
   \<and> (\<forall>t. (activity_writer c = Some t) = (tasks c t = Some HoldsNative))
   \<and> (\<forall>t. (admission_writer c = Some t) = (tasks c t = Some HoldsNative))"

text \<open>The published decision covers every permit, allows none under a native observation, and is
  the one the status reports or is about to report; a park under way shuts the admission lock.\<close>

definition decision_inv :: "Coordinator \<Rightarrow> bool" where
  "decision_inv c \<longleftrightarrow>
     (\<forall>t a. tasks c t = Some (HoldsPermit a) \<longrightarrow> permits (admission c) a)
   \<and> (\<forall>t. tasks c t = Some HoldsNative \<longrightarrow> (\<forall>a. \<not> permits (admission c) a))
   \<and> (parking (policy c) \<longrightarrow> admission_readers c = {} \<and> admission_writer c = None)
   \<and> (case policy c of
        PolicyIdle \<Rightarrow> applied (observation c) = admission c
      | PublishCount d \<Rightarrow> d = admission c
      | PublishApply d \<Rightarrow> d = admission c
      | _ \<Rightarrow> True)"

lemma lock_inv_update:
  assumes "lock_inv c" and "tasks c' = (tasks c)(t := p)"
    and "activity_readers c' = (if reads_activity p then insert t (activity_readers c) else activity_readers c - {t})"
    and "register_holder c' = (if owns_register p then Some t
        else if register_holder c = Some t then None else register_holder c)"
    and "admission_readers c' = (if reads_admission p then insert t (admission_readers c) else admission_readers c - {t})"
    and "activity_writer c' = (if p = Some HoldsNative then Some t
        else if activity_writer c = Some t then None else activity_writer c)"
    and "admission_writer c' = (if p = Some HoldsNative then Some t
        else if admission_writer c = Some t then None else admission_writer c)"
    and "owns_register p \<Longrightarrow> register_holder c \<in> {None, Some t}"
    and "p = Some HoldsNative \<Longrightarrow> activity_writer c \<in> {None, Some t} \<and> admission_writer c \<in> {None, Some t}"
  shows "lock_inv c'"
proof -
  have inv: "(u \<in> activity_readers c) = reads_activity (tasks c u)"
    "(register_holder c = Some u) = owns_register (tasks c u)"
    "(u \<in> admission_readers c) = reads_admission (tasks c u)"
    "(activity_writer c = Some u) = (tasks c u = Some HoldsNative)"
    "(admission_writer c = Some u) = (tasks c u = Some HoldsNative)" for u
    using assms(1) unfolding lock_inv_def by blast+
  have "(u \<in> activity_readers c') = reads_activity (tasks c' u)" for u
    using inv(1) [of u] by (cases "u = t") (simp_all add: assms(2,3))
  moreover have "(register_holder c' = Some u) = owns_register (tasks c' u)" for u
    using inv(2) [of u] inv(2) [of t] assms(8) by (cases "u = t") (auto simp: assms(2,4))
  moreover have "(u \<in> admission_readers c') = reads_admission (tasks c' u)" for u
    using inv(3) [of u] by (cases "u = t") (simp_all add: assms(2,5))
  moreover have "(activity_writer c' = Some u) = (tasks c' u = Some HoldsNative)" for u
    using inv(4) [of u] inv(4) [of t] assms(9) by (cases "u = t") (auto simp: assms(2,6))
  moreover have "(admission_writer c' = Some u) = (tasks c' u = Some HoldsNative)" for u
    using inv(5) [of u] inv(5) [of t] assms(9) by (cases "u = t") (auto simp: assms(2,7))
  ultimately show ?thesis unfolding lock_inv_def by blast
qed


lemma lock_inv_frame:
  "lock_inv (c\<lparr>observation := ob\<rparr>) = lock_inv c" "lock_inv (c\<lparr>lease_store := h\<rparr>) = lock_inv c"
  "lock_inv (publish_admission d c) = lock_inv c" "lock_inv (park_admission a c) = lock_inv c"
  "lock_inv (policy_advance c) = lock_inv c"
  by (simp_all add: lock_inv_def publish_admission_def park_admission_def policy_advance_def
      apply_decision_def Let_def split: PolicyStep.split)

lemma lock_inv_drop:
  assumes "lock_inv c"
  shows "lock_inv (drop_guards t c)"
  by (rule lock_inv_update [OF assms, where t = t and p = None]) (simp_all add: drop_guards_def)

lemma lock_inv_host:
  assumes "lock_inv c" and "tasks c t = None" and "p = HostBusy \<or> p = WantsRegister a"
  shows "lock_inv (host_activity t p c)"
proof (rule lock_inv_update [OF assms(1), where t = t and p = "Some p"])
  have "register_holder c \<noteq> Some t" "t \<notin> admission_readers c" "activity_writer c \<noteq> Some t"
    "admission_writer c \<noteq> Some t" using assms(1,2) by (simp_all add: lock_inv_def)
  then show "register_holder (host_activity t p c) = (if owns_register (Some p) then Some t
        else if register_holder c = Some t then None else register_holder c)"
    "admission_readers (host_activity t p c) = (if reads_admission (Some p)
        then insert t (admission_readers c) else admission_readers c - {t})"
    "activity_writer (host_activity t p c) = (if Some p = Some HoldsNative then Some t
        else if activity_writer c = Some t then None else activity_writer c)"
    "admission_writer (host_activity t p c) = (if Some p = Some HoldsNative then Some t
        else if admission_writer c = Some t then None else admission_writer c)"
    using assms(3) by (auto simp: host_activity_def)
qed (use assms(3) in \<open>auto simp: host_activity_def\<close>)

lemma lock_inv_register:
  assumes "lock_inv c" and "tasks c t = Some (WantsRegister a)" and "register_holder c = None"
  shows "lock_inv (admit_lock_register t a c)"
proof (rule lock_inv_update [OF assms(1), where t = t and p = "Some (WantsAdmission a)"])
  show "activity_readers (admit_lock_register t a c) =
    (if reads_activity (Some (WantsAdmission a)) then insert t (activity_readers c) else activity_readers c - {t})"
    using assms(1,2) by (auto simp: lock_inv_def admit_lock_register_def)
qed (use assms in \<open>auto simp: admit_lock_register_def lock_inv_def\<close>)

lemma lock_inv_decide:
  assumes "lock_inv c" and "tasks c t = Some (WantsAdmission a)"
  shows "lock_inv (fst (admit_decide t a now c))"
proof (cases "admit_check (lease_store c) (observation c) (admission c) now a")
  case (Inl e)
  then show ?thesis using lock_inv_drop [OF assms(1)] by (simp add: admit_decide_def)
next
  case (Inr u)
  have own: "t \<in> activity_readers c" "register_holder c = Some t" "activity_writer c \<noteq> Some t"
    "admission_writer c \<noteq> Some t" using assms by (simp_all add: lock_inv_def)
  show ?thesis
    by (rule lock_inv_update [OF assms(1), where t = t and p = "Some (HoldsPermit a)"])
       (use own Inr in \<open>auto simp: admit_decide_def\<close>)
qed

lemma lock_inv_native:
  assumes "lock_inv c" and "tasks c t = None"
  shows "lock_inv (fst (try_native_observation t c))"
proof (cases "snd (try_native_observation t c)")
  case (Inl e)
  then have "fst (try_native_observation t c) = c"
    by (auto simp: try_native_observation_def split: if_splits)
  with assms show ?thesis by simp
next
  case (Inr u)
  then have free: "activity_readers c = {}" "activity_writer c = None" "register_holder c = None"
    "admission_readers c = {}" "admission_writer c = None"
    and c': "fst (try_native_observation t c) = c\<lparr>activity_writer := Some t, register_holder := Some t,
       admission_writer := Some t, tasks := (tasks c)(t \<mapsto> HoldsNative)\<rparr>"
    by (auto simp: try_native_observation_def split: if_splits)
  show ?thesis
    by (rule lock_inv_update [OF assms(1), where t = t and p = "Some HoldsNative"])
       (simp_all add: c' free)
qed

lemma lock_inv_step: "coord_step c c' \<Longrightarrow> lock_inv c \<Longrightarrow> lock_inv c'"
  by (induction rule: coord_step.induct)
     (auto simp: lock_inv_frame intro: lock_inv_host lock_inv_register lock_inv_decide lock_inv_drop lock_inv_native)

lemma lock_inv_reach: "coord_reach c \<Longrightarrow> lock_inv c"
proof (induction rule: coord_reach.induct)
  case start
  show ?case by (simp add: lock_inv_def coordinator_default_def)
next
  case (step c c')
  then show ?case by (blast intro: lock_inv_step)
qed


lemma observation_step_applied: "observation_step h ob ob' \<Longrightarrow> applied ob' = applied ob"
  by (induction rule: observation_step.induct)
     (simp_all add: attach_flow_def reject_outbound_def flow_failed_def flow_healthy_def
       defer_switch_for_call_def observe_response_def Let_def)

lemma admit_check_permits: "admit_check h ob d now a = Inr () \<Longrightarrow> permits d a"
  by (auto simp: admit_check_def Let_def split: if_splits)

lemma no_holders:
  assumes "lock_inv c" and "admission_readers c = {}" and "admission_writer c = None"
  shows "tasks c t \<noteq> Some (HoldsPermit a)" and "tasks c t \<noteq> Some HoldsNative"
proof -
  have "\<not> reads_admission (tasks c t)" using assms(1,2) by (simp add: lock_inv_def)
  then show "tasks c t \<noteq> Some (HoldsPermit a)" by auto
  show "tasks c t \<noteq> Some HoldsNative" using assms(1,3) by (simp add: lock_inv_def)
qed

lemma decision_inv_step:
  assumes "coord_step c c'" and "lock_inv c" and "decision_inv c"
  shows "decision_inv c'"
  using assms
proof (induction rule: coord_step.induct)
  case (admit_end t a now)
  then show ?case
    using admit_check_permits [of "lease_store c" "observation c" "admission c" now a]
    by (auto simp: decision_inv_def admit_decide_def drop_guards_def split: sum.splits PolicyStep.splits)
next
  case (publish d)
  with no_holders [of c] show ?case by (simp add: decision_inv_def publish_admission_def parking_def)
next
  case (park a)
  with no_holders [of c] show ?case by (simp add: decision_inv_def park_admission_def Let_def)
next
  case policy
  then show ?case
    by (simp add: decision_inv_def policy_advance_def apply_decision_def parking_def
        split: PolicyStep.splits)
next
  case (native t)
  have "\<not> permits d a" if "\<not> cellular_registers d" "\<not> wlan_registers d" for d :: ImsAccessDecision and a
    using that by (cases a) auto
  with native show ?case
    by (auto simp: decision_inv_def try_native_observation_def split: PolicyStep.splits)
next
  case (observe ob)
  then show ?case by (auto simp: decision_inv_def dest: observation_step_applied split: PolicyStep.splits)
qed (auto simp: decision_inv_def host_activity_def admit_lock_register_def drop_guards_def
    split: PolicyStep.splits)

lemma decision_inv_reach: "coord_reach c \<Longrightarrow> decision_inv c"
proof (induction rule: coord_reach.induct)
  case start
  show ?case by (simp add: decision_inv_def coordinator_default_def observation_default_def)
next
  case (step c c')
  then show ?case by (blast intro: decision_inv_step lock_inv_reach)
qed

lemma permit_blocks_policy:
  assumes "coord_step c c'" and "lock_inv c" and "decision_inv c" and "tasks c t = Some (HoldsPermit a)"
  shows "admission c' = admission c
    \<and> (applied (observation c) = admission c \<longrightarrow> applied (observation c') = admission c)"
proof -
  have "t \<in> admission_readers c" using assms(2,4) by (simp add: lock_inv_def)
  with assms(1,3) show ?thesis
    by (cases rule: coord_step.cases) (auto simp: host_activity_def admit_lock_register_def
        admit_decide_def drop_guards_def try_native_observation_def policy_advance_def
        apply_decision_def decision_inv_def parking_def dest: observation_step_applied
        split: sum.splits PolicyStep.splits)
qed

lemma permit_report:
  assumes "decision_inv c" and "t \<in> admission_readers c"
  shows "applied (observation c) = admission c
    \<or> policy c = PublishCount (admission c) \<or> policy c = PublishApply (admission c)"
  using assms by (auto simp: decision_inv_def parking_def split: PolicyStep.splits)

section \<open>Properties\<close>

text \<open>
  C14: Registration permits are exclusive and their ground does not move.  In every reachable state
  of a line a REGISTER in progress is alone (no other permit, no native observation), its access is
  permitted by the decision in force, and no step of any task or of the policy owner changes that
  decision while the permit is held.  The status reports that decision, except while the
  \<open>publish\<close> that put it in force has released the admission lock and not yet written the observation;
  once the status reports it, no step makes it report another while the permit is held.
\<close>

theorem registration_permit_exclusive:
  assumes "coord_reach c" and "tasks c t = Some (HoldsPermit a)" and "coord_step c c'"
  shows "permits (admission c) a \<and> admission c' = admission c
    \<and> (tasks c u = Some (HoldsPermit b) \<longrightarrow> u = t) \<and> tasks c u \<noteq> Some HoldsNative
    \<and> (applied (observation c) = admission c
        \<or> policy c = PublishCount (admission c) \<or> policy c = PublishApply (admission c))
    \<and> (applied (observation c) = admission c \<longrightarrow> applied (observation c') = admission c')"
proof -
  note inv = lock_inv_reach [OF assms(1)] decision_inv_reach [OF assms(1)]
  have "register_holder c = Some t" and reads: "t \<in> admission_readers c"
    using inv(1) assms(2) by (simp_all add: lock_inv_def)
  then have "owns_register (tasks c u) \<longleftrightarrow> u = t" using inv(1) by (auto simp: lock_inv_def)
  then have "tasks c u = Some (HoldsPermit b) \<longrightarrow> u = t" "tasks c u \<noteq> Some HoldsNative"
    using assms(2) by auto
  moreover have "permits (admission c) a" using inv(2) assms(2) by (auto simp: decision_inv_def)
  ultimately show ?thesis
    using permit_report [OF inv(2) reads] permit_blocks_policy [OF assms(3) inv assms(2)] by metis
qed

text \<open>A REGISTER admitted between the two writes of a \<open>publish\<close>: it holds its permit while the status
  still reports the initial decision.\<close>

lemma sample_line:
  defines "c1 \<equiv> publish_admission (wlan_only ''ims_access_wlan_preferred'') coordinator_default"
  defines "c2 \<equiv> host_activity 7 (WantsRegister Wlan) c1"
  defines "c3 \<equiv> admit_lock_register 7 Wlan c2"
  defines "c4 \<equiv> fst (admit_decide 7 Wlan 0 c3)"
  shows "coord_reach c4" "tasks c4 7 = Some (HoldsPermit Wlan)"
    "admission c4 = wlan_only ''ims_access_wlan_preferred''"
    "applied (observation c4) = initial_decision"
proof -
  have "coord_reach c1" unfolding c1_def
    by (rule coord_reach.step [OF coord_reach.start coord_step.publish])
       (simp_all add: coordinator_default_def)
  then have "coord_reach c2" unfolding c2_def
    by (rule coord_reach.step [OF _ coord_step.admit_begin])
       (simp_all add: c1_def publish_admission_def coordinator_default_def)
  then have "coord_reach c3" unfolding c3_def
    by (rule coord_reach.step [OF _ coord_step.admit_register])
       (simp_all add: c2_def host_activity_def c1_def publish_admission_def coordinator_default_def)
  then show "coord_reach c4" unfolding c4_def
    by (rule coord_reach.step [OF _ coord_step.admit_end])
       (simp_all add: c3_def c2_def c1_def admit_lock_register_def host_activity_def
         publish_admission_def coordinator_default_def parking_def)
  have "admit_check (lease_store c3) (observation c3) (admission c3) 0 Wlan = Inr ()"
    by (simp add: c3_def c2_def c1_def admit_lock_register_def host_activity_def
        publish_admission_def coordinator_default_def observation_default_def admit_check_def Let_def
        recovery_ready_def is_none_or_def additional_flow_ready_def live_flow_def upgrade_def)
  then show "tasks c4 7 = Some (HoldsPermit Wlan)"
    "admission c4 = wlan_only ''ims_access_wlan_preferred''"
    "applied (observation c4) = initial_decision"
    by (simp_all add: c4_def admit_decide_def c3_def c2_def c1_def admit_lock_register_def
        host_activity_def publish_admission_def coordinator_default_def observation_default_def)
qed

theorem registration_permit_exclusive_witness:
  "\<exists>c c'. coord_step c c' \<and> admission c' = admission c \<and> tasks c 7 = Some (HoldsPermit Wlan)
     \<and> tasks c 8 \<noteq> Some HoldsNative \<and> applied (observation c) \<noteq> admission c"
proof -
  note s = sample_line
  have step: "coord_step c (c\<lparr>lease_store := Map.empty\<rparr>)" for c by (rule coord_step.owners)
  have "initial_decision \<noteq> wlan_only ''ims_access_wlan_preferred''"
    by (simp add: initial_decision_def decision_none_def wlan_only_def)
  with registration_permit_exclusive [OF s(1,2) step, of 8 Wlan] s(2-4) step show ?thesis
    by metis
qed

text \<open>
  Who is admitted.  Once the locks are held, REGISTER is admitted exactly when the decision
  permits the access and either its own flow is still live (a refresh, which no backoff, refusal or
  missing negotiation blocks), or a new flow may be created: its backoff is over, the opposite
  access has no live flow or one proven on its transport with no recent refusal, and, where the
  policy allows two registrations, the network negotiated them and none was refused.
\<close>

theorem admit_exactly:
  "admit_check h ob d now a = Inr () \<longleftrightarrow>
     permits d a \<and> (live_flow h ob now a \<noteq> None
       \<or> recovery_ready ob now a
         \<and> (case live_flow h ob now (opposite_access a) of
              None \<Rightarrow> True
            | Some l \<Rightarrow> transport_validated (lease_status now l) \<and> may_offer_outbound ob now a)
         \<and> (effective_mode d = ''concurrent'' \<longrightarrow>
              list_ex (\<lambda>l. outbound_negotiated (lease_status now l)) (owned_flows h ob)
              \<and> list_all (may_offer_outbound ob now) [Cellular, Wlan]))"
proof -
  have own: "is_some_and (lease_live now) (upgrade h (flow_of ob a)) \<longleftrightarrow> live_flow h ob now a \<noteq> None"
    by (auto simp: is_some_and_def live_flow_def split: option.splits)
  have neg: "support_from_observation h ob now = Negotiated
      \<longleftrightarrow> list_ex (\<lambda>l. outbound_negotiated (lease_status now l)) (owned_flows h ob)"
    by (simp add: support_from_observation_def Let_def CURRENT_CONCURRENT_SUPPORT_def list_ex_iff)
  have free: "\<not> registration_blocked ob now \<longleftrightarrow> list_all (may_offer_outbound ob now) [Cellular, Wlan]"
    by (auto simp: registration_blocked_def may_offer_outbound_def is_some_and_def is_none_or_def
        split: option.splits)
  have conc: "effective_mode d = ''concurrent'' \<longleftrightarrow> cellular_registers d \<and> wlan_registers d"
    by (simp add: effective_mode_def split: bool.splits)
  have more: "additional_flow_ready h ob now a \<longleftrightarrow> recovery_ready ob now a
      \<and> (case live_flow h ob now (opposite_access a) of
              None \<Rightarrow> True
            | Some l \<Rightarrow> transport_validated (lease_status now l) \<and> may_offer_outbound ob now a)"
    by (auto simp: additional_flow_ready_def may_offer_outbound_def lease.status_proven split: option.splits)
  show ?thesis
    unfolding admit_check_def Let_def own more conc neg [symmetric] free [symmetric] by auto
qed


theorem admit_exactly_witness:
  "admit_check Map.empty observation_default (wlan_only ''ims_access_wlan_preferred'') 0 Wlan = Inr ()"
  unfolding admit_exactly
  by (simp add: observation_default_def live_flow_def upgrade_def recovery_ready_def is_none_or_def
      effective_mode_def)

end
