(* ===== verification/Path_Policy.thy ===== *)
theory Path_Policy
  imports Rust_Prelude
begin

text \<open>
  Routing of SMS and voice over the access paths of a line: the path policies of
  \<open>platform/config.rs\<close>, the send planner with its router and cost guard
  (\<open>services/orchestrator/sms_router.rs\<close>; the dispatch that uses the guard is in \<open>Sms_Dispatch\<close>), the voice planner (\<open>voice_router.rs\<close>) and the layered
  IMS state built on it (\<open>ims_access.rs\<close>).  The observations' packet-core details and the
  diagnostics, which the decisions only pass through, are left out.
\<close>

section \<open>Policies\<close>

datatype AccessPathKind = Vowifi | CellularIms | Cs

fun path_as_str :: "AccessPathKind \<Rightarrow> string" where
  "path_as_str Vowifi = ''vowifi''"
| "path_as_str CellularIms = ''cellular_ims''"
| "path_as_str Cs = ''cs''"

fun transport_tag :: "AccessPathKind \<Rightarrow> string" where
  "transport_tag Vowifi = ''vowifi_ims''"
| "transport_tag CellularIms = ''cellular_ims''"
| "transport_tag Cs = ''modem''"

definition is_ims :: "AccessPathKind \<Rightarrow> bool" where
  "is_ims k \<longleftrightarrow> k = Vowifi \<or> k = CellularIms"

datatype MidFlightDisablePolicy = AutoSwitch | MidFlightFail

record PathLayerConfig =
  layer_kind :: AccessPathKind
  layer_enabled :: bool

definition default_sms_path_order :: "PathLayerConfig list" where
  "default_sms_path_order = map (\<lambda>k. \<lparr>layer_kind = k, layer_enabled = True\<rparr>) [Vowifi, CellularIms, Cs]"

record SmsPathPolicy =
  sms_priority :: "PathLayerConfig list"
  force_vowifi_send :: bool
  dedupe_enabled :: bool
  cs_fallback_receiver :: bool
  mid_flight_disable :: MidFlightDisablePolicy
  dedup_retention_days :: u32
  message_retention_limit :: u32

definition sms_policy_default :: SmsPathPolicy where
  "sms_policy_default = \<lparr>sms_priority = default_sms_path_order, force_vowifi_send = False,
     dedupe_enabled = True, cs_fallback_receiver = True, mid_flight_disable = AutoSwitch,
     dedup_retention_days = 30, message_retention_limit = 10000\<rparr>"

definition sms_enabled_layers :: "SmsPathPolicy \<Rightarrow> AccessPathKind list" where
  "sms_enabled_layers p =
     take (if force_vowifi_send p then 1 else 3) [Vowifi, CellularIms, Cs]"

definition enabled_ims_layers :: "SmsPathPolicy \<Rightarrow> AccessPathKind list" where
  "enabled_ims_layers p = [Vowifi, CellularIms]"

definition clamp_u32 :: "u32 \<Rightarrow> u32 \<Rightarrow> u32 \<Rightarrow> u32" where
  "clamp_u32 lo hi x = (if x < lo then lo else if x > hi then hi else x)"

definition sms_normalized :: "SmsPathPolicy \<Rightarrow> SmsPathPolicy" where
  "sms_normalized p = p\<lparr>sms_priority := default_sms_path_order, dedupe_enabled := True,
     cs_fallback_receiver := True, mid_flight_disable := AutoSwitch,
     dedup_retention_days := clamp_u32 1 3650 (dedup_retention_days p),
     message_retention_limit := clamp_u32 100 100000 (message_retention_limit p)\<rparr>"

record VoicePathPolicy =
  voice_priority :: "PathLayerConfig list"
  gateway_mode :: bool

definition voice_policy_default :: VoicePathPolicy where
  "voice_policy_default = \<lparr>voice_priority =
     map (\<lambda>k. \<lparr>layer_kind = k, layer_enabled = True\<rparr>) [Vowifi, CellularIms], gateway_mode = True\<rparr>"

definition voice_enabled_layers :: "VoicePathPolicy \<Rightarrow> AccessPathKind list" where
  "voice_enabled_layers p = map layer_kind (filter layer_enabled (voice_priority p))"

text \<open>The first loop of \<open>normalized\<close>: IMS layers only, the first of each kind.\<close>

fun dedup_layers :: "AccessPathKind list \<Rightarrow> PathLayerConfig list \<Rightarrow> PathLayerConfig list" where
  "dedup_layers seen [] = []"
| "dedup_layers seen (l # ls) =
    (if is_ims (layer_kind l) \<and> layer_kind l \<notin> set seen
     then l # dedup_layers (layer_kind l # seen) ls else dedup_layers seen ls)"

definition voice_normalized :: "VoicePathPolicy \<Rightarrow> VoicePathPolicy" where
  "voice_normalized p =
    (let ls = dedup_layers [] (voice_priority p); seen = map layer_kind ls
     in p\<lparr>voice_priority := ls @ map (\<lambda>k. \<lparr>layer_kind = k, layer_enabled = True\<rparr>)
            (filter (\<lambda>k. k \<notin> set seen) [Vowifi, CellularIms])\<rparr>)"

section \<open>SMS send routing\<close>

datatype SmsSendOrigin = Local | Trunk

record SmsSendGuard =
  guard_origin :: SmsSendOrigin
  initially_vowifi_only :: bool

definition send_guard_new :: "SmsPathPolicy \<Rightarrow> bool \<Rightarrow> SmsSendOrigin \<Rightarrow> SmsSendGuard" where
  "send_guard_new p trunk_vowifi_only origin = \<lparr>guard_origin = origin,
     initially_vowifi_only = (force_vowifi_send p \<or> origin = Trunk \<and> trunk_vowifi_only)\<rparr>"

definition guard_allows :: "SmsSendGuard \<Rightarrow> AccessPathKind \<Rightarrow> SmsPathPolicy \<Rightarrow> bool \<Rightarrow> bool" where
  "guard_allows g k current trunk_vowifi_only \<longleftrightarrow> k = Vowifi
     \<or> \<not> (initially_vowifi_only g \<or> force_vowifi_send current
          \<or> guard_origin g = Trunk \<and> trunk_vowifi_only)"

datatype AttemptOutcome = Sent | AttemptFailed | DisabledMidFlight

datatype RouteDecision = RouteDelivered AccessPathKind | TryNext AccessPathKind
  | Exhausted "AccessPathKind list"

record LegSendReadiness =
  leg_kind :: AccessPathKind
  leg_ready :: bool

definition plan_candidates :: "SmsPathPolicy \<Rightarrow> LegSendReadiness list \<Rightarrow> AccessPathKind list" where
  "plan_candidates p rs =
     filter (\<lambda>k. list_ex (\<lambda>r. leg_kind r = k \<and> leg_ready r) rs) (sms_enabled_layers p)"

record SendRouter =
  candidates :: "AccessPathKind list"
  cursor :: nat
  attempted :: "AccessPathKind list"

definition send_router_new :: "SmsPathPolicy \<Rightarrow> LegSendReadiness list \<Rightarrow> SendRouter" where
  "send_router_new p rs = \<lparr>candidates = plan_candidates p rs, cursor = 0, attempted = []\<rparr>"

definition candidate_count :: "SendRouter \<Rightarrow> nat" where
  "candidate_count r = length (candidates r)"

definition router_current :: "SendRouter \<Rightarrow> AccessPathKind option" where
  "router_current r = (if cursor r < length (candidates r) then Some (candidates r ! cursor r) else None)"

definition planned :: "SendRouter \<Rightarrow> AccessPathKind list" where
  "planned r = candidates r"

definition router_advance :: "SendRouter \<Rightarrow> SendRouter \<times> RouteDecision" where
  "router_advance r =
    (let r = r\<lparr>cursor := cursor r + 1\<rparr>
     in (r, case router_current r of Some k \<Rightarrow> TryNext k | None \<Rightarrow> Exhausted (attempted r)))"

definition router_record :: "SendRouter \<Rightarrow> AttemptOutcome \<Rightarrow> SendRouter \<times> RouteDecision" where
  "router_record r outcome =
    (case router_current r of
       None \<Rightarrow> (r, Exhausted (attempted r))
     | Some current \<Rightarrow>
        (let r = r\<lparr>attempted := attempted r @ [current]\<rparr>
         in case outcome of
              Sent \<Rightarrow> (r, RouteDelivered current)
            | AttemptFailed \<Rightarrow> router_advance r
            | DisabledMidFlight \<Rightarrow> router_advance r))"

section \<open>Voice routing\<close>

record VoiceLegReadiness =
  voice_kind :: AccessPathKind
  feature_enabled :: bool
  voice_registered :: bool
  media_gateway_ready :: bool

datatype VoiceRouteRejection = PolicyDisabled | FeatureDisabled | NotRegistered
  | MediaGatewayUnavailable

record VoiceRoutePlan =
  plan_gateway_mode :: bool
  plan_candidates_of :: "AccessPathKind list"
  plan_rejected :: "(AccessPathKind \<times> VoiceRouteRejection) list"

text \<open>The verdict of the loop body on one layer: the reason it is rejected for, if any.\<close>

definition voice_verdict :: "bool \<Rightarrow> VoiceLegReadiness list \<Rightarrow> PathLayerConfig
    \<Rightarrow> VoiceRouteRejection option" where
  "voice_verdict gateway rs l =
    (if \<not> layer_enabled l then Some PolicyDisabled
     else case List.find (\<lambda>r. voice_kind r = layer_kind l) rs of
       None \<Rightarrow> Some FeatureDisabled
     | Some r \<Rightarrow>
        if \<not> feature_enabled r then Some FeatureDisabled
        else if \<not> voice_registered r then Some NotRegistered
        else if gateway \<and> \<not> media_gateway_ready r then Some MediaGatewayUnavailable
        else None)"

fun voice_rank :: "AccessPathKind \<Rightarrow> nat" where
  "voice_rank Vowifi = 0"
| "voice_rank CellularIms = 1"
| "voice_rank Cs = 2"

fun voice_loop :: "bool \<Rightarrow> VoiceLegReadiness list \<Rightarrow> PathLayerConfig list
    \<Rightarrow> AccessPathKind list \<times> (AccessPathKind \<times> VoiceRouteRejection) list" where
  "voice_loop gateway rs [] = ([], [])"
| "voice_loop gateway rs (l # ls) =
    (let (cs, rj) = voice_loop gateway rs ls in
     case voice_verdict gateway rs l of
       Some reason \<Rightarrow> (cs, (layer_kind l, reason) # rj)
     | None \<Rightarrow> (layer_kind l # cs, rj))"

definition plan_voice_route :: "VoicePathPolicy \<Rightarrow> VoiceLegReadiness list \<Rightarrow> VoiceRoutePlan" where
  "plan_voice_route p rs =
    (let p = voice_normalized p; (cs, rj) = voice_loop (gateway_mode p) rs (voice_priority p)
     in \<lparr>plan_gateway_mode = gateway_mode p, plan_candidates_of = sort_key voice_rank cs,
         plan_rejected = rj\<rparr>)"

section \<open>Layered IMS state\<close>

datatype AccessFamily = ThreeGpp | NonThreeGpp

datatype AccessPathStage = Disabled | Down | TransportUp | SignalingReady | Registered | Degraded

fun stage_as_str :: "AccessPathStage \<Rightarrow> string" where
  "stage_as_str Disabled = ''disabled''"
| "stage_as_str Down = ''down''"
| "stage_as_str TransportUp = ''transport_up''"
| "stage_as_str SignalingReady = ''signaling_ready''"
| "stage_as_str Registered = ''registered''"
| "stage_as_str Degraded = ''degraded''"

definition can_signal :: "AccessPathStage \<Rightarrow> bool" where
  "can_signal st \<longleftrightarrow> st = Registered"

record ImsAccessPath =
  path_kind :: AccessPathKind
  path_family :: AccessFamily
  path_configured :: bool
  path_stage :: AccessPathStage
  path_registered :: bool
  path_pcscf :: "string option"
  path_degraded_reason :: "string option"

record ThreeGppObservation =
  tg_configured :: bool
  radio_available :: bool
  bearer_up :: bool
  signaling_ready :: bool
  tg_pcscf :: "string option"
  tg_registered :: bool
  tg_degraded_reason :: "string option"
  tg_media_gateway_ready :: bool

record NonThreeGppObservation =
  ng_configured :: bool
  epdg_ready :: bool
  ike_ready :: bool
  child_sa_ready :: bool
  esp_ready :: bool
  ng_pcscf :: "string option"
  ng_registered :: bool
  ng_degraded_reason :: "string option"
  ng_media_gateway_ready :: bool

definition three_gpp_stage :: "ThreeGppObservation \<Rightarrow> AccessPathStage" where
  "three_gpp_stage t =
    (if \<not> tg_configured t then Disabled
     else if \<not> radio_available t then Down
     else if tg_degraded_reason t \<noteq> None then Degraded
     else if tg_registered t \<and> bearer_up t \<and> signaling_ready t then Registered
     else if bearer_up t \<and> signaling_ready t \<and> tg_pcscf t \<noteq> None then SignalingReady
     else if bearer_up t \<and> radio_available t then TransportUp
     else Down)"

definition tunnel_up :: "NonThreeGppObservation \<Rightarrow> bool" where
  "tunnel_up n \<longleftrightarrow> epdg_ready n \<and> ike_ready n \<and> child_sa_ready n \<and> esp_ready n"

definition non_three_gpp_stage :: "NonThreeGppObservation \<Rightarrow> AccessPathStage" where
  "non_three_gpp_stage n =
    (if \<not> ng_configured n then Disabled
     else if \<not> tunnel_up n then Down
     else if ng_degraded_reason n \<noteq> None then Degraded
     else if ng_registered n then Registered
     else if ng_pcscf n \<noteq> None then SignalingReady
     else TransportUp)"

record ImsSubsystemState =
  line_id :: string
  registered_over :: "AccessPathKind list"
  three_gpp_path :: ImsAccessPath
  non_three_gpp_path :: ImsAccessPath
  non_three_gpp_tunnel_up :: bool
  voice_active :: "AccessPathKind option"
  voice_candidates :: "AccessPathKind list"
  voice_rejected :: "(AccessPathKind \<times> VoiceRouteRejection) list"
  voice_gateway_mode :: bool

definition build_ims_state :: "string \<Rightarrow> VoicePathPolicy \<Rightarrow> ThreeGppObservation
    \<Rightarrow> NonThreeGppObservation \<Rightarrow> ImsSubsystemState" where
  "build_ims_state line p t n =
    (let tp = \<lparr>path_kind = CellularIms, path_family = ThreeGpp, path_configured = tg_configured t,
               path_stage = three_gpp_stage t, path_registered = (three_gpp_stage t = Registered),
               path_pcscf = tg_pcscf t, path_degraded_reason = tg_degraded_reason t\<rparr>;
         np = \<lparr>path_kind = Vowifi, path_family = NonThreeGpp, path_configured = ng_configured n,
               path_stage = non_three_gpp_stage n,
               path_registered = (non_three_gpp_stage n = Registered),
               path_pcscf = ng_pcscf n, path_degraded_reason = ng_degraded_reason n\<rparr>;
         plan = plan_voice_route p
           [\<lparr>voice_kind = Vowifi, feature_enabled = path_configured np,
             voice_registered = path_registered np, media_gateway_ready = ng_media_gateway_ready n\<rparr>,
            \<lparr>voice_kind = CellularIms, feature_enabled = path_configured tp,
             voice_registered = path_registered tp, media_gateway_ready = tg_media_gateway_ready t\<rparr>]
     in \<lparr>line_id = line,
         registered_over = (if path_registered np then [Vowifi] else [])
           @ (if path_registered tp then [CellularIms] else []),
         three_gpp_path = tp, non_three_gpp_path = np, non_three_gpp_tunnel_up = tunnel_up n,
         voice_active = (case plan_candidates_of plan of [] \<Rightarrow> None | k # _ \<Rightarrow> Some k),
         voice_candidates = plan_candidates_of plan, voice_rejected = plan_rejected plan,
         voice_gateway_mode = plan_gateway_mode plan\<rparr>)"

section \<open>The send router\<close>

text \<open>Whatever the outcomes recorded, the legs attempted are the first ones of the plan, in its order.\<close>

definition router_ok :: "SendRouter \<Rightarrow> bool" where
  "router_ok r \<longleftrightarrow> attempted r = take (cursor r) (candidates r) \<and> cursor r \<le> length (candidates r)"

lemma router_ok_new: "router_ok (send_router_new p rs)"
  by (simp add: router_ok_def send_router_new_def)

text \<open>One outcome: a delivery names the current leg, any other outcome the next leg of the plan or, after
  the last one, the whole plan as attempted.\<close>

lemma router_record_cases:
  assumes "router_ok r" and "router_record r outcome = (r', d)"
  shows "if cursor r = length (candidates r) then r' = r \<and> d = Exhausted (candidates r)
    else if outcome = Sent then d = RouteDelivered (candidates r ! cursor r)
    else router_ok r' \<and> cursor r' = cursor r + 1 \<and> candidates r' = candidates r
      \<and> d = (if cursor r + 1 < length (candidates r) then TryNext (candidates r ! (cursor r + 1))
             else Exhausted (candidates r))"
proof -
  have "take n xs @ [xs ! n] = xs" if "n < length xs" "\<not> Suc n < length xs" for n and xs :: "AccessPathKind list"
  proof -
    have "Suc n = length xs" using that by simp
    then show ?thesis using take_Suc_conv_app_nth [OF that(1)] by simp
  qed
  with assms show ?thesis
    by (auto simp: router_ok_def router_record_def router_advance_def router_current_def Let_def
        take_Suc_conv_app_nth split: option.splits if_splits AttemptOutcome.splits)
qed

section \<open>Properties\<close>

text \<open>The layer the saved policy has for a kind: its first one, or an enabled one if it has none.\<close>

definition layer_for :: "VoicePathPolicy \<Rightarrow> AccessPathKind \<Rightarrow> PathLayerConfig" where
  "layer_for p k = (case List.find (\<lambda>l. layer_kind l = k) (voice_priority p) of
     Some l \<Rightarrow> l | None \<Rightarrow> \<lparr>layer_kind = k, layer_enabled = True\<rparr>)"

lemma find_dedup_layers:
  "List.find (\<lambda>x. layer_kind x = k) (dedup_layers seen ls) =
    (if is_ims k \<and> k \<notin> set seen then List.find (\<lambda>x. layer_kind x = k) ls else None)"
  by (induction seen ls rule: dedup_layers.induct) auto

lemma dedup_layers_kinds: "l \<in> set (dedup_layers seen ls) \<Longrightarrow> is_ims (layer_kind l) \<and> layer_kind l \<notin> set seen"
  by (induction seen ls rule: dedup_layers.induct) (auto split: if_splits)

lemma distinct_dedup_layers: "distinct (map layer_kind (dedup_layers seen ls))"
  by (induction seen ls rule: dedup_layers.induct) (auto dest: dedup_layers_kinds)

lemma layer_kind_layer_for [simp]: "layer_kind (layer_for p k) = k"
  by (auto simp: layer_for_def find_Some_iff split: option.splits)

lemma normalized_layers:
  "distinct (map layer_kind (voice_priority (voice_normalized p)))"
  "set (voice_priority (voice_normalized p)) = {layer_for p Vowifi, layer_for p CellularIms}"
proof -
  let ?ls = "dedup_layers [] (voice_priority p)" and ?n = "voice_priority (voice_normalized p)"
  show dist: "distinct (map layer_kind ?n)"
    by (auto simp: voice_normalized_def Let_def distinct_dedup_layers)
  have seen: "k \<in> layer_kind ` set ?ls \<longleftrightarrow> List.find (\<lambda>x. layer_kind x = k) ?ls \<noteq> None" for k
    by (auto simp: find_None_iff)
  have find: "List.find (\<lambda>x. layer_kind x = k) ?n = Some (layer_for p k)" if "is_ims k" for k
    using that by (auto simp: voice_normalized_def Let_def find_append find_dedup_layers seen
        layer_for_def is_ims_def split: option.splits)
  have kinds: "is_ims (layer_kind l)" if "l \<in> set ?n" for l
    using that by (auto simp: voice_normalized_def Let_def is_ims_def split: if_splits dest: dedup_layers_kinds)
  have "l = layer_for p (layer_kind l)" if "l \<in> set ?n" for l
    using find [OF kinds [OF that]] that find_distinct [OF dist, of "layer_kind l" l] by simp
  moreover have "layer_for p k \<in> set ?n" if "is_ims k" for k
    using find [OF that] find_distinct [OF dist, of k "layer_for p k"] by simp
  ultimately have "l \<in> set ?n \<longleftrightarrow> l = layer_for p Vowifi \<or> l = layer_for p CellularIms" for l
    using kinds [of l] by (metis is_ims_def)
  then show "set ?n = {layer_for p Vowifi, layer_for p CellularIms}" by blast
qed

lemma voice_loop_filter:
  "voice_loop g rs ls =
    (map layer_kind (filter (\<lambda>l. voice_verdict g rs l = None) ls),
     List.map_filter (\<lambda>l. map_option (Pair (layer_kind l)) (voice_verdict g rs l)) ls)"
  by (induction ls) (auto simp: List.map_filter_def split: option.splits)


lemma sort_ims_kinds:
  assumes "distinct ks" and "set ks = {k \<in> {Vowifi, CellularIms}. P k}"
  shows "sort_key voice_rank ks = filter P [Vowifi, CellularIms]"
proof (rule map_sorted_distinct_set_unique)
  have "voice_rank a = voice_rank b \<Longrightarrow> a = b" for a b by (cases a; cases b) simp_all
  then have inj: "inj_on voice_rank A" for A by (rule inj_onI)
  show "inj_on voice_rank (set (sort_key voice_rank ks) \<union> set (filter P [Vowifi, CellularIms]))"
    "distinct (map voice_rank (sort_key voice_rank ks))"
    "distinct (map voice_rank (filter P [Vowifi, CellularIms]))"
    using assms(1) by (simp_all add: inj distinct_map)
  show "sorted (map voice_rank (filter P [Vowifi, CellularIms]))" by simp
  show "set (sort_key voice_rank ks) = set (filter P [Vowifi, CellularIms])" using assms(2) by auto
qed simp

lemma voice_route_candidates:
  "plan_candidates_of (plan_voice_route p rs) =
     filter (\<lambda>k. voice_verdict (gateway_mode p) rs (layer_for p k) = None) [Vowifi, CellularIms]"
proof -
  let ?n = "voice_priority (voice_normalized p)" and ?v = "voice_verdict (gateway_mode p) rs"
  have g: "gateway_mode (voice_normalized p) = gateway_mode p" by (simp add: voice_normalized_def Let_def)
  have "distinct (map layer_kind (filter (\<lambda>l. ?v l = None) ?n))"
    using normalized_layers(1) [of p] by (rule distinct_map_filter)
  moreover have "set (map layer_kind (filter (\<lambda>l. ?v l = None) ?n))
      = {k \<in> {Vowifi, CellularIms}. ?v (layer_for p k) = None}"
  proof (rule set_eqI)
    fix k
    show "k \<in> set (map layer_kind (filter (\<lambda>l. ?v l = None) ?n))
      \<longleftrightarrow> k \<in> {k \<in> {Vowifi, CellularIms}. ?v (layer_for p k) = None}"
      by (cases k) (force simp: normalized_layers(2) image_iff)+
  qed
  ultimately show ?thesis
    by (simp add: plan_voice_route_def voice_loop_filter g Let_def sort_ims_kinds)
qed

lemma voice_route_rejected:
  "set (plan_rejected (plan_voice_route p rs)) =
     {(k, reason). is_ims k \<and> voice_verdict (gateway_mode p) rs (layer_for p k) = Some reason}"
proof -
  have g: "gateway_mode (voice_normalized p) = gateway_mode p" by (simp add: voice_normalized_def Let_def)
  have "(k, reason) \<in> set (plan_rejected (plan_voice_route p rs)) \<longleftrightarrow>
      is_ims k \<and> voice_verdict (gateway_mode p) rs (layer_for p k) = Some reason" for k reason
    by (cases k) (force simp: plan_voice_route_def voice_loop_filter g Let_def List.map_filter_def
        normalized_layers(2) is_ims_def image_iff)+
  then show ?thesis by auto
qed

text \<open>
  Voice routing.  For every saved policy and readiness report, the plan is, for each of the two
  IMS legs, the verdict on the layer the policy has for it: the candidates are the legs with no
  objection, Wi-Fi always before cellular and whatever the saved order, the rejected ones carry
  their reason, and a circuit-switched leg appears in neither list.
\<close>

theorem voice_plan_is_verdict:
  "plan_candidates_of (plan_voice_route p rs) =
     filter (\<lambda>k. voice_verdict (gateway_mode p) rs (layer_for p k) = None) [Vowifi, CellularIms]
   \<and> set (plan_rejected (plan_voice_route p rs)) =
     {(k, reason). is_ims k \<and> voice_verdict (gateway_mode p) rs (layer_for p k) = Some reason}"
  by (simp only: voice_route_candidates voice_route_rejected)

text \<open>
  Registration and voice are separate layers.  The accesses listed as registered depend on the
  observations alone, not on the voice policy; Wi-Fi is listed only with its whole tunnel up,
  cellular only with radio, bearer and signalling; and the access selected for voice is always one
  of them.
\<close>

theorem ims_state_layers:
  "registered_over (build_ims_state line p t n) =
     filter (\<lambda>k. if k = Vowifi then ng_configured n \<and> tunnel_up n \<and> ng_degraded_reason n = None \<and> ng_registered n
        else tg_configured t \<and> radio_available t \<and> tg_degraded_reason t = None \<and> tg_registered t
           \<and> bearer_up t \<and> signaling_ready t) [Vowifi, CellularIms]
   \<and> set (voice_candidates (build_ims_state line p t n)) \<subseteq> set (registered_over (build_ims_state line p t n))
   \<and> voice_active (build_ims_state line p t n) =
      (case voice_candidates (build_ims_state line p t n) of [] \<Rightarrow> None | k # _ \<Rightarrow> Some k)"
proof (intro conjI)
  have stages: "non_three_gpp_stage n = Registered \<longleftrightarrow> ng_configured n \<and> tunnel_up n
      \<and> ng_degraded_reason n = None \<and> ng_registered n"
    "three_gpp_stage t = Registered \<longleftrightarrow> tg_configured t \<and> radio_available t \<and> tg_degraded_reason t = None
      \<and> tg_registered t \<and> bearer_up t \<and> signaling_ready t"
    by (auto simp: non_three_gpp_stage_def three_gpp_stage_def)
  show "registered_over (build_ims_state line p t n) =
     filter (\<lambda>k. if k = Vowifi then ng_configured n \<and> tunnel_up n \<and> ng_degraded_reason n = None \<and> ng_registered n
        else tg_configured t \<and> radio_available t \<and> tg_degraded_reason t = None \<and> tg_registered t
           \<and> bearer_up t \<and> signaling_ready t) [Vowifi, CellularIms]"
    by (simp add: build_ims_state_def Let_def stages)
  show "set (voice_candidates (build_ims_state line p t n)) \<subseteq> set (registered_over (build_ims_state line p t n))"
    by (auto simp: build_ims_state_def Let_def voice_route_candidates voice_verdict_def split: if_splits)
  show "voice_active (build_ims_state line p t n) =
      (case voice_candidates (build_ims_state line p t n) of [] \<Rightarrow> None | k # _ \<Rightarrow> Some k)"
    by (simp add: build_ims_state_def Let_def)
qed

end
