(* ===== verification/Sms_Dispatch.thy ===== *)
theory Sms_Dispatch
  imports Path_Policy "HOL-Library.Sublist"
begin

text \<open>
  Sending a short message (\<open>send_sms_on_line_with_origin\<close> and the three legs of \<open>api/handlers.rs\<close>): the
  fixed order of the legs, the fallback to the next one, and the cost guard that keeps a message off the
  chargeable legs when the line is restricted to Wi-Fi.

  The settings of a line may be changed at any moment, so each reading of them has a number and the
  environment says what the \<open>n\<close>-th reading of a line finds.  What modem, session, SIM and database
  answer is the environment too; each of these calls is made at most once.  The run keeps the events in
  the order they happen: the readings that passed the guard, the connection attempts, the submissions
  to the network with their results, and the rows written for a sent message.
\<close>

section \<open>Environment and run\<close>

record SendProfile =
  sp_enabled :: bool
  sp_sms_path :: SmsPathPolicy
  sp_trunk_vowifi_only :: bool
  sp_vowifi_enabled :: bool
  sp_cellular_connection_enabled :: bool

record VowifiLeg =
  vw_sms_ready :: bool
  vw_ready_after_connect :: bool
  vw_send :: "string + unit"
  vw_insert :: "string + unit"

record CellularLeg =
  ce_line_found :: bool
  ce_present :: bool
  ce_registered :: bool
  ce_retry_free :: bool
  ce_registered_after :: bool
  ce_last_error :: "string option"
  ce_sim_info :: "string + unit"
  ce_send :: "string + unit"
  ce_insert :: "string + unit"

record CsLeg =
  cs_line_found :: bool
  cs_present :: bool
  cs_has_baseband :: bool
  cs_path_blank :: bool
  cs_native :: bool
  cs_native_device :: "string + ustring"
  cs_send :: "string + unit"
  cs_insert :: "string + unit"

text \<open>\<open>se_scope\<close> is \<open>VowifiScope::resolve\<close>: an error or the line of the registry.\<close>

record SendEnv =
  se_settings :: "nat \<Rightarrow> ustring \<Rightarrow> SendProfile"
  se_scope :: "string + ustring"
  se_vowifi :: VowifiLeg
  se_cellular :: CellularLeg
  se_cs :: CsLeg

datatype SendEvent = GuardPassed AccessPathKind nat | ConnectVowifi | RestoreCellular
  | Submitted AccessPathKind "string + unit" | Recorded AccessPathKind

record SendRun =
  readings :: nat
  events :: "SendEvent list"

definition log_event :: "SendEvent \<Rightarrow> SendRun \<Rightarrow> SendRun" where
  "log_event e r = r\<lparr>events := events r @ [e]\<rparr>"

definition get_line_profile :: "SendEnv \<Rightarrow> ustring \<Rightarrow> SendRun \<Rightarrow> SendProfile \<times> SendRun" where
  "get_line_profile env line r = (se_settings env (readings r) line, r\<lparr>readings := readings r + 1\<rparr>)"

section \<open>The guard and the legs\<close>

definition check_sms_send_cost_guard :: "SendEnv \<Rightarrow> ustring \<Rightarrow> AccessPathKind \<Rightarrow> SmsSendGuard \<Rightarrow> SendRun
    \<Rightarrow> SendRun \<times> (string + unit)" where
  "check_sms_send_cost_guard env line path guard r =
    (case get_line_profile env line r of (p, r1) \<Rightarrow>
       if guard_allows guard path (sp_sms_path p) (sp_trunk_vowifi_only p)
       then (log_event (GuardPassed path (readings r)) r1, Inr ())
       else (r1, Inl ''sms_vowifi_only_required''))"

definition send_sms_over_vowifi_path :: "SendEnv \<Rightarrow> ustring \<Rightarrow> SendRun \<Rightarrow> SendRun \<times> (string + unit)" where
  "send_sms_over_vowifi_path env scope_line r =
    (let leg = se_vowifi env in
     case get_line_profile env scope_line r of (p, r) \<Rightarrow>
       if \<not> sp_vowifi_enabled p then (r, Inl ''disabled'')
       else
         let (r, ready) = (if vw_sms_ready leg then (r, True)
                           else (log_event ConnectVowifi r, vw_ready_after_connect leg))
         in if \<not> ready then (r, Inl ''sms_ready_not_reached'')
            else
              let r = log_event (Submitted Vowifi (vw_send leg)) r in
              case vw_send leg of
                Inl e \<Rightarrow> (r, Inl e)
              | Inr _ \<Rightarrow> (if vw_insert leg = Inr () then log_event (Recorded Vowifi) r else r, Inr ()))"

text \<open>From the SIM data to the end: the guard once more, the submission, the row.\<close>

definition cellular_submit :: "SendEnv \<Rightarrow> ustring \<Rightarrow> SmsSendGuard \<Rightarrow> SendRun \<Rightarrow> SendRun \<times> (string + unit)" where
  "cellular_submit env line guard r =
    (let leg = se_cellular env in
     case ce_sim_info leg of
       Inl e \<Rightarrow> (r, Inl e)
     | Inr _ \<Rightarrow>
        (case check_sms_send_cost_guard env line CellularIms guard r of
           (r, Inl e) \<Rightarrow> (r, Inl e)
         | (r, Inr _) \<Rightarrow>
             let r = log_event (Submitted CellularIms (ce_send leg)) r in
             (case ce_send leg of
                Inl e \<Rightarrow> (r, Inl e)
              | Inr _ \<Rightarrow>
                 (case ce_insert leg of
                    Inl e \<Rightarrow> (r, Inl e)
                  | Inr _ \<Rightarrow> (log_event (Recorded CellularIms) r, Inr ())))))"

definition send_sms_over_cellular_ims_path :: "SendEnv \<Rightarrow> ustring \<Rightarrow> SmsSendGuard \<Rightarrow> SendRun
    \<Rightarrow> SendRun \<times> (string + unit)" where
  "send_sms_over_cellular_ims_path env line guard r =
    (let leg = se_cellular env in
     case check_sms_send_cost_guard env line CellularIms guard r of
       (r, Inl e) \<Rightarrow> (r, Inl e)
     | (r, Inr _) \<Rightarrow>
        if \<not> ce_line_found leg then (r, Inl ''line_not_found'')
        else if \<not> ce_present leg then (r, Inl ''line_not_present'')
        else
          (case get_line_profile env line r of (p, r) \<Rightarrow>
             if \<not> sp_enabled p \<or> \<not> sp_cellular_connection_enabled p
             then (r, Inl ''line_cellular_ims_connection_disabled'')
             else if ce_registered leg then cellular_submit env line guard r
             else if \<not> ce_retry_free leg then (r, Inl ''cellular_ims_profile_restore_in_progress'')
             else
               let r = log_event RestoreCellular r in
               if \<not> ce_registered_after leg
               then (r, Inl (case ce_last_error leg of Some e \<Rightarrow> e | None \<Rightarrow> ''cellular_ims_profile_attempts_exhausted''))
               else cellular_submit env line guard r))"

definition send_sms_over_cs_path :: "SendEnv \<Rightarrow> ustring \<Rightarrow> SmsSendGuard \<Rightarrow> SendRun \<Rightarrow> SendRun \<times> (string + unit)" where
  "send_sms_over_cs_path env line guard r =
    (let leg = se_cs env in
     if \<not> cs_line_found leg then (r, Inl ''line_not_found'')
     else if \<not> cs_present leg then (r, Inl ''line_not_present'')
     else if \<not> cs_has_baseband leg \<or> cs_path_blank leg then (r, Inl ''line_has_no_baseband'')
     else
       (case check_sms_send_cost_guard env line Cs guard r of
          (r, Inl e) \<Rightarrow> (r, Inl e)
        | (r, Inr _) \<Rightarrow>
           if cs_native leg then
             (case get_line_profile env line r of (p, r) \<Rightarrow>
                if \<not> sp_enabled p then (r, Inl ''line_disabled'')
                else (case cs_native_device leg of
                  Inl e \<Rightarrow> (r, Inl e)
                | Inr device_line \<Rightarrow>
                   if device_line \<noteq> line then (r, Inl ''native_sms_line_scope_mismatch'')
                   else (log_event (Submitted Cs (cs_send leg)) r, cs_send leg)))
           else
             let r = log_event (Submitted Cs (cs_send leg)) r in
             (case cs_send leg of
                Inl e \<Rightarrow> (r, Inl e)
              | Inr _ \<Rightarrow>
                 (case cs_insert leg of
                    Inl e \<Rightarrow> (r, Inl e)
                  | Inr _ \<Rightarrow> (log_event (Recorded Cs) r, Inr ())))))"

section \<open>The dispatch\<close>

definition send_over :: "SendEnv \<Rightarrow> ustring \<Rightarrow> ustring \<Rightarrow> SmsSendGuard \<Rightarrow> AccessPathKind \<Rightarrow> SendRun
    \<Rightarrow> SendRun \<times> (string + unit)" where
  "send_over env line scope_line guard path r =
    (case path of
       Vowifi \<Rightarrow> send_sms_over_vowifi_path env scope_line r
     | CellularIms \<Rightarrow> send_sms_over_cellular_ims_path env line guard r
     | Cs \<Rightarrow> send_sms_over_cs_path env line guard r)"

text \<open>The loop over the legs, with the failures so far; it returns the leg that sent, if one did.\<close>

fun send_loop :: "SendEnv \<Rightarrow> ustring \<Rightarrow> ustring \<Rightarrow> SmsSendGuard \<Rightarrow> AccessPathKind list \<Rightarrow> string list \<Rightarrow> SendRun
    \<Rightarrow> SendRun \<times> (string list + AccessPathKind)" where
  "send_loop env line scope_line guard [] failures r = (r, Inl failures)"
| "send_loop env line scope_line guard (path # paths) failures r =
    (case check_sms_send_cost_guard env line path guard r of
       (r, Inl reason) \<Rightarrow> (r, Inl (failures @ [reason]))
     | (r, Inr _) \<Rightarrow>
        (case send_over env line scope_line guard path r of
           (r, Inr _) \<Rightarrow> (r, Inr path)
         | (r, Inl reason) \<Rightarrow>
            send_loop env line scope_line guard paths (failures @ [path_as_str path @ '':'' @ reason]) r))"

fun join_failures :: "string list \<Rightarrow> string" where
  "join_failures [] = ''no enabled SMS path''"
| "join_failures [f] = f"
| "join_failures (f # fs) = f @ ''; '' @ join_failures fs"

definition app_account_line :: "ustring \<Rightarrow> bool" where
  "app_account_line line \<longleftrightarrow>
     starts_with line (us ''app-account-'')
   \<and> (let suffix = drop (length (us ''app-account-'')) line in
      length suffix = 32 \<and> list_all (\<lambda>c. 48 \<le> c \<and> c \<le> 57 \<or> 97 \<le> c \<and> c \<le> 102) suffix)"

definition send_sms_on_line_with_origin :: "SendEnv \<Rightarrow> ustring \<Rightarrow> SmsSendOrigin \<Rightarrow> SendRun
    \<Rightarrow> SendRun \<times> (string + AccessPathKind)" where
  "send_sms_on_line_with_origin env line origin r =
    (if app_account_line line then (r, Inl ''app_account_outbound_unsupported'')
     else case se_scope env of
       Inl reason \<Rightarrow> (r, Inl reason)
     | Inr scope_line \<Rightarrow>
        (case get_line_profile env scope_line r of (p, r) \<Rightarrow>
           let policy = sp_sms_path p;
               guard = send_guard_new policy (sp_trunk_vowifi_only p) origin;
               paths = filter (\<lambda>k. guard_allows guard k policy (sp_trunk_vowifi_only p)) (sms_enabled_layers policy)
           in case send_loop env line scope_line guard paths [] r of
                (r, Inr path) \<Rightarrow> (r, Inr path)
              | (r, Inl failures) \<Rightarrow>
                 (case check_sms_send_cost_guard env line CellularIms guard r of
                    (r, Inl reason) \<Rightarrow>
                      (r, Inl (join_failures (if reason \<in> set failures then failures else failures @ [reason])))
                  | (r, Inr _) \<Rightarrow> (r, Inl (join_failures failures)))))"

section \<open>What a leg can submit\<close>

fun submissions :: "SendEvent list \<Rightarrow> (AccessPathKind \<times> (string + unit)) list" where
  "submissions [] = []"
| "submissions (Submitted k a # es) = (k, a) # submissions es"
| "submissions (e # es) = submissions es"

lemma submissions_append [simp]: "submissions (xs @ ys) = submissions xs @ submissions ys"
  by (induction xs rule: submissions.induct) simp_all

definition allowed_at :: "SendEnv \<Rightarrow> ustring \<Rightarrow> SmsSendGuard \<Rightarrow> AccessPathKind \<Rightarrow> nat \<Rightarrow> bool" where
  "allowed_at env line guard k n \<longleftrightarrow>
     guard_allows guard k (sp_sms_path (se_settings env n line)) (sp_trunk_vowifi_only (se_settings env n line))"

text \<open>Each chargeable submission follows at once upon a reading that passed the guard; the option is the
  event before the list.\<close>

fun guarded :: "SendEnv \<Rightarrow> ustring \<Rightarrow> SmsSendGuard \<Rightarrow> SendEvent option \<Rightarrow> SendEvent list \<Rightarrow> bool" where
  "guarded env line guard p [] = True"
| "guarded env line guard p (Submitted k a # es) =
    ((k = Vowifi \<or> (\<exists>n. p = Some (GuardPassed k n) \<and> allowed_at env line guard k n))
     \<and> guarded env line guard (Some (Submitted k a)) es)"
| "guarded env line guard p (e # es) = guarded env line guard (Some e) es"

lemma guarded_weaken: "guarded env line guard None es \<Longrightarrow> guarded env line guard p es"
  by (cases es rule: submissions.cases) auto

lemma guarded_append:
  "guarded env line guard p xs \<Longrightarrow> guarded env line guard None ys \<Longrightarrow> guarded env line guard p (xs @ ys)"
  by (induction xs arbitrary: p rule: submissions.induct) (auto intro: guarded_weaken)

lemma guarded_at:
  assumes "guarded env line guard p (xs @ Submitted k a # ys)" and "k \<noteq> Vowifi"
  shows "\<exists>n. (if xs = [] then p else Some (last xs)) = Some (GuardPassed k n) \<and> allowed_at env line guard k n"
  using assms
proof (induction xs arbitrary: p)
  case (Cons x xs)
  then have "guarded env line guard (Some x) (xs @ Submitted k a # ys)" by (cases x) simp_all
  from Cons.IH [OF this Cons.prems(2)] show ?case by (cases xs) simp_all
qed simp

text \<open>The row of a message that the network has taken could not be written.\<close>

definition record_fails :: "SendEnv \<Rightarrow> AccessPathKind \<Rightarrow> bool" where
  "record_fails env k \<longleftrightarrow>
     k = CellularIms \<and> ce_insert (se_cellular env) \<noteq> Inr ()
   \<or> k = Cs \<and> \<not> cs_native (se_cs env) \<and> cs_insert (se_cs env) \<noteq> Inr ()"

text \<open>The events a leg adds: at most one submission, guarded if chargeable, and the leg reports success
  exactly when it was taken and recorded.\<close>

definition leg_events :: "SendEnv \<Rightarrow> ustring \<Rightarrow> SmsSendGuard \<Rightarrow> AccessPathKind \<Rightarrow> SendRun
    \<Rightarrow> SendRun \<times> (string + unit) \<Rightarrow> bool" where
  "leg_events env line guard path r out \<longleftrightarrow> (\<exists>es. events (fst out) = events r @ es
     \<and> guarded env line guard None es
     \<and> (submissions es = [] \<and> snd out \<noteq> Inr ()
        \<or> (\<exists>a. submissions es = [(path, a)] \<and> (snd out = Inr () \<longleftrightarrow> a = Inr () \<and> \<not> record_fails env path))))"

lemma leg_eventsI:
  assumes "leg r = (r', res)" and "events r' = events r @ es" and "guarded env line guard None es"
    and "submissions es = [] \<and> res \<noteq> Inr ()
      \<or> (\<exists>a. submissions es = [(path, a)] \<and> (res = Inr () \<longleftrightarrow> a = Inr () \<and> \<not> record_fails env path))"
  shows "leg_events env line guard path r (leg r)"
  using assms by (auto simp: leg_events_def)

lemma vowifi_events: "leg_events env line guard Vowifi r (send_sms_over_vowifi_path env scope_line r)"
  by (cases "sp_vowifi_enabled (se_settings env (readings r) scope_line)"; cases "vw_sms_ready (se_vowifi env)";
      cases "vw_ready_after_connect (se_vowifi env)"; cases "vw_send (se_vowifi env)";
      cases "vw_insert (se_vowifi env)")
     (simp_all add: leg_events_def send_sms_over_vowifi_path_def get_line_profile_def log_event_def Let_def
       record_fails_def)

lemma guard_check:
  "check_sms_send_cost_guard env line path guard r = (r', res) \<Longrightarrow>
     res = Inr () \<and> events r' = events r @ [GuardPassed path (readings r)] \<and> allowed_at env line guard path (readings r)
   \<or> res = Inl ''sms_vowifi_only_required'' \<and> events r' = events r \<and> \<not> allowed_at env line guard path (readings r)"
  by (auto simp: check_sms_send_cost_guard_def get_line_profile_def log_event_def allowed_at_def split: if_splits)

lemma cellular_submit_events: "leg_events env line guard CellularIms r (cellular_submit env line guard r)"
proof (cases "ce_sim_info (se_cellular env)")
  case (Inl e)
  then show ?thesis by (simp add: leg_events_def cellular_submit_def)
next
  case (Inr u)
  obtain r1 res where c: "check_sms_send_cost_guard env line CellularIms guard r = (r1, res)"
    by (cases "check_sms_send_cost_guard env line CellularIms guard r")
  from guard_check [OF c] show ?thesis
    by (elim disjE conjE; cases "ce_send (se_cellular env)"; cases "ce_insert (se_cellular env)")
       (simp_all add: leg_events_def cellular_submit_def c Inr log_event_def Let_def record_fails_def)
qed

text \<open>Events before that submit nothing leave a leg a leg.\<close>

lemma leg_events_after:
  assumes "leg_events env line guard path r1 out" and "events r1 = events r @ pre" and "submissions pre = []"
    and "guarded env line guard None pre"
  shows "leg_events env line guard path r out"
proof -
  from assms(1) obtain es where es: "events (fst out) = events r1 @ es" "guarded env line guard None es"
    "submissions es = [] \<and> snd out \<noteq> Inr ()
        \<or> (\<exists>a. submissions es = [(path, a)] \<and> (snd out = Inr () \<longleftrightarrow> a = Inr () \<and> \<not> record_fails env path))"
    unfolding leg_events_def by blast
  then show ?thesis
    unfolding leg_events_def
    by (intro exI [of _ "pre @ es"]) (simp add: assms(2,3) guarded_append [OF assms(4) es(2)])
qed

lemma leg_events_none:
  "events r1 = events r @ pre \<Longrightarrow> submissions pre = [] \<Longrightarrow> guarded env line guard None pre \<Longrightarrow>
    leg_events env line guard path r (r1, Inl e)"
  by (auto simp: leg_events_def)

lemma cellular_events: "leg_events env line guard CellularIms r (send_sms_over_cellular_ims_path env line guard r)"
proof -
  obtain r1 res where c: "check_sms_send_cost_guard env line CellularIms guard r = (r1, res)"
    by (cases "check_sms_send_cost_guard env line CellularIms guard r")
  let ?r2 = "r1\<lparr>readings := readings r1 + 1\<rparr>"
  note submit = leg_events_after [OF cellular_submit_events]
  from guard_check [OF c] show ?thesis
  proof (elim disjE conjE)
    assume c1: "res = Inr ()" "events r1 = events r @ [GuardPassed CellularIms (readings r)]"
    then show ?thesis
      by (auto simp: send_sms_over_cellular_ims_path_def c get_line_profile_def log_event_def Let_def
          intro: leg_events_none submit)
  next
    assume "res = Inl ''sms_vowifi_only_required''" "events r1 = events r"
    then show ?thesis by (simp add: send_sms_over_cellular_ims_path_def c leg_events_def)
  qed
qed

lemma cs_events: "leg_events env line guard Cs r (send_sms_over_cs_path env line guard r)"
proof -
  obtain r1 res where c: "check_sms_send_cost_guard env line Cs guard r = (r1, res)"
    by (cases "check_sms_send_cost_guard env line Cs guard r")
  from guard_check [OF c] show ?thesis
    by (elim disjE conjE; cases "cs_send (se_cs env)"; cases "cs_insert (se_cs env)"; cases "cs_native_device (se_cs env)")
       (simp_all add: leg_events_def send_sms_over_cs_path_def c get_line_profile_def log_event_def Let_def
         record_fails_def)
qed


lemma send_over_events: "leg_events env line guard path r (send_over env line scope_line guard path r)"
  by (cases path) (simp_all add: send_over_def vowifi_events cellular_events cs_events)

section \<open>What the dispatch submits\<close>

text \<open>All submissions taken by the network had their row fail, but for the one the dispatch reports.\<close>

definition unrecorded :: "SendEnv \<Rightarrow> (AccessPathKind \<times> (string + unit)) list \<Rightarrow> bool" where
  "unrecorded env ss \<longleftrightarrow> (\<forall>(k, a) \<in> set ss. a = Inr () \<longrightarrow> record_fails env k)"

definition loop_events :: "SendEnv \<Rightarrow> ustring \<Rightarrow> SmsSendGuard \<Rightarrow> AccessPathKind list \<Rightarrow> SendRun
    \<Rightarrow> SendRun \<times> (string list + AccessPathKind) \<Rightarrow> bool" where
  "loop_events env line guard paths r out \<longleftrightarrow> (\<exists>es. events (fst out) = events r @ es
     \<and> guarded env line guard None es \<and> subseq (map fst (submissions es)) paths
     \<and> (case snd out of
          Inr k \<Rightarrow> (\<exists>ss. submissions es = ss @ [(k, Inr ())] \<and> unrecorded env ss)
        | Inl _ \<Rightarrow> unrecorded env (submissions es)))"

lemma send_loop_events: "loop_events env line guard paths r (send_loop env line scope_line guard paths failures r)"
proof (induction paths arbitrary: failures r)
  case Nil
  then show ?case by (simp add: loop_events_def unrecorded_def)
next
  case (Cons path paths)
  obtain r1 res where c: "check_sms_send_cost_guard env line path guard r = (r1, res)"
    by (cases "check_sms_send_cost_guard env line path guard r")
  from guard_check [OF c] show ?case
  proof (elim disjE conjE)
    assume "res = Inl ''sms_vowifi_only_required''" "events r1 = events r"
    then show ?thesis by (simp add: c loop_events_def unrecorded_def)
  next
    assume c1: "res = Inr ()" "events r1 = events r @ [GuardPassed path (readings r)]"
    obtain r2 a where s: "send_over env line scope_line guard path r1 = (r2, a)"
      by (cases "send_over env line scope_line guard path r1")
    obtain es where es: "events r2 = events r1 @ es" "guarded env line guard None es"
      "submissions es = [] \<and> a \<noteq> Inr ()
        \<or> (\<exists>x. submissions es = [(path, x)] \<and> (a = Inr () \<longleftrightarrow> x = Inr () \<and> \<not> record_fails env path))"
      using send_over_events [of env line guard path r1 scope_line] unfolding s leg_events_def by auto
    let ?pre = "GuardPassed path (readings r) # es"
    have pre: "events r2 = events r @ ?pre" "guarded env line guard None ?pre" "submissions ?pre = submissions es"
      using c1(2) es(1) guarded_weaken [OF es(2)] by simp_all
    show ?thesis
    proof (cases a)
      case (Inr u)
      then have "submissions es = [(path, Inr ())]" using es(3) by auto
      then show ?thesis
        using pre by (auto simp: c c1(1) s Inr loop_events_def unrecorded_def intro!: exI [of _ ?pre])
    next
      case (Inl e)
      let ?out = "send_loop env line scope_line guard paths (failures @ [path_as_str path @ '':'' @ e]) r2"
      obtain fs where fs: "events (fst ?out) = events r2 @ fs" "guarded env line guard None fs"
        "subseq (map fst (submissions fs)) paths"
        "case snd ?out of Inr k \<Rightarrow> (\<exists>ss. submissions fs = ss @ [(k, Inr ())] \<and> unrecorded env ss)
          | Inl _ \<Rightarrow> unrecorded env (submissions fs)"
        using Cons.IH [of r2 "failures @ [path_as_str path @ '':'' @ e]"] unfolding loop_events_def by blast
      have un: "unrecorded env (submissions es)" "subseq (map fst (submissions es @ submissions fs)) (path # paths)"
        using es(3) Inl fs(3) by (auto simp: unrecorded_def)
      have "send_loop env line scope_line guard (path # paths) failures r = ?out"
        by (simp add: c c1(1) s Inl)
      moreover have "case snd ?out of Inr k \<Rightarrow> (\<exists>ss. submissions (?pre @ fs) = ss @ [(k, Inr ())] \<and> unrecorded env ss)
          | Inl _ \<Rightarrow> unrecorded env (submissions (?pre @ fs))"
      proof (cases "snd ?out")
        case (Inl x)
        then show ?thesis using fs(4) un(1) by (auto simp: unrecorded_def)
      next
        case (Inr k)
        then obtain ss where "submissions fs = ss @ [(k, Inr ())]" "unrecorded env ss" using fs(4) by auto
        then show ?thesis
          using un(1) Inr by (auto simp: unrecorded_def intro!: exI [of _ "submissions es @ ss"])
      qed
      ultimately show ?thesis
        using guarded_append [OF pre(2) fs(2)] un(2) pre(1) fs(1)
        unfolding loop_events_def by (intro exI [of _ "?pre @ fs"]) simp
    qed
  qed
qed

text \<open>The leg delivers whenever it is tried.\<close>

definition leg_works :: "SendEnv \<Rightarrow> ustring \<Rightarrow> ustring \<Rightarrow> AccessPathKind \<Rightarrow> bool" where
  "leg_works env line scope_line k =
    (case k of
       Vowifi \<Rightarrow> let leg = se_vowifi env in (\<forall>n. sp_vowifi_enabled (se_settings env n scope_line))
         \<and> (vw_sms_ready leg \<or> vw_ready_after_connect leg) \<and> vw_send leg = Inr ()
     | CellularIms \<Rightarrow> let leg = se_cellular env in ce_line_found leg \<and> ce_present leg
         \<and> (\<forall>n. sp_enabled (se_settings env n line) \<and> sp_cellular_connection_enabled (se_settings env n line))
         \<and> (ce_registered leg \<or> ce_retry_free leg \<and> ce_registered_after leg)
         \<and> ce_sim_info leg = Inr () \<and> ce_send leg = Inr () \<and> ce_insert leg = Inr ()
     | Cs \<Rightarrow> let leg = se_cs env in cs_line_found leg \<and> cs_present leg \<and> cs_has_baseband leg \<and> \<not> cs_path_blank leg
         \<and> (if cs_native leg
            then (\<forall>n. sp_enabled (se_settings env n line)) \<and> cs_native_device leg = Inr line
            else cs_insert leg = Inr ())
         \<and> cs_send leg = Inr ())"

lemma check_allowed:
  "\<forall>n. allowed_at env line guard path n \<Longrightarrow> \<exists>r1. check_sms_send_cost_guard env line path guard r = (r1, Inr ())"
  by (simp add: check_sms_send_cost_guard_def get_line_profile_def allowed_at_def)

lemma leg_delivers:
  assumes "leg_works env line scope_line k" and "\<forall>n. allowed_at env line guard k n"
  shows "snd (send_over env line scope_line guard k r) = Inr ()"
proof (cases k)
  case Vowifi
  with assms(1) show ?thesis
    by (auto simp: leg_works_def send_over_def send_sms_over_vowifi_path_def get_line_profile_def Let_def)
next
  case CellularIms
  have submit: "snd (cellular_submit env line guard x) = Inr ()" for x
    using assms CellularIms check_allowed [of env line guard CellularIms x]
    by (auto simp: leg_works_def cellular_submit_def Let_def)
  show ?thesis
    using assms CellularIms check_allowed [of env line guard CellularIms r]
    by (auto simp: leg_works_def send_over_def send_sms_over_cellular_ims_path_def get_line_profile_def Let_def submit)
next
  case Cs
  with assms check_allowed [of env line guard Cs r] show ?thesis
    by (auto simp: leg_works_def send_over_def send_sms_over_cs_path_def get_line_profile_def Let_def split: if_splits)
qed

lemma send_loop_delivers:
  assumes "k \<in> set paths" and "leg_works env line scope_line k" and "\<forall>p n. allowed_at env line guard p n"
  shows "\<exists>j. snd (send_loop env line scope_line guard paths failures r) = Inr j"
  using assms(1)
proof (induction paths arbitrary: failures r)
  case (Cons path paths)
  obtain r1 where c: "check_sms_send_cost_guard env line path guard r = (r1, Inr ())"
    using check_allowed [of env line guard path r] assms(3) by blast
  obtain r2 a where s: "send_over env line scope_line guard path r1 = (r2, a)"
    by (cases "send_over env line scope_line guard path r1")
  show ?case
  proof (cases a)
    case (Inr u)
    then show ?thesis by (simp add: c s)
  next
    case (Inl e)
    then have "path \<noteq> k" using leg_delivers [OF assms(2), of guard r1] assms(3) s by auto
    with Cons.prems Cons.IH Inl show ?thesis by (simp add: c s)
  qed
qed simp


section \<open>Properties\<close>

definition restricts :: "SmsSendOrigin \<Rightarrow> SendProfile \<Rightarrow> bool" where
  "restricts origin p \<longleftrightarrow> force_vowifi_send (sp_sms_path p) \<or> origin = Trunk \<and> sp_trunk_vowifi_only p"

lemma allowed_chargeable:
  "k \<noteq> Vowifi \<Longrightarrow> allowed_at env line (send_guard_new (sp_sms_path p) (sp_trunk_vowifi_only p) origin) k n
     \<longleftrightarrow> \<not> restricts origin p \<and> \<not> restricts origin (se_settings env n line)"
  by (auto simp: allowed_at_def guard_allows_def send_guard_new_def restricts_def)

lemma dispatch_events:
  assumes "send_sms_on_line_with_origin env line origin \<lparr>readings = n0, events = []\<rparr> = (r, res)"
    and "\<not> app_account_line line" and "se_scope env = Inr scope_line"
    and "p = se_settings env n0 scope_line" and "guard = send_guard_new (sp_sms_path p) (sp_trunk_vowifi_only p) origin"
  shows "subseq (map fst (submissions (events r))) [Vowifi, CellularIms, Cs]
    \<and> guarded env line guard None (events r)
    \<and> (case res of
         Inr k \<Rightarrow> (\<exists>ss. submissions (events r) = ss @ [(k, Inr ())] \<and> unrecorded env ss)
       | Inl _ \<Rightarrow> unrecorded env (submissions (events r)))"
proof -
  let ?paths = "filter (\<lambda>k. guard_allows guard k (sp_sms_path p) (sp_trunk_vowifi_only p)) (sms_enabled_layers (sp_sms_path p))"
  let ?r1 = "\<lparr>readings = n0 + 1, events = []\<rparr>"
  obtain r2 out where loop: "send_loop env line scope_line guard ?paths [] ?r1 = (r2, out)"
    by (cases "send_loop env line scope_line guard ?paths [] ?r1")
  obtain r3 c where check: "check_sms_send_cost_guard env line CellularIms guard r2 = (r3, c)"
    by (cases "check_sms_send_cost_guard env line CellularIms guard r2")
  have shape: "guarded env line guard None (events r2)" "subseq (map fst (submissions (events r2))) ?paths"
    "case out of Inr k \<Rightarrow> (\<exists>ss. submissions (events r2) = ss @ [(k, Inr ())] \<and> unrecorded env ss)
      | Inl _ \<Rightarrow> unrecorded env (submissions (events r2))"
    using send_loop_events [of env line guard ?paths ?r1 scope_line "[]"] unfolding loop loop_events_def by auto
  have "subseq ?paths [Vowifi, CellularIms, Cs]"
    by (auto simp: sms_enabled_layers_def split: if_splits)
  with shape(2) have sub: "subseq (map fst (submissions (events r2))) [Vowifi, CellularIms, Cs]"
    by (rule subseq_order.trans)
  have run: "send_sms_on_line_with_origin env line origin \<lparr>readings = n0, events = []\<rparr> =
    (case out of Inr path \<Rightarrow> (r2, Inr path)
       | Inl failures \<Rightarrow> (case c of
           Inl reason \<Rightarrow> (r3, Inl (join_failures (if reason \<in> set failures then failures else failures @ [reason])))
         | Inr _ \<Rightarrow> (r3, Inl (join_failures failures))))"
    using loop check assms(2-5)
    by (simp add: send_sms_on_line_with_origin_def get_line_profile_def Let_def split: sum.split)
  show ?thesis
  proof (cases out)
    case (Inr k)
    with run assms(1) shape sub show ?thesis by auto
  next
    case (Inl failures)
    have r: "r = r3" "\<exists>e. res = Inl e" using run assms(1) Inl by (auto split: sum.splits)
    have "submissions (events r3) = submissions (events r2) \<and> guarded env line guard None (events r3)"
      using guard_check [OF check] shape(1) by (auto intro!: guarded_append)
    with r Inl shape(3) sub show ?thesis by auto
  qed
qed

text \<open>
  C35: Sending a short message.  Whatever the legs, the database and changing settings do: the legs are
  submitted to in the order Wi-Fi, cellular IMS, circuit switched, each at most once.  A submission over
  a chargeable leg follows at once upon a reading of the settings that does not restrict the line to
  Wi-Fi, and the settings at the start did not either.  A leg is reported only when its submission was
  the last one and returned success; every other submission that returned success is one whose row
  could not be written.  And when no reading restricts the line and some leg delivers whenever it is
  tried, the dispatch succeeds.
\<close>

theorem sms_dispatch:
  assumes "send_sms_on_line_with_origin env line origin \<lparr>readings = n0, events = []\<rparr> = (r, res)"
    and "\<not> app_account_line line" and "se_scope env = Inr scope_line"
  shows "subseq (map fst (submissions (events r))) [Vowifi, CellularIms, Cs]
    \<and> (events r = xs @ Submitted k a # ys \<and> k \<noteq> Vowifi \<longrightarrow>
        (\<exists>zs n. xs = zs @ [GuardPassed k n] \<and> \<not> restricts origin (se_settings env n0 scope_line)
           \<and> \<not> restricts origin (se_settings env n line)))
    \<and> (case res of
         Inr j \<Rightarrow> (\<exists>ss. submissions (events r) = ss @ [(j, Inr ())]
           \<and> (\<forall>(i, x) \<in> set ss. x = Inr () \<longrightarrow> record_fails env i))
       | Inl _ \<Rightarrow> (\<forall>(i, x) \<in> set (submissions (events r)). x = Inr () \<longrightarrow> record_fails env i))
    \<and> ((\<forall>n l. \<not> restricts origin (se_settings env n l)) \<and> leg_works env line scope_line j
       \<longrightarrow> (\<exists>i. res = Inr i))"
proof -
  define p where "p = se_settings env n0 scope_line"
  define guard where "guard = send_guard_new (sp_sms_path p) (sp_trunk_vowifi_only p) origin"
  note shape = dispatch_events [OF assms p_def guard_def]
  have "\<exists>zs n. xs = zs @ [GuardPassed k n] \<and> \<not> restricts origin (se_settings env n0 scope_line)
      \<and> \<not> restricts origin (se_settings env n line)"
    if ev: "events r = xs @ Submitted k a # ys" and k: "k \<noteq> Vowifi"
  proof -
    have "guarded env line guard None (xs @ Submitted k a # ys)" using shape ev by simp
    from guarded_at [OF this k] obtain n where n: "xs \<noteq> []" "last xs = GuardPassed k n" "allowed_at env line guard k n"
      by (auto split: if_splits)
    then have "xs = butlast xs @ [GuardPassed k n]" by (metis append_butlast_last_id)
    with n(3) allowed_chargeable [OF k] show ?thesis unfolding guard_def p_def by blast
  qed
  moreover have "\<exists>i. res = Inr i"
    if free: "\<forall>n l. \<not> restricts origin (se_settings env n l)" and works: "leg_works env line scope_line j"
  proof -
    have allowed: "\<forall>q n. allowed_at env line guard q n"
      using free by (auto simp: guard_def p_def allowed_at_def guard_allows_def send_guard_new_def restricts_def)
    have "guard_allows guard q (sp_sms_path p) (sp_trunk_vowifi_only p)" for q
      using free by (auto simp: guard_def p_def guard_allows_def send_guard_new_def restricts_def)
    moreover have "j \<in> set (sms_enabled_layers (sp_sms_path p))"
      using free by (cases j) (auto simp: p_def sms_enabled_layers_def restricts_def)
    ultimately have "\<exists>i. snd (send_loop env line scope_line guard (filter (\<lambda>k. guard_allows guard k (sp_sms_path p)
        (sp_trunk_vowifi_only p)) (sms_enabled_layers (sp_sms_path p))) [] \<lparr>readings = n0 + 1, events = []\<rparr>) = Inr i"
      using send_loop_delivers [OF _ works allowed] by simp
    then show ?thesis
      using assms by (auto simp: send_sms_on_line_with_origin_def get_line_profile_def Let_def guard_def p_def
          split: prod.splits sum.splits)
  qed
  ultimately show ?thesis using shape unfolding unrecorded_def by blast
qed


text \<open>
  A message sent twice.  The network takes the message over cellular IMS, its row cannot be written,
  and the dispatch goes on and sends it again over the circuit-switched leg.
\<close>

definition sample_profile_settings :: SendProfile where
  "sample_profile_settings = \<lparr>sp_enabled = True, sp_sms_path = sms_policy_default, sp_trunk_vowifi_only = False,
     sp_vowifi_enabled = False, sp_cellular_connection_enabled = True\<rparr>"

definition sample_send_env :: SendEnv where
  "sample_send_env = \<lparr>se_settings = (\<lambda>_ _. sample_profile_settings), se_scope = Inr (us ''a''),
     se_vowifi = \<lparr>vw_sms_ready = False, vw_ready_after_connect = False, vw_send = Inl ''x'', vw_insert = Inr ()\<rparr>,
     se_cellular = \<lparr>ce_line_found = True, ce_present = True, ce_registered = True, ce_retry_free = True,
       ce_registered_after = True, ce_last_error = None, ce_sim_info = Inr (), ce_send = Inr (),
       ce_insert = Inl ''database is locked''\<rparr>,
     se_cs = \<lparr>cs_line_found = True, cs_present = True, cs_has_baseband = True, cs_path_blank = False,
       cs_native = False, cs_native_device = Inl ''x'', cs_send = Inr (), cs_insert = Inr ()\<rparr>\<rparr>"

lemma sample_dispatch:
  "send_sms_on_line_with_origin sample_send_env (us ''a'') Local \<lparr>readings = 0, events = []\<rparr> =
     (\<lparr>readings = 9, events = [GuardPassed Vowifi 1, GuardPassed CellularIms 3, GuardPassed CellularIms 4,
        GuardPassed CellularIms 6, Submitted CellularIms (Inr ()), GuardPassed Cs 7, GuardPassed Cs 8,
        Submitted Cs (Inr ()), Recorded Cs]\<rparr>, Inr Cs)"
proof -
  have "\<not> app_account_line (us ''a'')" by (simp add: app_account_line_def starts_with_def us_def)
  moreover have "sms_enabled_layers sms_policy_default = [Vowifi, CellularIms, Cs]"
    by (simp add: sms_enabled_layers_def sms_policy_default_def)
  moreover have "guard_allows (send_guard_new sms_policy_default False Local) k sms_policy_default False" for k
    by (simp add: guard_allows_def send_guard_new_def sms_policy_default_def)
  ultimately show ?thesis
    by (simp add: send_sms_on_line_with_origin_def get_line_profile_def sample_send_env_def
        sample_profile_settings_def check_sms_send_cost_guard_def log_event_def send_over_def
        send_sms_over_vowifi_path_def send_sms_over_cellular_ims_path_def cellular_submit_def
        send_sms_over_cs_path_def Let_def)
qed

theorem sms_dispatch_witness:
  "\<exists>zs n. [GuardPassed Vowifi 1, GuardPassed CellularIms 3, GuardPassed CellularIms 4,
        GuardPassed CellularIms 6, Submitted CellularIms (Inr ()), GuardPassed Cs 7, GuardPassed Cs 8]
      = zs @ [GuardPassed Cs n] \<and> \<not> restricts Local (se_settings sample_send_env n (us ''a''))
    \<and> record_fails sample_send_env CellularIms"
proof -
  have "\<not> app_account_line (us ''a'')" by (simp add: app_account_line_def starts_with_def us_def)
  moreover have "se_scope sample_send_env = Inr (us ''a'')" by (simp add: sample_send_env_def)
  ultimately show ?thesis
    using sms_dispatch [OF sample_dispatch, of "us ''a''" "[GuardPassed Vowifi 1, GuardPassed CellularIms 3, GuardPassed CellularIms 4,
        GuardPassed CellularIms 6, Submitted CellularIms (Inr ()), GuardPassed Cs 7, GuardPassed Cs 8]" Cs "Inr ()" "[Recorded Cs]"]
    by (simp add: Cons_eq_append_conv append_eq_Cons_conv)
qed


end
