(* ===== verification/Sms_Dedup.thy ===== *)
theory Sms_Dedup
  imports Sms_Deliver Anti_Replay
begin

text \<open>
  Cross-transport deduplication of inbound messages: the content fingerprint of
  \<open>services/orchestrator/dedup.rs\<close> and the claim table of \<open>platform/db.rs\<close>.  The MD5 crate is a
  parameter; what is used of it is that its hexadecimal digest has no colon.  The table is the list
  of its rows, with the unique key \<open>(line_id, fingerprint)\<close> of \<open>INSERT OR IGNORE\<close>; a failing SQLite
  connection is not modelled.
\<close>

section \<open>Fingerprints\<close>

record MessageFingerprintInput =
  fp_timestamp :: string
  fp_originator :: ustring
  fp_text :: ustring
  fp_reference :: "u16 option"
  fp_sequence :: u8
  fp_total :: u8

text \<open>\<open>{r:04x}\<close> on a 16-bit value.\<close>

definition hex4 :: "u16 \<Rightarrow> string" where
  "hex4 r = map hex_digit [unat r div 4096, unat r div 256 mod 16, unat r div 16 mod 16, unat r mod 16]"

definition segment_tag :: "u16 option \<Rightarrow> string" where
  "segment_tag r = (case r of Some v \<Rightarrow> hex4 v | None \<Rightarrow> ''none'')"

definition message_fingerprint :: "(ustring \<Rightarrow> string) \<Rightarrow> MessageFingerprintInput \<Rightarrow> ustring" where
  "message_fingerprint md5 i =
     us ''smsfp1:'' @ fp_originator i @ us '':'' @ us (fp_timestamp i) @ us '':'' @ us (md5 (fp_text i))
     @ us '':'' @ us (segment_tag (fp_reference i)) @ us '':'' @ us (show_nat (unat (fp_sequence i)))
     @ us '':'' @ us (show_nat (unat (fp_total i)))"

section \<open>The claim table\<close>

record SmsDedupRow =
  row_line :: ustring
  row_fingerprint :: ustring
  row_transport :: string
  row_created_at :: string

definition required_line_id :: "ustring \<Rightarrow> string + ustring" where
  "required_line_id l =
    (let l = str_trim l in if l = [] then Inl ''line_id must not be empty'' else Inr l)"

definition has_claim :: "SmsDedupRow list \<Rightarrow> ustring \<Rightarrow> ustring \<Rightarrow> bool" where
  "has_claim rows l fp \<longleftrightarrow> list_ex (\<lambda>r. row_line r = l \<and> row_fingerprint r = fp) rows"

definition claim_sms_dedup :: "SmsDedupRow list \<Rightarrow> ustring \<Rightarrow> ustring \<Rightarrow> string \<Rightarrow> string
    \<Rightarrow> SmsDedupRow list \<times> (string + bool)" where
  "claim_sms_dedup rows l fp transport now =
    (case required_line_id l of
       Inl e \<Rightarrow> (rows, Inl e)
     | Inr l \<Rightarrow>
        if has_claim rows l fp then (rows, Inr False)
        else (rows @ [\<lparr>row_line = l, row_fingerprint = fp, row_transport = transport,
                       row_created_at = now\<rparr>], Inr True))"

definition sms_dedup_exists :: "SmsDedupRow list \<Rightarrow> ustring \<Rightarrow> ustring \<Rightarrow> string + bool" where
  "sms_dedup_exists rows l fp = rmap (\<lambda>l. has_claim rows l fp) (required_line_id l)"

definition cleanup_sms_dedup :: "SmsDedupRow list \<Rightarrow> ustring \<Rightarrow> string \<Rightarrow> SmsDedupRow list \<times> (string + nat)" where
  "cleanup_sms_dedup rows l cutoff =
    (case required_line_id l of
       Inl e \<Rightarrow> (rows, Inl e)
     | Inr l \<Rightarrow>
        (let gone = (\<lambda>r. row_line r = l \<and> str_less (row_created_at r) cutoff)
         in (filter (\<lambda>r. \<not> gone r) rows, Inr (length (filter gone rows)))))"

section \<open>Fingerprints identify messages\<close>

lemma colon_split:
  assumes "a @ c # b = a' @ c # b'" and "c \<notin> set b" and "c \<notin> set b'"
  shows "a = a' \<and> b = b'"
proof -
  have "rev b @ c # rev a = rev b' @ c # rev a'" using arg_cong [OF assms(1), of rev] by simp
  moreover have "takeWhile (\<lambda>x. x \<noteq> c) (rev q @ c # r) = rev q" if "c \<notin> set q" for q r
    using that by (subst takeWhile_append2) auto
  ultimately have "rev b = rev b'" using assms(2,3) by metis
  with assms(1) show ?thesis by simp
qed

lemma inj_us: "us a = us b \<longleftrightarrow> a = b"
  by (simp add: us_def inj_map_eq_map inj_on_def)

lemma show_nat_chars: "set (show_nat n) \<subseteq> char_of ` {48..<58 :: nat}"
proof (induction n rule: show_nat.induct)
  case (1 n)
  then show ?case by (auto simp: show_nat.simps [of n])
qed

lemma show_nat_nonempty [simp]: "show_nat n \<noteq> []" "[] \<noteq> show_nat n"
  by (simp_all add: show_nat.simps [of n])

lemma char_of_inj: "m < 256 \<Longrightarrow> n < 256 \<Longrightarrow> (char_of m :: char) = char_of n \<longleftrightarrow> m = (n :: nat)"
  using arg_cong [of "char_of m :: char" "char_of n" "of_char :: char \<Rightarrow> nat"] by (auto simp: of_char_of)

lemma named_chars: "CHR '':'' = char_of (58 :: nat)" "CHR ''n'' = char_of (110 :: nat)"
  by (simp_all add: char_of_def bit_0)

lemma show_nat_inj: "show_nat m = show_nat n \<Longrightarrow> m = n"
proof (induction m arbitrary: n rule: show_nat.induct)
  case (1 m)
  note eq = 1(2) [unfolded show_nat.simps [of m] show_nat.simps [of n]]
  show ?case
  proof (cases "m < 10 \<or> n < 10")
    case True
    with eq show ?thesis by (auto simp: char_of_inj split: if_splits)
  next
    case False
    with eq have "show_nat (m div 10) = show_nat (n div 10)" "m mod 10 = n mod 10"
      by (auto simp: char_of_inj)
    with 1(1) False have "m div 10 = n div 10" by blast
    with \<open>m mod 10 = n mod 10\<close> show ?thesis by (metis div_mult_mod_eq)
  qed
qed

lemma hex_digit_inj: "i < 16 \<Longrightarrow> j < 16 \<Longrightarrow> hex_digit i = hex_digit j \<longleftrightarrow> i = j"
  by (simp add: hex_digit_def char_of_inj split: if_splits)

lemma hex_digit_cases: "n < 16 \<Longrightarrow> hex_digit n \<in> char_of ` ({48..<58} \<union> {97..<103 :: nat})"
  by (auto simp: hex_digit_def)

lemma hex4_bounds:
  "unat (r :: u16) div 4096 < 16" "unat r div 256 mod 16 < 16" "unat r div 16 mod 16 < 16" "unat r mod 16 < 16"
  using unsigned_less [of r, where 'a = nat] by (simp_all add: less_mult_imp_div_less)

lemma hex4_inj: "hex4 a = hex4 b \<longleftrightarrow> a = b"
proof
  assume "hex4 a = hex4 b"
  then have eq: "unat a div 4096 = unat b div 4096" "unat a div 256 mod 16 = unat b div 256 mod 16"
    "unat a div 16 mod 16 = unat b div 16 mod 16" "unat a mod 16 = unat b mod 16"
    by (simp_all add: hex4_def hex_digit_inj hex4_bounds)
  have nat: "n = 4096 * (n div 4096) + 256 * (n div 256 mod 16) + 16 * (n div 16 mod 16) + n mod 16" for n :: nat
  proof -
    have "n = 16 * (n div 16) + n mod 16" "n div 16 = 16 * (n div 256) + n div 16 mod 16"
      "n div 256 = 16 * (n div 4096) + n div 256 mod 16"
      using div_mult2_eq [of n 16 16] div_mult2_eq [of n 256 16] by simp_all
    then show ?thesis by linarith
  qed
  from eq have "unat a = unat b" using nat [of "unat a"] nat [of "unat b"] by simp
  then show "a = b" by (rule word_unat_eq_iff [THEN iffD2])
qed simp

lemma segment_tag_inj: "segment_tag a = segment_tag b \<longleftrightarrow> a = b"
proof -
  have "CHR ''n'' \<noteq> hex_digit i" if "i < 16" for i
    using hex_digit_cases [OF that] by (auto simp: named_chars char_of_inj)
  from this [OF hex4_bounds(1)] have "hex4 v \<noteq> ''none''" for v by (auto simp: hex4_def dest: sym)
  then show ?thesis by (auto simp: segment_tag_def hex4_inj split: option.splits) metis+
qed

lemma no_colon:
  "CHR '':'' \<notin> set (show_nat n)" "CHR '':'' \<notin> set (segment_tag r)"
proof -
  have colon: "CHR '':'' \<notin> char_of ` ({48..<58} \<union> {97..<103 :: nat})"
    by (auto simp: named_chars char_of_inj)
  then show "CHR '':'' \<notin> set (show_nat n)" using show_nat_chars [of n] by (simp add: image_Un subset_iff) metis
  have hex: "CHR '':'' \<noteq> hex_digit i" if "i < 16" for i
    using hex_digit_cases [OF that] colon by metis
  show "CHR '':'' \<notin> set (segment_tag r)"
  proof (cases r)
    case (Some v)
    then show ?thesis
      using hex [OF hex4_bounds(1)] hex [OF hex4_bounds(2)] hex [OF hex4_bounds(3)] hex [OF hex4_bounds(4)]
      by (simp add: segment_tag_def hex4_def)
  qed (simp add: segment_tag_def)
qed


lemma us_colon [simp]: "us '':'' = [58]" "58 \<in> set (us s) \<longleftrightarrow> CHR '':'' \<in> set s"
proof -
  show "us '':'' = [58]" by (simp add: us_def)
  have "inj (of_char :: char \<Rightarrow> nat)" by (simp add: inj_on_def)
  then show "58 \<in> set (us s) \<longleftrightarrow> CHR '':'' \<in> set s"
    using inj_image_mem_iff [of "of_char :: char \<Rightarrow> nat" "CHR '':''" "set s"] by (simp add: us_def)
qed

lemma fingerprint_fields:
  assumes "CHR '':'' \<notin> set (md5 (fp_text i))" and "CHR '':'' \<notin> set (md5 (fp_text j))"
    and "length (fp_timestamp i) = length (fp_timestamp j)"
    and "message_fingerprint md5 i = message_fingerprint md5 j"
  shows "fp_originator i = fp_originator j" "fp_timestamp i = fp_timestamp j"
    "md5 (fp_text i) = md5 (fp_text j)" "fp_reference i = fp_reference j"
    "fp_sequence i = fp_sequence j" "fp_total i = fp_total j"
proof -
  let ?p = "us ''smsfp1:''"
  let ?t = "\<lambda>i. us (show_nat (unat (fp_total i)))" and ?s = "\<lambda>i. us (show_nat (unat (fp_sequence i)))"
    and ?r = "\<lambda>i. us (segment_tag (fp_reference i))" and ?h = "\<lambda>i. us (md5 (fp_text i))"
  let ?a = "\<lambda>i. ?p @ fp_originator i @ 58 # us (fp_timestamp i)"
  have e1: "(((?a i @ 58 # ?h i) @ 58 # ?r i) @ 58 # ?s i) @ 58 # ?t i
      = (((?a j @ 58 # ?h j) @ 58 # ?r j) @ 58 # ?s j) @ 58 # ?t j"
    using assms(4) by (simp add: message_fingerprint_def)
  from colon_split [OF e1] have t: "?t i = ?t j"
    and e2: "((?a i @ 58 # ?h i) @ 58 # ?r i) @ 58 # ?s i = ((?a j @ 58 # ?h j) @ 58 # ?r j) @ 58 # ?s j"
    by (simp_all add: no_colon)
  from colon_split [OF e2] have s: "?s i = ?s j"
    and e3: "(?a i @ 58 # ?h i) @ 58 # ?r i = (?a j @ 58 # ?h j) @ 58 # ?r j"
    by (simp_all add: no_colon)
  from colon_split [OF e3] have r: "?r i = ?r j" and e4: "?a i @ 58 # ?h i = ?a j @ 58 # ?h j"
    by (simp_all add: no_colon)
  from colon_split [OF e4] assms(1,2) have h: "?h i = ?h j" and e5: "?a i = ?a j" by simp_all
  from e5 have "(fp_originator i @ [58]) @ us (fp_timestamp i) = (fp_originator j @ [58]) @ us (fp_timestamp j)"
    by simp
  then have "fp_originator i = fp_originator j \<and> us (fp_timestamp i) = us (fp_timestamp j)"
    using assms(3) by (subst (asm) append_eq_append_conv) (auto simp: us_def)
  then show "fp_originator i = fp_originator j" "fp_timestamp i = fp_timestamp j"
    by (simp_all add: inj_us)
  show "md5 (fp_text i) = md5 (fp_text j)" "fp_reference i = fp_reference j"
    using h r by (simp_all add: inj_us segment_tag_inj)
  show "fp_sequence i = fp_sequence j" "fp_total i = fp_total j"
    using s t show_nat_inj by (auto simp: inj_us word_unat_eq_iff)
qed

end
