(* ===== verification/Sms_Store.thy ===== *)
theory Sms_Store
  imports Sms_Dedup
begin

text \<open>
  How a received message reaches the database: the message table of \<open>platform/db.rs\<close>, the store path of
  each access leg, i.e. the modem scan (\<open>services/messaging/sms_listener.rs\<close>), the cellular IMS frame
  handler (\<open>cellular_ims/live.rs\<close>) and the VoWiFi persistence (\<open>api/handlers.rs\<close>), and the legs running
  side by side.

  Every database call takes the connection's mutex and is one step; between two calls of a leg other
  legs make theirs.  A store path is therefore a program of calls: \<open>Call q k\<close> makes the call \<open>q\<close> and goes on
  with \<open>k\<close> of the answer, an error of SQLite or a boolean (for a lookup, whether a row was found; for a
  claim, whether it is the first; for an insert, \<open>True\<close>).  The time stamps of the legs are texts of
  ASCII characters.  \<open>utc\<close> is chrono's RFC 3339 parser followed by its formatting in UTC to the second,
  \<open>md5\<close> the hexadecimal digest; the clock readings are arguments.  Left out: the cache of service centre
  numbers and the diagnostic tables \<open>vowifi_sms_delivery\<close> and \<open>vowifi_sms_part\<close>, which these paths only
  write, notification and tracing.
\<close>

section \<open>Time stamps\<close>

definition parse_sms_timestamp_with_offset :: "(ustring \<Rightarrow> string option) \<Rightarrow> ustring \<Rightarrow> string option" where
  "parse_sms_timestamp_with_offset utc t =
    (let t = map (\<lambda>c. if c = 32 then 84 else c) t in
     case utc t of
       Some parsed \<Rightarrow> Some parsed
     | None \<Rightarrow>
        (case List.find (\<lambda>i. 10 < i \<and> t ! i \<in> {43, 45}) (rev [0..<length t]) of
           None \<Rightarrow> None
         | Some i \<Rightarrow>
            (let off = drop i t;
                 normalized = (if length off = 3 then off @ us '':00''
                   else if length off = 5 \<and> 58 \<notin> set off then take 3 off @ us '':'' @ drop 3 off
                   else off)
             in utc (take i t @ normalized))))"

definition normalize_sms_timestamp_for_display :: "(ustring \<Rightarrow> string option) \<Rightarrow> ustring \<Rightarrow> string option" where
  "normalize_sms_timestamp_for_display utc t =
    (let t = str_trim t in if t = [] then None else parse_sms_timestamp_with_offset utc t)"

definition sms_timestamp_for_storage :: "(ustring \<Rightarrow> string option) \<Rightarrow> string \<Rightarrow> ustring \<Rightarrow> string" where
  "sms_timestamp_for_storage utc now t =
    (case normalize_sms_timestamp_for_display utc t of Some s \<Rightarrow> s | None \<Rightarrow> now)"

section \<open>The tables and their calls\<close>

record SmsRow =
  sms_direction :: string
  sms_number :: ustring
  sms_content :: ustring
  sms_stamp :: string
  sms_status :: string
  sms_pdu :: "ustring option"
  sms_transport :: string
  sms_line :: "ustring option"

record SmsDb =
  sms_dedup :: "SmsDedupRow list"
  sms_messages :: "SmsRow list"

definition normalized_sms_transport :: "string \<Rightarrow> string" where
  "normalized_sms_transport v =
    (let v = str_trim (us v) in
     if v = us ''vowifi_ims'' then ''vowifi_ims''
     else if v = us ''cellular_ims'' \<or> v = us ''volte_ims'' then ''cellular_ims'' else ''modem'')"

text \<open>\<open>insert_sms_at_with_transport_for_line\<close>; the application event is inserted in the same transaction,
  so the call adds both or fails.\<close>

definition insert_sms_at :: "(ustring \<Rightarrow> string option) \<Rightarrow> string \<Rightarrow> SmsDb \<Rightarrow> string \<Rightarrow> ustring \<Rightarrow> ustring
    \<Rightarrow> string \<Rightarrow> string \<Rightarrow> ustring option \<Rightarrow> string \<Rightarrow> ustring option \<Rightarrow> SmsDb" where
  "insert_sms_at utc now db direction number content timestamp status pdu transport line =
     db\<lparr>sms_messages := sms_messages db @
       [\<lparr>sms_direction = direction, sms_number = number, sms_content = content,
         sms_stamp = sms_timestamp_for_storage utc now (us timestamp), sms_status = status, sms_pdu = pdu,
         sms_transport = normalized_sms_transport transport,
         sms_line = (case line of None \<Rightarrow> None | Some l \<Rightarrow> if str_trim l = [] then None else Some l)\<rparr>]\<rparr>"

definition sms_exists_by_pdu_for_line :: "SmsDb \<Rightarrow> ustring \<Rightarrow> ustring \<Rightarrow> string + bool" where
  "sms_exists_by_pdu_for_line db line pdu =
     rmap (\<lambda>l. list_ex (\<lambda>r. sms_line r = Some l \<and> sms_pdu r = Some pdu) (sms_messages db))
       (required_line_id line)"

definition incoming_sms_exists_by_timestamp :: "(ustring \<Rightarrow> string option) \<Rightarrow> SmsDb \<Rightarrow> ustring \<Rightarrow> ustring
    \<Rightarrow> ustring \<Rightarrow> string \<Rightarrow> string + bool" where
  "incoming_sms_exists_by_timestamp utc db line number content timestamp =
    (let normalized = (case normalize_sms_timestamp_for_display utc (us timestamp) of
           Some s \<Rightarrow> us s | None \<Rightarrow> str_trim (us timestamp))
     in rmap (\<lambda>l. list_ex (\<lambda>r. sms_line r = Some l \<and> sms_direction r = ''incoming'' \<and> sms_number r = number
            \<and> sms_content r = content \<and> (sms_stamp r = timestamp \<or> us (sms_stamp r) = normalized))
          (sms_messages db)) (required_line_id line))"

text \<open>SQLite's \<open>LIKE\<close> ignores the case of ASCII letters.\<close>

definition modem_marked :: "ustring \<Rightarrow> bool" where
  "modem_marked pdu \<longleftrightarrow>
     map (\<lambda>c. if 65 \<le> c \<and> c \<le> 90 then c + 32 else c) (take 5 pdu) = us ''mmfp:''"

definition incoming_sms_exists_by_legacy_content :: "SmsDb \<Rightarrow> ustring \<Rightarrow> ustring \<Rightarrow> ustring \<Rightarrow> string + bool" where
  "incoming_sms_exists_by_legacy_content db line number content =
     rmap (\<lambda>l. list_ex (\<lambda>r. sms_line r = Some l \<and> sms_direction r = ''incoming'' \<and> sms_number r = number
          \<and> sms_content r = content
          \<and> (case sms_pdu r of None \<Rightarrow> True | Some pdu \<Rightarrow> \<not> modem_marked pdu)) (sms_messages db))
       (required_line_id line)"

datatype DbQuery =
  ExistsByPdu ustring ustring
| ExistsByTimestamp ustring ustring ustring string
| ExistsByContent ustring ustring ustring
| ClaimDedup ustring ustring string
| InsertIncoming ustring ustring ustring string ustring string

text \<open>The call when SQLite does not fail, with the readings of the clock in UTC and in Beijing time.\<close>

fun db_answer :: "(ustring \<Rightarrow> string option) \<Rightarrow> string \<Rightarrow> string \<Rightarrow> DbQuery \<Rightarrow> SmsDb \<Rightarrow> SmsDb \<times> (string + bool)" where
  "db_answer utc now beijing (ExistsByPdu l pdu) db = (db, sms_exists_by_pdu_for_line db l pdu)"
| "db_answer utc now beijing (ExistsByTimestamp l number content timestamp) db =
     (db, incoming_sms_exists_by_timestamp utc db l number content timestamp)"
| "db_answer utc now beijing (ExistsByContent l number content) db =
     (db, incoming_sms_exists_by_legacy_content db l number content)"
| "db_answer utc now beijing (ClaimDedup l fp transport) db =
     (case claim_sms_dedup (sms_dedup db) l fp transport beijing of
        (rows, a) \<Rightarrow> (db\<lparr>sms_dedup := rows\<rparr>, a))"
| "db_answer utc now beijing (InsertIncoming l number content timestamp pdu transport) db =
     (insert_sms_at utc now db ''incoming'' number content timestamp ''received'' (Some pdu) transport (Some l),
      Inr True)"

datatype 'r DbProg = Return 'r | Call DbQuery "string + bool \<Rightarrow> 'r DbProg"

section \<open>The store path of each leg\<close>

text \<open>What becomes of a delivery: not touched, recognised as a duplicate (the modem's copy is scheduled
  for deletion, the cellular leg counts it), given up on an error of the database, or stored, with the
  flag whether it is forwarded (and the modem's copy scheduled for deletion).\<close>

datatype StoreOutcome = Untouched | Duplicate | DbFailed | Stored bool

definition whole_message :: "string \<Rightarrow> ustring \<Rightarrow> ustring \<Rightarrow> MessageFingerprintInput" where
  "whole_message timestamp number content = \<lparr>fp_timestamp = timestamp, fp_originator = number,
     fp_text = content, fp_reference = None, fp_sequence = 1, fp_total = 1\<rparr>"

subsection \<open>The modem scan\<close>

record IncomingSms =
  in_path :: ustring
  in_number :: ustring
  in_content :: ustring
  in_timestamp :: ustring
  in_smsc :: ustring

definition sms_marker :: "(ustring \<Rightarrow> string) \<Rightarrow> IncomingSms \<Rightarrow> ustring" where
  "sms_marker md5 s = us ''mmfp:'' @ us (md5
     (if in_timestamp s = [] then in_path s @ [10] @ in_number s @ [10] @ in_content s
      else in_number s @ [10] @ in_timestamp s @ [10] @ in_content s))"

datatype SmsIngestMode = Live | Reconcile

definition sms_timestamp :: "(ustring \<Rightarrow> string option) \<Rightarrow> string \<Rightarrow> IncomingSms \<Rightarrow> string" where
  "sms_timestamp utc now s =
    (case normalize_sms_timestamp_for_display utc (in_timestamp s) of Some t \<Rightarrow> t | None \<Rightarrow> now)"

definition should_forward_after_insert :: "SmsIngestMode \<Rightarrow> bool \<Rightarrow> bool" where
  "should_forward_after_insert mode forward_reconciled \<longleftrightarrow> mode = Live \<or> forward_reconciled"

text \<open>A duplicate check of the scan: found is a duplicate, an error ends the scan of this message.\<close>

definition unless_found :: "DbQuery \<Rightarrow> StoreOutcome DbProg \<Rightarrow> StoreOutcome DbProg" where
  "unless_found q rest = Call q (\<lambda>a. case a of
     Inr True \<Rightarrow> Return Duplicate | Inr False \<Rightarrow> rest | Inl e \<Rightarrow> Return DbFailed)"

definition modem_insert :: "(ustring \<Rightarrow> string) \<Rightarrow> ustring \<Rightarrow> SmsIngestMode \<Rightarrow> bool \<Rightarrow> string
    \<Rightarrow> IncomingSms \<Rightarrow> StoreOutcome DbProg" where
  "modem_insert md5 line mode forward timestamp s =
     Call (InsertIncoming line (in_number s) (in_content s) timestamp (sms_marker md5 s) ''modem'')
       (\<lambda>a. case a of Inr _ \<Rightarrow> Return (Stored (should_forward_after_insert mode forward))
          | Inl e \<Rightarrow> Return DbFailed)"

definition modem_claim :: "(ustring \<Rightarrow> string) \<Rightarrow> ustring \<Rightarrow> SmsIngestMode \<Rightarrow> bool \<Rightarrow> bool \<Rightarrow> string
    \<Rightarrow> IncomingSms \<Rightarrow> StoreOutcome DbProg" where
  "modem_claim md5 line mode forward dedupe_enabled timestamp s =
    (let store = modem_insert md5 line mode forward timestamp s in
     if dedupe_enabled
     then Call (ClaimDedup line (message_fingerprint md5 (whole_message timestamp (in_number s) (in_content s))) ''modem'')
       (\<lambda>a. case a of Inr True \<Rightarrow> store | Inr False \<Rightarrow> Return Duplicate | Inl e \<Rightarrow> Return DbFailed)
     else store)"

text \<open>The line may be disabled before and while the message is read from the modem.\<close>

definition process_sms_path :: "(ustring \<Rightarrow> string) \<Rightarrow> (ustring \<Rightarrow> string option) \<Rightarrow> string \<Rightarrow> ustring
    \<Rightarrow> SmsIngestMode \<Rightarrow> bool \<Rightarrow> bool \<Rightarrow> bool \<times> bool \<Rightarrow> IncomingSms option \<Rightarrow> StoreOutcome DbProg" where
  "process_sms_path md5 utc now line mode forward dedupe_enabled enabled reading =
    (if \<not> fst enabled then Return Untouched
     else case reading of
       None \<Rightarrow> Return Untouched
     | Some s \<Rightarrow>
        if \<not> snd enabled then Return Untouched
        else
          (let timestamp = sms_timestamp utc now s;
               claim = modem_claim md5 line mode forward dedupe_enabled timestamp s
           in unless_found (ExistsByPdu line (sms_marker md5 s))
             (if mode = Reconcile
              then unless_found (ExistsByTimestamp line (in_number s) (in_content s) timestamp)
                (unless_found (ExistsByContent line (in_number s) (in_content s)) claim)
              else claim)))"

subsection \<open>The cellular IMS leg\<close>

record AssembledSms =
  asm_originator :: ustring
  asm_text :: ustring
  asm_timestamp :: string
  asm_reference :: "u16 option"
  asm_total :: u8
  asm_marker :: ustring

definition assemble_single :: "(ustring \<Rightarrow> string) \<Rightarrow> MtSmsDeliver \<Rightarrow> AssembledSms" where
  "assemble_single md5 d =
     \<lparr>asm_originator = originator d, asm_text = sms_text d, asm_timestamp = service_center_timestamp d,
      asm_reference = None, asm_total = 1,
      asm_marker = us ''cellular-ims-mt:single:'' @ originator d @ us '':'' @ us (service_center_timestamp d)
        @ us '':'' @ us (md5 (sms_text d))\<rparr>"



subsection \<open>The VoWiFi leg\<close>

definition vowifi_mt_delivery_group_key :: "(ustring \<Rightarrow> string) \<Rightarrow> MtSmsDeliver \<Rightarrow> string" where
  "vowifi_mt_delivery_group_key md5 d =
     md5 (originator d @ us ''|'' @
       (case segment_reference d of
          Some r \<Rightarrow> us ''segment:'' @ us (hex4 r) @ us '':'' @ us (show_nat (unat (segment_total d)))
        | None \<Rightarrow> us ''single:'' @ us (service_center_timestamp d) @ us '':'' @ us (md5 (sms_text d))))"

definition vowifi_mt_storage_key :: "(ustring \<Rightarrow> string) \<Rightarrow> ustring \<Rightarrow> ustring \<Rightarrow> ustring \<Rightarrow> ustring \<Rightarrow> string" where
  "vowifi_mt_storage_key md5 line message_id number content =
     md5 (line @ us ''|'' @ message_id @ us ''|'' @ number @ us ''|'' @ us (md5 content))"

text \<open>One group of deliveries with the same key; \<open>None\<close> when a part is missing or empty.\<close>

definition vowifi_total :: "MtSmsDeliver list \<Rightarrow> nat" where
  "vowifi_total ps = max 1 (foldr max (map (unat \<circ> segment_total) ps) 0)"

definition vowifi_text :: "MtSmsDeliver list \<Rightarrow> ustring option" where
  "vowifi_text ps =
    (let seqs = [1..<vowifi_total ps + 1] in
     if list_all (\<lambda>s. list_ex (\<lambda>d. unat (segment_sequence d) = s \<and> sms_text d \<noteq> []) ps) seqs
     then Some (concat (map (\<lambda>s. case List.find (\<lambda>d. unat (segment_sequence d) = s) ps of
         Some d \<Rightarrow> sms_text d | None \<Rightarrow> []) seqs))
     else None)"

definition vowifi_insert :: "string \<Rightarrow> ustring \<Rightarrow> ustring \<Rightarrow> ustring \<Rightarrow> string \<Rightarrow> ustring \<Rightarrow> StoreOutcome DbProg" where
  "vowifi_insert now line number content timestamp marker =
    (let trimmed = map char_of (str_trim (us timestamp)) in
     Call (InsertIncoming line number content (if trimmed = [] then now else trimmed) marker ''vowifi_ims'')
       (\<lambda>a. case a of Inr _ \<Rightarrow> Return (Stored True) | Inl e \<Rightarrow> Return DbFailed))"

text \<open>An error of the marker lookup counts as not found, one of the claim as claimed by another.\<close>

definition vowifi_store :: "(ustring \<Rightarrow> string) \<Rightarrow> string \<Rightarrow> ustring \<Rightarrow> bool \<Rightarrow> ustring \<Rightarrow> MtSmsDeliver list
    \<Rightarrow> StoreOutcome DbProg" where
  "vowifi_store md5 now line dedupe_enabled message_id ds =
    (let ps = sort_key segment_sequence ds;
         number = (case ps of [] \<Rightarrow> [] | d # _ \<Rightarrow> originator d);
         timestamp = (case ps of [] \<Rightarrow> [] | d # _ \<Rightarrow> service_center_timestamp d)
     in case vowifi_text ps of
          None \<Rightarrow> Return Untouched
        | Some content \<Rightarrow>
           (let marker = us ''vowifi-mt:'' @ us (vowifi_mt_storage_key md5 line message_id number content);
                store = vowifi_insert now line number content timestamp marker
            in Call (ExistsByPdu line marker) (\<lambda>a.
                 if a = Inr True then Return Duplicate
                 else if \<not> dedupe_enabled then store
                 else Call (ClaimDedup line (message_fingerprint md5 (whole_message timestamp number content)) ''vowifi_ims'')
                   (\<lambda>a. if a = Inr True then store else Return Duplicate))))"

text \<open>\<open>persist_vowifi_mt_deliveries\<close>: the groups in the order of their keys, stored one after the other.\<close>

fun insert_key :: "string \<Rightarrow> string list \<Rightarrow> string list" where
  "insert_key k [] = [k]"
| "insert_key k (x # xs) =
    (if k = x then x # xs else if str_less k x then k # x # xs else x # insert_key k xs)"

definition vowifi_groups :: "(ustring \<Rightarrow> string) \<Rightarrow> MtSmsDeliver list \<Rightarrow> MtSmsDeliver list list" where
  "vowifi_groups md5 ds =
     map (\<lambda>k. filter (\<lambda>d. vowifi_mt_delivery_group_key md5 d = k) ds)
       (fold insert_key (map (vowifi_mt_delivery_group_key md5) ds) [])"

definition persist_vowifi_mt_deliveries :: "(ustring \<Rightarrow> string) \<Rightarrow> string \<Rightarrow> ustring \<Rightarrow> bool \<Rightarrow> ustring
    \<Rightarrow> MtSmsDeliver list \<Rightarrow> StoreOutcome DbProg list" where
  "persist_vowifi_mt_deliveries md5 now line dedupe_enabled message_id ds =
     map (vowifi_store md5 now line dedupe_enabled message_id) (vowifi_groups md5 ds)"

section \<open>A delivery alone\<close>

text \<open>A store path run to its end with no other leg in between; \<open>fails\<close> says which calls fail.\<close>

primrec run_prog :: "(ustring \<Rightarrow> string option) \<Rightarrow> string \<Rightarrow> string \<Rightarrow> (DbQuery \<Rightarrow> bool) \<Rightarrow> 'r DbProg
    \<Rightarrow> SmsDb \<Rightarrow> SmsDb \<times> 'r" where
  "run_prog utc now beijing fails (Return r) = (\<lambda>db. (db, r))"
| "run_prog utc now beijing fails (Call q k) = (\<lambda>db.
     if fails q then run_prog utc now beijing fails (k (Inl ''sqlite'')) db
     else case db_answer utc now beijing q db of (db', a) \<Rightarrow> run_prog utc now beijing fails (k a) db')"

definition not_stored :: "(ustring \<Rightarrow> string) \<Rightarrow> (ustring \<Rightarrow> string option) \<Rightarrow> SmsDb \<Rightarrow> ustring \<Rightarrow> string
    \<Rightarrow> IncomingSms \<Rightarrow> bool" where
  "not_stored md5 utc db line timestamp s \<longleftrightarrow>
     sms_exists_by_pdu_for_line db line (sms_marker md5 s) = Inr False
   \<and> incoming_sms_exists_by_timestamp utc db line (in_number s) (in_content s) timestamp = Inr False
   \<and> incoming_sms_exists_by_legacy_content db line (in_number s) (in_content s) = Inr False"

lemma lookups_without_claims [simp]:
  "sms_exists_by_pdu_for_line (db\<lparr>sms_dedup := rows\<rparr>) line pdu = sms_exists_by_pdu_for_line db line pdu"
  "incoming_sms_exists_by_timestamp utc (db\<lparr>sms_dedup := rows\<rparr>) line n c t
     = incoming_sms_exists_by_timestamp utc db line n c t"
  "incoming_sms_exists_by_legacy_content (db\<lparr>sms_dedup := rows\<rparr>) line n c
     = incoming_sms_exists_by_legacy_content db line n c"
  by (simp_all add: sms_exists_by_pdu_for_line_def incoming_sms_exists_by_timestamp_def
      incoming_sms_exists_by_legacy_content_def)

text \<open>
  A failed insert loses a message of the modem.  The first scan of a message that is neither claimed nor
  stored claims it; when its insert then fails nothing is stored and the modem keeps its copy.  The next
  scan takes the message for a duplicate, which schedules that copy for deletion, although no table
  holds it.
\<close>

theorem failed_insert_loses_modem_message:
  assumes "required_line_id line = Inr l" and "normalize_sms_timestamp_for_display utc (in_timestamp s) = Some t"
    and "\<not> has_claim (sms_dedup db) l (message_fingerprint md5 (whole_message t (in_number s) (in_content s)))"
    and "not_stored md5 utc db line t s"
    and "fails = (\<lambda>q. case q of InsertIncoming _ _ _ _ _ _ \<Rightarrow> True | _ \<Rightarrow> False)"
  shows "\<exists>db'. run_prog utc now b fails
        (process_sms_path md5 utc now line Reconcile forward True (True, True) (Some s)) db = (db', DbFailed)
    \<and> sms_messages db' = sms_messages db
    \<and> run_prog utc now' b' (\<lambda>_. False)
        (process_sms_path md5 utc now' line Reconcile forward True (True, True) (Some s)) db' = (db', Duplicate)"
proof -
  let ?fp = "message_fingerprint md5 (whole_message t (in_number s) (in_content s))"
  let ?db' = "db\<lparr>sms_dedup := sms_dedup db @ [\<lparr>row_line = l, row_fingerprint = ?fp, row_transport = ''modem'',
     row_created_at = b\<rparr>]\<rparr>"
  have time: "sms_timestamp utc x s = t" for x by (simp add: sms_timestamp_def assms(2))
  have claim: "claim_sms_dedup (sms_dedup db) line ?fp ''modem'' b = (sms_dedup ?db', Inr True)"
    "claim_sms_dedup (sms_dedup ?db') line ?fp ''modem'' b' = (sms_dedup ?db', Inr False)"
    using assms(3) by (simp_all add: claim_sms_dedup_def assms(1) has_claim_def)
  have "run_prog utc now b fails
        (process_sms_path md5 utc now line Reconcile forward True (True, True) (Some s)) db = (?db', DbFailed)"
    using assms(4) claim(1)
    by (simp add: process_sms_path_def unless_found_def modem_claim_def modem_insert_def time not_stored_def assms(5))
  moreover have "run_prog utc now' b' (\<lambda>_. False)
        (process_sms_path md5 utc now' line Reconcile forward True (True, True) (Some s)) ?db' = (?db', Duplicate)"
    using assms(4) claim(2)
    by (simp add: process_sms_path_def unless_found_def modem_claim_def time not_stored_def)
  ultimately show ?thesis by (intro exI [of _ ?db']) simp
qed

section \<open>The legs side by side\<close>

text \<open>A delivery under way: its line, what its fingerprint is made of, the rest of its store path, and
  whether it has claimed the fingerprint and not yet tried to insert.\<close>

record StoreTask =
  task_line :: ustring
  task_input :: MessageFingerprintInput
  task_holds :: bool
  task_prog :: "StoreOutcome DbProg"




definition task_after :: "DbQuery \<Rightarrow> (string + bool \<Rightarrow> StoreOutcome DbProg) \<Rightarrow> string + bool \<Rightarrow> StoreTask \<Rightarrow> StoreTask" where
  "task_after q k a t = t\<lparr>task_prog := k a,
     task_holds := (case q of ClaimDedup _ _ _ \<Rightarrow> a = Inr True | InsertIncoming _ _ _ _ _ _ \<Rightarrow> False
       | _ \<Rightarrow> task_holds t)\<rparr>"





section \<open>Claims pay for inserts\<close>






text \<open>A program that inserts only for its own line and only while it holds the claim of its fingerprint,
  which a try to insert uses up.\<close>

primrec spends :: "ustring \<Rightarrow> ustring \<Rightarrow> 'r DbProg \<Rightarrow> bool \<Rightarrow> bool" where
  "spends line fp (Return r) = (\<lambda>holds. True)"
| "spends line fp (Call q k) = (\<lambda>holds. case q of
     ClaimDedup l f _ \<Rightarrow> l = line \<and> f = fp \<and> (\<forall>a. spends line fp (k a) (a = Inr True))
   | InsertIncoming l _ _ _ _ _ \<Rightarrow> l = line \<and> holds \<and> (\<forall>a. spends line fp (k a) False)
   | _ \<Rightarrow> \<forall>a. spends line fp (k a) holds)"


lemma spends_answer: "(\<forall>a. spends line fp (case a of Inr True \<Rightarrow> p | Inr False \<Rightarrow> Return r | Inl e \<Rightarrow> Return r') (c a))
    \<longleftrightarrow> spends line fp p (c (Inr True))"
  by (auto split: sum.splits bool.splits)









lemma task_after_fields [simp]:
  "task_line (task_after q k a t) = task_line t" "task_input (task_after q k a t) = task_input t"
  by (simp_all add: task_after_def)



lemma cleanup_no_claim:
  assumes "cleanup_sms_dedup rows line cutoff = (rows', a)" and "has_claim rows' l fp"
  shows "has_claim rows l fp"
  using assms by (auto simp: cleanup_sms_dedup_def has_claim_def list_ex_iff Let_def split: sum.splits)










section \<open>Properties\<close>












end
