(* ===== verification/Milenage.thy ===== *)
theory Milenage
  imports Rust_Prelude
begin

text \<open>
  The card-side arithmetic of the software USIM: Milenage (\<open>virtual_sim/milenage.rs\<close>) and the 48-bit
  sequence number (\<open>virtual_sim/sqn.rs\<close>).  AES-128 of the \<open>aes\<close> crate is the parameter \<open>E\<close>, a
  function of key and block; what the code relies on is that it maps a block to a block.  Fixed-size
  arrays are octet lists, and an indexed loop over an array is a map or a fold over its indices.
\<close>

section \<open>Milenage\<close>

type_synonym aes = "bytes \<Rightarrow> bytes \<Rightarrow> bytes"

definition block_cipher :: "aes \<Rightarrow> bool" where
  "block_cipher E \<longleftrightarrow> (\<forall>k b. length b = 16 \<longrightarrow> length (E k b) = 16)"

record Milenage =
  mil_k :: bytes
  mil_opc :: bytes

definition xor16 :: "bytes \<Rightarrow> bytes \<Rightarrow> bytes" where
  "xor16 a b = map (\<lambda>i. (a ! i) XOR (b ! i)) [0..<16]"

definition derive_opc :: "aes \<Rightarrow> bytes \<Rightarrow> bytes \<Rightarrow> bytes" where
  "derive_opc E k op = xor16 (E k op) op"

definition milenage_from_op :: "aes \<Rightarrow> bytes \<Rightarrow> bytes \<Rightarrow> Milenage" where
  "milenage_from_op E k op = \<lparr>mil_k = k, mil_opc = derive_opc E k op\<rparr>"

definition mil_temp :: "aes \<Rightarrow> Milenage \<Rightarrow> bytes \<Rightarrow> bytes" where
  "mil_temp E m rand = E (mil_k m) (xor16 rand (mil_opc m))"

text \<open>The loops \<open>for i in 0..16 { out[(i + n) % 16] = x[i]; }\<close>.\<close>

definition rotate16 :: "nat \<Rightarrow> bytes \<Rightarrow> bytes" where
  "rotate16 n x = fold (\<lambda>i out. out[(i + n) mod 16 := x ! i]) [0..<16] (replicate 16 0)"

definition xor_last :: "u8 \<Rightarrow> bytes \<Rightarrow> bytes" where
  "xor_last c x = x[15 := (x ! 15) XOR c]"

definition f1 :: "aes \<Rightarrow> Milenage \<Rightarrow> bytes \<Rightarrow> bytes \<Rightarrow> bytes \<Rightarrow> bytes \<times> bytes" where
  "f1 E m sqn amf rand =
    (let in1 = sqn @ amf @ sqn @ amf;
         block = rotate16 8 (xor16 in1 (mil_opc m));
         out = xor16 (E (mil_k m) (xor16 block (mil_temp E m rand))) (mil_opc m)
     in (take 8 out, drop 8 out))"

definition f2345 :: "aes \<Rightarrow> Milenage \<Rightarrow> bytes \<Rightarrow> bytes \<times> bytes \<times> bytes \<times> bytes" where
  "f2345 E m rand =
    (let base = xor16 (mil_temp E m rand) (mil_opc m);
         out2 = xor16 (E (mil_k m) (xor_last 1 base)) (mil_opc m);
         ck = xor16 (E (mil_k m) (xor_last 2 (rotate16 12 base))) (mil_opc m);
         ik = xor16 (E (mil_k m) (xor_last 4 (rotate16 8 base))) (mil_opc m)
     in (drop 8 out2, ck, ik, take 6 out2))"

definition f5_star :: "aes \<Rightarrow> Milenage \<Rightarrow> bytes \<Rightarrow> bytes" where
  "f5_star E m rand =
    (let base = xor16 (mil_temp E m rand) (mil_opc m)
     in take 6 (xor16 (E (mil_k m) (xor_last 8 (rotate16 4 base))) (mil_opc m)))"

definition verify_autn :: "aes \<Rightarrow> Milenage \<Rightarrow> bytes \<Rightarrow> bytes \<Rightarrow> string + bytes \<times> bytes" where
  "verify_autn E m rand autn =
    (let amf = slice_of autn 6 8;
         ak = (case f2345 E m rand of (res, ck, ik, ak) \<Rightarrow> ak);
         sqn = map (\<lambda>i. (autn ! i) XOR (ak ! i)) [0..<6];
         mac_a = fst (f1 E m sqn amf rand);
         mismatch = fold (\<lambda>(a, b) acc. acc OR (a XOR b)) (zip mac_a (slice_of autn 8 16)) 0
     in if mismatch \<noteq> 0 then Inl ''ims_virtual_sim_autn_mac_invalid'' else Inr (sqn, amf))"

definition build_auts :: "aes \<Rightarrow> Milenage \<Rightarrow> bytes \<Rightarrow> bytes \<Rightarrow> bytes \<Rightarrow> bytes" where
  "build_auts E m rand sqn_ms amf =
    (let mac_s = snd (f1 E m sqn_ms amf rand); ak_star = f5_star E m rand
     in map (\<lambda>i. (sqn_ms ! i) XOR (ak_star ! i)) [0..<6] @ mac_s)"

section \<open>Sequence numbers\<close>

type_synonym Sqn = u64

definition SQN_MASK48 :: u64 where "SQN_MASK48 = 0x0000ffffffffffff"

definition sqn_from_value :: "u64 \<Rightarrow> Sqn" where
  "sqn_from_value v = v AND SQN_MASK48"

definition sqn_from_bytes :: "bytes \<Rightarrow> Sqn" where
  "sqn_from_bytes bs = fold (\<lambda>b v. push_bit 8 v OR ucast b) bs 0"

definition sqn_to_bytes :: "Sqn \<Rightarrow> bytes" where
  "sqn_to_bytes s = map (\<lambda>i. ucast (drop_bit (8 * (5 - i)) s AND 0xff)) [0..<6]"

definition sqn_accepts :: "Sqn \<Rightarrow> Sqn \<Rightarrow> bool" where
  "sqn_accepts s network \<longleftrightarrow> network > s"

definition sqn_advance :: "Sqn \<Rightarrow> Sqn \<Rightarrow> Sqn" where
  "sqn_advance s network = (if network > s then network else s)"

definition sqn_next :: "Sqn \<Rightarrow> Sqn" where
  "sqn_next s = (s + 1) AND SQN_MASK48"

section \<open>Facts\<close>

lemma length_xor16 [simp]: "length (xor16 a b) = 16"
  by (simp add: xor16_def)

lemma length_rotate16 [simp]: "length (rotate16 n x) = 16"
proof -
  have "length (fold (\<lambda>i out. out[(i + n) mod 16 := x ! i]) is out) = length out" for "is" and out :: bytes
    by (induction "is" arbitrary: out) auto
  then show ?thesis by (simp add: rotate16_def)
qed

lemma length_xor_last [simp]: "length (xor_last c x) = length x"
  by (simp add: xor_last_def)

lemma length_f1 [simp]: "length (fst (f1 E m sqn amf rand)) = 8" "length (snd (f1 E m sqn amf rand)) = 8"
  by (simp_all add: f1_def Let_def)

lemma length_ak [simp]: "length (snd (snd (snd (f2345 E m rand)))) = 6"
  by (simp add: f2345_def Let_def)

lemma length_f5_star [simp]: "length (f5_star E m rand) = 6"
  by (simp add: f5_star_def Let_def)

text \<open>The constant-time comparison is equality.\<close>

lemma mismatch_zero:
  assumes "length xs = length ys"
  shows "fold (\<lambda>(a, b) acc. acc OR (a XOR b)) (zip xs ys) c = (0 :: u8) \<longleftrightarrow> c = 0 \<and> xs = ys"
  using assms
proof (induction xs ys arbitrary: c rule: list_induct2)
  case (Cons x xs y ys)
  have "c OR (x XOR y) = 0 \<longleftrightarrow> c = 0 \<and> x = y"
    by (auto simp: bit_eq_iff bit_or_iff bit_xor_iff)
  with Cons.IH show ?case by auto
qed simp


lemma sqn_from_bytes_snoc: "sqn_from_bytes (bs @ [b]) = push_bit 8 (sqn_from_bytes bs) OR ucast b"
  by (simp add: sqn_from_bytes_def)

lemma len64: "LENGTH(64) = 64"
  by simp

lemma unat_sqn_from_bytes: "length bs \<le> 8 \<Longrightarrow> unat (sqn_from_bytes bs) = be_to_nat bs"
proof (induction bs rule: rev_induct)
  case Nil
  show ?case by (simp add: sqn_from_bytes_def)
next
  case (snoc b bs)
  let ?v = "sqn_from_bytes bs"
  have v: "unat ?v = be_to_nat bs" using snoc by simp
  have "be_to_nat bs < 256 ^ 7"
    using be_to_nat_bound [of bs] power_increasing [of "length bs" 7 "256 :: nat"] snoc.prems by simp
  moreover have "(2 :: nat) ^ LENGTH(8) = 256" by simp
  then have b: "unat b < 256" using unsigned_less [of b, where 'a = nat] by linarith
  moreover have "(256 :: nat) ^ 7 * 256 = 2 ^ 64" by simp
  ultimately have small: "unat ?v * 256 + unat b < 2 ^ 64" using v by linarith
  have "push_bit 8 ?v AND ucast b = 0"
    by (rule bit_word_eqI) (auto simp: bit_and_iff bit_push_bit_iff bit_ucast_iff dest: bit_imp_le_length)
  then have "push_bit 8 ?v OR ucast b = push_bit 8 ?v + ucast b" by (rule disjunctive_add_eq_or [symmetric])
  also have "\<dots> = word_of_nat (unat ?v * 256 + unat b)"
    by (simp add: push_bit_eq_mult)
  finally have sum: "push_bit 8 ?v OR ucast b = word_of_nat (unat ?v * 256 + unat b)" .
  have "unat (push_bit 8 ?v OR ucast b) = unat ?v * 256 + unat b"
    unfolding sum unat_of_nat by (rule mod_less) (use small in \<open>simp only: len64\<close>)
  then show ?case by (simp add: sqn_from_bytes_snoc v)
qed

lemma sqn_to_bytes_be: "sqn_to_bytes s = nat_to_be 6 (unat s)"
proof -
  have "(ucast (drop_bit n s AND 0xff) :: u8) = word_of_nat (unat s div 2 ^ n mod 256)" for n
  proof -
    have low: "w AND 0xff = take_bit 8 w" for w :: u64
      by (simp add: take_bit_eq_mask mask_eq_exp_minus_1)
    have "unat (drop_bit n s) = unat s div 2 ^ n" unfolding unat_drop_bit_eq by (rule drop_bit_eq_div)
    then have "unat (drop_bit n s AND 0xff) = unat s div 2 ^ n mod 256"
      by (simp only: low unsigned_take_bit_eq) (simp add: take_bit_eq_mod)
    then show ?thesis by (metis of_nat_unat)
  qed
  moreover have "[0..<6] = [0, 1, 2, 3, 4, 5 :: nat]" by (simp add: upt_rec)
  ultimately show ?thesis
    by (simp add: sqn_to_bytes_def nat_to_be_numeral div_mult2_eq [symmetric])
qed

lemma sqn_bytes_round_trip:
  assumes "length bs = 6"
  shows "sqn_to_bytes (sqn_from_bytes bs) = bs" and "unat (sqn_from_bytes bs) < 2 ^ 48"
proof -
  have n: "unat (sqn_from_bytes bs) = be_to_nat bs" using assms by (simp add: unat_sqn_from_bytes)
  show "sqn_to_bytes (sqn_from_bytes bs) = bs"
    using nat_to_be_to_nat [of bs] assms by (simp add: sqn_to_bytes_be n)
  show "unat (sqn_from_bytes bs) < 2 ^ 48" using be_to_nat_bound [of bs] assms by (simp add: n)
qed

lemma sqn_value_round_trip:
  assumes "unat s < 2 ^ 48"
  shows "sqn_from_bytes (sqn_to_bytes s) = s"
proof -
  have "unat (sqn_from_bytes (sqn_to_bytes s)) = unat s"
    using assms by (simp add: unat_sqn_from_bytes sqn_to_bytes_be be_to_nat_to_be)
  then show ?thesis by (rule word_unat_eq_iff [THEN iffD2])
qed

lemma length_sqn_to_bytes [simp]: "length (sqn_to_bytes s) = 6"
  by (simp add: sqn_to_bytes_def)

end
