(* ===== verification/Five_Codes.thy ===== *)
theory Five_Codes
  imports Milenage Sms_Address
begin

text \<open>
  The provisioning data of a software subscription and its stored record
  (\<open>virtual_sim/store.rs\<close>).  Texts are lists of Unicode scalar values; lengths and digit checks of
  the source are on their UTF-8 octets.
\<close>

section \<open>Data\<close>

datatype OpMaterial = Opc bytes | Op bytes

record FiveCodes =
  iccid :: ustring
  imsi :: ustring
  ki :: bytes
  op_material :: OpMaterial
  msisdn :: "ustring option"

definition STORE_FORMAT :: u8 where "STORE_FORMAT = 1"

section \<open>Operations\<close>

definition utf8_char :: "nat \<Rightarrow> bytes" where
  "utf8_char c =
    (if c < 0x80 then [word_of_nat c]
     else if c < 0x800 then [word_of_nat (0xC0 + c div 64), word_of_nat (0x80 + c mod 64)]
     else if c < 0x10000
     then [word_of_nat (0xE0 + c div 4096), word_of_nat (0x80 + c div 64 mod 64), word_of_nat (0x80 + c mod 64)]
     else [word_of_nat (0xF0 + c div 262144), word_of_nat (0x80 + c div 4096 mod 64),
           word_of_nat (0x80 + c div 64 mod 64), word_of_nat (0x80 + c mod 64)])"

definition utf8 :: "ustring \<Rightarrow> bytes" where
  "utf8 s = concat (map utf8_char s)"

definition is_ascii_digit :: "u8 \<Rightarrow> bool" where
  "is_ascii_digit b \<longleftrightarrow> 48 \<le> b \<and> b \<le> 57"

definition is_ascii_graphic :: "u8 \<Rightarrow> bool" where
  "is_ascii_graphic b \<longleftrightarrow> 33 \<le> b \<and> b \<le> 126"

definition digits_ok :: "ustring \<Rightarrow> nat \<Rightarrow> nat \<Rightarrow> bool" where
  "digits_ok v lo hi \<longleftrightarrow> lo \<le> length (utf8 v) \<and> length (utf8 v) \<le> hi \<and> list_all is_ascii_digit (utf8 v)"

definition strip_plus :: "ustring \<Rightarrow> ustring" where
  "strip_plus v = (case v of c # rest \<Rightarrow> if c = 43 then rest else v | [] \<Rightarrow> v)"

definition clean_msisdn :: "ustring option \<Rightarrow> ustring option" where
  "clean_msisdn m =
    (case m of
       None \<Rightarrow> None
     | Some v \<Rightarrow> let v = str_trim v in if v = [] then None else Some (strip_plus v))"

definition five_codes_new :: "ustring \<Rightarrow> ustring \<Rightarrow> bytes \<Rightarrow> OpMaterial \<Rightarrow> ustring option \<Rightarrow> string + FiveCodes" where
  "five_codes_new ic im key op m =
    (let ic = filter (\<lambda>c. c \<noteq> 32) (str_trim ic); im = str_trim im; m = clean_msisdn m in
     if \<not> digits_ok ic 18 22 then Inl ''ims_virtual_sim_iccid_invalid''
     else if \<not> digits_ok im 5 16 then Inl ''ims_virtual_sim_imsi_invalid''
     else if (case m of None \<Rightarrow> False | Some n \<Rightarrow> \<not> digits_ok n 5 15)
     then Inl ''ims_virtual_sim_msisdn_invalid''
     else Inr \<lparr>iccid = ic, imsi = im, ki = key, op_material = op, msisdn = m\<rparr>)"

definition is_opc :: "FiveCodes \<Rightarrow> bool" where
  "is_opc c = (case op_material c of Opc _ \<Rightarrow> True | Op _ \<Rightarrow> False)"

definition raw_op :: "FiveCodes \<Rightarrow> bytes" where
  "raw_op c = (case op_material c of Opc key \<Rightarrow> key | Op key \<Rightarrow> key)"

definition codes_opc :: "aes \<Rightarrow> FiveCodes \<Rightarrow> bytes" where
  "codes_opc E c = (case op_material c of Opc opc \<Rightarrow> opc | Op op \<Rightarrow> derive_opc E (ki c) op)"

definition codes_milenage :: "aes \<Rightarrow> FiveCodes \<Rightarrow> Milenage" where
  "codes_milenage E c = \<lparr>mil_k = ki c, mil_opc = codes_opc E c\<rparr>"

definition from_op_and_opc :: "aes \<Rightarrow> ustring \<Rightarrow> ustring \<Rightarrow> bytes \<Rightarrow> bytes option \<Rightarrow> bytes option
    \<Rightarrow> ustring option \<Rightarrow> string + FiveCodes" where
  "from_op_and_opc E ic im key op opc m =
    (case (op, opc) of
       (Some op, Some opc) \<Rightarrow>
        if derive_opc E key op \<noteq> opc then Inl ''ims_virtual_sim_op_opc_mismatch''
        else five_codes_new ic im key (Opc opc) m
     | (Some op, None) \<Rightarrow> five_codes_new ic im key (Op op) m
     | (None, Some opc) \<Rightarrow> five_codes_new ic im key (Opc opc) m
     | (None, None) \<Rightarrow> Inl ''ims_virtual_sim_op_missing'')"

definition encode_text :: "ustring option \<Rightarrow> bytes" where
  "encode_text t = (case t of Some v \<Rightarrow> word_of_nat (length (utf8 v)) # utf8 v | None \<Rightarrow> [0])"

definition codes_encode :: "FiveCodes \<Rightarrow> bytes" where
  "codes_encode c = [STORE_FORMAT] @ encode_text (Some (iccid c)) @ encode_text (Some (imsi c))
     @ encode_text (msisdn c) @ ki c
     @ (case op_material c of Opc key \<Rightarrow> 0 # key | Op key \<Rightarrow> 1 # key)"

text \<open>The closure \<open>take\<close>: the next octets and the rest.\<close>

definition take_record :: "nat \<Rightarrow> bytes \<Rightarrow> string + bytes \<times> bytes" where
  "take_record n bs = (if n \<le> length bs then Inr (take n bs, drop n bs)
     else Inl ''ims_virtual_sim_record_truncated'')"

definition decode_text :: "bytes \<Rightarrow> string + ustring option \<times> bytes" where
  "decode_text bs =
     rbind (take_record 1 bs) (\<lambda>(n, bs).
     if hd n = 0 then Inr (None, bs)
     else rbind (take_record (unat (hd n)) bs) (\<lambda>(v, bs).
       if \<not> list_all is_ascii_graphic v then Inl ''ims_virtual_sim_record_invalid''
       else Inr (Some (map unat v), bs)))"

definition or_default :: "ustring option \<Rightarrow> ustring" where
  "or_default t = (case t of Some v \<Rightarrow> v | None \<Rightarrow> [])"

definition codes_decode :: "bytes \<Rightarrow> string + FiveCodes" where
  "codes_decode bs =
     rbind (take_record 1 bs) (\<lambda>(v, bs).
     if hd v \<noteq> STORE_FORMAT then Inl ''ims_virtual_sim_record_version_unsupported''
     else rbind (decode_text bs) (\<lambda>(ic, bs).
     rbind (decode_text bs) (\<lambda>(im, bs).
     rbind (decode_text bs) (\<lambda>(m, bs).
     rbind (take_record 16 bs) (\<lambda>(key, bs).
     rbind (take_record 1 bs) (\<lambda>(k, bs).
     rbind (take_record 16 bs) (\<lambda>(op, bs).
       if bs \<noteq> [] then Inl ''ims_virtual_sim_record_trailing''
       else rbind (if hd k = 0 then Inr (Opc op) else if hd k = 1 then Inr (Op op)
                   else Inl ''ims_virtual_sim_record_invalid'') (\<lambda>material.
         five_codes_new (or_default ic) (or_default im) key material m))))))))"

section \<open>Digits\<close>

lemma utf8_digit:
  assumes "list_all is_ascii_digit (utf8_char c)"
  shows "48 \<le> c \<and> c \<le> 57 \<and> utf8_char c = [word_of_nat c]"
proof (cases "c < 0x80")
  case True
  then have "unat (word_of_nat c :: u8) = c" by (simp add: unat_of_nat)
  with assms True show ?thesis by (simp add: utf8_char_def is_ascii_digit_def word_le_nat_alt)
next
  case False
  have big: "\<not> is_ascii_digit (word_of_nat (0x80 + n mod 64))" for n
  proof -
    have "unat (word_of_nat (0x80 + n mod 64) :: u8) = 0x80 + n mod 64"
      unfolding unat_of_nat by (rule mod_less) (simp add: trans_less_add1 [of _ 192] order.strict_trans2 [of _ "128 + 64"])
    then show ?thesis by (simp add: is_ascii_digit_def word_le_nat_alt)
  qed
  then have "\<not> list_all is_ascii_digit (utf8_char c)" using False by (simp add: utf8_char_def big)
  with assms show ?thesis by simp
qed

lemma utf8_digits:
  assumes "list_all is_ascii_digit (utf8 v)"
  shows "utf8 v = map word_of_nat v" and "list_all (\<lambda>c. 48 \<le> c \<and> c \<le> 57) v"
  using assms by (induction v) (auto simp: utf8_def dest!: utf8_digit)


lemma digits_okD:
  assumes "digits_ok v lo hi"
  shows "utf8 v = map word_of_nat v" "list_all (\<lambda>c. 48 \<le> c \<and> c \<le> 57) v" "lo \<le> length v" "length v \<le> hi"
  using assms utf8_digits [of v] by (auto simp: digits_ok_def)

lemma digits_trim:
  assumes "list_all (\<lambda>c. 48 \<le> c \<and> c \<le> 57) v"
  shows "str_trim v = v" "filter (\<lambda>c. c \<noteq> 32) v = v" "strip_plus v = v"
proof -
  have ws: "\<not> is_whitespace c" if "48 \<le> c" "c \<le> 57" for c using that by (simp add: is_whitespace_def)
  have keep: "dropWhile is_whitespace xs = xs" if "list_all (\<lambda>c. 48 \<le> c \<and> c \<le> 57) xs" for xs
    using that ws by (cases xs) auto
  show "str_trim v = v" using assms by (simp add: str_trim_def keep)
  show "filter (\<lambda>c. c \<noteq> 32) v = v" using assms by (intro filter_True) (auto simp: list_all_iff)
  show "strip_plus v = v" using assms by (auto simp: strip_plus_def split: list.splits)
qed

lemma graphic_digits:
  assumes "list_all (\<lambda>c. 48 \<le> c \<and> c \<le> 57) v"
  shows "list_all is_ascii_graphic (map word_of_nat v)" "map unat (map word_of_nat v :: bytes) = v"
proof -
  have u: "unat (word_of_nat c :: u8) = c" if "c \<le> 57" for c using that by (simp add: unat_of_nat)
  with assms show "list_all is_ascii_graphic (map word_of_nat v)"
    by (auto simp: list_all_iff is_ascii_graphic_def word_le_nat_alt)
  show "map unat (map word_of_nat v :: bytes) = v"
    using assms u by (induction v) auto
qed

lemma take_record_append [simp]: "n = length a \<Longrightarrow> take_record n (a @ bs) = Inr (a, bs)"
  by (simp add: take_record_def)

lemma take_record_all [simp]: "n = length a \<Longrightarrow> take_record n a = Inr (a, [])"
  by (simp add: take_record_def)

lemma take_record_Cons [simp]: "take_record 1 (x # bs) = Inr ([x], bs)" "take_record (Suc 0) (x # bs) = Inr ([x], bs)"
  by (simp_all add: take_record_def)

lemma decode_encode_text:
  assumes "digits_ok v lo hi" and "0 < lo" and "hi < 256"
  shows "decode_text (encode_text (Some v) @ rest) = Inr (Some v, rest)"
proof -
  note d = digits_okD [OF assms(1)]
  let ?n = "word_of_nat (length v) :: u8"
  have "unat ?n = length v" unfolding unat_of_nat by (rule mod_less) (use d(4) assms(3) in simp)
  moreover from this have "?n \<noteq> 0" using d(3) assms(2) by auto
  ultimately show ?thesis
    using graphic_digits [OF d(2)] d(1) by (simp add: decode_text_def encode_text_def result_simps)
qed

lemma decode_encode_none: "decode_text (encode_text None @ rest) = Inr (None, rest)"
  by (simp add: decode_text_def encode_text_def result_simps)

lemma decode_encode_codes:
  assumes "five_codes_new ic im key op m = Inr c" and "length key = 16"
    and "length (raw_op c) = 16"
  shows "codes_decode (codes_encode c) = Inr c"
proof -
  have c: "digits_ok (iccid c) 18 22" "digits_ok (imsi c) 5 16" "ki c = key"
    "\<And>n. msisdn c = Some n \<Longrightarrow> digits_ok n 5 15"
    using assms(1) by (auto simp: five_codes_new_def Let_def split: if_splits option.splits)
  have texts: "decode_text (encode_text (Some (iccid c)) @ r) = Inr (Some (iccid c), r)"
    "decode_text (encode_text (Some (imsi c)) @ r) = Inr (Some (imsi c), r)"
    "decode_text (encode_text (msisdn c) @ r) = Inr (msisdn c, r)" for r
    using decode_encode_text [OF c(1)] decode_encode_text [OF c(2)] decode_encode_text [OF c(4)]
      decode_encode_none by (auto, cases "msisdn c") auto
  note i = digits_trim [OF digits_okD(2) [OF c(1)]] digits_trim [OF digits_okD(2) [OF c(2)]]
  have m: "clean_msisdn (msisdn c) = msisdn c"
  proof (cases "msisdn c")
    case (Some n)
    note n = digits_okD [OF c(4) [OF Some]]
    show ?thesis using digits_trim [OF n(2)] n(3) Some by (auto simp: clean_msisdn_def)
  qed (simp add: clean_msisdn_def)
  have new: "five_codes_new (iccid c) (imsi c) (ki c) (op_material c) (msisdn c) = Inr c"
    using c i m by (simp add: five_codes_new_def Let_def split: option.splits)
  show ?thesis
    using new assms(2,3) c(3) texts
    by (cases "op_material c")
       (simp_all add: codes_decode_def codes_encode_def or_default_def raw_op_def result_simps)
qed

section \<open>Property\<close>

text \<open>
  Stored subscriptions survive.  Whatever subscription the constructor accepts, with keys of
  their fixed size, decoding its stored record gives back exactly that subscription.
\<close>

theorem five_codes_round_trip:
  assumes "five_codes_new ic im key op m = Inr c" and "length key = 16"
    and "length (raw_op c) = 16"
  shows "codes_decode (codes_encode c) = Inr c"
  by (rule decode_encode_codes [OF assms])

theorem five_codes_round_trip_witness:
  "\<exists>c. five_codes_new (us '' 8944000000000000001 '') (us ''001010123456789'') (replicate 16 7)
        (Op (replicate 16 9)) (Some (us ''+447700900000'')) = Inr c
     \<and> codes_decode (codes_encode c) = Inr c"
proof -
  let ?c = "\<lparr>iccid = us ''8944000000000000001'', imsi = us ''001010123456789'', ki = replicate 16 7,
      op_material = Op (replicate 16 9), msisdn = Some (us ''447700900000'')\<rparr> :: FiveCodes"
  have new: "five_codes_new (us '' 8944000000000000001 '') (us ''001010123456789'') (replicate 16 7)
        (Op (replicate 16 9)) (Some (us ''+447700900000'')) = Inr ?c"
    by (simp add: five_codes_new_def str_trim_def us_def is_whitespace_def digits_ok_def utf8_def
        utf8_char_def is_ascii_digit_def clean_msisdn_def strip_plus_def Let_def)
  from five_codes_round_trip [OF new] new show ?thesis by (simp add: raw_op_def)
qed

end
