(* ===== verification/Virtual_Sim.thy ===== *)
theory Virtual_Sim
  imports Five_Codes Anti_Replay "HOL-Library.Char_ord" "HOL-Library.List_Lexorder"
begin

text \<open>
  The software USIM (\<open>virtual_sim/mod.rs\<close>): card-side AKA with its sequence-number state, and the
  registry that binds one subscription to a line.  The network's side of AKA (TS 33.102: AUTN is the
  concealed sequence number, the AMF and MAC-A) is the reference the card is judged against.
\<close>

section \<open>The card\<close>

record AkaOutput =
  aka_res :: bytes
  aka_ck :: bytes
  aka_ik :: bytes
  aka_auts :: "bytes option"

record VirtualSim =
  profile_id :: string
  codes :: FiveCodes
  sim_sqn :: Sqn

definition virtual_sim_new :: "string \<Rightarrow> FiveCodes \<Rightarrow> VirtualSim" where
  "virtual_sim_new pid c = \<lparr>profile_id = pid, codes = c, sim_sqn = 0\<rparr>"

definition resync :: "aes \<Rightarrow> VirtualSim \<Rightarrow> bytes \<Rightarrow> bytes \<Rightarrow> AkaOutput" where
  "resync E v rand autn =
     \<lparr>aka_res = [], aka_ck = [], aka_ik = [],
      aka_auts = Some (build_auts E (codes_milenage E (codes v)) rand (sqn_to_bytes (sqn_next (sim_sqn v)))
        (slice_of autn 6 8))\<rparr>"

definition authenticate :: "aes \<Rightarrow> VirtualSim \<Rightarrow> bytes \<Rightarrow> bytes \<Rightarrow> VirtualSim \<times> (string + AkaOutput)" where
  "authenticate E v rand autn =
    (if length rand \<noteq> 16 then (v, Inl ''ims_virtual_sim_rand_invalid'')
     else if length autn \<noteq> 16 then (v, Inl ''ims_virtual_sim_autn_invalid'')
     else
       (let m = codes_milenage E (codes v) in
        case verify_autn E m rand autn of
          Inl e \<Rightarrow> (v, Inr (resync E v rand autn))
        | Inr (network_sqn, amf) \<Rightarrow>
           (let network = sqn_from_bytes network_sqn in
            if \<not> sqn_accepts (sim_sqn v) network then (v, Inr (resync E v rand autn))
            else (v\<lparr>sim_sqn := sqn_advance (sim_sqn v) network\<rparr>,
                  case f2345 E m rand of (res, ck, ik, ak) \<Rightarrow>
                    Inr \<lparr>aka_res = res, aka_ck = ck, aka_ik = ik, aka_auts = None\<rparr>))))"


section \<open>The registry\<close>

text \<open>The process-wide map from line to subscription.  A poisoned lock is not modelled.\<close>

type_synonym sim_registry = "string \<rightharpoonup> VirtualSim"

definition install_for_line :: "sim_registry \<Rightarrow> string \<Rightarrow> VirtualSim \<Rightarrow> sim_registry \<times> (string + unit)" where
  "install_for_line r line v =
    (if line = [] \<or> profile_id v = [] then (r, Inl ''ims_virtual_sim_profile_invalid'')
     else if r line \<noteq> None then (r, Inl ''ims_virtual_sim_profile_duplicate'')
     else (r(line \<mapsto> v), Inr ()))"

definition is_virtual_line :: "sim_registry \<Rightarrow> string \<Rightarrow> bool" where
  "is_virtual_line r line \<longleftrightarrow> r line \<noteq> None"

definition remove_for_line :: "sim_registry \<Rightarrow> string \<Rightarrow> sim_registry \<times> bool" where
  "remove_for_line r line = (r(line := None), r line \<noteq> None)"

section \<open>The stored subscriptions\<close>

text \<open>The table of \<open>virtual_sim/db.rs\<close>: rows of line, profile and record, unique in the line and in its
  order (the two time columns are left out, and so is a failing SQLite connection).\<close>

type_synonym profile_table = "(string \<times> string \<times> bytes) list"

definition list_profiles :: "profile_table \<Rightarrow> (string \<times> string) list" where
  "list_profiles t = map (\<lambda>(line, pid, blob). (line, pid)) t"

definition profile_record :: "profile_table \<Rightarrow> string \<Rightarrow> (string \<times> bytes) option" where
  "profile_record t line = map_option snd (find (\<lambda>r. fst r = line) t)"

definition store_profile :: "profile_table \<Rightarrow> string \<Rightarrow> string \<Rightarrow> FiveCodes \<Rightarrow> profile_table" where
  "store_profile t line pid c =
     insort_key fst (line, pid, codes_encode c) (filter (\<lambda>r. fst r \<noteq> line) t)"

definition open_profile :: "profile_table \<Rightarrow> string \<Rightarrow> string + FiveCodes option" where
  "open_profile t line =
    (case profile_record t line of
       None \<Rightarrow> Inr None
     | Some (pid, blob) \<Rightarrow> (case codes_decode blob of Inl e \<Rightarrow> Inl e | Inr c \<Rightarrow> Inr (Some c)))"

definition delete_profile :: "profile_table \<Rightarrow> string \<Rightarrow> profile_table \<times> bool" where
  "delete_profile t line = (filter (\<lambda>r. fst r \<noteq> line) t, profile_record t line \<noteq> None)"

fun install_loop :: "profile_table \<Rightarrow> sim_registry \<Rightarrow> (string \<times> string) list \<Rightarrow> nat \<Rightarrow> nat
    \<Rightarrow> sim_registry \<times> (string + nat \<times> nat)" where
  "install_loop t r [] installed failed = (r, Inr (installed, failed))"
| "install_loop t r ((line, pid) # rows) installed failed =
    (case open_profile t line of
       Inl e \<Rightarrow> (r, Inl e)
     | Inr None \<Rightarrow> install_loop t r rows installed (failed + 1)
     | Inr (Some c) \<Rightarrow>
        (case install_for_line (fst (remove_for_line r line)) line (virtual_sim_new pid c) of
           (r, Inl e) \<Rightarrow> (r, Inl e)
         | (r, Inr u) \<Rightarrow> install_loop t r rows (installed + 1) failed))"

definition install_all :: "sim_registry \<Rightarrow> profile_table \<Rightarrow> sim_registry \<times> (string + nat \<times> nat)" where
  "install_all r t = install_loop t r (list_profiles t) 0 0"

lemma find_insort_key:
  assumes "\<forall>y \<in> set xs. \<not> P y"
  shows "find P (insort_key k x xs) = (if P x then Some x else None)"
  using assms by (induction xs) (auto simp: find_None_iff)

lemma find_insort_key_other: "\<not> P x \<Longrightarrow> find P (insort_key k x xs) = find P xs"
  by (induction xs) auto

lemma find_filter_other: "(\<And>x. P x \<Longrightarrow> Q x) \<Longrightarrow> find P (filter Q xs) = find P xs"
  by (induction xs) auto

text \<open>What was stored for a line is what is opened; every other line is untouched.\<close>

lemma open_store_profile:
  assumes "five_codes_new ic im key op ms = Inr c" and "length key = 16" and "length (raw_op c) = 16"
  shows "open_profile (store_profile t line pid c) line' = (if line' = line then Inr (Some c) else open_profile t line')"
proof (cases "line' = line")
  case True
  then show ?thesis
    using decode_encode_codes [OF assms]
    by (simp add: open_profile_def profile_record_def store_profile_def find_insort_key)
next
  case False
  then show ?thesis
    by (simp add: open_profile_def profile_record_def store_profile_def find_insort_key_other find_filter_other)
qed

lemma open_delete_profile:
  "open_profile (fst (delete_profile t line)) line' = (if line' = line then Inr None else open_profile t line')"
proof -
  have "find (\<lambda>r. fst r = line) (filter (\<lambda>r. fst r \<noteq> line) t) = None" by (simp add: find_None_iff)
  then show ?thesis by (simp add: open_profile_def profile_record_def delete_profile_def find_filter_other)
qed

section \<open>The network's side\<close>

definition network_autn :: "aes \<Rightarrow> Milenage \<Rightarrow> bytes \<Rightarrow> bytes \<Rightarrow> bytes \<Rightarrow> bytes" where
  "network_autn E m rand sqn amf =
     map (\<lambda>i. (sqn ! i) XOR (snd (snd (snd (f2345 E m rand))) ! i)) [0..<6] @ amf @ fst (f1 E m sqn amf rand)"

text \<open>What the network reads out of an AUTS: the sequence number, if MAC-S is right.\<close>

definition network_resync :: "aes \<Rightarrow> Milenage \<Rightarrow> bytes \<Rightarrow> bytes \<Rightarrow> bytes \<Rightarrow> Sqn option" where
  "network_resync E m rand amf auts =
    (let sqn = map (\<lambda>i. (auts ! i) XOR (f5_star E m rand ! i)) [0..<6]
     in if drop 6 auts = snd (f1 E m sqn amf rand) then Some (sqn_from_bytes sqn) else None)"

lemma xor_cancel: "(a XOR b) XOR b = (a :: u8)"
  by (simp add: xor.assoc)

lemma reveal:
  assumes "length sqn = 6"
  shows "map (\<lambda>i. (map (\<lambda>i. (sqn ! i) XOR (k ! i)) [0..<6] @ rest) ! i XOR (k ! i)) [0..<6] = (sqn :: bytes)"
  using assms by (intro nth_equalityI) (simp_all add: nth_append xor_cancel)

lemma verify_network_autn:
  assumes "length amf = 2" and "length sqn = 6"
  shows "verify_autn E m rand (network_autn E m rand sqn amf) = Inr (sqn, amf)"
proof -
  let ?ak = "snd (snd (snd (f2345 E m rand)))" and ?autn = "network_autn E m rand sqn amf"
  have ak: "(case f2345 E m rand of (res, ck, ik, ak) \<Rightarrow> ak) = ?ak" by (simp add: case_prod_beta)
  have amf: "slice_of ?autn 6 8 = amf" using assms(1) by (simp add: network_autn_def slice_of_def)
  have mac: "slice_of ?autn 8 16 = fst (f1 E m sqn amf rand)"
    using assms(1) by (simp add: network_autn_def slice_of_def)
  have sqn: "map (\<lambda>i. ?autn ! i XOR ?ak ! i) [0..<6] = sqn"
    unfolding network_autn_def by (rule reveal [OF assms(2)])
  show ?thesis unfolding verify_autn_def Let_def ak amf mac sqn by (simp add: mismatch_zero)
qed

lemma auts_reveals:
  assumes "length sqn = 6"
  shows "network_resync E m rand amf (build_auts E m rand sqn amf) = Some (sqn_from_bytes sqn)"
proof -
  have sqn: "map (\<lambda>i. build_auts E m rand sqn amf ! i XOR f5_star E m rand ! i) [0..<6] = sqn"
    unfolding build_auts_def Let_def by (rule reveal [OF assms])
  show ?thesis unfolding network_resync_def Let_def sqn by (simp add: build_auts_def Let_def)
qed

lemma sqn_next_small: "unat (sqn_next s) < 2 ^ 48"
proof -
  have "sqn_next s = take_bit 48 (s + 1)"
    by (simp add: sqn_next_def SQN_MASK48_def take_bit_eq_mask mask_eq_exp_minus_1)
  then have "unat (sqn_next s) = take_bit 48 (unat (s + 1))" by (simp only: unsigned_take_bit_eq)
  then show ?thesis by (simp add: take_bit_eq_mod)
qed

section \<open>Properties\<close>

text \<open>
  C18: AKA with the home network.  A challenge the network makes with the same keys is answered with
  the response and session keys exactly when its sequence number is newer than the last accepted
  one, which it then becomes; otherwise the card's state is unchanged and from the AUTS it returns
  the network recovers the number after the last accepted one (wrapping at 48 bits).
\<close>

theorem usim_answers_fresh_challenges:
  assumes "length rand = 16" and "length amf = 2" and "unat n < 2 ^ 48"
    and "m = codes_milenage E (codes v)" and "autn = network_autn E m rand (sqn_to_bytes n) amf"
  shows "if sim_sqn v < n
    then authenticate E v rand autn = (v\<lparr>sim_sqn := n\<rparr>, case f2345 E m rand of (res, ck, ik, ak) \<Rightarrow>
        Inr \<lparr>aka_res = res, aka_ck = ck, aka_ik = ik, aka_auts = None\<rparr>)
    else \<exists>auts. authenticate E v rand autn = (v, Inr \<lparr>aka_res = [], aka_ck = [], aka_ik = [], aka_auts = Some auts\<rparr>)
      \<and> network_resync E m rand amf auts = Some (sqn_next (sim_sqn v))"
proof -
  have len: "length autn = 16" using assms(2,5) by (simp add: network_autn_def)
  have verified: "verify_autn E m rand autn = Inr (sqn_to_bytes n, amf)"
    unfolding assms(5) by (rule verify_network_autn) (simp_all add: assms(2))
  have amf: "slice_of autn 6 8 = amf" using assms(2,5) by (simp add: network_autn_def slice_of_def)
  have n: "sqn_from_bytes (sqn_to_bytes n) = n" using assms(3) by (rule sqn_value_round_trip)
  have next_sqn: "sqn_from_bytes (sqn_to_bytes (sqn_next (sim_sqn v))) = sqn_next (sim_sqn v)"
    by (rule sqn_value_round_trip [OF sqn_next_small])
  show ?thesis
  proof (cases "sim_sqn v < n")
    case True
    then show ?thesis
      using verified len assms(1,4) n by (simp add: authenticate_def Let_def sqn_accepts_def sqn_advance_def)
  next
    case False
    then have "authenticate E v rand autn = (v, Inr (resync E v rand autn))"
      using verified len assms(1,4) n by (simp add: authenticate_def Let_def sqn_accepts_def)
    with False show ?thesis
      using auts_reveals [of "sqn_to_bytes (sqn_next (sim_sqn v))" E m rand amf]
      by (simp add: resync_def amf next_sqn assms(4))
  qed
qed


definition sample_codes :: FiveCodes where
  "sample_codes = \<lparr>iccid = us ''8944000000000000001'', imsi = us ''001010123456789'', ki = replicate 16 7,
     op_material = Opc (replicate 16 9), msisdn = None\<rparr>"

abbreviation sample_aes :: aes where "sample_aes \<equiv> (\<lambda>k b. b)"

abbreviation sample_challenge :: bytes where
  "sample_challenge \<equiv> network_autn sample_aes (codes_milenage sample_aes sample_codes) (replicate 16 1)
     (sqn_to_bytes 5) [0x80, 0]"

theorem usim_answers_fresh_challenges_witness:
  "fst (authenticate sample_aes (virtual_sim_new ''p'' sample_codes) (replicate 16 1) sample_challenge)
     = (virtual_sim_new ''p'' sample_codes)\<lparr>sim_sqn := 5\<rparr>"
  using usim_answers_fresh_challenges [of "replicate 16 1" "[0x80, 0]" 5
      "codes_milenage sample_aes sample_codes" sample_aes "virtual_sim_new ''p'' sample_codes", OF _ _ _ _ refl]
  by (simp add: virtual_sim_new_def)

text \<open>The sequence numbers a card accepts over a series of challenges, and any octets may arrive.\<close>

fun aka_run :: "aes \<Rightarrow> VirtualSim \<Rightarrow> (bytes \<times> bytes) list \<Rightarrow> Sqn list" where
  "aka_run E v [] = []"
| "aka_run E v ((rand, autn) # cs) =
    (case authenticate E v rand autn of
       (v', Inr out) \<Rightarrow> if aka_auts out = None then sim_sqn v' # aka_run E v' cs else aka_run E v' cs
     | (v', Inl e) \<Rightarrow> aka_run E v' cs)"

lemma authenticate_cases:
  obtains (refused) r where "authenticate E v rand autn = (v, r)" "\<And>out. r = Inr out \<Longrightarrow> aka_auts out \<noteq> None"
  | (answered) n out where "authenticate E v rand autn = (v\<lparr>sim_sqn := n\<rparr>, Inr out)" "aka_auts out = None"
      "sim_sqn v < n"
proof (cases "length rand = 16 \<and> length autn = 16")
  case False
  show thesis
  proof (cases "length rand = 16")
    case True
    with False show thesis
      by (intro refused [of "Inl ''ims_virtual_sim_autn_invalid''"]) (simp_all add: authenticate_def)
  next
    case bad_rand: False
    then show thesis
      by (intro refused [of "Inl ''ims_virtual_sim_rand_invalid''"]) (simp_all add: authenticate_def)
  qed
next
  case True
  let ?m = "codes_milenage E (codes v)"
  show thesis
  proof (cases "verify_autn E ?m rand autn")
    case (Inl e)
    with True show thesis
      by (intro refused [of "Inr (resync E v rand autn)"]) (auto simp: authenticate_def Let_def resync_def)
  next
    case (Inr p)
    obtain s amf where p: "p = (s, amf)" by (cases p)
    obtain res ck ik ak where f: "f2345 E ?m rand = (res, ck, ik, ak)" by (metis prod_cases4)
    show thesis
    proof (cases "sim_sqn v < sqn_from_bytes s")
      case lt: True
      with True Inr p f show thesis
        by (intro answered [of "sqn_from_bytes s"
              "\<lparr>aka_res = res, aka_ck = ck, aka_ik = ik, aka_auts = None\<rparr>"])
           (simp_all add: authenticate_def Let_def sqn_accepts_def sqn_advance_def)
    next
      case ge: False
      with True Inr p show thesis
        by (intro refused [of "Inr (resync E v rand autn)"])
           (auto simp: authenticate_def Let_def resync_def sqn_accepts_def)
    qed
  qed
qed

text \<open>
  No sequence number is used twice.  Over any series of challenges of any octets, the sequence
  numbers of the challenges a card answers increase strictly, from above its current one.
\<close>

theorem usim_sqn_strictly_increases:
  "sorted_wrt (<) (sim_sqn v # aka_run E v cs)"
proof (induction cs arbitrary: v)
  case (Cons c cs)
  obtain rand autn where c: "c = (rand, autn)" by (cases c)
  show ?case
  proof (cases rule: authenticate_cases [of E v rand autn])
    case (refused r)
    then show ?thesis using Cons.IH [of v] c by (cases r) simp_all
  next
    case (answered n out)
    have "sorted_wrt (<) (n # aka_run E (v\<lparr>sim_sqn := n\<rparr>) cs)"
      using Cons.IH [of "v\<lparr>sim_sqn := n\<rparr>"] by simp
    with answered c show ?thesis by auto
  qed
qed simp

text \<open>
  C37: The sequence number does not survive a restart.  A challenge the card has answered is answered
  again, with the same response and keys, by the subscription that \<open>install_all\<close> rebuilds from the
  record that \<open>store_profile\<close> wrote.
\<close>

theorem usim_restart_accepts_replay:
  assumes "authenticate E v rand autn = (v', Inr out)" and "aka_auts out = None"
    and "five_codes_new ic im key op ms = Inr (codes v)" and "length key = 16" and "length (raw_op (codes v)) = 16"
    and "line \<noteq> []" and "pid \<noteq> []"
  shows "\<exists>r w. install_all Map.empty (store_profile [] line pid (codes v)) = (r, Inr (1, 0)) \<and> r line = Some w
    \<and> snd (authenticate E w rand autn) = Inr out"
proof -
  let ?w = "virtual_sim_new pid (codes v)"
  have "install_all Map.empty (store_profile [] line pid (codes v)) = ([line \<mapsto> ?w], Inr (1, 0))"
    using open_store_profile [OF assms(3-5), of "[]" line pid line] assms(6,7)
    by (simp add: install_all_def list_profiles_def store_profile_def install_for_line_def remove_for_line_def
        virtual_sim_new_def)
  moreover have "snd (authenticate E ?w rand autn) = Inr out"
    using assms(1,2) by (auto simp: authenticate_def virtual_sim_new_def Let_def sqn_accepts_def resync_def
        split: if_splits sum.splits prod.splits) (meson le_less_trans word_zero_le)+
  ultimately show ?thesis by (intro exI [of _ "[line \<mapsto> ?w]"] exI [of _ ?w]) simp
qed

lemma sample_challenge_answered:
  "\<exists>n out. authenticate sample_aes (virtual_sim_new ''p'' sample_codes) (replicate 16 1) sample_challenge
     = ((virtual_sim_new ''p'' sample_codes)\<lparr>sim_sqn := n\<rparr>, Inr out) \<and> aka_auts out = None"
proof -
  let ?m = "codes_milenage sample_aes sample_codes"
  have ok: "verify_autn sample_aes ?m (replicate 16 1) sample_challenge = Inr (sqn_to_bytes 5, [0x80, 0])"
    by (rule verify_network_autn) simp_all
  have five: "sqn_from_bytes (sqn_to_bytes 5) = 5" by (rule sqn_value_round_trip) simp
  have len: "length sample_challenge = 16" by (simp add: network_autn_def)
  obtain res ck ik ak where f: "f2345 sample_aes ?m (replicate 16 1) = (res, ck, ik, ak)" by (metis prod_cases4)
  show ?thesis
    using ok five len f
    by (intro exI [of _ 5] exI [of _ "\<lparr>aka_res = res, aka_ck = ck, aka_ik = ik, aka_auts = None\<rparr>"])
       (simp add: authenticate_def virtual_sim_new_def sqn_accepts_def sqn_advance_def)
qed

theorem usim_restart_accepts_replay_witness:
  "\<exists>r w. install_all Map.empty (store_profile [] ''line-a'' ''p'' sample_codes) = (r, Inr (1, 0))
     \<and> r ''line-a'' = Some w"
proof -
  let ?v = "virtual_sim_new ''p'' sample_codes"
  obtain n out where out: "authenticate sample_aes ?v (replicate 16 1) sample_challenge
      = (?v\<lparr>sim_sqn := n\<rparr>, Inr out)" "aka_auts out = None"
    using sample_challenge_answered by blast
  have "five_codes_new (us ''8944000000000000001'') (us ''001010123456789'') (replicate 16 7)
      (Opc (replicate 16 9)) None = Inr (codes ?v)"
    by (simp add: five_codes_new_def str_trim_def us_def is_whitespace_def digits_ok_def utf8_def
        utf8_char_def is_ascii_digit_def clean_msisdn_def Let_def virtual_sim_new_def sample_codes_def)
  from usim_restart_accepts_replay [OF out this, of "''line-a''" "''p''"] show ?thesis
    by (auto simp: virtual_sim_new_def sample_codes_def raw_op_def)
qed

end
