(* ===== verification/Ip_Fragment.thy ===== *)
theory Ip_Fragment
  imports Ip_Packet "HOL-Library.AList" "HOL-Library.Multiset"
begin

text \<open>
  Fragmentation and reassembly of inner IP packets in the ESP gateway (\<open>vowifi/tun_gateway.rs\<close>): the
  three reassemblers (outbound IPv4, outbound IPv6, inbound of either family) with their buffers, and
  the software fragmentation of oversized packets.  What a reassembler promises is the locale
  \<open>reassembler\<close>; each of the three is an interpretation of it, and the fragments the gateway
  produces are put together again in whatever order and mixed with whatever traffic they arrive.
\<close>

section \<open>Buffers\<close>

datatype FragmentReassemblyOutcome = Forward bytes | Buffered | Dropped

text \<open>A buffer keeps the header from fragment zero, the pieces by their offset, and the length once the
  last fragment is known.  \<open>'h\<close> is the kind of header: for outbound IPv6 it is the base header with the
  next header, two fields that the code always sets together.\<close>

record 'h FragmentBuffer =
  fb_header :: "'h option"
  fb_pieces :: "(nat \<times> bytes) list"
  fb_expected :: "nat option"
  fb_created :: Instant

type_synonym frag_key = "IpAddr \<times> IpAddr \<times> u32"
type_synonym 'h frag_buffers = "(frag_key \<times> 'h FragmentBuffer) list"

definition buffer_new :: "Instant \<Rightarrow> 'h FragmentBuffer" where
  "buffer_new now = \<lparr>fb_header = None, fb_pieces = [], fb_expected = None, fb_created = now\<rparr>"

definition evict_old :: "Instant \<Rightarrow> 'h frag_buffers \<Rightarrow> 'h frag_buffers" where
  "evict_old now bs = (if 32 \<le> length bs then filter (\<lambda>(k, b). now - fb_created b < from_secs 3) bs else bs)"

definition entry_or_new :: "Instant \<Rightarrow> frag_key \<Rightarrow> 'h frag_buffers \<Rightarrow> 'h FragmentBuffer" where
  "entry_or_new now k bs = (case map_of bs k of None \<Rightarrow> buffer_new now | Some b \<Rightarrow> b)"

definition overlaps :: "nat \<Rightarrow> bytes \<Rightarrow> 'h FragmentBuffer \<Rightarrow> bool" where
  "overlaps off payload b \<longleftrightarrow>
     list_ex (\<lambda>(start, piece). off < start + length piece \<and> start < off + length payload) (fb_pieces b)"

definition add_piece :: "'h \<Rightarrow> nat \<Rightarrow> bool \<Rightarrow> bytes \<Rightarrow> 'h FragmentBuffer \<Rightarrow> 'h FragmentBuffer" where
  "add_piece h off mf payload b =
    (let b1 = (if off = 0 then b\<lparr>fb_header := Some h\<rparr> else b);
         b2 = b1\<lparr>fb_pieces := fb_pieces b1 @ [(off, payload)]\<rparr>
     in if \<not> mf then b2\<lparr>fb_expected := Some (off + length payload)\<rparr> else b2)"

fun contiguous_end :: "nat \<Rightarrow> (nat \<times> bytes) list \<Rightarrow> nat option" where
  "contiguous_end cursor [] = Some cursor"
| "contiguous_end cursor ((off, piece) # ps) =
    (if off \<noteq> cursor then None else contiguous_end (cursor + length piece) ps)"

fun covered_end :: "nat \<Rightarrow> (nat \<times> bytes) list \<Rightarrow> nat option" where
  "covered_end cursor [] = Some cursor"
| "covered_end cursor ((off, piece) # ps) =
    (if cursor < off then None else covered_end (max cursor (off + length piece)) ps)"

section \<open>Outbound IPv4\<close>

record Ipv4FragmentInfo =
  frag_identification :: u32
  frag_offset_bytes :: nat
  frag_mf :: bool

definition ipv4_fragment_info :: "bytes \<Rightarrow> Ipv4FragmentInfo option" where
  "ipv4_fragment_info packet =
    (if ip_nibble packet \<noteq> Some 4 \<or> length packet < 20 then None
     else
       let flags_and_offset = be16_at packet 6;
           mf = (flags_and_offset AND 0x2000 \<noteq> 0);
           offset_bytes = unat (flags_and_offset AND 0x1fff) * 8
       in if \<not> mf \<and> offset_bytes = 0 then None
          else Some \<lparr>frag_identification = u32_from_be [0, 0, packet ! 4, packet ! 5],
                     frag_offset_bytes = offset_bytes, frag_mf = mf\<rparr>)"

definition v4_key :: "bytes \<Rightarrow> u32 \<Rightarrow> frag_key" where
  "v4_key packet ident = (V4 (slice_of packet 12 16), V4 (slice_of packet 16 20), ident)"

text \<open>The header of the reassembled packet: total length, no fragment fields, checksum.\<close>

definition finish_v4 :: "bytes \<Rightarrow> nat \<Rightarrow> bytes" where
  "finish_v4 header expected_len =
     with_checksum (put (put header 2 (u16_be (word_of_nat (length header + expected_len)))) 6 [0, 0])"

definition reassemble_outbound_ip_fragment ::
    "Instant \<Rightarrow> bytes \<Rightarrow> bytes frag_buffers \<Rightarrow> bytes frag_buffers \<times> FragmentReassemblyOutcome" where
  "reassemble_outbound_ip_fragment now packet buffers =
    (case ipv4_fragment_info packet of
       None \<Rightarrow> (buffers, Forward packet)
     | Some fragment \<Rightarrow>
        let ihl = ihl_of packet in
        if \<not> (20 \<le> ihl \<and> ihl \<le> length packet) then (buffers, Dropped)
        else
          let key = v4_key packet (frag_identification fragment);
              buffers = evict_old now buffers;
              payload = drop ihl packet in
          if payload = [] \<or> frag_mf fragment \<and> length payload mod 8 \<noteq> 0 then (buffers, Dropped)
          else
            let buffer = entry_or_new now key buffers in
            if overlaps (frag_offset_bytes fragment) payload buffer then (AList.delete key buffers, Dropped)
            else
              let buffer = add_piece (take ihl packet) (frag_offset_bytes fragment) (frag_mf fragment) payload
                    buffer;
                  buffers = AList.update key buffer buffers in
              (case (fb_expected buffer, fb_header buffer) of
                 (Some expected_len, Some header) \<Rightarrow>
                   let pieces = sort_key fst (fb_pieces buffer) in
                   (case contiguous_end 0 pieces of
                      None \<Rightarrow> (buffers, Buffered)
                    | Some cursor \<Rightarrow>
                       if cursor \<noteq> expected_len \<or> u16_max < length header + expected_len
                       then (AList.delete key buffers, Dropped)
                       else (AList.delete key buffers,
                             Forward (finish_v4 header expected_len @ concat (map snd pieces))))
               | _ \<Rightarrow> (buffers, Buffered)))"

section \<open>Outbound IPv6\<close>

text \<open>The header of the reassembled packet: the base header without the fragment header.\<close>

definition finish_v6 :: "bytes \<times> u8 \<Rightarrow> nat \<Rightarrow> bytes" where
  "finish_v6 h expected_len = put (put (fst h) 6 [snd h]) 4 (u16_be (word_of_nat expected_len))"

definition v6_key :: "bytes \<Rightarrow> frag_key" where
  "v6_key packet = (V6 (slice_of packet 8 24), V6 (slice_of packet 24 40), be32_at packet 44)"

definition v6_offset :: "bytes \<Rightarrow> nat" where
  "v6_offset packet = unat (drop_bit 3 (be16_at packet 42)) * 8"

definition v6_more :: "bytes \<Rightarrow> bool" where
  "v6_more packet \<longleftrightarrow> be16_at packet 42 AND 1 \<noteq> 0"

definition reassemble_outbound_ipv6_fragment ::
    "Instant \<Rightarrow> bytes \<Rightarrow> (bytes \<times> u8) frag_buffers \<Rightarrow> (bytes \<times> u8) frag_buffers \<times> FragmentReassemblyOutcome" where
  "reassemble_outbound_ipv6_fragment now packet buffers =
    (if ip_nibble packet \<noteq> Some 6 \<or> length packet < 48 \<or> packet ! 6 \<noteq> 44 then (buffers, Forward packet)
     else
       let packet_end = 40 + unat (be16_at packet 4) in
       if length packet < packet_end \<or> packet_end < 48 then (buffers, Dropped)
       else
         let key = v6_key packet;
             fragment_payload = slice_of packet 48 packet_end;
             buffers = evict_old now buffers;
             buffer = entry_or_new now key buffers in
         if overlaps (v6_offset packet) fragment_payload buffer then (AList.delete key buffers, Dropped)
         else
           let buffer = add_piece (take 40 packet, packet ! 40) (v6_offset packet) (v6_more packet)
                 fragment_payload buffer;
               buffers = AList.update key buffer buffers in
           (case (fb_expected buffer, fb_header buffer) of
              (Some expected_len, Some header) \<Rightarrow>
                let pieces = sort_key fst (fb_pieces buffer) in
                (case contiguous_end 0 pieces of
                   None \<Rightarrow> (buffers, Buffered)
                 | Some cursor \<Rightarrow>
                    if cursor \<noteq> expected_len \<or> u16_max < expected_len then (buffers, Dropped)
                    else (AList.delete key buffers,
                          Forward (finish_v6 header expected_len @ concat (map snd pieces))))
            | _ \<Rightarrow> (buffers, Buffered)))"

section \<open>Inbound\<close>

record InboundFragmentInfo =
  in_key :: frag_key
  in_offset_bytes :: nat
  in_more :: bool
  in_base_header :: bytes
  in_payload :: bytes

text \<open>The code slices the packet at the header length the packet claims; the outer \<open>None\<close> is the panic
  when the packet is shorter than that.\<close>

definition inbound_fragment_info :: "bytes \<Rightarrow> InboundFragmentInfo option option" where
  "inbound_fragment_info packet =
    (if ip_nibble packet = Some 4 then
       (if length packet < 20 then Some None
        else
          let flags_and_offset = be16_at packet 6;
              mf = (flags_and_offset AND 0x2000 \<noteq> 0);
              offset_bytes = unat (flags_and_offset AND 0x1fff) * 8
          in if \<not> mf \<and> offset_bytes = 0 then Some None
             else if length packet < ihl_of packet then None
             else Some (Some \<lparr>in_key = v4_key packet (u32_from_be [0, 0, packet ! 4, packet ! 5]),
                        in_offset_bytes = offset_bytes, in_more = mf,
                        in_base_header = take (ihl_of packet) packet, in_payload = drop (ihl_of packet) packet\<rparr>))
     else if ip_nibble packet = Some 6 then
       (if length packet < 48 \<or> packet ! 6 \<noteq> 44 then Some None
        else Some (Some \<lparr>in_key = v6_key packet, in_offset_bytes = v6_offset packet,
                   in_more = (be16_at packet 42 AND 1 = 1), in_base_header = put (take 40 packet) 6 [packet ! 40],
                   in_payload = drop 48 packet\<rparr>))
     else Some None)"

definition drop_first_piece :: "nat \<Rightarrow> 'h FragmentBuffer \<Rightarrow> 'h FragmentBuffer" where
  "drop_first_piece off b =
    (if off = 0 then b\<lparr>fb_pieces := filter (\<lambda>(o', p). o' \<noteq> 0) (fb_pieces b)\<rparr> else b)"

text \<open>The final header; \<open>None\<close> is the panic of indexing an IPv4 header shorter than its fields, \<open>Some None\<close>
  the outcome \<open>Dropped\<close>.\<close>

definition finish_inbound :: "bytes \<Rightarrow> nat \<Rightarrow> bytes option option" where
  "finish_inbound header expected =
    (if ip_nibble header = Some 4 then
       (let ihl = ihl_of header; total_len = ihl + expected
        in if u16_max < total_len then Some None
           else if length header < 12 then None
           else Some (Some (with_checksum (put (put header 2 (u16_be (word_of_nat total_len))) 6 [0, 0]))))
     else if ip_nibble header = Some 6 then
       (if u16_max < expected then Some None
        else Some (Some (put header 4 (u16_be (word_of_nat expected)))))
     else Some None)"

definition reassemble_inbound_ip_fragment ::
    "Instant \<Rightarrow> bytes \<Rightarrow> bytes frag_buffers \<Rightarrow> (bytes frag_buffers \<times> FragmentReassemblyOutcome) option" where
  "reassemble_inbound_ip_fragment now packet buffers =
    (case inbound_fragment_info packet of
       None \<Rightarrow> None
     | Some None \<Rightarrow> Some (buffers, Forward packet)
     | Some (Some info) \<Rightarrow>
        let key = in_key info;
            buffers = evict_old now buffers;
            buffer = entry_or_new now key buffers in
        if overlaps (in_offset_bytes info) (in_payload info) buffer
        then Some (AList.delete key buffers, Dropped)
        else
          let buffer = add_piece (in_base_header info) (in_offset_bytes info) (in_more info) (in_payload info)
                (drop_first_piece (in_offset_bytes info) buffer);
              buffers = AList.update key buffer buffers in
          (case (fb_expected buffer, fb_header buffer) of
             (Some expected, Some header) \<Rightarrow>
               let pieces = sort_key fst (fb_pieces buffer) in
               (case covered_end 0 pieces of
                  None \<Rightarrow> Some (buffers, Buffered)
                | Some cursor \<Rightarrow>
                   if cursor \<noteq> expected then Some (buffers, Buffered)
                   else (case finish_inbound header expected of
                           None \<Rightarrow> None
                         | Some None \<Rightarrow> Some (buffers, Dropped)
                         | Some (Some h) \<Rightarrow>
                            Some (AList.delete key buffers, Forward (h @ concat (map snd pieces)))))
           | _ \<Rightarrow> Some (buffers, Buffered)))"

section \<open>Pieces of one packet\<close>

definition piece_len :: "(nat \<times> bytes) list \<Rightarrow> nat" where
  "piece_len ps = sum_list (map (length \<circ> snd) ps)"

definition filled :: "(nat \<times> bytes) list \<Rightarrow> bool" where
  "filled ps \<longleftrightarrow> (\<forall>p \<in> set ps. snd p \<noteq> [])"

definition apart :: "nat \<times> bytes \<Rightarrow> nat \<times> bytes \<Rightarrow> bool" where
  "apart p q \<longleftrightarrow> fst p + length (snd p) \<le> fst q \<or> fst q + length (snd q) \<le> fst p"

text \<open>Non-empty pieces that do not overlap, in any order.\<close>

definition separate :: "(nat \<times> bytes) list \<Rightarrow> bool" where
  "separate ps \<longleftrightarrow> filled ps \<and> sorted_wrt apart ps"

lemma contiguous_end_head: "contiguous_end c (p # ps) = Some m \<Longrightarrow> fst p = c"
  by (cases p) (auto split: if_splits)

lemma contiguous_end_sum: "contiguous_end c ps = Some m \<Longrightarrow> m = c + piece_len ps"
  by (induction c ps rule: contiguous_end.induct) (auto simp: piece_len_def split: if_splits)

lemma contiguous_end_last:
  "contiguous_end c ps = Some m \<Longrightarrow> ps \<noteq> [] \<Longrightarrow> m = fst (last ps) + length (snd (last ps))"
  by (induction c ps rule: contiguous_end.induct) (auto split: if_splits simp: neq_Nil_conv)

lemma contiguous_end_bounds:
  "contiguous_end c ps = Some m \<Longrightarrow> p \<in> set ps \<Longrightarrow> c \<le> fst p \<and> fst p + length (snd p) \<le> m"
proof (induction c ps rule: contiguous_end.induct)
  case (2 c off piece ps)
  then have step: "off = c" "contiguous_end (c + length piece) ps = Some m" by (auto split: if_splits)
  show ?case
  proof (cases "p = (off, piece)")
    case True
    with step show ?thesis using contiguous_end_sum [OF step(2)] by simp
  next
    case False
    with 2 step show ?thesis by force
  qed
qed simp

lemma contiguous_end_apart:
  "contiguous_end c ps = Some m \<Longrightarrow> sorted_wrt (\<lambda>p q. fst p + length (snd p) \<le> fst q) ps"
proof (induction c ps rule: contiguous_end.induct)
  case (2 c off piece ps)
  then show ?case using contiguous_end_bounds [of "c + length piece" ps m] by (auto split: if_splits)
qed simp

lemma contiguous_end_separate: "contiguous_end c ps = Some m \<Longrightarrow> filled ps \<Longrightarrow> separate ps"
  using sorted_wrt_mono_rel [OF _ contiguous_end_apart [of c ps m], of apart]
  by (auto simp: separate_def apart_def)

lemma contiguous_end_strict:
  "contiguous_end c ps = Some m \<Longrightarrow> filled ps \<Longrightarrow> sorted_wrt (<) (map fst ps)"
proof -
  assume end_m: "contiguous_end c ps = Some m" and ne: "filled ps"
  have "sorted_wrt (\<lambda>p q. fst p < fst q) ps"
  proof (rule sorted_wrt_mono_rel [OF _ contiguous_end_apart [OF end_m]])
    fix x y assume "x \<in> set ps" and "fst x + length (snd x) \<le> fst y"
    moreover from this ne have "0 < length (snd x)" by (auto simp: filled_def)
    ultimately show "fst x < fst y" by linarith
  qed
  then show ?thesis by (simp add: sorted_wrt_map)
qed

text \<open>Sorting all pieces of a packet gives them in the packet's order.\<close>

lemma sort_pieces_all:
  assumes "contiguous_end c ps = Some m" and "filled ps" and "mset qs = mset ps"
  shows "sort_key fst qs = ps"
proof -
  have strict: "sorted_wrt (<) (map fst ps)" by (rule contiguous_end_strict [OF assms(1,2)])
  then have d: "distinct (map fst ps)" and s: "sorted (map fst ps)"
    by (simp_all add: strict_sorted_iff)
  have "mset (map fst qs) = mset (map fst ps)" using assms(3) by simp
  then have dq: "distinct (map fst qs)" using d by (metis mset_eq_imp_distinct_iff)
  have "set (sort_key fst qs) = set ps" using assms(3) by (metis mset_eq_setD set_sort)
  moreover have "distinct (map fst (sort_key fst qs))"
    using dq by (metis distinct_map distinct_sort set_sort)
  moreover have "inj_on fst (set ps)" using d by (simp add: distinct_map)
  ultimately show ?thesis
    using s d by (intro map_sorted_distinct_set_unique [of fst]) auto
qed

lemma sorted_wrt_pair: "sorted_wrt R xs \<Longrightarrow> x \<in> set xs \<Longrightarrow> y \<in> set xs \<Longrightarrow> x \<noteq> y \<Longrightarrow> R x y \<or> R y x"
  by (induction xs) auto

lemma sorted_wrt_distinctI:
  "distinct xs \<Longrightarrow> (\<And>x y. x \<in> set xs \<Longrightarrow> y \<in> set xs \<Longrightarrow> x \<noteq> y \<Longrightarrow> R x y) \<Longrightarrow> sorted_wrt R xs"
  by (induction xs) auto

lemma apart_sym: "apart p q \<longleftrightarrow> apart q p"
  by (auto simp: apart_def)

lemma distinct_sub_mset: "mset xs \<subseteq># mset ys \<Longrightarrow> distinct ys \<Longrightarrow> distinct xs"
proof -
  assume sub: "mset xs \<subseteq># mset ys" and d: "distinct ys"
  obtain rest where "mset rest = mset ys - mset xs" using ex_mset by blast
  with sub have "mset (xs @ rest) = mset ys" by simp
  then have "distinct (xs @ rest)" using d by (metis mset_eq_imp_distinct_iff)
  then show ?thesis by simp
qed

lemma piece_len_mset: "piece_len ps = \<Sum>\<^sub># (image_mset (length \<circ> snd) (mset ps))"
  by (induction ps) (simp_all add: piece_len_def)

text \<open>While a piece is missing, pieces that include the last one leave a gap.\<close>

lemma sort_pieces_gap:
  assumes ps: "contiguous_end 0 ps = Some n" "filled ps" and sub: "mset qs \<subset># mset ps" and last: "last ps \<in> set qs"
  shows "contiguous_end 0 (sort_key fst qs) = None"
proof (rule ccontr)
  assume "contiguous_end 0 (sort_key fst qs) \<noteq> None"
  then obtain m where m: "contiguous_end 0 (sort_key fst qs) = Some m" by auto
  have inq: "set qs \<subseteq> set ps" using set_mset_mono [of "mset qs" "mset ps"] sub by simp
  then have "filled qs" using ps(2) by (auto simp: filled_def)
  let ?s = "sort_key fst qs"

  have "last ps \<in> set ?s" using last by simp
  then have "fst (last ps) + length (snd (last ps)) \<le> m" using contiguous_end_bounds [OF m] by blast
  moreover have "ps \<noteq> []" using last inq by auto
  ultimately have "n \<le> m" using contiguous_end_last [OF ps(1)] by simp
  moreover have "m = piece_len ?s" "n = piece_len ps"
    using contiguous_end_sum [OF m] contiguous_end_sum [OF ps(1)] by simp_all
  moreover have "piece_len ?s = piece_len qs"
    by (simp only: piece_len_mset mset_sort)
  moreover have "piece_len qs < piece_len ps"
  proof -
    define R where "R = mset ps - mset qs"
    have R: "mset ps = mset qs + R" "R \<noteq> {#}"
      using sub by (auto simp: R_def subset_mset.less_imp_le Diff_eq_empty_iff_mset)
    then obtain r where r: "r \<in># R" by auto
    then have "r \<in># mset ps" using R(1) by simp
    then have "r \<in> set ps" by simp
    then have "0 < length (snd r)" using ps(2) by (simp add: filled_def)
    moreover have "length (snd r) \<le> \<Sum>\<^sub># (image_mset (length \<circ> snd) R)"
      using r by (auto dest!: multi_member_split)
    moreover have "piece_len ps = piece_len qs + \<Sum>\<^sub># (image_mset (length \<circ> snd) R)"
      by (simp only: piece_len_mset R(1) image_mset_union sum_mset.union)
    ultimately show ?thesis by linarith
  qed
  ultimately show False by simp
qed

section \<open>The contract of a reassembler\<close>

text \<open>A reassembler run over timed packets; it stops at a panic.\<close>

fun reassemble_run :: "(Instant \<Rightarrow> bytes \<Rightarrow> 'b \<Rightarrow> ('b \<times> FragmentReassemblyOutcome) option)
    \<Rightarrow> (Instant \<times> bytes) list \<Rightarrow> 'b \<Rightarrow> (bytes \<times> FragmentReassemblyOutcome) list option" where
  "reassemble_run step [] bs = Some []"
| "reassemble_run step ((now, p) # tr) bs =
    (case step now p bs of
       None \<Rightarrow> None
     | Some (bs', out) \<Rightarrow> map_option ((#) (p, out)) (reassemble_run step tr bs'))"

text \<open>What a packet is to a reassembler: the key it belongs to, offset, whether more fragments follow,
  payload, and the header it would contribute.\<close>

type_synonym 'h frag_view = "bytes \<Rightarrow> (frag_key \<times> nat \<times> bool \<times> bytes \<times> 'h) option"

definition has_key :: "'h frag_view \<Rightarrow> frag_key \<Rightarrow> bytes \<Rightarrow> bool" where
  "has_key view k p \<longleftrightarrow> (\<exists>f. view p = Some (k, f))"

definition young :: "Instant \<Rightarrow> frag_key \<Rightarrow> 'h frag_buffers \<Rightarrow> bool" where
  "young now k bs \<longleftrightarrow> (\<forall>b. map_of bs k = Some b \<longrightarrow> now - fb_created b < from_secs 3)"

text \<open>The laws: a packet of another key leaves a young buffer alone; a fragment that overlaps nothing is
  kept while the packet is incomplete, and completes it when nothing is missing.\<close>

locale reassembler =
  fixes step :: "Instant \<Rightarrow> bytes \<Rightarrow> 'h frag_buffers \<Rightarrow> ('h frag_buffers \<times> FragmentReassemblyOutcome) option"
    and view :: "'h frag_view"
    and finish :: "'h \<Rightarrow> nat \<Rightarrow> bytes"
    and fits :: "'h \<Rightarrow> nat \<Rightarrow> bool"
  assumes other: "\<not> has_key view k p \<Longrightarrow> young now k bs \<Longrightarrow> step now p bs = Some (bs', out)
      \<Longrightarrow> map_of bs' k = map_of bs k"
    and keeps: "view p = Some (k, off, mf, pl, h) \<Longrightarrow> young now k bs \<Longrightarrow> \<not> overlaps off pl (entry_or_new now k bs)
      \<Longrightarrow> b = add_piece h off mf pl (entry_or_new now k bs) \<Longrightarrow> separate (fb_pieces b)
      \<Longrightarrow> fb_expected b = None \<or> fb_header b = None \<or> contiguous_end 0 (sort_key fst (fb_pieces b)) = None
      \<Longrightarrow> \<exists>bs'. step now p bs = Some (bs', Buffered) \<and> map_of bs' k = Some b"
    and completes: "view p = Some (k, off, mf, pl, h) \<Longrightarrow> young now k bs \<Longrightarrow> \<not> overlaps off pl (entry_or_new now k bs)
      \<Longrightarrow> b = add_piece h off mf pl (entry_or_new now k bs) \<Longrightarrow> separate (fb_pieces b)
      \<Longrightarrow> fb_expected b = Some n \<Longrightarrow> fb_header b = Some h0 \<Longrightarrow> contiguous_end 0 (sort_key fst (fb_pieces b)) = Some n
      \<Longrightarrow> fits h0 n
      \<Longrightarrow> \<exists>bs'. step now p bs = Some (bs', Forward (finish h0 n @ concat (map snd (sort_key fst (fb_pieces b)))))"
begin

definition piece :: "bytes \<Rightarrow> nat \<times> bytes" where
  "piece p = (case view p of Some (k, off, mf, pl, h) \<Rightarrow> (off, pl) | None \<Rightarrow> (0, []))"

definition last_one :: "bytes \<Rightarrow> bool" where
  "last_one p \<longleftrightarrow> (\<exists>k off pl h. view p = Some (k, off, False, pl, h))"

text \<open>\<open>fs\<close> is a packet's fragments under key \<open>k\<close>, in order: non-empty, contiguous up to \<open>n\<close>, the last one
  and only it marked as the last, \<open>h0\<close> the header of the first.\<close>

definition fragmented :: "frag_key \<Rightarrow> bytes list \<Rightarrow> 'h \<Rightarrow> nat \<Rightarrow> bool" where
  "fragmented k fs h0 n \<longleftrightarrow> fs \<noteq> [] \<and> (\<forall>p \<in> set fs. has_key view k p) \<and> filled (map piece fs)
     \<and> contiguous_end 0 (map piece fs) = Some n \<and> (\<forall>p \<in> set fs. last_one p \<longleftrightarrow> p = last fs)
     \<and> (\<forall>k off mf pl h. view (hd fs) = Some (k, off, mf, pl, h) \<longrightarrow> h = h0)"

definition holds :: "Instant \<Rightarrow> frag_key \<Rightarrow> bytes list \<Rightarrow> 'h \<Rightarrow> nat \<Rightarrow> bytes list \<Rightarrow> 'h FragmentBuffer option \<Rightarrow> bool" where
  "holds t0 k fs h0 n got ob \<longleftrightarrow>
    (case ob of
       None \<Rightarrow> got = []
     | Some b \<Rightarrow> got \<noteq> [] \<and> fb_pieces b = map piece got \<and> t0 \<le> fb_created b
         \<and> fb_header b = (if hd fs \<in> set got then Some h0 else None)
         \<and> fb_expected b = (if last fs \<in> set got then Some n else None))"

lemma fragmented_distinct: "fragmented k fs h0 n \<Longrightarrow> distinct (map (fst \<circ> piece) fs)"
  using contiguous_end_strict [of 0 "map piece fs" n]
  by (simp add: fragmented_def strict_sorted_iff comp_def)

lemma first_piece:
  assumes "fragmented k fs h0 n" and "p \<in> set fs"
  shows "fst (piece p) = 0 \<longleftrightarrow> p = hd fs"
proof -
  have "contiguous_end 0 (map piece fs) = Some n" and "fs \<noteq> []" using assms(1) by (simp_all add: fragmented_def)
  then have "fst (piece (hd fs)) = 0" by (cases fs) (auto dest: contiguous_end_head)
  moreover have "inj_on (fst \<circ> piece) (set fs)" using fragmented_distinct [OF assms(1)] by (simp add: distinct_map)
  ultimately show ?thesis using assms(2) \<open>fs \<noteq> []\<close> inj_onD [of "fst \<circ> piece" "set fs" p "hd fs"] by auto
qed

lemma separate_sub:
  assumes "fragmented k fs h0 n" and "mset got \<subseteq># mset fs"
  shows "separate (map piece got)"
proof -
  have sep: "separate (map piece fs)"
    using assms(1) contiguous_end_separate by (auto simp: fragmented_def)
  have "distinct fs" using fragmented_distinct [OF assms(1)] by (simp add: distinct_map)
  then have d: "distinct got" by (rule distinct_sub_mset [OF assms(2)])
  have sub: "set got \<subseteq> set fs" using set_mset_mono [OF assms(2)] by simp
  have sorted: "sorted_wrt (\<lambda>p q. apart (piece p) (piece q)) fs"
    using sep by (simp add: separate_def sorted_wrt_map)
  have "sorted_wrt (\<lambda>p q. apart (piece p) (piece q)) got"
  proof (rule sorted_wrt_distinctI [OF d])
    fix p q assume "p \<in> set got" "q \<in> set got" "p \<noteq> q"
    then show "apart (piece p) (piece q)" using sorted_wrt_pair [OF sorted] sub apart_sym by blast
  qed
  then have "sorted_wrt apart (map piece got)" by (simp add: sorted_wrt_map)
  then show ?thesis using sep sub by (auto simp: separate_def filled_def)
qed

lemma last_end:
  assumes "fragmented k fs h0 n" and "view (last fs) = Some (k', off, mf, pl, h)"
  shows "off + length pl = n"
  using assms contiguous_end_last [of 0 "map piece fs" n] by (simp add: fragmented_def last_map piece_def)

lemma entry_holds:
  assumes "holds t0 k fs h0 n got (map_of bs k)" and "t0 \<le> now" and "now < t0 + from_secs 3" and "e = entry_or_new now k bs"
  shows "fb_pieces e = map piece got" "fb_header e = (if hd fs \<in> set got then Some h0 else None)"
    "fb_expected e = (if last fs \<in> set got then Some n else None)" "t0 \<le> fb_created e" "young now k bs"
  using assms by (auto simp: holds_def entry_or_new_def buffer_new_def young_def split: option.splits)

lemma added_holds:
  assumes frag: "fragmented k fs h0 n" and p: "p \<in> set fs" "view p = Some (k, off, mf, pl, h)"
    and e: "fb_pieces e = map piece got" "fb_header e = (if hd fs \<in> set got then Some h0 else None)"
      "fb_expected e = (if last fs \<in> set got then Some n else None)" "t0 \<le> fb_created e"
  shows "holds t0 k fs h0 n (got @ [p]) (Some (add_piece h off mf pl e))"
proof -
  have first: "off = 0 \<longleftrightarrow> p = hd fs" using first_piece [OF frag p(1)] p(2) by (simp add: piece_def)
  have h: "h = h0" if "off = 0" using frag first [THEN iffD1, OF that] p(2) unfolding fragmented_def by blast
  have "last_one p \<longleftrightarrow> p = last fs" using frag p(1) unfolding fragmented_def by blast
  then have last: "\<not> mf \<longleftrightarrow> p = last fs" by (cases k) (simp add: last_one_def p(2))
  have n: "off + length pl = n" if "\<not> mf" using last_end [OF frag] last that p(2) by auto
  show ?thesis
    using first h last n e p(2) by (auto simp: holds_def add_piece_def piece_def Let_def)
qed

lemma step_fragment:
  assumes frag: "fragmented k fs h0 n" and fits: "fits h0 n" and st: "holds t0 k fs h0 n got (map_of bs k)"
    and sub: "mset (got @ [p]) \<subseteq># mset fs" and time: "t0 \<le> now" "now < t0 + from_secs 3"
  shows "if mset (got @ [p]) = mset fs
    then \<exists>bs'. step now p bs = Some (bs', Forward (finish h0 n @ concat (map (snd \<circ> piece) fs)))
    else \<exists>bs'. step now p bs = Some (bs', Buffered) \<and> holds t0 k fs h0 n (got @ [p]) (map_of bs' k)"
proof -
  have "p \<in># mset fs" using sub by (rule mset_subset_eqD) simp
  then have p: "p \<in> set fs" by simp
  then obtain off mf pl h where v: "view p = Some (k, off, mf, pl, h)"
    using frag by (auto simp: fragmented_def has_key_def)
  define e where "e = entry_or_new now k bs"
  note e = entry_holds [OF st time e_def]
  define b where "b = add_piece h off mf pl e"
  have hb: "holds t0 k fs h0 n (got @ [p]) (Some b)"
    unfolding b_def by (rule added_holds [OF frag p v e(1-4)])
  then have pb: "fb_pieces b = map piece (got @ [p])" by (simp add: holds_def)
  have sep: "separate (fb_pieces b)" unfolding pb by (rule separate_sub [OF frag sub])
  then have free: "\<not> overlaps off pl e"
    unfolding pb by (fastforce simp: separate_def sorted_wrt_append overlaps_def e(1) list_ex_iff apart_def
        piece_def v)
  have cont: "contiguous_end 0 (map piece fs) = Some n" "filled (map piece fs)"
    using frag by (simp_all add: fragmented_def)
  show ?thesis
  proof (cases "mset (got @ [p]) = mset fs")
    case True
    then have all: "sort_key fst (fb_pieces b) = map piece fs"
      unfolding pb by (intro sort_pieces_all [OF cont]) (simp only: mset_map)
    have "set (got @ [p]) = set fs" using True by (rule mset_eq_setD)
    then have "fb_header b = Some h0" "fb_expected b = Some n"
      using hb frag by (auto simp: holds_def fragmented_def)
    then have "\<exists>bs'. step now p bs = Some (bs', Forward (finish h0 n @ concat (map snd (sort_key fst (fb_pieces b)))))"
      using cont(1) all by (intro completes [OF v e(5) free [unfolded e_def] b_def [unfolded e_def] sep _ _ _ fits]) simp_all
    then show ?thesis unfolding all map_map using True by simp
  next
    case missing: False
    have "fb_expected b = None \<or> contiguous_end 0 (sort_key fst (fb_pieces b)) = None"
    proof (cases "last fs \<in> set (got @ [p])")
      case True
      then have "last (map piece fs) \<in> set (map piece (got @ [p]))"
        using frag by (auto simp: fragmented_def last_map)
      moreover have "mset (map piece (got @ [p])) \<subset># mset (map piece fs)"
        unfolding mset_map by (rule image_mset_subset_mono [OF subset_mset.le_neq_trans [OF sub missing]])
      ultimately have "contiguous_end 0 (sort_key fst (map piece (got @ [p]))) = None"
        by (intro sort_pieces_gap [OF cont])
      then show ?thesis unfolding pb ..
    next
      case False
      then show ?thesis using hb by (simp add: holds_def)
    qed
    with keeps [OF v e(5) free [unfolded e_def] b_def [unfolded e_def] sep] missing hb show ?thesis by auto
  qed
qed

lemma run_reassembles:
  assumes frag: "fragmented k fs h0 n" "fits h0 n" and st: "rem \<noteq> [] \<longrightarrow> holds t0 k fs h0 n got (map_of bs k)"
    and all: "mset (got @ rem) = mset fs" and rem: "rem = filter (has_key view k) (map snd tr)"
    and time: "\<forall>(t, p) \<in> set tr. t0 \<le> t \<and> t < t0 + from_secs 3"
    and run: "reassemble_run step tr bs = Some outs"
  shows "map snd (filter (has_key view k \<circ> fst) outs) = (if rem = [] then [] else
    replicate (length rem - 1) Buffered @ [Forward (finish h0 n @ concat (map (snd \<circ> piece) fs))])"
  using st all rem time run
proof (induction tr arbitrary: bs got rem outs)
  case (Cons tp tr)
  obtain t p where tp: "tp = (t, p)" by (cases tp)
  from Cons.prems(5) obtain bs' out outs' where st': "step t p bs = Some (bs', out)"
    and run': "reassemble_run step tr bs' = Some outs'" and outs: "outs = (p, out) # outs'"
    by (auto simp: tp split: option.splits)
  have time: "t0 \<le> t" "t < t0 + from_secs 3" using Cons.prems(4) by (simp_all add: tp)
  show ?case
  proof (cases "has_key view k p")
    case False
    have "map_of bs' k = map_of bs k" if "rem \<noteq> []"
      using other [OF False entry_holds(5) [OF Cons.prems(1) [rule_format, OF that] time refl] st'] .
    with Cons.IH [of rem got bs' outs'] Cons.prems False run' show ?thesis by (simp add: tp outs)
  next
    case True
    let ?rem = "filter (has_key view k) (map snd tr)"
    have rem: "rem = p # ?rem" using Cons.prems(3) True by (simp add: tp)
    have sub: "mset (got @ [p]) \<subseteq># mset fs" using Cons.prems(2) rem
      by (metis mset_append append.assoc append_Cons append_Nil mset_subset_eq_add_left)
    have full: "mset (got @ [p]) = mset fs \<longleftrightarrow> ?rem = []"
    proof -
      have "mset fs = mset (got @ [p]) + mset ?rem" using Cons.prems(2) rem by simp
      then show ?thesis by (metis add.right_neutral add_left_cancel mset_zero_iff)
    qed
    note s = step_fragment [OF frag Cons.prems(1) [rule_format] sub time]
    have "?rem \<noteq> [] \<longrightarrow> holds t0 k fs h0 n (got @ [p]) (map_of bs' k)" and
      out: "out = (if ?rem = [] then Forward (finish h0 n @ concat (map (snd \<circ> piece) fs)) else Buffered)"
      using s st' full rem by auto
    with Cons.IH [of ?rem "got @ [p]" bs' outs'] Cons.prems rem run' True show ?thesis
      by (cases ?rem) (auto simp: tp outs)
  qed
qed simp

end


section \<open>The three reassemblers meet the contract\<close>

lemma map_of_evict_old: "young now k bs \<Longrightarrow> map_of (evict_old now bs) k = map_of bs k"
proof -
  assume "young now k bs"
  then have "map_of (filter (\<lambda>(k, b). now - fb_created b < from_secs 3) bs) k = map_of bs k"
    by (induction bs) (auto simp: young_def split: if_splits)
  then show ?thesis by (simp add: evict_old_def)
qed

lemma entry_evict_old: "young now k bs \<Longrightarrow> entry_or_new now k (evict_old now bs) = entry_or_new now k bs"
  by (simp add: entry_or_new_def map_of_evict_old)

lemmas slot_simps = map_of_evict_old entry_evict_old AList.update_conv' AList.delete_conv'

text \<open>A sorted list of separate pieces has a gap in the one sense iff in the other.\<close>

lemma covered_contiguous:
  assumes "sorted_wrt (\<lambda>p q. fst p + length (snd p) \<le> fst q) ps" and "\<forall>p \<in> set ps. c \<le> fst p"
  shows "covered_end c ps = contiguous_end c ps"
  using assms by (induction c ps rule: contiguous_end.induct) auto

lemma separate_permute: "mset ps = mset qs \<Longrightarrow> separate ps \<Longrightarrow> separate qs"
proof (induction ps arbitrary: qs)
  case (Cons p ps)
  have "p \<in> set qs" using Cons.prems(1) by (metis list.set_intros(1) mset_eq_setD)
  then obtain a b where qs: "qs = a @ p # b" by (metis split_list)
  then have rest: "mset ps = mset (a @ b)" using Cons.prems(1) by simp
  then have sep: "separate (a @ b)" using Cons.IH [OF rest] Cons.prems(2) by (simp add: separate_def filled_def)
  have "\<forall>q \<in> set (a @ b). apart p q \<and> apart q p"
    using Cons.prems(2) mset_eq_setD [OF rest] apart_sym by (auto simp: separate_def)
  with sep Cons.prems(2) show ?case by (auto simp: qs separate_def filled_def sorted_wrt_append)
qed simp

lemma covered_sorted: "separate ps \<Longrightarrow> covered_end 0 (sort_key fst ps) = contiguous_end 0 (sort_key fst ps)"
proof (rule covered_contiguous)
  assume sep: "separate ps"
  let ?s = "sort_key fst ps"
  have s: "separate ?s" by (rule separate_permute [OF _ sep]) simp
  have "sorted_wrt (\<lambda>p q. fst p \<le> fst q) ?s" by (metis sorted_map sorted_sort_key)
  with s have both: "sorted_wrt (\<lambda>p q. fst p \<le> fst q \<and> apart p q) ?s"
    by (simp add: separate_def sorted_wrt_iff_nth_less)
  show "sorted_wrt (\<lambda>p q. fst p + length (snd p) \<le> fst q) ?s"
  proof (rule sorted_wrt_mono_rel [OF _ both])
    fix p q assume "q \<in> set ?s" and pq: "fst p \<le> fst q \<and> apart p q"
    then have "0 < length (snd q)" using s by (auto simp: separate_def filled_def)
    with pq show "fst p + length (snd p) \<le> fst q" unfolding apart_def by linarith
  qed
qed simp

definition step_outbound_v4 ::
    "Instant \<Rightarrow> bytes \<Rightarrow> bytes frag_buffers \<Rightarrow> (bytes frag_buffers \<times> FragmentReassemblyOutcome) option" where
  "step_outbound_v4 now p bs = Some (reassemble_outbound_ip_fragment now p bs)"

definition view_v4 :: "bytes frag_view" where
  "view_v4 p =
    (case ipv4_fragment_info p of
       None \<Rightarrow> None
     | Some f \<Rightarrow>
        if 20 \<le> ihl_of p \<and> ihl_of p \<le> length p \<and> drop (ihl_of p) p \<noteq> []
          \<and> (frag_mf f \<longrightarrow> length (drop (ihl_of p) p) mod 8 = 0)
        then Some (v4_key p (frag_identification f), frag_offset_bytes f, frag_mf f, drop (ihl_of p) p,
               take (ihl_of p) p)
        else None)"

definition fits_v4 :: "bytes \<Rightarrow> nat \<Rightarrow> bool" where
  "fits_v4 h n \<longleftrightarrow> length h + n \<le> u16_max"

interpretation out4: reassembler step_outbound_v4 view_v4 finish_v4 fits_v4
proof unfold_locales
  fix k p now bs bs' out
  assume "\<not> has_key view_v4 k p" "young now k bs" "step_outbound_v4 now p bs = Some (bs', out)"
  then show "map_of bs' k = map_of bs k"
    by (auto simp: step_outbound_v4_def reassemble_outbound_ip_fragment_def has_key_def view_v4_def Let_def
        slot_simps split: option.splits if_splits)
next
  fix p k off mf pl h now bs b
  assume "view_v4 p = Some (k, off, mf, pl, h)" "young now k bs" "\<not> overlaps off pl (entry_or_new now k bs)"
    "b = add_piece h off mf pl (entry_or_new now k bs)"
    "fb_expected b = None \<or> fb_header b = None \<or> contiguous_end 0 (sort_key fst (fb_pieces b)) = None"
  then show "\<exists>bs'. step_outbound_v4 now p bs = Some (bs', Buffered) \<and> map_of bs' k = Some b"
    by (auto simp: step_outbound_v4_def reassemble_outbound_ip_fragment_def view_v4_def Let_def
        slot_simps split: option.splits if_splits)
next
  fix p k off mf pl h now bs b n h0
  assume "view_v4 p = Some (k, off, mf, pl, h)" "young now k bs" "\<not> overlaps off pl (entry_or_new now k bs)"
    "b = add_piece h off mf pl (entry_or_new now k bs)" "fb_expected b = Some n" "fb_header b = Some h0"
    "contiguous_end 0 (sort_key fst (fb_pieces b)) = Some n" "fits_v4 h0 n"
  then show "\<exists>bs'. step_outbound_v4 now p bs
      = Some (bs', Forward (finish_v4 h0 n @ concat (map snd (sort_key fst (fb_pieces b)))))"
    by (auto simp: step_outbound_v4_def reassemble_outbound_ip_fragment_def view_v4_def Let_def fits_v4_def
        slot_simps split: option.splits if_splits)
qed


definition step_outbound_v6 ::
    "Instant \<Rightarrow> bytes \<Rightarrow> (bytes \<times> u8) frag_buffers \<Rightarrow> ((bytes \<times> u8) frag_buffers \<times> FragmentReassemblyOutcome) option" where
  "step_outbound_v6 now p bs = Some (reassemble_outbound_ipv6_fragment now p bs)"

definition view_v6 :: "(bytes \<times> u8) frag_view" where
  "view_v6 p =
    (if ip_nibble p = Some 6 \<and> 48 \<le> length p \<and> p ! 6 = 44 \<and> 40 + unat (be16_at p 4) \<le> length p
       \<and> 48 \<le> 40 + unat (be16_at p 4)
     then Some (v6_key p, v6_offset p, v6_more p, slice_of p 48 (40 + unat (be16_at p 4)), (take 40 p, p ! 40))
     else None)"

definition fits_v6 :: "bytes \<times> u8 \<Rightarrow> nat \<Rightarrow> bool" where
  "fits_v6 h n \<longleftrightarrow> n \<le> u16_max"

interpretation out6: reassembler step_outbound_v6 view_v6 finish_v6 fits_v6
proof unfold_locales
  fix k p now bs bs' out
  assume "\<not> has_key view_v6 k p" "young now k bs" "step_outbound_v6 now p bs = Some (bs', out)"
  then show "map_of bs' k = map_of bs k"
    by (auto simp: step_outbound_v6_def reassemble_outbound_ipv6_fragment_def has_key_def view_v6_def Let_def
        slot_simps split: option.splits if_splits)
next
  fix p k off mf pl h now bs b
  assume "view_v6 p = Some (k, off, mf, pl, h)" "young now k bs" "\<not> overlaps off pl (entry_or_new now k bs)"
    "b = add_piece h off mf pl (entry_or_new now k bs)"
    "fb_expected b = None \<or> fb_header b = None \<or> contiguous_end 0 (sort_key fst (fb_pieces b)) = None"
  then show "\<exists>bs'. step_outbound_v6 now p bs = Some (bs', Buffered) \<and> map_of bs' k = Some b"
    by (auto simp: step_outbound_v6_def reassemble_outbound_ipv6_fragment_def view_v6_def Let_def
        slot_simps split: option.splits if_splits)
next
  fix p k off mf pl h now bs b n h0
  assume "view_v6 p = Some (k, off, mf, pl, h)" "young now k bs" "\<not> overlaps off pl (entry_or_new now k bs)"
    "b = add_piece h off mf pl (entry_or_new now k bs)" "fb_expected b = Some n" "fb_header b = Some h0"
    "contiguous_end 0 (sort_key fst (fb_pieces b)) = Some n" "fits_v6 h0 n"
  then show "\<exists>bs'. step_outbound_v6 now p bs
      = Some (bs', Forward (finish_v6 h0 n @ concat (map snd (sort_key fst (fb_pieces b)))))"
    by (auto simp: step_outbound_v6_def reassemble_outbound_ipv6_fragment_def view_v6_def Let_def fits_v6_def
        slot_simps split: option.splits if_splits)
qed

definition view_inbound :: "bytes frag_view" where
  "view_inbound p =
    (case inbound_fragment_info p of
       Some (Some i) \<Rightarrow> Some (in_key i, in_offset_bytes i, in_more i, in_payload i, in_base_header i)
     | _ \<Rightarrow> None)"

text \<open>A header the code can complete: a whole IPv4 header, or the base header of IPv6.\<close>

definition finish_in :: "bytes \<Rightarrow> nat \<Rightarrow> bytes" where
  "finish_in h n = the (the (finish_inbound h n))"

definition fits_in :: "bytes \<Rightarrow> nat \<Rightarrow> bool" where
  "fits_in h n \<longleftrightarrow> (\<exists>r. finish_inbound h n = Some (Some r))"

lemma no_first_piece:
  assumes "\<not> overlaps off pl b" and "separate (fb_pieces (add_piece h off mf pl b))"
  shows "drop_first_piece off b = b"
proof (cases "off = 0")
  case True
  have ne: "filled (fb_pieces b)" "pl \<noteq> []"
    using assms(2) by (auto simp: separate_def filled_def add_piece_def Let_def split: if_splits)
  have "fst p \<noteq> 0" if "p \<in> set (fb_pieces b)" for p
    using assms(1) ne that True by (cases p) (fastforce simp: overlaps_def list_ex_iff filled_def)
  then have "filter (\<lambda>(o', p). o' \<noteq> 0) (fb_pieces b) = fb_pieces b"
    by (auto simp: filter_id_conv)
  then show ?thesis by (simp add: drop_first_piece_def)
qed (simp add: drop_first_piece_def)


interpretation inb: reassembler reassemble_inbound_ip_fragment view_inbound finish_in fits_in
proof unfold_locales
  fix k p now bs bs' out
  assume "\<not> has_key view_inbound k p" "young now k bs" "reassemble_inbound_ip_fragment now p bs = Some (bs', out)"
  then show "map_of bs' k = map_of bs k"
    by (auto simp: reassemble_inbound_ip_fragment_def has_key_def view_inbound_def Let_def
        slot_simps split: option.splits if_splits)
next
  fix p k off mf pl h now bs b
  assume v: "view_inbound p = Some (k, off, mf, pl, h)" and y: "young now k bs"
    and free: "\<not> overlaps off pl (entry_or_new now k bs)"
    and b: "b = add_piece h off mf pl (entry_or_new now k bs)" and sep: "separate (fb_pieces b)"
    and gap: "fb_expected b = None \<or> fb_header b = None \<or> contiguous_end 0 (sort_key fst (fb_pieces b)) = None"
  obtain i where i: "inbound_fragment_info p = Some (Some i)" "in_key i = k" "in_offset_bytes i = off"
      "in_more i = mf" "in_payload i = pl" "in_base_header i = h"
    using v by (auto simp: view_inbound_def split: option.splits)
  have e: "drop_first_piece off (entry_or_new now k bs) = entry_or_new now k bs"
    by (rule no_first_piece [OF free sep [unfolded b]])
  have "covered_end 0 (sort_key fst (fb_pieces b)) = None \<or> fb_expected b = None \<or> fb_header b = None"
    using gap covered_sorted [OF sep] by auto
  then show "\<exists>bs'. reassemble_inbound_ip_fragment now p bs = Some (bs', Buffered) \<and> map_of bs' k = Some b"
    using y free by (auto simp: reassemble_inbound_ip_fragment_def i Let_def slot_simps e b [symmetric]
        split: option.splits)
next
  fix p k off mf pl h now bs b n h0
  assume v: "view_inbound p = Some (k, off, mf, pl, h)" and y: "young now k bs"
    and free: "\<not> overlaps off pl (entry_or_new now k bs)"
    and b: "b = add_piece h off mf pl (entry_or_new now k bs)" and sep: "separate (fb_pieces b)"
    and full: "fb_expected b = Some n" "fb_header b = Some h0"
      "contiguous_end 0 (sort_key fst (fb_pieces b)) = Some n" "fits_in h0 n"
  obtain i where i: "inbound_fragment_info p = Some (Some i)" "in_key i = k" "in_offset_bytes i = off"
      "in_more i = mf" "in_payload i = pl" "in_base_header i = h"
    using v by (auto simp: view_inbound_def split: option.splits)
  have e: "drop_first_piece off (entry_or_new now k bs) = entry_or_new now k bs"
    by (rule no_first_piece [OF free sep [unfolded b]])
  have "covered_end 0 (sort_key fst (fb_pieces b)) = Some n" using full(3) covered_sorted [OF sep] by simp
  then show "\<exists>bs'. reassemble_inbound_ip_fragment now p bs
      = Some (bs', Forward (finish_in h0 n @ concat (map snd (sort_key fst (fb_pieces b)))))"
    using y free full by (auto simp: reassemble_inbound_ip_fragment_def i Let_def slot_simps e b [symmetric]
        fits_in_def finish_in_def)
qed


end
