(* ===== verification/Ip_Fragmenter.thy ===== *)
theory Ip_Fragmenter
  imports Ip_Fragment
begin

text \<open>
  Software fragmentation of oversized inner packets before the outer tunnel
  (\<open>fragment_inner_packet\<close> of \<open>vowifi/tun_gateway.rs\<close>), and its round trip through the reassemblers.
\<close>

definition OUTER_TUNNEL_INNER_IP_MAX :: nat where "OUTER_TUNNEL_INNER_IP_MAX = 1356"

text \<open>The offsets and ends the loops step through; they run with a positive chunk only.\<close>

function fragment_ranges :: "nat \<Rightarrow> nat \<Rightarrow> nat \<Rightarrow> (nat \<times> nat) list" where
  "fragment_ranges chunk offset len =
    (let e = min (offset + chunk) len
     in (offset, e) # (if e = len \<or> chunk = 0 then [] else fragment_ranges chunk e len))"
  by auto
termination by (relation "measure (\<lambda>(chunk, offset, len). len - offset)") auto

declare fragment_ranges.simps [simp del]

definition v4_fragment :: "bytes \<Rightarrow> nat \<Rightarrow> bytes \<Rightarrow> nat \<times> nat \<Rightarrow> bytes" where
  "v4_fragment packet ihl payload = (\<lambda>(offset, e).
    let id = be16_at packet 4;
        flags_offset = word_of_nat (offset div 8) OR (if e = length payload then 0 else 0x2000)
    in with_checksum (put (put (put (take ihl packet) 2 (u16_be (word_of_nat (ihl + e - offset)))) 4 (u16_be id)) 6
           (u16_be flags_offset))
       @ slice_of payload offset e)"

definition fragment_ipv4_packet :: "bytes \<Rightarrow> nat \<Rightarrow> bytes list" where
  "fragment_ipv4_packet packet max_ip_bytes =
    (let ihl = ihl_of packet
     in if ihl < 20 \<or> length packet < ihl then [packet]
        else
          let payload = drop ihl packet; chunk = (max_ip_bytes - ihl) div 8 * 8
          in if chunk = 0 then [packet]
             else map (v4_fragment packet ihl payload) (fragment_ranges chunk 0 (length payload)))"

definition v6_fragment :: "bytes \<Rightarrow> u32 \<Rightarrow> bytes \<Rightarrow> nat \<times> nat \<Rightarrow> bytes" where
  "v6_fragment packet identification payload = (\<lambda>(offset, e).
    let offset_m = push_bit 3 (word_of_nat (offset div 8)) OR (if e = length payload then 0 else 1)
    in put (put (take 40 packet) 4 (u16_be (word_of_nat (8 + e - offset)))) 6 [44]
       @ [packet ! 6, 0] @ u16_be offset_m @ u32_be identification
       @ slice_of payload offset e)"

text \<open>The process-wide identification counter is passed along.\<close>

definition fragment_ipv6_packet :: "u32 \<Rightarrow> bytes \<Rightarrow> nat \<Rightarrow> u32 \<times> bytes list" where
  "fragment_ipv6_packet next_id packet max_ip_bytes =
    (if length packet < 40 then (next_id, [packet])
     else
       let payload = drop 40 packet; chunk = (max_ip_bytes - 48) div 8 * 8
       in if chunk = 0 then (next_id, [packet])
          else (next_id + 1, map (v6_fragment packet next_id payload) (fragment_ranges chunk 0 (length payload))))"

definition fragment_inner_packet :: "u32 \<Rightarrow> bytes \<Rightarrow> nat \<Rightarrow> u32 \<times> bytes list" where
  "fragment_inner_packet next_id packet max_ip_bytes =
    (if length packet \<le> max_ip_bytes then (next_id, [packet])
     else if ip_nibble packet = Some 4 then (next_id, fragment_ipv4_packet packet max_ip_bytes)
     else if ip_nibble packet = Some 6 then fragment_ipv6_packet next_id packet max_ip_bytes
     else (next_id, [packet]))"

section \<open>The ranges\<close>

lemma fragment_ranges_ne [simp]: "fragment_ranges chunk offset len \<noteq> []"
  by (subst fragment_ranges.simps) (simp add: Let_def)

lemma fragment_ranges_hd: "hd (fragment_ranges chunk offset len) = (offset, min (offset + chunk) len)"
  by (subst fragment_ranges.simps) (simp add: Let_def)

lemma fragment_ranges_facts:
  assumes "0 < chunk" and "offset < len" and "r \<in> set (fragment_ranges chunk offset len)"
  shows "offset \<le> fst r \<and> fst r < snd r \<and> snd r \<le> len \<and> snd r - fst r \<le> chunk
    \<and> (fst r - offset) mod chunk = 0 \<and> (snd r = len \<or> snd r - fst r = chunk) \<and> (snd r = len \<longleftrightarrow> r = last (fragment_ranges chunk offset len))"
  using assms
proof (induction chunk offset len arbitrary: r rule: fragment_ranges.induct)
  case (1 chunk offset len)
  show ?case
  proof (cases "len \<le> offset + chunk")
    case True
    then have "fragment_ranges chunk offset len = [(offset, len)]"
      by (subst fragment_ranges.simps) (simp add: Let_def min_def)
    with True 1 show ?thesis by auto
  next
    case False
    then have unfold: "fragment_ranges chunk offset len = (offset, offset + chunk) # fragment_ranges chunk (offset + chunk) len"
      using 1 by (subst fragment_ranges.simps) (simp add: Let_def min_def)
    have last: "last (fragment_ranges chunk offset len) = last (fragment_ranges chunk (offset + chunk) len)"
      by (simp add: unfold)
    let ?rest = "fragment_ranges chunk (offset + chunk) len"
    have IH: "offset + chunk \<le> fst r \<and> fst r < snd r \<and> snd r \<le> len \<and> snd r - fst r \<le> chunk
        \<and> (fst r - (offset + chunk)) mod chunk = 0 \<and> (snd r = len \<or> snd r - fst r = chunk) \<and> (snd r = len \<longleftrightarrow> r = last ?rest)" if "r \<in> set ?rest" for r
      using "1.IH" [of "offset + chunk" r] 1 False that by (simp add: min_def)
    from 1 consider "r = (offset, offset + chunk)" | "r \<in> set ?rest" by (auto simp: unfold)
    then show ?thesis
    proof cases
      case 1
      moreover have "last ?rest \<noteq> (offset, offset + chunk)"
        using IH [of "last ?rest"] "1.prems"(1) by auto
      ultimately show ?thesis using False "1.prems"(1) by (simp add: last)
    next
      case 2
      have "fst r - offset = fst r - (offset + chunk) + chunk" using IH [OF 2] by linarith
      then have "(fst r - offset) mod chunk = (fst r - (offset + chunk)) mod chunk" by simp
      with IH [OF 2] show ?thesis unfolding last by auto
    qed
  qed
qed

abbreviation range_piece :: "bytes \<Rightarrow> nat \<times> nat \<Rightarrow> nat \<times> bytes" where
  "range_piece payload r \<equiv> (fst r, slice_of payload (fst r) (snd r))"

lemma fragment_ranges_cover:
  assumes "0 < chunk" and "offset < len" and "len = length payload"
  shows "contiguous_end offset (map (range_piece payload) (fragment_ranges chunk offset len)) = Some len
    \<and> concat (map (\<lambda>r. slice_of payload (fst r) (snd r)) (fragment_ranges chunk offset len)) = drop offset payload"
  using assms
proof (induction chunk offset len rule: fragment_ranges.induct)
  case (1 chunk offset len)
  show ?case
  proof (cases "len \<le> offset + chunk")
    case True
    then have "fragment_ranges chunk offset len = [(offset, len)]"
      by (subst fragment_ranges.simps) (simp add: Let_def min_def)
    with 1 show ?thesis by (simp add: slice_of_def)
  next
    case False
    then have unfold: "fragment_ranges chunk offset len = (offset, offset + chunk) # fragment_ranges chunk (offset + chunk) len"
      using 1 by (subst fragment_ranges.simps) (simp add: Let_def min_def)
    have "slice_of payload offset (offset + chunk) @ drop (offset + chunk) payload = drop offset payload"
      by (metis add.commute append_take_drop_id diff_add_inverse drop_drop slice_of_def)
    with 1 False show ?thesis unfolding unfold by (simp add: min_def)
  qed
qed

text \<open>Whatever a fragmenter puts around the ranges of a payload, a reassembler that sees each range under
  one key delivers the payload behind the header it finishes.\<close>

context reassembler
begin

lemma ranges_fragmented:
  assumes rs: "rs = fragment_ranges chunk 0 (length payload)" and pos: "0 < chunk" "0 < length payload"
    and v: "\<And>r. r \<in> set rs \<Longrightarrow> view (frag r)
      = Some (k, fst r, snd r \<noteq> length payload, slice_of payload (fst r) (snd r), hdr r)"
  shows "fragmented k (map frag rs) (hdr (hd rs)) (length payload)"
    and "concat (map (snd \<circ> piece) (map frag rs)) = payload"
proof -
  have ne: "rs \<noteq> []" by (simp add: rs)
  note facts = fragment_ranges_facts [OF pos, folded rs]
  have piece: "piece (frag r) = range_piece payload r" if "r \<in> set rs" for r
    using v [OF that] by (simp add: piece_def)
  then have pieces: "map piece (map frag rs) = map (range_piece payload) rs" by simp
  have last: "last_one (frag r) \<longleftrightarrow> r = last rs" if "r \<in> set rs" for r
    using v [OF that] facts [OF that] by (cases k) (simp add: last_one_def)
  have "filled (map (range_piece payload) rs)"
    using facts by (fastforce simp: filled_def slice_of_def)
  moreover have "has_key view k (frag r)" if "r \<in> set rs" for r
    using v [OF that] by (cases k) (simp add: has_key_def)
  moreover have "last_one (frag r) \<longleftrightarrow> frag r = last (map frag rs)" if "r \<in> set rs" for r
    using last [OF that] last [of "last rs"] ne by (auto simp: last_map)
  moreover have "contiguous_end 0 (map (range_piece payload) rs) = Some (length payload)"
    using fragment_ranges_cover [OF pos refl] by (simp add: rs)
  moreover have "h = hdr (hd rs)" if "view (hd (map frag rs)) = Some (k', off, mf, pl, h)" for k' off mf pl h
    using that v [of "hd rs"] ne by (simp add: hd_map)
  ultimately show "fragmented k (map frag rs) (hdr (hd rs)) (length payload)"
    unfolding fragmented_def pieces using ne by (auto simp: hd_map)
  have "map (snd \<circ> piece) (map frag rs) = map (\<lambda>r. slice_of payload (fst r) (snd r)) rs"
    by (simp add: piece)
  then show "concat (map (snd \<circ> piece) (map frag rs)) = payload"
    using fragment_ranges_cover [OF pos refl] by (simp only: rs) simp
qed

lemma delivered:
  assumes frag: "fragmented k fs h0 n" and fits: "fits h0 n" and fresh: "map_of bs k = None"
    and all: "mset (filter (has_key view k) (map snd tr)) = mset fs"
    and time: "\<forall>(t, p) \<in> set tr. t0 \<le> t \<and> t < t0 + from_secs 3"
    and run: "reassemble_run step tr bs = Some outs"
  shows "map snd (filter (has_key view k \<circ> fst) outs)
    = replicate (length fs - 1) Buffered @ [Forward (finish h0 n @ concat (map (snd \<circ> piece) fs))]"
proof -
  define rem where "rem = filter (has_key view k) (map snd tr)"
  have len: "length rem = length fs" unfolding rem_def using all by (metis size_mset)
  moreover have "fs \<noteq> []" using frag by (simp add: fragmented_def)
  ultimately have "rem \<noteq> []" by auto
  have "mset ([] @ rem) = mset fs" using all by (simp add: rem_def)
  moreover have "holds t0 k fs h0 n [] (map_of bs k)" using fresh by (simp add: holds_def)
  ultimately show ?thesis
    using run_reassembles [OF frag fits _ _ rem_def time run, of "[]"] \<open>rem \<noteq> []\<close> len by simp
qed

text \<open>Fragments alone never panic the reassembler.\<close>

lemma run_total:
  assumes frag: "fragmented k fs h0 n" "fits h0 n"
    and st: "tr \<noteq> [] \<longrightarrow> holds t0 k fs h0 n got (map_of bs k)" and all: "mset (got @ map snd tr) = mset fs"
    and time: "\<forall>(t, p) \<in> set tr. t0 \<le> t \<and> t < t0 + from_secs 3"
  shows "\<exists>outs. reassemble_run step tr bs = Some outs"
  using st all time
proof (induction tr arbitrary: bs got)
  case (Cons tp tr)
  obtain t p where tp: "tp = (t, p)" by (cases tp)
  have sub: "mset (got @ [p]) \<subseteq># mset fs" using Cons.prems(2)
    by (simp add: tp flip: Cons.prems(2))
  have time: "t0 \<le> t" "t < t0 + from_secs 3" using Cons.prems(3) by (simp_all add: tp)
  have full: "mset (got @ [p]) = mset fs \<longleftrightarrow> tr = []" by (simp add: tp flip: Cons.prems(2))
  have st: "holds t0 k fs h0 n got (map_of bs k)" using Cons.prems(1) by simp
  obtain bs' out where step: "step t p bs = Some (bs', out)" and
    next_st: "tr \<noteq> [] \<longrightarrow> holds t0 k fs h0 n (got @ [p]) (map_of bs' k)"
    using step_fragment [OF frag st sub time] full by (auto split: if_splits)
  have "\<exists>outs. reassemble_run step tr bs' = Some outs"
    using Cons.IH [OF next_st] Cons.prems(2,3) by (simp add: tp)
  then show ?case by (auto simp: tp step)
qed simp

end

section \<open>Offset and flag fields\<close>

lemma bit_small: "n < 8192 \<Longrightarrow> bit (n :: nat) i \<Longrightarrow> i < 13"
proof -
  assume "n < 8192" and i: "bit n i"
  then have "take_bit 13 n = n" by (simp add: take_bit_nat_eq_self)
  with i show "i < 13" by (metis bit_take_bit_iff)
qed

lemma bit_0x2000: "bit (0x2000 :: u16) i \<longleftrightarrow> i = 13"
proof -
  have "(0x2000 :: u16) = 2 ^ 13" by simp
  then show ?thesis by (simp only: bit_exp_iff) (auto simp: possible_bit_def)
qed

lemma mask_13: "(0x1fff :: u16) = mask 13"
  by (simp add: mask_eq_exp_minus_1)

lemma v4_flags:
  assumes "n < 8192"
  shows "(word_of_nat n OR (if l then 0 else 0x2000) :: u16) AND 0x1fff = word_of_nat n"
    and "(word_of_nat n OR (if l then 0 else 0x2000) :: u16) AND 0x2000 \<noteq> 0 \<longleftrightarrow> \<not> l"
proof -
  note low = bit_small [OF assms]
  show "(word_of_nat n OR (if l then 0 else 0x2000) :: u16) AND 0x1fff = word_of_nat n"
    unfolding mask_13
    by (rule bit_word_eqI, cases l)
       (simp_all only: if_True if_False bit_and_iff bit_or_iff bit_mask_iff bit_0x2000 bit_0_eq,
        auto simp: bit_simps dest: low)
  have "bit (word_of_nat n OR (if l then 0 else 0x2000) :: u16) 13 \<longleftrightarrow> \<not> l"
    using low [of 13] by (cases l) (simp_all only: if_True if_False bit_or_iff bit_0x2000, auto simp: bit_simps)
  moreover have "w AND 0x2000 \<noteq> 0 \<longleftrightarrow> bit w 13" for w :: u16
    using and_exp_eq_0_iff_not_bit [of w 13] by simp
  ultimately show "(word_of_nat n OR (if l then 0 else 0x2000) :: u16) AND 0x2000 \<noteq> 0 \<longleftrightarrow> \<not> l"
    by blast
qed

lemma v6_flags:
  assumes "n < 8192"
  shows "drop_bit 3 (push_bit 3 (word_of_nat n) OR (if l then 0 else 1) :: u16) = word_of_nat n"
    and "(push_bit 3 (word_of_nat n) OR (if l then 0 else 1) :: u16) AND 1 = (if l then 0 else 1)"
proof -
  note low = bit_small [OF assms]
  show "drop_bit 3 (push_bit 3 (word_of_nat n) OR (if l then 0 else 1) :: u16) = word_of_nat n"
    by (rule bit_word_eqI) (auto simp: bit_simps dest: low)
  show "(push_bit 3 (word_of_nat n) OR (if l then 0 else 1) :: u16) AND 1 = (if l then 0 else 1)"
    by (rule bit_word_eqI) (auto simp: bit_simps)
qed

lemma four_octets_of: "length bs = 4 \<Longrightarrow> [bs ! 0, bs ! 1, bs ! 2, bs ! 3] = bs"
  by (auto simp: list_eq_iff_nth_eq less_Suc_eq numeral_eq_Suc)

section \<open>IPv6 fragments as the reassemblers see them\<close>

lemma offset_units:
  assumes "off mod 8 = 0" and "off < 65536"
  shows "off div 8 < 8192" and "unat (word_of_nat (off div 8) :: u16) * 8 = off"
proof -
  show "off div 8 < 8192" using assms(2) by (intro less_mult_imp_div_less) simp
  then have "unat (word_of_nat (off div 8) :: u16) = off div 8" by simp
  then show "unat (word_of_nat (off div 8) :: u16) * 8 = off"
    using assms(1) by (metis add.right_neutral div_mult_mod_eq)
qed

lemma v6_fragment_fields:
  assumes p: "40 \<le> length packet" and r: "off \<le> e" "e \<le> length payload" "e - off \<le> 65527"
    and off: "off mod 8 = 0" "off < 65536" and f: "f = v6_fragment packet ident payload (off, e)"
  shows "length f = 48 + (e - off)" "ip_nibble f = ip_nibble packet" "f ! 6 = 44" "f ! 40 = packet ! 6"
    "unat (be16_at f 4) = 8 + (e - off)" "v6_key f = (V6 (slice_of packet 8 24), V6 (slice_of packet 24 40), ident)"
    "v6_offset f = off" "be16_at f 42 AND 1 = (if e = length payload then 0 else 1)"
    "drop 48 f = slice_of payload off e"
    "take 40 f = put (put (take 40 packet) 4 (u16_be (word_of_nat (8 + (e - off))))) 6 [44]"
proof -
  let ?x = "take 40 packet" and ?len = "word_of_nat (8 + (e - off)) :: u16"
  let ?om = "push_bit 3 (word_of_nat (off div 8)) OR (if e = length payload then 0 else 1) :: u16"
  define h where "h = put (put ?x 4 (u16_be ?len)) 6 [44]"
  have len: "8 + e - off = 8 + (e - off)" using r by simp
  have ff: "f = h @ [packet ! 6, 0] @ u16_be ?om @ u32_be ident @ slice_of payload off e"
    by (simp only: f v6_fragment_def h_def len prod.case Let_def append_assoc)
  have lx: "length ?x = 40" using p by simp
  have lh: "length h = 40" using lx by (simp add: h_def)
  show "length f = 48 + (e - off)" using lh r by (simp add: ff)
  show "take 40 f = h" "drop 48 f = slice_of payload off e" using lh by (simp_all add: ff)
  have nth: "f ! j = h ! j" if "j < 40" for j using lh that by (simp add: ff nth_append)
  have hx: "h ! j = packet ! j" if "j < 40" "j \<noteq> 4" "j \<noteq> 5" "j \<noteq> 6" for j
    using lx that by (auto simp: h_def nth_put)
  show "ip_nibble f = ip_nibble packet"
    using nth [of 0] hx [of 0] lh p by (auto simp: ip_nibble_nth ff)
  show "f ! 6 = 44" using nth [of 6] lx by (simp add: h_def nth_put)
  show "f ! 40 = packet ! 6" using lh by (simp add: ff nth_append)
  have "be16_at h 4 = ?len" using lx by (simp add: h_def be16_at_put be16_at_put_other)
  then have lenf: "be16_at f 4 = ?len" using nth by (simp add: be16_at_def)
  have "8 + (e - off) \<le> 65535" using r(3) by simp
  then show "unat (be16_at f 4) = 8 + (e - off)" unfolding lenf by (rule unat_u16_of_nat)
  have om: "be16_at f 42 = ?om"
    using lh two_octets [of "u16_be ?om"] by (simp add: be16_at_def ff nth_append)
  have "be32_at f 44 = u32_from_be (u32_be ident)"
    using lh four_octets_of [of "u32_be ident"] by (simp add: be32_at_def ff nth_append)
  then have "be32_at f 44 = ident" by simp
  moreover have "slice_of f 8 24 = slice_of packet 8 24" "slice_of f 24 40 = slice_of packet 24 40"
    using nth hx lh p by (auto simp: slice_of_def ff intro!: nth_equalityI simp: nth_append)
  ultimately show "v6_key f = (V6 (slice_of packet 8 24), V6 (slice_of packet 24 40), ident)"
    by (simp add: v6_key_def)
  note units = offset_units [OF off]
  show "v6_offset f = off" unfolding v6_offset_def om v6_flags(1) [OF units(1)] by (rule units(2))
  show "be16_at f 42 AND 1 = (if e = length payload then 0 else 1)"
    unfolding om by (rule v6_flags(2) [OF units(1)])
qed

text \<open>What the outbound reassembler sees of a fragment, and that it restores the base header.\<close>

lemma v6_fragment_view:
  assumes p: "40 \<le> length packet" "ip_nibble packet = Some 6" and r: "off < e" "e \<le> length payload" "e - off \<le> 65527"
    and off: "off mod 8 = 0" "off < 65536" and f: "f = v6_fragment packet ident payload (off, e)"
  shows "view_v6 f = Some ((V6 (slice_of packet 8 24), V6 (slice_of packet 24 40), ident), off, e \<noteq> length payload,
      slice_of payload off e, (take 40 f, packet ! 6))"
    and "view_inbound f = Some ((V6 (slice_of packet 8 24), V6 (slice_of packet 24 40), ident), off, e \<noteq> length payload,
      slice_of payload off e, put (take 40 f) 6 [packet ! 6])"
proof -
  have "off \<le> e" using r(1) by simp
  note ff = v6_fragment_fields [OF p(1) this r(2,3) off f]
  have "slice_of f 48 (48 + (e - off)) = slice_of payload off e"
    using ff(1,9) by (simp add: slice_of_def)
  with ff p(2) show "view_v6 f = Some ((V6 (slice_of packet 8 24), V6 (slice_of packet 24 40), ident), off,
      e \<noteq> length payload, slice_of payload off e, (take 40 f, packet ! 6))"
    by (simp add: view_v6_def v6_more_def)
  show "view_inbound f = Some ((V6 (slice_of packet 8 24), V6 (slice_of packet 24 40), ident), off,
      e \<noteq> length payload, slice_of payload off e, put (take 40 f) 6 [packet ! 6])"
    using ff p(2) by (simp add: view_inbound_def inbound_fragment_info_def)
qed

lemma v6_header_restored:
  assumes p: "40 \<le> length packet" "be16_at packet 4 = word_of_nat n" and r: "off \<le> e" "e \<le> length payload" "e - off \<le> 65527"
    and off: "off mod 8 = 0" "off < 65536" and f: "f = v6_fragment packet ident payload (off, e)"
  shows "finish_v6 (take 40 f, packet ! 6) n = take 40 packet"
    and "n \<le> u16_max \<Longrightarrow> ip_nibble packet = Some 6
      \<Longrightarrow> finish_inbound (put (take 40 f) 6 [packet ! 6]) n = Some (Some (take 40 packet))"
proof -
  note ff = v6_fragment_fields [OF p(1) r off f]
  have lx: "length (take 40 packet) = 40" using p by simp
  have field: "u16_be (word_of_nat n) = [packet ! 4, packet ! 5]"
    using p(2) by (simp add: be16_at_def be16.to_from_be flip: p(2))
  have restored: "put (put (take 40 f) 6 [packet ! 6]) 4 (u16_be (word_of_nat n)) = take 40 packet"
    unfolding ff(10) field using lx
    by (intro nth_equalityI) (auto simp: nth_put less_Suc_eq numeral_eq_Suc)
  then show "finish_v6 (take 40 f, packet ! 6) n = take 40 packet" by (simp add: finish_v6_def)
  have "put (take 40 f) 6 [packet ! 6] ! 0 = packet ! 0"
    unfolding ff(10) using lx by (simp add: nth_put)
  moreover have "length (put (take 40 f) 6 [packet ! 6]) = 40" using lx unfolding ff(10) by simp
  ultimately have nib: "ip_nibble (put (take 40 f) 6 [packet ! 6]) = ip_nibble packet"
    using p(1) by (auto simp: ip_nibble_nth)
  show "finish_inbound (put (take 40 f) 6 [packet ! 6]) n = Some (Some (take 40 packet))"
    if "n \<le> u16_max" and "ip_nibble packet = Some 6"
    using restored that by (simp add: finish_inbound_def nib)
qed


section \<open>IPv4 fragments as the reassemblers see them\<close>

lemma u32_ident: "u32_from_be [0, 0, a, b] = ucast (u16_from_be [a, b])"
proof -
  have "be_to_nat [0, 0, a, b] = be_to_nat [a, b]" by (simp add: be_to_nat_def)
  moreover have "be_to_nat [a, b] < 65536" using be_to_nat_bound [of "[a, b]"] by simp
  ultimately show ?thesis
    by (simp add: u32_from_be_def u16_from_be_def word_unat_eq_iff unsigned_ucast_eq take_bit_eq_mod unat_of_nat)
qed

lemma v4_fragment_fields:
  assumes p: "ihl = ihl_of packet" "20 \<le> ihl" "ihl \<le> length packet" "ihl \<le> 60"
    and r: "off \<le> e" "e \<le> length payload" and off: "off mod 8 = 0" "off < 65536"
    and f: "f = v4_fragment packet ihl payload (off, e)"
  shows "length f = ihl + (e - off)" "ip_nibble f = ip_nibble packet" "ihl_of f = ihl"
    "be16_at f 6 AND 0x2000 \<noteq> 0 \<longleftrightarrow> e \<noteq> length payload" "unat (be16_at f 6 AND 0x1fff) * 8 = off"
    "v4_key f (u32_from_be [0, 0, f ! 4, f ! 5])
      = (V4 (slice_of packet 12 16), V4 (slice_of packet 16 20), ucast (be16_at packet 4))"
    "drop ihl f = slice_of payload off e" "length (take ihl f) = ihl" "take ihl f ! 0 = packet ! 0"
    "finish_v4 (take ihl f) n
      = with_checksum (put (put (take ihl packet) 2 (u16_be (word_of_nat (ihl + n)))) 6 [0, 0])"
proof -
  let ?x = "take ihl packet" and ?len = "word_of_nat (ihl + e - off) :: u16"
  let ?fo = "word_of_nat (off div 8) OR (if e = length payload then 0 else 0x2000) :: u16"
  define g where "g = put (put (put ?x 2 (u16_be ?len)) 4 (u16_be (be16_at packet 4))) 6 (u16_be ?fo)"
  define h where "h = with_checksum g"
  have ff: "f = h @ slice_of payload off e"
    by (simp only: f v4_fragment_def h_def g_def prod.case Let_def)
  have lx: "length ?x = ihl" using p by simp
  have lg: "length g = ihl" using lx p by (simp add: g_def)
  have lh: "length h = ihl" using lg p by (simp add: h_def)
  show lf: "length f = ihl + (e - off)" using lh r by (simp add: ff)
  show tk: "length (take ihl f) = ihl" "drop ihl f = slice_of payload off e" using lh by (simp_all add: ff)
  have nth: "f ! j = g ! j" if "j < ihl" "j \<noteq> 10" "j \<noteq> 11" for j
    using lh lg p that by (simp add: ff nth_append h_def nth_with_checksum)
  have gx: "g ! j = packet ! j" if "j < ihl" "j \<noteq> 2" "j \<noteq> 3" "j \<noteq> 6" "j \<noteq> 7" for j
  proof -
    have "u16_be (be16_at packet 4) = [packet ! 4, packet ! 5]" by (simp add: be16_at_def be16.to_from_be)
    with that lx p show ?thesis
      by (cases "j = 4 \<or> j = 5") (auto simp: g_def nth_put)
  qed
  have zero: "f ! 0 = packet ! 0" using nth [of 0] gx [of 0] p by simp
  then show "ip_nibble f = ip_nibble packet" "take ihl f ! 0 = packet ! 0"
    using lf p by (auto simp: ip_nibble_nth)
  show "ihl_of f = ihl" using zero p(1) by (simp add: ihl_of_def)
  have "be16_at g 6 = ?fo" using lx p by (simp add: g_def be16_at_put)
  then have fo: "be16_at f 6 = ?fo" using nth [of 6] nth [of 7] p by (simp add: be16_at_def)
  note units = offset_units [OF off]
  show "be16_at f 6 AND 0x2000 \<noteq> 0 \<longleftrightarrow> e \<noteq> length payload"
    unfolding fo by (rule v4_flags(2) [OF units(1)])
  show "unat (be16_at f 6 AND 0x1fff) * 8 = off"
    unfolding fo v4_flags(1) [OF units(1)] by (rule units(2))
  have "slice_of f 12 16 = slice_of packet 12 16" "slice_of f 16 20 = slice_of packet 16 20"
    using nth gx lf p by (auto simp: slice_of_def intro!: nth_equalityI)
  moreover have "f ! 4 = packet ! 4" "f ! 5 = packet ! 5"
    using nth [of 4] nth [of 5] gx [of 4] gx [of 5] p by simp_all
  ultimately show "v4_key f (u32_from_be [0, 0, f ! 4, f ! 5])
      = (V4 (slice_of packet 12 16), V4 (slice_of packet 16 20), ucast (be16_at packet 4))"
    by (simp add: v4_key_def u32_ident be16_at_def)
  have hx: "take ihl f ! j = packet ! j" if "j < ihl" "j \<noteq> 2" "j \<noteq> 3" "j \<noteq> 6" "j \<noteq> 7" "j \<noteq> 10" "j \<noteq> 11" for j
    using nth gx that by simp
  show "finish_v4 (take ihl f) n
      = with_checksum (put (put (take ihl packet) 2 (u16_be (word_of_nat (ihl + n)))) 6 [0, 0])"
    unfolding finish_v4_def tk(1)
  proof (rule with_checksum_cong)
    fix j assume j: "j < length (put (put ?x 2 (u16_be (word_of_nat (ihl + n)))) 6 [0, 0])" "j \<noteq> 10" "j \<noteq> 11"
    then have "j < ihl" using lx p(2) by simp
    with hx [of j] j have "j < 2 \<or> 4 \<le> j \<and> j < 6 \<or> 8 \<le> j \<Longrightarrow> take ihl f ! j = ?x ! j" by auto
    with tk(1) lx p(2) \<open>j < ihl\<close>
    show "put (put (take ihl f) 2 (u16_be (word_of_nat (ihl + n)))) 6 [0, 0] ! j
        = put (put ?x 2 (u16_be (word_of_nat (ihl + n)))) 6 [0, 0] ! j"
      by (auto simp: nth_put simp del: of_nat_add nth_take take_all take_all_iff)
  qed (use tk(1) lx p in simp_all)
qed


lemma v4_fragment_view:
  assumes p: "ihl = ihl_of packet" "20 \<le> ihl" "ihl \<le> length packet" "ihl \<le> 60" "ip_nibble packet = Some 4"
    and r: "off < e" "e \<le> length payload" "e = length payload \<longrightarrow> off \<noteq> 0"
    and off: "off mod 8 = 0" "off < 65536" and f: "f = v4_fragment packet ihl payload (off, e)"
  shows "e \<noteq> length payload \<longrightarrow> (e - off) mod 8 = 0 \<Longrightarrow> view_v4 f = Some ((V4 (slice_of packet 12 16), V4 (slice_of packet 16 20),
      ucast (be16_at packet 4)), off, e \<noteq> length payload, slice_of payload off e, take ihl f)"
    and "view_inbound f = Some ((V4 (slice_of packet 12 16), V4 (slice_of packet 16 20), ucast (be16_at packet 4)),
      off, e \<noteq> length payload, slice_of payload off e, take ihl f)"
proof -
  have "off \<le> e" using r(1) by simp
  note ff = v4_fragment_fields [OF p(1-4) this r(2) off f]
  have pl: "slice_of payload off e \<noteq> []" "length (slice_of payload off e) = e - off"
    using r(1,2) by (auto simp: slice_of_def)
  have nib: "ip_nibble f = Some 4" using ff(2) p(5) by simp
  have len: "20 \<le> length f" "ihl \<le> length f" using ff(1) p(2) by simp_all
  have frag: "\<not> (\<not> (be16_at f 6 AND 0x2000 \<noteq> 0) \<and> unat (be16_at f 6 AND 0x1fff) * 8 = 0)"
    unfolding ff(4,5) using r(3) by blast
  have info: "ipv4_fragment_info f = Some \<lparr>frag_identification = u32_from_be [0, 0, f ! 4, f ! 5],
      frag_offset_bytes = off, frag_mf = (e \<noteq> length payload)\<rparr>"
    using frag nib len(1) unfolding ipv4_fragment_info_def Let_def ff(4,5) by simp
  show "view_v4 f = Some ((V4 (slice_of packet 12 16), V4 (slice_of packet 16 20), ucast (be16_at packet 4)), off,
      e \<noteq> length payload, slice_of payload off e, take ihl f)"
    if "e \<noteq> length payload \<longrightarrow> (e - off) mod 8 = 0"
    using that p(2) len pl unfolding view_v4_def info by (simp add: ff(3,6,7))
  show "view_inbound f = Some ((V4 (slice_of packet 12 16), V4 (slice_of packet 16 20), ucast (be16_at packet 4)),
      off, e \<noteq> length payload, slice_of payload off e, take ihl f)"
    using frag nib len unfolding view_inbound_def inbound_fragment_info_def Let_def ff(4,5)
    by (simp add: ff(3,6,7))
qed

section \<open>Round trips\<close>

text \<open>A reassembled IPv4 packet has no fragment fields and a recomputed checksum; an IPv6 packet is the
  original.\<close>

definition defragmented :: "bytes \<Rightarrow> bytes" where
  "defragmented p =
    (if ip_nibble p = Some 4 then with_checksum (put (take (ihl_of p) p) 6 [0, 0]) @ drop (ihl_of p) p else p)"

definition fragment_key :: "bytes \<Rightarrow> u32 \<Rightarrow> frag_key" where
  "fragment_key p next_id =
    (if ip_nibble p = Some 4 then (V4 (slice_of p 12 16), V4 (slice_of p 16 20), ucast (be16_at p 4))
     else (V6 (slice_of p 8 24), V6 (slice_of p 24 40), next_id))"

text \<open>The fragments of a whole packet: what both kinds of reassembler see of each, and the header they
  finish.\<close>

lemma range_units:
  assumes "0 < chunk" and "chunk mod 8 = 0" and "chunk < len" and "len < 65536"
    and r: "r \<in> set (fragment_ranges chunk 0 len)"
  shows "fst r < snd r" "snd r \<le> len" "snd r - fst r \<le> chunk" "fst r mod 8 = 0" "fst r < 65536"
    "snd r = len \<longrightarrow> fst r \<noteq> 0" "snd r \<noteq> len \<longrightarrow> (snd r - fst r) mod 8 = 0"
proof -
  have "0 < len" using assms(3) by simp
  note g = fragment_ranges_facts [OF assms(1) this r]
  show "fst r < snd r" "snd r \<le> len" "snd r - fst r \<le> chunk" using g by simp_all
  have "chunk dvd fst r" using g by (simp add: dvd_eq_mod_eq_0)
  then have "8 dvd fst r" using assms(2) by (metis dvd_eq_mod_eq_0 dvd_trans)
  then show "fst r mod 8 = 0" by simp
  show "fst r < 65536" using g assms(4) by linarith
  show "snd r = len \<longrightarrow> fst r \<noteq> 0" using g assms(3) by auto
  show "snd r \<noteq> len \<longrightarrow> (snd r - fst r) mod 8 = 0" using g assms(2) by auto
qed

lemma v4_range:
  assumes p: "ihl = ihl_of p" "20 \<le> ihl" "ihl \<le> length p" "ihl \<le> 60" "ip_nibble p = Some 4"
    "unat (be16_at p 2) = length p" and pl: "pl = drop ihl p"
    and chunk: "0 < chunk" "chunk mod 8 = 0" "chunk < length pl"
    and r: "r \<in> set (fragment_ranges chunk 0 (length pl))" and f: "f = v4_fragment p ihl pl r"
  shows "view_v4 f = Some (fragment_key p next_id, fst r, snd r \<noteq> length pl, slice_of pl (fst r) (snd r), take ihl f)"
    "view_inbound f = Some (fragment_key p next_id, fst r, snd r \<noteq> length pl, slice_of pl (fst r) (snd r), take ihl f)"
    "finish_v4 (take ihl f) (length pl) = with_checksum (put (take ihl p) 6 [0, 0])"
    "finish_inbound (take ihl f) (length pl) = Some (Some (with_checksum (put (take ihl p) 6 [0, 0])))"
    "length f \<le> ihl + chunk" "length (take ihl f) + length pl \<le> u16_max"
proof -
  have small: "length p \<le> 65535" using unat_u16_less [of "be16_at p 2"] p(6) by linarith
  have total: "ihl + length pl = length p" using p(3) pl by simp
  then have "length pl < 65536" using small by linarith
  note u = range_units [OF chunk this r]
  obtain off e where oe: "r = (off, e)" by (cases r)
  note u = u [unfolded oe fst_conv snd_conv] and f = f [unfolded oe]
  note ff = v4_fragment_fields [OF p(1-4) less_imp_le [OF u(1)] u(2,4,5) f]
  show "view_v4 f = Some (fragment_key p next_id, fst r, snd r \<noteq> length pl, slice_of pl (fst r) (snd r), take ihl f)"
    "view_inbound f = Some (fragment_key p next_id, fst r, snd r \<noteq> length pl, slice_of pl (fst r) (snd r), take ihl f)"
    using v4_fragment_view [OF p(1-5) u(1,2,6,4,5) f] u(7) p(5) by (simp_all add: fragment_key_def oe)
  have "u16_be (word_of_nat (ihl + length pl)) = [p ! 2, p ! 3]"
    unfolding total p(6) [symmetric] word_of_nat_unat_u16 by (simp add: be16_at_def be16.to_from_be)
  then have "put (take ihl p) 2 (u16_be (word_of_nat (ihl + length pl))) = take ihl p"
    using p(2,3) by (intro nth_equalityI) (auto simp: nth_put less_Suc_eq numeral_eq_Suc)
  then show fin: "finish_v4 (take ihl f) (length pl) = with_checksum (put (take ihl p) 6 [0, 0])"
    unfolding ff(10) by simp
  show fits: "length (take ihl f) + length pl \<le> 65535" unfolding ff(8) total by (rule small)
  have "take ihl f \<noteq> []" using ff(8) p(2) by auto
  then have "ip_nibble (take ihl f) = Some 4" "ihl_of (take ihl f) = ihl"
    using ff(9) p(1,3,5) p(2) by (auto simp: ip_nibble_nth ihl_of_def split: if_splits)
  then show "finish_inbound (take ihl f) (length pl) = Some (Some (with_checksum (put (take ihl p) 6 [0, 0])))"
    using fin fits p(2) unfolding finish_inbound_def finish_v4_def ff(8) by (simp del: of_nat_add)
  show "length f \<le> ihl + chunk" using ff(1) u(3) by simp
qed

lemma v6_range:
  assumes p: "ip_nibble p = Some 6" "40 \<le> length p" "40 + unat (be16_at p 4) = length p" and pl: "pl = drop 40 p"
    and chunk: "0 < chunk" "chunk mod 8 = 0" "chunk < length pl" "chunk \<le> 65527"
    and r: "r \<in> set (fragment_ranges chunk 0 (length pl))" and f: "f = v6_fragment p next_id pl r"
  shows "view_v6 f = Some (fragment_key p next_id, fst r, snd r \<noteq> length pl, slice_of pl (fst r) (snd r),
      (take 40 f, p ! 6))"
    "view_inbound f = Some (fragment_key p next_id, fst r, snd r \<noteq> length pl, slice_of pl (fst r) (snd r),
      put (take 40 f) 6 [p ! 6])"
    "finish_v6 (take 40 f, p ! 6) (length pl) = take 40 p"
    "finish_inbound (put (take 40 f) 6 [p ! 6]) (length pl) = Some (Some (take 40 p))"
    "length f \<le> 48 + chunk" "length pl \<le> u16_max"
proof -
  have total: "length pl = unat (be16_at p 4)" using p(3) pl by simp
  then have small: "length pl < 65536" using unat_u16_less [of "be16_at p 4"] by linarith
  then show "length pl \<le> 65535" by simp
  note u = range_units [OF chunk(1-3) small r]
  obtain off e where oe: "r = (off, e)" by (cases r)
  note u = u [unfolded oe fst_conv snd_conv] and f = f [unfolded oe]
  have le: "e - off \<le> 65527" using u(3) chunk(4) by linarith
  note ff = v6_fragment_fields [OF p(2) less_imp_le [OF u(1)] u(2) le u(4,5) f]
  show "view_v6 f = Some (fragment_key p next_id, fst r, snd r \<noteq> length pl, slice_of pl (fst r) (snd r),
      (take 40 f, p ! 6))"
    "view_inbound f = Some (fragment_key p next_id, fst r, snd r \<noteq> length pl, slice_of pl (fst r) (snd r),
      put (take 40 f) 6 [p ! 6])"
    using v6_fragment_view [OF p(2,1) u(1,2) le u(4,5) f] p(1) by (simp_all add: fragment_key_def oe)
  have "be16_at p 4 = word_of_nat (length pl)" by (simp add: total)
  note fin = v6_header_restored [OF p(2) this less_imp_le [OF u(1)] u(2) le u(4,5) f]
  show "finish_v6 (take 40 f, p ! 6) (length pl) = take 40 p" by (rule fin(1))
  show "finish_inbound (put (take 40 f) 6 [p ! 6]) (length pl) = Some (Some (take 40 p))"
    using fin(2) small p(1) by simp
  show "length f \<le> 48 + chunk" using ff(1) u(3) by simp
qed

lemma whole_v4:
  assumes "parse_ip p = Inr ip" and "payload_end ip = length p" and "ip_version ip = 4" and "68 \<le> m" and "m < length p"
    and chunk: "chunk = (m - ihl_of p) div 8 * 8" and pl: "pl = drop (ihl_of p) p"
  shows "20 \<le> ihl_of p" "ihl_of p \<le> length p" "ihl_of p \<le> 60" "ip_nibble p = Some 4" "unat (be16_at p 2) = length p"
    "0 < chunk" "chunk mod 8 = 0" "chunk < length pl" "chunk \<le> m - ihl_of p"
    "fragment_inner_packet next_id p m
      = (next_id, map (v4_fragment p (ihl_of p) pl) (fragment_ranges chunk 0 (length pl)))"
proof -
  note f = parse_v4_facts [OF assms(1,3)]
  show b: "20 \<le> ihl_of p" "ihl_of p \<le> length p" "ihl_of p \<le> 60" "ip_nibble p = Some 4" using f by simp_all
  show "unat (be16_at p 2) = length p" using assms(2) f(6) by (metis ParsedIpPacket.select_convs(4))
  show c: "0 < chunk" "chunk mod 8 = 0" "chunk \<le> m - ihl_of p"
    using assms(4) b(3) by (simp_all add: chunk div_greater_zero_iff)
  show "chunk < length pl" using c(3) assms(5) b(3) assms(4) by (simp add: pl)
  show "fragment_inner_packet next_id p m
      = (next_id, map (v4_fragment p (ihl_of p) pl) (fragment_ranges chunk 0 (length pl)))"
    using b assms(5) c(1) by (simp add: fragment_inner_packet_def fragment_ipv4_packet_def Let_def pl chunk)
qed

lemma whole_v6:
  assumes "parse_ip p = Inr ip" and "payload_end ip = length p" and "ip_version ip \<noteq> 4" and "68 \<le> m" and "m < length p"
    and chunk: "chunk = (m - 48) div 8 * 8" and pl: "pl = drop 40 p"
  shows "ip_nibble p = Some 6" "40 \<le> length p" "40 + unat (be16_at p 4) = length p"
    "0 < chunk" "chunk mod 8 = 0" "chunk < length pl" "chunk \<le> m - 48" "chunk \<le> 65527"
    "fragment_inner_packet next_id p m
      = (next_id + 1, map (v6_fragment p next_id pl) (fragment_ranges chunk 0 (length pl)))"
proof -
  note f = parse_v6_facts [OF assms(1,3)]
  show b: "ip_nibble p = Some 6" "40 \<le> length p" "40 + unat (be16_at p 4) = length p"
    using f assms(2) by auto
  show c: "0 < chunk" "chunk mod 8 = 0" "chunk \<le> m - 48"
    using assms(4) by (simp_all add: chunk div_greater_zero_iff)
  show "chunk < length pl" using c(3) assms(4,5) by (simp add: pl)
  show "chunk \<le> 65527" using c(3) assms(4,5) b(3) unat_u16_less [of "be16_at p 4"] by linarith
  show "fragment_inner_packet next_id p m
      = (next_id + 1, map (v6_fragment p next_id pl) (fragment_ranges chunk 0 (length pl)))"
    using b assms(5) c(1) by (simp add: fragment_inner_packet_def fragment_ipv6_packet_def Let_def pl chunk)
qed

lemma fragments_fit:
  assumes "parse_ip p = Inr ip" and "payload_end ip = length p" and "68 \<le> m" and "m < length p"
    and "fragment_inner_packet next_id p m = (next', fs)" and "f \<in> set fs"
  shows "length f \<le> m"
proof (cases "ip_version ip = 4")
  case True
  note w = whole_v4 [OF assms(1,2) True assms(3,4) refl refl]
  obtain r where "r \<in> set (fragment_ranges ((m - ihl_of p) div 8 * 8) 0 (length (drop (ihl_of p) p)))"
    "f = v4_fragment p (ihl_of p) (drop (ihl_of p) p) r"
    using assms(5,6) w(10) [of next_id] by auto
  then have "length f \<le> ihl_of p + (m - ihl_of p) div 8 * 8" by (rule v4_range(5) [OF refl w(1-5) refl w(6-8)])
  then show ?thesis using w(3,9) assms(3) by linarith
next
  case False
  note w = whole_v6 [OF assms(1,2) False assms(3,4) refl refl]
  obtain r where "r \<in> set (fragment_ranges ((m - 48) div 8 * 8) 0 (length (drop 40 p)))"
    "f = v6_fragment p next_id (drop 40 p) r"
    using assms(5,6) w(9) [of next_id] by auto
  then have "length f \<le> 48 + (m - 48) div 8 * 8" by (rule v6_range(5) [OF w(1-3) refl w(4-6,8)])
  then show ?thesis using w(7) assms(3) by linarith
qed

text \<open>The fragments of a packet in the terms of each reassembler's contract.\<close>

lemma fragmented_v4:
  assumes p: "parse_ip p = Inr ip" "payload_end ip = length p" "ip_version ip = 4" and m: "68 \<le> m" "m < length p"
    and fs: "fragment_inner_packet next_id p m = (next', fs)"
  shows "\<exists>h n. out4.fragmented (fragment_key p next_id) fs h n \<and> fits_v4 h n
      \<and> finish_v4 h n @ concat (map (snd \<circ> out4.piece) fs) = defragmented p"
    and "\<exists>h n. inb.fragmented (fragment_key p next_id) fs h n \<and> fits_in h n
      \<and> finish_in h n @ concat (map (snd \<circ> inb.piece) fs) = defragmented p"
proof -
  note w = whole_v4 [OF p m refl refl]
  let ?pl = "drop (ihl_of p) p" and ?chunk = "(m - ihl_of p) div 8 * 8"
  define rs where "rs = fragment_ranges ?chunk 0 (length ?pl)"
  let ?h = "take (ihl_of p) (v4_fragment p (ihl_of p) ?pl (hd rs))"
  note v = v4_range [OF refl w(1-5) refl w(6-8) _ refl, folded rs_def]
  have fs': "fs = map (v4_fragment p (ihl_of p) ?pl) rs" using fs w(10) [of next_id] by (simp add: rs_def)
  have hd: "hd rs \<in> set rs" by (simp add: rs_def)
  have pos: "0 < length ?pl" using w(8) by linarith
  note o4 = out4.ranges_fragmented [OF rs_def w(6) pos v(1), folded fs']
  note i = inb.ranges_fragmented [OF rs_def w(6) pos v(2), folded fs']
  have "fits_v4 ?h (length ?pl)" using v(6) [OF hd] by (simp add: fits_v4_def)
  then show "\<exists>h n. out4.fragmented (fragment_key p next_id) fs h n \<and> fits_v4 h n
      \<and> finish_v4 h n @ concat (map (snd \<circ> out4.piece) fs) = defragmented p"
    using o4 v(3) [OF hd] w(4) by (intro exI [of _ ?h] exI [of _ "length ?pl"]) (simp add: defragmented_def)
  show "\<exists>h n. inb.fragmented (fragment_key p next_id) fs h n \<and> fits_in h n
      \<and> finish_in h n @ concat (map (snd \<circ> inb.piece) fs) = defragmented p"
    using i v(4) [OF hd] w(4) by (intro exI [of _ ?h] exI [of _ "length ?pl"])
      (simp add: defragmented_def fits_in_def finish_in_def)
qed

lemma fragmented_v6:
  assumes p: "parse_ip p = Inr ip" "payload_end ip = length p" "ip_version ip \<noteq> 4" and m: "68 \<le> m" "m < length p"
    and fs: "fragment_inner_packet next_id p m = (next', fs)"
  shows "\<exists>h n. out6.fragmented (fragment_key p next_id) fs h n \<and> fits_v6 h n
      \<and> finish_v6 h n @ concat (map (snd \<circ> out6.piece) fs) = defragmented p"
    and "\<exists>h n. inb.fragmented (fragment_key p next_id) fs h n \<and> fits_in h n
      \<and> finish_in h n @ concat (map (snd \<circ> inb.piece) fs) = defragmented p"
proof -
  note w = whole_v6 [OF p m refl refl]
  let ?pl = "drop 40 p" and ?chunk = "(m - 48) div 8 * 8"
  define rs where "rs = fragment_ranges ?chunk 0 (length ?pl)"
  let ?f = "v6_fragment p next_id ?pl (hd rs)"
  note v = v6_range [where next_id = next_id, OF w(1-3) refl w(4-6,8) _ refl, folded rs_def]
  have fs': "fs = map (v6_fragment p next_id ?pl) rs" using fs w(9) [of next_id] by (simp add: rs_def)
  have hd: "hd rs \<in> set rs" by (simp add: rs_def)
  have pos: "0 < length ?pl" using w(6) by linarith
  note o6 = out6.ranges_fragmented [OF rs_def w(4) pos v(1), folded fs']
  note i = inb.ranges_fragmented [OF rs_def w(4) pos v(2), folded fs']
  have "fits_v6 (take 40 ?f, p ! 6) (length ?pl)" using v(6) [OF hd] by (simp add: fits_v6_def)
  then show "\<exists>h n. out6.fragmented (fragment_key p next_id) fs h n \<and> fits_v6 h n
      \<and> finish_v6 h n @ concat (map (snd \<circ> out6.piece) fs) = defragmented p"
    using o6 v(3) [OF hd] w(1) by (intro exI [of _ "(take 40 ?f, p ! 6)"] exI [of _ "length ?pl"])
      (simp add: defragmented_def)
  show "\<exists>h n. inb.fragmented (fragment_key p next_id) fs h n \<and> fits_in h n
      \<and> finish_in h n @ concat (map (snd \<circ> inb.piece) fs) = defragmented p"
    using i v(4) [OF hd] w(1) by (intro exI [of _ "put (take 40 ?f) 6 [p ! 6]"] exI [of _ "length ?pl"])
      (simp add: defragmented_def fits_in_def finish_in_def)
qed

lemma fragmented_inbound:
  assumes "parse_ip p = Inr ip" and "payload_end ip = length p" and "68 \<le> m" and "m < length p"
    and "fragment_inner_packet next_id p m = (next', fs)"
  obtains h n where "inb.fragmented (fragment_key p next_id) fs h n" "fits_in h n"
    "finish_in h n @ concat (map (snd \<circ> inb.piece) fs) = defragmented p"
  using fragmented_v4(2) [OF assms(1,2) _ assms(3-5)] fragmented_v6(2) [OF assms(1,2) _ assms(3-5)] by blast

text \<open>Outbound: the fragments the kernel made of a packet are one packet again before the ESP transform.\<close>

lemma outbound_v4_reassembled:
  assumes "parse_ip p = Inr ip" "payload_end ip = length p" "ip_version ip = 4" "68 \<le> m" "m < length p"
    and "fragment_inner_packet next_id p m = (next', fs)" and "map_of bs (fragment_key p next_id) = None"
    and "mset (filter (has_key view_v4 (fragment_key p next_id)) (map snd tr)) = mset fs"
    and "\<forall>(t, q) \<in> set tr. t0 \<le> t \<and> t < t0 + from_secs 3"
    and "reassemble_run step_outbound_v4 tr bs = Some outs"
  shows "map snd (filter (has_key view_v4 (fragment_key p next_id) \<circ> fst) outs)
    = replicate (length fs - 1) Buffered @ [Forward (defragmented p)]"
  using fragmented_v4(1) [OF assms(1-6)] out4.delivered [OF _ _ assms(7-10)] by metis

lemma outbound_v6_reassembled:
  assumes "parse_ip p = Inr ip" "payload_end ip = length p" "ip_version ip \<noteq> 4" "68 \<le> m" "m < length p"
    and "fragment_inner_packet next_id p m = (next', fs)" and "map_of bs (fragment_key p next_id) = None"
    and "mset (filter (has_key view_v6 (fragment_key p next_id)) (map snd tr)) = mset fs"
    and "\<forall>(t, q) \<in> set tr. t0 \<le> t \<and> t < t0 + from_secs 3"
    and "reassemble_run step_outbound_v6 tr bs = Some outs"
  shows "map snd (filter (has_key view_v6 (fragment_key p next_id) \<circ> fst) outs)
    = replicate (length fs - 1) Buffered @ [Forward (defragmented p)]"
  using fragmented_v6(1) [OF assms(1-6)] out6.delivered [OF _ _ assms(7-10)] by metis

section \<open>Properties\<close>

text \<open>
  C15: Fragmentation round trip.  A whole IP packet larger than the limit is cut into fragments of at
  most the limit, and whoever reassembles them with the inbound reassembler gets the packet back
  exactly once: whatever order the fragments arrive in, whatever other packets arrive between them
  and whatever else is buffered, as long as they arrive within three seconds, every fragment is
  buffered but the last to arrive, which completes the packet (for IPv4 with its fragment fields
  cleared and its header checksum recomputed).
\<close>

theorem fragments_reassemble:
  assumes p: "parse_ip p = Inr ip" "payload_end ip = length p" and m: "68 \<le> m" "m < length p"
    and fs: "fragment_inner_packet next_id p m = (next', fs)"
    and fresh: "map_of bs (fragment_key p next_id) = None"
    and all: "mset (filter (has_key view_inbound (fragment_key p next_id)) (map snd tr)) = mset fs"
    and time: "\<forall>(t, q) \<in> set tr. t0 \<le> t \<and> t < t0 + from_secs 3"
    and run: "reassemble_run reassemble_inbound_ip_fragment tr bs = Some outs"
  shows "(\<forall>f \<in> set fs. length f \<le> m)
    \<and> map snd (filter (has_key view_inbound (fragment_key p next_id) \<circ> fst) outs)
      = replicate (length fs - 1) Buffered @ [Forward (defragmented p)]"
proof (rule conjI)
  show "\<forall>f \<in> set fs. length f \<le> m" using fragments_fit [OF p m fs] by blast
  show "map snd (filter (has_key view_inbound (fragment_key p next_id) \<circ> fst) outs)
      = replicate (length fs - 1) Buffered @ [Forward (defragmented p)]"
    using inb.delivered [OF _ _ fresh all time run] by (metis fragmented_inbound [OF p m fs])
qed

definition sample_ip6 :: bytes where
  "sample_ip6 = [0x60, 0, 0, 0, 0, 36, 17, 64] @ replicate 16 1 @ replicate 16 2 @ map word_of_nat [0..<36]"

theorem fragments_reassemble_witness:
  "\<exists>outs. reassemble_run reassemble_inbound_ip_fragment
      (zip [0, 1, 2] (rotate1 (snd (fragment_inner_packet 7 sample_ip6 68)))) [] = Some outs
    \<and> map snd (filter (has_key view_inbound (fragment_key sample_ip6 7) \<circ> fst) outs)
      = [Buffered, Buffered, Forward (defragmented sample_ip6)]"
proof -
  let ?fs = "snd (fragment_inner_packet 7 sample_ip6 68)"
  let ?tr = "zip [0, 1, 2 :: Instant] (rotate1 ?fs)" and ?k = "fragment_key sample_ip6 7"
  have "rmap payload_end (parse_ip sample_ip6) = Inr (length sample_ip6)" by code_simp
  then obtain ip where p: "parse_ip sample_ip6 = Inr ip" "payload_end ip = length sample_ip6"
    by (cases "parse_ip sample_ip6") simp_all
  have m: "68 \<le> (68 :: nat)" "68 < length sample_ip6" by (simp_all add: sample_ip6_def)
  have fs: "fragment_inner_packet 7 sample_ip6 68 = (fst (fragment_inner_packet 7 sample_ip6 68), ?fs)" by simp
  have len: "length ?fs = 3" by code_simp
  obtain h n where frag: "inb.fragmented ?k ?fs h n" "fits_in h n" by (rule fragmented_inbound [OF p m fs])
  have tr: "map snd ?tr = rotate1 ?fs" using len by simp
  then have all: "mset ([] @ map snd ?tr) = mset ?fs" by (cases ?fs) simp_all
  have time: "\<forall>(t, q) \<in> set ?tr. 0 \<le> t \<and> t < 0 + from_secs 3"
    by (auto simp: from_secs_def dest!: set_zip_leftD)
  have fresh: "map_of [] ?k = (None :: bytes FragmentBuffer option)" by simp
  obtain outs where run: "reassemble_run reassemble_inbound_ip_fragment ?tr [] = Some outs"
    using inb.run_total [OF frag _ all time, of "[]"] by (auto simp: inb.holds_def)
  have "\<forall>f \<in> set ?fs. has_key view_inbound ?k f" using frag(1) by (simp add: inb.fragmented_def)
  then have "filter (has_key view_inbound ?k) (map snd ?tr) = map snd ?tr"
    unfolding tr by (simp add: filter_id_conv)
  with all have keyed: "mset (filter (has_key view_inbound ?k) (map snd ?tr)) = mset ?fs" by simp
  from fragments_reassemble [OF p m fs fresh keyed time run] run len show ?thesis by (simp add: numeral_eq_Suc)
qed

end
