(* ===== verification/Ims_Esp.thy ===== *)
theory Ims_Esp
  imports Ip_Packet Anti_Replay Esp_Protect
begin

text \<open>
  The inner ipsec-3gpp layer of the ESP gateway (\<open>vowifi/tun_gateway.rs\<close>): the policy with its client
  and server flow, the choice of a flow for a packet, and the protection and unprotection of the SIP
  packets of a flow.  A policy under its mutex is an optional value passed along; log output and the
  debug dumps are left out, but the flags that throttle the log are kept.
\<close>

definition IMS_ESP_CLIENT_FLOW :: string where "IMS_ESP_CLIENT_FLOW = ''client_flow''"

record ImsEspFlowConfig =
  fc_label :: string
  fc_local_port :: u16
  fc_remote_port :: u16
  fc_outbound_sa_identifier :: u32
  fc_inbound_sa_identifier :: u32
  fc_secrets :: ChildSaSecretPair
  fc_icv_include_iv :: bool
  fc_udp_encapsulate :: bool

record ImsEspPolicyConfig =
  pc_profile_id :: string
  pc_local_addr :: IpAddr
  pc_remote_addr :: IpAddr
  pc_local_port_c :: u16
  pc_local_port_s :: u16
  pc_remote_port_c :: u16
  pc_remote_port_s :: u16
  pc_client_flow :: ImsEspFlowConfig
  pc_server_flow :: ImsEspFlowConfig

record ImsEspRuntimeFlow =
  fl_label :: string
  fl_local_port :: u16
  fl_remote_port :: u16
  fl_outbound_sa_identifier :: u32
  fl_inbound_sa_identifier :: u32
  fl_secrets :: ChildSaSecretPair
  fl_icv_include_iv :: bool
  fl_udp_encapsulate :: bool
  next_outbound_sequence :: u64
  inbound_replay :: AntiReplayWindow
  outbound_logged :: bool
  inbound_logged :: bool

record ImsEspRuntimePolicy =
  pol_profile_id :: string
  local_addr :: IpAddr
  remote_addr :: IpAddr
  local_port_c :: u16
  local_port_s :: u16
  remote_port_c :: u16
  remote_port_s :: u16
  flows :: "ImsEspRuntimeFlow list"

record ImsClientTcpRoute =
  route_profile_id :: string
  route_local_addr :: IpAddr
  route_remote_addr :: IpAddr
  route_local_port :: u16
  route_remote_port :: u16

definition flow_new :: "ImsEspFlowConfig \<Rightarrow> ImsEspRuntimeFlow" where
  "flow_new c =
     \<lparr>fl_label = fc_label c, fl_local_port = fc_local_port c, fl_remote_port = fc_remote_port c,
      fl_outbound_sa_identifier = fc_outbound_sa_identifier c,
      fl_inbound_sa_identifier = fc_inbound_sa_identifier c, fl_secrets = fc_secrets c,
      fl_icv_include_iv = fc_icv_include_iv c, fl_udp_encapsulate = fc_udp_encapsulate c,
      next_outbound_sequence = 1, inbound_replay = window_new 64, outbound_logged = False,
      inbound_logged = False\<rparr>"

definition policy_new :: "ImsEspPolicyConfig \<Rightarrow> ImsEspRuntimePolicy" where
  "policy_new c =
     \<lparr>pol_profile_id = pc_profile_id c, local_addr = pc_local_addr c, remote_addr = pc_remote_addr c,
      local_port_c = pc_local_port_c c, local_port_s = pc_local_port_s c,
      remote_port_c = pc_remote_port_c c, remote_port_s = pc_remote_port_s c,
      flows = [flow_new (pc_client_flow c), flow_new (pc_server_flow c)]\<rparr>"

definition client_tcp_route :: "ImsEspRuntimePolicy \<Rightarrow> string + ImsClientTcpRoute" where
  "client_tcp_route pol =
    (case find (\<lambda>f. fl_label f = IMS_ESP_CLIENT_FLOW) (flows pol) of
       None \<Rightarrow> Inl ''ims_esp_client_flow_missing''
     | Some f \<Rightarrow> Inr \<lparr>route_profile_id = pol_profile_id pol, route_local_addr = local_addr pol,
                  route_remote_addr = remote_addr pol, route_local_port = fl_local_port f,
                  route_remote_port = fl_remote_port f\<rparr>)"

definition ims_client_tcp_route :: "ImsEspRuntimePolicy option \<Rightarrow> string + ImsClientTcpRoute" where
  "ims_client_tcp_route pol =
    (case pol of None \<Rightarrow> Inl ''ims_esp_policy_missing'' | Some p \<Rightarrow> client_tcp_route p)"

definition install_ims_esp_policy ::
    "ImsEspPolicyConfig \<Rightarrow> ImsEspRuntimePolicy option \<Rightarrow> ImsEspRuntimePolicy option \<times> (string + unit)" where
  "install_ims_esp_policy c pol =
    (if is_ipv4 (pc_local_addr c) \<noteq> is_ipv4 (pc_remote_addr c)
     then (pol, Inl ''ims_esp_policy_address_family_mismatch'')
     else if pc_local_port_c c = 0 \<or> pc_local_port_s c = 0 \<or> pc_remote_port_c c = 0 \<or> pc_remote_port_s c = 0
       \<or> fc_local_port (pc_client_flow c) = 0 \<or> fc_remote_port (pc_client_flow c) = 0
       \<or> fc_local_port (pc_server_flow c) = 0 \<or> fc_remote_port (pc_server_flow c) = 0
     then (pol, Inl ''ims_esp_policy_port_invalid'')
     else if fc_outbound_sa_identifier (pc_client_flow c) = 0 \<or> fc_inbound_sa_identifier (pc_client_flow c) = 0
       \<or> fc_outbound_sa_identifier (pc_server_flow c) = 0 \<or> fc_inbound_sa_identifier (pc_server_flow c) = 0
     then (pol, Inl ''ims_esp_policy_spi_invalid'')
     else (Some (policy_new c), Inr ()))"

definition allocate_outbound_sequence :: "ImsEspRuntimeFlow \<Rightarrow> ImsEspRuntimeFlow \<times> (string + u64)" where
  "allocate_outbound_sequence f =
    (let s = next_outbound_sequence f
     in if unat s > u32_max then (f, Inl ''ims_esp_sequence_exhausted'')
        else (f\<lparr>next_outbound_sequence := saturating_add s 1\<rparr>, Inr s))"

section \<open>Choosing a flow\<close>

fun position :: "('a \<Rightarrow> bool) \<Rightarrow> 'a list \<Rightarrow> nat option" where
  "position P [] = None"
| "position P (x # xs) = (if P x then Some 0 else map_option Suc (position P xs))"

definition ims_outbound_flow_index :: "bytes \<Rightarrow> ImsEspRuntimePolicy \<Rightarrow> (nat \<times> u8) option" where
  "ims_outbound_flow_index packet pol =
    (case parse_ip packet of
       Inl e \<Rightarrow> None
     | Inr parsed \<Rightarrow>
        if ip_next_header parsed \<notin> {6, 17} \<or> ip_src parsed \<noteq> local_addr pol \<or> ip_dst parsed \<noteq> remote_addr pol
        then None
        else (case transport_ports (ip_payload parsed packet) of
                None \<Rightarrow> None
              | Some (src, dst) \<Rightarrow>
                 map_option (\<lambda>i. (i, ip_next_header parsed))
                   (position (\<lambda>f. src = fl_local_port f \<and> dst = fl_remote_port f) (flows pol))))"

definition ims_inbound_esp_flow_index :: "bytes \<Rightarrow> ImsEspRuntimePolicy \<Rightarrow> nat option" where
  "ims_inbound_esp_flow_index packet pol =
    (case parse_ip packet of
       Inl e \<Rightarrow> None
     | Inr parsed \<Rightarrow>
        if ip_src parsed \<noteq> remote_addr pol \<or> ip_dst parsed \<noteq> local_addr pol then None
        else
          let payload = ip_payload parsed packet in
          if ip_next_header parsed = 50 then
            (if length payload < 8 then None
             else position (\<lambda>f. \<not> fl_udp_encapsulate f \<and> be32_at payload 0 = fl_inbound_sa_identifier f) (flows pol))
          else if ip_next_header parsed = 17 then
            (if length payload < 16 then None
             else position (\<lambda>f. fl_udp_encapsulate f \<and> fl_local_port f = be16_at payload 2
                      \<and> fl_remote_port f = be16_at payload 0 \<and> be32_at payload 8 = fl_inbound_sa_identifier f)
                    (flows pol))
          else None)"

section \<open>Protecting and unprotecting\<close>

text \<open>The UDP header put before an ESP frame, with the checksum over the pseudo header.\<close>

definition udp_encapsulated :: "bool \<Rightarrow> ParsedIpPacket \<Rightarrow> ImsEspRuntimeFlow \<Rightarrow> bytes \<Rightarrow> string + bytes" where
  "udp_encapsulated little_endian parsed f esp =
    (if u16_max < 8 + length esp then Inl ''ims_esp_udp_length_invalid''
     else
       let plain = u16_be (fl_local_port f) @ u16_be (fl_remote_port f) @ u16_be (word_of_nat (8 + length esp))
             @ [0, 0] @ esp
       in Inr (put plain 6 (u16_be (udp_checksum little_endian (ip_src parsed) (ip_dst parsed) plain))))"

definition protect_ims_esp_outbound_if_needed ::
    "Crypto \<Rightarrow> bytes option \<Rightarrow> bool \<Rightarrow> bytes \<Rightarrow> ImsEspRuntimePolicy option
      \<Rightarrow> ImsEspRuntimePolicy option \<times> (string + bytes)" where
  "protect_ims_esp_outbound_if_needed c random_iv little_endian packet opol =
    (case opol of
       None \<Rightarrow> (None, Inr packet)
     | Some pol \<Rightarrow>
        (case ims_outbound_flow_index packet pol of
           None \<Rightarrow> (Some pol, Inr packet)
         | Some (i, next_header) \<Rightarrow>
            (case allocate_outbound_sequence (flows pol ! i) of
               (f, Inl e) \<Rightarrow> (Some pol, Inl e)
             | (f, Inr seq) \<Rightarrow>
                let pol1 = pol\<lparr>flows := (flows pol)[i := f]\<rparr> in
                (case parse_ip packet of
                   Inl e \<Rightarrow> (Some pol1, Inl e)
                 | Inr parsed \<Rightarrow>
                    (case protect_inner_packet_for_esp_with_mode c random_iv (fl_outbound_sa_identifier f) seq
                            (ip_payload parsed packet) next_header (fl_secrets f) (fl_icv_include_iv f) of
                       Inl e \<Rightarrow> (Some pol1, Inl ''ims_esp_protect_failed'')
                     | Inr (esp, summ) \<Rightarrow>
                        let pol2 = pol\<lparr>flows := (flows pol)[i := f\<lparr>outbound_logged := True\<rparr>]\<rparr> in
                        (Some pol2,
                         if fl_udp_encapsulate f
                         then rbind (udp_encapsulated little_endian parsed f esp)
                                (rebuild_with_payload parsed packet 17)
                         else rebuild_with_payload parsed packet 50 esp))))))"

definition unprotect_ims_esp_inbound_if_needed ::
    "Crypto \<Rightarrow> bytes \<Rightarrow> ImsEspRuntimePolicy option \<Rightarrow> ImsEspRuntimePolicy option \<times> (string + bytes)" where
  "unprotect_ims_esp_inbound_if_needed c packet opol =
    (case opol of
       None \<Rightarrow> (None, Inr packet)
     | Some pol \<Rightarrow>
        (case ims_inbound_esp_flow_index packet pol of
           None \<Rightarrow> (Some pol, Inr packet)
         | Some i \<Rightarrow>
            let f = flows pol ! i in
            (case parse_ip packet of
               Inl e \<Rightarrow> (Some pol, Inl e)
             | Inr parsed \<Rightarrow>
                let payload = ip_payload parsed packet in
                if fl_udp_encapsulate f \<and> length payload < 8 then (Some pol, Inl ''ims_esp_udp_short'')
                else
                  let esp_payload = (if fl_udp_encapsulate f then drop 8 payload else payload) in
                  if length esp_payload < 8 then (Some pol, Inl ''ims_esp_packet_short'')
                  else
                    let sequence = ucast (be32_at esp_payload 4) in
                    (case unprotect_inner_packet_from_esp_with_mode c esp_payload (fl_secrets f) (fl_icv_include_iv f) of
                       Inl e \<Rightarrow> (Some pol, Inl ''ims_esp_unprotect_failed'')
                     | Inr (transport_payload, summ) \<Rightarrow>
                        (case accept_bit (inbound_replay f) sequence of
                           (w, ok) \<Rightarrow>
                             if \<not> ok
                             then (Some (pol\<lparr>flows := (flows pol)[i := f\<lparr>inbound_replay := w\<rparr>]\<rparr>),
                                   Inl ''ims_esp_replay_rejected'')
                             else (Some (pol\<lparr>flows := (flows pol)[i := f\<lparr>inbound_replay := w, inbound_logged := True\<rparr>]\<rparr>),
                                   rebuild_with_payload parsed packet (prot_next_header summ) transport_payload))))))"

section \<open>Headers of the protected packets\<close>

lemma be16_at_field: "length pre = i \<Longrightarrow> be16_at (pre @ u16_be w @ rest) i = w"
  using two_octets [of "u16_be w"] by (simp add: be16_at_def nth_append)

lemma be32_at_field: "length pre = i \<Longrightarrow> be32_at (pre @ u32_be w @ rest) i = w"
  using four_octets [of "u32_be w"] by (simp add: be32_at_def nth_append)

lemma be32_at_drop: "n + i + 3 < length xs \<Longrightarrow> be32_at (drop n xs) i = be32_at xs (n + i)"
  by (simp add: be32_at_def add.assoc)

lemma protect_header:
  assumes "protect_inner_packet_for_esp_with_mode c rnd spi s inner nh tx mode = Inr (frame, summ)"
  shows "be32_at frame 0 = spi" "be32_at frame 4 = ucast s" "8 \<le> length frame" "unat s \<le> u32_max"
    "prot_next_header summ = nh"
proof -
  from assms obtain iv ct icv where s: "unat s \<le> u32_max"
    and frame: "frame = u32_be spi @ u32_be (ucast s) @ iv @ ct @ icv"
    and summ: "summ = \<lparr>prot_sequence_number = s, prot_outer_frame_bytes = length frame,
       prot_protected_bytes = length frame - ESP_HEADER_BYTES, inner_packet_bytes = length inner,
       prot_next_header = nh, icv_bytes = length icv,
       prot_policy = ''packet_lengths_only_no_payload_or_key_material''\<rparr>"
    by (rule protect_ok)
  show "be32_at frame 0 = spi" using be32_at_field [of "[]" 0 spi] by (simp add: frame)
  show "be32_at frame 4 = ucast s" using be32_at_field [of "u32_be spi" 4] by (simp add: frame)
  show "8 \<le> length frame" "unat s \<le> u32_max" "prot_next_header summ = nh"
    using s by (simp_all add: frame summ)
qed

lemma udp_encapsulated_fields:
  assumes "udp_encapsulated le parsed f esp = Inr udp"
  shows "be16_at udp 0 = fl_local_port f" "be16_at udp 2 = fl_remote_port f" "drop 8 udp = esp"
    "length udp = 8 + length esp"
proof -
  let ?len = "word_of_nat (8 + length esp) :: u16"
  let ?plain = "u16_be (fl_local_port f) @ u16_be (fl_remote_port f) @ u16_be ?len @ [0, 0] @ esp"
  obtain w where udp: "udp = put ?plain 6 (u16_be w)"
    using assms by (auto simp: udp_encapsulated_def Let_def split: if_splits)
  have "be16_at ?plain 0 = fl_local_port f"
    using be16_at_field [of "[]" 0 "fl_local_port f" "u16_be (fl_remote_port f) @ u16_be ?len @ [0, 0] @ esp"]
    by simp
  moreover have "be16_at ?plain 2 = fl_remote_port f"
    using be16_at_field [of "u16_be (fl_local_port f)" 2 "fl_remote_port f" "u16_be ?len @ [0, 0] @ esp"]
    by simp
  moreover have "be16_at udp 0 = be16_at ?plain 0" "be16_at udp 2 = be16_at ?plain 2"
    unfolding udp by (rule be16_at_put_other; simp)+
  ultimately show "be16_at udp 0 = fl_local_port f" "be16_at udp 2 = fl_remote_port f" by simp_all
  show "drop 8 udp = esp" by (simp add: udp put_def)
  show "length udp = 8 + length esp" by (simp add: udp)
qed

lemma position_Some:
  "position P xs = Some i \<longleftrightarrow> i < length xs \<and> P (xs ! i) \<and> (\<forall>j < i. \<not> P (xs ! j))"
proof (induction xs arbitrary: i)
  case Nil
  then show ?case by simp
next
  case (Cons x xs)
  then show ?case by (cases i) (simp_all add: All_less_Suc2)
qed

lemma position_unique:
  assumes "i < length xs" and "P (xs ! i)" and "\<And>j. j < length xs \<Longrightarrow> P (xs ! j) \<Longrightarrow> j = i"
  shows "position P xs = Some i"
  unfolding position_Some
proof (intro conjI allI impI notI)
  fix j assume "j < i" "P (xs ! j)"
  with assms(1) assms(3) [of j] show False by linarith
qed (rule assms)+

section \<open>Two ends of the tunnel\<close>

text \<open>The flow of the peer: ports, SPI and keys in the other direction, the same two flags.\<close>

definition flow_mirror :: "ImsEspRuntimeFlow \<Rightarrow> ImsEspRuntimeFlow \<Rightarrow> bool" where
  "flow_mirror f g \<longleftrightarrow> fl_local_port g = fl_remote_port f \<and> fl_remote_port g = fl_local_port f
     \<and> fl_inbound_sa_identifier g = fl_outbound_sa_identifier f
     \<and> opposite (fl_secrets f) (fl_secrets g) \<and> fl_icv_include_iv g = fl_icv_include_iv f
     \<and> fl_udp_encapsulate g = fl_udp_encapsulate f"

text \<open>The peer's policy, whose inbound SPIs tell its flows apart and whose windows have seen no
  sequence number the sender has not yet used.\<close>

definition policy_mirror :: "ImsEspRuntimePolicy \<Rightarrow> ImsEspRuntimePolicy \<Rightarrow> bool" where
  "policy_mirror p q \<longleftrightarrow> local_addr q = remote_addr p \<and> remote_addr q = local_addr p
     \<and> length (flows q) = length (flows p) \<and> distinct (map fl_inbound_sa_identifier (flows q))
     \<and> (\<forall>i < length (flows p). flow_mirror (flows p ! i) (flows q ! i)
          \<and> highest_sequence (inbound_replay (flows q ! i)) < next_outbound_sequence (flows p ! i))"

lemma policy_mirror_flow:
  assumes "policy_mirror p q" and "i < length (flows p)"
  shows "i < length (flows q)" "flow_mirror (flows p ! i) (flows q ! i)"
    "highest_sequence (inbound_replay (flows q ! i)) < next_outbound_sequence (flows p ! i)"
  using assms by (simp_all add: policy_mirror_def)

lemma policy_mirror_update:
  assumes "policy_mirror p q" and "i < length (flows p)" and "flow_mirror f' g'"
    and "fl_inbound_sa_identifier g' = fl_inbound_sa_identifier (flows q ! i)"
    and "highest_sequence (inbound_replay g') < next_outbound_sequence f'"
  shows "policy_mirror (p\<lparr>flows := (flows p)[i := f']\<rparr>) (q\<lparr>flows := (flows q)[i := g']\<rparr>)"
proof -
  have "map fl_inbound_sa_identifier ((flows q)[i := g']) = map fl_inbound_sa_identifier (flows q)"
    by (simp add: map_update assms(4) list_update_same_conv policy_mirror_flow(1) [OF assms(1,2)]
        flip: nth_map)
  with assms show ?thesis by (auto simp: policy_mirror_def nth_list_update)
qed

lemma outbound_index_facts:
  assumes "ims_outbound_flow_index packet p = Some (i, nh)" and "parse_ip packet = Inr ip"
  shows "i < length (flows p)" "ip_src ip = local_addr p" "ip_dst ip = remote_addr p"
    "nh = ip_next_header ip" "nh = 6 \<or> nh = 17"
  using assms by (auto simp: ims_outbound_flow_index_def position_Some split: if_splits option.splits)

lemma allocate_facts:
  assumes "unat (next_outbound_sequence f) \<le> u32_max"
  shows "allocate_outbound_sequence f =
      (f\<lparr>next_outbound_sequence := next_outbound_sequence f + 1\<rparr>, Inr (next_outbound_sequence f))"
    and "unat (next_outbound_sequence f + 1) = unat (next_outbound_sequence f) + 1"
proof -
  show plus: "unat (next_outbound_sequence f + 1) = unat (next_outbound_sequence f) + 1"
    using assms by (intro unat_add_lem [THEN iffD1, THEN trans]) simp_all
  have "saturating_add (next_outbound_sequence f) 1 = next_outbound_sequence f + 1"
    using assms plus by (simp add: word_unat_eq_iff unat_saturating_add)
  then show "allocate_outbound_sequence f =
      (f\<lparr>next_outbound_sequence := next_outbound_sequence f + 1\<rparr>, Inr (next_outbound_sequence f))"
    using assms by (simp add: allocate_outbound_sequence_def Let_def)
qed

text \<open>What a packet put on the wire by a flow is made of.\<close>

definition wire_payload :: "bool \<Rightarrow> ParsedIpPacket \<Rightarrow> ImsEspRuntimeFlow \<Rightarrow> bytes \<Rightarrow> (string + bytes) \<times> u8" where
  "wire_payload le ip f esp =
    (if fl_udp_encapsulate f then (udp_encapsulated le ip f esp, 17) else (Inr esp, 50))"

lemma protect_sent:
  assumes "protect_ims_esp_outbound_if_needed c rnd le packet (Some p) = (p', Inr out)"
    and idx: "ims_outbound_flow_index packet p = Some (i, nh)" and ip: "parse_ip packet = Inr ip"
  obtains esp summ payload where
    "protect_inner_packet_for_esp_with_mode c rnd (fl_outbound_sa_identifier (flows p ! i))
       (next_outbound_sequence (flows p ! i)) (ip_payload ip packet) nh (fl_secrets (flows p ! i))
       (fl_icv_include_iv (flows p ! i)) = Inr (esp, summ)"
    "fst (wire_payload le ip (flows p ! i) esp) = Inr payload"
    "rebuild_with_payload ip packet (snd (wire_payload le ip (flows p ! i) esp)) payload = Inr out"
    "p' = Some (p\<lparr>flows := (flows p)[i := (flows p ! i)\<lparr>next_outbound_sequence :=
       next_outbound_sequence (flows p ! i) + 1, outbound_logged := True\<rparr>]\<rparr>)"
    "unat (next_outbound_sequence (flows p ! i)) \<le> u32_max"
proof -
  let ?f = "flows p ! i" and ?seq = "next_outbound_sequence (flows p ! i)"
  have small: "unat ?seq \<le> u32_max"
    using assms(1) idx
    by (auto simp: protect_ims_esp_outbound_if_needed_def allocate_outbound_sequence_def Let_def split: if_splits)
  note alloc = allocate_facts(1) [OF small]
  obtain esp summ where esp: "protect_inner_packet_for_esp_with_mode c rnd (fl_outbound_sa_identifier ?f)
       ?seq (ip_payload ip packet) nh (fl_secrets ?f) (fl_icv_include_iv ?f) = Inr (esp, summ)"
    using assms(1)
    by (auto simp: protect_ims_esp_outbound_if_needed_def idx alloc ip Let_def split: sum.splits)
  have udp: "udp_encapsulated le ip (?f\<lparr>next_outbound_sequence := ?seq + 1\<rparr>) esp = udp_encapsulated le ip ?f esp"
    by (simp add: udp_encapsulated_def)
  have body: "(if fl_udp_encapsulate ?f then rbind (udp_encapsulated le ip ?f esp) (rebuild_with_payload ip packet 17)
      else rebuild_with_payload ip packet 50 esp) = Inr out"
    and p': "p' = Some (p\<lparr>flows := (flows p)[i := ?f\<lparr>next_outbound_sequence := ?seq + 1, outbound_logged := True\<rparr>]\<rparr>)"
    using assms(1)
    by (simp_all add: protect_ims_esp_outbound_if_needed_def idx alloc ip esp Let_def udp cong: if_cong)
  obtain payload where "fst (wire_payload le ip ?f esp) = Inr payload"
    "rebuild_with_payload ip packet (snd (wire_payload le ip ?f esp)) payload = Inr out"
    using body by (auto simp: wire_payload_def rbind_eq_Inr split: if_splits)
  from that [OF esp this p' small] show ?thesis .
qed

lemma inbound_index_of_wire:
  assumes mirror: "policy_mirror p q" and i: "i < length (flows p)"
    and ends: "ip_src ip' = local_addr p" "ip_dst ip' = remote_addr p"
    and parsed: "parse_ip out = Inr ip'" "ip_payload ip' out = payload"
    and wire: "fst (wire_payload le ip (flows p ! i) esp) = Inr payload"
      "ip_next_header ip' = snd (wire_payload le ip (flows p ! i) esp)"
    and esp: "be32_at esp 0 = fl_outbound_sa_identifier (flows p ! i)" "8 \<le> length esp"
  shows "ims_inbound_esp_flow_index out q = Some i"
    and "(if fl_udp_encapsulate (flows q ! i) then drop 8 payload else payload) = esp"
    and "8 \<le> length payload"
proof -
  let ?f = "flows p ! i" and ?g = "flows q ! i"
  note g = policy_mirror_flow [OF mirror i]
  have same: "fl_udp_encapsulate ?g = fl_udp_encapsulate ?f" using g(2) by (simp add: flow_mirror_def)
  have only: "j = i" if "j < length (flows q)" "fl_inbound_sa_identifier (flows q ! j) = fl_inbound_sa_identifier ?g" for j
    using that mirror g(1) i nth_eq_iff_index_eq [of "map fl_inbound_sa_identifier (flows q)" j i]
    by (simp add: policy_mirror_def)
  have addr: "ip_src ip' = remote_addr q" "ip_dst ip' = local_addr q"
    using ends mirror by (simp_all add: policy_mirror_def)
  have spi: "be32_at esp 0 = fl_inbound_sa_identifier ?g" using esp(1) g(2) by (simp add: flow_mirror_def)
  have goal: "ims_inbound_esp_flow_index out q = Some i
    \<and> (if fl_udp_encapsulate ?g then drop 8 payload else payload) = esp \<and> 8 \<le> length payload"
  proof (cases "fl_udp_encapsulate ?f")
    case True
    note u = udp_encapsulated_fields [of le ip ?f esp payload]
    have udp: "udp_encapsulated le ip ?f esp = Inr payload" and nh: "ip_next_header ip' = 17"
      using wire True by (simp_all add: wire_payload_def)
    have "be32_at payload 8 = be32_at esp 0"
      using u(3,4) [OF udp] esp(2) be32_at_drop [of 8 0 payload] by simp
    then have "position (\<lambda>h. fl_udp_encapsulate h \<and> fl_local_port h = be16_at payload 2
          \<and> fl_remote_port h = be16_at payload 0 \<and> be32_at payload 8 = fl_inbound_sa_identifier h) (flows q) = Some i"
      using u(1,2) [OF udp] same True spi g(1,2) only
      by (intro position_unique) (simp_all add: flow_mirror_def)
    then show ?thesis
      using True same u(3,4) [OF udp] esp(2)
      by (simp add: ims_inbound_esp_flow_index_def parsed addr nh Let_def)
  next
    case False
    have pl: "payload = esp" and nh: "ip_next_header ip' = 50"
      using wire False by (simp_all add: wire_payload_def)
    have "position (\<lambda>h. \<not> fl_udp_encapsulate h \<and> be32_at esp 0 = fl_inbound_sa_identifier h) (flows q) = Some i"
      using same False spi g(1) only by (intro position_unique) simp_all
    then show ?thesis
      using False same esp(2) pl by (simp add: ims_inbound_esp_flow_index_def parsed addr nh Let_def)
  qed
  then show "ims_inbound_esp_flow_index out q = Some i"
    and "(if fl_udp_encapsulate ?g then drop 8 payload else payload) = esp"
    and "8 \<le> length payload" by blast+
qed

text \<open>One packet through the tunnel.  Whatever packet with the wire packet's fields and payload reaches the
  peer is opened and rebuilt around the original payload; the sender's state is as good whether the
  packet arrives or not.\<close>

lemma tunnel_transport:
  assumes laws: "crypto_laws c" and iv16: "\<forall>iv. rnd = Some iv \<longrightarrow> length iv = 16"
    and mirror: "policy_mirror p q" and idx: "ims_outbound_flow_index packet p = Some (i, nh)"
    and ip: "parse_ip packet = Inr ip"
    and sent: "protect_ims_esp_outbound_if_needed c rnd le packet (Some p) = (p', Inr out)"
  obtains p1 q1 wnh payload where "p' = Some p1" "policy_mirror p1 q" "policy_mirror p1 q1" "wnh = 50 \<or> wnh = 17"
    "rebuild_with_payload ip packet wnh payload = Inr out"
    "\<forall>arr ip'. parse_ip out = Inr ip' \<longrightarrow> parse_ip arr = Inr ip' \<longrightarrow> ip_payload ip' arr = payload
      \<longrightarrow> unprotect_ims_esp_inbound_if_needed c arr (Some q)
        = (Some q1, rebuild_with_payload ip' arr nh (ip_payload ip packet))"
proof -
  let ?f = "flows p ! i" and ?g = "flows q ! i" and ?seq = "next_outbound_sequence (flows p ! i)"
  from sent idx ip obtain esp summ payload where
    esp: "protect_inner_packet_for_esp_with_mode c rnd (fl_outbound_sa_identifier ?f) ?seq
        (ip_payload ip packet) nh (fl_secrets ?f) (fl_icv_include_iv ?f) = Inr (esp, summ)"
    and wire: "fst (wire_payload le ip ?f esp) = Inr payload"
    and out: "rebuild_with_payload ip packet (snd (wire_payload le ip ?f esp)) payload = Inr out"
    and p': "p' = Some (p\<lparr>flows := (flows p)[i := ?f\<lparr>next_outbound_sequence := ?seq + 1, outbound_logged := True\<rparr>]\<rparr>)"
    and small: "unat ?seq \<le> u32_max"
    by (rule protect_sent)
  let ?wnh = "snd (wire_payload le ip ?f esp)"
  note idxf = outbound_index_facts [OF idx ip]
  note g = policy_mirror_flow [OF mirror idxf(1)]
  have g2: "opposite (fl_secrets ?f) (fl_secrets ?g)" "fl_icv_include_iv ?g = fl_icv_include_iv ?f"
    using g(2) by (simp_all add: flow_mirror_def)
  note h = protect_header [OF esp]
  have unprot: "unprotect_inner_packet_from_esp_with_mode c esp (fl_secrets ?g) (fl_icv_include_iv ?g)
      = Inr (ip_payload ip packet, summ)"
    unfolding g2(2) by (rule protect_then_unprotect [OF laws iv16 g2(1) esp])
  have seq: "ucast (be32_at esp 4) = ?seq" using h(2) ucast_u32_u64 [OF small] by simp
  obtain w where w: "accept_bit (inbound_replay ?g) ?seq = (w, True)" "highest_sequence w = ?seq"
  proof -
    have "?seq \<noteq> 0" using g(3) by auto
    from accept_new_highest [OF this, of "inbound_replay ?g"] g(3) that show ?thesis by simp
  qed
  let ?q1 = "q\<lparr>flows := (flows q)[i := ?g\<lparr>inbound_replay := w, inbound_logged := True\<rparr>]\<rparr>"
  have recv: "unprotect_ims_esp_inbound_if_needed c arr (Some q)
      = (Some ?q1, rebuild_with_payload ip' arr nh (ip_payload ip packet))"
    if po: "parse_ip out = Inr ip'" and pa: "parse_ip arr = Inr ip'" and pl: "ip_payload ip' arr = payload" for arr ip'
  proof -
    have ip': "ip' = ip\<lparr>payload_end := header_len ip + length payload, ip_next_header := ?wnh\<rparr>"
      using rebuild_parses(1) [OF ip out] po by simp
    have ends: "ip_src ip' = local_addr p" "ip_dst ip' = remote_addr p" "ip_next_header ip' = ?wnh"
      using idxf by (simp_all add: ip')
    note inb = inbound_index_of_wire [OF mirror idxf(1) ends(1,2) pa pl wire ends(3) h(1,3)]
    have "\<not> (fl_udp_encapsulate ?g \<and> length payload < 8)" "\<not> length esp < 8" using inb(3) h(3) by linarith+
    then show ?thesis
      unfolding unprotect_ims_esp_inbound_if_needed_def option.case inb(1) Let_def pa sum.case pl inb(2)
        seq unprot case_prod_conv w(1) h(5)
      by auto
  qed
  have up: "unat (?seq + 1) = unat ?seq + 1" by (rule allocate_facts(2) [OF small])
  let ?p1 = "p\<lparr>flows := (flows p)[i := ?f\<lparr>next_outbound_sequence := ?seq + 1, outbound_logged := True\<rparr>]\<rparr>"
  have lost: "policy_mirror ?p1 q"
    using policy_mirror_update [OF mirror idxf(1), of _ ?g] g(2,3) up
    by (auto simp: flow_mirror_def word_less_nat_alt)
  have kept: "policy_mirror ?p1 ?q1"
    using g(2) w(2) up
    by (intro policy_mirror_update [OF mirror idxf(1)]) (simp_all add: flow_mirror_def word_less_nat_alt)
  have "?wnh = 50 \<or> ?wnh = 17" by (simp add: wire_payload_def)
  from that [OF p' lost kept this out] recv show ?thesis by blast
qed

lemma tunnel_step:
  assumes laws: "crypto_laws c" and iv16: "\<forall>iv. rnd = Some iv \<longrightarrow> length iv = 16"
    and mirror: "policy_mirror p q" and idx: "ims_outbound_flow_index packet p = Some (i, nh)"
    and ip: "parse_ip packet = Inr ip"
    and sent: "protect_ims_esp_outbound_if_needed c rnd le packet (Some p) = (p', Inr out)"
  obtains p1 q1 where "p' = Some p1" "policy_mirror p1 q" "policy_mirror p1 q1"
    "unprotect_ims_esp_inbound_if_needed c out (Some q) = (Some q1, Inr (ip_canonical packet ip))"
proof -
  from assms obtain p1 q1 wnh payload where t: "p' = Some p1" "policy_mirror p1 q" "policy_mirror p1 q1"
    and "wnh = 50 \<or> wnh = 17" and out: "rebuild_with_payload ip packet wnh payload = Inr out"
    and recv: "\<forall>arr ip'. parse_ip out = Inr ip' \<longrightarrow> parse_ip arr = Inr ip' \<longrightarrow> ip_payload ip' arr = payload
      \<longrightarrow> unprotect_ims_esp_inbound_if_needed c arr (Some q)
        = (Some q1, rebuild_with_payload ip' arr nh (ip_payload ip packet))"
    by (rule tunnel_transport)
  obtain ip' where parsed: "parse_ip out = Inr ip'" using rebuild_parses(1) [OF ip out] by blast
  have "nh = ip_next_header ip" by (rule outbound_index_facts [OF idx ip])
  then have "unprotect_ims_esp_inbound_if_needed c out (Some q) = (Some q1, Inr (ip_canonical packet ip))"
    using recv [rule_format, OF parsed parsed rebuilt_payload [OF ip out parsed]] rebuild_back [OF ip out parsed] by simp
  with that t show ?thesis by blast
qed

section \<open>Runs of the tunnel\<close>

lemma position_update:
  "i < length xs \<Longrightarrow> P y = P (xs ! i) \<Longrightarrow> position P (xs[i := y]) = position P xs"
proof (induction xs arbitrary: i)
  case (Cons x xs)
  then show ?case by (cases i) auto
qed simp

text \<open>A flow can send when its SA identifier is set, its algorithms are supported and its keys and
  the IV fit, and its next sequence number leaves room for \<open>k\<close> more packets.\<close>

definition flow_ready :: "bytes option \<Rightarrow> ImsEspRuntimeFlow \<Rightarrow> bool" where
  "flow_ready rnd f \<longleftrightarrow> fl_outbound_sa_identifier f \<noteq> 0 \<and> cipher_ready rnd (fl_secrets f)
     \<and> is_ok (esp_integrity_len (plan_integrity (summary (fl_secrets f))))"

definition room_for :: "nat \<Rightarrow> ImsEspRuntimeFlow \<Rightarrow> bool" where
  "room_for k f \<longleftrightarrow> 0 < unat (next_outbound_sequence f) \<and> unat (next_outbound_sequence f) + k \<le> u32_max + 1"

text \<open>What is asked of each packet: it belongs to a flow, is not near the 64 KB limit, and the random
  octets drawn for it are those of a working generator.\<close>

definition sendable :: "ImsEspRuntimePolicy \<Rightarrow> bytes \<Rightarrow> bytes option \<Rightarrow> bool" where
  "sendable p packet rnd \<longleftrightarrow> ims_outbound_flow_index packet p \<noteq> None \<and> length packet \<le> 65000
     \<and> (case rnd of None \<Rightarrow> True | Some iv \<Rightarrow> length iv = 16) \<and> (\<forall>f \<in> set (flows p). flow_ready rnd f)"

lemma integrity_len_le: "esp_integrity_len i = Inr n \<Longrightarrow> n \<le> 32"
  unfolding esp_integrity_len_def by (simp only: split: if_split_asm) auto

lemma rebuild_total:
  assumes "parse_ip packet = Inr ip" and "header_len ip + length payload \<le> u16_max"
  obtains out where "rebuild_with_payload ip packet nh payload = Inr out"
  using assms parse_ip_version [OF assms(1)]
  by (auto simp: rebuild_with_payload_def rebuild_v4_def rebuild_v6_def Let_def)

lemma payload_within:
  assumes "parse_ip packet = Inr ip"
  shows "header_len ip + length (ip_payload ip packet) \<le> length packet"
proof (cases "ip_version ip = 4")
  case True
  note f = parse_v4_facts [OF assms True]
  show ?thesis using f(3,4) by (simp only: f(6)) (simp add: ip_payload_def)
next
  case False
  note f = parse_v6_facts [OF assms False]
  show ?thesis using f(2) by (simp only: f(3)) (simp add: ip_payload_def)
qed

lemma send_total:
  assumes laws: "crypto_laws c" and ok: "sendable p packet rnd"
    and idx: "ims_outbound_flow_index packet p = Some (i, nh)" and ip: "parse_ip packet = Inr ip"
    and room: "room_for 1 (flows p ! i)"
  obtains p' out where "protect_ims_esp_outbound_if_needed c rnd le packet (Some p) = (p', Inr out)"
proof -
  let ?f = "flows p ! i" and ?seq = "next_outbound_sequence (flows p ! i)"
  have i: "i < length (flows p)" by (rule outbound_index_facts [OF idx ip])
  have ready: "flow_ready rnd ?f" and iv16: "\<forall>iv. rnd = Some iv \<longrightarrow> length iv = 16" and len: "length packet \<le> 65000"
    using ok i by (auto simp: sendable_def)
  obtain n where n: "esp_integrity_len (plan_integrity (summary (fl_secrets ?f))) = Inr n"
    using ready by (auto simp: flow_ready_def is_ok_def split: sum.splits)
  have seq: "?seq \<noteq> 0" "unat ?seq \<le> u32_max" using room by (auto simp: room_for_def)
  have spi: "fl_outbound_sa_identifier ?f \<noteq> 0" and cipher: "cipher_ready rnd (fl_secrets ?f)"
    using ready by (simp_all add: flow_ready_def)
  obtain esp summ where esp: "protect_inner_packet_for_esp_with_mode c rnd (fl_outbound_sa_identifier ?f)
      ?seq (ip_payload ip packet) nh (fl_secrets ?f) (fl_icv_include_iv ?f) = Inr (esp, summ)"
    using protect_total [OF laws spi seq cipher n] by blast
  have "length esp \<le> length (ip_payload ip packet) + 8 + 16 + 17 + 32"
    using protect_size [OF laws iv16 n esp] integrity_len_le [OF n] by simp
  then have fits: "header_len ip + (8 + length esp) \<le> u16_max"
    using payload_within [OF ip] len by simp
  have udp: "udp_encapsulated le ip (?f\<lparr>next_outbound_sequence := s\<rparr>) esp = udp_encapsulated le ip ?f esp" for s
    by (simp add: udp_encapsulated_def)
  show ?thesis
  proof (cases "fl_udp_encapsulate ?f")
    case True
    obtain u where u: "udp_encapsulated le ip ?f esp = Inr u"
      using fits by (auto simp: udp_encapsulated_def Let_def)
    obtain out where "rebuild_with_payload ip packet 17 u = Inr out"
      by (rule rebuild_total [OF ip]) (use fits udp_encapsulated_fields(4) [OF u] in auto)
    then show ?thesis
      using that True
      by (simp add: protect_ims_esp_outbound_if_needed_def idx allocate_facts(1) [OF seq(2)] ip esp udp u Let_def)
  next
    case False
    obtain out where "rebuild_with_payload ip packet 50 esp = Inr out"
      by (rule rebuild_total [OF ip]) (use fits in auto)
    then show ?thesis
      using that False
      by (simp add: protect_ims_esp_outbound_if_needed_def idx allocate_facts(1) [OF seq(2)] ip esp Let_def)
  qed
qed

text \<open>Sending changes nothing that decides which packets are sendable.\<close>

lemma after_sending:
  assumes "i < length (flows p)"
    and f'_def: "f' = (flows p ! i)\<lparr>next_outbound_sequence := s, outbound_logged := b\<rparr>"
    and p1_def: "p1 = p\<lparr>flows := (flows p)[i := f']\<rparr>"
  shows "sendable p packet rnd \<Longrightarrow> sendable p1 packet rnd"
    and "ims_outbound_flow_index packet p1 = ims_outbound_flow_index packet p"
proof -
  show same: "ims_outbound_flow_index packet p1 = ims_outbound_flow_index packet p"
    using assms(1)
    by (simp add: ims_outbound_flow_index_def p1_def f'_def position_update cong: if_cong option.case_cong sum.case_cong)
  assume ok: "sendable p packet rnd"
  then have "flow_ready rnd (flows p ! i)" using assms(1) by (simp add: sendable_def)
  then have "flow_ready rnd f'" by (simp add: f'_def flow_ready_def)
  then have "\<forall>f \<in> set (flows p1). flow_ready rnd f"
    using ok set_update_subset_insert [of "flows p" i f'] by (auto simp: sendable_def p1_def)
  with ok show "sendable p1 packet rnd" by (simp add: sendable_def same)
qed

lemma room_after_sending:
  assumes "\<forall>f \<in> set (flows p). room_for (Suc k) f" and "i < length (flows p)"
  shows "\<forall>f \<in> set ((flows p)[i := (flows p ! i)\<lparr>next_outbound_sequence :=
    next_outbound_sequence (flows p ! i) + 1, outbound_logged := b\<rparr>]). room_for k f"
proof -
  have all: "room_for k f" if "f \<in> set (flows p)" for f using assms(1) that by (auto simp: room_for_def)
  have "room_for (Suc k) (flows p ! i)" using assms by simp
  moreover from this have "unat (next_outbound_sequence (flows p ! i) + 1) = unat (next_outbound_sequence (flows p ! i)) + 1"
    by (intro allocate_facts(2)) (simp add: room_for_def)
  ultimately have "room_for k ((flows p ! i)\<lparr>next_outbound_sequence :=
    next_outbound_sequence (flows p ! i) + 1, outbound_logged := b\<rparr>)"
    by (simp add: room_for_def)
  then show ?thesis using all set_update_subset_insert [of "flows p" i] by blast
qed

text \<open>Packets sent one after another, each with the random octets drawn for it, each lost or
  delivered; the result of every send that failed and of every arrival.\<close>

fun tunnel_run ::
    "Crypto \<Rightarrow> bool \<Rightarrow> ImsEspRuntimePolicy option \<Rightarrow> ImsEspRuntimePolicy option
      \<Rightarrow> (bytes \<times> bytes option \<times> bool) list \<Rightarrow> (string + bytes) list" where
  "tunnel_run c le p q [] = []"
| "tunnel_run c le p q ((packet, rnd, lost) # rest) =
    (case protect_ims_esp_outbound_if_needed c rnd le packet p of
       (p', Inl e) \<Rightarrow> Inl e # tunnel_run c le p' q rest
     | (p', Inr out) \<Rightarrow>
         if lost then tunnel_run c le p' q rest
         else (case unprotect_ims_esp_inbound_if_needed c out q of
                 (q', r) \<Rightarrow> r # tunnel_run c le p' q' rest))"

definition canonical :: "bytes \<Rightarrow> bytes" where
  "canonical packet = (case parse_ip packet of Inl e \<Rightarrow> packet | Inr ip \<Rightarrow> ip_canonical packet ip)"

lemma tunnel_run_delivers:
  assumes laws: "crypto_laws c" and "policy_mirror p q"
    and "\<forall>(packet, rnd, lost) \<in> set xs. sendable p packet rnd"
    and "\<forall>f \<in> set (flows p). room_for (length xs) f"
  shows "tunnel_run c le (Some p) (Some q) xs =
    map (\<lambda>(packet, _, _). Inr (canonical packet)) (filter (\<lambda>(_, _, lost). \<not> lost) xs)"
  using assms(2-)
proof (induction xs arbitrary: p q)
  case Nil
  then show ?case by simp
next
  case (Cons x xs)
  obtain packet rnd lost where x: "x = (packet, rnd, lost)" by (cases x)
  have ok: "sendable p packet rnd" using Cons.prems(2) x by simp
  then obtain i nh where idx: "ims_outbound_flow_index packet p = Some (i, nh)"
    and iv16: "\<forall>iv. rnd = Some iv \<longrightarrow> length iv = 16"
    by (auto simp: sendable_def split: option.splits)
  then obtain ip where ip: "parse_ip packet = Inr ip"
    by (auto simp: ims_outbound_flow_index_def split: sum.splits)
  have i: "i < length (flows p)" by (rule outbound_index_facts [OF idx ip])
  then have "room_for (length (x # xs)) (flows p ! i)" using Cons.prems(3) nth_mem by blast
  then have room: "room_for 1 (flows p ! i)" by (simp add: room_for_def)
  from laws ok idx ip room obtain p' out
    where sent: "protect_ims_esp_outbound_if_needed c rnd le packet (Some p) = (p', Inr out)"
    by (rule send_total)
  from laws iv16 Cons.prems(1) idx ip sent obtain p1 q1 where p1: "p' = Some p1"
    and mirror: "policy_mirror p1 q" "policy_mirror p1 q1"
    and got: "unprotect_ims_esp_inbound_if_needed c out (Some q) = (Some q1, Inr (ip_canonical packet ip))"
    by (rule tunnel_step)
  have p1': "p1 = p\<lparr>flows := (flows p)[i := (flows p ! i)\<lparr>next_outbound_sequence :=
       next_outbound_sequence (flows p ! i) + 1, outbound_logged := True\<rparr>]\<rparr>"
    using sent idx ip by (rule protect_sent) (use p1 in simp)
  have rest: "\<forall>(packet, rnd, lost) \<in> set xs. sendable p1 packet rnd"
    using Cons.prems(2) after_sending(1) [OF i refl refl] by (auto simp: p1')
  have room': "\<forall>f \<in> set (flows p1). room_for (length xs) f"
    using room_after_sending [OF _ i] Cons.prems(3) by (simp add: p1')
  show ?case
    using Cons.IH [OF mirror(1) rest room'] Cons.IH [OF mirror(2) rest room']
    by (simp add: x sent p1 got canonical_def ip)
qed

section \<open>The UDP checksum on the wire\<close>

lemma verifies_iff:
  assumes "word_total ws \<le> u32_max"
  shows "verifies ws \<longleftrightarrow> word_total ws mod 65535 = 0 \<and> word_total ws \<noteq> 0"
proof -
  let ?s = "wrapping_sum ws"
  note f = fold_carry_facts [of ?s] and s = unat_wrapping_sum [OF assms]
  have "verifies ws \<longleftrightarrow> unat (fold_carry ?s) = 65535" by (simp add: verifies_def word_unat_eq_iff)
  also have "\<dots> \<longleftrightarrow> unat (fold_carry ?s) mod 65535 = 0 \<and> unat (fold_carry ?s) \<noteq> 0"
    using f unat_multiple by auto
  also have "\<dots> \<longleftrightarrow> unat ?s mod 65535 = 0 \<and> unat ?s \<noteq> 0" using f by (metis unat_eq_zero)
  finally show ?thesis by (simp only: s)
qed

lemma word_total_half: "word_total (be_words bs) \<le> 65535 * ((length bs + 1) div 2)"
proof (induction bs rule: be_words.induct)
  case (1 a b rest)
  then show ?case using unat_u16_less [of "u16_from_be [a, b]"] by (simp add: unat_ucast_32 del: unat_u16_less)
next
  case (2 a)
  then show ?case using word_total_bound [of "[a]"] by simp
qed simp

lemma unat_swapped: "unat (u16_to_be True w) = 256 * (unat w mod 256) + unat w div 256"
proof -
  have "\<not> bit (push_bit 8 w) n \<or> \<not> bit (drop_bit 8 w) n" for n
    by (cases "n < 8") (auto simp: bit_simps dest: bit_imp_le_length)
  then have "u16_to_be True w = push_bit 8 w + drop_bit 8 w"
    by (simp add: u16_to_be_def disjunctive_add)
  moreover have "unat (push_bit 8 w) = 256 * (unat w mod 256)"
    by (simp add: push_bit_eq_mult unat_word_ariths mod_mult2_eq [of _ 256 256, symmetric])
       (simp add: mult.commute mod_mult_mult1 [of 256 _ 256, symmetric])
  moreover have "unat (drop_bit 8 w) = unat w div 256"
    by (simp only: unat_drop_bit_eq) (simp add: drop_bit_eq_div)
  moreover have "unat w div 256 < 256" using unat_u16_less [of w] by (intro less_mult_imp_div_less) simp
  moreover have "unat w mod 256 < 256" by simp
  ultimately show ?thesis by (simp add: unat_word_ariths)
qed

lemma swapped_congruent:
  assumes "(a :: nat) < 256" and "b < 256"
  shows "(256 * a + b) mod 65535 = (256 * b + a) mod 65535 \<longleftrightarrow> a = b"
proof -
  let ?k = "int a - int b"
  have "(256 * a + b) mod 65535 = (256 * b + a) mod 65535
      \<longleftrightarrow> int ((256 * a + b) mod 65535) = int ((256 * b + a) mod 65535)"
    by (rule of_nat_eq_iff [symmetric])
  also have "\<dots> \<longleftrightarrow> int (256 * a + b) mod 65535 = int (256 * b + a) mod 65535"
    by (simp only: zmod_int of_nat_numeral)
  also have "\<dots> \<longleftrightarrow> 65535 dvd int (256 * a + b) - int (256 * b + a)" by (rule mod_eq_dvd_iff)
  also have "int (256 * a + b) - int (256 * b + a) = 255 * ?k" by simp
  also have "(65535 :: int) dvd 255 * ?k \<longleftrightarrow> 257 dvd ?k"
    using dvd_mult_cancel_left [of 255 257 ?k] by simp
  also have "\<dots> \<longleftrightarrow> ?k = 0" proof
    assume "257 dvd ?k"
    then have "257 dvd \<bar>?k\<bar>" by simp
    moreover have "\<bar>?k\<bar> < 257" using assms by linarith
    ultimately show "?k = 0" using zdvd_imp_le [of 257 "\<bar>?k\<bar>"] by linarith
  qed simp
  finally show ?thesis by simp
qed

lemma add_mod_cancel: "((t :: nat) + x) mod m = (t + y) mod m \<longleftrightarrow> x mod m = y mod m"
proof -
  have "(t + x) mod m = (t + y) mod m \<longleftrightarrow> int ((t + x) mod m) = int ((t + y) mod m)" by (rule of_nat_eq_iff [symmetric])
  also have "\<dots> \<longleftrightarrow> int (t + x) mod int m = int (t + y) mod int m" by (simp only: zmod_int)
  also have "\<dots> \<longleftrightarrow> int m dvd int (t + x) - int (t + y)" by (rule mod_eq_dvd_iff)
  also have "int (t + x) - int (t + y) = int x - int y" by simp
  also have "int m dvd int x - int y \<longleftrightarrow> int x mod int m = int y mod int m" by (rule mod_eq_dvd_iff [symmetric])
  also have "\<dots> \<longleftrightarrow> x mod m = y mod m" by (simp only: zmod_int [symmetric] of_nat_eq_iff)
  finally show ?thesis .
qed

lemma two_octets_of: "u16_be c = [word_of_nat (unat c div 256), word_of_nat (unat c mod 256)]"
proof -
  have "unat c div 256 < 256" using unat_u16_less [of c] by (intro less_mult_imp_div_less) simp
  then show ?thesis by (simp add: u16_be_def nat_to_be_numeral)
qed

lemma checksum_field:
  assumes "word_total (A @ B) + 65535 \<le> u32_max" and "word_total (A @ B) \<noteq> 0"
    and "c = u16_to_be le (NOT (ucast (fold_carry (wrapping_sum (A @ B)))))"
  shows "verifies (A @ ucast c # B) \<longleftrightarrow> \<not> le \<or> unat c div 256 = unat c mod 256"
proof (cases le)
  case False
  then show ?thesis using checksum_verifies [OF assms(1) refl] assms(3) by (simp add: u16_to_be_def)
next
  case True
  define g :: u16 where "g = NOT (ucast (fold_carry (wrapping_sum (A @ B))))"
  let ?T = "word_total (A @ B)"
  have total: "word_total (A @ ucast d # B) = ?T + unat d" "word_total (A @ ucast d # B) \<le> u32_max" for d :: u16
    using assms(1) unat_u16_less [of d] by (simp_all add: unat_ucast_32 del: unat_u16_less)
  have good: "(?T + unat g) mod 65535 = 0"
    using checksum_verifies [OF assms(1) g_def] verifies_iff [OF total(2)] by (simp only: total)
  have gd: "unat g div 256 < 256" "unat g mod 256 < 256"
    using unat_u16_less [of g] by (simp_all add: less_mult_imp_div_less del: unat_u16_less)
  have c: "unat c = 256 * (unat g mod 256) + unat g div 256"
    using True assms(3) unat_swapped [of g] by (simp add: g_def)
  have "verifies (A @ ucast c # B) \<longleftrightarrow> (?T + unat c) mod 65535 = 0"
    using verifies_iff [OF total(2), of c] assms(2) by (simp only: total add_eq_0_iff_both_eq_0) blast
  also have "\<dots> \<longleftrightarrow> (?T + unat c) mod 65535 = (?T + unat g) mod 65535" using good by simp
  also have "\<dots> \<longleftrightarrow> unat c mod 65535 = unat g mod 65535" by (rule add_mod_cancel)
  also have "\<dots> \<longleftrightarrow> unat g mod 256 = unat g div 256"
    using swapped_congruent [OF gd(2,1)] c div_mult_mod_eq [of "unat g" 256] by (simp add: mult.commute)
  also have "\<dots> \<longleftrightarrow> unat c div 256 = unat c mod 256" using gd by (simp add: c)
  finally show ?thesis using True by simp
qed

lemma pseudo_header_total:
  assumes "parse_ip packet = Inr ip"
  shows "17 \<le> word_total (pseudo_header (ip_src ip) (ip_dst ip) n)"
    and "word_total (pseudo_header (ip_src ip) (ip_dst ip) n) \<le> 65535 * 22"
proof -
  note half = word_total_half
  have "17 \<le> word_total (pseudo_header (ip_src ip) (ip_dst ip) n)
    \<and> word_total (pseudo_header (ip_src ip) (ip_dst ip) n) \<le> 65535 * 22"
  proof (cases "ip_version ip = 4")
    case True
    note f = parse_v4_facts [OF assms True]
    let ?s = "slice_of packet 12 16" and ?d = "slice_of packet 16 20"
    have addr: "ip_src ip = V4 ?s" "ip_dst ip = V4 ?d" by (simp_all add: arg_cong [OF f(6), of ip_src] arg_cong [OF f(6), of ip_dst])
    have len: "length ?s = 4" "length ?d = 4" using f(2,3,4) by simp_all
    have "word_total (be_words [0, 17]) = 17" by code_simp
    then show ?thesis using half [of ?s] half [of ?d] half [of "u16_be (word_of_nat n)"] len by (simp add: addr)
  next
    case False
    note f = parse_v6_facts [OF assms False]
    let ?s = "slice_of packet 8 24" and ?d = "slice_of packet 24 40"
    have addr: "ip_src ip = V6 ?s" "ip_dst ip = V6 ?d" by (simp_all add: arg_cong [OF f(3), of ip_src] arg_cong [OF f(3), of ip_dst])
    have len: "length ?s = 16" "length ?d = 16" using f(2) by simp_all
    have "word_total (be_words [0, 0, 0, 0, 0, 0, 0, 17]) = 17" by code_simp
    then show ?thesis using half [of ?s] half [of ?d] half [of "u32_be (word_of_nat n)"] len by (simp add: addr)
  qed
  then show "17 \<le> word_total (pseudo_header (ip_src ip) (ip_dst ip) n)"
    and "word_total (pseudo_header (ip_src ip) (ip_dst ip) n) \<le> 65535 * 22" by blast+
qed

lemma udp_checksum_octets:
  assumes ip: "parse_ip packet = Inr ip" and udp: "udp_encapsulated le ip f esp = Inr u"
  shows "verifies (pseudo_header (ip_src ip) (ip_dst ip) (length u) @ be_words u) \<longleftrightarrow> \<not> le \<or> u ! 6 = u ! 7"
proof -
  let ?P = "u16_be (fl_local_port f) @ u16_be (fl_remote_port f) @ u16_be (word_of_nat (8 + length esp))"
  let ?ph = "pseudo_header (ip_src ip) (ip_dst ip) (8 + length esp)"
  let ?A = "?ph @ be_words ?P" and ?B = "be_words esp"
  define c where "c = udp_checksum le (ip_src ip) (ip_dst ip) (?P @ [0, 0] @ esp)"
  have small: "8 + length esp \<le> u16_max" and u: "u = ?P @ u16_be c @ esp"
    using udp by (auto simp: udp_encapsulated_def Let_def c_def put_def split: if_splits)
  have zero: "wrapping_sum (?ph @ be_words (?P @ [0, 0] @ esp)) = wrapping_sum (?A @ ?B)"
    by (simp add: be_words_append be_words_u16 wrapping_sum_eq u16_from_be_def be_to_nat_def)
  have "c = u16_to_be le (NOT (ucast (fold_carry (wrapping_sum (?ph @ be_words (?P @ [0, 0] @ esp))))))"
    by (simp only: c_def udp_checksum_def length_append be16.to_be_length list.size) (simp add: add.assoc)
  then have c: "c = u16_to_be le (NOT (ucast (fold_carry (wrapping_sum (?A @ ?B)))))" by (simp only: zero)
  have "word_total ?ph \<le> 65535 * 22" "word_total (be_words ?P) \<le> 65535 * 3" "word_total ?B \<le> 65535 * 32768"
    using pseudo_header_total(2) [OF ip] word_total_half [of ?P] word_total_half [of esp] small by auto
  then have bound: "word_total (?A @ ?B) + 65535 \<le> u32_max" by simp
  have "word_total ?ph \<le> word_total (?A @ ?B)" by simp
  then have "word_total (?A @ ?B) \<noteq> 0" using pseudo_header_total(1) [OF ip, of "8 + length esp"] by linarith
  from checksum_field [OF bound this c]
  have "verifies (?A @ ucast c # ?B) \<longleftrightarrow> \<not> le \<or> unat c div 256 = unat c mod 256" .
  moreover have "?A @ ucast c # ?B = pseudo_header (ip_src ip) (ip_dst ip) (length u) @ be_words u"
  proof -
    have len: "length u = 8 + length esp" by (simp add: u)
    show ?thesis unfolding len by (simp add: u be_words_append be_words_u16)
  qed
  moreover have "u ! 6 = u ! 7 \<longleftrightarrow> unat c div 256 = unat c mod 256"
  proof -
    have "unat c div 256 < 256" using unat_u16_less [of c] by (intro less_mult_imp_div_less) simp
    then have "(word_of_nat (unat c div 256) = (word_of_nat (unat c mod 256) :: u8)) = (unat c div 256 = unat c mod 256)"
      by (simp add: word_unat_eq_iff unat_of_nat)
    then show ?thesis by (simp add: u nth_append two_octets_of [of c])
  qed
  ultimately show ?thesis by simp
qed

section \<open>Properties\<close>

text \<open>
  C23: The SIP tunnel delivers.  Two ends whose policies mirror each other (addresses, ports, SPIs and
  keys swapped, the same ICV and UDP flags) carry every packet of a flow: of a sequence of packets
  sent one after another, over any of the flows in any order, the peer reads exactly those the
  network did not lose, in order, each as its sender wrote it up to trailing octets and the IPv4
  header checksum.  The replay window refuses none of them, and no send fails while the sequence
  numbers last.
\<close>

theorem ims_tunnel_delivers:
  assumes "crypto_laws c" and "policy_mirror p q"
    and "\<forall>(packet, rnd, lost) \<in> set xs. sendable p packet rnd"
    and "\<forall>f \<in> set (flows p). room_for (length xs) f"
  shows "tunnel_run c le (Some p) (Some q) xs =
    map (\<lambda>(packet, _, _). Inr (canonical packet)) (filter (\<lambda>(_, _, lost). \<not> lost) xs)"
  by (rule tunnel_run_delivers [OF assms])

definition sample_flow :: "string \<Rightarrow> u16 \<Rightarrow> u16 \<Rightarrow> u32 \<Rightarrow> u32 \<Rightarrow> bool \<Rightarrow> ImsEspFlowConfig" where
  "sample_flow l a b s r udp = \<lparr>fc_label = l, fc_local_port = a, fc_remote_port = b, fc_outbound_sa_identifier = s,
     fc_inbound_sa_identifier = r, fc_secrets = sample_secrets ''null'' ''hmac_sha1_96'' [] [1, 2],
     fc_icv_include_iv = False, fc_udp_encapsulate = udp\<rparr>"

definition sample_policy :: "IpAddr \<Rightarrow> IpAddr \<Rightarrow> bool \<Rightarrow> ImsEspPolicyConfig" where
  "sample_policy a b flip = \<lparr>pc_profile_id = ''x'', pc_local_addr = a, pc_remote_addr = b,
     pc_local_port_c = 1, pc_local_port_s = 2, pc_remote_port_c = 3, pc_remote_port_s = 4,
     pc_client_flow = (if flip then sample_flow ''client_flow'' 4 1 12 11 True else sample_flow ''client_flow'' 1 4 11 12 True),
     pc_server_flow = (if flip then sample_flow ''server_flow'' 3 2 14 13 False else sample_flow ''server_flow'' 2 3 13 14 False)\<rparr>"

definition sample_sip :: bytes where
  "sample_sip = [0x45, 0, 0, 24, 0, 0, 0, 0, 64, 6, 0, 0, 10, 0, 0, 1, 10, 0, 0, 2, 0, 2, 0, 3]"

abbreviation sample_here :: ImsEspRuntimePolicy where
  "sample_here \<equiv> policy_new (sample_policy (V4 [10, 0, 0, 1]) (V4 [10, 0, 0, 2]) False)"

abbreviation sample_there :: ImsEspRuntimePolicy where
  "sample_there \<equiv> policy_new (sample_policy (V4 [10, 0, 0, 2]) (V4 [10, 0, 0, 1]) True)"

lemma sample_tunnel:
  "policy_mirror sample_here sample_there" "sendable sample_here sample_sip None"
  "\<forall>f \<in> set (flows sample_here). room_for 2 f"
proof -
  note defs = policy_new_def flow_new_def sample_policy_def sample_flow_def
  show "policy_mirror sample_here sample_there"
    by (simp add: policy_mirror_def flow_mirror_def defs sample_secrets_def opposite_def nth_Cons window_new_def
        All_less_Suc2 numeral_2_eq_2 split: nat.split)
  have "ims_outbound_flow_index sample_sip sample_here = Some (1, 6)" by code_simp
  then show "sendable sample_here sample_sip None"
    by (simp add: sendable_def sample_sip_def)
       (simp add: defs flow_ready_def sample_secrets_def cipher_ready_def esp_integrity_len_def)
  show "\<forall>f \<in> set (flows sample_here). room_for 2 f" by (simp add: defs room_for_def)
qed

theorem ims_tunnel_delivers_witness:
  "\<exists>p q. install_ims_esp_policy (sample_policy (V4 [10, 0, 0, 1]) (V4 [10, 0, 0, 2]) False) None = (Some p, Inr ())
    \<and> install_ims_esp_policy (sample_policy (V4 [10, 0, 0, 2]) (V4 [10, 0, 0, 1]) True) None = (Some q, Inr ())
    \<and> tunnel_run sample_crypto True (Some p) (Some q) [(sample_sip, None, True), (sample_sip, None, False)]
      = [Inr (canonical sample_sip)]"
proof -
  let ?xs = "[(sample_sip, None, True), (sample_sip, None, False)] :: (bytes \<times> bytes option \<times> bool) list"
  have "tunnel_run sample_crypto True (Some sample_here) (Some sample_there) ?xs = [Inr (canonical sample_sip)]"
    using ims_tunnel_delivers [OF sample_crypto_laws sample_tunnel(1), of ?xs True] sample_tunnel(2,3)
    by (simp add: numeral_2_eq_2)
  moreover have "install_ims_esp_policy (sample_policy (V4 [10, 0, 0, 1]) (V4 [10, 0, 0, 2]) False) None = (Some sample_here, Inr ())"
    and "install_ims_esp_policy (sample_policy (V4 [10, 0, 0, 2]) (V4 [10, 0, 0, 1]) True) None = (Some sample_there, Inr ())"
    by (simp_all add: install_ims_esp_policy_def sample_policy_def sample_flow_def)
  ultimately show ?thesis by blast
qed

text \<open>
  The checksum of UDP-encapsulated frames is byte-swapped.  \<open>udp_checksum\<close> returns the complement
  already converted with \<open>to_be\<close> and its caller writes it with \<open>to_be_bytes\<close>: on a little-endian host
  the datagram passes the receiver's check exactly when the two octets of the checksum happen to be
  equal, on a big-endian host always.
\<close>

theorem udp_checksum_swapped:
  assumes "parse_ip packet = Inr ip" and "udp_encapsulated little_endian ip f esp = Inr u"
  shows "verifies (pseudo_header (ip_src ip) (ip_dst ip) (length u) @ be_words u)
    \<longleftrightarrow> \<not> little_endian \<or> u ! 6 = u ! 7"
  by (rule udp_checksum_octets [OF assms])

theorem udp_checksum_swapped_witness:
  "\<exists>ip u. parse_ip sample_sip = Inr ip
    \<and> udp_encapsulated True ip (flow_new (sample_flow ''client_flow'' 1 4 11 12 True)) [] = Inr u
    \<and> \<not> verifies (pseudo_header (ip_src ip) (ip_dst ip) (length u) @ be_words u)"
proof -
  let ?f = "flow_new (sample_flow ''client_flow'' 1 4 11 12 True)"
  obtain ip where ip: "parse_ip sample_sip = Inr ip" and addr: "ip_src ip = V4 [10, 0, 0, 1]" "ip_dst ip = V4 [10, 0, 0, 2]"
  proof -
    have "case parse_ip sample_sip of Inl e \<Rightarrow> False
      | Inr ip \<Rightarrow> ip_src ip = V4 [10, 0, 0, 1] \<and> ip_dst ip = V4 [10, 0, 0, 2]" by code_simp
    then show ?thesis using that by (auto split: sum.splits)
  qed
  have port: "u16_be 1 = [0, 1]" "u16_be 4 = [0, 4]" "u16_be 8 = [0, 8]" by (simp_all add: two_octets_of)
  have "udp_checksum True (V4 [10, 0, 0, 1]) (V4 [10, 0, 0, 2]) [0, 1, 0, 4, 0, 8, 0, 0] = 0xd6eb"
    by (simp add: udp_checksum_def wrapping_sum_eq u16_from_be_def be_to_nat_def port fold_carry.simps u16_to_be_def)
  then have sum: "u16_be (udp_checksum True (V4 [10, 0, 0, 1]) (V4 [10, 0, 0, 2]) [0, 1, 0, 4, 0, 8, 0, 0]) = [0xd6, 0xeb]"
    by (simp add: two_octets_of)
  have u: "udp_encapsulated True ip ?f [] = Inr [0, 1, 0, 4, 0, 8, 0xd6, 0xeb]"
    by (simp add: udp_encapsulated_def flow_new_def sample_flow_def port addr sum put_def Let_def)
  from udp_checksum_swapped [OF ip u] ip u show ?thesis by auto
qed

end
