(* ===== verification/Tun_Health.thy ===== *)
theory Tun_Health
  imports Rust_Prelude
begin

text \<open>
  The health of the ESP gateway (\<open>vowifi/tun_gateway.rs\<close>): a state and three failure counters that the
  TUN reader and the two forwarders share as atomics.  Each method is written as the sequence of its
  atomic accesses, so that runs interleave the methods of different threads at every access; all
  accesses are acquire, release or both and each method touches one counter and the state, so an
  interleaving of single accesses is what the memory model allows here.
\<close>

datatype TunGatewayHealthState = Healthy | OutboundTransportLost | InboundTransportLost | TunReaderLost
  | TunWriterLost

fun state_code :: "TunGatewayHealthState \<Rightarrow> u8" where
  "state_code Healthy = 0"
| "state_code OutboundTransportLost = 1"
| "state_code InboundTransportLost = 2"
| "state_code TunReaderLost = 3"
| "state_code TunWriterLost = 4"

fun health_reason :: "TunGatewayHealthState \<Rightarrow> string" where
  "health_reason Healthy = ''healthy''"
| "health_reason OutboundTransportLost = ''vowifi_esp_outbound_transport_lost''"
| "health_reason InboundTransportLost = ''vowifi_esp_inbound_transport_lost''"
| "health_reason TunReaderLost = ''vowifi_tun_reader_lost''"
| "health_reason TunWriterLost = ''vowifi_tun_writer_lost''"

definition GATEWAY_ACCESS_LOST_FAILURE_THRESHOLD :: u32 where
  "GATEWAY_ACCESS_LOST_FAILURE_THRESHOLD = 3"

datatype Counter = OutboundFailures | InboundFailures | TunFailures

record TunGatewayHealth =
  health_state :: u8
  counters :: "Counter \<Rightarrow> u32"

definition health_new :: TunGatewayHealth where
  "health_new = \<lparr>health_state = state_code Healthy, counters = (\<lambda>_. 0)\<rparr>"

definition health_state_of :: "TunGatewayHealth \<Rightarrow> TunGatewayHealthState" where
  "health_state_of h =
    (if health_state h = 1 then OutboundTransportLost
     else if health_state h = 2 then InboundTransportLost
     else if health_state h = 3 then TunReaderLost
     else if health_state h = 4 then TunWriterLost
     else Healthy)"

definition health_is_healthy :: "TunGatewayHealth \<Rightarrow> bool" where
  "health_is_healthy h \<longleftrightarrow> health_state_of h = Healthy"

definition health_access_lost_reason :: "TunGatewayHealth \<Rightarrow> string option" where
  "health_access_lost_reason h =
    (let s = health_state_of h in if s \<noteq> Healthy then Some (health_reason s) else None)"

definition compare_exchange_healthy :: "TunGatewayHealthState \<Rightarrow> TunGatewayHealth \<Rightarrow> TunGatewayHealth" where
  "compare_exchange_healthy s h =
    (if health_state h = state_code Healthy then h\<lparr>health_state := state_code s\<rparr> else h)"

section \<open>The methods, access by access\<close>

datatype HealthCall = RecordSuccess Counter | RecordFailure Counter TunGatewayHealthState
  | MarkTerminal TunGatewayHealthState

text \<open>Where a method is: before its first access, before the store, the increment, the exchange after
  \<open>n\<close> failures, or the load of the counter; or returned with the count, if it has one.\<close>

datatype Point = Start | Resetting | Adding | Losing u32 | Loading | Returned "u32 option"

text \<open>What an access leaves in the history.\<close>

datatype Event = Added Counter TunGatewayHealthState | ResetTo0 Counter | Terminal TunGatewayHealthState

fun health_access :: "HealthCall \<Rightarrow> Point \<Rightarrow> TunGatewayHealth \<Rightarrow> Point \<times> TunGatewayHealth \<times> Event list" where
  "health_access (RecordSuccess c) Start h = (if health_is_healthy h then Resetting else Returned None, h, [])"
| "health_access (RecordSuccess c) Resetting h =
     (Returned None, h\<lparr>counters := (counters h)(c := 0)\<rparr>, [ResetTo0 c])"
| "health_access (RecordFailure c s) Start h = (if health_is_healthy h then Adding else Loading, h, [])"
| "health_access (RecordFailure c s) Loading h = (Returned (Some (counters h c)), h, [])"
| "health_access (RecordFailure c s) Adding h =
    (let failures = saturating_add (counters h c) 1
     in (if failures \<ge> GATEWAY_ACCESS_LOST_FAILURE_THRESHOLD then Losing failures else Returned (Some failures),
         h\<lparr>counters := (counters h)(c := counters h c + 1)\<rparr>, [Added c s]))"
| "health_access (RecordFailure c s) (Losing n) h = (Returned (Some n), compare_exchange_healthy s h, [])"
| "health_access (MarkTerminal s) Start h = (Returned None, compare_exchange_healthy s h, [Terminal s])"
| "health_access _ p h = (p, h, [])"

text \<open>The named methods of the three parties.\<close>

definition record_outbound_success :: HealthCall where "record_outbound_success = RecordSuccess OutboundFailures"

definition record_outbound_failure :: HealthCall where
  "record_outbound_failure = RecordFailure OutboundFailures OutboundTransportLost"

definition record_inbound_success :: HealthCall where "record_inbound_success = RecordSuccess InboundFailures"

definition record_inbound_failure :: HealthCall where
  "record_inbound_failure = RecordFailure InboundFailures InboundTransportLost"

definition record_tun_success :: HealthCall where "record_tun_success = RecordSuccess TunFailures"

definition record_tun_failure :: "TunGatewayHealthState \<Rightarrow> HealthCall" where
  "record_tun_failure s = RecordFailure TunFailures s"

text \<open>A method run to its end with no other thread in between.\<close>

definition run_call :: "HealthCall \<Rightarrow> TunGatewayHealth \<Rightarrow> TunGatewayHealth \<times> u32 option" where
  "run_call call h =
    (let (p1, h1, _) = health_access call Start h;
         (p2, h2, _) = health_access call p1 h1;
         (p3, h3, _) = health_access call p2 h2
     in (h3, case p3 of Returned r \<Rightarrow> r | _ \<Rightarrow> None))"

definition record_success :: "Counter \<Rightarrow> TunGatewayHealth \<Rightarrow> TunGatewayHealth" where
  "record_success c h = fst (run_call (RecordSuccess c) h)"

definition record_failure :: "Counter \<Rightarrow> TunGatewayHealthState \<Rightarrow> TunGatewayHealth \<Rightarrow> TunGatewayHealth \<times> u32" where
  "record_failure c s h = (case run_call (RecordFailure c s) h of (h', r) \<Rightarrow> (h', the r))"

definition mark_terminal :: "TunGatewayHealthState \<Rightarrow> TunGatewayHealth \<Rightarrow> TunGatewayHealth" where
  "mark_terminal s h = fst (run_call (MarkTerminal s) h)"

section \<open>Interleaved runs\<close>

text \<open>Threads are numbered; each has the calls it still has to make, the first of them under way.\<close>

record System =
  health :: TunGatewayHealth
  calls :: "nat \<Rightarrow> HealthCall list"
  points :: "nat \<Rightarrow> Point"
  history :: "Event list"

definition thread_step :: "nat \<Rightarrow> System \<Rightarrow> System" where
  "thread_step t sys =
    (case calls sys t of
       [] \<Rightarrow> sys
     | call # rest \<Rightarrow>
        (case health_access call (points sys t) (health sys) of
           (p, h, events) \<Rightarrow>
             (case p of
                Returned r \<Rightarrow> sys\<lparr>health := h, calls := (calls sys)(t := rest), points := (points sys)(t := Start),
                                history := history sys @ events\<rparr>
              | _ \<Rightarrow> sys\<lparr>health := h, points := (points sys)(t := p), history := history sys @ events\<rparr>)))"

definition start :: "(nat \<Rightarrow> HealthCall list) \<Rightarrow> System" where
  "start programs = \<lparr>health = health_new, calls = programs, points = (\<lambda>_. Start), history = []\<rparr>"

fun run_schedule :: "nat list \<Rightarrow> System \<Rightarrow> System" where
  "run_schedule [] sys = sys"
| "run_schedule (t # ts) sys = run_schedule ts (thread_step t sys)"

text \<open>The increments of a counter since it was last set to 0.\<close>

fun count_event :: "Counter \<Rightarrow> Event \<Rightarrow> nat \<Rightarrow> nat" where
  "count_event c (Added c' s) n = (if c' = c then n + 1 else n)"
| "count_event c (ResetTo0 c') n = (if c' = c then 0 else n)"
| "count_event c (Terminal s) n = n"

definition consecutive :: "Counter \<Rightarrow> Event list \<Rightarrow> nat" where
  "consecutive c es = fold (count_event c) es 0"

lemma consecutive_snoc [simp]:
  "consecutive c [] = 0" "consecutive c (es @ [e]) = count_event c e (consecutive c es)"
  by (simp_all add: consecutive_def)

text \<open>What justifies giving the gateway up as \<open>s\<close>: a definitive failure, or a third failure in a row of
  one counter, reported as \<open>s\<close>.\<close>

definition cause :: "TunGatewayHealthState \<Rightarrow> Event list \<Rightarrow> bool" where
  "cause s es \<longleftrightarrow> Terminal s \<in> set es
     \<or> (\<exists>c pre post. es = pre @ Added c s # post \<and> 3 \<le> consecutive c (pre @ [Added c s]))"

lemma cause_later: "cause s es \<Longrightarrow> cause s (es @ es')"
  unfolding cause_def by (metis Un_iff append.assoc append_Cons set_append)

lemma cause_now: "3 \<le> consecutive c es + 1 \<Longrightarrow> cause s (es @ [Added c s])"
  unfolding cause_def by (intro disjI2 exI [of _ c] exI [of _ es] exI [of _ "[]"]) simp

lemma cause_terminal [simp]: "cause s (es @ [Terminal s])"
  by (simp add: cause_def)

definition sound :: "System \<Rightarrow> bool" where
  "sound sys \<longleftrightarrow>
     (\<forall>c. counters (health sys) c = word_of_nat (consecutive c (history sys)))
   \<and> (\<forall>t n c s rest. points sys t = Losing n \<longrightarrow> calls sys t = RecordFailure c s # rest \<longrightarrow> cause s (history sys))
   \<and> (health_state (health sys) = 0
        \<or> (\<exists>s. health_state (health sys) = state_code s \<and> cause s (history sys)))"

lemma state_code_0 [simp]: "state_code s = 0 \<longleftrightarrow> s = Healthy"
  by (cases s) simp_all

lemma threshold_reached:
  assumes "GATEWAY_ACCESS_LOST_FAILURE_THRESHOLD \<le> saturating_add (word_of_nat n) 1"
  shows "3 \<le> n + 1"
proof -
  have "3 \<le> unat (saturating_add (word_of_nat n :: u32) 1)"
    using assms by (simp add: GATEWAY_ACCESS_LOST_FAILURE_THRESHOLD_def word_le_nat_alt)
  also have "\<dots> \<le> unat (word_of_nat n :: u32) + 1" by (simp add: unat_saturating_add)
  also have "\<dots> \<le> n + 1" by (simp add: unat_of_nat)
  finally show ?thesis .
qed

lemma access_sound:
  assumes sound: "sound sys" and call: "calls sys t = call # rest"
    and acc: "health_access call (points sys t) (health sys) = (p, h, es)"
  shows "(\<forall>c. counters h c = word_of_nat (consecutive c (history sys @ es)))
    \<and> (\<forall>n c s. p = Losing n \<longrightarrow> call = RecordFailure c s \<longrightarrow> cause s (history sys @ es))
    \<and> (health_state h = 0 \<or> (\<exists>s. health_state h = state_code s \<and> cause s (history sys @ es)))"
proof -
  note s = sound [unfolded sound_def, THEN conjunct1, rule_format]
    sound [unfolded sound_def, THEN conjunct2, THEN conjunct1, rule_format, OF _ call [THEN trans]]
    sound [unfolded sound_def, THEN conjunct2, THEN conjunct2]
  have lost: "health_state (health sys) = 0 \<or> (\<exists>s. health_state (health sys) = state_code s \<and> cause s (history sys @ es))"
    using s(3) cause_later by blast
  show ?thesis
  proof (cases call)
    case (RecordSuccess c)
    then show ?thesis
      using acc s(1) lost by (cases "points sys t") (auto split: if_splits)
  next
    case (RecordFailure c st)
    then show ?thesis
    proof (cases "points sys t")
      case Adding
      then show ?thesis
        using acc s(1) lost RecordFailure
        by (auto simp: Let_def s(1) add.commute intro: cause_now dest: threshold_reached split: if_splits)
    next
      case (Losing n)
      then have "cause st (history sys)" using s(2) RecordFailure by simp
      then show ?thesis
        using acc s(1) lost RecordFailure Losing by (auto simp: compare_exchange_healthy_def split: if_splits)
    qed (use acc s lost RecordFailure in \<open>auto split: if_splits\<close>)
  next
    case (MarkTerminal st)
    then show ?thesis
      using acc s(1) lost by (cases "points sys t") (auto simp: compare_exchange_healthy_def split: if_splits)
  qed
qed

lemma thread_step_sound:
  assumes "sound sys"
  shows "sound (thread_step t sys)"
proof (cases "calls sys t")
  case Nil
  then show ?thesis using assms by (simp add: thread_step_def)
next
  case (Cons call rest)
  obtain p h es where acc: "health_access call (points sys t) (health sys) = (p, h, es)"
    by (metis prod_cases3)
  note a = access_sound [OF assms Cons acc]
  have others: "cause s (history sys @ es)" if "points sys u = Losing n" "calls sys u = RecordFailure c s # r" for u n c s r
    using assms that cause_later unfolding sound_def by blast
  show ?thesis
    using a others by (cases p) (auto simp: sound_def thread_step_def Cons acc)
qed

lemma run_schedule_sound: "sound sys \<Longrightarrow> sound (run_schedule ts sys)"
  by (induction ts arbitrary: sys) (simp_all add: thread_step_sound)

lemma start_sound: "sound (start programs)"
  by (simp add: sound_def start_def health_new_def)

lemma run_schedule_append: "run_schedule (ts @ us') sys = run_schedule us' (run_schedule ts sys)"
  by (induction ts arbitrary: sys) simp_all

text \<open>Once lost, always lost, and as the same state.\<close>

lemma access_keeps_lost:
  "health_state h \<noteq> 0 \<Longrightarrow> health_state (fst (snd (health_access call p h))) = health_state h"
  by (cases "(call, p, h)" rule: health_access.cases) (auto simp: Let_def compare_exchange_healthy_def)

lemma thread_step_keeps_lost:
  "health_state (health sys) \<noteq> 0 \<Longrightarrow> health_state (health (thread_step t sys)) = health_state (health sys)"
  using access_keeps_lost [of "health sys" "hd (calls sys t)" "points sys t"]
  by (auto simp: thread_step_def split: list.split prod.split Point.split)

lemma run_keeps_lost:
  "health_state (health sys) \<noteq> 0 \<Longrightarrow> health_state (health (run_schedule ts sys)) = health_state (health sys)"
proof (induction ts arbitrary: sys)
  case (Cons t ts)
  then show ?case by (simp add: thread_step_keeps_lost)
qed simp


lemma state_code_read: "health_state h = state_code s \<Longrightarrow> health_state_of h = s"
  by (cases s) (simp_all add: health_state_of_def)

section \<open>Methods that are not interrupted\<close>

lemma record_success_alone:
  "record_success c h = (if health_is_healthy h then h\<lparr>counters := (counters h)(c := 0)\<rparr> else h)"
  by (simp add: record_success_def run_call_def)

lemma record_failure_alone:
  "record_failure c s h =
    (if health_is_healthy h then
       (let n = saturating_add (counters h c) 1; h' = h\<lparr>counters := (counters h)(c := counters h c + 1)\<rparr>
        in (if n \<ge> 3 then compare_exchange_healthy s h' else h', n))
     else (h, counters h c))"
  by (simp add: record_failure_def run_call_def GATEWAY_ACCESS_LOST_FAILURE_THRESHOLD_def Let_def)

lemma mark_terminal_alone: "mark_terminal s h = compare_exchange_healthy s h"
  by (simp add: mark_terminal_def run_call_def)

lemmas alone = record_success_alone record_failure_alone mark_terminal_alone

section \<open>Properties\<close>

text \<open>
  C20: The gateway is given up only for a cause, and for good.  Whatever calls the threads make and
  however their accesses interleave, the gateway reads healthy, or it reads as lost in a state for
  which some thread reported a definitive failure or a third failure in a row of one counter; and
  no later access, a success or a late failure of another direction, changes that state again.
\<close>

theorem health_lost_for_cause_and_for_good:
  "let sys = run_schedule ts (start programs)
   in (health_is_healthy (health sys)
       \<or> cause (health_state_of (health sys)) (history sys)
         \<and> health_state_of (health (run_schedule ts' sys)) = health_state_of (health sys))"
proof -
  let ?sys = "run_schedule ts (start programs)"
  have s: "sound ?sys" by (rule run_schedule_sound [OF start_sound])
  have "health_is_healthy (health ?sys)
       \<or> cause (health_state_of (health ?sys)) (history ?sys)
         \<and> health_state_of (health (run_schedule ts' ?sys)) = health_state_of (health ?sys)"
  proof (cases "health_state (health ?sys) = 0")
    case True
    then show ?thesis by (simp add: health_is_healthy_def health_state_of_def)
  next
    case False
    then obtain st where "health_state (health ?sys) = state_code st" "cause st (history ?sys)"
      using s unfolding sound_def by blast
    then have "health_state_of (health ?sys) = st" and "health_state_of (health (run_schedule ts' ?sys)) = st"
      using run_keeps_lost [OF False, of ts'] by (simp_all only: state_code_read)
    with \<open>cause st (history ?sys)\<close> show ?thesis by simp
  qed
  then show ?thesis by (simp add: Let_def)
qed

text \<open>Rounds of two failed writes and a packet read.\<close>

fun masked_failures :: "nat \<Rightarrow> TunGatewayHealth \<Rightarrow> TunGatewayHealth" where
  "masked_failures 0 h = h"
| "masked_failures (Suc n) h =
    masked_failures n (record_success TunFailures (fst (record_failure TunFailures TunWriterLost
      (fst (record_failure TunFailures TunWriterLost h)))))"

text \<open>
  A TUN writer that never succeeds can go unnoticed.  The reader and the writer of the TUN device
  count their failures in one counter, which every packet read sets back to 0: however often writes
  fail, as long as a packet is read after every second failure the gateway stays healthy.
\<close>

theorem writer_failures_masked_by_reads:
  "masked_failures n health_new = health_new \<and> health_is_healthy (masked_failures n health_new)"
proof -
  have round: "record_success TunFailures (fst (record_failure TunFailures TunWriterLost
      (fst (record_failure TunFailures TunWriterLost health_new)))) = health_new"
    by (simp add: alone Let_def health_new_def health_is_healthy_def health_state_of_def fun_eq_iff saturating_add_def
        word_le_nat_alt)
  have "masked_failures n health_new = health_new" by (induction n) (simp_all add: round)
  then show ?thesis by (simp add: health_is_healthy_def health_state_of_def health_new_def)
qed

end
