(* ===== verification/Tun_Gateway.thy ===== *)
theory Tun_Gateway
  imports Ip_Fragmenter Ims_Esp Tun_Health
begin

text \<open>
  The running ESP gateway (\<open>spawn_forwarders\<close> and \<open>spawn_tun_reader\<close> of \<open>vowifi/tun_gateway.rs\<close>): the
  blocking reader of the TUN device, the outbound and the inbound forwarder, with what they share,
  composed of the reassemblers, the inner ipsec-3gpp layer, the fragmenter, the outer ESP layer, the
  replay window and the health counters.  A step takes one of the three loops from one point where it
  waits (for a packet, a datagram, room in the channel) to the next, or is its check of the shutdown
  flag; sockets, device and clock are the environment: what is read or received, whether a send or write succeeds,
  the time and the random octets are arguments.  Log output is left out.
\<close>

record GatewayConfig =
  gw_inbound_sa_identifier :: u32
  gw_outbound_sa_identifier :: u32
  gw_secrets :: ChildSaSecretPair

text \<open>\<open>env_iv s\<close> are the octets the generator yields for the outer frame \<open>s\<close>, \<open>env_send s k\<close> whether its
  \<open>k\<close>-th attempt is sent.\<close>

record Environment =
  env_crypto :: Crypto
  env_little_endian :: bool
  env_iv :: "u64 \<Rightarrow> bytes option"
  env_send :: "u64 \<Rightarrow> nat \<Rightarrow> bool"

text \<open>What the tasks share; then the reader with its channel; then the variables of the outbound and
  of the inbound forwarder.  The last fields are the frames given to the socket in the order of the
  attempts, those of them whose sending succeeded, and the packets written to the device.\<close>

record TunGateway =
  ims_esp_policy :: "ImsEspRuntimePolicy option"
  gw_health :: TunGatewayHealth
  shutdown :: bool
  reader_running :: bool
  reader_reading :: bool
  reader_pending :: "bytes option"
  inner_queue :: "bytes list"
  outbound_running :: bool
  sequence_number :: u64
  ipv4_fragment_buffers :: "bytes frag_buffers"
  ipv6_fragment_buffers :: "(bytes \<times> u8) frag_buffers"
  inner_fragment_id :: u32
  inbound_running :: bool
  inbound_receiving :: bool
  replay :: AntiReplayWindow
  inbound_fragment_buffers :: "bytes frag_buffers"
  attempted_frames :: "bytes list"
  sent_frames :: "bytes list"
  written :: "bytes list"

definition gateway_new :: "u32 \<Rightarrow> TunGateway" where
  "gateway_new ident =
     \<lparr>ims_esp_policy = None, gw_health = health_new, shutdown = False, reader_running = True, reader_reading = False, reader_pending = None,
      inner_queue = [], outbound_running = True, sequence_number = 1, ipv4_fragment_buffers = [],
      ipv6_fragment_buffers = [], inner_fragment_id = ident, inbound_running = True, inbound_receiving = False, replay = window_new 64,
      inbound_fragment_buffers = [], attempted_frames = [], sent_frames = [], written = []\<rparr>"

section \<open>The reader\<close>

datatype ReadResult = ReadEof | ReadPacket bytes | ReadInterrupted | ReadFailed

text \<open>The reader has lost the device or its forwarder.\<close>

definition reader_lost :: "TunGateway \<Rightarrow> TunGateway" where
  "reader_lost g = g\<lparr>gw_health := mark_terminal TunReaderLost (gw_health g), shutdown := True, reader_running := False\<rparr>"

definition reader_top :: "TunGateway \<Rightarrow> TunGateway" where
  "reader_top g =
    (if \<not> reader_running g \<or> reader_reading g \<or> reader_pending g \<noteq> None then g
     else if shutdown g then g\<lparr>reader_running := False\<rparr>
     else g\<lparr>reader_reading := True\<rparr>)"

definition reader_round :: "ReadResult \<Rightarrow> TunGateway \<Rightarrow> TunGateway" where
  "reader_round res g =
    (if \<not> reader_running g \<or> \<not> reader_reading g then g
     else
       let g1 = g\<lparr>reader_reading := False\<rparr> in
       (case res of
          ReadPacket p \<Rightarrow> g1\<lparr>gw_health := record_success TunFailures (gw_health g), reader_pending := Some p\<rparr>
        | ReadInterrupted \<Rightarrow> g1
        | _ \<Rightarrow> reader_lost (g1\<lparr>gw_health := fst (record_failure TunFailures TunReaderLost (gw_health g))\<rparr>)))"

text \<open>\<open>blocking_send\<close> on the channel of 128 packets, which fails when the receiver is gone.\<close>

definition reader_send :: "TunGateway \<Rightarrow> TunGateway" where
  "reader_send g =
    (case reader_pending g of
       None \<Rightarrow> g
     | Some p \<Rightarrow>
        if \<not> outbound_running g then reader_lost (g\<lparr>reader_pending := None\<rparr>)
        else if length (inner_queue g) < 128
        then g\<lparr>reader_pending := None, inner_queue := inner_queue g @ [p]\<rparr>
        else g)"

section \<open>The outbound forwarder\<close>

text \<open>One protected frame: sent, sent again after a delay, or counted as a failure; \<open>True\<close> ends the
  forwarder.\<close>

definition send_frame :: "Environment \<Rightarrow> u64 \<Rightarrow> bytes \<Rightarrow> TunGateway \<Rightarrow> TunGateway \<times> bool" where
  "send_frame env s frame g =
    (let g1 = g\<lparr>attempted_frames := attempted_frames g @ [frame]\<rparr>;
         (g2, sent) =
           (if env_send env s 0 then (g1, True)
            else (g1\<lparr>attempted_frames := attempted_frames g1 @ [frame]\<rparr>, env_send env s 1))
     in if sent
        then (g2\<lparr>gw_health := record_success OutboundFailures (gw_health g2), sent_frames := sent_frames g2 @ [frame]\<rparr>, False)
        else
          let h = fst (record_failure OutboundFailures OutboundTransportLost (gw_health g2))
          in if \<not> health_is_healthy h then (g2\<lparr>gw_health := h, shutdown := True\<rparr>, True)
             else (g2\<lparr>gw_health := h\<rparr>, False))"

fun send_fragments :: "Environment \<Rightarrow> GatewayConfig \<Rightarrow> bytes list \<Rightarrow> TunGateway \<Rightarrow> TunGateway \<times> bool" where
  "send_fragments env cfg [] g = (g, False)"
| "send_fragments env cfg (fragment # rest) g =
    (case inner_next_header fragment of
       None \<Rightarrow> send_fragments env cfg rest g
     | Some nh \<Rightarrow>
        let current_sequence = sequence_number g;
            g1 = g\<lparr>sequence_number := saturating_add current_sequence 1\<rparr> in
        (case protect_inner_packet_for_esp (env_crypto env) (env_iv env current_sequence)
                (gw_outbound_sa_identifier cfg) current_sequence fragment nh (gw_secrets cfg) of
           Inl e \<Rightarrow> send_fragments env cfg rest g1
         | Inr (frame, summ) \<Rightarrow>
            (case send_frame env current_sequence frame g1 of
               (g2, stop) \<Rightarrow> if stop then (g2, True) else send_fragments env cfg rest g2)))"

definition outbound_packet ::
    "Environment \<Rightarrow> GatewayConfig \<Rightarrow> Instant \<Rightarrow> bytes option \<Rightarrow> bytes \<Rightarrow> TunGateway \<Rightarrow> TunGateway \<times> bool" where
  "outbound_packet env cfg now ims_iv packet g =
    (case reassemble_outbound_ip_fragment now packet (ipv4_fragment_buffers g) of
       (b4, Forward packet) \<Rightarrow>
         (case reassemble_outbound_ipv6_fragment now packet (ipv6_fragment_buffers g) of
            (b6, Forward packet) \<Rightarrow>
              (case protect_ims_esp_outbound_if_needed (env_crypto env) ims_iv (env_little_endian env) packet
                      (ims_esp_policy g) of
                 (policy, Inl e) \<Rightarrow>
                   (g\<lparr>ipv4_fragment_buffers := b4, ipv6_fragment_buffers := b6, ims_esp_policy := policy\<rparr>, False)
               | (policy, Inr packet) \<Rightarrow>
                   (case fragment_inner_packet (inner_fragment_id g) packet OUTER_TUNNEL_INNER_IP_MAX of
                      (ident, fragments) \<Rightarrow>
                        send_fragments env cfg fragments
                          (g\<lparr>ipv4_fragment_buffers := b4, ipv6_fragment_buffers := b6, ims_esp_policy := policy,
                             inner_fragment_id := ident\<rparr>)))
          | (b6, _) \<Rightarrow> (g\<lparr>ipv4_fragment_buffers := b4, ipv6_fragment_buffers := b6\<rparr>, False))
     | (b4, _) \<Rightarrow> (g\<lparr>ipv4_fragment_buffers := b4\<rparr>, False))"

definition outbound_round ::
    "Environment \<Rightarrow> GatewayConfig \<Rightarrow> Instant \<Rightarrow> bytes option \<Rightarrow> TunGateway \<Rightarrow> TunGateway" where
  "outbound_round env cfg now ims_iv g =
    (if \<not> outbound_running g then g
     else
       (case inner_queue g of
          [] \<Rightarrow> if reader_running g then g else g\<lparr>outbound_running := False\<rparr>
        | packet # rest \<Rightarrow>
           if shutdown g then g\<lparr>inner_queue := [], outbound_running := False\<rparr>
           else (case outbound_packet env cfg now ims_iv packet (g\<lparr>inner_queue := rest\<rparr>) of
                   (g', stop) \<Rightarrow> if stop then g'\<lparr>inner_queue := [], outbound_running := False\<rparr> else g')))"

section \<open>The inbound forwarder\<close>

text \<open>What a receive returns; with a datagram, whether writing its packet to the device succeeds (a
  write error and a poisoned lock are treated alike).\<close>

datatype Received = Datagram bytes bool | RecvTimeout | RecvError

text \<open>A failure of the inbound forwarder has been counted.\<close>

definition inbound_failed :: "TunGatewayHealth \<Rightarrow> TunGateway \<Rightarrow> TunGateway" where
  "inbound_failed h g =
    (if \<not> health_is_healthy h then g\<lparr>gw_health := h, shutdown := True, inbound_running := False\<rparr>
     else g\<lparr>gw_health := h\<rparr>)"

definition write_inner :: "bool \<Rightarrow> bytes \<Rightarrow> TunGateway \<Rightarrow> TunGateway" where
  "write_inner ok inner g =
    (if ok then g\<lparr>gw_health := record_success TunFailures (gw_health g), written := written g @ [inner]\<rparr>
     else inbound_failed (fst (record_failure TunFailures TunWriterLost (gw_health g))) g)"

text \<open>An ESP frame of the tunnel.  A panic while it is taken apart ends the task and nothing else.\<close>

definition inbound_frame ::
    "Environment \<Rightarrow> GatewayConfig \<Rightarrow> Instant \<Rightarrow> bytes \<Rightarrow> bool \<Rightarrow> TunGateway \<Rightarrow> TunGateway" where
  "inbound_frame env cfg now packet write_ok g =
    (case unprotect_inner_packet_from_esp (env_crypto env) packet (gw_secrets cfg) of
       Inl e \<Rightarrow> g
     | Inr (inner, summ) \<Rightarrow>
        (case accept_bit (replay g) (ucast (be32_at packet 4)) of
           (w, accepted) \<Rightarrow>
             let g1 = g\<lparr>replay := w\<rparr> in
             if \<not> accepted then g1
             else
               (case reassemble_inbound_ip_fragment now inner (inbound_fragment_buffers g1) of
                  None \<Rightarrow> g1\<lparr>inbound_running := False\<rparr>
                | Some (bs, Forward inner) \<Rightarrow>
                   (case unprotect_ims_esp_inbound_if_needed (env_crypto env) inner (ims_esp_policy g1) of
                      (policy, Inl e) \<Rightarrow> g1\<lparr>inbound_fragment_buffers := bs, ims_esp_policy := policy\<rparr>
                    | (policy, Inr inner) \<Rightarrow>
                       write_inner write_ok inner (g1\<lparr>inbound_fragment_buffers := bs, ims_esp_policy := policy\<rparr>))
                | Some (bs, _) \<Rightarrow> g1\<lparr>inbound_fragment_buffers := bs\<rparr>)))"

definition inbound_top :: "TunGateway \<Rightarrow> TunGateway" where
  "inbound_top g =
    (if \<not> inbound_running g \<or> inbound_receiving g then g
     else if shutdown g then g\<lparr>inbound_running := False\<rparr>
     else g\<lparr>inbound_receiving := True\<rparr>)"

definition inbound_round ::
    "Environment \<Rightarrow> GatewayConfig \<Rightarrow> Instant \<Rightarrow> Received \<Rightarrow> TunGateway \<Rightarrow> TunGateway" where
  "inbound_round env cfg now received g =
    (if \<not> inbound_running g \<or> \<not> inbound_receiving g then g
     else
       let g0 = g\<lparr>inbound_receiving := False\<rparr> in
       (case received of
          RecvTimeout \<Rightarrow> g0
        | RecvError \<Rightarrow> inbound_failed (fst (record_failure InboundFailures InboundTransportLost (gw_health g))) g0
        | Datagram packet write_ok \<Rightarrow>
            let g1 = g0\<lparr>gw_health := record_success InboundFailures (gw_health g)\<rparr> in
            if packet = [0xff] \<or> starts_with packet [0, 0, 0, 0] then g1
            else if length packet < 8 \<or> be32_at packet 0 \<noteq> gw_inbound_sa_identifier cfg then g1
            else inbound_frame env cfg now packet write_ok g1))"

section \<open>Runs of the gateway\<close>

datatype GatewayEvent = ReaderTop | ReaderRead ReadResult | ReaderSend | OutboundNext Instant "bytes option"
  | InboundTop | InboundNext Instant Received | InstallPolicy ImsEspPolicyConfig | Shutdown

fun gateway_step :: "Environment \<Rightarrow> GatewayConfig \<Rightarrow> GatewayEvent \<Rightarrow> TunGateway \<Rightarrow> TunGateway" where
  "gateway_step env cfg ReaderTop g = reader_top g"
| "gateway_step env cfg (ReaderRead res) g = reader_round res g"
| "gateway_step env cfg ReaderSend g = reader_send g"
| "gateway_step env cfg (OutboundNext now ims_iv) g = outbound_round env cfg now ims_iv g"
| "gateway_step env cfg InboundTop g = inbound_top g"
| "gateway_step env cfg (InboundNext now received) g = inbound_round env cfg now received g"
| "gateway_step env cfg (InstallPolicy c) g =
     g\<lparr>ims_esp_policy := fst (install_ims_esp_policy c (ims_esp_policy g))\<rparr>"
| "gateway_step env cfg Shutdown g = g\<lparr>shutdown := True\<rparr>"

definition gateway_run :: "Environment \<Rightarrow> GatewayConfig \<Rightarrow> GatewayEvent list \<Rightarrow> TunGateway \<Rightarrow> TunGateway" where
  "gateway_run env cfg evs g = fold (gateway_step env cfg) evs g"

text \<open>What the rest of the program reads off a gateway.\<close>

definition access_lost_reason :: "TunGateway \<Rightarrow> string option" where
  "access_lost_reason g =
    (case health_access_lost_reason (gw_health g) of
       Some r \<Rightarrow> Some r
     | None \<Rightarrow> if shutdown g then Some ''vowifi_gateway_shutdown'' else None)"

section \<open>Sequence numbers of the outer frames\<close>

text \<open>
  The protected frames carry the tunnel's SPI and increasing sequence numbers, all below the next one;
  the socket is given each of them once, or twice in a row when its first attempt fails, and those with
  a successful attempt count as sent.
\<close>

definition frame_number :: "bytes \<Rightarrow> nat" where
  "frame_number frame = unat (be32_at frame 4)"

definition attempts_of :: "Environment \<Rightarrow> bytes \<Rightarrow> bytes list" where
  "attempts_of env f = (if env_send env (word_of_nat (frame_number f)) 0 then [f] else [f, f])"

definition got_through :: "Environment \<Rightarrow> bytes \<Rightarrow> bool" where
  "got_through env f \<longleftrightarrow> (\<exists>k \<in> {0, 1}. env_send env (word_of_nat (frame_number f)) k)"

definition frames_ordered :: "Environment \<Rightarrow> GatewayConfig \<Rightarrow> TunGateway \<Rightarrow> bool" where
  "frames_ordered env cfg g \<longleftrightarrow>
     (\<exists>fs. (\<forall>f \<in> set fs. be32_at f 0 = gw_outbound_sa_identifier cfg
          \<and> frame_number f < unat (sequence_number g))
        \<and> sorted_wrt (<) (map frame_number fs)
        \<and> attempted_frames g = concat (map (attempts_of env) fs)
        \<and> sent_frames g = filter (got_through env) fs)"

lemma frames_ordered_fields [simp]:
  "frames_ordered env cfg (g\<lparr>ims_esp_policy := a\<rparr>) = frames_ordered env cfg g"
  "frames_ordered env cfg (g\<lparr>gw_health := b\<rparr>) = frames_ordered env cfg g"
  "frames_ordered env cfg (g\<lparr>shutdown := c\<rparr>) = frames_ordered env cfg g"
  "frames_ordered env cfg (g\<lparr>reader_running := c\<rparr>) = frames_ordered env cfg g"
  "frames_ordered env cfg (g\<lparr>reader_reading := c\<rparr>) = frames_ordered env cfg g"
  "frames_ordered env cfg (g\<lparr>inbound_receiving := c\<rparr>) = frames_ordered env cfg g"
  "frames_ordered env cfg (g\<lparr>reader_pending := d\<rparr>) = frames_ordered env cfg g"
  "frames_ordered env cfg (g\<lparr>inner_queue := e\<rparr>) = frames_ordered env cfg g"
  "frames_ordered env cfg (g\<lparr>outbound_running := c\<rparr>) = frames_ordered env cfg g"
  "frames_ordered env cfg (g\<lparr>ipv4_fragment_buffers := f\<rparr>) = frames_ordered env cfg g"
  "frames_ordered env cfg (g\<lparr>ipv6_fragment_buffers := h\<rparr>) = frames_ordered env cfg g"
  "frames_ordered env cfg (g\<lparr>inner_fragment_id := k\<rparr>) = frames_ordered env cfg g"
  "frames_ordered env cfg (g\<lparr>inbound_running := c\<rparr>) = frames_ordered env cfg g"
  "frames_ordered env cfg (g\<lparr>replay := l\<rparr>) = frames_ordered env cfg g"
  "frames_ordered env cfg (g\<lparr>inbound_fragment_buffers := f\<rparr>) = frames_ordered env cfg g"
  "frames_ordered env cfg (g\<lparr>written := m\<rparr>) = frames_ordered env cfg g"
  by (simp_all add: frames_ordered_def)

lemma send_frame_frames:
  assumes "send_frame env s frame g = (g', stop)" and "frame_number frame = unat s"
  shows "sequence_number g' = sequence_number g"
    and "attempted_frames g' = attempted_frames g @ attempts_of env frame"
    and "sent_frames g' = sent_frames g @ (if got_through env frame then [frame] else [])"
  using assms by (auto simp: send_frame_def attempts_of_def got_through_def Let_def split: if_splits)

lemma protected_frame:
  assumes "protect_inner_packet_for_esp c rnd spi s inner nh secrets = Inr (frame, summ)"
  shows "be32_at frame 0 = spi" "frame_number frame = unat s" "unat s \<le> u32_max"
proof -
  note h = protect_header [OF assms [unfolded protect_inner_packet_for_esp_def]]
  show "be32_at frame 0 = spi" "unat s \<le> u32_max" using h by simp_all
  show "frame_number frame = unat s"
    using h(2,4) by (simp add: frame_number_def unsigned_ucast_eq take_bit_eq_mod)
qed

lemma send_fragments_ordered:
  assumes "frames_ordered env cfg g"
  shows "frames_ordered env cfg (fst (send_fragments env cfg fs g))"
  using assms
proof (induction fs arbitrary: g)
  case (Cons f fs)
  let ?s = "sequence_number g" and ?g1 = "g\<lparr>sequence_number := saturating_add (sequence_number g) 1\<rparr>"
  have mono: "unat ?s \<le> unat (saturating_add ?s 1)" using unat_u64_less [of ?s] by (simp add: unat_saturating_add del: unat_u64_less)
  then have g1: "frames_ordered env cfg ?g1"
    using Cons.prems by (fastforce simp: frames_ordered_def)
  show ?case
  proof (cases "inner_next_header f")
    case None
    then show ?thesis using Cons by simp
  next
    case (Some nh)
    show ?thesis
    proof (cases "protect_inner_packet_for_esp (env_crypto env) (env_iv env ?s) (gw_outbound_sa_identifier cfg) ?s f nh (gw_secrets cfg)")
      case (Inl e)
      then show ?thesis using Some Cons.IH [OF g1] by (simp add: Let_def)
    next
      case (Inr r)
      obtain frame summ where r: "r = (frame, summ)" by (cases r)
      obtain g2 stop where sent: "send_frame env ?s frame ?g1 = (g2, stop)" by (cases "send_frame env ?s frame ?g1")
      note p = protected_frame [OF Inr [unfolded r]]
      note sf = send_frame_frames [OF sent p(2)]
      have up: "unat (saturating_add ?s 1) = unat ?s + 1" using p(3) by (simp add: unat_saturating_add)
      obtain ks where ks: "\<forall>f \<in> set ks. be32_at f 0 = gw_outbound_sa_identifier cfg \<and> frame_number f < unat ?s"
        "sorted_wrt (<) (map frame_number ks)" "attempted_frames g = concat (map (attempts_of env) ks)"
        "sent_frames g = filter (got_through env) ks"
        using Cons.prems unfolding frames_ordered_def by blast
      have "frames_ordered env cfg g2"
        unfolding frames_ordered_def
        by (rule exI [of _ "ks @ [frame]"])
           (use ks p(1,2) sf up in \<open>auto simp: sorted_wrt_append less_Suc_eq\<close>)
      then show ?thesis using Some Inr r sent Cons.IH [of g2] by (auto simp: Let_def)
    qed
  qed
qed simp

lemma outbound_packet_ordered:
  "frames_ordered env cfg g \<Longrightarrow> frames_ordered env cfg (fst (outbound_packet env cfg now iv packet g))"
  by (simp add: outbound_packet_def send_fragments_ordered
      split: prod.split FragmentReassemblyOutcome.split sum.split)

lemma outbound_round_ordered:
  "frames_ordered env cfg g \<Longrightarrow> frames_ordered env cfg (outbound_round env cfg now iv g)"
proof -
  assume "frames_ordered env cfg g"
  then have "frames_ordered env cfg g'" if "outbound_packet env cfg now iv p (g\<lparr>inner_queue := q\<rparr>) = (g', s)" for p q g' s
    using outbound_packet_ordered [of env cfg "g\<lparr>inner_queue := q\<rparr>" now iv p] that by simp
  with \<open>frames_ordered env cfg g\<close> show ?thesis by (simp add: outbound_round_def split: list.split prod.split)
qed

lemma inbound_failed_sends [simp]: "frames_ordered env cfg (inbound_failed h g) = frames_ordered env cfg g"
  by (simp add: inbound_failed_def)

lemma write_inner_sends [simp]: "frames_ordered env cfg (write_inner ok p g) = frames_ordered env cfg g"
  by (simp add: write_inner_def)

lemma inbound_frame_sends [simp]: "frames_ordered env cfg (inbound_frame env' cfg' now packet ok g) = frames_ordered env cfg g"
  by (simp add: inbound_frame_def Let_def split: prod.split sum.split option.split FragmentReassemblyOutcome.split)

lemma gateway_step_ordered:
  "frames_ordered env cfg g \<Longrightarrow> frames_ordered env cfg (gateway_step env cfg ev g)"
proof (cases ev)
  case (OutboundNext now iv)
  then show "frames_ordered env cfg g \<Longrightarrow> frames_ordered env cfg (gateway_step env cfg ev g)"
    by (simp add: outbound_round_ordered)
qed (simp_all add: reader_top_def reader_round_def reader_send_def reader_lost_def inbound_top_def inbound_round_def Let_def
    split: ReadResult.split option.split Received.split)

lemma gateway_run_induct:
  assumes "P g" and "\<And>ev g. P g \<Longrightarrow> P (gateway_step env cfg ev g)"
  shows "P (gateway_run env cfg evs g)"
  unfolding gateway_run_def using assms by (induction evs arbitrary: g) auto

section \<open>Stopping\<close>

text \<open>The reader and the outbound forwarder stop, and the health is lost, only with the shutdown flag set.\<close>

definition stops_visibly :: "TunGateway \<Rightarrow> bool" where
  "stops_visibly g \<longleftrightarrow> shutdown g \<or> health_is_healthy (gw_health g) \<and> reader_running g \<and> outbound_running g"

lemma healthy_after_success [simp]: "health_is_healthy (record_success c h) = health_is_healthy h"
  by (simp add: record_success_alone health_is_healthy_def health_state_of_def)

lemma stops_visibly_fields [simp]:
  "stops_visibly (g\<lparr>ims_esp_policy := a\<rparr>) = stops_visibly g"
  "stops_visibly (g\<lparr>gw_health := record_success ctr (gw_health g)\<rparr>) = stops_visibly g"
  "stops_visibly (g\<lparr>gw_health := record_success ctr (gw_health g), reader_pending := d\<rparr>) = stops_visibly g"
  "stops_visibly (g\<lparr>gw_health := record_success ctr (gw_health g), sent_frames := m\<rparr>) = stops_visibly g"
  "stops_visibly (g\<lparr>attempted_frames := m\<rparr>) = stops_visibly g"
  "stops_visibly (g\<lparr>gw_health := record_success ctr (gw_health g), written := m\<rparr>) = stops_visibly g"
  "stops_visibly (g\<lparr>shutdown := True\<rparr>)"
  "stops_visibly (g\<lparr>reader_pending := d\<rparr>) = stops_visibly g"
  "stops_visibly (g\<lparr>inner_queue := e\<rparr>) = stops_visibly g"
  "stops_visibly (g\<lparr>sequence_number := s\<rparr>) = stops_visibly g"
  "stops_visibly (g\<lparr>ipv4_fragment_buffers := f\<rparr>) = stops_visibly g"
  "stops_visibly (g\<lparr>ipv6_fragment_buffers := h\<rparr>) = stops_visibly g"
  "stops_visibly (g\<lparr>inner_fragment_id := k\<rparr>) = stops_visibly g"
  "stops_visibly (g\<lparr>inbound_running := b\<rparr>) = stops_visibly g"
  "stops_visibly (g\<lparr>inbound_receiving := b\<rparr>) = stops_visibly g"
  "stops_visibly (g\<lparr>inbound_receiving := b, gw_health := record_success ctr (gw_health g)\<rparr>) = stops_visibly g"
  "stops_visibly (g\<lparr>reader_reading := b\<rparr>) = stops_visibly g"
  "stops_visibly (g\<lparr>replay := l\<rparr>) = stops_visibly g"
  "stops_visibly (g\<lparr>inbound_fragment_buffers := f\<rparr>) = stops_visibly g"
  by (simp_all add: stops_visibly_def)

lemma send_frame_visible:
  assumes "stops_visibly g" and "send_frame env s frame g = (g', stop)"
  shows "stops_visibly g' \<and> (stop \<longrightarrow> shutdown g')"
  using assms by (auto simp: send_frame_def Let_def stops_visibly_def split: if_splits)

lemma send_fragments_visible:
  assumes "stops_visibly g" and "send_fragments env cfg fs g = (g', stop)"
  shows "stops_visibly g' \<and> (stop \<longrightarrow> shutdown g')"
  using assms
proof (induction fs arbitrary: g)
  case (Cons f fs)
  show ?case
  proof (cases "inner_next_header f")
    case None
    then show ?thesis using Cons by simp
  next
    case (Some nh)
    let ?s = "sequence_number g" and ?g1 = "g\<lparr>sequence_number := saturating_add (sequence_number g) 1\<rparr>"
    have g1: "stops_visibly ?g1" using Cons.prems(1) by simp
    show ?thesis
    proof (cases "protect_inner_packet_for_esp (env_crypto env) (env_iv env ?s) (gw_outbound_sa_identifier cfg) ?s f nh (gw_secrets cfg)")
      case (Inl e)
      then show ?thesis using Some Cons.IH [OF g1] Cons.prems(2) by (simp add: Let_def)
    next
      case (Inr r)
      obtain frame summ where r: "r = (frame, summ)" by (cases r)
      obtain g2 halt where sent: "send_frame env ?s frame ?g1 = (g2, halt)" by (cases "send_frame env ?s frame ?g1")
      note v = send_frame_visible [OF g1 sent]
      show ?thesis
        using Some Inr r sent v Cons.IH [of g2] Cons.prems(2) by (cases halt) (auto simp: Let_def)
    qed
  qed
qed simp

lemma outbound_packet_visible:
  assumes "stops_visibly g" and "outbound_packet env cfg now iv packet g = (g', stop)"
  shows "stops_visibly g' \<and> (stop \<longrightarrow> shutdown g')"
proof -
  have send: "stops_visibly g2 \<and> (halt \<longrightarrow> shutdown g2)"
    if "send_fragments env cfg fs (g\<lparr>ipv4_fragment_buffers := a, ipv6_fragment_buffers := b, ims_esp_policy := c,
      inner_fragment_id := d\<rparr>) = (g2, halt)" for a b c d fs g2 halt
    by (rule send_fragments_visible [OF _ that]) (simp add: assms(1))
  show ?thesis
    using assms send by (simp add: outbound_packet_def split: prod.splits FragmentReassemblyOutcome.splits sum.splits) auto
qed

lemma outbound_round_visible:
  assumes "stops_visibly g"
  shows "stops_visibly (outbound_round env cfg now iv g)"
proof -
  have "stops_visibly g' \<and> (stop \<longrightarrow> shutdown g')"
    if "outbound_packet env cfg now iv p (g\<lparr>inner_queue := q\<rparr>) = (g', stop)" for p q g' stop
    by (rule outbound_packet_visible [OF _ that]) (simp add: assms)
  moreover have "reader_running g \<or> shutdown g" using assms by (auto simp: stops_visibly_def)
  ultimately show ?thesis
    using assms by (auto simp: outbound_round_def stops_visibly_def split: list.split prod.split)
qed

lemma inbound_failed_visible: "reader_running g \<and> outbound_running g \<or> shutdown g \<Longrightarrow> stops_visibly (inbound_failed h g)"
  by (auto simp: inbound_failed_def stops_visibly_def)

lemma write_inner_visible: "stops_visibly g \<Longrightarrow> stops_visibly (write_inner ok p g)"
  unfolding write_inner_def by (auto intro: inbound_failed_visible simp: stops_visibly_def [of g])

lemma inbound_frame_visible: "stops_visibly g \<Longrightarrow> stops_visibly (inbound_frame env cfg now packet ok g)"
  by (simp add: inbound_frame_def Let_def write_inner_visible
      split: prod.split sum.split option.split FragmentReassemblyOutcome.split)

lemma inbound_round_visible: "stops_visibly g \<Longrightarrow> stops_visibly (inbound_round env cfg now received g)"
  by (auto simp: inbound_round_def Let_def inbound_frame_visible stops_visibly_def [of g]
      intro!: inbound_failed_visible split: Received.split)

lemma gateway_step_visible: "stops_visibly g \<Longrightarrow> stops_visibly (gateway_step env cfg ev g)"
proof (cases ev)
  case (ReaderRead res)
  then show "stops_visibly g \<Longrightarrow> stops_visibly (gateway_step env cfg ev g)"
    by (auto simp: reader_round_def reader_lost_def stops_visibly_def Let_def split: ReadResult.split)
next
  case ReaderTop
  then show "stops_visibly g \<Longrightarrow> stops_visibly (gateway_step env cfg ev g)"
    by (auto simp: reader_top_def stops_visibly_def)
next
  case ReaderSend
  then show "stops_visibly g \<Longrightarrow> stops_visibly (gateway_step env cfg ev g)"
    by (auto simp: reader_send_def reader_lost_def stops_visibly_def split: option.split)
qed (simp_all add: outbound_round_visible inbound_round_visible inbound_top_def)

lemma gateway_new_starts: "stops_visibly (gateway_new ident)" "frames_ordered env cfg (gateway_new ident)"
proof -
  show "stops_visibly (gateway_new ident)"
    by (simp add: gateway_new_def stops_visibly_def health_new_def health_is_healthy_def health_state_of_def)
  show "frames_ordered env cfg (gateway_new ident)"
    unfolding frames_ordered_def by (rule exI [of _ "[]"]) (simp add: gateway_new_def)
qed

section \<open>A panic of the inbound task\<close>

text \<open>Once its task has ended the inbound forwarder writes nothing more.\<close>

lemma send_fragments_inbound:
  "written (fst (send_fragments env cfg fs g)) = written g
    \<and> inbound_running (fst (send_fragments env cfg fs g)) = inbound_running g"
proof (induction fs arbitrary: g)
  case (Cons f fs)
  have frame: "send_frame env s x g = (g', b) \<Longrightarrow> written g' = written g \<and> inbound_running g' = inbound_running g"
    for s x g g' b by (auto simp: send_frame_def Let_def split: if_splits)
  show ?case by (auto simp: Cons.IH Let_def dest!: frame split: option.split sum.split prod.split)
qed simp

lemma gateway_step_stopped:
  assumes "\<not> inbound_running g"
  shows "\<not> inbound_running (gateway_step env cfg ev g) \<and> written (gateway_step env cfg ev g) = written g"
proof (cases ev)
  case (OutboundNext now iv)
  have packet: "outbound_packet env cfg now iv p g = (g', b) \<Longrightarrow> written g' = written g \<and> inbound_running g' = inbound_running g"
    for p g g' b
    using send_fragments_inbound [of env cfg]
    by (auto simp: outbound_packet_def split: prod.splits FragmentReassemblyOutcome.splits sum.splits dest!: fstI)
  show ?thesis using assms by (auto simp: OutboundNext outbound_round_def dest!: packet split: list.split prod.split)
qed (use assms in \<open>auto simp: reader_top_def reader_round_def reader_send_def reader_lost_def inbound_top_def inbound_round_def Let_def
      split: ReadResult.split option.split\<close>)

lemma gateway_run_stopped:
  assumes "\<not> inbound_running g"
  shows "\<not> inbound_running (gateway_run env cfg evs g) \<and> written (gateway_run env cfg evs g) = written g"
  using gateway_run_induct [of "\<lambda>h. \<not> inbound_running h \<and> written h = written g" g env cfg evs]
    gateway_step_stopped assms by auto

text \<open>Receiving leaves a stopped inbound forwarder, and with it everything else, as it is.\<close>

lemma inbound_ignored: "\<not> inbound_running g \<Longrightarrow> gateway_step env cfg (InboundNext now r) g = g"
  by (simp add: inbound_round_def)

lemma nonzero_spi:
  assumes "4 \<le> length frame" and "be32_at frame 0 \<noteq> 0"
  shows "take 4 frame \<noteq> [0, 0, 0, 0]"
proof
  assume "take 4 frame = [0, 0, 0, 0]"
  then have "frame = [0, 0, 0, 0] @ drop 4 frame" by (metis append_take_drop_id)
  moreover have "be32_at ([0, 0, 0, 0] @ xs) 0 = u32_from_be [0, 0, 0, 0]" for xs by (simp add: be32_at_def)
  ultimately have "be32_at frame 0 = u32_from_be [0, 0, 0, 0]" by metis
  also have "\<dots> = 0" by (simp add: u32_from_be_def be_to_nat_def)
  finally show False using assms(2) by simp
qed

lemma inbound_panics:
  assumes "inbound_running g" and "inbound_receiving g"
    and "8 \<le> length frame" and "be32_at frame 0 = gw_inbound_sa_identifier cfg" and "be32_at frame 0 \<noteq> 0"
    and "unprotect_inner_packet_from_esp (env_crypto env) frame (gw_secrets cfg) = Inr (inner, summ)"
    and "snd (accept_bit (replay g) (ucast (be32_at frame 4)))" and "inbound_fragment_info inner = None"
  shows "\<exists>w. gateway_step env cfg (InboundNext now (Datagram frame ok)) g
    = g\<lparr>inbound_receiving := False, gw_health := record_success InboundFailures (gw_health g), replay := w,
        inbound_running := False\<rparr>"
proof -
  have "take 4 frame \<noteq> [0, 0, 0, 0]" using nonzero_spi assms(3,5) by simp
  then have kept: "\<not> (frame = [0xff] \<or> starts_with frame [0, 0, 0, 0])"
  proof -
    have "starts_with frame [0, 0, 0, 0] \<longleftrightarrow> take 4 frame = [0, 0, 0, 0]"
      by (simp add: starts_with_def numeral_eq_Suc)
    with \<open>take 4 frame \<noteq> [0, 0, 0, 0]\<close> show ?thesis using assms(3) by auto
  qed
  obtain w where w: "accept_bit (replay g) (ucast (be32_at frame 4)) = (w, True)"
    using assms(7) by (cases "accept_bit (replay g) (ucast (be32_at frame 4))") auto
  show ?thesis
    using assms(1-4) kept w
    by (auto simp: inbound_round_def inbound_frame_def Let_def assms(6) reassemble_inbound_ip_fragment_def assms(8)
        intro!: exI [of _ w])
qed


section \<open>Properties\<close>

text \<open>
  C25: Outer frames are numbered once.  In every run of the gateway, whatever is read, received and sent
  and however the tasks take turns, there is a sequence of frames with the outbound SPI of the tunnel
  and strictly increasing sequence numbers, such that what was given to the socket is exactly this
  sequence, each frame once or, when its first attempt fails, twice in a row, octet for octet the
  same; the frames sent are those of the sequence with a successful attempt.  No number protects two
  frames, also when sends fail or the counter reaches its end.
\<close>

theorem gateway_frames_numbered_once:
  "let g = gateway_run env cfg evs (gateway_new ident)
   in \<exists>fs. list_all (\<lambda>f. be32_at f 0 = gw_outbound_sa_identifier cfg) fs
    \<and> sorted_wrt (<) (map frame_number fs)
    \<and> attempted_frames g = concat (map
        (\<lambda>f. if env_send env (word_of_nat (frame_number f)) 0 then [f] else [f, f]) fs)
    \<and> sent_frames g = filter
        (\<lambda>f. env_send env (word_of_nat (frame_number f)) 0 \<or> env_send env (word_of_nat (frame_number f)) 1) fs"
proof -
  have "frames_ordered env cfg (gateway_run env cfg evs (gateway_new ident))"
    by (rule gateway_run_induct [where P = "frames_ordered env cfg"]) (simp_all add: gateway_new_starts gateway_step_ordered)
  then show ?thesis
    unfolding frames_ordered_def Let_def list_all_iff attempts_of_def got_through_def by fastforce
qed

text \<open>
  C26: The gateway does not stop silently.  In every run, as long as no reason for the loss of access is
  reported, the reader and the outbound forwarder are running and the health counters read healthy:
  neither task ends and no threshold is reached without the program being able to see it.
\<close>

theorem gateway_stops_visibly:
  "let g = gateway_run env cfg evs (gateway_new ident)
   in case access_lost_reason g of
        Some reason \<Rightarrow> True
      | None \<Rightarrow> reader_running g \<and> outbound_running g \<and> health_is_healthy (gw_health g)"
proof -
  have "stops_visibly (gateway_run env cfg evs (gateway_new ident))"
    by (rule gateway_run_induct [where P = stops_visibly]) (simp_all add: gateway_new_starts gateway_step_visible)
  then show ?thesis
    by (auto simp: stops_visibly_def access_lost_reason_def Let_def split: option.split if_splits)
qed

text \<open>
  C29: But the inbound forwarder can.  When an authentic frame carries an IPv4 fragment whose header
  length exceeds the packet, slicing the header panics and ends the inbound task.  No reason for a
  loss of access is reported, further datagrams change nothing, and whatever happens later not one
  more packet is written to the device.
\<close>

theorem inbound_panic_goes_unnoticed:
  assumes "inbound_running g" and "inbound_receiving g" and "access_lost_reason g = None" and "8 \<le> length frame"
    and "be32_at frame 0 = gw_inbound_sa_identifier cfg" and "be32_at frame 0 \<noteq> 0"
    and "unprotect_inner_packet_from_esp (env_crypto env) frame (gw_secrets cfg) = Inr (inner, summ)"
    and "snd (accept_bit (replay g) (ucast (be32_at frame 4)))"
    and "ip_nibble inner = Some 4" and "20 \<le> length inner" and "length inner < ihl_of inner"
    and "be16_at inner 6 AND 0x3fff \<noteq> 0"
  shows "let g' = gateway_step env cfg (InboundNext now (Datagram frame ok)) g
    in access_lost_reason g' = None
     \<and> access_lost_reason (gateway_run env cfg (map (\<lambda>(t, r). InboundNext t r) later) g') = None
     \<and> written (gateway_run env cfg evs g') = written g"
proof -
  have "\<not> (be16_at inner 6 AND 0x2000 = 0 \<and> unat (be16_at inner 6 AND 0x1fff) = 0)"
  proof
    assume z: "be16_at inner 6 AND 0x2000 = 0 \<and> unat (be16_at inner 6 AND 0x1fff) = 0"
    have "(0x3fff :: u16) = 0x2000 OR 0x1fff" by simp
    then have "be16_at inner 6 AND 0x3fff = (be16_at inner 6 AND 0x2000) OR (be16_at inner 6 AND 0x1fff)"
      by (simp only: bit.conj_disj_distrib)
    with z assms(12) show False by (metis or.right_neutral unat_eq_zero)
  qed
  then have panic: "inbound_fragment_info inner = None"
    using assms(9-11) by (auto simp: inbound_fragment_info_def Let_def)
  define g' where "g' = gateway_step env cfg (InboundNext now (Datagram frame ok)) g"
  from inbound_panics [OF assms(1,2,4-8) panic] obtain w
    where w: "g' = g\<lparr>inbound_receiving := False, gw_health := record_success InboundFailures (gw_health g),
      replay := w, inbound_running := False\<rparr>"
    unfolding g'_def ..
  have same: "health_access_lost_reason (record_success InboundFailures h) = health_access_lost_reason h" for h
    by (simp add: record_success_alone health_access_lost_reason_def health_state_of_def)
  have "access_lost_reason g' = access_lost_reason g" by (simp add: w access_lost_reason_def same)
  with assms(3) have quiet: "access_lost_reason g' = None" by simp
  have stopped: "\<not> inbound_running g'" by (simp add: w)
  have "gateway_run env cfg (map (\<lambda>(t, r). InboundNext t r) later) g' = g'"
    by (induction later) (auto simp: gateway_run_def inbound_ignored [OF stopped] simp del: gateway_step.simps)
  with quiet have "access_lost_reason (gateway_run env cfg (map (\<lambda>(t, r). InboundNext t r) later) g') = None" by simp
  moreover have "written (gateway_run env cfg evs g') = written g"
    using gateway_run_stopped [OF stopped, of env cfg evs] by (simp add: w)
  ultimately show ?thesis using quiet unfolding Let_def g'_def by blast
qed

definition sample_env :: Environment where
  "sample_env = \<lparr>env_crypto = sample_crypto, env_little_endian = True, env_iv = (\<lambda>_. None), env_send = (\<lambda>_ _. True)\<rparr>"

definition sample_config :: GatewayConfig where
  "sample_config = \<lparr>gw_inbound_sa_identifier = 7, gw_outbound_sa_identifier = 7,
     gw_secrets = sample_secrets ''null'' ''hmac_sha1_96'' [] [1, 2]\<rparr>"

lemma sample_frame:
  assumes "s \<noteq> 0" and "unat s \<le> u32_max"
  obtains frame summ where
    "protect_inner_packet_for_esp sample_crypto None 7 s inner nh (gw_secrets sample_config) = Inr (frame, summ)"
    "unprotect_inner_packet_from_esp sample_crypto frame (gw_secrets sample_config) = Inr (inner, summ)"
    "be32_at frame 0 = 7" "be32_at frame 4 = ucast s" "8 \<le> length frame"
proof -
  let ?k = "gw_secrets sample_config"
  have k: "cipher_ready None ?k" "esp_integrity_len (plan_integrity (summary ?k)) = Inr 12" "opposite ?k ?k"
    by (simp_all add: sample_config_def sample_secrets_def cipher_ready_def esp_integrity_len_def opposite_def)
  obtain frame summ where p: "protect_inner_packet_for_esp_with_mode sample_crypto None 7 s inner nh ?k True = Inr (frame, summ)"
    using protect_total [OF sample_crypto_laws _ assms k(1,2), of 7 inner nh True] by auto
  from that [of frame summ] p protect_then_unprotect [OF sample_crypto_laws _ k(3) p] protect_header [OF p]
  show ?thesis by (simp add: protect_inner_packet_for_esp_def unprotect_inner_packet_from_esp_def)
qed

theorem inbound_panic_goes_unnoticed_witness:
  "\<exists>frame. let g' = gateway_step sample_env sample_config (InboundNext 0 (Datagram frame True))
      (gateway_step sample_env sample_config InboundTop (gateway_new 0))
    in access_lost_reason g' = None
     \<and> access_lost_reason (gateway_run sample_env sample_config (map (\<lambda>(t, r). InboundNext t r) []) g') = None
     \<and> written (gateway_run sample_env sample_config [ReaderTop, ReaderRead (ReadPacket [1]), Shutdown] g') = []"
proof -
  let ?inner = "[0x4f, 0, 0, 20, 0, 0, 0x20, 0] @ replicate 12 0 :: bytes"
  obtain frame summ where f:
    "unprotect_inner_packet_from_esp sample_crypto frame (gw_secrets sample_config) = Inr (?inner, summ)"
    "be32_at frame 0 = 7" "be32_at frame 4 = ucast (1 :: u64)" "8 \<le> length frame"
    by (rule sample_frame [of 1 ?inner 4]) simp_all
  have inner: "ip_nibble ?inner = Some 4" "20 \<le> length ?inner" "length ?inner < ihl_of ?inner" by code_simp+
  have "be16_at ?inner 6 = 0x2000" by (simp add: be16_at_def u16_from_be_def be_to_nat_def)
  then have frag: "be16_at ?inner 6 AND 0x3fff \<noteq> 0" by simp
  let ?g = "gateway_step sample_env sample_config InboundTop (gateway_new 0)"
  have start: "inbound_running ?g" "inbound_receiving ?g" "access_lost_reason ?g = None" "written ?g = []" "replay ?g = window_new 64"
    by (simp_all add: gateway_new_def inbound_top_def access_lost_reason_def health_access_lost_reason_def health_new_def
        health_state_of_def)
  have acc: "snd (accept_bit (replay ?g) (ucast (be32_at frame 4)))"
    unfolding start(5) using accept_new_highest [of 1 "window_new 64"] by (simp add: f(3) window_new_def)
  have tunnel: "be32_at frame 0 = gw_inbound_sa_identifier sample_config" "be32_at frame 0 \<noteq> 0"
    "unprotect_inner_packet_from_esp (env_crypto sample_env) frame (gw_secrets sample_config) = Inr (?inner, summ)"
    using f by (simp_all add: sample_config_def sample_env_def)
  show ?thesis
    using inbound_panic_goes_unnoticed [OF start(1-3) f(4) tunnel acc inner frag, of 0 True "[]"
        "[ReaderTop, ReaderRead (ReadPacket [1]), Shutdown]"]
    by (simp only: start(4)) blast
qed

end
