(* ===== verification/Tun_Delivery.thy ===== *)
theory Tun_Delivery
  imports Tun_Gateway
begin

text \<open>
  Two gateways of \<open>vowifi/tun_gateway.rs\<close> put together: what the outbound forwarder of one end sends for a
  packet, the inbound forwarder of the other end turns back into that packet, through the inner
  ipsec-3gpp layer, the fragmenter, the outer ESP layer, the replay window and the reassembler.
\<close>

section \<open>Frames within a window\<close>

lemma highest_step: "highest_sequence (fst (accept_bit w x)) = highest_sequence w \<or> highest_sequence (fst (accept_bit w x)) = x"
  by (auto simp: accept_bit_def window_accept_def Let_def split: if_splits)

text \<open>\<open>k\<close> numbers above all accepted ones are accepted in any order, if the window is \<open>k\<close> wide.\<close>

lemma accepts_block:
  assumes "tracks_window w A" and "distinct xs" and "set xs \<inter> A = {}"
    and "\<forall>x \<in> set xs. lo \<le> unat x \<and> unat x < lo + unat (window_size w) \<and> x \<noteq> 0"
    and "unat (highest_sequence w) < lo + unat (window_size w)"
  shows "accepted_run accept_bit w xs = xs"
  using assms
proof (induction xs arbitrary: w A)
  case Nil
  then show ?case by simp
next
  case (Cons x xs)
  have size: "window_size (fst (accept_bit w x)) = window_size w"
    by (simp add: accept_bit_def window_accept_def Let_def)
  have "fresh_for w x" using Cons.prems(4,5) by (fastforce simp: fresh_for_def)
  moreover have "x \<notin> A" using Cons.prems(3) by auto
  ultimately have ok: "snd (accept_bit w x)" using window.decides [OF Cons.prems(1)] by blast
  have "accepted_run accept_bit (fst (accept_bit w x)) xs = xs"
  proof (rule Cons.IH)
    show "tracks_window (fst (accept_bit w x)) (insert x A)" by (rule window.tracks_accept [OF Cons.prems(1) ok])
    show "unat (highest_sequence (fst (accept_bit w x))) < lo + unat (window_size (fst (accept_bit w x)))"
      using highest_step [of w x] Cons.prems(4,5) by (auto simp: size)
  qed (use Cons.prems in \<open>auto simp: size\<close>)
  with ok show ?case by (simp add: case_prod_beta)
qed

section \<open>Sending\<close>

text \<open>The frames of a list of fragments, numbered from \<open>s\<close>.\<close>

definition carries :: "Environment \<Rightarrow> GatewayConfig \<Rightarrow> nat \<Rightarrow> bytes \<Rightarrow> bytes \<Rightarrow> bool" where
  "carries env cfg s fragment frame \<longleftrightarrow>
    (\<exists>nh summ. protect_inner_packet_for_esp (env_crypto env) (env_iv env (word_of_nat s))
       (gw_outbound_sa_identifier cfg) (word_of_nat s) fragment nh (gw_secrets cfg) = Inr (frame, summ))"

fun numbered :: "Environment \<Rightarrow> GatewayConfig \<Rightarrow> nat \<Rightarrow> bytes list \<Rightarrow> bytes list \<Rightarrow> bool" where
  "numbered env cfg s [] [] \<longleftrightarrow> True"
| "numbered env cfg s (f # fs) (x # xs) \<longleftrightarrow> carries env cfg s f x \<and> numbered env cfg (s + 1) fs xs"
| "numbered env cfg s _ _ \<longleftrightarrow> False"

text \<open>A tunnel end that can send: its SPI is set, its algorithms are supported, its keys and random octets
  fit, and each frame gets through on the first or the second attempt.\<close>

definition end_ready :: "Environment \<Rightarrow> GatewayConfig \<Rightarrow> bool" where
  "end_ready env cfg \<longleftrightarrow> crypto_laws (env_crypto env) \<and> gw_outbound_sa_identifier cfg \<noteq> 0
     \<and> is_ok (esp_integrity_len (plan_integrity (summary (gw_secrets cfg))))
     \<and> (\<forall>s. cipher_ready (env_iv env s) (gw_secrets cfg)
          \<and> (case env_iv env s of None \<Rightarrow> True | Some iv \<Rightarrow> length iv = 16)
          \<and> (env_send env s 0 \<or> env_send env s 1))"

lemma end_ready_protects:
  assumes "end_ready env cfg" and "s \<noteq> 0" and "s \<le> u32_max"
  obtains frame summ where "protect_inner_packet_for_esp (env_crypto env) (env_iv env (word_of_nat s))
       (gw_outbound_sa_identifier cfg) (word_of_nat s) fragment nh (gw_secrets cfg) = Inr (frame, summ)"
proof -
  obtain n where n: "esp_integrity_len (plan_integrity (summary (gw_secrets cfg))) = Inr n"
    using assms(1) by (auto simp: end_ready_def is_ok_def split: sum.splits)
  have u: "unat (word_of_nat s :: u64) = s" using assms(3) by simp
  then have nz: "(word_of_nat s :: u64) \<noteq> 0" using assms(2) by (metis unat_0)
  have "crypto_laws (env_crypto env)" "gw_outbound_sa_identifier cfg \<noteq> 0"
    "cipher_ready (env_iv env (word_of_nat s)) (gw_secrets cfg)"
    using assms(1) by (simp_all add: end_ready_def)
  from protect_total [OF this(1,2) nz _ this(3) n, of fragment nh True] u assms(3) that show ?thesis
    by (auto simp: protect_inner_packet_for_esp_def)
qed

lemma send_fragments_all:
  assumes ready: "end_ready env cfg" and "\<forall>f \<in> set fs. inner_next_header f \<noteq> None"
    and "sequence_number g = word_of_nat s" and "s \<noteq> 0" and "s + length fs \<le> u32_max + 1"
  shows "\<exists>xs h att. numbered env cfg s fs xs \<and> send_fragments env cfg fs g
    = (g\<lparr>sequence_number := word_of_nat (s + length fs), gw_health := h, attempted_frames := att,
         sent_frames := sent_frames g @ xs\<rparr>, False)"
  using assms(2-)
proof (induction fs arbitrary: g s)
  case Nil
  have "g = g\<lparr>sequence_number := word_of_nat s, gw_health := gw_health g,
      attempted_frames := attempted_frames g, sent_frames := sent_frames g\<rparr>"
    using Nil.prems(2) by simp
  then show ?case by (intro exI [of _ "[]"] exI [of _ "gw_health g"] exI [of _ "attempted_frames g"]) simp
next
  case (Cons f fs)
  obtain nh where nh: "inner_next_header f = Some nh" using Cons.prems(1) by auto
  have small: "s \<le> u32_max" using Cons.prems(4) by simp
  obtain x summ where x: "protect_inner_packet_for_esp (env_crypto env) (env_iv env (word_of_nat s))
       (gw_outbound_sa_identifier cfg) (word_of_nat s) f nh (gw_secrets cfg) = Inr (x, summ)"
    by (rule end_ready_protects [OF ready Cons.prems(3) small])
  have up: "saturating_add (word_of_nat s :: u64) 1 = word_of_nat (s + 1)"
    using small by (simp add: word_unat_eq_iff unat_saturating_add del: of_nat_add of_nat_Suc)
  let ?g1 = "g\<lparr>sequence_number := word_of_nat (s + 1)\<rparr>"
  let ?att = "if env_send env (word_of_nat s) 0 then attempted_frames g @ [x] else attempted_frames g @ [x, x]"
  let ?g2 = "?g1\<lparr>gw_health := record_success OutboundFailures (gw_health g), attempted_frames := ?att,
    sent_frames := sent_frames g @ [x]\<rparr>"
  have sends: "env_send env (word_of_nat s) 0 \<or> env_send env (word_of_nat s) 1" using ready by (simp add: end_ready_def)
  then have frame: "send_frame env (word_of_nat s) x ?g1 = (?g2, False)"
    by (auto simp: send_frame_def Let_def)
  have "\<exists>xs h att. numbered env cfg (s + 1) fs xs \<and> send_fragments env cfg fs ?g2
    = (?g2\<lparr>sequence_number := word_of_nat (s + 1 + length fs), gw_health := h, attempted_frames := att,
         sent_frames := sent_frames ?g2 @ xs\<rparr>, False)"
    by (rule Cons.IH) (use Cons.prems in simp_all)
  then obtain xs h att where rest: "numbered env cfg (s + 1) fs xs" "send_fragments env cfg fs ?g2
    = (?g2\<lparr>sequence_number := word_of_nat (s + 1 + length fs), gw_health := h, attempted_frames := att,
         sent_frames := sent_frames ?g2 @ xs\<rparr>, False)"
    by blast
  have "carries env cfg s f x" using x by (auto simp: carries_def)
  moreover have "send_fragments env cfg (f # fs) g = send_fragments env cfg fs ?g2"
    by (simp only: send_fragments.simps nh option.case Let_def Cons.prems(2) up x sum.case case_prod_conv frame if_False)
  ultimately show ?case
    using rest by (intro exI [of _ "x # xs"] exI [of _ h] exI [of _ att]) (simp del: send_fragments.simps of_nat_add of_nat_Suc)
qed

section \<open>Receiving\<close>

text \<open>The other end of the tunnel: the same library and keys, and the SPI the sender uses.\<close>

definition other_end :: "Environment \<Rightarrow> GatewayConfig \<Rightarrow> Environment \<Rightarrow> GatewayConfig \<Rightarrow> bool" where
  "other_end env cfg env' cfg' \<longleftrightarrow> env_crypto env' = env_crypto env
     \<and> gw_inbound_sa_identifier cfg' = gw_outbound_sa_identifier cfg \<and> opposite (gw_secrets cfg) (gw_secrets cfg')"

text \<open>What the other end finds in a frame.\<close>

definition opened :: "Environment \<Rightarrow> GatewayConfig \<Rightarrow> bytes \<Rightarrow> bytes" where
  "opened env cfg frame = (case unprotect_inner_packet_from_esp (env_crypto env) frame (gw_secrets cfg) of
     Inl e \<Rightarrow> [] | Inr (inner, summ) \<Rightarrow> inner)"

text \<open>A frame the inbound forwarder opens.\<close>

definition good_frame :: "Environment \<Rightarrow> GatewayConfig \<Rightarrow> bytes \<Rightarrow> bool" where
  "good_frame env cfg frame \<longleftrightarrow> 8 \<le> length frame \<and> be32_at frame 0 = gw_inbound_sa_identifier cfg
     \<and> be32_at frame 0 \<noteq> 0
     \<and> is_ok (unprotect_inner_packet_from_esp (env_crypto env) frame (gw_secrets cfg))"

lemma carried_frame:
  assumes ready: "end_ready env cfg" and ends: "other_end env cfg env' cfg'" and c: "carries env cfg s f x"
    and s: "s \<le> u32_max"
  shows "good_frame env' cfg' x" "opened env' cfg' x = f" "frame_number x = s"
proof -
  obtain nh summ where p: "protect_inner_packet_for_esp_with_mode (env_crypto env) (env_iv env (word_of_nat s))
       (gw_outbound_sa_identifier cfg) (word_of_nat s) f nh (gw_secrets cfg) True = Inr (x, summ)"
    using c by (auto simp: carries_def protect_inner_packet_for_esp_def)
  have laws: "crypto_laws (env_crypto env)" and iv: "\<forall>iv. env_iv env (word_of_nat s) = Some iv \<longrightarrow> length iv = 16"
    using ready by (auto simp: end_ready_def split: option.splits)
  have e: "env_crypto env' = env_crypto env" "gw_inbound_sa_identifier cfg' = gw_outbound_sa_identifier cfg"
    "opposite (gw_secrets cfg) (gw_secrets cfg')"
    using ends by (simp_all add: other_end_def)
  note u = protect_then_unprotect [OF laws iv e(3) p] and h = protect_header [OF p]
  show "good_frame env' cfg' x"
    using h(1,3) ready by (simp add: good_frame_def e unprotect_inner_packet_from_esp_def u end_ready_def)
  show "opened env' cfg' x = f" by (simp add: opened_def e unprotect_inner_packet_from_esp_def u)
  show "frame_number x = s"
    using h(2) s by (simp add: frame_number_def unsigned_ucast_eq take_bit_eq_mod)
qed

lemma numbered_frames:
  assumes "end_ready env cfg" and "other_end env cfg env' cfg'" and "numbered env cfg s fs xs"
    and "s + length fs \<le> u32_max + 1"
  shows "list_all (good_frame env' cfg') xs" "map (opened env' cfg') xs = fs"
    "map frame_number xs = [s..<s + length fs]" "length xs = length fs"
proof -
  have "list_all (good_frame env' cfg') xs \<and> map (opened env' cfg') xs = fs
      \<and> map frame_number xs = [s..<s + length fs] \<and> length xs = length fs"
    using assms(3,4)
  proof (induction fs arbitrary: s xs)
    case Nil
    then show ?case by (cases xs) simp_all
  next
    case (Cons f fs)
    obtain x ys where xs: "xs = x # ys" using Cons.prems(1) by (cases xs) simp_all
    have "[s..<s + length (f # fs)] = s # [s + 1..<s + 1 + length fs]" by (simp add: upt_rec [of s] del: upt_Suc)
    then show ?case
      using Cons.IH [of "s + 1" ys] Cons.prems carried_frame [OF assms(1,2), of s f x]
      by (simp add: xs del: upt_Suc)
  qed
  then show "list_all (good_frame env' cfg') xs" "map (opened env' cfg') xs = fs"
    "map frame_number xs = [s..<s + length fs]" "length xs = length fs" by blast+
qed

lemma frame_word: "ucast (be32_at x 4) = (word_of_nat (frame_number x) :: u64)"
  by (simp add: frame_number_def word_unat_eq_iff unsigned_ucast_eq take_bit_eq_mod)

text \<open>The inbound forwarder is waiting to receive.\<close>

definition listening :: "TunGateway \<Rightarrow> bool" where
  "listening g \<longleftrightarrow> inbound_running g \<and> \<not> inbound_receiving g \<and> \<not> shutdown g"

definition arrivals :: "(Instant \<times> bytes) list \<Rightarrow> GatewayEvent list" where
  "arrivals tr = concat (map (\<lambda>(t, x). [InboundTop, InboundNext t (Datagram x True)]) tr)"

lemma gateway_run_simps [simp]:
  "gateway_run env cfg [] g = g"
  "gateway_run env cfg (ev # evs) g = gateway_run env cfg evs (gateway_step env cfg ev g)"
  by (simp_all add: gateway_run_def)

lemma good_frame_kept:
  assumes "good_frame env cfg x"
  shows "\<not> (x = [0xff] \<or> starts_with x [0, 0, 0, 0])"
    "\<not> (length x < 8 \<or> be32_at x 0 \<noteq> gw_inbound_sa_identifier cfg)"
    "\<exists>summ. unprotect_inner_packet_from_esp (env_crypto env) x (gw_secrets cfg) = Inr (opened env cfg x, summ)"
proof -
  have "take 4 x \<noteq> [0, 0, 0, 0]"
    by (rule nonzero_spi) (use assms in \<open>auto simp: good_frame_def\<close>)
  then have "\<not> starts_with x [0, 0, 0, 0]" by (simp add: starts_with_def numeral_eq_Suc)
  then show "\<not> (x = [0xff] \<or> starts_with x [0, 0, 0, 0])" using assms by (auto simp: good_frame_def)
  show "\<not> (length x < 8 \<or> be32_at x 0 \<noteq> gw_inbound_sa_identifier cfg)" using assms by (simp add: good_frame_def)
  show "\<exists>summ. unprotect_inner_packet_from_esp (env_crypto env) x (gw_secrets cfg) = Inr (opened env cfg x, summ)"
    using assms by (auto simp: good_frame_def opened_def is_ok_def split: sum.splits)
qed

definition took_in :: "TunGateway \<Rightarrow> AntiReplayWindow \<Rightarrow> bytes frag_buffers \<Rightarrow> TunGateway" where
  "took_in g w bs = g\<lparr>gw_health := record_success InboundFailures (gw_health g), replay := w, inbound_fragment_buffers := bs\<rparr>"

lemma frame_step:
  assumes "listening g" and "good_frame env cfg x"
    and w: "accept_bit (replay g) (word_of_nat (frame_number x)) = (w, True)"
    and step: "reassemble_inbound_ip_fragment t (opened env cfg x) (inbound_fragment_buffers g) = Some (bs, out)"
  shows "out = Buffered \<Longrightarrow> gateway_run env cfg [InboundTop, InboundNext t (Datagram x True)] g = took_in g w bs"
    and "out = Forward q \<Longrightarrow> unprotect_ims_esp_inbound_if_needed (env_crypto env) q (ims_esp_policy g) = (pol, Inr r)
      \<Longrightarrow> gateway_run env cfg [InboundTop, InboundNext t (Datagram x True)] g
        = write_inner True r ((took_in g w bs)\<lparr>ims_esp_policy := pol\<rparr>)"
proof -
  obtain summ where u: "unprotect_inner_packet_from_esp (env_crypto env) x (gw_secrets cfg) = Inr (opened env cfg x, summ)"
    using good_frame_kept(3) [OF assms(2)] by blast
  note kept = good_frame_kept(1,2) [OF assms(2)]
  have g: "g\<lparr>inbound_receiving := False\<rparr> = g" using assms(1) by (cases g) (simp add: listening_def)
  define g1 where "g1 = g\<lparr>gw_health := record_success InboundFailures (gw_health g)\<rparr>"
  have "gateway_run env cfg [InboundTop, InboundNext t (Datagram x True)] g = inbound_frame env cfg t x True
      ((g\<lparr>inbound_receiving := False\<rparr>)\<lparr>gw_health := record_success InboundFailures (gw_health g)\<rparr>)"
    using assms(1) kept by (auto simp: listening_def inbound_top_def inbound_round_def Let_def)
  then have run: "gateway_run env cfg [InboundTop, InboundNext t (Datagram x True)] g = inbound_frame env cfg t x True g1"
    by (simp only: g g1_def)
  have f: "replay g1 = replay g" "inbound_fragment_buffers g1 = inbound_fragment_buffers g" "ims_esp_policy g1 = ims_esp_policy g"
    by (simp_all add: g1_def)
  show "out = Buffered \<Longrightarrow> gateway_run env cfg [InboundTop, InboundNext t (Datagram x True)] g = took_in g w bs"
    unfolding run by (simp add: inbound_frame_def u f frame_word w step Let_def took_in_def) (simp add: g1_def)
  show "out = Forward q \<Longrightarrow> unprotect_ims_esp_inbound_if_needed (env_crypto env) q (ims_esp_policy g) = (pol, Inr r)
      \<Longrightarrow> gateway_run env cfg [InboundTop, InboundNext t (Datagram x True)] g
        = write_inner True r ((took_in g w bs)\<lparr>ims_esp_policy := pol\<rparr>)"
    unfolding run by (simp add: inbound_frame_def u f frame_word w step Let_def took_in_def) (simp add: g1_def)
qed

lemma listening_kept [simp]:
  "listening (took_in g w bs) = listening g" "listening (write_inner True r g) = listening g"
  "listening (g\<lparr>ims_esp_policy := pol\<rparr>) = listening g"
  by (simp_all add: listening_def took_in_def write_inner_def)

lemma arrivals_written:
  assumes "listening g" and "\<forall>(t, x) \<in> set tr. good_frame env cfg x"
    and "accepted_run accept_bit (replay g) (map (\<lambda>(t, x). word_of_nat (frame_number x)) tr)
      = map (\<lambda>(t, x). word_of_nat (frame_number x)) tr"
    and "reassemble_run reassemble_inbound_ip_fragment (map (\<lambda>(t, x). (t, opened env cfg x)) tr)
      (inbound_fragment_buffers g) = Some outs"
    and "map snd outs = replicate n Buffered @ [Forward q]"
    and "unprotect_ims_esp_inbound_if_needed (env_crypto env) q (ims_esp_policy g) = (pol, Inr r)"
  shows "let g' = gateway_run env cfg (arrivals tr) g
    in written g' = written g @ [r] \<and> ims_esp_policy g' = pol \<and> listening g'"
  using assms
proof (induction tr arbitrary: g outs n)
  case Nil
  then show ?case by simp
next
  case (Cons tx tr)
  obtain t x where tx: "tx = (t, x)" by (cases tx)
  let ?k = "word_of_nat (frame_number x) :: u64"
  obtain bs out outs' where step: "reassemble_inbound_ip_fragment t (opened env cfg x) (inbound_fragment_buffers g) = Some (bs, out)"
    and run: "reassemble_run reassemble_inbound_ip_fragment (map (\<lambda>(t, x). (t, opened env cfg x)) tr) bs = Some outs'"
    and outs: "outs = (opened env cfg x, out) # outs'"
    using Cons.prems(4) by (auto simp: tx split: option.splits)
  obtain w ok where w: "accept_bit (replay g) ?k = (w, ok)" by (cases "accept_bit (replay g) ?k")
  have run_le: "length (accepted_run accept_bit w' ks) \<le> length ks" for w' ks
    by (induction ks arbitrary: w') (auto simp: case_prod_beta intro: le_SucI)
  have ok: "ok"
  proof (rule ccontr)
    assume "\<not> ok"
    then have "accepted_run accept_bit w (map (\<lambda>(t, x). word_of_nat (frame_number x)) tr)
        = ?k # map (\<lambda>(t, x). word_of_nat (frame_number x)) tr"
      using Cons.prems(3) w by (simp add: tx)
    with run_le [of w "map (\<lambda>(t, x). word_of_nat (frame_number x)) tr"] show False by simp
  qed
  have acc: "accepted_run accept_bit w (map (\<lambda>(t, x). word_of_nat (frame_number x)) tr)
      = map (\<lambda>(t, x). word_of_nat (frame_number x)) tr"
    using Cons.prems(3) w ok by (simp add: tx)
  have good: "good_frame env cfg x" using Cons.prems(2) by (simp add: tx)
  note fs = frame_step [OF Cons.prems(1) good w [unfolded ok [THEN eqTrueI]] step]
  have evs: "gateway_run env cfg (arrivals (tx # tr)) g
      = gateway_run env cfg (arrivals tr) (gateway_run env cfg [InboundTop, InboundNext t (Datagram x True)] g)"
    by (simp add: arrivals_def tx)
  show ?case
  proof (cases n)
    case 0
    then have last: "out = Forward q" "outs' = []" using Cons.prems(5) by (simp_all add: outs)
    then have "tr = []" using run by (cases tr) (auto split: option.splits)
    then show ?thesis
      unfolding evs fs(2) [OF last(1) Cons.prems(6)] using Cons.prems(1) by (simp add: arrivals_def) (simp add: write_inner_def took_in_def)
  next
    case (Suc m)
    then have buf: "out = Buffered" and rest: "map snd outs' = replicate m Buffered @ [Forward q]"
      using Cons.prems(5) by (simp_all add: outs)
    let ?g = "took_in g w bs"
    have "let g' = gateway_run env cfg (arrivals tr) ?g
        in written g' = written ?g @ [r] \<and> ims_esp_policy g' = pol \<and> listening g'"
      by (rule Cons.IH [OF _ _ _ _ rest])
        (use Cons.prems acc run in \<open>simp_all add: took_in_def [of g w bs]\<close>, simp_all add: listening_def)
    then show ?thesis unfolding evs fs(1) [OF buf] by (simp add: took_in_def)
  qed
qed

section \<open>The fragments of a packet\<close>

lemma fragment_count:
  assumes "0 < chunk"
  shows "length (fragment_ranges chunk offset len) \<le> (len - offset) div chunk + 1"
  using assms
proof (induction chunk offset len rule: fragment_ranges.induct)
  case (1 chunk offset len)
  show ?case
  proof (cases "len \<le> offset + chunk")
    case True
    then show ?thesis by (subst fragment_ranges.simps) (simp add: Let_def min_def)
  next
    case False
    then have "(len - offset) div chunk = (len - (offset + chunk)) div chunk + 1"
      using 1(2) by (subst div_if) (simp add: diff_diff_left)
    then show ?thesis using 1 False by (subst fragment_ranges.simps) (simp add: Let_def min_def)
  qed
qed

lemma fragments_of_whole:
  assumes p: "parse_ip q = Inr ip" "payload_end ip = length q" and m: "OUTER_TUNNEL_INNER_IP_MAX < length q"
    and fs: "fragment_inner_packet ident q OUTER_TUNNEL_INNER_IP_MAX = (ident', fs)"
  shows "length fs \<le> 64" "\<forall>f \<in> set fs. inner_next_header f \<noteq> None"
proof -
  have m68: "68 \<le> OUTER_TUNNEL_INNER_IP_MAX" by (simp add: OUTER_TUNNEL_INNER_IP_MAX_def)
  obtain h n where frag: "inb.fragmented (fragment_key q ident) fs h n"
    by (rule fragmented_inbound [OF p m68 m fs])
  have next_header: "has_key view_inbound k f \<Longrightarrow> inner_next_header f \<noteq> None" for f k
    by (auto simp: has_key_def view_inbound_def inbound_fragment_info_def inner_next_header_def Let_def
        split: if_splits option.splits)
  have "\<forall>f \<in> set fs. has_key view_inbound (fragment_key q ident) f" using frag by (simp add: inb.fragmented_def)
  then show "\<forall>f \<in> set fs. inner_next_header f \<noteq> None" using next_header by blast
  show "length fs \<le> 64"
  proof (cases "ip_version ip = 4")
    case True
    note w = whole_v4 [OF p True m68 m refl refl]
    define chunk where "chunk = (OUTER_TUNNEL_INNER_IP_MAX - ihl_of q) div 8 * 8"
    have "1296 \<le> OUTER_TUNNEL_INNER_IP_MAX - ihl_of q" using w(3) by (simp add: OUTER_TUNNEL_INNER_IP_MAX_def)
    from div_le_mono [OF this, of 8] have chunk: "1296 \<le> chunk" by (simp add: chunk_def)
    have len: "length q < 65536" using w(5) unat_u16_less [of "be16_at q 2"] by linarith
    have "length fs \<le> (length q - ihl_of q) div chunk + 1"
      using fs w(10) [of ident] fragment_count [of chunk 0 "length q - ihl_of q"] chunk by (auto simp: chunk_def)
    also have "(length q - ihl_of q) div chunk \<le> (length q - ihl_of q) div 1296"
      using chunk by (intro div_le_mono2) simp_all
    also have "\<dots> \<le> 65536 div 1296" using len by (intro div_le_mono) simp
    finally show ?thesis by simp
  next
    case False
    note w = whole_v6 [OF p False m68 m refl refl]
    define chunk where "chunk = (OUTER_TUNNEL_INNER_IP_MAX - 48) div 8 * 8"
    have chunk: "chunk = 1304" by (simp add: chunk_def OUTER_TUNNEL_INNER_IP_MAX_def)
    have len: "length q < 65576" using w(3) unat_u16_less [of "be16_at q 4"] by linarith
    have "length fs \<le> (length q - 40) div chunk + 1"
      using fs w(9) [of ident] fragment_count [of chunk 0 "length q - 40"] chunk by (auto simp: chunk_def)
    also have "(length q - 40) div chunk \<le> 65576 div 1304" unfolding chunk using len by (intro div_le_mono) simp
    finally show ?thesis by simp
  qed
qed

text \<open>What a whole packet is at the other end: itself when it fits one frame, else put together again.\<close>

definition arrived :: "bytes \<Rightarrow> bytes" where
  "arrived q = (if length q \<le> OUTER_TUNNEL_INNER_IP_MAX then q else defragmented q)"

lemma whole_arrives:
  assumes p: "parse_ip q = Inr ip" "payload_end ip = length q" and whole: "inbound_fragment_info q = Some None"
    and fs: "fragment_inner_packet ident q OUTER_TUNNEL_INNER_IP_MAX = (ident', fs)"
    and fresh: "map_of bs (fragment_key q ident) = None"
    and all: "mset (map snd tr) = mset fs" and time: "\<forall>(t, x) \<in> set tr. t0 \<le> t \<and> t < t0 + from_secs 3"
  obtains outs where "reassemble_run reassemble_inbound_ip_fragment tr bs = Some outs"
    "map snd outs = replicate (length fs - 1) Buffered @ [Forward (arrived q)]"
proof (cases "length q \<le> OUTER_TUNNEL_INNER_IP_MAX")
  case True
  then have "fs = [q]" using fs by (simp add: fragment_inner_packet_def)
  then have "map snd tr = [q]" using all by (simp del: mset_map)
  then obtain t where "tr = [(t, q)]" by (cases tr) auto
  then show ?thesis
    using that [of "[(q, Forward q)]"] True \<open>fs = [q]\<close> by (simp add: reassemble_inbound_ip_fragment_def whole arrived_def)
next
  case False
  then have m: "68 \<le> OUTER_TUNNEL_INNER_IP_MAX" "OUTER_TUNNEL_INNER_IP_MAX < length q"
    by (simp_all add: OUTER_TUNNEL_INNER_IP_MAX_def)
  let ?k = "fragment_key q ident"
  obtain h n where frag: "inb.fragmented ?k fs h n" "fits_in h n"
      "finish_in h n @ concat (map (snd \<circ> inb.piece) fs) = defragmented q"
    by (rule fragmented_inbound [OF p m fs])
  have got: "mset ([] @ map snd tr) = mset fs" using all by simp
  obtain outs where run: "reassemble_run reassemble_inbound_ip_fragment tr bs = Some outs"
    using inb.run_total [OF frag(1,2) _ got time, of bs] fresh by (auto simp: inb.holds_def)
  have keyed: "\<forall>f \<in> set fs. has_key view_inbound ?k f" using frag(1) by (simp add: inb.fragmented_def)
  then have "\<forall>f \<in> set (map snd tr). has_key view_inbound ?k f" using all by (metis mset_eq_setD)
  then have filt: "filter (has_key view_inbound ?k) (map snd tr) = map snd tr" by (simp add: filter_id_conv)
  have "map fst outs = map snd tr" using run
    by (induction tr arbitrary: bs outs) (auto split: option.splits)
  then have "\<forall>r \<in> set outs. has_key view_inbound ?k (fst r)"
    using \<open>\<forall>f \<in> set (map snd tr). has_key view_inbound ?k f\<close> by (metis image_eqI set_map)
  then have "filter (has_key view_inbound ?k \<circ> fst) outs = outs" by (simp add: filter_id_conv)
  with inb.delivered [OF frag(1,2) fresh _ time run] filt all frag(3)
  have "map snd outs = replicate (length fs - 1) Buffered @ [Forward (defragmented q)]" by simp
  with run that False show ?thesis by (simp add: arrived_def)
qed

text \<open>Putting a packet together again changes none of the fields its receiver reads.\<close>

lemma parse_defragmented:
  assumes "parse_ip q = Inr ip"
  shows "parse_ip (defragmented q) = Inr ip" "ip_payload ip (defragmented q) = ip_payload ip q"
proof -
  have "parse_ip (defragmented q) = Inr ip \<and> ip_payload ip (defragmented q) = ip_payload ip q"
  proof (cases "ip_version ip = 4")
    case False
    then show ?thesis using parse_v6_facts(1) [OF assms False] assms by (simp add: defragmented_def)
  next
    case True
    note f = parse_v4_facts [OF assms True]
    let ?n = "ihl_of q"
    define h where "h = with_checksum (put (take ?n q) 6 [0, 0])"
    let ?d = "h @ drop ?n q"
    have d: "defragmented q = ?d" using f(1) by (simp add: defragmented_def h_def)
    have len: "length (take ?n q) = ?n" using f by simp
    have lenh: "length h = ?n" using f len by (simp add: h_def)
    have field: "j < ?n \<Longrightarrow> j \<noteq> 6 \<Longrightarrow> j \<noteq> 7 \<Longrightarrow> j \<noteq> 10 \<Longrightarrow> j \<noteq> 11 \<Longrightarrow> h ! j = q ! j" for j
      using f(2,5) len by (auto simp: h_def nth_with_checksum nth_put)
    have bytes: "?d ! 0 = q ! 0" "?d ! 9 = q ! 9" "?d ! 2 = q ! 2" "?d ! 3 = q ! 3"
      using field [of 0] field [of 9] field [of 2] field [of 3] f(2) lenh by (simp_all add: nth_append)
    then have total: "be16_at ?d 2 = be16_at q 2" by (simp add: be16_at_def)
    have addr: "slice_of ?d 12 16 = slice_of q 12 16" "slice_of ?d 16 20 = slice_of q 16 20"
      using f lenh field by (auto simp: slice_of_def intro!: nth_equalityI simp: nth_append)
    have lend: "length ?d = length q" using lenh f by simp
    have ihl: "ihl_of ?d = ?n" using bytes(1) by (simp add: ihl_of_def)
    have nibble: "ip_nibble ?d = Some 4" using f(1) bytes(1) lend by (auto simp: ip_nibble_nth split: if_splits)
    have "20 \<le> length q" using f by simp
    then have "parse_v4 ?d = Inr ip"
      using f by (simp only: parse_v4_def lend ihl total addr bytes(2) Let_def) (simp add: f(6) [symmetric])
    moreover have "ip_payload ip ?d = ip_payload ip q"
      using lenh f(2,3,4) by (simp add: ip_payload_def f(6) slice_of_def)
    ultimately show ?thesis using nibble by (simp add: d parse_ip_def)
  qed
  then show "parse_ip (defragmented q) = Inr ip" "ip_payload ip (defragmented q) = ip_payload ip q" by blast+
qed

lemma parse_arrived:
  assumes "parse_ip q = Inr ip"
  shows "parse_ip (arrived q) = Inr ip" "ip_payload ip (arrived q) = ip_payload ip q"
  using parse_defragmented [OF assms] assms by (simp_all add: arrived_def)

section \<open>From one end to the other\<close>

text \<open>The wire packet of the inner layer is whole and not a fragment when the packet it was made of is.\<close>

lemma rebuilt_whole:
  assumes p: "parse_ip p = Inr ip" and out: "rebuild_with_payload ip p nh payload = Inr q"
    and nofrag: "ipv4_fragment_info p = None" and nh: "nh \<noteq> 44"
  shows "inbound_fragment_info q = Some None"
proof (cases "ip_version ip = 4")
  case False
  note f = parse_v6_facts [OF p False] and r = rebuild_parses [OF p out]
  have v: "ip_version (ip\<lparr>payload_end := header_len ip + length payload, ip_next_header := nh\<rparr>) \<noteq> 4"
    using False by simp
  note f' = parse_v6_facts [OF r(1) v]
  have "q ! 6 = nh" using arg_cong [OF f'(3), of ip_next_header] by simp
  with f'(1) nh show ?thesis by (simp add: inbound_fragment_info_def)
next
  case True
  note f = parse_v4_facts [OF p True] and r = rebuild_parses [OF p out]
  have v: "ip_version (ip\<lparr>payload_end := header_len ip + length payload, ip_next_header := nh\<rparr>) = 4"
    using True by simp
  note f' = parse_v4_facts [OF r(1) v]
  have len: "length (take (ihl_of p) p) = ihl_of p" using f by simp
  have "q = with_checksum (put (put (take (ihl_of p) p) 2 (u16_be (word_of_nat (ihl_of p + length payload)))) 9 [nh]) @ payload"
    using out True f(6) by (simp add: rebuild_with_payload_def rebuild_v4_def Let_def split: if_splits)
  then have "q ! 6 = p ! 6" "q ! 7 = p ! 7"
    using f(2,5) len by (simp_all add: nth_append nth_with_checksum nth_put)
  then have "be16_at q 6 = be16_at p 6" by (simp add: be16_at_def)
  moreover have "20 \<le> length p" using f by simp
  ultimately show ?thesis
    using f'(1) nofrag f(1) by (auto simp: inbound_fragment_info_def ipv4_fragment_info_def Let_def split: if_splits)
qed

text \<open>The same datagram: version, addresses, protocol and payload agree (header fields that only
  describe its transport, such as the identification, may differ).\<close>

definition same_datagram :: "bytes \<Rightarrow> bytes \<Rightarrow> bool" where
  "same_datagram p r \<longleftrightarrow>
    (case (parse_ip p, parse_ip r) of
       (Inr a, Inr b) \<Rightarrow> ip_version b = ip_version a \<and> ip_src b = ip_src a \<and> ip_dst b = ip_dst a
         \<and> ip_next_header b = ip_next_header a \<and> ip_payload b r = ip_payload a p
     | _ \<Rightarrow> False)"

text \<open>The inner layer through a gateway: as \<open>tunnel_step\<close>, but the wire packet may have been fragmented
  and put together again on the way.\<close>

lemma inner_layer_delivers:
  assumes laws: "crypto_laws c" and iv16: "\<forall>iv. rnd = Some iv \<longrightarrow> length iv = 16"
    and mirror: "policy_mirror p q" and idx: "ims_outbound_flow_index packet p = Some (i, nh)"
    and ip: "parse_ip packet = Inr ip" and len: "length packet \<le> 65000"
    and sent: "protect_ims_esp_outbound_if_needed c rnd le packet (Some p) = (p', Inr out)"
  obtains p1 q1 wnh payload r where "p' = Some p1" "policy_mirror p1 q1" "wnh = 50 \<or> wnh = 17"
    "rebuild_with_payload ip packet wnh payload = Inr out"
    "unprotect_ims_esp_inbound_if_needed c (arrived out) (Some q) = (Some q1, Inr r)" "same_datagram packet r"
proof -
  from laws iv16 mirror idx ip sent obtain p1 q1 wnh payload where t: "p' = Some p1" "policy_mirror p1 q" "policy_mirror p1 q1"
    and wnh: "wnh = 50 \<or> wnh = 17" and out: "rebuild_with_payload ip packet wnh payload = Inr out"
    and recv: "\<forall>arr ip'. parse_ip out = Inr ip' \<longrightarrow> parse_ip arr = Inr ip' \<longrightarrow> ip_payload ip' arr = payload
      \<longrightarrow> unprotect_ims_esp_inbound_if_needed c arr (Some q)
        = (Some q1, rebuild_with_payload ip' arr nh (ip_payload ip packet))"
    by (rule tunnel_transport)
  define ip' where "ip' = ip\<lparr>payload_end := header_len ip + length payload, ip_next_header := wnh\<rparr>"
  have parsed: "parse_ip out = Inr ip'" using rebuild_parses(1) [OF ip out] by (simp add: ip'_def)
  note arr = parse_arrived [OF parsed]
  have "header_len ip' + length (ip_payload ip packet) \<le> u16_max"
    using payload_within [OF ip] len by (simp add: ip'_def)
  then obtain r where r: "rebuild_with_payload ip' (arrived out) nh (ip_payload ip packet) = Inr r"
    by (rule rebuild_total [OF arr(1)])
  have nh: "nh = ip_next_header ip" by (rule outbound_index_facts [OF idx ip])
  note pr = rebuild_parses(1) [OF arr(1) r]
  have "same_datagram packet r"
    using rebuilt_payload [OF arr(1) r pr] by (simp add: same_datagram_def ip pr ip'_def nh)
  moreover have "unprotect_ims_esp_inbound_if_needed c (arrived out) (Some q) = (Some q1, Inr r)"
    using recv parsed arr rebuilt_payload [OF ip out parsed] r by simp
  ultimately show ?thesis using that t wnh out by blast
qed

lemma rebuilt_key:
  assumes p: "parse_ip p = Inr ip" and out: "rebuild_with_payload ip p nh payload = Inr q"
  shows "fragment_key q ident = fragment_key p ident" "payload_end (projr (parse_ip q)) = length q"
    "inner_next_header q \<noteq> None"
proof -
  note r = rebuild_parses [OF p out]
  let ?ip = "ip\<lparr>payload_end := header_len ip + length payload, ip_next_header := nh\<rparr>"
  show "payload_end (projr (parse_ip q)) = length q" using r by simp
  have "fragment_key q ident = fragment_key p ident \<and> inner_next_header q \<noteq> None"
  proof (cases "ip_version ip = 4")
    case False
    then have v: "ip_version ?ip \<noteq> 4" by simp
    note f = parse_v6_facts [OF p False] and f' = parse_v6_facts [OF r(1) v]
    have "V6 (slice_of q 8 24) = V6 (slice_of p 8 24)" "V6 (slice_of q 24 40) = V6 (slice_of p 24 40)"
      using arg_cong [OF f(3), of ip_src] arg_cong [OF f'(3), of ip_src] arg_cong [OF f(3), of ip_dst]
        arg_cong [OF f'(3), of ip_dst] by simp_all
    then show ?thesis using f(1) f'(1) by (simp add: fragment_key_def inner_next_header_def)
  next
    case True
    then have v: "ip_version ?ip = 4" by simp
    note f = parse_v4_facts [OF p True] and f' = parse_v4_facts [OF r(1) v]
    have len: "length (take (ihl_of p) p) = ihl_of p" using f by simp
    have "q = with_checksum (put (put (take (ihl_of p) p) 2 (u16_be (word_of_nat (ihl_of p + length payload)))) 9 [nh]) @ payload"
      using out True f(6) by (simp add: rebuild_with_payload_def rebuild_v4_def Let_def split: if_splits)
    then have "q ! 4 = p ! 4" "q ! 5 = p ! 5"
      using f(2,5) len by (simp_all add: nth_append nth_with_checksum nth_put)
    then have "be16_at q 4 = be16_at p 4" by (simp add: be16_at_def)
    moreover have "V4 (slice_of q 12 16) = V4 (slice_of p 12 16)" "V4 (slice_of q 16 20) = V4 (slice_of p 16 20)"
      using arg_cong [OF f(6), of ip_src] arg_cong [OF f'(6), of ip_src] arg_cong [OF f(6), of ip_dst]
        arg_cong [OF f'(6), of ip_dst] by simp_all
    ultimately show ?thesis using f(1) f'(1) by (simp add: fragment_key_def inner_next_header_def)
  qed
  then show "fragment_key q ident = fragment_key p ident" "inner_next_header q \<noteq> None" by blast+
qed

text \<open>The frames of a whole wire packet, given to the other end in any order.\<close>

lemma frames_accepted:
  assumes "tracks_window w A" and "window_size w = 64" and "unat (highest_sequence w) < s" and "n \<le> 64"
    and "s + n \<le> u32_max + 1" and "mset ns = mset [s..<s + n]"
  shows "accepted_run accept_bit w (map word_of_nat ns) = map word_of_nat ns"
proof (rule accepts_block [where lo = s])
  have set_ns: "set ns = {s..<s + n}" using assms(6) by (metis mset_eq_setD set_upt)
  have dist: "distinct ns" using assms(6) by (metis distinct_upt mset_eq_imp_distinct_iff)
  have u: "unat (word_of_nat k :: u64) = k" if "k \<in> set ns" for k using that set_ns assms(5) by simp
  show "tracks_window w A" by (rule assms(1))
  show "distinct (map word_of_nat ns :: u64 list)"
    using dist u by (simp add: distinct_map inj_on_def) metis
  have "s \<le> unat x" if "x \<in> set (map word_of_nat ns :: u64 list)" for x using that u set_ns by auto
  moreover have "unat a < s" if "a \<in> A" for a using assms(1,3) that by (auto simp: tracks_window_def)
  ultimately show "set (map word_of_nat ns) \<inter> A = {}" by fastforce
  show "\<forall>x \<in> set (map word_of_nat ns :: u64 list). s \<le> unat x \<and> unat x < s + unat (window_size w) \<and> x \<noteq> 0"
  proof
    fix x :: u64 assume "x \<in> set (map word_of_nat ns)"
    then obtain k where k: "x = word_of_nat k" "k \<in> set ns" by auto
    then have "unat x = k" "s \<le> k" "k < s + n" using u set_ns by auto
    moreover from this assms(3) have "x \<noteq> 0" by auto
    ultimately show "s \<le> unat x \<and> unat x < s + unat (window_size w) \<and> x \<noteq> 0" using assms(2,4) by simp
  qed
  show "unat (highest_sequence w) < s + unat (window_size w)" using assms(3) by simp
qed

lemma wire_packet_delivered:
  assumes ready: "end_ready env cfg" and ends: "other_end env cfg env' cfg'"
    and q: "parse_ip q = Inr ip" "payload_end ip = length q" "inbound_fragment_info q = Some None" "inner_next_header q \<noteq> None"
    and fs: "fragment_inner_packet ident q OUTER_TUNNEL_INNER_IP_MAX = (ident', fs)"
    and g: "sequence_number g = word_of_nat s" "s \<noteq> 0" "s + 64 \<le> u32_max + 1"
    and h: "listening h" "tracks_window (replay h) A" "window_size (replay h) = 64" "unat (highest_sequence (replay h)) < s"
      "map_of (inbound_fragment_buffers h) (fragment_key q ident) = None"
      "unprotect_ims_esp_inbound_if_needed (env_crypto env') (arrived q) (ims_esp_policy h) = (pol, Inr r)"
  shows "\<exists>xs hl att. send_fragments env cfg fs g
      = (g\<lparr>sequence_number := word_of_nat (s + length xs), gw_health := hl, attempted_frames := att,
           sent_frames := sent_frames g @ xs\<rparr>, False)
    \<and> (\<forall>tr t0. mset (map snd tr) = mset xs \<longrightarrow> (\<forall>(t, x) \<in> set tr. t0 \<le> t \<and> t < t0 + from_secs 3) \<longrightarrow>
        (let h' = gateway_run env' cfg' (arrivals tr) h
         in written h' = written h @ [r] \<and> ims_esp_policy h' = pol \<and> listening h'))"
proof -
  have fs64: "length fs \<le> 64" "\<forall>f \<in> set fs. inner_next_header f \<noteq> None"
  proof -
    have "length fs \<le> 64 \<and> (\<forall>f \<in> set fs. inner_next_header f \<noteq> None)"
    proof (cases "length q \<le> OUTER_TUNNEL_INNER_IP_MAX")
      case True
      then show ?thesis using fs q(4) by (auto simp: fragment_inner_packet_def)
    next
      case False
      then show ?thesis using fragments_of_whole [OF q(1,2) _ fs] by simp
    qed
    then show "length fs \<le> 64" "\<forall>f \<in> set fs. inner_next_header f \<noteq> None" by blast+
  qed
  have small: "s + length fs \<le> u32_max + 1" using g(3) fs64(1) by simp
  from send_fragments_all [OF ready fs64(2) g(1,2) small] obtain xs hl att where num: "numbered env cfg s fs xs"
    and sent: "send_fragments env cfg fs g
      = (g\<lparr>sequence_number := word_of_nat (s + length fs), gw_health := hl, attempted_frames := att, sent_frames := sent_frames g @ xs\<rparr>, False)"
    by blast
  note nf = numbered_frames [OF ready ends num small]
  have "let h' = gateway_run env' cfg' (arrivals tr) h
         in written h' = written h @ [r] \<and> ims_esp_policy h' = pol \<and> listening h'"
    if tr: "mset (map snd tr) = mset xs" and time: "\<forall>(t, x) \<in> set tr. t0 \<le> t \<and> t < t0 + from_secs 3" for tr t0
  proof -
    have sets: "set (map snd tr) = set xs" using tr by (metis mset_eq_setD)
    have good: "\<forall>(t, x) \<in> set tr. good_frame env' cfg' x"
      using nf(1) sets by (force simp: list_all_iff)
    have "mset (map (frame_number \<circ> snd) tr) = mset (map frame_number xs)"
      using arg_cong [OF tr, of "image_mset frame_number"] by (simp add: image_mset.compositionality)
    then have ns: "mset (map (frame_number \<circ> snd) tr) = mset [s..<s + length fs]" by (simp only: nf(3))
    have eq: "map (\<lambda>(t, x). word_of_nat (frame_number x)) tr = (map word_of_nat (map (frame_number \<circ> snd) tr) :: u64 list)"
      by (auto simp: case_prod_beta)
    have acc: "accepted_run accept_bit (replay h) (map (\<lambda>(t, x). word_of_nat (frame_number x)) tr)
        = map (\<lambda>(t, x). word_of_nat (frame_number x)) tr"
      unfolding eq by (rule frames_accepted [OF h(2,3,4) fs64(1) small ns])
    let ?otr = "map (\<lambda>(t, x). (t, opened env' cfg' x)) tr"
    have "mset (map snd ?otr) = mset (map (opened env' cfg') xs)"
      using arg_cong [OF tr, of "image_mset (opened env' cfg')"] by (simp add: image_mset.compositionality case_prod_beta comp_def)
    then have all: "mset (map snd ?otr) = mset fs" by (simp only: nf(2))
    have otime: "\<forall>(t, x) \<in> set ?otr. t0 \<le> t \<and> t < t0 + from_secs 3" using time by auto
    obtain outs where outs: "reassemble_run reassemble_inbound_ip_fragment ?otr (inbound_fragment_buffers h) = Some outs"
      "map snd outs = replicate (length fs - 1) Buffered @ [Forward (arrived q)]"
      by (rule whole_arrives [OF q(1-3) fs h(5) all otime])
    show ?thesis by (rule arrivals_written [OF h(1) good acc outs h(6)])
  qed
  with sent nf(4) show ?thesis by (intro exI [of _ xs] exI [of _ hl] exI [of _ att]) simp
qed

section \<open>Properties\<close>

text \<open>
  C1: From one gateway to the other.  A SIP packet that the outbound forwarder of one end takes from its
  device, for a flow of the inner policy, is sent as some frames; given to the inbound forwarder of
  the other end (the SPI and keys of the tunnel and the inner policy mirrored) in any order within
  three seconds, they make it write exactly one packet, and that is the datagram: same version,
  addresses, protocol and payload.  The packet may be of any size up to 65000 octets, so this covers
  fragmented and unfragmented ones, raw and UDP-encapsulated inner ESP, both address families and all
  supported algorithms; afterwards both ends are ready for the next packet.
\<close>

theorem gateway_delivers:
  assumes "end_ready env cfg" and "other_end env cfg env' cfg'"
    and "ims_esp_policy g = Some p" and "sendable p packet iv" and "\<forall>f \<in> set (flows p). room_for 1 f"
    and "ipv4_fragment_info packet = None"
    and "sequence_number g = word_of_nat s" and "s \<noteq> 0" and "s + 64 \<le> u32_max + 1"
    and "ims_esp_policy h = Some q" and "policy_mirror p q" and "listening h"
    and "tracks_window (replay h) A" and "window_size (replay h) = 64" and "unat (highest_sequence (replay h)) < s"
    and "map_of (inbound_fragment_buffers h) (fragment_key packet (inner_fragment_id g)) = None"
    and "outbound_packet env cfg now iv packet g = (g', stop)" and "sent_frames g' = sent_frames g @ xs"
    and "mset (map snd tr) = mset xs" and "\<forall>(t, x) \<in> set tr. t0 \<le> t \<and> t < t0 + from_secs 3"
  shows "let h' = gateway_run env' cfg' (arrivals tr) h
    in \<not> stop \<and> (\<exists>r. written h' = written h @ [r] \<and> same_datagram packet r)
     \<and> (\<exists>p1 q1. ims_esp_policy g' = Some p1 \<and> ims_esp_policy h' = Some q1 \<and> policy_mirror p1 q1)
     \<and> sequence_number g' = word_of_nat (s + length xs) \<and> listening h'"
proof -
  obtain i nh where idx: "ims_outbound_flow_index packet p = Some (i, nh)"
    and iv16: "\<forall>v. iv = Some v \<longrightarrow> length v = 16" and len: "length packet \<le> 65000"
    using assms(4) by (auto simp: sendable_def split: option.splits)
  then obtain ip where ip: "parse_ip packet = Inr ip"
    by (auto simp: ims_outbound_flow_index_def split: sum.splits)
  note ix = outbound_index_facts [OF idx ip]
  have laws: "crypto_laws (env_crypto env)" using assms(1) by (simp add: end_ready_def)
  have room: "room_for 1 (flows p ! i)" using assms(5) ix(1) by simp
  obtain pol out where sent: "protect_ims_esp_outbound_if_needed (env_crypto env) iv (env_little_endian env) packet (Some p)
      = (pol, Inr out)"
    by (rule send_total [OF laws assms(4) idx ip room])
  from laws iv16 assms(11) idx ip len sent obtain p1 q1 wnh payload r where pol: "pol = Some p1" and mirror: "policy_mirror p1 q1"
    and wnh: "wnh = 50 \<or> wnh = 17" and out: "rebuild_with_payload ip packet wnh payload = Inr out"
    and opened: "unprotect_ims_esp_inbound_if_needed (env_crypto env) (arrived out) (Some q) = (Some q1, Inr r)"
    and same: "same_datagram packet r"
    by (rule inner_layer_delivers)
  obtain ipo where po: "parse_ip out = Inr ipo" using rebuild_parses(1) [OF ip out] by blast
  note rk = rebuilt_key [OF ip out]
  have pe: "payload_end ipo = length out" using rk(2) po by simp
  have "wnh \<noteq> 44" using wnh by auto
  note whole = rebuilt_whole [OF ip out assms(6) this]
  have step4: "reassemble_outbound_ip_fragment now packet (ipv4_fragment_buffers g) = (ipv4_fragment_buffers g, Forward packet)"
    by (simp add: reassemble_outbound_ip_fragment_def assms(6))
  have step6: "reassemble_outbound_ipv6_fragment now packet (ipv6_fragment_buffers g) = (ipv6_fragment_buffers g, Forward packet)"
  proof (cases "ip_version ip = 4")
    case True
    then show ?thesis using parse_v4_facts(1) [OF ip True] by (simp add: reassemble_outbound_ipv6_fragment_def)
  next
    case False
    then have "packet ! 6 \<noteq> 44" using arg_cong [OF parse_v6_facts(3) [OF ip False], of ip_next_header] ix(4,5) by auto
    then show ?thesis by (simp add: reassemble_outbound_ipv6_fragment_def)
  qed
  obtain ident fs where fs: "fragment_inner_packet (inner_fragment_id g) out OUTER_TUNNEL_INNER_IP_MAX = (ident, fs)"
    by (cases "fragment_inner_packet (inner_fragment_id g) out OUTER_TUNNEL_INNER_IP_MAX")
  define g1 where "g1 = g\<lparr>ipv4_fragment_buffers := ipv4_fragment_buffers g, ipv6_fragment_buffers := ipv6_fragment_buffers g,
    ims_esp_policy := Some p1, inner_fragment_id := ident\<rparr>"
  have packet: "outbound_packet env cfg now iv packet g = send_fragments env cfg fs g1"
    by (simp add: outbound_packet_def step4 step6 assms(3) sent pol fs g1_def)
  have g1: "sequence_number g1 = word_of_nat s" by (simp add: g1_def assms(7))
  have crypto: "env_crypto env' = env_crypto env" using assms(2) by (simp add: other_end_def)
  have fresh: "map_of (inbound_fragment_buffers h) (fragment_key out (inner_fragment_id g)) = None"
    using assms(16) rk(1) by simp
  have unprot: "unprotect_ims_esp_inbound_if_needed (env_crypto env') (arrived out) (ims_esp_policy h) = (Some q1, Inr r)"
    using opened by (simp add: crypto assms(10))
  from wire_packet_delivered [OF assms(1,2) po pe whole rk(3) fs g1 assms(8,9,12-15) fresh unprot]
  obtain ys hl att where ys: "send_fragments env cfg fs g1
      = (g1\<lparr>sequence_number := word_of_nat (s + length ys), gw_health := hl, attempted_frames := att, sent_frames := sent_frames g1 @ ys\<rparr>, False)"
    and del: "mset (map snd tr) = mset ys \<Longrightarrow> \<forall>(t, x) \<in> set tr. t0 \<le> t \<and> t < t0 + from_secs 3 \<Longrightarrow>
        (let h' = gateway_run env' cfg' (arrivals tr) h
         in written h' = written h @ [r] \<and> ims_esp_policy h' = Some q1 \<and> listening h')" for tr t0
    by blast
  have "ys = xs" using assms(17,18) ys packet by (simp add: g1_def)
  with del [OF _ assms(20)] assms(17,19) ys packet mirror same show ?thesis
    by (auto simp: Let_def g1_def)
qed

definition sample_gateway :: "ImsEspRuntimePolicy \<Rightarrow> TunGateway" where
  "sample_gateway p = (gateway_new 0)\<lparr>ims_esp_policy := Some p\<rparr>"

theorem gateway_delivers_witness:
  "\<exists>g' stop. outbound_packet sample_env sample_config 0 None sample_sip (sample_gateway sample_here) = (g', stop)
    \<and> (let h' = gateway_run sample_env sample_config (arrivals (rev (map (Pair 0) (sent_frames g')))) (sample_gateway sample_there)
       in \<not> stop \<and> (\<exists>r. written h' = [r] \<and> same_datagram sample_sip r) \<and> listening h')"
proof -
  let ?g = "sample_gateway sample_here" and ?h = "sample_gateway sample_there"
  obtain g' stop where out: "outbound_packet sample_env sample_config 0 None sample_sip ?g = (g', stop)"
    by (cases "outbound_packet sample_env sample_config 0 None sample_sip ?g")
  let ?tr = "rev (map (Pair 0) (sent_frames g'))"
  have ready: "end_ready sample_env sample_config" and ends: "other_end sample_env sample_config sample_env sample_config"
    by (simp_all add: end_ready_def other_end_def sample_env_def sample_config_def sample_crypto_laws sample_secrets_def
        cipher_ready_def esp_integrity_len_def opposite_def)
  have room: "\<forall>f \<in> set (flows sample_here). room_for 1 f" using sample_tunnel(3) by (auto simp: room_for_def)
  have whole: "ipv4_fragment_info sample_sip = None"
    by (simp add: ipv4_fragment_info_def sample_sip_def be16_at_def u16_from_be_def be_to_nat_def Let_def)
  have g: "ims_esp_policy ?g = Some sample_here" "sequence_number ?g = word_of_nat 1" "(1::nat) \<noteq> 0" "1 + 64 \<le> u32_max + 1"
    "sent_frames g' = sent_frames ?g @ sent_frames g'"
    by (simp_all add: sample_gateway_def gateway_new_def)
  have h: "ims_esp_policy ?h = Some sample_there" "listening ?h" "tracks_window (replay ?h) {}" "window_size (replay ?h) = 64"
    "unat (highest_sequence (replay ?h)) < 1" "map_of (inbound_fragment_buffers ?h) (fragment_key sample_sip (inner_fragment_id ?g)) = None"
    "written ?h = []"
    using tracks_new [of 64] by (simp_all add: sample_gateway_def gateway_new_def listening_def window_new_def)
  have tr: "mset (map snd ?tr) = mset (sent_frames g')" "\<forall>(t, x) \<in> set ?tr. 0 \<le> t \<and> t < 0 + from_secs 3"
    by (auto simp: rev_map comp_def from_secs_def)
  show ?thesis
    using gateway_delivers [OF ready ends g(1) sample_tunnel(2) room whole g(2,3,4) h(1) sample_tunnel(1) h(2-6) out g(5) tr] out
    by (intro exI [of _ g'] exI [of _ stop]) (auto simp: Let_def h(7))
qed

end
