(* ===== verification/Spec2Isabelle.thy ===== *)
theory Spec2Isabelle
  imports Ike_State_Session Ike_Dh Eap_Aka Child_Sa_Runs Sms_Runtime Register_Retry Ims_Coordinator Sms_Dispatch Sms_Store Ike_Retransmit Virtual_Sim Tun_Delivery
begin

text \<open>
  Verification of the IMS client of SimAdmin.

  The program.  SimAdmin drives cellular modems and registers their lines with the IMS of the operator,
  over the cellular bearer or over Wi-Fi (VoWiFi).  Over Wi-Fi a line sets up an IKEv2 session with the
  operator's gateway, authenticates with EAP-AKA against a SIM (or a software USIM), and carries its SIP
  traffic in an ESP tunnel in user space.  Short messages travel over SIP, and several access legs of one
  line are kept from registering, sending or storing twice.  Sources are under \<open>src/backend/src\<close>; file
  names below are relative to it, and \<open>vowifi/\<close> is \<open>connectivity/modems/ims/vowifi/\<close>.

  The parts and their theories, in the order of their dependence.

  \<^item> \<open>Rust_Prelude\<close>: \<open>Result\<close> as a sum with the \<open>?\<close> operator, fixed-width integers as words with the
    saturating and wrapping operations of Rust, big-endian fields, slices, and the contracts of a field
    codec and of a parser loop as locales, which the codecs interpret.
  \<^item> \<open>Ike_Codec\<close> (\<open>vowifi/ike_codec.rs\<close>), \<open>Ike_Payloads\<close> (\<open>ike_payloads.rs\<close>), \<open>Ike_Keys\<close> (\<open>ike_keys.rs\<close>),
    \<open>Ike_Encrypted\<close> (\<open>ike_encrypted.rs\<close>), \<open>Ike_Dh\<close> (\<open>ike_dh.rs\<close>), \<open>Eap_Aka\<close> (\<open>eap_aka.rs\<close>),
    \<open>Ike_Retransmit\<close> (\<open>ike_retransmit.rs\<close>): the layers of the key exchange.  Messages and payloads are
    records, parsers return errors as sums.
  \<^item> \<open>Ike_Eap\<close> (\<open>ike_eap.rs\<close>), \<open>Ike_Events\<close> (\<open>ike_events.rs\<close>), \<open>Ike_State\<close> (\<open>ike_state.rs\<close>): the exchange state
    over these layers, one definition per operation from the machine to its result and the machine it
    leaves.  \<open>Ike_State_Steps\<close> makes the operations calls of one interface and says of each what it can do
    to the machine; \<open>Ike_State_Runs\<close> has the invariants over runs of calls, \<open>Ike_State_Session\<close> the
    exchange with a responder.
  \<^item> \<open>Anti_Replay\<close>, \<open>Esp_Frame\<close>, \<open>Esp_Protect\<close>, \<open>Child_Sa\<close> (\<open>dataplane.rs\<close>): replay window, framing, packet
    protection and the CHILD_SA machine; \<open>Child_Sa_Runs\<close> has its runs.
  \<^item> \<open>Ip_Packet\<close>, \<open>Ip_Fragment\<close>, \<open>Ip_Fragmenter\<close>, \<open>Ims_Esp\<close>, \<open>Tun_Health\<close>, \<open>Tun_Gateway\<close> (\<open>tun_gateway.rs\<close>): the
    packets of the tunnel, reassembly and fragmentation, the inner IPsec of the registration, the health
    counters with their atomic accesses interleaved, and the forwarders as steps.  \<open>Tun_Delivery\<close> puts two
    gateways together.
  \<^item> \<open>Gsm7\<close>, \<open>Sms_Text\<close>, \<open>Sms_Address\<close>, \<open>Sms_Deliver\<close>, \<open>Sms_Submit\<close>, \<open>Sms_Runtime\<close>
    (\<open>connectivity/core/sms_codec.rs\<close>), \<open>Sms_Dedup\<close> (\<open>services/orchestrator/dedup.rs\<close>, the table of
    \<open>platform/db.rs\<close>), \<open>Sms_Store\<close> (the message table and the store paths of
    \<open>services/messaging/sms_listener.rs\<close>, \<open>cellular_ims/live.rs\<close> and \<open>api/handlers.rs\<close> as programs of database
    calls, run side by side by a step relation): short messages.
  \<^item> \<open>Ims_Access\<close>, \<open>Register_Retry\<close>, \<open>Ims_Coordinator\<close> (\<open>connectivity/core/ims_access.rs\<close>,
    \<open>register_retry.rs\<close>, \<open>ims_registration_coordinator.rs\<close>, the leases of \<open>outbound.rs\<close>), \<open>Path_Policy\<close>
    (\<open>services/orchestrator/sms_router.rs\<close>, \<open>voice_router.rs\<close>, \<open>ims_access.rs\<close>, the policies of
    \<open>platform/config.rs\<close>), \<open>Sms_Dispatch\<close> (\<open>send_sms_on_line_with_origin\<close> and its legs in
    \<open>api/handlers.rs\<close>): which access registers, when it may try again, who holds the permit, and over
    which leg a message or a call goes.
  \<^item> \<open>Milenage\<close>, \<open>Five_Codes\<close>, \<open>Virtual_Sim\<close> (\<open>connectivity/modems/ims/virtual_sim/\<close>): the software USIM.

  How the model corresponds to the code.  A struct is a record with the source's fields, an enum a
  datatype with its constructors, an integer a word of its width where it is stored or can wrap and a
  natural number where it is a length.  A method that takes \<open>&mut self\<close> takes the state and returns it;
  \<open>Result\<close> is a sum, a panic or an endless loop is \<open>None\<close>.  Loops over slices are recursive functions with
  the remaining length as measure; the expansion \<open>prf+\<close>, whose loop ends only because a digest is not
  empty, is a \<open>partial_function\<close>, shown to return for at most 255 blocks, which covers every proposal
  (at most 4080 octets).  The FIPS 186-2 generator has its count as measure.
  Operations of which other tasks can see the middle (publication and admission of the coordinator, the
  atomic accesses of the health counters, the database calls of a store path) are one step per access.  Ciphers, HMAC, digests, big integers, MD5, time formatting and random octets come from crates:
  they are arguments, their documented laws are the hypotheses \<open>crypto_laws\<close> and \<open>bigint_laws\<close>, and each
  witness discharges them with concrete functions.

  What the lemmas show.  Round trips: of the IKE codec, of encrypted messages, of ESP packets, of fragments,
  of text, addresses and submitted messages.  Reference definitions: the key schedule against RFC 7296,
  the FIPS generator against arithmetic modulo \<open>2 ^ 160\<close>, the replay window against the set of accepted
  numbers, the access decision against its rules.  Invariants over all runs: of the exchange state, the
  CHILD_SA, the SMS runtime, the retry state, the gateway.  Safety: no sequence number accepted or sent
  twice, no message identifier reused, no permit held twice, no message stored twice unless its claim was
  pruned, no chargeable submission on a line restricted to Wi-Fi, nothing accepted without its integrity
  tag.  Composition: profiles lead to keys that protect and open, responder and
  initiator agree on keys, a datagram sent by one gateway is written once by the other.

  Not modelled.  The live runtimes (\<open>vowifi/live.rs\<close>, \<open>operator.rs\<close>, \<open>cellular_ims/live.rs\<close>), the HTTP
  interface, the modem backends, device specifics, notification, automation and trunk services are
  asynchronous input and output around the parts above: sockets, processes, D-Bus, databases and timers
  that the sources only call; of \<open>cellular_ims/live.rs\<close>, \<open>api/handlers.rs\<close> and \<open>sms_listener.rs\<close> only the
  functions named above are modelled.  Inside the modelled files the opening of devices and sockets, tracing
  output and serialisation attributes are left out; the manifest lists what is left out of each part.
\<close>

end
